(* ===== verification/Kernel_Prelude.thy ===== *)
theory Kernel_Prelude
  imports Main "HOL-Library.Word"
begin

text \<open>
  The vocabulary every component theory shares.

  \<^item> Machine integers of the i686 target: \<open>u8\<close>, \<open>u16\<close>, \<open>u32\<close>, \<open>u64\<close> are words, so \<open>+\<close>, \<open>-\<close>
    and \<open>*\<close> wrap as the compiled code does; \<open>size_t\<close>, \<open>uintptr_t\<close> and pointers are \<open>u32\<close>.
  \<^item> Faults: an operation that the C code may leave by a failed \<open>assert\<close> (which prints and
    spins), by an access outside the object it indexes, by dereferencing \<open>NULL\<close>, or by not
    returning at all is a value of \<open>'a res\<close>, with the fault on the left.
  \<^item> Arrays: \<open>load\<close> and \<open>store\<close> are the bounds-checked accesses the models use for every
    \<open>a[i]\<close> of the source.
  \<^item> Generic lemmas on words, lists and sets of naturals, collected in \<open>word_nat\<close> and
    \<open>res_simps\<close>.
\<close>

unbundle bit_operations_syntax

named_theorems res_simps \<open>unfolding the fault monad and checked array accesses\<close>
named_theorems word_nat \<open>moving word arithmetic without wrap-around to the naturals\<close>

section \<open>Machine types\<close>

type_synonym u8 = "8 word"
type_synonym u16 = "16 word"
type_synonym u32 = "32 word"
type_synonym u64 = "64 word"

section \<open>Faults\<close>

datatype fault =
    Assert_Failed  \<comment> \<open>\<open>assert(b)\<close> of \<open>stdlib/assert.h\<close>: message and endless loop\<close>
  | Out_Of_Bounds  \<comment> \<open>array or buffer access outside the object\<close>
  | Null_Pointer   \<comment> \<open>dereference of \<open>NULL\<close>\<close>
  | Div_By_Zero    \<comment> \<open>integer division by zero\<close>
  | Diverges       \<comment> \<open>a loop that does not end\<close>
  | Page_Fault     \<comment> \<open>access to a page that is not present\<close>
  | Bad_Argument   \<comment> \<open>\<open>va_arg\<close> without an argument of that type\<close>

type_synonym 'a res = "fault + 'a"

definition rbind :: "'a res \<Rightarrow> ('a \<Rightarrow> 'b res) \<Rightarrow> 'b res" where
  "rbind m f = (case m of Inl e \<Rightarrow> Inl e | Inr x \<Rightarrow> f x)"

definition c_assert :: "bool \<Rightarrow> unit res" where
  "c_assert b = (if b then Inr () else Inl Assert_Failed)"

definition load :: "'a list \<Rightarrow> nat \<Rightarrow> 'a res" where
  "load xs i = (if i < length xs then Inr (xs ! i) else Inl Out_Of_Bounds)"

definition store :: "'a list \<Rightarrow> nat \<Rightarrow> 'a \<Rightarrow> 'a list res" where
  "store xs i v = (if i < length xs then Inr (xs[i := v]) else Inl Out_Of_Bounds)"

lemma rbind_simps [simp, res_simps]:
  "rbind (Inl e) f = Inl e"
  "rbind (Inr x) f = f x"
  by (simp_all add: rbind_def)

lemma rbind_cong [fundef_cong]:
  "m = m' \<Longrightarrow> (\<And>x. m' = Inr x \<Longrightarrow> f x = f' x) \<Longrightarrow> rbind m f = rbind m' f'"
  by (cases m') (simp_all add: rbind_def)

lemma rbind_Inr_iff: "rbind m f = Inr y \<longleftrightarrow> (\<exists>x. m = Inr x \<and> f x = Inr y)"
  by (cases m) auto

lemma rbind_InrE:
  assumes "rbind m f = Inr y"
  obtains x where "m = Inr x" and "f x = Inr y"
  using assms by (auto simp: rbind_Inr_iff)

lemma rbind_assoc: "rbind (rbind m f) g = rbind m (\<lambda>x. rbind (f x) g)"
  by (cases m) simp_all

lemma c_assert_simps [simp, res_simps]:
  "c_assert True = Inr ()"
  "c_assert False = Inl Assert_Failed"
  by (simp_all add: c_assert_def)

lemma c_assert_Inr_iff [simp]: "c_assert b = Inr u \<longleftrightarrow> b"
  by (simp add: c_assert_def)

lemma load_in [simp, res_simps]: "i < length xs \<Longrightarrow> load xs i = Inr (xs ! i)"
  by (simp add: load_def)

lemma load_out [simp, res_simps]: "length xs \<le> i \<Longrightarrow> load xs i = Inl Out_Of_Bounds"
  by (simp add: load_def)

lemma load_Inr_iff: "load xs i = Inr v \<longleftrightarrow> i < length xs \<and> v = xs ! i"
  by (auto simp: load_def)

lemma store_in [simp, res_simps]: "i < length xs \<Longrightarrow> store xs i v = Inr (xs[i := v])"
  by (simp add: store_def)

lemma store_out [simp, res_simps]: "length xs \<le> i \<Longrightarrow> store xs i v = Inl Out_Of_Bounds"
  by (simp add: store_def)

text \<open>A counting loop whose body may fault: \<open>rfold f [a..<b] s\<close> is \<open>for(i = a; i < b; ++i) s = f i s\<close>.\<close>

primrec rfold :: "('i \<Rightarrow> 's \<Rightarrow> 's res) \<Rightarrow> 'i list \<Rightarrow> 's \<Rightarrow> 's res" where
  "rfold f [] s = Inr s"
| "rfold f (i # is) s = rbind (f i s) (rfold f is)"

lemma rfold_append: "rfold f (xs @ ys) s = rbind (rfold f xs s) (rfold f ys)"
  by (induction xs arbitrary: s) (simp_all add: rbind_assoc cong: rbind_cong)

lemma rfold_cong [fundef_cong]:
  "xs = ys \<Longrightarrow> s = t \<Longrightarrow> (\<And>i u. i \<in> set ys \<Longrightarrow> f i u = g i u) \<Longrightarrow> rfold f xs s = rfold g ys t"
proof (induction ys arbitrary: xs s t)
  case (Cons y ys)
  have "rfold f ys = rfold g ys" using Cons.IH [OF refl refl] Cons.prems(3) by auto
  with Cons.prems show ?case by simp
qed simp

lemma rfold_Inr: "(\<And>i s. i \<in> set xs \<Longrightarrow> f i s = Inr (g i s)) \<Longrightarrow> rfold f xs s = Inr (fold g xs s)"
  by (induction xs arbitrary: s) simp_all

lemma rfold_upt_invar:
  assumes "a \<le> b" and "P a s"
    and step: "\<And>i s. a \<le> i \<Longrightarrow> i < b \<Longrightarrow> P i s \<Longrightarrow> \<exists>s'. f i s = Inr s' \<and> P (Suc i) s'"
  shows "\<exists>s'. rfold f [a..<b] s = Inr s' \<and> P b s'"
  using assms(1)
proof (induction b rule: dec_induct)
  case base
  with assms(2) show ?case by simp
next
  case (step n)
  then obtain t where "rfold f [a..<n] s = Inr t" "P n t" by auto
  with step assms(3) [of n t] show ?case by (auto simp: rfold_append)
qed

section \<open>Words read as naturals\<close>

lemma unat_plus_one [word_nat]:
  fixes i n :: "'a::len word"
  assumes "i < n"
  shows "unat (i + 1) = unat i + 1"
proof -
  have "unat i < unat n" using assms by (simp add: word_less_nat_alt)
  moreover have "unat n < 2 ^ LENGTH('a)" by simp
  ultimately have "unat i + 1 < 2 ^ LENGTH('a)" by linarith
  moreover have "unat (i + 1) = (unat i + 1) mod 2 ^ LENGTH('a)"
    by (simp add: unat_word_ariths)
  ultimately show ?thesis by simp
qed

lemma unat_plus_no_wrap [word_nat]:
  fixes a b :: "'a::len word"
  assumes "unat a + unat b < 2 ^ LENGTH('a)"
  shows "unat (a + b) = unat a + unat b"
  using assms by (simp add: unat_word_ariths)

lemma unat_diff_le [word_nat]:
  fixes a b :: "'a::len word"
  assumes "b \<le> a"
  shows "unat (a - b) = unat a - unat b"
  using assms by (rule unat_sub)

lemma unat_less: "unat (x :: 'a::len word) < 2 ^ LENGTH('a)"
  by (rule unsigned_less)

lemma unat_u32_less: "unat (x :: u32) < 4294967296"
proof -
  have "unat x < 2 ^ LENGTH(32)" by (rule unsigned_less)
  then show ?thesis by simp
qed

lemma unat_u8_less: "unat (x :: u8) < 256"
proof -
  have "unat x < 2 ^ LENGTH(8)" by (rule unsigned_less)
  then show ?thesis by simp
qed

lemma unat_of_nat_less: "n < 2 ^ LENGTH('a) \<Longrightarrow> unat (of_nat n :: 'a::len word) = n"
  by (simp add: unsigned_of_nat take_bit_nat_eq_self)

lemma of_nat_mod_u32: "(of_nat (n mod 2 ^ 32) :: u32) = of_nat n"
  by (simp add: word_unat_eq_iff unsigned_of_nat take_bit_eq_mod)

lemma unat_ucast_mod:
  "unat (ucast (x :: 'a::len word) :: 'b::len word) = unat x mod 2 ^ LENGTH('b)"
  by (simp add: unsigned_ucast_eq take_bit_eq_mod)

lemma sint_eq_iff: "sint (a :: 'a::len word) = sint b \<longleftrightarrow> a = b"
  by (auto intro: signed_word_eqI)

lemma word_upto_measure:
  fixes i n :: "'a::len word"
  assumes "i < n"
  shows "unat n - unat (i + 1) < unat n - unat i"
  using assms by (simp add: unat_plus_one [OF assms] word_less_nat_alt)

lemma div_round_up:
  fixes a b :: nat
  assumes "0 < b"
  shows "(a + (b - 1)) div b = (if a mod b = 0 then a div b else a div b + 1)"
proof -
  have "a + c = a div b * b + (a mod b + c)" for c by simp
  then have "(a + c) div b = a div b + (a mod b + c) div b" for c
    using assms by (metis div_mult_self3 less_numeral_extra(3))
  then have eq: "(a + (b - 1)) div b = a div b + (a mod b + (b - 1)) div b" .
  have lt: "a mod b < b" using assms by simp
  show ?thesis
  proof (cases "a mod b = 0")
    case True
    then show ?thesis using eq assms by simp
  next
    case False
    then have "(a mod b + (b - 1)) div b = 1"
      using lt by (intro div_nat_eqI) auto
    with False eq show ?thesis by simp
  qed
qed

section \<open>Lists\<close>

lemma replicate_numeral: "replicate (numeral n) x = x # replicate (pred_numeral n) x"
  by (simp add: numeral_eq_Suc)

lemma drop_eq_ConsD:
  assumes "drop i xs = c # r"
  shows "i < length xs" and "xs ! i = c" and "drop (i + 1) xs = r"
proof -
  show lt: "i < length xs" using assms by (rule_tac ccontr) simp
  with assms have "xs ! i # drop (i + 1) xs = c # r" by (simp add: Cons_nth_drop_Suc)
  then show "xs ! i = c" and "drop (i + 1) xs = r" by simp_all
qed

section \<open>Ranges of indices\<close>

definition range_of :: "nat \<Rightarrow> nat \<Rightarrow> nat set" where
  "range_of s n = {s..<s + n}"

lemma mem_range_of [simp]: "i \<in> range_of s n \<longleftrightarrow> s \<le> i \<and> i < s + n"
  by (simp add: range_of_def)

lemma range_of_0 [simp]: "range_of s 0 = {}"
  by (simp add: range_of_def)

lemma range_of_Suc_0 [simp]: "range_of s (Suc 0) = {s}"
  by (auto simp: range_of_def)

lemma finite_range_of [simp]: "finite (range_of s n)"
  by (simp add: range_of_def)

end
