(* ===== verification/Util_Bitwise.thy ===== *)
theory Util_Bitwise
  imports Kernel_Prelude
begin

text \<open>
  \<open>util/bitwise.h\<close>: reading and writing one bit of a machine word. \<open>SetBit\<close> updates the
  word through a pointer; the model returns the new word.
\<close>

definition GetBit :: "u32 \<Rightarrow> u32 \<Rightarrow> bool" where
  "GetBit word b = (drop_bit (unat b) word AND 1 \<noteq> 0)"

definition SetBit :: "u32 \<Rightarrow> u32 \<Rightarrow> bool \<Rightarrow> u32" where
  "SetBit word b value =
     (if value then word OR push_bit (unat b) 1
      else word AND NOT (push_bit (unat b) 1))"

lemma and_push_bit_1_iff:
  fixes w :: u32
  assumes "k < 32"
  shows "w AND push_bit k 1 \<noteq> 0 \<longleftrightarrow> bit w k"
proof -
  have "bit (w AND push_bit k 1) n \<longleftrightarrow> n = k \<and> bit w k" for n
    using assms by (auto simp: bit_simps)
  then show ?thesis
    by (metis bit_0_eq bit_eqI bot_apply bot_bool_def)
qed

lemma GetBit_iff: "GetBit w b \<longleftrightarrow> bit w (unat b)"
  by (simp add: GetBit_def and_one_eq bit_iff_odd_drop_bit odd_iff_mod_2_eq_one)

lemma bit_SetBit:
  assumes "unat b < 32" and "n < 32"
  shows "bit (SetBit w b v) n = (if n = unat b then v else bit w n)"
  using assms by (auto simp: SetBit_def bit_simps)

end
