(* ===== verification/Index_Allocator.thy ===== *)
theory Index_Allocator
  imports Kernel_Prelude
begin

text \<open>
  The contract between an allocator of index ranges and the managers built on it.

  \<open>index_allocator\<close> states what a client may rely on: the set of used indices, how a successful
  or refused allocation and a release change it, and that none of them faults when called inside
  the bounds. What clients need over whole histories is proved here once: \<open>client_run\<close> is the
  step relation of a client that keeps a ledger of the blocks it holds and only gives back
  blocks from that ledger.
\<close>

section \<open>Ledgers of blocks\<close>

type_synonym block = "u32 \<times> u32"

definition block_ixs :: "block \<Rightarrow> nat set" where
  "block_ixs b = range_of (unat (fst b)) (unat (snd b))"

definition ledger_ixs :: "block list \<Rightarrow> nat set" where
  "ledger_ixs L = (\<Union>b \<in> set L. block_ixs b)"

fun disjoint_ledger :: "block list \<Rightarrow> bool" where
  "disjoint_ledger [] = True"
| "disjoint_ledger (b # L) = (block_ixs b \<inter> ledger_ixs L = {} \<and> disjoint_ledger L)"

lemma ledger_ixs_simps [simp]:
  "ledger_ixs [] = {}"
  "ledger_ixs (b # L) = block_ixs b \<union> ledger_ixs L"
  by (auto simp: ledger_ixs_def)

lemma ledger_ixs_remove1_subset: "ledger_ixs (remove1 b L) \<subseteq> ledger_ixs L"
  by (induction L) auto

lemma block_ixs_subset_ledger: "b \<in> set L \<Longrightarrow> block_ixs b \<subseteq> ledger_ixs L"
  by (auto simp: ledger_ixs_def)

lemma ledger_ixs_remove1:
  assumes "disjoint_ledger L" and "b \<in> set L"
  shows "ledger_ixs (remove1 b L) = ledger_ixs L - block_ixs b"
  using assms
proof (induction L)
  case (Cons a L)
  show ?case
  proof (cases "a = b")
    case True
    with Cons.prems(1) show ?thesis by auto
  next
    case False
    with Cons.prems have "b \<in> set L" by simp
    then have "block_ixs b \<subseteq> ledger_ixs L" by (rule block_ixs_subset_ledger)
    with False Cons show ?thesis by auto
  qed
qed simp

lemma disjoint_ledger_remove1: "disjoint_ledger L \<Longrightarrow> disjoint_ledger (remove1 b L)"
proof (induction L)
  case (Cons a L)
  then show ?case using ledger_ixs_remove1_subset [of b L] by auto
qed simp

lemma disjoint_ledger_nth:
  assumes "disjoint_ledger L" and "i < j" and "j < length L"
  shows "block_ixs (L ! i) \<inter> block_ixs (L ! j) = {}"
  using assms
proof (induction L arbitrary: i j)
  case (Cons b L)
  then show ?case
  proof (cases i)
    case 0
    with Cons.prems have "L ! (j - 1) \<in> set L" by (cases j) auto
    with Cons.prems 0 show ?thesis
      using block_ixs_subset_ledger [of "L ! (j - 1)" L] by (cases j) auto
  next
    case (Suc i')
    with Cons show ?thesis by (cases j) auto
  qed
qed simp

section \<open>A client and its history\<close>

inductive client_run ::
  "('b \<Rightarrow> u32 \<Rightarrow> ('b \<times> u32) res) \<Rightarrow> ('b \<Rightarrow> u32 \<Rightarrow> u32 \<Rightarrow> 'b res) \<Rightarrow> u32 \<Rightarrow> 'b \<Rightarrow> 'b \<Rightarrow> block list \<Rightarrow> bool"
  for alloc free none b0
where
  start: "client_run alloc free none b0 b0 []"
| take: "client_run alloc free none b0 b L \<Longrightarrow> 0 < n \<Longrightarrow> alloc b n = Inr (b', r) \<Longrightarrow> r \<noteq> none
           \<Longrightarrow> client_run alloc free none b0 b' ((r, n) # L)"
| refuse: "client_run alloc free none b0 b L \<Longrightarrow> 0 < n \<Longrightarrow> alloc b n = Inr (b', none)
           \<Longrightarrow> client_run alloc free none b0 b' L"
| give: "client_run alloc free none b0 b L \<Longrightarrow> (s, n) \<in> set L \<Longrightarrow> free b s n = Inr b'
           \<Longrightarrow> client_run alloc free none b0 b' (remove1 (s, n) L)"

section \<open>The contract\<close>

locale index_allocator =
  fixes invar :: "'b \<Rightarrow> bool"
    and lo :: "'b \<Rightarrow> nat"
    and hi :: "'b \<Rightarrow> nat"
    and used :: "'b \<Rightarrow> nat set"
    and alloc :: "'b \<Rightarrow> u32 \<Rightarrow> ('b \<times> u32) res"
    and free :: "'b \<Rightarrow> u32 \<Rightarrow> u32 \<Rightarrow> 'b res"
    and none :: u32
  assumes alloc_total: "invar b \<Longrightarrow> 0 < n \<Longrightarrow> \<exists>b' r. alloc b n = Inr (b', r)"
    and alloc_keeps: "invar b \<Longrightarrow> 0 < n \<Longrightarrow> alloc b n = Inr (b', r)
          \<Longrightarrow> invar b' \<and> lo b' = lo b \<and> hi b' = hi b"
    and alloc_none: "invar b \<Longrightarrow> 0 < n \<Longrightarrow> alloc b n = Inr (b', none)
          \<Longrightarrow> used b' = used b
            \<and> \<not> (\<exists>s. lo b \<le> s \<and> s + unat n \<le> hi b \<and> range_of s (unat n) \<inter> used b = {})"
    and alloc_some: "invar b \<Longrightarrow> 0 < n \<Longrightarrow> alloc b n = Inr (b', r) \<Longrightarrow> r \<noteq> none
          \<Longrightarrow> lo b \<le> unat r \<and> unat r + unat n \<le> hi b
            \<and> block_ixs (r, n) \<inter> used b = {} \<and> used b' = used b \<union> block_ixs (r, n)"
    and free_total: "invar b \<Longrightarrow> lo b \<le> unat s \<Longrightarrow> unat s + unat n \<le> hi b
          \<Longrightarrow> \<exists>b'. free b s n = Inr b'"
    and free_keeps: "invar b \<Longrightarrow> lo b \<le> unat s \<Longrightarrow> unat s + unat n \<le> hi b \<Longrightarrow> free b s n = Inr b'
          \<Longrightarrow> invar b' \<and> lo b' = lo b \<and> hi b' = hi b \<and> used b' = used b - block_ixs (s, n)"
begin

lemma alloc_then_free:
  assumes "invar b" and "0 < n" and "alloc b n = Inr (b', r)" and "r \<noteq> none"
  shows "\<exists>b''. free b' r n = Inr b'' \<and> invar b'' \<and> used b'' = used b"
proof -
  have inv: "invar b'" and bounds: "lo b' \<le> unat r" "unat r + unat n \<le> hi b'"
    using alloc_keeps [OF assms(1-3)] alloc_some [OF assms] by auto
  then obtain b'' where "free b' r n = Inr b''" using free_total by blast
  moreover have "invar b''" and "used b'' = used b"
    using free_keeps [OF inv bounds calculation] alloc_some [OF assms] by auto
  ultimately show ?thesis by blast
qed

text \<open>Along every history the ledger is exactly what the client added to the used indices.\<close>

lemma client_run_ledger:
  assumes "client_run alloc free none b0 b L" and "invar b0"
  shows "invar b \<and> lo b = lo b0 \<and> hi b = hi b0 \<and> disjoint_ledger L
    \<and> (\<forall>(s, n) \<in> set L. 0 < n \<and> lo b0 \<le> unat s \<and> unat s + unat n \<le> hi b0)
    \<and> used b0 \<inter> ledger_ixs L = {} \<and> used b = used b0 \<union> ledger_ixs L"
  using assms
proof (induction rule: client_run.induct)
  case start
  then show ?case by simp
next
  case (take b L n b' r)
  then have "invar b" by simp
  with take show ?case
    using alloc_keeps [of b n b' r] alloc_some [of b n b' r] by auto
next
  case (refuse b L n b')
  then have "invar b" by simp
  with refuse show ?case
    using alloc_keeps [of b n b' none] alloc_none [of b n b'] by auto
next
  case (give b L s n b')
  then have inv: "invar b" and dis: "disjoint_ledger L"
    and bounds: "lo b \<le> unat s" "unat s + unat n \<le> hi b" by auto
  have sub: "block_ixs (s, n) \<subseteq> ledger_ixs L"
    using give.hyps(2) by (rule block_ixs_subset_ledger)
  have "ledger_ixs (remove1 (s, n) L) = ledger_ixs L - block_ixs (s, n)"
    using dis give.hyps(2) by (rule ledger_ixs_remove1)
  moreover have "disjoint_ledger (remove1 (s, n) L)"
    using dis by (rule disjoint_ledger_remove1)
  ultimately show ?case
    using give sub free_keeps [OF inv bounds give.hyps(3)]
    by (auto dest!: set_remove1_subset [THEN subsetD])
qed

lemma client_run_give_total:
  assumes "client_run alloc free none b0 b L" and "invar b0" and "(s, n) \<in> set L"
  shows "\<exists>b'. free b s n = Inr b'"
  using client_run_ledger [OF assms(1,2)] assms(3) by (auto intro!: free_total)

lemma client_run_no_leak:
  assumes "client_run alloc free none b0 b []" and "invar b0"
  shows "used b = used b0"
  using client_run_ledger [OF assms] by simp

end

end
