(* ===== verification/Util_Bitmap.thy ===== *)
theory Util_Bitmap
  imports Util_Bitwise Index_Allocator
begin

text \<open>
  \<open>util/bitmap.c\<close>: the allocation bitmap shared by the physical memory manager, the I/O port
  manager and the disk numbering.

  The record keeps the four words of the C struct; \<open>bm_words\<close> is the array of 32-bit words that
  \<open>start\<close> points to. An access outside that array, or a failed assertion, is a fault. The loops
  run on 32-bit counters and stop by a measure. The abstraction \<open>used\<close> is the set of indices
  whose bit is set; \<open>bm_wf\<close> is the invariant between the cached \<open>first_free\<close> and the bits.
\<close>

section \<open>Model\<close>

definition BITMAP_INVALID_WORD_IX :: u32 where
  "BITMAP_INVALID_WORD_IX = - 1"

definition BITMAP_SIZE :: "u32 \<Rightarrow> u32 \<Rightarrow> u32" where
  "BITMAP_SIZE l d = (l - d) div 8"

record Bitmap =
  bm_words :: "u32 list"
  bm_len :: u32
  dead_zone :: u32
  first_free :: u32

definition word_ix :: "Bitmap \<Rightarrow> u32 \<Rightarrow> nat" where
  "word_ix bm i = unat ((i - dead_zone bm) div 32)"

definition bit_ix :: "Bitmap \<Rightarrow> u32 \<Rightarrow> u32" where
  "bit_ix bm i = (i - dead_zone bm) mod 32"

function FindInBitmap_loop :: "Bitmap \<Rightarrow> u32 \<Rightarrow> u32 \<Rightarrow> u32 \<Rightarrow> u32 res" where
  "FindInBitmap_loop bm len i found =
     (if i < bm_len bm then
        rbind (load (bm_words bm) (word_ix bm i)) (\<lambda>w.
          if w AND push_bit (unat (bit_ix bm i)) 1 \<noteq> 0 then
            FindInBitmap_loop bm len (i + 1) 0
          else if found + 1 \<ge> len then Inr (i - len + 1)
          else FindInBitmap_loop bm len (i + 1) (found + 1))
      else Inr BITMAP_INVALID_WORD_IX)"
  by pat_completeness auto
termination
  by (relation "measure (\<lambda>(bm, len, i, found). unat (bm_len bm) - unat i)")
     (auto simp: word_upto_measure)

definition FindInBitmap :: "Bitmap \<Rightarrow> u32 \<Rightarrow> u32 res" where
  "FindInBitmap bm len =
     rbind (c_assert (first_free bm \<ge> dead_zone bm)) (\<lambda>_.
       FindInBitmap_loop bm len (first_free bm) 0)"

function MarkInBitmap_loop :: "Bitmap \<Rightarrow> u32 \<Rightarrow> u32 \<Rightarrow> bool \<Rightarrow> Bitmap res" where
  "MarkInBitmap_loop bm i end_ix allocated =
     (if i < end_ix then
        rbind (load (bm_words bm) (word_ix bm i)) (\<lambda>w.
        rbind (store (bm_words bm) (word_ix bm i) (SetBit w (bit_ix bm i) allocated)) (\<lambda>ws.
          MarkInBitmap_loop (bm\<lparr>bm_words := ws\<rparr>) (i + 1) end_ix allocated))
      else Inr bm)"
  by pat_completeness auto
termination
  by (relation "measure (\<lambda>(bm, i, end_ix, allocated). unat end_ix - unat i)")
     (auto simp: word_upto_measure)

definition MarkInBitmap :: "Bitmap \<Rightarrow> u32 \<Rightarrow> u32 \<Rightarrow> bool \<Rightarrow> Bitmap res" where
  "MarkInBitmap bm first len allocated =
     rbind (c_assert (first \<ge> dead_zone bm)) (\<lambda>_.
     rbind (MarkInBitmap_loop bm first (first + len) allocated) (\<lambda>bm.
       if allocated then
         if first \<le> first_free bm \<and> first + len > first_free bm
         then Inr (bm\<lparr>first_free := first + len\<rparr>)
         else Inr bm
       else if first < first_free bm then Inr (bm\<lparr>first_free := first\<rparr>)
       else Inr bm))"

definition InitBitmap :: "Bitmap \<Rightarrow> bool \<Rightarrow> Bitmap res" where
  "InitBitmap bm allocated =
     (let bm = bm\<lparr>first_free := if allocated then BITMAP_INVALID_WORD_IX else dead_zone bm\<rparr>
      in MarkInBitmap bm (dead_zone bm) (bm_len bm - dead_zone bm) allocated)"

definition AllocateInBitmap :: "Bitmap \<Rightarrow> u32 \<Rightarrow> (Bitmap \<times> u32) res" where
  "AllocateInBitmap bm len =
     rbind (FindInBitmap bm len) (\<lambda>first.
       if first = BITMAP_INVALID_WORD_IX then Inr (bm, BITMAP_INVALID_WORD_IX)
       else rbind (MarkInBitmap bm first len True) (\<lambda>bm. Inr (bm, first)))"

definition FreeInBitmap :: "Bitmap \<Rightarrow> u32 \<Rightarrow> u32 \<Rightarrow> Bitmap res" where
  "FreeInBitmap bm first len = MarkInBitmap bm first len False"

declare FindInBitmap_loop.simps [simp del] MarkInBitmap_loop.simps [simp del]

section \<open>Abstraction and invariant\<close>

definition lo_ix :: "Bitmap \<Rightarrow> nat" where
  "lo_ix bm = unat (dead_zone bm)"

definition hi_ix :: "Bitmap \<Rightarrow> nat" where
  "hi_ix bm = unat (bm_len bm)"

text \<open>The bit that describes index \<open>i\<close>.\<close>

definition bit_at :: "Bitmap \<Rightarrow> nat \<Rightarrow> bool" where
  "bit_at bm i = bit (bm_words bm ! ((i - lo_ix bm) div 32)) ((i - lo_ix bm) mod 32)"

definition used :: "Bitmap \<Rightarrow> nat set" where
  "used bm = {i. lo_ix bm \<le> i \<and> i < hi_ix bm \<and> bit_at bm i}"

text \<open>The word array is large enough for every index between the dead zone and the length.\<close>

definition bm_shape :: "Bitmap \<Rightarrow> bool" where
  "bm_shape bm \<longleftrightarrow> dead_zone bm \<le> bm_len bm
     \<and> hi_ix bm - lo_ix bm \<le> 32 * length (bm_words bm)"

text \<open>Below \<open>first_free\<close> everything is taken.\<close>

definition bm_wf :: "Bitmap \<Rightarrow> bool" where
  "bm_wf bm \<longleftrightarrow> bm_shape bm \<and> dead_zone bm \<le> first_free bm
     \<and> (\<forall>i \<in> {lo_ix bm..<min (unat (first_free bm)) (hi_ix bm)}. bit_at bm i)"

definition free_run :: "Bitmap \<Rightarrow> nat \<Rightarrow> nat \<Rightarrow> bool" where
  "free_run bm s n \<longleftrightarrow> lo_ix bm \<le> s \<and> s + n \<le> hi_ix bm \<and> range_of s n \<inter> used bm = {}"

section \<open>Index arithmetic\<close>

lemma word_ix_eq:
  assumes "dead_zone bm \<le> i"
  shows "word_ix bm i = (unat i - lo_ix bm) div 32"
  using assms by (simp add: word_ix_def lo_ix_def unat_div unat_diff_le)

lemma unat_bit_ix_eq:
  assumes "dead_zone bm \<le> i"
  shows "unat (bit_ix bm i) = (unat i - lo_ix bm) mod 32"
  using assms by (simp add: bit_ix_def lo_ix_def unat_mod unat_diff_le)

lemma word_ix_in_array:
  assumes "bm_shape bm" and "dead_zone bm \<le> i" and "i < bm_len bm"
  shows "word_ix bm i < length (bm_words bm)"
proof -
  have "unat i - lo_ix bm < 32 * length (bm_words bm)"
    using assms by (auto simp: bm_shape_def lo_ix_def hi_ix_def word_le_nat_alt word_less_nat_alt)
  then show ?thesis using assms(2) by (simp add: word_ix_eq)
qed

lemma loaded_bit_iff:
  assumes "dead_zone bm \<le> i"
  shows "bm_words bm ! word_ix bm i AND push_bit (unat (bit_ix bm i)) 1 \<noteq> 0
           \<longleftrightarrow> bit_at bm (unat i)"
  using assms
  by (subst and_push_bit_1_iff) (simp_all add: unat_bit_ix_eq word_ix_eq bit_at_def)


section \<open>Marking a range\<close>

lemma bm_shape_words_update:
  "length ws = length (bm_words bm) \<Longrightarrow> bm_shape (bm\<lparr>bm_words := ws\<rparr>) = bm_shape bm"
  by (simp add: bm_shape_def lo_ix_def hi_ix_def)

lemma bit_at_set_one:
  assumes shape: "bm_shape bm" and lo: "dead_zone bm \<le> i" and hi: "i < bm_len bm"
    and k: "lo_ix bm \<le> k"
  shows "bit_at (bm\<lparr>bm_words := (bm_words bm)
            [word_ix bm i := SetBit (bm_words bm ! word_ix bm i) (bit_ix bm i) a]\<rparr>) k
         = (if k = unat i then a else bit_at bm k)"
proof -
  let ?d = "k - lo_ix bm" and ?e = "unat i - lo_ix bm"
  have len: "?e div 32 < length (bm_words bm)"
    using word_ix_in_array [OF shape lo hi] by (simp add: word_ix_eq [OF lo])
  have le: "lo_ix bm \<le> unat i" using lo by (simp add: lo_ix_def word_le_nat_alt)
  have eq: "?d = ?e \<longleftrightarrow> k = unat i" using k le by auto
  have split: "?d = ?e \<longleftrightarrow> ?d div 32 = ?e div 32 \<and> ?d mod 32 = ?e mod 32"
    by (metis div_mult_mod_eq)
  have b: "unat (bit_ix bm i) = ?e mod 32" by (rule unat_bit_ix_eq [OF lo])
  show ?thesis
    using eq split
    by (auto simp: bit_at_def lo_ix_def [of "bm_words_update _ _"] lo_ix_def word_ix_eq [OF lo]
        nth_list_update len [unfolded lo_ix_def] bit_SetBit b [unfolded lo_ix_def])
qed

lemma MarkInBitmap_loop_spec:
  assumes "bm_shape bm" and "dead_zone bm \<le> i" and "e \<le> bm_len bm"
  shows "\<exists>ws. MarkInBitmap_loop bm i e a = Inr (bm\<lparr>bm_words := ws\<rparr>)
           \<and> length ws = length (bm_words bm)
           \<and> (\<forall>k \<ge> lo_ix bm. bit_at (bm\<lparr>bm_words := ws\<rparr>) k
                = (if unat i \<le> k \<and> k < unat e then a else bit_at bm k))"
  using assms
proof (induction bm i e a rule: MarkInBitmap_loop.induct)
  case (1 bm i e a)
  show ?case
  proof (cases "i < e")
    case False
    then show ?thesis
      by (intro exI [of _ "bm_words bm"])
         (auto simp: MarkInBitmap_loop.simps [of bm i e a] word_less_nat_alt)
  next
    case True
    let ?w = "bm_words bm ! word_ix bm i"
    let ?ws = "(bm_words bm)[word_ix bm i := SetBit ?w (bit_ix bm i) a]"
    let ?bm = "bm\<lparr>bm_words := ?ws\<rparr>"
    have hi: "i < bm_len bm" using True "1.prems"(3) by (rule less_le_trans)
    have ix: "word_ix bm i < length (bm_words bm)"
      using "1.prems"(1,2) hi by (rule word_ix_in_array)
    have step: "MarkInBitmap_loop bm i e a = MarkInBitmap_loop ?bm (i + 1) e a"
      using True ix by (simp add: MarkInBitmap_loop.simps [of bm i e a])
    have shape: "bm_shape ?bm" using "1.prems"(1) by (simp add: bm_shape_words_update)
    have unat1: "unat (i + 1) = unat i + 1" using True by (rule unat_plus_one)
    have lo: "dead_zone ?bm \<le> i + 1"
      using "1.prems"(2) unat1 by (simp add: word_le_nat_alt)
    obtain ws where ws: "MarkInBitmap_loop ?bm (i + 1) e a = Inr (?bm\<lparr>bm_words := ws\<rparr>)"
      and len: "length ws = length (bm_words ?bm)"
      and bits: "\<forall>k \<ge> lo_ix ?bm. bit_at (?bm\<lparr>bm_words := ws\<rparr>) k
                = (if unat (i + 1) \<le> k \<and> k < unat e then a else bit_at ?bm k)"
      using "1.IH" [OF True _ _ shape lo] ix "1.prems"(3) by auto
    have "bit_at (bm\<lparr>bm_words := ws\<rparr>) k
            = (if unat i \<le> k \<and> k < unat e then a else bit_at bm k)"
      if "lo_ix bm \<le> k" for k
      using bits that True unat1 bit_at_set_one [OF "1.prems"(1,2) hi that, of a]
      by (auto simp: lo_ix_def word_less_nat_alt)
    with ws len step show ?thesis by (intro exI [of _ ws]) auto
  qed
qed


text \<open>
  The effect of \<open>MarkInBitmap\<close> on the abstraction. The range must lie inside the bitmap, so that
  \<open>first + len\<close> does not wrap.
\<close>

definition in_bitmap :: "Bitmap \<Rightarrow> u32 \<Rightarrow> u32 \<Rightarrow> bool" where
  "in_bitmap bm first len \<longleftrightarrow> lo_ix bm \<le> unat first \<and> unat first + unat len \<le> hi_ix bm"

lemma unat_end_of_range:
  assumes "in_bitmap bm first len"
  shows "unat (first + len) = unat first + unat len"
proof -
  have "unat first + unat len < 2 ^ 32"
    using assms unat_u32_less [of "bm_len bm"] by (simp add: in_bitmap_def hi_ix_def)
  then show ?thesis by (simp add: unat_plus_no_wrap)
qed

lemma in_bitmap_bounds:
  assumes "in_bitmap bm first len"
  shows "dead_zone bm \<le> first" and "first + len \<le> bm_len bm"
  using assms unat_end_of_range [OF assms]
  by (simp_all add: in_bitmap_def lo_ix_def hi_ix_def word_le_nat_alt)

lemma MarkInBitmap_spec:
  assumes shape: "bm_shape bm" and range: "in_bitmap bm first len"
  shows "\<exists>bm'. MarkInBitmap bm first len a = Inr bm' \<and> bm_shape bm'
           \<and> bm_len bm' = bm_len bm \<and> dead_zone bm' = dead_zone bm
           \<and> length (bm_words bm') = length (bm_words bm)
           \<and> (\<forall>k \<ge> lo_ix bm. bit_at bm' k
                = (if k \<in> range_of (unat first) (unat len) then a else bit_at bm k))
           \<and> first_free bm' =
               (if a then
                  if first \<le> first_free bm \<and> first_free bm < first + len
                  then first + len else first_free bm
                else min first (first_free bm))"
proof -
  obtain ws where loop: "MarkInBitmap_loop bm first (first + len) a = Inr (bm\<lparr>bm_words := ws\<rparr>)"
    and len: "length ws = length (bm_words bm)"
    and bits: "\<forall>k \<ge> lo_ix bm. bit_at (bm\<lparr>bm_words := ws\<rparr>) k
        = (if unat first \<le> k \<and> k < unat (first + len) then a else bit_at bm k)"
    using MarkInBitmap_loop_spec [OF shape in_bitmap_bounds [OF range]] by blast
  have bit_ff: "bit_at (b\<lparr>first_free := f\<rparr>) k = bit_at b k" for b f k
    by (simp add: bit_at_def lo_ix_def)
  have shape_ff: "bm_shape (b\<lparr>first_free := f\<rparr>) = bm_shape b" for b f
    by (simp add: bm_shape_def lo_ix_def hi_ix_def)
  show ?thesis
    using loop len bits shape in_bitmap_bounds(1) [OF range] unat_end_of_range [OF range]
    by (auto simp: MarkInBitmap_def bit_ff shape_ff bm_shape_words_update min_def)
qed

lemma used_MarkInBitmap:
  assumes "bm_shape bm" and "in_bitmap bm first len" and "MarkInBitmap bm first len a = Inr bm'"
  shows "used bm' = (if a then used bm \<union> range_of (unat first) (unat len)
                     else used bm - range_of (unat first) (unat len))"
  using MarkInBitmap_spec [OF assms(1,2), of a] assms(2,3)
  by (auto simp: used_def lo_ix_def hi_ix_def in_bitmap_def split: if_splits)

lemma bm_wf_MarkInBitmap:
  assumes wf: "bm_wf bm" and range: "in_bitmap bm first len"
    and mark: "MarkInBitmap bm first len a = Inr bm'"
  shows "bm_wf bm'"
proof -
  have shape: "bm_shape bm" and lo: "dead_zone bm \<le> first_free bm"
    and low: "\<And>i. lo_ix bm \<le> i \<Longrightarrow> i < unat (first_free bm) \<Longrightarrow> i < hi_ix bm \<Longrightarrow> bit_at bm i"
    using wf by (auto simp: bm_wf_def)
  note e = unat_end_of_range [OF range] and b = in_bitmap_bounds [OF range]
  have "dead_zone bm \<le> first + len"
    using b(1) e by (simp add: word_le_nat_alt)
  with MarkInBitmap_spec [OF shape range, of a] mark lo low b e show ?thesis
    by (auto simp: bm_wf_def lo_ix_def hi_ix_def word_le_nat_alt word_less_nat_alt min_def
        split: if_splits)
qed


section \<open>Searching a free run\<close>

text \<open>
  The loop invariant: the last \<open>found\<close> indices before \<open>i\<close> are free, fewer than \<open>len\<close> of them,
  and no free run of length \<open>len\<close> starts earlier.
\<close>

definition find_inv :: "Bitmap \<Rightarrow> u32 \<Rightarrow> u32 \<Rightarrow> u32 \<Rightarrow> bool" where
  "find_inv bm len i found \<longleftrightarrow>
     dead_zone bm \<le> i \<and> unat found < unat len \<and> unat found + lo_ix bm \<le> unat i
     \<and> range_of (unat i - unat found) (unat found) \<inter> used bm = {}
     \<and> (\<forall>s < unat i - unat found. \<not> free_run bm s (unat len))"

lemma find_inv_taken:
  assumes "find_inv bm len i found" and "i < bm_len bm" and "unat i \<in> used bm"
  shows "find_inv bm len (i + 1) 0"
proof -
  have u: "unat (i + 1) = unat i + 1" using assms(2) by (rule unat_plus_one)
  have "\<not> free_run bm s (unat len)" if "s < unat i + 1" for s
  proof (cases "s < unat i - unat found")
    case True
    then show ?thesis using assms(1) by (simp add: find_inv_def)
  next
    case False
    with that assms(1) have "unat i \<in> range_of s (unat len)"
      by (auto simp: find_inv_def)
    with assms(3) show ?thesis by (auto simp: free_run_def)
  qed
  with assms u show ?thesis
    by (auto simp: find_inv_def word_le_nat_alt lo_ix_def)
qed

lemma find_inv_free:
  assumes inv: "find_inv bm len i found" and hi: "i < bm_len bm" and "unat i \<notin> used bm"
    and more: "\<not> len \<le> found + 1"
  shows "find_inv bm len (i + 1) (found + 1)"
proof -
  have u: "unat (i + 1) = unat i + 1" using hi by (rule unat_plus_one)
  have "found < len" using inv by (simp add: find_inv_def word_less_nat_alt)
  then have f: "unat (found + 1) = unat found + 1" by (rule unat_plus_one)
  have "range_of (unat i - unat found) (unat found + 1)
          = insert (unat i) (range_of (unat i - unat found) (unat found))"
    using inv by (auto simp: find_inv_def)
  with assms u f show ?thesis
    by (auto simp: find_inv_def word_le_nat_alt word_less_nat_alt)
qed

lemma find_inv_done:
  assumes inv: "find_inv bm len i found" and hi: "i < bm_len bm" and free: "unat i \<notin> used bm"
    and last: "len \<le> found + 1"
  shows "free_run bm (unat (i - len + 1)) (unat len)"
    and "\<forall>s < unat (i - len + 1). \<not> free_run bm s (unat len)"
    and "i - len + 1 \<noteq> BITMAP_INVALID_WORD_IX"
proof -
  have fl: "found < len" using inv by (simp add: find_inv_def word_less_nat_alt)
  have f: "unat (found + 1) = unat found + 1" using fl by (rule unat_plus_one)
  have n: "unat len = unat found + 1" using last f fl
    by (simp add: word_le_nat_alt word_less_nat_alt)
  then have len: "len = found + 1" using f by (simp add: word_unat_eq_iff)
  then have r: "i - len + 1 = i - found" by simp
  have "found \<le> i" using inv by (auto simp: find_inv_def word_le_nat_alt)
  then have ur: "unat (i - found) = unat i - unat found" by (rule unat_diff_le)
  have "range_of (unat i - unat found) (unat found + 1)
          = insert (unat i) (range_of (unat i - unat found) (unat found))"
    using inv by (auto simp: find_inv_def)
  with inv free hi show "free_run bm (unat (i - len + 1)) (unat len)"
    by (auto simp: free_run_def r ur n find_inv_def hi_ix_def word_less_nat_alt)
  show "\<forall>s < unat (i - len + 1). \<not> free_run bm s (unat len)"
    using inv by (simp add: r ur find_inv_def)
  have "unat (i - found) < unat (bm_len bm)"
    using ur hi by (simp add: word_less_nat_alt)
  moreover have "unat (bm_len bm) \<le> unat BITMAP_INVALID_WORD_IX"
    by (simp add: BITMAP_INVALID_WORD_IX_def flip: word_le_nat_alt)
  ultimately show "i - len + 1 \<noteq> BITMAP_INVALID_WORD_IX" unfolding r by auto
qed

lemma find_inv_exhausted:
  assumes "find_inv bm len i found" and "\<not> i < bm_len bm"
  shows "\<not> free_run bm s (unat len)"
proof
  assume run: "free_run bm s (unat len)"
  then have "\<not> s < unat i - unat found" using assms(1) by (auto simp: find_inv_def)
  moreover have "hi_ix bm \<le> unat i"
    using assms(2) by (simp add: hi_ix_def word_less_nat_alt)
  ultimately show False using run assms(1) by (auto simp: free_run_def find_inv_def)
qed

lemma FindInBitmap_loop_spec:
  assumes "bm_shape bm" and "find_inv bm len i found"
  shows "\<exists>r. FindInBitmap_loop bm len i found = Inr r
           \<and> (if r = BITMAP_INVALID_WORD_IX then \<forall>s. \<not> free_run bm s (unat len)
              else free_run bm (unat r) (unat len) \<and> (\<forall>s < unat r. \<not> free_run bm s (unat len)))"
  using assms
proof (induction bm len i found rule: FindInBitmap_loop.induct)
  case (1 bm len i found)
  show ?case
  proof (cases "i < bm_len bm")
    case False
    then show ?thesis
      using find_inv_exhausted [OF "1.prems"(2)]
      by (simp add: FindInBitmap_loop.simps [of bm len i found])
  next
    case True
    have lo: "dead_zone bm \<le> i" using "1.prems"(2) by (simp add: find_inv_def)
    have ix: "word_ix bm i < length (bm_words bm)"
      using "1.prems"(1) lo True by (rule word_ix_in_array)
    have bit: "bit_at bm (unat i) \<longleftrightarrow> unat i \<in> used bm"
      using lo True by (simp add: used_def lo_ix_def hi_ix_def word_le_nat_alt word_less_nat_alt)
    note unfold = FindInBitmap_loop.simps [of bm len i found] and b = loaded_bit_iff [OF lo]
    consider (taken) "unat i \<in> used bm"
      | (more) "unat i \<notin> used bm" "\<not> len \<le> found + 1"
      | (found) "unat i \<notin> used bm" "len \<le> found + 1"
      by force
    then show ?thesis
    proof cases
      case taken
      with True ix bit "1.IH"(1) [OF True] b find_inv_taken [OF "1.prems"(2) True] "1.prems"(1)
      show ?thesis by (simp add: unfold del: push_bit_of_1)
    next
      case more
      with True ix bit "1.IH"(2) [OF True] b find_inv_free [OF "1.prems"(2) True] "1.prems"(1)
      show ?thesis by (simp add: unfold del: push_bit_of_1)
    next
      case found
      with True ix bit b find_inv_done [OF "1.prems"(2) True]
      show ?thesis by (simp add: unfold del: push_bit_of_1)
    qed
  qed
qed


section \<open>The operations refine range allocation\<close>

lemma find_inv_initial:
  assumes wf: "bm_wf bm" and "0 < len"
  shows "find_inv bm len (first_free bm) 0"
proof -
  have "\<not> free_run bm s (unat len)" if "s < unat (first_free bm)" for s
  proof
    assume run: "free_run bm s (unat len)"
    have n: "0 < unat len" using assms(2) by (simp add: word_less_nat_alt)
    then have "s \<in> range_of s (unat len)" by simp
    moreover have "s \<in> used bm"
      using run that wf n by (auto simp: free_run_def bm_wf_def used_def)
    ultimately show False using run unfolding free_run_def by blast
  qed
  with assms show ?thesis
    by (auto simp: find_inv_def bm_wf_def lo_ix_def word_le_nat_alt word_less_nat_alt)
qed

lemma FindInBitmap_spec:
  assumes "bm_wf bm" and "0 < len"
  shows "\<exists>r. FindInBitmap bm len = Inr r
           \<and> (if r = BITMAP_INVALID_WORD_IX then \<forall>s. \<not> free_run bm s (unat len)
              else free_run bm (unat r) (unat len) \<and> (\<forall>s < unat r. \<not> free_run bm s (unat len)))"
  using FindInBitmap_loop_spec [OF _ find_inv_initial [OF assms]] assms(1)
  by (auto simp: FindInBitmap_def bm_wf_def)

lemma AllocateInBitmap_cases:
  assumes wf: "bm_wf bm" and "0 < len"
  obtains (full) "AllocateInBitmap bm len = Inr (bm, BITMAP_INVALID_WORD_IX)"
      and "\<forall>s. \<not> free_run bm s (unat len)"
    | (fit) bm' r where "AllocateInBitmap bm len = Inr (bm', r)" and "r \<noteq> BITMAP_INVALID_WORD_IX"
      and "free_run bm (unat r) (unat len)" and "\<forall>s < unat r. \<not> free_run bm s (unat len)"
      and "bm_wf bm'" and "used bm' = used bm \<union> range_of (unat r) (unat len)"
      and "lo_ix bm' = lo_ix bm" and "hi_ix bm' = hi_ix bm"
proof -
  obtain r where find: "FindInBitmap bm len = Inr r"
    and r: "if r = BITMAP_INVALID_WORD_IX then \<forall>s. \<not> free_run bm s (unat len)
            else free_run bm (unat r) (unat len) \<and> (\<forall>s < unat r. \<not> free_run bm s (unat len))"
    using FindInBitmap_spec [OF assms] by blast
  show thesis
  proof (cases "r = BITMAP_INVALID_WORD_IX")
    case True
    with find r show ?thesis by (intro full) (auto simp: AllocateInBitmap_def)
  next
    case False
    with r have range: "in_bitmap bm r len" by (auto simp: free_run_def in_bitmap_def)
    have shape: "bm_shape bm" using wf by (simp add: bm_wf_def)
    obtain bm' where mark: "MarkInBitmap bm r len True = Inr bm'"
      and eq: "bm_len bm' = bm_len bm" "dead_zone bm' = dead_zone bm"
      using MarkInBitmap_spec [OF shape range, of True] by blast
    show ?thesis
      using False r find mark eq bm_wf_MarkInBitmap [OF wf range mark]
        used_MarkInBitmap [OF shape range mark]
      by (intro fit [of bm' r]) (auto simp: AllocateInBitmap_def lo_ix_def hi_ix_def)
  qed
qed

lemma FreeInBitmap_spec:
  assumes wf: "bm_wf bm" and range: "in_bitmap bm first len"
  obtains bm' where "FreeInBitmap bm first len = Inr bm'" and "bm_wf bm'"
    and "lo_ix bm' = lo_ix bm" and "hi_ix bm' = hi_ix bm"
    and "used bm' = used bm - range_of (unat first) (unat len)"
proof -
  have shape: "bm_shape bm" using wf by (simp add: bm_wf_def)
  obtain bm' where mark: "MarkInBitmap bm first len False = Inr bm'"
    and eq: "bm_len bm' = bm_len bm" "dead_zone bm' = dead_zone bm"
    using MarkInBitmap_spec [OF shape range, of False] by blast
  show thesis
    using mark eq bm_wf_MarkInBitmap [OF wf range mark] used_MarkInBitmap [OF shape range mark]
    by (intro that [of bm']) (auto simp: FreeInBitmap_def lo_ix_def hi_ix_def)
qed

lemma InitBitmap_spec:
  assumes "bm_shape bm"
  shows "\<exists>bm'. InitBitmap bm allocated = Inr bm' \<and> bm_wf bm'
           \<and> lo_ix bm' = lo_ix bm \<and> hi_ix bm' = hi_ix bm
           \<and> length (bm_words bm') = length (bm_words bm)
           \<and> used bm' = (if allocated then {lo_ix bm..<hi_ix bm} else {})"
proof -
  let ?ff = "if allocated then BITMAP_INVALID_WORD_IX else dead_zone bm"
  let ?bm = "bm\<lparr>first_free := ?ff\<rparr>"
  have le: "dead_zone bm \<le> bm_len bm" using assms by (simp add: bm_shape_def)
  have len: "unat (bm_len bm - dead_zone bm) = hi_ix bm - lo_ix bm"
    using le by (simp add: unat_diff_le hi_ix_def lo_ix_def)
  have shape: "bm_shape ?bm" using assms by (simp add: bm_shape_def lo_ix_def hi_ix_def)
  have range: "in_bitmap ?bm (dead_zone bm) (bm_len bm - dead_zone bm)"
    using le len by (simp add: in_bitmap_def lo_ix_def hi_ix_def word_le_nat_alt)
  obtain bm' where mark:
      "MarkInBitmap ?bm (dead_zone bm) (bm_len bm - dead_zone bm) allocated = Inr bm'"
    and eq: "bm_shape bm'" "bm_len bm' = bm_len bm" "dead_zone bm' = dead_zone bm"
      "length (bm_words bm') = length (bm_words bm)"
    and bits: "\<forall>k \<ge> lo_ix ?bm. bit_at bm' k
        = (if k \<in> range_of (lo_ix bm) (hi_ix bm - lo_ix bm) then allocated else bit_at ?bm k)"
    and ff: "dead_zone bm \<le> first_free bm'" "\<not> allocated \<longrightarrow> first_free bm' = dead_zone bm"
    using MarkInBitmap_spec [OF shape range, of allocated] le
    by (fastforce simp: len lo_ix_def BITMAP_INVALID_WORD_IX_def split: if_splits)
  have bits': "bit_at bm' k = allocated" if "lo_ix bm \<le> k" "k < hi_ix bm" for k
    using bits that by (simp add: lo_ix_def)
  then have "used bm' = (if allocated then {lo_ix bm..<hi_ix bm} else {})"
    using eq by (auto simp: used_def lo_ix_def hi_ix_def)
  moreover have "bm_wf bm'"
    using eq ff bits' by (cases allocated) (auto simp: bm_wf_def lo_ix_def hi_ix_def)
  ultimately show ?thesis using mark eq by (auto simp: InitBitmap_def Let_def lo_ix_def hi_ix_def)
qed

interpretation bitmap_alloc: index_allocator bm_wf lo_ix hi_ix used
  AllocateInBitmap FreeInBitmap BITMAP_INVALID_WORD_IX
proof
  fix b :: Bitmap and n :: u32
  assume pre: "bm_wf b" "0 < n"
  show "\<exists>b' r. AllocateInBitmap b n = Inr (b', r)"
    by (rule AllocateInBitmap_cases [OF pre]) auto
  fix b' r
  assume alloc: "AllocateInBitmap b n = Inr (b', r)"
  show "bm_wf b' \<and> lo_ix b' = lo_ix b \<and> hi_ix b' = hi_ix b"
    by (rule AllocateInBitmap_cases [OF pre]) (use alloc pre in auto)
  show "lo_ix b \<le> unat r \<and> unat r + unat n \<le> hi_ix b \<and> block_ixs (r, n) \<inter> used b = {}
      \<and> used b' = used b \<union> block_ixs (r, n)" if "r \<noteq> BITMAP_INVALID_WORD_IX"
    by (rule AllocateInBitmap_cases [OF pre])
       (use alloc that in \<open>auto simp: block_ixs_def free_run_def\<close>)
next
  fix b b' :: Bitmap and n :: u32
  assume pre: "bm_wf b" "0 < n" and alloc: "AllocateInBitmap b n = Inr (b', BITMAP_INVALID_WORD_IX)"
  show "used b' = used b \<and> \<not> (\<exists>s. lo_ix b \<le> s \<and> s + unat n \<le> hi_ix b
      \<and> range_of s (unat n) \<inter> used b = {})"
    by (rule AllocateInBitmap_cases [OF pre]) (use alloc in \<open>auto simp: free_run_def\<close>)
next
  fix b :: Bitmap and s n :: u32
  assume wf: "bm_wf b" and "lo_ix b \<le> unat s" "unat s + unat n \<le> hi_ix b"
  then have range: "in_bitmap b s n" by (simp add: in_bitmap_def)
  show "\<exists>b'. FreeInBitmap b s n = Inr b'"
    by (rule FreeInBitmap_spec [OF wf range]) auto
  show "bm_wf b' \<and> lo_ix b' = lo_ix b \<and> hi_ix b' = hi_ix b \<and> used b' = used b - block_ixs (s, n)"
    if "FreeInBitmap b s n = Inr b'" for b'
    by (rule FreeInBitmap_spec [OF wf range]) (use that in \<open>auto simp: block_ixs_def\<close>)
qed


section \<open>Properties\<close>

text \<open>
  C2: on a well-formed bitmap, \<open>AllocateInBitmap\<close> with a positive length never faults and keeps
  the bitmap well-formed. It refuses (\<open>BITMAP_INVALID_WORD_IX\<close>, bitmap unchanged) only when no
  run of \<open>len\<close> free indices exists; otherwise it returns the lowest such run and marks exactly
  those indices.
\<close>

theorem AllocateInBitmap_first_fit:
  assumes "bm_wf bm" and "0 < len"
  shows "\<exists>bm' r. AllocateInBitmap bm len = Inr (bm', r) \<and> bm_wf bm'
    \<and> (if r = BITMAP_INVALID_WORD_IX then bm' = bm \<and> (\<forall>s. \<not> free_run bm s (unat len))
       else free_run bm (unat r) (unat len) \<and> (\<forall>s < unat r. \<not> free_run bm s (unat len))
         \<and> used bm' = used bm \<union> range_of (unat r) (unat len))"
  by (rule AllocateInBitmap_cases [OF assms]) (use assms in auto)

definition demo_bitmap :: Bitmap where
  "demo_bitmap = \<lparr>bm_words = [0x17], bm_len = 12, dead_zone = 2, first_free = 5\<rparr>"

lemma demo_bitmap_wf: "bm_wf demo_bitmap"
  by code_simp

theorem AllocateInBitmap_first_fit_witness:
  "bm_wf demo_bitmap \<and> AllocateInBitmap demo_bitmap 2
     = Inr (\<lparr>bm_words = [0x77], bm_len = 12, dead_zone = 2, first_free = 5\<rparr>, 7)
   \<and> free_run demo_bitmap 7 2 \<and> \<not> free_run demo_bitmap 5 2 \<and> \<not> free_run demo_bitmap 6 2"
proof -
  have run: "AllocateInBitmap demo_bitmap 2
     = Inr (\<lparr>bm_words = [0x77], bm_len = 12, dead_zone = 2, first_free = 5\<rparr>, 7)"
    by code_simp
  with AllocateInBitmap_first_fit [OF demo_bitmap_wf, of 2] demo_bitmap_wf
  show ?thesis by (auto simp: BITMAP_INVALID_WORD_IX_def)
qed


text \<open>
  \<open>InitBitmap\<close> on an array large enough for the described indices does not fault, leaves
  every index free or every index used as asked, and establishes the invariant.
\<close>

theorem InitBitmap_establishes:
  assumes "bm_shape bm"
  shows "\<exists>bm'. InitBitmap bm allocated = Inr bm' \<and> bm_wf bm'
           \<and> used bm' = (if allocated then {lo_ix bm..<hi_ix bm} else {})"
  using InitBitmap_spec [OF assms, of allocated] by blast

theorem InitBitmap_establishes_witness:
  "bm_shape demo_bitmap \<and> (\<exists>bm'. InitBitmap demo_bitmap False = Inr bm' \<and> bm_wf bm' \<and> used bm' = {})
   \<and> (\<exists>bm'. InitBitmap demo_bitmap True = Inr bm' \<and> bm_wf bm' \<and> used bm' = {2..<12})"
proof -
  have shape: "bm_shape demo_bitmap" by code_simp
  have lo_ix: "lo_ix demo_bitmap = 2" and hi_ix: "hi_ix demo_bitmap = 12"
    by (simp_all add: lo_ix_def hi_ix_def demo_bitmap_def)
  show ?thesis
    using shape InitBitmap_establishes [OF shape, of False]
      InitBitmap_establishes [OF shape, of True] unfolding lo_ix hi_ix by simp
qed

text \<open>
  A range that \<open>AllocateInBitmap\<close> has just returned can be given to \<open>FreeInBitmap\<close> without
  a fault; the bitmap is well-formed again and its set of used indices is what it was before.
\<close>

theorem AllocateInBitmap_FreeInBitmap:
  assumes "bm_wf bm" and "0 < len"
    and "AllocateInBitmap bm len = Inr (bm', r)" and "r \<noteq> BITMAP_INVALID_WORD_IX"
  shows "\<exists>bm''. FreeInBitmap bm' r len = Inr bm'' \<and> bm_wf bm'' \<and> used bm'' = used bm"
  using assms by (rule bitmap_alloc.alloc_then_free)

theorem AllocateInBitmap_FreeInBitmap_witness:
  "\<exists>bm''. FreeInBitmap \<lparr>bm_words = [0x77], bm_len = 12, dead_zone = 2, first_free = 5\<rparr> 7 2 = Inr bm''
     \<and> bm_wf bm'' \<and> used bm'' = used demo_bitmap"
proof -
  have "AllocateInBitmap demo_bitmap 2
     = Inr (\<lparr>bm_words = [0x77], bm_len = 12, dead_zone = 2, first_free = 5\<rparr>, 7)"
    by code_simp
  then show ?thesis
    using AllocateInBitmap_FreeInBitmap [OF demo_bitmap_wf, of 2] demo_bitmap_wf
    by (simp add: BITMAP_INVALID_WORD_IX_def)
qed

text \<open>
  C3: along every history of a client that frees only ranges it holds, the ranges it holds are
  pairwise disjoint, lie between dead zone and length, and together with what was used at the
  start are exactly the used indices; so each of them can be freed without a fault and nothing
  leaks.
\<close>

theorem bitmap_client_history:
  assumes "client_run AllocateInBitmap FreeInBitmap BITMAP_INVALID_WORD_IX bm0 bm L"
    and "bm_wf bm0"
  shows "bm_wf bm \<and> disjoint_ledger L \<and> used bm = used bm0 \<union> ledger_ixs L
    \<and> used bm0 \<inter> ledger_ixs L = {}
    \<and> (\<forall>(s, n) \<in> set L. in_bitmap bm0 s n \<and> (\<exists>bm'. FreeInBitmap bm s n = Inr bm'))"
  using bitmap_alloc.client_run_ledger [OF assms] bitmap_alloc.client_run_give_total [OF assms]
  by (auto simp: in_bitmap_def)

theorem bitmap_client_history_witness:
  "\<exists>bm. bm_wf bm \<and> disjoint_ledger [(9, 1), (7, 2)] \<and> used bm = used demo_bitmap \<union> {7, 8, 9}"
proof -
  let ?b1 = "\<lparr>bm_words = [0x77], bm_len = 12, dead_zone = 2, first_free = 5\<rparr> :: Bitmap"
  let ?b2 = "\<lparr>bm_words = [0x7F], bm_len = 12, dead_zone = 2, first_free = 6\<rparr> :: Bitmap"
  let ?b3 = "\<lparr>bm_words = [0xFF], bm_len = 12, dead_zone = 2, first_free = 6\<rparr> :: Bitmap"
  let ?b4 = "\<lparr>bm_words = [0xF7], bm_len = 12, dead_zone = 2, first_free = 5\<rparr> :: Bitmap"
  let ?run = "client_run AllocateInBitmap FreeInBitmap BITMAP_INVALID_WORD_IX demo_bitmap"
  have a1: "AllocateInBitmap demo_bitmap 2 = Inr (?b1, 7)" by code_simp
  have a2: "AllocateInBitmap ?b1 1 = Inr (?b2, 5)" by code_simp
  have a3: "AllocateInBitmap ?b2 1 = Inr (?b3, 9)" by code_simp
  have a4: "FreeInBitmap ?b3 5 1 = Inr ?b4" by code_simp
  have "?run ?b1 [(7, 2)]"
    using client_run.take [OF client_run.start, of 2 AllocateInBitmap demo_bitmap ?b1 7] a1
    by (simp add: BITMAP_INVALID_WORD_IX_def)
  then have "?run ?b2 [(5, 1), (7, 2)]"
    using client_run.take [of _ _ _ _ ?b1 "[(7, 2)]" 1 ?b2 5] a2
    by (simp add: BITMAP_INVALID_WORD_IX_def)
  then have "?run ?b3 [(9, 1), (5, 1), (7, 2)]"
    using client_run.take [of _ _ _ _ ?b2 "[(5, 1), (7, 2)]" 1 ?b3 9] a3
    by (simp add: BITMAP_INVALID_WORD_IX_def)
  then have "?run ?b4 [(9, 1), (7, 2)]"
    using client_run.give [of _ _ _ _ ?b3 "[(9, 1), (5, 1), (7, 2)]" 5 1 ?b4] a4
    by simp
  note bitmap_client_history [OF this demo_bitmap_wf]
  moreover have "ledger_ixs [(9, 1), (7, 2)] = {7, 8, 9}"
    by (auto simp: block_ixs_def range_of_def)
  ultimately show ?thesis by (intro exI [of _ ?b4]) simp
qed

end
