(* ===== verification/Io_Ports.thy ===== *)
theory Io_Ports
  imports Util_Bitmap
begin

text \<open>
  \<open>io/ports.c\<close>: the manager of the 65536 I/O ports. The first 0x400 are legacy ports and lie in the
  dead zone of the bitmap. The bitmap's storage comes from \<open>malloc\<close>, which is the parameter of
  \<open>IoPortMgrInit\<close>: \<open>None\<close> is \<open>NULL\<close>, \<open>Some ws\<close> the words of the block.
\<close>

section \<open>Model\<close>

definition PORT_ILLEGAL_VALUE :: u16 where
  "PORT_ILLEGAL_VALUE = 0"

definition BITMAP_DZ :: u32 where
  "BITMAP_DZ = 0x0400"

definition PORT_BITMAP_LEN :: u32 where
  "PORT_BITMAP_LEN = 0xFFFF + 1"

definition IoPortMgrInit :: "(u32 \<Rightarrow> u32 list option) \<Rightarrow> Bitmap \<Rightarrow> Bitmap res" where
  "IoPortMgrInit malloc bitmap =
     (case malloc (BITMAP_SIZE PORT_BITMAP_LEN BITMAP_DZ) of
        None \<Rightarrow> Inl Null_Pointer
      | Some bitmap_data \<Rightarrow>
          InitBitmap (bitmap\<lparr>bm_words := bitmap_data, bm_len := 0xFFFF + 1,
            dead_zone := BITMAP_DZ\<rparr>) False)"

definition AllocPorts :: "Bitmap \<Rightarrow> u16 \<Rightarrow> (Bitmap \<times> u16) res" where
  "AllocPorts bitmap len =
     rbind (AllocateInBitmap bitmap (ucast len)) (\<lambda>(bitmap, ret).
       if ret = BITMAP_INVALID_WORD_IX then Inr (bitmap, PORT_ILLEGAL_VALUE)
       else Inr (bitmap, ucast ret))"

definition FreePorts :: "Bitmap \<Rightarrow> u16 \<Rightarrow> u16 \<Rightarrow> Bitmap res" where
  "FreePorts bitmap start len = MarkInBitmap bitmap (ucast start) (ucast len) False"

section \<open>Invariant\<close>

definition ports_wf :: "Bitmap \<Rightarrow> bool" where
  "ports_wf bm \<longleftrightarrow> bm_wf bm \<and> lo_ix bm = 0x400 \<and> hi_ix bm = 0x10000"

lemma unat_ucast_u16_u32 [simp]: "unat (ucast (x :: u16) :: u32) = unat x"
proof -
  have "unat x < 2 ^ LENGTH(16)" by (rule unsigned_less)
  then show ?thesis by (simp add: unat_ucast_mod)
qed

lemma unat_ucast_u32_u16: "unat (x :: u32) < 0x10000 \<Longrightarrow> unat (ucast x :: u16) = unat x"
  by (simp add: unat_ucast_mod)

lemma ucast_u16_u32_pos: "0 < (len :: u16) \<Longrightarrow> 0 < (ucast len :: u32)"
  by (simp add: word_less_nat_alt)

section \<open>Properties\<close>

text \<open>
  given a block of the requested 8064 bytes, \<open>IoPortMgrInit\<close> does not fault: the block is
  large enough for one bit per port above the dead zone, and all of them start free.
\<close>

theorem IoPortMgrInit_establishes:
  assumes "malloc 8064 = Some ws" and "length ws = 8064 div 4"
  shows "\<exists>bm. IoPortMgrInit malloc b = Inr bm \<and> ports_wf bm \<and> used bm = {}"
proof -
  let ?bm = "b\<lparr>bm_words := ws, bm_len := 0xFFFF + 1, dead_zone := BITMAP_DZ\<rparr>"
  have size: "BITMAP_SIZE PORT_BITMAP_LEN BITMAP_DZ = 8064"
    by (simp add: BITMAP_SIZE_def PORT_BITMAP_LEN_def BITMAP_DZ_def)
  have ix: "lo_ix ?bm = 0x400" "hi_ix ?bm = 0x10000"
    by (simp_all add: lo_ix_def hi_ix_def BITMAP_DZ_def)
  then have "bm_shape ?bm"
    using assms(2) by (simp add: bm_shape_def BITMAP_DZ_def)
  from InitBitmap_spec [OF this, of False] ix show ?thesis
    using assms(1) by (auto simp: IoPortMgrInit_def size ports_wf_def)
qed

theorem IoPortMgrInit_establishes_witness:
  "\<exists>bm. IoPortMgrInit (\<lambda>n. Some (replicate (unat n div 4) 0xDEADDEAD)) demo_bitmap = Inr bm
     \<and> ports_wf bm \<and> used bm = {}"
  by (rule IoPortMgrInit_establishes [of _ "replicate 2016 0xDEADDEAD"]) simp_all

text \<open>
  \<open>AllocPorts\<close> with a positive length never faults. It returns \<open>PORT_ILLEGAL_VALUE\<close> exactly when
  no free run of that many ports exists; otherwise the ports returned lie between 0x400 and
  0xFFFF, were free, and are now used. Truncating the index to 16 bits loses nothing.
\<close>

theorem AllocPorts_spec:
  assumes wf: "ports_wf bm" and pos: "0 < len"
  shows "\<exists>bm' p. AllocPorts bm len = Inr (bm', p) \<and> ports_wf bm'
    \<and> (if p = PORT_ILLEGAL_VALUE then bm' = bm \<and> (\<forall>s. \<not> free_run bm s (unat len))
       else 0x400 \<le> unat p \<and> unat p + unat len \<le> 0x10000
         \<and> range_of (unat p) (unat len) \<inter> used bm = {}
         \<and> used bm' = used bm \<union> range_of (unat p) (unat len))"
proof -
  have bw: "bm_wf bm" using wf by (simp add: ports_wf_def)
  show ?thesis
  proof (rule AllocateInBitmap_cases [OF bw ucast_u16_u32_pos [OF pos]])
    fix bm' r
    assume alloc: "AllocateInBitmap bm (ucast len) = Inr (bm', r)"
      and "r \<noteq> BITMAP_INVALID_WORD_IX"
      and run: "free_run bm (unat r) (unat (ucast len :: u32))"
      and "bm_wf bm'" "lo_ix bm' = lo_ix bm" "hi_ix bm' = hi_ix bm"
      and "used bm' = used bm \<union> range_of (unat r) (unat (ucast len :: u32))"
    moreover have b: "0x400 \<le> unat r" "unat r + unat len \<le> 0x10000"
      using run wf by (auto simp: free_run_def ports_wf_def)
    moreover have u: "unat (ucast r :: u16) = unat r"
      using b pos by (intro unat_ucast_u32_u16) (simp add: word_less_nat_alt)
    moreover have "ucast r \<noteq> PORT_ILLEGAL_VALUE"
      using u b by (auto simp: PORT_ILLEGAL_VALUE_def)
    ultimately show ?thesis
      using wf by (intro exI [of _ bm'] exI [of _ "ucast r"])
        (auto simp: AllocPorts_def ports_wf_def free_run_def)
  qed (use wf in \<open>auto simp: AllocPorts_def\<close>)
qed

definition demo_ports :: Bitmap where
  "demo_ports = \<lparr>bm_words = 5 # replicate 2015 0, bm_len = 0x10000, dead_zone = 0x400,
     first_free = 0x401\<rparr>"

lemma demo_ports_wf: "ports_wf demo_ports"
  by (simp add: ports_wf_def bm_wf_def bm_shape_def demo_ports_def lo_ix_def hi_ix_def bit_at_def)

theorem AllocPorts_spec_witness:
  "\<exists>bm'. AllocPorts demo_ports 8 = Inr (bm', 0x403)
     \<and> used bm' = used demo_ports \<union> range_of 0x403 8"
proof -
  have "map_sum id snd (AllocPorts demo_ports 8) = Inr 0x403" by code_simp
  then obtain bm' where "AllocPorts demo_ports 8 = Inr (bm', 0x403)"
    by (cases "AllocPorts demo_ports 8") auto
  with AllocPorts_spec [OF demo_ports_wf, of 8] show ?thesis
    by (simp add: PORT_ILLEGAL_VALUE_def)
qed

text \<open>
  \<open>FreePorts\<close> stops with a failed assertion on a port of the dead zone, and on a range of
  managed ports it does not fault and frees exactly those ports.
\<close>

theorem FreePorts_guard:
  assumes wf: "ports_wf bm"
  shows "(unat start < 0x400 \<longrightarrow> FreePorts bm start len = Inl Assert_Failed)
    \<and> (0x400 \<le> unat start \<and> unat start + unat len \<le> 0x10000 \<longrightarrow>
        (\<exists>bm'. FreePorts bm start len = Inr bm' \<and> ports_wf bm'
           \<and> used bm' = used bm - range_of (unat start) (unat len)))"
proof (intro conjI impI)
  assume "unat start < 0x400"
  moreover have "unat (dead_zone bm) = 0x400" using wf by (simp add: ports_wf_def lo_ix_def)
  ultimately have "\<not> dead_zone bm \<le> (ucast start :: u32)" by (simp add: word_le_nat_alt)
  then show "FreePorts bm start len = Inl Assert_Failed"
    by (simp add: FreePorts_def MarkInBitmap_def)
next
  assume "0x400 \<le> unat start \<and> unat start + unat len \<le> 0x10000"
  then have range: "in_bitmap bm (ucast start) (ucast len)"
    using wf by (simp add: in_bitmap_def ports_wf_def)
  have bw: "bm_wf bm" using wf by (simp add: ports_wf_def)
  show "\<exists>bm'. FreePorts bm start len = Inr bm' \<and> ports_wf bm'
           \<and> used bm' = used bm - range_of (unat start) (unat len)"
    by (rule FreeInBitmap_spec [OF bw range])
       (use wf in \<open>auto simp: FreeInBitmap_def FreePorts_def ports_wf_def\<close>)
qed

theorem FreePorts_guard_witness:
  "FreePorts demo_ports 0x3F8 8 = Inl Assert_Failed
   \<and> (\<exists>bm'. FreePorts demo_ports 0x400 1 = Inr bm' \<and> 0x400 \<notin> used bm')"
  using FreePorts_guard [OF demo_ports_wf, of "0x3F8" 8] FreePorts_guard [OF demo_ports_wf, of "0x400" 1]
  by auto

end
