(* ===== verification/Stdlib_Mem.thy ===== *)
theory Stdlib_Mem
  imports Kernel_Prelude
begin

text \<open>
  \<open>memcpy\<close> and \<open>memset\<close> of \<open>stdlib/stdlib.c\<close> on the flat 32-bit address space.

  Memory is a function from addresses to bytes; a \<open>uint32_t\<close> access reads or writes four bytes,
  least significant first, and addresses wrap at 2^32. Both functions work on four bytes at a time
  and finish the last \<open>num % 4\<close> bytes one by one; the counters stay below \<open>num\<close>, so they are
  naturals.
\<close>

section \<open>Model\<close>

type_synonym mem = "u32 \<Rightarrow> u8"

definition read32 :: "mem \<Rightarrow> u32 \<Rightarrow> u32" where
  "read32 m a = ucast (m a) OR push_bit 8 (ucast (m (a + 1)))
     OR push_bit 16 (ucast (m (a + 2))) OR push_bit 24 (ucast (m (a + 3)))"

definition write32 :: "mem \<Rightarrow> u32 \<Rightarrow> u32 \<Rightarrow> mem" where
  "write32 m a v = m(a := ucast v, a + 1 := ucast (drop_bit 8 v),
     a + 2 := ucast (drop_bit 16 v), a + 3 := ucast (drop_bit 24 v))"

definition memcpy :: "mem \<Rightarrow> u32 \<Rightarrow> u32 \<Rightarrow> u32 \<Rightarrow> mem \<times> u32" where
  "memcpy m dest src num =
     (let num_u32 = unat (num div 4);
          dest_u8 = dest + (num div 4) * 4;
          src_u8 = src + (num div 4) * 4;
          num_u8 = unat (num mod 4);
          m = fold (\<lambda>i m. write32 m (dest + 4 * of_nat i) (read32 m (src + 4 * of_nat i))) [0..<num_u32] m;
          m = fold (\<lambda>i m. m(dest_u8 + of_nat i := m (src_u8 + of_nat i))) [0..<num_u8] m
      in (m, dest))"

definition memset :: "mem \<Rightarrow> u32 \<Rightarrow> int \<Rightarrow> u32 \<Rightarrow> mem \<times> u32" where
  "memset m ptr value num =
     (let value_u8 = word_of_int value :: u8;
          v = ucast value_u8 :: u32;
          value_u32 = v OR push_bit 8 v OR push_bit 16 v OR push_bit 24 v;
          num_u32 = unat (num div 4);
          num_u8 = unat (num mod 4);
          ptr_u8 = ptr + (num div 4) * 4;
          m = fold (\<lambda>i m. write32 m (ptr + 4 * of_nat i) value_u32) [0..<num_u32] m;
          m = fold (\<lambda>i m. m(ptr_u8 + of_nat i := value_u8)) [0..<num_u8] m
      in (m, ptr))"

section \<open>Bytes of a 32-bit access\<close>

lemma ucast_bytes:
  fixes b0 b1 b2 b3 :: u8
  defines "v \<equiv> (ucast b0 OR push_bit 8 (ucast b1) OR push_bit 16 (ucast b2) OR push_bit 24 (ucast b3)) :: u32"
  shows "ucast v = b0" "ucast (drop_bit 8 v) = b1" "ucast (drop_bit 16 v) = b2"
    "ucast (drop_bit 24 v) = b3"
  unfolding v_def
  by (rule bit_word_eqI; auto simp: bit_simps dest: bit_imp_le_length)+

text \<open>
  \<open>blit m d n f\<close>: memory \<open>m\<close> with byte \<open>j\<close> of the \<open>n\<close> bytes from \<open>d\<close> set to \<open>f j\<close>.
\<close>

definition blit :: "mem \<Rightarrow> u32 \<Rightarrow> nat \<Rightarrow> (nat \<Rightarrow> u8) \<Rightarrow> mem" where
  "blit m d n f = (\<lambda>a. if unat (a - d) < n then f (unat (a - d)) else m a)"

lemma blit_0 [simp]: "blit m d 0 f = m"
  by (simp add: blit_def)

lemma offset_eq_iff:
  fixes a d :: u32
  assumes "k < 2 ^ 32"
  shows "a = d + of_nat k \<longleftrightarrow> unat (a - d) = k"
proof
  assume "unat (a - d) = k"
  with assms have "a - d = of_nat k" by (simp add: word_unat_eq_iff unat_of_nat_less)
  then show "a = d + of_nat k" by (simp add: algebra_simps)
qed (use assms in \<open>simp add: unat_of_nat_less\<close>)

lemma blit_Suc: "n < 2 ^ 32 \<Longrightarrow> (blit m d n f)(d + of_nat n := f n) = blit m d (Suc n) f"
proof (rule ext)
  fix a assume "n < 2 ^ 32"
  then show "((blit m d n f)(d + of_nat n := f n)) a = blit m d (Suc n) f a"
    using offset_eq_iff [of n a d] by (auto simp: blit_def less_Suc_eq)
qed

lemma blit_write32:
  assumes "4 * i + 4 \<le> 2 ^ 32"
    and "ucast v = f (4 * i)" "ucast (drop_bit 8 v) = f (4 * i + 1)"
      "ucast (drop_bit 16 v) = f (4 * i + 2)" "ucast (drop_bit 24 v) = f (4 * i + 3)"
  shows "write32 (blit m d (4 * i) f) (d + 4 * of_nat i) v = blit m d (4 * Suc i) f"
proof -
  have "write32 (blit m d (4 * i) f) (d + 4 * of_nat i) v
      = (blit m d (4 * i) f)(d + of_nat (4 * i) := f (4 * i), d + of_nat (Suc (4 * i)) := f (Suc (4 * i)),
          d + of_nat (Suc (Suc (4 * i))) := f (Suc (Suc (4 * i))),
          d + of_nat (Suc (Suc (Suc (4 * i)))) := f (Suc (Suc (Suc (4 * i)))))"
    using assms(2-) by (simp add: write32_def algebra_simps numeral_2_eq_2 numeral_3_eq_3)
  also have "\<dots> = blit m d (Suc (Suc (Suc (Suc (4 * i))))) f"
    using assms(1) by (simp add: blit_Suc del: of_nat_Suc of_nat_mult)
  finally show ?thesis by (simp add: numeral_eq_Suc)
qed

text \<open>An address \<open>src + k\<close> past what has been written so far still holds its old byte.\<close>

lemma blit_ahead:
  assumes "unat (src - d) + k < 2 ^ 32" and "n \<le> k"
  shows "blit m d n f (src + of_nat k) = m (src + of_nat k)"
proof -
  have "unat (src + of_nat k - d) = unat ((src - d) + of_nat k)" by (simp add: algebra_simps)
  also have "\<dots> = unat (src - d) + k"
    using assms(1) by (subst unat_plus_no_wrap) (simp_all add: unat_of_nat_less)
  finally show ?thesis using assms(2) by (simp add: blit_def)
qed

lemma num_split: "unat (num :: u32) = 4 * unat (num div 4) + unat (num mod 4)"
  by (simp add: unat_div unat_mod)

lemma of_nat_num_div: "of_nat (4 * unat (num div 4)) = (num div 4) * (4 :: u32)"
  by simp

lemma memcpy_words:
  assumes "unat (src - d) + 4 * n \<le> 2 ^ 32"
  shows "fold (\<lambda>i m. write32 m (d + 4 * of_nat i) (read32 m (src + 4 * of_nat i))) [0..<n] m
     = blit m d (4 * n) (\<lambda>j. m (src + of_nat j))"
  using assms
proof (induction n)
  case (Suc n)
  let ?f = "\<lambda>j. m (src + of_nat j)"
  let ?m = "blit m d (4 * n) ?f"
  have src: "?m (src + of_nat (4 * n + b)) = ?f (4 * n + b)" if "b < 4" for b
    using that Suc.prems by (intro blit_ahead) auto
  have "?m (src + 4 * of_nat n) = ?f (4 * n)" "?m (src + 4 * of_nat n + 1) = ?f (4 * n + 1)"
    "?m (src + 4 * of_nat n + 2) = ?f (4 * n + 2)" "?m (src + 4 * of_nat n + 3) = ?f (4 * n + 3)"
    using src [of 0] src [of 1] src [of 2] src [of 3] by (simp_all add: algebra_simps)
  then have "write32 ?m (d + 4 * of_nat n) (read32 ?m (src + 4 * of_nat n)) = blit m d (4 * Suc n) ?f"
    using Suc.prems by (intro blit_write32) (simp_all only: read32_def ucast_bytes, simp)
  with Suc show ?case by simp
qed simp

lemma memcpy_bytes:
  assumes "unat (src - d) + (k + n) \<le> 2 ^ 32" and "k + n < 2 ^ 32"
  shows "fold (\<lambda>i m. m(d + of_nat k + of_nat i := m (src + of_nat k + of_nat i))) [0..<n]
       (blit m d k (\<lambda>j. m (src + of_nat j)))
     = blit m d (k + n) (\<lambda>j. m (src + of_nat j))"
  using assms
proof (induction n)
  case (Suc n)
  have "blit m d (k + n) (\<lambda>j. m (src + of_nat j)) (src + of_nat (k + n)) = m (src + of_nat (k + n))"
    using Suc.prems by (intro blit_ahead) auto
  with Suc blit_Suc [of "k + n" m d "\<lambda>j. m (src + of_nat j)"] show ?case
    by (simp add: algebra_simps del: fun_upd_apply)
qed simp

lemma memset_words:
  fixes b :: u8
  assumes "4 * n \<le> 2 ^ 32" and "v = (ucast b :: u32)"
  shows "fold (\<lambda>i m. write32 m (d + 4 * of_nat i) (v OR push_bit 8 v OR push_bit 16 v OR push_bit 24 v)) [0..<n] m
     = blit m d (4 * n) (\<lambda>_. b)"
  using assms(1)
proof (induction n)
  case (Suc n)
  then have "write32 (blit m d (4 * n) (\<lambda>_. b)) (d + 4 * of_nat n)
      (v OR push_bit 8 v OR push_bit 16 v OR push_bit 24 v) = blit m d (4 * Suc n) (\<lambda>_. b)"
    unfolding assms(2) by (intro blit_write32) (simp_all only: ucast_bytes, simp)
  with Suc show ?case by simp
qed simp

lemma memset_bytes:
  assumes "k + n < 2 ^ 32"
  shows "fold (\<lambda>i m. m(d + of_nat k + of_nat i := b)) [0..<n] (blit m d k (\<lambda>_. b))
     = blit m d (k + n) (\<lambda>_. b)"
  using assms
proof (induction n)
  case (Suc n)
  with blit_Suc [of "k + n" m d "\<lambda>_. b"] show ?case by (simp add: algebra_simps del: fun_upd_apply)
qed simp

lemma memcpy_blit:
  assumes "unat (src - dest) + unat num \<le> 2 ^ 32"
  shows "fst (memcpy m dest src num) = blit m dest (unat num) (\<lambda>j. m (src + of_nat j))"
proof -
  let ?q = "unat (num div 4)" and ?r = "unat (num mod 4)"
  have n: "unat num = 4 * ?q + ?r" by (rule num_split)
  have lt: "4 * ?q + ?r < 2 ^ 32" using unat_u32_less [of num] n by simp
  show ?thesis
    using memcpy_words [of src dest ?q m] memcpy_bytes [of src dest "4 * ?q" ?r m] assms n lt
    by (simp add: memcpy_def Let_def of_nat_num_div mult.commute)
qed

section \<open>Properties\<close>

text \<open>
  C5: \<open>memcpy\<close> copies \<open>num\<close> bytes: byte \<open>j\<close> of the destination gets the byte \<open>j\<close> of the source had
  before the call, and nothing else changes. It is enough that the destination does not start inside
  the source; a destination that overlaps the source from below is copied correctly.
\<close>

theorem memcpy_copies:
  assumes "unat (src - dest) + unat num \<le> 2 ^ 32"
  shows "memcpy m dest src num
     = (\<lambda>a. if unat (a - dest) < unat num then m (src + (a - dest)) else m a, dest)"
  using memcpy_blit [OF assms, of m] by (auto simp: memcpy_def Let_def blit_def fun_eq_iff)

theorem memcpy_copies_witness:
  "fst (memcpy (\<lambda>a. ucast a) 100 105 7) 102 = 107 \<and> fst (memcpy (\<lambda>a. ucast a) 100 105 7) 107 = 107"
  using memcpy_copies [of 105 100 7 "\<lambda>a. ucast a"] by simp

text \<open>
  \<open>memset\<close> stores the low byte of \<open>value\<close> in the \<open>num\<close> bytes from \<open>ptr\<close> and changes nothing
  else, for every \<open>num\<close>.
\<close>

theorem memset_fills:
  "memset m ptr v num = (\<lambda>a. if unat (a - ptr) < unat num then word_of_int v else m a, ptr)"
proof -
  let ?q = "unat (num div 4)" and ?r = "unat (num mod 4)"
  have n: "unat num = 4 * ?q + ?r" by (rule num_split)
  have lt: "4 * ?q + ?r < 2 ^ 32" using unat_u32_less [of num] n by simp
  have "fst (memset m ptr v num) = blit m ptr (4 * ?q + ?r) (\<lambda>_. word_of_int v)"
    using memset_words [of ?q _ "word_of_int v" ptr m]
      memset_bytes [of "4 * ?q" ?r ptr "word_of_int v" m] n lt
    by (simp add: memset_def Let_def of_nat_num_div mult.commute)
  then show ?thesis using n by (auto simp: memset_def Let_def blit_def fun_eq_iff)
qed

end
