(* ===== verification/Linked_List.thy ===== *)
theory Linked_List
  imports Kernel_Prelude
begin

text \<open>
  Singly linked lists of heap objects, as the kernel keeps its processes and the open files of a
  process. A heap of objects of one type is a partial map from addresses to records; \<open>deref\<close> is
  \<open>*p\<close>, with \<open>NULL\<close> and addresses of no live object as faults.

  \<open>find_node\<close> is the loop \<open>for(p = start; p != NULL && !P(*p); p = p->next)\<close>. A loop that comes back
  to a node it has seen never ends, so the addresses seen so far are an argument and the loop is a
  total function: meeting one of them again is the fault \<open>Diverges\<close>. \<open>linked\<close> says which nodes a list
  has; the lemmas give the result of the loop and the effect of updates on lists.
\<close>

definition deref :: "(u32 \<rightharpoonup> 'a) \<Rightarrow> u32 \<Rightarrow> 'a res" where
  "deref m p = (if p = 0 then Inl Null_Pointer else case m p of None \<Rightarrow> Inl Out_Of_Bounds | Some x \<Rightarrow> Inr x)"

lemma deref_simps [simp, res_simps]:
  "deref m 0 = Inl Null_Pointer"
  "p \<noteq> 0 \<Longrightarrow> m p = Some x \<Longrightarrow> deref m p = Inr x"
  "p \<noteq> 0 \<Longrightarrow> m p = None \<Longrightarrow> deref m p = Inl Out_Of_Bounds"
  by (simp_all add: deref_def)

lemma deref_Inr_iff: "deref m p = Inr x \<longleftrightarrow> p \<noteq> 0 \<and> m p = Some x"
  by (auto simp: deref_def split: option.splits)

function find_node :: "(u32 \<rightharpoonup> 'a) \<Rightarrow> ('a \<Rightarrow> u32) \<Rightarrow> ('a \<Rightarrow> bool) \<Rightarrow> u32 list \<Rightarrow> u32 \<Rightarrow> u32 res" where
  "find_node m nxt P seen p =
     (if p = 0 then Inr 0
      else if p \<in> set seen then Inl Diverges
      else rbind (deref m p) (\<lambda>x. if P x then Inr p else find_node m nxt P (p # seen) (nxt x)))"
  by pat_completeness auto

lemma card_unseen: "p \<notin> set seen \<Longrightarrow> card (- set (p # seen)) < card (- set (seen :: u32 list))"
  by (rule psubset_card_mono) auto

termination find_node
  by (relation "measure (\<lambda>(m, nxt, P, seen, p). card (- set seen))") (use card_unseen in auto)

declare find_node.simps [simp del]

text \<open>The nodes of the list that starts at \<open>p\<close>, in order.\<close>

primrec linked :: "(u32 \<rightharpoonup> 'a) \<Rightarrow> ('a \<Rightarrow> u32) \<Rightarrow> u32 \<Rightarrow> u32 list \<Rightarrow> bool" where
  "linked m nxt p [] \<longleftrightarrow> p = 0"
| "linked m nxt p (a # as) \<longleftrightarrow> p = a \<and> a \<noteq> 0 \<and> (\<exists>x. m a = Some x \<and> linked m nxt (nxt x) as)"

lemma linked_unique: "linked m nxt p as \<Longrightarrow> linked m nxt p bs \<Longrightarrow> as = bs"
proof (induction as arbitrary: p bs)
  case Nil
  then show ?case by (cases bs) auto
next
  case (Cons a as)
  then show ?case by (cases bs) auto
qed

lemma linked_suffix: "linked m nxt p (as @ bs) \<Longrightarrow> \<exists>q. linked m nxt q bs"
  by (induction as arbitrary: p) auto

text \<open>A list that ends has no node twice.\<close>

lemma linked_distinct: "linked m nxt p as \<Longrightarrow> distinct as"
proof (induction as arbitrary: p)
  case (Cons a as)
  then obtain x where x: "linked m nxt a (a # as)" "linked m nxt (nxt x) as" by auto
  have "a \<notin> set as"
  proof
    assume "a \<in> set as"
    then obtain us vs where as: "as = us @ a # vs" by (auto simp: in_set_conv_decomp)
    with x(2) obtain q where "linked m nxt q (a # vs)" using linked_suffix by blast
    then have "linked m nxt a (a # vs)" by simp
    from linked_unique [OF this x(1)] as have "length vs = length (us @ a # vs)" by simp
    then show False by simp
  qed
  with Cons x show ?case by simp
qed simp

lemma linked_nonnull: "linked m nxt p as \<Longrightarrow> 0 \<notin> set as"
  by (induction as arbitrary: p) auto

lemma linked_live: "linked m nxt p as \<Longrightarrow> a \<in> set as \<Longrightarrow> \<exists>x. m a = Some x"
  by (induction as arbitrary: p) auto

lemma linked_cong:
  assumes "\<And>a. a \<in> set as \<Longrightarrow> map_option nxt (m' a) = map_option nxt (m a)"
  shows "linked m' nxt p as = linked m nxt p as"
  using assms
proof (induction as arbitrary: p)
  case (Cons a as)
  have "map_option nxt (m' a) = map_option nxt (m a)" using Cons.prems by simp
  then show ?case using Cons by (cases "m a"; cases "m' a") auto
qed simp

lemma linked_upd_other: "a \<notin> set as \<Longrightarrow> linked (m(a := y)) nxt p as = linked m nxt p as"
  by (rule linked_cong) auto

lemma find_node_linked:
  assumes "linked m nxt p as" and "set as \<inter> set seen = {}"
  shows "find_node m nxt P seen p = Inr (case find (\<lambda>a. P (the (m a))) as of None \<Rightarrow> 0 | Some a \<Rightarrow> a)"
  using assms
proof (induction as arbitrary: p seen)
  case Nil
  then show ?case by (subst find_node.simps) simp
next
  case (Cons a as)
  then obtain x where x: "p = a" "a \<noteq> 0" "m a = Some x" "linked m nxt (nxt x) as" by auto
  have "a \<notin> set as" using linked_distinct [OF Cons.prems(1)] by simp
  with Cons.prems have "set as \<inter> set (a # seen) = {}" by auto
  from Cons.IH [OF x(4) this] show ?case using x Cons.prems(2) by (subst find_node.simps) simp
qed

lemma find_unique:
  assumes "a \<in> set as" and "P a" and "\<forall>b \<in> set as. P b \<longrightarrow> b = a"
  shows "find P as = Some a"
proof -
  obtain us vs where as: "as = us @ a # vs" "a \<notin> set us" using split_list_first [OF assms(1)] by blast
  have "set us \<subseteq> set as" using as(1) by auto
  then have "\<forall>b \<in> set us. \<not> P b" using assms(3) as(2) by blast
  then show ?thesis unfolding as(1) using assms(2) by (induction us) simp_all
qed

end
