(* ===== verification/File_Descriptor.thy ===== *)
theory File_Descriptor
  imports Kernel_Prelude
begin

text \<open>
  The file descriptor of \<open>io/disk/file.h\<close>, shared by processes and file systems, and the stub
  operations of \<open>io/disk/file_op_stubs.c\<close>. Pointers, also those to the operations, are addresses.
\<close>

datatype FileDescriptorType = FD_TYPE_FILE | FD_TYPE_DIRECTORY | FD_TYPE_TTY

record FileDescriptor =
  seek :: u64
  file_size :: u64
  volume :: u32
  data :: u32
  traverse_op :: u32
  read_op :: u32
  write_op :: u32
  local_id :: u32
  fd_type :: FileDescriptorType
  fd_next :: u32

definition FileAccessOpStub :: u32 where "FileAccessOpStub = 0"

definition FileTraverseOpStub :: u32 where "FileTraverseOpStub = 0"

end
