(* ===== verification/Phys_Mem_Mgr.thy ===== *)
theory Phys_Mem_Mgr
  imports Util_Bitmap
begin

text \<open>
  \<open>arch/x86/mem/phys_mem_mgr_x86.c\<close>: page frames of physical memory, one bit per frame.

  The static \<open>bitmap\<close> is the state. \<open>KERNEL_STATIC_MEM_START\<close> is fixed by \<open>linker.ld\<close>; the end
  of the kernel image, \<open>KERNEL_STATIC_MEM_END\<close>, is known only after linking and is the parameter
  \<open>kend\<close>. A frame is named by its physical address, \<open>NULL\<close> is address 0.
\<close>

section \<open>Model\<close>

definition FRAME_SIZE :: u32 where
  "FRAME_SIZE = 4096"

definition KERNEL_STATIC_MEM_START :: u32 where
  "KERNEL_STATIC_MEM_START = 0xC0000000"

text \<open>\<open>BITMAP_LEN\<close> is the number of frames of a 4 GiB address space.\<close>

definition PHYS_BITMAP_LEN :: nat where
  "PHYS_BITMAP_LEN = 4294967296 div 4096"

text \<open>The static, zero-initialised array \<open>bitmap_data\<close>, as 32-bit words.\<close>

definition phys_bitmap_data :: "u32 list" where
  "phys_bitmap_data = replicate (PHYS_BITMAP_LEN div 8 div 4) 0"

definition X86PhysMemMgrInit :: "u32 \<Rightarrow> Bitmap \<Rightarrow> u32 list \<Rightarrow> u32 \<Rightarrow> Bitmap res" where
  "X86PhysMemMgrInit kend bitmap bitmap_data ram_size =
     (let bitmap = bitmap\<lparr>bm_words := bitmap_data\<rparr>;
          bitmap = bitmap\<lparr>bm_len := ram_size div FRAME_SIZE\<rparr>;
          kernel_len = kend - (KERNEL_STATIC_MEM_START AND 0xFFC00000);
          kernel_frames = kernel_len div FRAME_SIZE;
          kernel_frames = (if kernel_len mod FRAME_SIZE \<noteq> 0 then kernel_frames + 1 else kernel_frames);
          bitmap = bitmap\<lparr>dead_zone := kernel_frames + 1\<rparr>
      in InitBitmap bitmap False)"

definition X86PhysAllocateFrame :: "Bitmap \<Rightarrow> (Bitmap \<times> u32) res" where
  "X86PhysAllocateFrame bitmap =
     rbind (AllocateInBitmap bitmap 1) (\<lambda>(bitmap, k).
       if k = BITMAP_INVALID_WORD_IX then Inr (bitmap, 0)
       else Inr (bitmap, k * FRAME_SIZE))"

definition X86PhysFreeFrame :: "Bitmap \<Rightarrow> u32 \<Rightarrow> Bitmap res" where
  "X86PhysFreeFrame bitmap ptr = FreeInBitmap bitmap (ptr div FRAME_SIZE) 1"

section \<open>Frames\<close>

text \<open>Number of frames the kernel image occupies, counted from its 4 MiB-aligned base.\<close>

definition kernel_bytes :: "u32 \<Rightarrow> nat" where
  "kernel_bytes kend = unat (kend - (KERNEL_STATIC_MEM_START AND 0xFFC00000))"

definition kernel_frames :: "u32 \<Rightarrow> nat" where
  "kernel_frames kend = (kernel_bytes kend + 4095) div 4096"

definition phys_wf :: "Bitmap \<Rightarrow> bool" where
  "phys_wf bm \<longleftrightarrow> bm_wf bm \<and> 0 < lo_ix bm \<and> hi_ix bm \<le> PHYS_BITMAP_LEN"

text \<open>The frames handed out, by physical address.\<close>

definition frame_addr :: "nat \<Rightarrow> u32" where
  "frame_addr i = of_nat (i * 4096)"

definition frames_used :: "Bitmap \<Rightarrow> u32 set" where
  "frames_used bm = frame_addr ` used bm"

text \<open>All the frames under management: between the kernel image and the end of RAM.\<close>

definition frames_all :: "Bitmap \<Rightarrow> u32 set" where
  "frames_all bm = frame_addr ` {lo_ix bm..<hi_ix bm}"

lemma unat_frame_addr: "i < PHYS_BITMAP_LEN \<Longrightarrow> unat (frame_addr i) = i * 4096"
  by (simp add: frame_addr_def PHYS_BITMAP_LEN_def unat_of_nat del: of_nat_mult)

lemma frame_addr_inj: "inj_on frame_addr {..<PHYS_BITMAP_LEN}"
  by (rule inj_onI) (metis lessThan_iff mult_right_cancel unat_frame_addr zero_neq_numeral)

lemma frame_addr_of_word:
  assumes "unat k < PHYS_BITMAP_LEN"
  shows "k * FRAME_SIZE = frame_addr (unat k)"
  by (simp add: frame_addr_def FRAME_SIZE_def)

lemma frame_addr_div:
  assumes "i < PHYS_BITMAP_LEN"
  shows "unat (frame_addr i div FRAME_SIZE) = i"
  using unat_frame_addr [OF assms] by (simp add: unat_div FRAME_SIZE_def)

lemma frame_addr_nonzero: "0 < i \<Longrightarrow> i < PHYS_BITMAP_LEN \<Longrightarrow> frame_addr i \<noteq> 0"
  using unat_frame_addr [of i] by auto

lemma used_subset: "phys_wf bm \<Longrightarrow> used bm \<subseteq> {lo_ix bm..<hi_ix bm}"
  by (auto simp: used_def)

section \<open>The frame allocator contract\<close>

text \<open>
  What the virtual memory manager relies on: a frame returned is fresh and not \<open>NULL\<close>, \<open>NULL\<close> is
  returned only when every frame is taken, and a frame in use can be given back.
\<close>

locale frame_allocator =
  fixes invar :: "'p \<Rightarrow> bool"
    and all_frames :: "'p \<Rightarrow> u32 set"
    and in_use :: "'p \<Rightarrow> u32 set"
    and alloc :: "'p \<Rightarrow> ('p \<times> u32) res"
    and free :: "'p \<Rightarrow> u32 \<Rightarrow> 'p res"
  assumes in_use_subset: "invar p \<Longrightarrow> in_use p \<subseteq> all_frames p"
    and all_frames_shape: "invar p \<Longrightarrow> f \<in> all_frames p \<Longrightarrow> f \<noteq> 0 \<and> f mod 4096 = 0"
    and alloc_spec: "invar p \<Longrightarrow> \<exists>p' f. alloc p = Inr (p', f) \<and> invar p'
          \<and> all_frames p' = all_frames p
          \<and> (if f = 0 then in_use p = all_frames p \<and> in_use p' = in_use p
             else f \<in> all_frames p - in_use p \<and> in_use p' = insert f (in_use p))"
    and free_spec: "invar p \<Longrightarrow> f \<in> all_frames p \<Longrightarrow> \<exists>p'. free p f = Inr p' \<and> invar p'
          \<and> all_frames p' = all_frames p \<and> in_use p' = in_use p - {f}"
begin

lemma alloc_fresh:
  assumes "invar p" and "alloc p = Inr (p', f)" and "f \<noteq> 0"
  shows "invar p'" and "f \<in> all_frames p" and "f \<notin> in_use p" and "f mod 4096 = 0"
    and "in_use p' = insert f (in_use p)" and "all_frames p' = all_frames p"
  using alloc_spec [OF assms(1)] all_frames_shape [OF assms(1), of f] assms(2,3) by auto

lemma alloc_exhausted:
  assumes "invar p" and "alloc p = Inr (p', 0)"
  shows "in_use p = all_frames p"
  using alloc_spec [OF assms(1)] assms(2) by auto

lemma two_allocs_differ:
  assumes "invar p" and "alloc p = Inr (p', f)" and "alloc p' = Inr (p'', g)"
    and "f \<noteq> 0" and "g \<noteq> 0"
  shows "f \<noteq> g"
  using alloc_fresh [OF assms(1,2,4)] alloc_fresh [of p' p'' g] assms(3,5) by auto

lemma free_after_alloc:
  assumes "invar p" and "alloc p = Inr (p', f)" and "f \<noteq> 0"
  shows "\<exists>p''. free p' f = Inr p'' \<and> invar p'' \<and> in_use p'' = in_use p"
proof -
  have f: "invar p'" "f \<in> all_frames p'" and u: "in_use p' = insert f (in_use p)" "f \<notin> in_use p"
    using alloc_fresh [OF assms] by auto
  then show ?thesis using free_spec [OF f] by auto
qed

end

lemma X86PhysAllocateFrame_spec:
  assumes wf: "phys_wf bm"
  shows "\<exists>bm' f. X86PhysAllocateFrame bm = Inr (bm', f) \<and> phys_wf bm'
     \<and> frames_all bm' = frames_all bm
     \<and> (if f = 0 then frames_used bm = frames_all bm \<and> frames_used bm' = frames_used bm
        else f \<in> frames_all bm - frames_used bm \<and> frames_used bm' = insert f (frames_used bm))"
proof -
  have bw: "bm_wf bm" using wf by (simp add: phys_wf_def)
  show ?thesis
  proof (rule AllocateInBitmap_cases [OF bw, of 1])
    assume full: "AllocateInBitmap bm 1 = Inr (bm, BITMAP_INVALID_WORD_IX)"
      and none: "\<forall>s. \<not> free_run bm s (unat (1 :: u32))"
    have "i \<in> used bm" if "lo_ix bm \<le> i" "i < hi_ix bm" for i
      using none [rule_format, of i] that by (simp add: free_run_def)
    then have "used bm = {lo_ix bm..<hi_ix bm}" by (auto simp: used_def)
    with full wf show ?thesis
      by (auto simp: X86PhysAllocateFrame_def frames_used_def frames_all_def)
  next
    fix bm' r
    assume alloc: "AllocateInBitmap bm 1 = Inr (bm', r)" and r: "r \<noteq> BITMAP_INVALID_WORD_IX"
      and run: "free_run bm (unat r) (unat (1 :: u32))"
      and wf': "bm_wf bm'" "lo_ix bm' = lo_ix bm" "hi_ix bm' = hi_ix bm"
      and used': "used bm' = used bm \<union> range_of (unat r) (unat (1 :: u32))"
    have b: "lo_ix bm \<le> unat r" "unat r < hi_ix bm" "unat r \<notin> used bm"
      using run by (auto simp: free_run_def)
    then have lt: "unat r < PHYS_BITMAP_LEN" using wf by (simp add: phys_wf_def)
    have sub: "used bm \<subseteq> {..<PHYS_BITMAP_LEN}"
      using wf by (auto simp: phys_wf_def used_def)
    have fresh: "frame_addr (unat r) \<notin> frames_used bm"
      using frame_addr_inj sub lt b(3)
      by (metis frames_used_def inj_on_image_mem_iff lessThan_iff)
    have nz: "frame_addr (unat r) \<noteq> 0"
      using wf b lt by (intro frame_addr_nonzero) (auto simp: phys_wf_def)
    have "X86PhysAllocateFrame bm = Inr (bm', frame_addr (unat r))"
      using alloc r frame_addr_of_word [OF lt] by (simp add: X86PhysAllocateFrame_def)
    with nz fresh wf wf' used' b show ?thesis
      by (auto simp: phys_wf_def frames_used_def frames_all_def)
  qed simp
qed

lemma X86PhysFreeFrame_spec:
  assumes wf: "phys_wf bm" and f: "f \<in> frames_all bm"
  shows "\<exists>bm'. X86PhysFreeFrame bm f = Inr bm' \<and> phys_wf bm'
     \<and> frames_all bm' = frames_all bm \<and> frames_used bm' = frames_used bm - {f}"
proof -
  obtain i where i: "f = frame_addr i" "lo_ix bm \<le> i" "i < hi_ix bm"
    using f by (auto simp: frames_all_def)
  then have lt: "i < PHYS_BITMAP_LEN" using wf by (simp add: phys_wf_def)
  have k: "unat (f div FRAME_SIZE) = i" using frame_addr_div [OF lt] i(1) by simp
  have bw: "bm_wf bm" using wf by (simp add: phys_wf_def)
  have range: "in_bitmap bm (f div FRAME_SIZE) 1" using k i by (simp add: in_bitmap_def)
  have inj: "inj_on frame_addr (insert i (used bm))"
    using wf lt by (intro inj_on_subset [OF frame_addr_inj]) (auto simp: phys_wf_def used_def)
  then have "frame_addr ` (used bm - {i}) = frame_addr ` used bm - {frame_addr i}"
    by (auto simp: inj_on_def)
  moreover obtain bm' where "FreeInBitmap bm (f div FRAME_SIZE) 1 = Inr bm'" and "bm_wf bm'"
    and "lo_ix bm' = lo_ix bm" and "hi_ix bm' = hi_ix bm" and "used bm' = used bm - {i}"
    by (rule FreeInBitmap_spec [OF bw range]) (use k in simp)
  ultimately show ?thesis
    using wf i by (auto simp: X86PhysFreeFrame_def phys_wf_def frames_used_def frames_all_def)
qed


interpretation phys_frames: frame_allocator phys_wf frames_all frames_used
  X86PhysAllocateFrame X86PhysFreeFrame
proof
  fix p :: Bitmap
  assume wf: "phys_wf p"
  show "frames_used p \<subseteq> frames_all p"
    by (auto simp: frames_used_def frames_all_def used_def)
  show "f \<noteq> 0 \<and> f mod 4096 = 0" if f: "f \<in> frames_all p" for f
  proof -
    obtain i where i: "f = frame_addr i" "0 < i" "i < PHYS_BITMAP_LEN"
      using f wf by (fastforce simp: frames_all_def phys_wf_def)
    have "unat (f mod 4096) = 0"
      using unat_frame_addr [OF i(3)] i(1) by (simp add: unat_mod)
    with i frame_addr_nonzero show ?thesis by (simp add: unat_eq_0)
  qed
qed (use X86PhysAllocateFrame_spec X86PhysFreeFrame_spec in blast)+

section \<open>Initialisation\<close>

lemma kernel_frames_rounding:
  fixes len :: u32
  assumes "unat len + 4095 < 2 ^ 32"
  shows "unat (if len mod FRAME_SIZE \<noteq> 0 then len div FRAME_SIZE + 1 else len div FRAME_SIZE)
         = (unat len + 4095) div 4096"
proof -
  have d: "unat (len div FRAME_SIZE) = unat len div 4096"
    and m: "unat (len mod FRAME_SIZE) = unat len mod 4096"
    by (simp_all add: FRAME_SIZE_def unat_div unat_mod)
  have z: "len mod FRAME_SIZE \<noteq> 0 \<longleftrightarrow> unat len mod 4096 \<noteq> 0"
    using m by (metis unat_eq_0)
  have "unat (len div FRAME_SIZE + 1) = unat len div 4096 + 1"
    using d unat_u32_less [of len] by (simp add: unat_word_ariths)
  then show ?thesis using d z div_round_up [of 4096 "unat len"] by simp
qed

lemma kernel_bytes_covered: "kernel_bytes kend \<le> (kernel_frames kend + 1) * 4096"
proof -
  have "kernel_bytes kend + 4095 < 4096 + kernel_frames kend * 4096"
    unfolding kernel_frames_def by (rule dividend_less_div_times) simp
  then show ?thesis by simp
qed

lemma X86PhysMemMgrInit_spec:
  assumes fits: "kernel_bytes kend + 4095 < 2 ^ 32"
    and ram: "kernel_frames kend + 1 \<le> unat ram_size div 4096"
    and data: "length data = length phys_bitmap_data"
  shows "\<exists>bm. X86PhysMemMgrInit kend b data ram_size = Inr bm \<and> phys_wf bm
     \<and> lo_ix bm = kernel_frames kend + 1 \<and> hi_ix bm = unat ram_size div 4096 \<and> used bm = {}"
proof -
  let ?len = "kend - (KERNEL_STATIC_MEM_START AND 0xFFC00000)"
  let ?kf = "if ?len mod FRAME_SIZE \<noteq> 0 then ?len div FRAME_SIZE + 1 else ?len div FRAME_SIZE"
  let ?bm = "b\<lparr>bm_words := data, bm_len := ram_size div FRAME_SIZE, dead_zone := ?kf + 1\<rparr>"
  have hi: "hi_ix ?bm = unat ram_size div 4096"
    by (simp add: hi_ix_def FRAME_SIZE_def unat_div)
  have kf: "unat ?kf = kernel_frames kend"
    using kernel_frames_rounding [of ?len] fits by (simp add: kernel_frames_def kernel_bytes_def)
  have "kernel_frames kend + 1 < 2 ^ 32"
    using ram unat_u32_less [of ram_size] div_le_dividend [of "unat ram_size" 4096] by simp
  then have lo: "lo_ix ?bm = kernel_frames kend + 1"
    using kf by (simp add: lo_ix_def unat_word_ariths)
  have "hi_ix ?bm \<le> 1048576" using hi unat_u32_less [of ram_size] by linarith
  then have shape: "bm_shape ?bm"
    using lo hi ram data
    by (simp add: bm_shape_def phys_bitmap_data_def PHYS_BITMAP_LEN_def lo_ix_def hi_ix_def
        word_le_nat_alt)
  then obtain bm where init: "InitBitmap ?bm False = Inr bm" "bm_wf bm"
    "lo_ix bm = lo_ix ?bm" "hi_ix bm = hi_ix ?bm" "used bm = {}"
    using InitBitmap_spec [OF shape, of False] by auto
  have "X86PhysMemMgrInit kend b data ram_size = InitBitmap ?bm False"
    by (simp add: X86PhysMemMgrInit_def Let_def)
  with init lo hi \<open>hi_ix ?bm \<le> 1048576\<close> show ?thesis
    by (auto simp: phys_wf_def PHYS_BITMAP_LEN_def)
qed

section \<open>Properties\<close>

text \<open>
  When RAM is larger than the kernel image, \<open>X86PhysMemMgrInit\<close> does not fault and starts
  with every managed frame free; the managed frames are exactly those above the image (its
  4 MiB-aligned base is physical address 0) and below the end of RAM.
\<close>

theorem X86PhysMemMgrInit_manages:
  assumes "kernel_bytes kend + 4095 < 2 ^ 32"
    and "kernel_frames kend + 1 \<le> unat ram_size div 4096"
  shows "\<exists>bm. X86PhysMemMgrInit kend b phys_bitmap_data ram_size = Inr bm \<and> phys_wf bm
     \<and> frames_used bm = {}
     \<and> frames_all bm = frame_addr ` {kernel_frames kend + 1..<unat ram_size div 4096}
     \<and> kernel_bytes kend \<le> (kernel_frames kend + 1) * 4096
     \<and> (\<forall>i < unat ram_size div 4096. unat (frame_addr i) + 4096 \<le> unat ram_size)"
proof -
  have "unat (frame_addr i) + 4096 \<le> unat ram_size" if "i < unat ram_size div 4096" for i
  proof -
    have "(i + 1) * 4096 \<le> unat ram_size div 4096 * 4096" using that by simp
    also have "\<dots> \<le> unat ram_size" by (rule div_times_less_eq_dividend)
    finally have "i * 4096 + 4096 \<le> unat ram_size" by simp
    moreover have "i < PHYS_BITMAP_LEN"
      using that unat_u32_less [of ram_size] by (simp add: PHYS_BITMAP_LEN_def)
    ultimately show ?thesis by (simp add: unat_frame_addr)
  qed
  moreover have "kernel_bytes kend \<le> (kernel_frames kend + 1) * 4096"
    by (rule kernel_bytes_covered)
  moreover obtain bm where "X86PhysMemMgrInit kend b phys_bitmap_data ram_size = Inr bm"
    and "phys_wf bm" and "lo_ix bm = kernel_frames kend + 1"
    and "hi_ix bm = unat ram_size div 4096" and "used bm = {}"
    using X86PhysMemMgrInit_spec [OF assms refl] by blast
  ultimately show ?thesis by (intro exI [of _ bm]) (simp add: frames_used_def frames_all_def)
qed

text \<open>The image ends at \<open>0xC0450123\<close>, the machine has 16 MiB.\<close>

theorem X86PhysMemMgrInit_manages_witness:
  "\<exists>bm. X86PhysMemMgrInit 0xC0450123 demo_bitmap phys_bitmap_data 0x1000000 = Inr bm
     \<and> phys_wf bm \<and> frames_used bm = {} \<and> frames_all bm = frame_addr ` {1106..<4096}"
proof -
  have b: "kernel_bytes 0xC0450123 = 0x450123"
    by (simp add: kernel_bytes_def KERNEL_STATIC_MEM_START_def)
  then have f: "kernel_frames 0xC0450123 = 1105" by (simp add: kernel_frames_def)
  show ?thesis
    using X86PhysMemMgrInit_manages [of "0xC0450123" "0x1000000" demo_bitmap] b f by auto
qed

text \<open>
  \<open>X86PhysAllocateFrame\<close> never faults; it returns \<open>NULL\<close> only when all managed frames are
  in use, and otherwise a page-aligned, non-\<open>NULL\<close> managed frame that was not in use.
\<close>

theorem X86PhysAllocateFrame_fresh:
  assumes "phys_wf bm"
  shows "\<exists>bm' f. X86PhysAllocateFrame bm = Inr (bm', f) \<and> phys_wf bm'
     \<and> (if f = 0 then frames_used bm = frames_all bm
        else f \<in> frames_all bm \<and> f \<notin> frames_used bm \<and> f mod 4096 = 0
          \<and> frames_used bm' = insert f (frames_used bm))"
  using phys_frames.alloc_spec [OF assms] phys_frames.all_frames_shape [OF assms] by fastforce

definition demo_frames :: Bitmap where
  "demo_frames = \<lparr>bm_words = [1], bm_len = 8, dead_zone = 3, first_free = 4\<rparr>"

lemma demo_frames_wf: "phys_wf demo_frames"
proof -
  have "bm_wf demo_frames" by code_simp
  then show ?thesis
    by (simp add: phys_wf_def PHYS_BITMAP_LEN_def lo_ix_def hi_ix_def demo_frames_def)
qed

theorem X86PhysAllocateFrame_fresh_witness:
  "\<exists>bm'. X86PhysAllocateFrame demo_frames = Inr (bm', 0x4000)
     \<and> 0x4000 \<in> frames_all demo_frames \<and> 0x4000 \<notin> frames_used demo_frames
     \<and> frames_used bm' = insert 0x4000 (frames_used demo_frames)"
proof -
  have "X86PhysAllocateFrame demo_frames
      = Inr (\<lparr>bm_words = [3], bm_len = 8, dead_zone = 3, first_free = 5\<rparr>, 0x4000)"
    by code_simp
  with X86PhysAllocateFrame_fresh [OF demo_frames_wf] show ?thesis by auto
qed

text \<open>
  Two frames allocated one after the other differ, and freeing a frame just allocated does
  not fault and restores the set of frames in use.
\<close>

theorem X86PhysFreeFrame_undoes_allocate:
  assumes "phys_wf bm" and "X86PhysAllocateFrame bm = Inr (bm', f)" and "f \<noteq> 0"
  shows "(\<exists>bm''. X86PhysFreeFrame bm' f = Inr bm'' \<and> phys_wf bm''
            \<and> frames_used bm'' = frames_used bm)
    \<and> (\<forall>bm'' g. X86PhysAllocateFrame bm' = Inr (bm'', g) \<longrightarrow> g \<noteq> f)"
  using phys_frames.free_after_alloc [OF assms] phys_frames.two_allocs_differ [OF assms(1,2)] assms(3)
  by blast

theorem X86PhysFreeFrame_undoes_allocate_witness:
  "\<exists>bm'. X86PhysAllocateFrame demo_frames = Inr (bm', 0x4000)
     \<and> (\<exists>bm''. X86PhysFreeFrame bm' 0x4000 = Inr bm'' \<and> frames_used bm'' = frames_used demo_frames)"
proof -
  have "X86PhysAllocateFrame demo_frames
      = Inr (\<lparr>bm_words = [3], bm_len = 8, dead_zone = 3, first_free = 5\<rparr>, 0x4000)"
    by code_simp
  with X86PhysFreeFrame_undoes_allocate [OF demo_frames_wf this] show ?thesis by auto
qed

end
