(* ===== verification/Gdt_X86.thy ===== *)
theory Gdt_X86
  imports Kernel_Prelude
begin

text \<open>
  The global descriptor table of \<open>arch/x86/dt/gdt_x86.c\<close>.

  The state holds the table, the descriptor-table register image and the value the processor was
  last given by \<open>X86SetGdtr\<close> (\<open>lgdt\<close>), and the task state segment. The addresses of the static
  objects \<open>gdt\<close> and \<open>tss\<close> are chosen by the linker and are arguments. The specification reads an
  entry the way the processor does: base, limit in bytes, privilege level and type.
\<close>

section \<open>Model\<close>

definition GDT_ENTRY_ACCESS_RW_DATA_RING0 :: u8 where "GDT_ENTRY_ACCESS_RW_DATA_RING0 = 0x92"
definition GDT_ENTRY_ACCESS_READABLE_CODE_RING0 :: u8 where "GDT_ENTRY_ACCESS_READABLE_CODE_RING0 = 0x9A"
definition GDT_ENTRY_ACCESS_RW_DATA_RING3 :: u8 where "GDT_ENTRY_ACCESS_RW_DATA_RING3 = 0xF2"
definition GDT_ENTRY_ACCESS_READABLE_CODE_RING3 :: u8 where "GDT_ENTRY_ACCESS_READABLE_CODE_RING3 = 0xFA"
definition GDT_ENTRY_GRANULARITY_PAGE_32_BIT :: u8 where "GDT_ENTRY_GRANULARITY_PAGE_32_BIT = 0xC0"

record Tss =
  unused_1 :: u32
  esp0 :: u32
  ss0 :: u16
  unused_2 :: "u16 list"
  iopb :: u16

definition sizeof_Tss :: u32 where "sizeof_Tss = 4 + 4 + 2 + 46 * 2 + 2"

record GdtEntry =
  limit_low :: u16
  base_low :: "24 word"
  access_byte :: u8
  granularity :: u8
  base_high :: u8

definition sizeof_GdtEntry :: u32 where "sizeof_GdtEntry = 8"

record Gdtr =
  gdtr_size :: u16
  gdtr_base :: u32

record gdt_state =
  gdt :: "GdtEntry list"
  gdtr :: Gdtr
  cpu_gdtr :: "Gdtr option"   \<comment> \<open>operand of the last \<open>lgdt\<close>\<close>
  tss :: Tss

definition X86SetGdtr :: "Gdtr \<Rightarrow> gdt_state \<Rightarrow> gdt_state" where
  "X86SetGdtr r s = s\<lparr>cpu_gdtr := Some r\<rparr>"

definition UpdateGdt :: "u32 \<Rightarrow> u16 \<Rightarrow> gdt_state \<Rightarrow> gdt_state" where
  "UpdateGdt gdt_addr entries s =
     (let s = s\<lparr>gdtr := (gdtr s)\<lparr>gdtr_base := gdt_addr\<rparr>\<rparr>;
          s = s\<lparr>gdtr := (gdtr s)\<lparr>gdtr_size := ucast (ucast entries * sizeof_GdtEntry - 1)\<rparr>\<rparr>
      in X86SetGdtr (gdtr s) s)"

definition SetGdtEntry :: "u16 \<Rightarrow> u32 \<Rightarrow> u32 \<Rightarrow> u8 \<Rightarrow> u8 \<Rightarrow> gdt_state \<Rightarrow> gdt_state res" where
  "SetGdtEntry n base limit access gran s =
     rbind (load (gdt s) (unat n)) (\<lambda>e.
     let e = e\<lparr>granularity := gran AND 0xF0\<rparr>;
         e = e\<lparr>access_byte := access\<rparr>;
         e = e\<lparr>base_low := ucast base\<rparr>;
         e = e\<lparr>base_high := ucast (drop_bit 24 base)\<rparr>;
         e = e\<lparr>limit_low := ucast limit\<rparr>;
         e = e\<lparr>granularity := granularity e OR ucast (drop_bit 16 limit AND 0x0F)\<rparr>
     in rbind (store (gdt s) (unat n) e) (\<lambda>g. Inr (s\<lparr>gdt := g\<rparr>)))"

definition X86SetKernelStack :: "u32 \<Rightarrow> gdt_state \<Rightarrow> gdt_state" where
  "X86SetKernelStack stack s = s\<lparr>tss := (tss s)\<lparr>esp0 := stack\<rparr>\<rparr>"

definition zero_tss :: Tss where
  "zero_tss = \<lparr>unused_1 = 0, esp0 = 0, ss0 = 0, unused_2 = replicate 46 0, iopb = 0\<rparr>"

definition X86GdtInit :: "u32 \<Rightarrow> u32 \<Rightarrow> u16 \<Rightarrow> gdt_state \<Rightarrow> gdt_state res" where
  "X86GdtInit gdt_addr tss_addr ss s =
     (let null_entry = \<lparr>limit_low = 0, base_low = 0, access_byte = 0, granularity = 0, base_high = 0\<rparr> in
      rbind (store (gdt s) 0 null_entry) (\<lambda>g. let s = s\<lparr>gdt := g\<rparr> in
      rbind (SetGdtEntry 1 0 0xFFFFF GDT_ENTRY_ACCESS_READABLE_CODE_RING0
               GDT_ENTRY_GRANULARITY_PAGE_32_BIT s) (\<lambda>s.
      rbind (SetGdtEntry 2 0 0xFFFFF GDT_ENTRY_ACCESS_RW_DATA_RING0
               GDT_ENTRY_GRANULARITY_PAGE_32_BIT s) (\<lambda>s.
      rbind (SetGdtEntry 3 0 0xFFFFF GDT_ENTRY_ACCESS_READABLE_CODE_RING3
               GDT_ENTRY_GRANULARITY_PAGE_32_BIT s) (\<lambda>s.
      rbind (SetGdtEntry 4 0 0xFFFFF GDT_ENTRY_ACCESS_RW_DATA_RING3
               GDT_ENTRY_GRANULARITY_PAGE_32_BIT s) (\<lambda>s.
      let s = s\<lparr>tss := (tss s)\<lparr>ss0 := ss\<rparr>\<rparr>;
          s = s\<lparr>tss := zero_tss\<rparr>;
          s = s\<lparr>tss := (tss s)\<lparr>ss0 := 0x10\<rparr>\<rparr>;
          s = s\<lparr>tss := (tss s)\<lparr>iopb := ucast sizeof_Tss\<rparr>\<rparr> in
      rbind (SetGdtEntry 5 tss_addr sizeof_Tss 0x89 GDT_ENTRY_GRANULARITY_PAGE_32_BIT s) (\<lambda>s.
        Inr (UpdateGdt gdt_addr 6 s))))))))"

section \<open>Specification: what the processor reads\<close>

definition seg_base :: "GdtEntry \<Rightarrow> u32" where
  "seg_base e = push_bit 24 (ucast (base_high e)) OR ucast (base_low e)"

definition seg_limit20 :: "GdtEntry \<Rightarrow> u32" where
  "seg_limit20 e = push_bit 16 (ucast (granularity e AND 0x0F)) OR ucast (limit_low e)"

text \<open>The last byte offset of the segment: in units of bytes, or of pages when the G bit is set.\<close>

definition seg_last :: "GdtEntry \<Rightarrow> nat" where
  "seg_last e = (if bit (granularity e) 7 then unat (seg_limit20 e) * 4096 + 4095
                 else unat (seg_limit20 e))"

definition seg_dpl :: "GdtEntry \<Rightarrow> nat" where
  "seg_dpl e = unat (drop_bit 5 (access_byte e) AND 3)"

definition seg_present :: "GdtEntry \<Rightarrow> bool" where
  "seg_present e \<longleftrightarrow> bit (access_byte e) 7"

definition gdt_ok :: "gdt_state \<Rightarrow> bool" where
  "gdt_ok s \<longleftrightarrow> length (gdt s) = 8192"

section \<open>Entries\<close>

lemma gdt_masks: "(0xF0 :: u8) = push_bit 4 (mask 4)" "(0x0F :: 'a::len word) = mask 4"
  by (simp_all add: mask_eq_exp_minus_1 push_bit_eq_mult)

lemma base_parts: "push_bit 24 (ucast (ucast (drop_bit 24 b) :: u8)) OR ucast (ucast b :: 24 word) = (b :: u32)"
  by (rule bit_word_eqI) (auto simp: bit_simps)

lemma granularity_parts:
  fixes l :: u32 and g :: u8
  defines "r \<equiv> (g AND 0xF0) OR ucast (drop_bit 16 l AND 0x0F)"
  shows "r AND 0xF0 = g AND 0xF0" and "r AND 0x0F = ucast (drop_bit 16 l AND 0x0F)" and "bit r 7 = bit g 7"
  unfolding r_def gdt_masks
    apply (rule bit_word_eqI; auto simp: bit_simps)
   apply (rule bit_word_eqI; auto simp: bit_simps)
  apply (auto simp: bit_simps)
  done

lemma limit_parts:
  fixes l :: u32
  assumes "unat l < 2 ^ 20"
  shows "push_bit 16 (ucast (ucast (drop_bit 16 l AND 0x0F) :: u8)) OR ucast (ucast l :: u16) = l"
proof -
  have "take_bit 20 l = l"
    using assms by (simp add: word_unat_eq_iff unsigned_take_bit_eq take_bit_nat_eq_self)
  then have hi: "bit l n \<Longrightarrow> n < 20" for n by (metis bit_take_bit_iff)
  show ?thesis unfolding gdt_masks by (rule bit_word_eqI) (auto simp: bit_simps dest: hi)
qed

text \<open>The entry \<open>SetGdtEntry\<close> writes, whatever was there before.\<close>

definition entry_of :: "u32 \<Rightarrow> u32 \<Rightarrow> u8 \<Rightarrow> u8 \<Rightarrow> GdtEntry" where
  "entry_of base limit access gran =
     \<lparr>limit_low = ucast limit, base_low = ucast base, access_byte = access,
      granularity = (gran AND 0xF0) OR ucast (drop_bit 16 limit AND 0x0F),
      base_high = ucast (drop_bit 24 base)\<rparr>"

lemma SetGdtEntry_in:
  assumes "unat n < length (gdt s)"
  shows "SetGdtEntry n base limit access gran s
     = Inr (s\<lparr>gdt := (gdt s)[unat n := entry_of base limit access gran]\<rparr>)"
  using assms by (cases "gdt s ! unat n") (simp add: SetGdtEntry_def entry_of_def Let_def)

lemma entry_of_base [simp]: "seg_base (entry_of base limit access gran) = base"
  by (simp add: seg_base_def entry_of_def base_parts)

lemma entry_of_limit:
  "unat limit < 2 ^ 20 \<Longrightarrow> seg_limit20 (entry_of base limit access gran) = limit"
  unfolding seg_limit20_def entry_of_def by (simp only: GdtEntry.select_convs granularity_parts limit_parts)

lemma entry_of_flags [simp]:
  "granularity (entry_of base limit access gran) AND 0xF0 = gran AND 0xF0"
  "bit (granularity (entry_of base limit access gran)) 7 = bit gran 7"
  "access_byte (entry_of base limit access gran) = access"
  by (simp_all only: entry_of_def GdtEntry.select_convs granularity_parts)

section \<open>Properties\<close>

text \<open>
  A descriptor written by \<open>SetGdtEntry\<close> reads back: for every base and every 20-bit limit the
  processor sees that base and that limit, the access byte and the four flag bits as given,
  whatever the slot held before; no other slot changes; an index past the table is the only way to
  leave it.
\<close>

theorem SetGdtEntry_roundtrip:
  assumes "gdt_ok s" and "unat limit < 2 ^ 20"
  shows "if unat n < 8192 then
      \<exists>s'. SetGdtEntry n base limit access gran s = Inr s' \<and> gdt_ok s'
        \<and> seg_base (gdt s' ! unat n) = base \<and> seg_limit20 (gdt s' ! unat n) = limit
        \<and> access_byte (gdt s' ! unat n) = access
        \<and> granularity (gdt s' ! unat n) AND 0xF0 = gran AND 0xF0
        \<and> (\<forall>k. k \<noteq> unat n \<longrightarrow> gdt s' ! k = gdt s ! k) \<and> s'\<lparr>gdt := gdt s\<rparr> = s
    else SetGdtEntry n base limit access gran s = Inl Out_Of_Bounds"
  using assms SetGdtEntry_in [of n s base limit access gran]
  by (simp add: gdt_ok_def entry_of_limit) (simp add: SetGdtEntry_def)

definition boot_gdt :: gdt_state where
  "boot_gdt = \<lparr>gdt = replicate 8192 \<lparr>limit_low = 0xFFFF, base_low = 0xFFFFFF, access_byte = 0xFF,
       granularity = 0xFF, base_high = 0xFF\<rparr>,
     gdtr = \<lparr>gdtr_size = 0, gdtr_base = 0\<rparr>, cpu_gdtr = None, tss = zero_tss\<rparr>"

lemma gdt_ok_boot: "gdt_ok boot_gdt"
  by (simp add: gdt_ok_def boot_gdt_def)

theorem SetGdtEntry_roundtrip_witness:
  "\<exists>s'. SetGdtEntry 3 0xC0123456 0xABCDE 0x92 0xC0 boot_gdt = Inr s'
     \<and> seg_base (gdt s' ! 3) = 0xC0123456 \<and> seg_limit20 (gdt s' ! 3) = 0xABCDE"
proof -
  have "unat (0xABCDE :: u32) < 2 ^ 20" by simp
  from SetGdtEntry_roundtrip [OF gdt_ok_boot this, of 3 "0xC0123456" "0x92" "0xC0"] show ?thesis by auto
qed

text \<open>
  after \<open>X86GdtInit\<close> the processor uses the table at \<open>gdt\<close> with exactly six entries: the null
  descriptor, flat 4 GiB code and data segments for ring 0 and ring 3, and the task state segment
  at \<open>tss\<close>, whose ring-0 stack selector is the kernel data segment. The limit of the last one is
  given in pages, so the segment extends beyond the structure and the I/O permission bitmap, said to
  start at its end, lies inside the segment.
\<close>

theorem X86GdtInit_segments:
  assumes "gdt_ok s"
  shows "\<exists>s'. X86GdtInit gdt_addr tss_addr ss s = Inr s' \<and> gdt_ok s'
    \<and> cpu_gdtr s' = Some \<lparr>gdtr_size = 6 * 8 - 1, gdtr_base = gdt_addr\<rparr>
    \<and> \<not> seg_present (gdt s' ! 0)
    \<and> map (\<lambda>i. (access_byte (gdt s' ! i), seg_dpl (gdt s' ! i), seg_base (gdt s' ! i), seg_last (gdt s' ! i)))
        [1, 2, 3, 4]
      = [(0x9A, 0, 0, 2 ^ 32 - 1), (0x92, 0, 0, 2 ^ 32 - 1), (0xFA, 3, 0, 2 ^ 32 - 1), (0xF2, 3, 0, 2 ^ 32 - 1)]
    \<and> access_byte (gdt s' ! 5) = 0x89 \<and> seg_base (gdt s' ! 5) = tss_addr
    \<and> ss0 (tss s') = 0x10 \<and> unat (iopb (tss s')) = unat sizeof_Tss
    \<and> unat (iopb (tss s')) < seg_last (gdt s' ! 5)"
proof -
  have len: "length (gdt s) = 8192" using assms by (simp add: gdt_ok_def)
  let ?n = "\<lparr>limit_low = 0, base_low = 0, access_byte = 0, granularity = 0, base_high = 0\<rparr>"
  let ?g = "(gdt s)[0 := ?n, 1 := entry_of 0 0xFFFFF 0x9A 0xC0, 2 := entry_of 0 0xFFFFF 0x92 0xC0,
      3 := entry_of 0 0xFFFFF 0xFA 0xC0, 4 := entry_of 0 0xFFFFF 0xF2 0xC0,
      5 := entry_of tss_addr sizeof_Tss 0x89 0xC0]"
  let ?s = "UpdateGdt gdt_addr 6 (s\<lparr>tss := zero_tss\<lparr>ss0 := 0x10, iopb := ucast sizeof_Tss\<rparr>, gdt := ?g\<rparr>)"
  have init: "X86GdtInit gdt_addr tss_addr ss s = Inr ?s"
    using len by (simp add: X86GdtInit_def SetGdtEntry_in GDT_ENTRY_ACCESS_READABLE_CODE_RING0_def
        GDT_ENTRY_ACCESS_RW_DATA_RING0_def GDT_ENTRY_ACCESS_READABLE_CODE_RING3_def
        GDT_ENTRY_ACCESS_RW_DATA_RING3_def GDT_ENTRY_GRANULARITY_PAGE_32_BIT_def)
  have g: "gdt ?s = ?g" by (simp add: UpdateGdt_def X86SetGdtr_def Let_def)
  have bit7: "bit (0xC0 :: u8) 7" by simp
  have last: "seg_last (entry_of b 0xFFFFF a 0xC0) = 2 ^ 32 - 1"
    and tss_last: "seg_last (entry_of b sizeof_Tss a 0xC0) = 104 * 4096 + 4095" for a b
    using bit7 by (simp_all add: seg_last_def entry_of_limit sizeof_Tss_def)
  have dpl: "seg_dpl (entry_of b l 0x9A 0xC0) = 0" "seg_dpl (entry_of b l 0x92 0xC0) = 0"
    "seg_dpl (entry_of b l 0xFA 0xC0) = 3" "seg_dpl (entry_of b l 0xF2 0xC0) = 3" for b l
    by (simp_all add: seg_dpl_def drop_bit_eq_div)
  have c: "cpu_gdtr ?s = Some \<lparr>gdtr_size = 47, gdtr_base = gdt_addr\<rparr>"
    by (simp add: UpdateGdt_def X86SetGdtr_def Let_def sizeof_GdtEntry_def)
  have t: "tss ?s = zero_tss\<lparr>ss0 := 0x10, iopb := 104\<rparr>"
    by (simp add: UpdateGdt_def X86SetGdtr_def Let_def sizeof_Tss_def)
  have z: "unat sizeof_Tss = 104" by (simp add: sizeof_Tss_def)
  obtain s' where "X86GdtInit gdt_addr tss_addr ss s = Inr s'" "gdt s' = ?g" "tss s' = zero_tss\<lparr>ss0 := 0x10, iopb := 104\<rparr>"
    "cpu_gdtr s' = Some \<lparr>gdtr_size = 47, gdtr_base = gdt_addr\<rparr>"
    using init g c t by blast
  then show ?thesis
    using len z by (simp add: gdt_ok_def last tss_last dpl seg_present_def)
qed

theorem X86GdtInit_segments_witness:
  "\<exists>s'. X86GdtInit 0xC0200000 0xC0210000 0 boot_gdt = Inr s' \<and> seg_base (gdt s' ! 5) = 0xC0210000
    \<and> cpu_gdtr s' = Some \<lparr>gdtr_size = 47, gdtr_base = 0xC0200000\<rparr>"
  using X86GdtInit_segments [OF gdt_ok_boot, of "0xC0200000" "0xC0210000" 0] by auto

end
