(* ===== verification/Idt_X86.thy ===== *)
theory Idt_X86
  imports Gdt_X86
begin

text \<open>
  The interrupt descriptor table and the dispatch of interrupts, \<open>arch/x86/dt/idt_x86.c\<close>, with
  \<open>X86StopScheduler\<close> and \<open>X86StartScheduler\<close> of \<open>arch/x86/user/process.c\<close>.

  The entry stubs of \<open>idt_x86.asm\<close> are named by the type \<open>stub\<close> and placed by the linker: \<open>addr\<close> gives
  their addresses. The state records the byte writes to ports, oldest first; what a port read
  returns is up to the device, a function \<open>in8\<close> of the writes so far. Registered handlers are values
  of a type \<open>'h\<close>, and calling one is an argument \<open>call\<close> of the dispatchers, which act on the same
  trace of port writes.
\<close>

section \<open>Model\<close>

datatype stub = X86Isr nat | X86Irq nat | X86SoftInt nat | X86Syscall

record Idtr =
  idtr_size :: u16
  idtr_base :: u32

record GdtSelector =
  rpl :: "2 word"
  ldt :: bool
  index :: "13 word"

record IdtEntry =
  offset_low :: u16
  segment :: GdtSelector
  zero_byte :: u8
  gate_type :: u8
  offset_high :: u16

definition IDT_ENTRY_TYPE_INTERRUPT_32_RING0 :: u8 where "IDT_ENTRY_TYPE_INTERRUPT_32_RING0 = 0x8E"
definition IDT_ENTRY_TYPE_INTERRUPT_32_RING3 :: u8 where "IDT_ENTRY_TYPE_INTERRUPT_32_RING3 = 0xEE"

definition IRQ :: "u8 \<Rightarrow> u8" where "IRQ x = x + 0x20"

definition USER_SYSCALL_INTERRUPT :: u8 where "USER_SYSCALL_INTERRUPT = 0x80"
definition USER_PROCESS_TIME_SLICE_US :: int where "USER_PROCESS_TIME_SLICE_US = 2000"

record X86CpuState =
  ds :: u32
  edi :: u32
  esi :: u32
  ebp :: u32
  esp :: u32
  ebx :: u32
  edx :: u32
  ecx :: u32
  eax :: u32
  interrupt :: u32
  error_code :: u32
  eip :: u32
  cs :: u32
  eflags :: u32
  user_esp :: u32
  ss :: u32

record 'h idt_state =
  idt :: "IdtEntry list"
  idtr :: Idtr
  cpu_idtr :: "Idtr option"   \<comment> \<open>operand of the last \<open>lidt\<close>\<close>
  isr_handlers :: "'h option list"
  irq_handlers :: "'h option list"
  soft_int_handlers :: "'h option list"
  port_writes8 :: "(u16 \<times> u8) list"
  interrupts_on :: bool   \<comment> \<open>set by \<open>sti\<close>\<close>

definition PortWrite8 :: "u16 \<Rightarrow> u8 \<Rightarrow> 'h idt_state \<Rightarrow> 'h idt_state" where
  "PortWrite8 port v s = s\<lparr>port_writes8 := port_writes8 s @ [(port, v)]\<rparr>"

definition UpdateIdt :: "u32 \<Rightarrow> 'h idt_state \<Rightarrow> 'h idt_state" where
  "UpdateIdt idt_addr s =
     (let s = s\<lparr>idtr := \<lparr>idtr_size = 8 * 256, idtr_base = idt_addr\<rparr>\<rparr>
      in s\<lparr>cpu_idtr := Some (idtr s)\<rparr>)"

definition RegisterInterrupt :: "u8 \<Rightarrow> u32 \<Rightarrow> u8 \<Rightarrow> 'h idt_state \<Rightarrow> 'h idt_state res" where
  "RegisterInterrupt n handler type s =
     (let seg = \<lparr>rpl = 0, ldt = False, index = 1\<rparr>;
          e = \<lparr>offset_low = ucast handler, segment = seg, zero_byte = 0, gate_type = type,
               offset_high = ucast (drop_bit 16 handler)\<rparr> in
      rbind (store (idt s) (unat n) e) (\<lambda>t. Inr (s\<lparr>idt := t\<rparr>)))"

definition X86RegisterIsrHandler :: "u8 \<Rightarrow> 'h \<Rightarrow> 'h idt_state \<Rightarrow> 'h idt_state res" where
  "X86RegisterIsrHandler n handler s =
     rbind (store (isr_handlers s) (unat n) (Some handler)) (\<lambda>t. Inr (s\<lparr>isr_handlers := t\<rparr>))"

text \<open>\<open>n - 0x30\<close> and \<open>n - IRQ(0)\<close> are \<open>int\<close>s: a smaller \<open>n\<close> indexes in front of the array.\<close>

definition X86RegisterSoftIntHandler :: "u8 \<Rightarrow> 'h \<Rightarrow> 'h idt_state \<Rightarrow> 'h idt_state res" where
  "X86RegisterSoftIntHandler n handler s =
     (if uint n - 0x30 < 0 then Inl Out_Of_Bounds
      else rbind (store (soft_int_handlers s) (nat (uint n - 0x30)) (Some handler)) (\<lambda>t.
             Inr (s\<lparr>soft_int_handlers := t\<rparr>)))"

definition X86RegisterIrqHandler :: "u8 \<Rightarrow> 'h \<Rightarrow> 'h idt_state \<Rightarrow> 'h idt_state res" where
  "X86RegisterIrqHandler n handler s =
     (if uint n - uint (IRQ 0) < 0 then Inl Out_Of_Bounds
      else rbind (store (irq_handlers s) (nat (uint n - uint (IRQ 0))) (Some handler)) (\<lambda>t.
             Inr (s\<lparr>irq_handlers := t\<rparr>)))"

type_synonym 'h caller = "'h \<Rightarrow> X86CpuState \<Rightarrow> 'h idt_state \<Rightarrow> ('h idt_state \<times> X86CpuState) res"

definition X86IsrHandler :: "'h caller \<Rightarrow> X86CpuState \<Rightarrow> 'h idt_state \<Rightarrow> 'h idt_state res" where
  "X86IsrHandler call st s =
     rbind (load (isr_handlers s) (unat (interrupt st))) (\<lambda>h.
       case h of None \<Rightarrow> Inr s | Some h \<Rightarrow> rbind (call h st s) (\<lambda>(s, st). Inr s))"

definition X86SoftIntHandler :: "'h caller \<Rightarrow> X86CpuState \<Rightarrow> 'h idt_state \<Rightarrow> 'h idt_state res" where
  "X86SoftIntHandler call st s =
     (let i = interrupt st - 0x30 in
      rbind (load (soft_int_handlers s) (unat i)) (\<lambda>h.
        case h of None \<Rightarrow> Inr s | Some h \<Rightarrow> rbind (call h st s) (\<lambda>(s, st). Inr s)))"

definition X86IrqHandler :: "'h caller \<Rightarrow> X86CpuState \<Rightarrow> 'h idt_state \<Rightarrow> 'h idt_state res" where
  "X86IrqHandler call st s =
     (let i = interrupt st - ucast (IRQ 0) in
      rbind (load (irq_handlers s) (unat i)) (\<lambda>h.
      rbind (case h of None \<Rightarrow> Inr (s, st) | Some h \<Rightarrow> call h st s) (\<lambda>(s, st).
        if interrupt st > ucast (IRQ 7) then Inr (PortWrite8 0xA0 0x20 s)
        else Inr (PortWrite8 0x20 0x20 s))))"

definition X86StopScheduler :: "((u16 \<times> u8) list \<Rightarrow> u16 \<Rightarrow> u8) \<Rightarrow> 'h idt_state \<Rightarrow> 'h idt_state" where
  "X86StopScheduler in8 s = PortWrite8 0x21 (in8 (port_writes8 s) 0x21 OR 0x01) s"

definition X86StartScheduler :: "((u16 \<times> u8) list \<Rightarrow> u16 \<Rightarrow> u8) \<Rightarrow> 'h idt_state \<Rightarrow> 'h idt_state" where
  "X86StartScheduler in8 s = PortWrite8 0x21 (in8 (port_writes8 s) 0x21 AND 0xFE) s"

definition X86IdtInit_isrs :: "(stub \<Rightarrow> u32) \<Rightarrow> 'h idt_state \<Rightarrow> 'h idt_state res" where
  "X86IdtInit_isrs addr =
     rfold (\<lambda>n. RegisterInterrupt (of_nat n) (addr (X86Isr n)) IDT_ENTRY_TYPE_INTERRUPT_32_RING0)
       ([0..<12] @ [31] @ [12..<31])"

definition X86IdtInit_irqs :: "(stub \<Rightarrow> u32) \<Rightarrow> 'h idt_state \<Rightarrow> 'h idt_state res" where
  "X86IdtInit_irqs addr =
     rfold (\<lambda>n. RegisterInterrupt (IRQ (of_nat n)) (addr (X86Irq n)) IDT_ENTRY_TYPE_INTERRUPT_32_RING0)
       [0..<16]"

definition X86IdtInit_soft_ints :: "(stub \<Rightarrow> u32) \<Rightarrow> 'h idt_state \<Rightarrow> 'h idt_state res" where
  "X86IdtInit_soft_ints addr =
     rfold (\<lambda>n. RegisterInterrupt (of_nat n) (addr (X86SoftInt n)) IDT_ENTRY_TYPE_INTERRUPT_32_RING0)
       [0x30..<0x100]"

definition X86IdtInit_pics :: "'h idt_state \<Rightarrow> 'h idt_state" where
  "X86IdtInit_pics s =
     fold (\<lambda>(p, v). PortWrite8 p v)
       [(0x20, 0x11), (0x21, IRQ 0), (0x21, 0x04), (0x21, 0x01), (0x21, 0x00),
        (0xA0, 0x11), (0xA1, IRQ 8), (0xA1, 0x02), (0xA1, 0x01), (0xA1, 0x00)] s"

definition zero_gate :: IdtEntry where
  "zero_gate = \<lparr>offset_low = 0, segment = \<lparr>rpl = 0, ldt = False, index = 0\<rparr>, zero_byte = 0,
     gate_type = 0, offset_high = 0\<rparr>"

text \<open>\<open>1.193182 * 2000\<close> is converted to an integer by truncation.\<close>

definition X86IdtInit ::
  "((u16 \<times> u8) list \<Rightarrow> u16 \<Rightarrow> u8) \<Rightarrow> u32 \<Rightarrow> (stub \<Rightarrow> u32) \<Rightarrow> 'h \<Rightarrow> 'h idt_state \<Rightarrow> 'h idt_state res" where
  "X86IdtInit in8 idt_addr addr X86SchedulerTick s =
     (let s = s\<lparr>idt := replicate 256 zero_gate\<rparr>;
          s = UpdateIdt idt_addr s in
      rbind (X86IdtInit_isrs addr s) (\<lambda>s.
      rbind (X86IdtInit_irqs addr s) (\<lambda>s.
      rbind (X86IdtInit_soft_ints addr s) (\<lambda>s.
      rbind (RegisterInterrupt USER_SYSCALL_INTERRUPT (addr X86Syscall)
               IDT_ENTRY_TYPE_INTERRUPT_32_RING3 s) (\<lambda>s.
      rbind (X86RegisterIrqHandler (IRQ 0) X86SchedulerTick s) (\<lambda>s.
      let s = X86IdtInit_pics s;
          divisor = word_of_int (1193182 * USER_PROCESS_TIME_SLICE_US div 1000000) :: u16;
          s = PortWrite8 0x40 (ucast divisor) s;
          s = PortWrite8 0x40 (ucast (drop_bit 8 divisor)) s;
          s = X86StopScheduler in8 s
      in Inr (s\<lparr>interrupts_on := True\<rparr>)))))))"

section \<open>Specification\<close>

definition gate_offset :: "IdtEntry \<Rightarrow> u32" where
  "gate_offset e = push_bit 16 (ucast (offset_high e)) OR ucast (offset_low e)"

definition gate_present :: "IdtEntry \<Rightarrow> bool" where
  "gate_present e \<longleftrightarrow> bit (gate_type e) 7"

definition gate_dpl :: "IdtEntry \<Rightarrow> nat" where
  "gate_dpl e = unat (drop_bit 5 (gate_type e) AND 3)"

definition is_interrupt_gate :: "IdtEntry \<Rightarrow> bool" where
  "is_interrupt_gate e \<longleftrightarrow> gate_type e AND 0x1F = 0x0E"

text \<open>The stub each vector is meant to enter.\<close>

definition stub_of :: "nat \<Rightarrow> stub" where
  "stub_of n = (if n = 0x80 then X86Syscall else if n < 32 then X86Isr n
                else if n < 48 then X86Irq (n - 32) else X86SoftInt n)"

definition idt_ok :: "'h idt_state \<Rightarrow> bool" where
  "idt_ok s \<longleftrightarrow> length (isr_handlers s) = 32 \<and> length (irq_handlers s) = 16
     \<and> length (soft_int_handlers s) = 208"

section \<open>Registering gates\<close>

definition gate :: "u32 \<Rightarrow> u8 \<Rightarrow> IdtEntry" where
  "gate h t = \<lparr>offset_low = ucast h, segment = \<lparr>rpl = 0, ldt = False, index = 1\<rparr>, zero_byte = 0,
     gate_type = t, offset_high = ucast (drop_bit 16 h)\<rparr>"

lemma gate_offset_gate [simp]: "gate_offset (gate h t) = h"
  unfolding gate_offset_def gate_def by (rule bit_word_eqI) (auto simp: bit_simps)

definition put_gates :: "('n \<Rightarrow> nat) \<Rightarrow> ('n \<Rightarrow> IdtEntry) \<Rightarrow> 'n list \<Rightarrow> IdtEntry list \<Rightarrow> IdtEntry list" where
  "put_gates v g ns t = fold (\<lambda>n t. t[v n := g n]) ns t"

lemma length_put_gates [simp]: "length (put_gates v g ns t) = length t"
  unfolding put_gates_def by (induction ns arbitrary: t) simp_all

lemma put_gates_other: "k \<notin> v ` set ns \<Longrightarrow> put_gates v g ns t ! k = t ! k"
  unfolding put_gates_def by (induction ns arbitrary: t) auto

lemma put_gates_at:
  assumes "inj_on v (set ns)" and "n \<in> set ns" and "v n < length t"
  shows "put_gates v g ns t ! v n = g n"
  using assms unfolding put_gates_def
proof (induction ns arbitrary: t)
  case (Cons m ns)
  show ?case
  proof (cases "n \<in> set ns")
    case True
    with Cons show ?thesis by simp
  next
    case False
    with Cons.prems have "n = m" "v n \<notin> v ` set ns" by (auto simp: inj_on_def)
    with Cons.prems put_gates_other [of "v n" v ns g] show ?thesis by (simp add: put_gates_def)
  qed
qed simp

lemma put_gates_cong: "(\<And>n. n \<in> set ns \<Longrightarrow> v n = v' n) \<Longrightarrow> put_gates v g ns t = put_gates v' g ns t"
  unfolding put_gates_def by (induction ns arbitrary: t) simp_all

lemma RegisterInterrupt_in:
  "length (idt s) = 256 \<Longrightarrow> RegisterInterrupt n h t s = Inr (s\<lparr>idt := (idt s)[unat n := gate h t]\<rparr>)"
  using unat_u8_less [of n] by (simp add: RegisterInterrupt_def gate_def)

lemma register_all:
  assumes "length (idt s) = 256"
  shows "rfold (\<lambda>n. RegisterInterrupt (v n) (h n) ty) ns s
     = Inr (s\<lparr>idt := put_gates (\<lambda>n. unat (v n)) (\<lambda>n. gate (h n) ty) ns (idt s)\<rparr>)"
  using assms
  by (induction ns arbitrary: s) (simp_all add: RegisterInterrupt_in put_gates_def)

lemma vector_range:
  "n < 256 \<Longrightarrow> unat (of_nat n :: u8) = n" "n < 16 \<Longrightarrow> unat (IRQ (of_nat n)) = n + 32"
  by (simp_all add: unat_of_nat_less IRQ_def unat_word_ariths)

definition full_table :: "(stub \<Rightarrow> u32) \<Rightarrow> IdtEntry list \<Rightarrow> IdtEntry list" where
  "full_table addr t =
     (put_gates (\<lambda>n. unat (of_nat n :: u8)) (\<lambda>n. gate (addr (X86SoftInt n)) 0x8E) [0x30..<0x100]
       (put_gates (\<lambda>n. unat (IRQ (of_nat n))) (\<lambda>n. gate (addr (X86Irq n)) 0x8E) [0..<16]
         (put_gates (\<lambda>n. unat (of_nat n :: u8)) (\<lambda>n. gate (addr (X86Isr n)) 0x8E)
            ([0..<12] @ [31] @ [12..<31]) t)))[0x80 := gate (addr X86Syscall) 0xEE]"

lemma full_table_nth:
  assumes "length t = 256" and "n < 256"
  shows "full_table addr t ! n = gate (addr (stub_of n)) (if n = 0x80 then 0xEE else 0x8E)"
proof -
  let ?isrs = "[0..<12] @ [31] @ [12..<31]" and ?id = "\<lambda>n :: nat. n"
  have sets: "set [0x30..<0x100] = {0x30..<0x100}" "set [0..<16] = {0..<16}" "set ?isrs = {0..<32}"
    by (auto simp del: upt_rec_numeral)
  have soft: "put_gates (\<lambda>n. unat (of_nat n :: u8)) g [0x30..<0x100] u = put_gates ?id g [0x30..<0x100] u"
    and irq: "put_gates (\<lambda>n. unat (IRQ (of_nat n))) g [0..<16] u = put_gates (\<lambda>n. n + 32) g [0..<16] u"
    and isr: "put_gates (\<lambda>n. unat (of_nat n :: u8)) g ?isrs u = put_gates ?id g ?isrs u" for g u
    by (rule put_gates_cong; simp only: sets; simp add: vector_range)+
  let ?t1 = "put_gates ?id (\<lambda>n. gate (addr (X86Isr n)) 0x8E) ?isrs t"
  let ?t2 = "put_gates (\<lambda>n. n + 32) (\<lambda>n. gate (addr (X86Irq n)) 0x8E) [0..<16] ?t1"
  let ?t3 = "put_gates ?id (\<lambda>n. gate (addr (X86SoftInt n)) 0x8E) [0x30..<0x100] ?t2"
  have t3: "full_table addr t = ?t3[0x80 := gate (addr X86Syscall) 0xEE]"
    unfolding full_table_def soft irq isr ..
  consider "n < 32" | "32 \<le> n" "n < 48" | "48 \<le> n" by linarith
  then have "?t3 ! n = gate (addr (if n < 32 then X86Isr n else if n < 48 then X86Irq (n - 32) else X86SoftInt n)) 0x8E"
  proof cases
    case 1
    have "?t3 ! n = ?t1 ! n"
      using 1 by (subst put_gates_other, simp only: sets, force)+ simp
    moreover have "?t1 ! n = gate (addr (X86Isr n)) 0x8E"
      using 1 assms by (intro put_gates_at [of ?id]) (auto simp del: upt_rec_numeral)
    ultimately show ?thesis using 1 by simp
  next
    case 2
    have "?t3 ! n = ?t2 ! n" using 2 by (subst put_gates_other, simp only: sets, force) simp
    moreover have "?t2 ! (n - 32 + 32) = gate (addr (X86Irq (n - 32))) 0x8E"
      using 2 assms by (intro put_gates_at) (auto simp: inj_on_def sets simp del: upt_rec_numeral)
    ultimately show ?thesis using 2 by simp
  next
    case 3
    have "?t3 ! n = gate (addr (X86SoftInt n)) 0x8E"
      using 3 assms by (intro put_gates_at [of ?id]) (auto simp: sets simp del: upt_rec_numeral)
    with 3 show ?thesis by simp
  qed
  then show ?thesis using assms unfolding t3 by (simp add: nth_list_update stub_of_def)
qed

lemma X86IdtInit_tables:
  assumes "idt_ok s"
  shows "\<exists>s'. X86IdtInit in8 idt_addr addr tick s = Inr s'
    \<and> idt s' = full_table addr (replicate 256 zero_gate) \<and> idt_ok s'
    \<and> cpu_idtr s' = Some \<lparr>idtr_size = 2048, idtr_base = idt_addr\<rparr>
    \<and> irq_handlers s' = (irq_handlers s)[0 := Some tick] \<and> isr_handlers s' = isr_handlers s
    \<and> soft_int_handlers s' = soft_int_handlers s \<and> interrupts_on s'
    \<and> port_writes8 s' = (let w = port_writes8 s @
        [(0x20, 0x11), (0x21, 0x20), (0x21, 0x04), (0x21, 0x01), (0x21, 0x00),
         (0xA0, 0x11), (0xA1, 0x28), (0xA1, 0x02), (0xA1, 0x01), (0xA1, 0x00),
         (0x40, 0x52), (0x40, 0x09)] in w @ [(0x21, in8 w 0x21 OR 0x01)])"
proof -
  let ?s0 = "UpdateIdt idt_addr (s\<lparr>idt := replicate 256 zero_gate\<rparr>)"
  have len: "length (idt ?s0) = 256" by (simp add: UpdateIdt_def Let_def)
  have gates: "rbind (X86IdtInit_isrs addr ?s0) (\<lambda>s. rbind (X86IdtInit_irqs addr s) (\<lambda>s.
      rbind (X86IdtInit_soft_ints addr s) (\<lambda>s.
      RegisterInterrupt USER_SYSCALL_INTERRUPT (addr X86Syscall) IDT_ENTRY_TYPE_INTERRUPT_32_RING3 s)))
      = Inr (?s0\<lparr>idt := full_table addr (replicate 256 zero_gate)\<rparr>)"
    using len unfolding X86IdtInit_isrs_def X86IdtInit_irqs_def X86IdtInit_soft_ints_def
    by (simp add: register_all RegisterInterrupt_in full_table_def UpdateIdt_def Let_def
        IDT_ENTRY_TYPE_INTERRUPT_32_RING0_def IDT_ENTRY_TYPE_INTERRUPT_32_RING3_def
        USER_SYSCALL_INTERRUPT_def del: upt_rec_numeral append_Cons)
  have init: "X86IdtInit in8 idt_addr addr tick s =
      rbind (Inr (?s0\<lparr>idt := full_table addr (replicate 256 zero_gate)\<rparr>)) (\<lambda>s.
      rbind (X86RegisterIrqHandler (IRQ 0) tick s) (\<lambda>s.
      let s = X86IdtInit_pics s;
          divisor = word_of_int (1193182 * USER_PROCESS_TIME_SLICE_US div 1000000) :: u16;
          s = PortWrite8 0x40 (ucast divisor) s;
          s = PortWrite8 0x40 (ucast (drop_bit 8 divisor)) s;
          s = X86StopScheduler in8 s
      in Inr (s\<lparr>interrupts_on := True\<rparr>)))"
    unfolding X86IdtInit_def Let_def gates [symmetric] rbind_assoc ..
  have "0 < length (irq_handlers s)" using assms by (simp add: idt_ok_def)
  moreover have m: "(2386 :: u8) = 82" by simp
  ultimately show ?thesis
    using assms unfolding init
    by (simp add: m X86RegisterIrqHandler_def X86IdtInit_pics_def X86StopScheduler_def PortWrite8_def
        UpdateIdt_def Let_def IRQ_def idt_ok_def USER_PROCESS_TIME_SLICE_US_def drop_bit_eq_div)
qed

section \<open>Properties\<close>

text \<open>
  C8: after \<open>X86IdtInit\<close> every one of the 256 vectors has a present 32-bit interrupt gate into the
  kernel code segment whose offset is the address of its own stub: the exception stubs for 0 to 31,
  the IRQ stubs for 0x20 to 0x2F, the software-interrupt stubs above, and the system-call stub at
  0x80. Only 0x80 can be raised from user mode. The interrupt controllers are programmed to deliver
  IRQ 0 to 7 at 0x20 and IRQ 8 to 15 at 0x28, where those gates are, the timer interrupt goes to
  the scheduler, and its line is masked until the scheduler is started.
\<close>

theorem X86IdtInit_gates:
  assumes "idt_ok s"
  shows "\<exists>s'. X86IdtInit in8 idt_addr addr tick s = Inr s' \<and> idt_ok s' \<and> length (idt s') = 256
    \<and> (\<forall>n < 256. gate_present (idt s' ! n) \<and> is_interrupt_gate (idt s' ! n)
         \<and> gate_offset (idt s' ! n) = addr (stub_of n)
         \<and> segment (idt s' ! n) = \<lparr>rpl = 0, ldt = False, index = 1\<rparr>
         \<and> gate_dpl (idt s' ! n) = (if n = 0x80 then 3 else 0))
    \<and> irq_handlers s' ! 0 = Some tick \<and> interrupts_on s'
    \<and> (\<exists>mask. bit mask 0 \<and> port_writes8 s' = port_writes8 s @
        [(0x20, 0x11), (0x21, 0x20), (0x21, 0x04), (0x21, 0x01), (0x21, 0x00),
         (0xA0, 0x11), (0xA1, 0x28), (0xA1, 0x02), (0xA1, 0x01), (0xA1, 0x00),
         (0x40, 0x52), (0x40, 0x09), (0x21, mask)])"
proof -
  obtain s' where i: "X86IdtInit in8 idt_addr addr tick s = Inr s'"
    and t: "idt s' = full_table addr (replicate 256 zero_gate)" and ok: "idt_ok s'"
    and h: "irq_handlers s' = (irq_handlers s)[0 := Some tick]" "interrupts_on s'"
    and w: "port_writes8 s' = (let w = port_writes8 s @
        [(0x20, 0x11), (0x21, 0x20), (0x21, 0x04), (0x21, 0x01), (0x21, 0x00),
         (0xA0, 0x11), (0xA1, 0x28), (0xA1, 0x02), (0xA1, 0x01), (0xA1, 0x00),
         (0x40, 0x52), (0x40, 0x09)] in w @ [(0x21, in8 w 0x21 OR 0x01)])"
    using X86IdtInit_tables [OF assms] by blast
  have nth: "idt s' ! n = gate (addr (stub_of n)) (if n = 0x80 then 0xEE else 0x8E)" if "n < 256" for n
    unfolding t using that by (intro full_table_nth) simp_all
  have ty: "bit (0xEE :: u8) 7" "bit (0x8E :: u8) 7" "(0xEE :: u8) AND 0x1F = 0x0E" "(0x8E :: u8) AND 0x1F = 0x0E"
    "unat (drop_bit 5 (0xEE :: u8) AND 3) = 3" "unat (drop_bit 5 (0x8E :: u8) AND 3) = 0"
    by (simp_all add: drop_bit_eq_div)
  have "\<forall>n < 256. gate_present (idt s' ! n) \<and> is_interrupt_gate (idt s' ! n)
         \<and> gate_offset (idt s' ! n) = addr (stub_of n)
         \<and> segment (idt s' ! n) = \<lparr>rpl = 0, ldt = False, index = 1\<rparr>
         \<and> gate_dpl (idt s' ! n) = (if n = 0x80 then 3 else 0)"
    using ty by (auto simp: nth gate_present_def is_interrupt_gate_def gate_dpl_def)
       (simp_all add: gate_def)
  moreover have "length (idt s') = 256" by (simp add: t full_table_def)
  moreover have "irq_handlers s' ! 0 = Some tick" using h(1) assms by (simp add: idt_ok_def)
  moreover have "\<exists>mask. bit mask 0 \<and> port_writes8 s' = port_writes8 s @
        [(0x20, 0x11), (0x21, 0x20), (0x21, 0x04), (0x21, 0x01), (0x21, 0x00),
         (0xA0, 0x11), (0xA1, 0x28), (0xA1, 0x02), (0xA1, 0x01), (0xA1, 0x00),
         (0x40, 0x52), (0x40, 0x09), (0x21, mask)]"
    unfolding w Let_def by (intro exI conjI) (simp_all add: bit_simps)
  ultimately show ?thesis using i ok h(2) by blast
qed

definition boot_idt :: "nat idt_state" where
  "boot_idt = \<lparr>idt = [], idtr = \<lparr>idtr_size = 0, idtr_base = 0\<rparr>, cpu_idtr = None,
     isr_handlers = replicate 32 None, irq_handlers = replicate 16 None,
     soft_int_handlers = replicate 208 None, port_writes8 = [], interrupts_on = False\<rparr>"

lemma idt_ok_boot: "idt_ok boot_idt"
  by (simp add: idt_ok_def boot_idt_def)

theorem X86IdtInit_gates_witness:
  "\<exists>s'. X86IdtInit (\<lambda>_ _. 0) 0xC0220000 (\<lambda>_. 0xC0100000) 7 boot_idt = Inr s'
     \<and> gate_dpl (idt s' ! 0x80) = 3 \<and> gate_dpl (idt s' ! 14) = 0
     \<and> gate_offset (idt s' ! 0x21) = 0xC0100000 \<and> irq_handlers s' ! 0 = Some 7"
proof -
  obtain s' where "X86IdtInit (\<lambda>_ _. 0) 0xC0220000 (\<lambda>_. 0xC0100000) 7 boot_idt = Inr s'"
    "\<forall>n < 256. gate_offset (idt s' ! n) = 0xC0100000 \<and> gate_dpl (idt s' ! n) = (if n = 0x80 then 3 else 0)"
    "irq_handlers s' ! 0 = Some 7"
    using X86IdtInit_gates [OF idt_ok_boot, of "\<lambda>_ _. 0" "0xC0220000" "\<lambda>_. 0xC0100000" 7] by blast
  then show ?thesis by simp
qed

text \<open>
  C9: an IRQ reaches the handler registered for it: after \<open>X86RegisterIrqHandler\<close> with a vector
  between 0x20 and 0x2F, \<open>X86IrqHandler\<close> entered for that vector calls exactly that handler, and
  when the handler returns acknowledges the interrupt, at the slave controller for IRQ 8 to 15 and
  at the master for IRQ 0 to 7. The master is not acknowledged for IRQ 8 to 15. Any other vector
  is registered outside the table.
\<close>

theorem X86IrqHandler_dispatch:
  assumes "idt_ok s" and "\<And>s s' st st'. call h st s = Inr (s', st') \<Longrightarrow> interrupt st' = interrupt st"
  shows "if 0x20 \<le> v \<and> v < 0x30 then
      \<exists>s1. X86RegisterIrqHandler v h s = Inr s1 \<and> idt_ok s1 \<and> idt s1 = idt s
        \<and> (\<forall>st s2 st2. interrupt st = ucast v \<and> call h st s1 = Inr (s2, st2) \<longrightarrow>
             X86IrqHandler call st s1 = Inr (PortWrite8 (if 0x28 \<le> v then 0xA0 else 0x20) 0x20 s2))
        \<and> (\<forall>st e. interrupt st = ucast v \<and> call h st s1 = Inl e \<longrightarrow> X86IrqHandler call st s1 = Inl e)
    else X86RegisterIrqHandler v h s = Inl Out_Of_Bounds"
proof -
  have len: "length (irq_handlers s) = 16" using assms(1) by (simp add: idt_ok_def)
  have u: "uint v < 32 \<longleftrightarrow> unat v < 32" "nat (uint v - 32) = unat v - 32"
    using uint_ge_0 [of v] unfolding unat_eq_nat_uint by linarith+
  have irq0: "uint (IRQ 0) = 32" "(ucast (IRQ 0) :: u32) = 32" "(ucast (IRQ 7) :: u32) = 39"
    by (simp_all add: IRQ_def)
  show ?thesis
  proof (cases "0x20 \<le> v \<and> v < 0x30")
    case True
    then have v: "32 \<le> unat v" "unat v < 48" by (simp_all add: word_le_nat_alt word_less_nat_alt)
    have ix: "unat (ucast v - 32 :: u32) = unat v - 32"
      using v by (subst unat_sub) (simp_all add: word_le_nat_alt unat_ucast_mod)
    have gt: "(39 :: u32) < ucast v \<longleftrightarrow> 0x28 \<le> v"
      using v by (simp add: word_less_nat_alt word_le_nat_alt unat_ucast_mod) arith
    let ?s1 = "s\<lparr>irq_handlers := (irq_handlers s)[unat v - 32 := Some h]\<rparr>"
    have reg: "X86RegisterIrqHandler v h s = Inr ?s1"
      using v len by (simp add: X86RegisterIrqHandler_def irq0 u)
    have ld: "load (irq_handlers ?s1) (unat (ucast v - 32 :: u32)) = Inr (Some h)"
      using v len ix by simp
    have disp: "X86IrqHandler call st ?s1 = rbind (call h st ?s1) (\<lambda>(s2, st2).
        if 39 < interrupt st2 then Inr (PortWrite8 0xA0 0x20 s2) else Inr (PortWrite8 0x20 0x20 s2))"
      if "interrupt st = ucast v" for st
      unfolding X86IrqHandler_def Let_def irq0 that ld by simp
    have ret: "X86IrqHandler call st ?s1 = Inr (PortWrite8 (if 0x28 \<le> v then 0xA0 else 0x20) 0x20 s2)"
      if "interrupt st = ucast v" and "call h st ?s1 = Inr (s2, st2)" for st s2 st2
      unfolding disp [OF that(1)] that(2) using assms(2) [OF that(2)] that(1) gt by simp
    have exc: "X86IrqHandler call st ?s1 = Inl e"
      if "interrupt st = ucast v" and "call h st ?s1 = Inl e" for st e
      unfolding disp [OF that(1)] that(2) by simp
    have "idt_ok ?s1" "idt ?s1 = idt s" using assms(1) by (simp_all add: idt_ok_def)
    with reg ret exc True show ?thesis by (simp only: if_True simp_thms) blast
  next
    case False
    then have "unat v < 32 \<or> 48 \<le> unat v" by (auto simp: word_le_nat_alt word_less_nat_alt)
    then show ?thesis
      using False len by (auto simp: X86RegisterIrqHandler_def irq0 u)
  qed
qed

text \<open>A handler that does nothing but return, as a concrete instance.\<close>

definition noop_call :: "nat caller" where
  "noop_call h st s = Inr (PortWrite8 0x60 (of_nat h) s, st)"

theorem X86IrqHandler_dispatch_witness:
  "\<exists>s1. X86RegisterIrqHandler 0x2E 5 boot_idt = Inr s1
     \<and> X86RegisterIrqHandler 0x30 5 boot_idt = Inl Out_Of_Bounds"
  using X86IrqHandler_dispatch [OF idt_ok_boot, of noop_call 5 "0x2E"]
    X86IrqHandler_dispatch [OF idt_ok_boot, of noop_call 5 "0x30"]
  by (auto simp: noop_call_def PortWrite8_def)

end
