(* ===== verification/Virt_Mem_Mgr.thy ===== *)
theory Virt_Mem_Mgr
  imports Phys_Mem_Mgr Idt_X86
begin

text \<open>
  \<open>arch/x86/mem/virt_mem_mgr_x86.c\<close>: page directories and page tables.

  Directories and tables are words of physical memory, \<open>pmem\<close>, indexed by frame number and by the
  word inside the frame. That includes the kernel's own: \<open>kernel_page_directory\<close> and the contiguous
  \<open>kernel_page_table\<close> occupy the frames \<open>kpd_frame\<close> and \<open>kpt_frame\<close> onwards (the linker places them,
  page-aligned), so that a process directory whose upper entries point to the kernel tables really
  shares them. A virtual address the kernel dereferences lies above 3 GiB and is translated by the
  kernel page table, in every address space; an absent page is a fault.

  A directory pointer is \<open>Kernel_Dir\<close>, the static object the code compares with, or the virtual
  address of a mapped frame. \<open>GetPte\<close>, \<open>SetPte\<close> and \<open>CreatePageTable\<close> map the table they work on with
  \<open>AllocateMap\<close>, which calls them again with the kernel directory, where they do not recurse; the
  functions are therefore defined for \<open>Kernel_Dir\<close> first. The loop of \<open>FindContiguousFreeFrames\<close>
  visits the frames by page number, up to the wrap-around to \<open>NULL\<close>.
\<close>

section \<open>Model\<close>

record PageDirectoryEntry =
  pde_present :: bool
  pde_writable :: bool
  pde_user :: bool
  pde_write_through_caching :: bool
  pde_cache_disable :: bool
  pde_accessed :: bool
  pde_zero :: "1 word"
  pde_big_pages :: bool
  pde_ignored :: "1 word"
  pde_available :: "3 word"
  page_table_addr :: "20 word"

record PageTableEntry =
  present :: bool
  writable :: bool
  user :: bool
  write_through_caching :: bool
  cache_disable :: bool
  dirty :: bool
  zero_bit :: "1 word"
  global :: bool
  ignored :: "1 word"
  available :: "3 word"
  page_frame_addr :: "20 word"

text \<open>The packed layouts: a field of the structure is a run of bits of the word.\<close>

definition word_of_pde :: "PageDirectoryEntry \<Rightarrow> u32" where
  "word_of_pde e = of_bool (pde_present e) OR push_bit 1 (of_bool (pde_writable e))
     OR push_bit 2 (of_bool (pde_user e)) OR push_bit 3 (of_bool (pde_write_through_caching e))
     OR push_bit 4 (of_bool (pde_cache_disable e)) OR push_bit 5 (of_bool (pde_accessed e))
     OR push_bit 6 (ucast (pde_zero e)) OR push_bit 7 (of_bool (pde_big_pages e))
     OR push_bit 8 (ucast (pde_ignored e)) OR push_bit 9 (ucast (pde_available e))
     OR push_bit 12 (ucast (page_table_addr e))"

definition pde_of_word :: "u32 \<Rightarrow> PageDirectoryEntry" where
  "pde_of_word w = \<lparr>pde_present = bit w 0, pde_writable = bit w 1, pde_user = bit w 2,
     pde_write_through_caching = bit w 3, pde_cache_disable = bit w 4, pde_accessed = bit w 5,
     pde_zero = ucast (drop_bit 6 w), pde_big_pages = bit w 7, pde_ignored = ucast (drop_bit 8 w),
     pde_available = ucast (drop_bit 9 w), page_table_addr = ucast (drop_bit 12 w)\<rparr>"

definition word_of_pte :: "PageTableEntry \<Rightarrow> u32" where
  "word_of_pte e = of_bool (present e) OR push_bit 1 (of_bool (writable e))
     OR push_bit 2 (of_bool (user e)) OR push_bit 3 (of_bool (write_through_caching e))
     OR push_bit 4 (of_bool (cache_disable e)) OR push_bit 5 (of_bool (dirty e))
     OR push_bit 6 (ucast (zero_bit e)) OR push_bit 7 (of_bool (global e))
     OR push_bit 8 (ucast (ignored e)) OR push_bit 9 (ucast (available e))
     OR push_bit 12 (ucast (page_frame_addr e))"

definition pte_of_word :: "u32 \<Rightarrow> PageTableEntry" where
  "pte_of_word w = \<lparr>present = bit w 0, writable = bit w 1, user = bit w 2,
     write_through_caching = bit w 3, cache_disable = bit w 4, dirty = bit w 5,
     zero_bit = ucast (drop_bit 6 w), global = bit w 7, ignored = ucast (drop_bit 8 w),
     available = ucast (drop_bit 9 w), page_frame_addr = ucast (drop_bit 12 w)\<rparr>"

definition table_entry :: "u32 \<Rightarrow> 10 word" where
  "table_entry vaddr = ucast (drop_bit 12 vaddr)"

definition directory_entry :: "u32 \<Rightarrow> 10 word" where
  "directory_entry vaddr = ucast (drop_bit 22 vaddr)"

datatype dir_ptr = Kernel_Dir | Dir_At u32

record vmm =
  kpd_frame :: "20 word"
  kpt_frame :: "20 word"
  current_page_directory :: dir_ptr
  cr3 :: u32
  pmem :: "20 word \<Rightarrow> 10 word \<Rightarrow> u32"
  frames :: Bitmap

definition frame_no :: "u32 \<Rightarrow> 20 word" where
  "frame_no phys = ucast (drop_bit 12 phys)"

definition frame_base :: "20 word \<Rightarrow> u32" where
  "frame_base f = push_bit 12 (ucast f)"

definition zero_pte :: PageTableEntry where
  "zero_pte = pte_of_word 0"

text \<open>\<open>kernel_page_table[directory_entry * 1024 + table_entry]\<close>.\<close>

definition kernel_pte :: "vmm \<Rightarrow> u32 \<Rightarrow> PageTableEntry" where
  "kernel_pte s vaddr = pte_of_word (pmem s (kpt_frame s + ucast (directory_entry vaddr)) (table_entry vaddr))"

definition set_word :: "20 word \<Rightarrow> 10 word \<Rightarrow> u32 \<Rightarrow> vmm \<Rightarrow> vmm" where
  "set_word f i w s = s\<lparr>pmem := (pmem s)(f := (pmem s f)(i := w))\<rparr>"

definition set_kernel_pte :: "u32 \<Rightarrow> PageTableEntry \<Rightarrow> vmm \<Rightarrow> vmm" where
  "set_kernel_pte vaddr pte s = set_word (kpt_frame s + ucast (directory_entry vaddr)) (table_entry vaddr) (word_of_pte pte) s"

text \<open>Dereferencing a kernel virtual address: the frame behind it, and the 32-bit word at it.\<close>

definition virt_frame :: "vmm \<Rightarrow> u32 \<Rightarrow> (20 word) res" where
  "virt_frame s a = (let e = kernel_pte s a in
     if present e then Inr (page_frame_addr e) else Inl Page_Fault)"

definition read_word :: "vmm \<Rightarrow> u32 \<Rightarrow> u32 res" where
  "read_word s a = rbind (virt_frame s a) (\<lambda>f. Inr (pmem s f (ucast (drop_bit 2 a))))"

definition write_word :: "u32 \<Rightarrow> u32 \<Rightarrow> vmm \<Rightarrow> vmm res" where
  "write_word a w s = rbind (virt_frame s a) (\<lambda>f. Inr (set_word f (ucast (drop_bit 2 a)) w s))"

text \<open>\<open>memset(virt, 0, 4096)\<close> on a page-aligned address.\<close>

definition zero_page :: "u32 \<Rightarrow> vmm \<Rightarrow> vmm res" where
  "zero_page virt s = rbind (virt_frame s virt) (\<lambda>f. Inr (s\<lparr>pmem := (pmem s)(f := (\<lambda>_. 0))\<rparr>))"

definition PhysAllocateFrame :: "vmm \<Rightarrow> (u32 \<times> vmm) res" where
  "PhysAllocateFrame s = rbind (X86PhysAllocateFrame (frames s)) (\<lambda>(b, phys). Inr (phys, s\<lparr>frames := b\<rparr>))"

definition PhysFreeFrame :: "u32 \<Rightarrow> vmm \<Rightarrow> vmm res" where
  "PhysFreeFrame phys s = rbind (X86PhysFreeFrame (frames s) phys) (\<lambda>b. Inr (s\<lparr>frames := b\<rparr>))"

text \<open>The entry \<open>MapFrame\<close> installs.\<close>

definition new_pte :: "u32 \<Rightarrow> bool \<Rightarrow> bool \<Rightarrow> bool \<Rightarrow> PageTableEntry" where
  "new_pte physical wr cached usr =
     \<lparr>present = True, writable = wr, user = usr, write_through_caching = False,
      cache_disable = \<not> cached, dirty = False, zero_bit = 0, global = False, ignored = 0,
      available = 0, page_frame_addr = ucast (drop_bit 12 physical)\<rparr>"

function find_loop ::
  "(u32 \<Rightarrow> vmm \<Rightarrow> (bool \<times> vmm) res) \<Rightarrow> u32 \<Rightarrow> nat \<Rightarrow> u32 \<Rightarrow> vmm \<Rightarrow> (u32 \<times> vmm) res" where
  "find_loop is_mapped n page found s =
     (if page < 1048576 then
        let frame = of_nat page * 0x1000 in
        rbind (is_mapped frame s) (\<lambda>(m, s).
          if m then find_loop is_mapped n (page + 1) 0 s
          else if found + 1 = n then Inr (frame - n * 0x1000 + 0x1000, s)
          else find_loop is_mapped n (page + 1) (found + 1) s)
      else Inr (0, s))"
  by pat_completeness auto
termination
  by (relation "measure (\<lambda>(is_mapped, n, page, found, s). 1048576 - page)") auto

definition first_page :: "bool \<Rightarrow> nat" where
  "first_page kern = unat (((if kern then KERNEL_STATIC_MEM_START else 0) + 0x1000) div 0x1000)"

definition IsMapped_kernel :: "u32 \<Rightarrow> vmm \<Rightarrow> (bool \<times> vmm) res" where
  "IsMapped_kernel frame s = Inr (present (kernel_pte s frame), s)"

definition MapFrame_kernel :: "u32 \<Rightarrow> u32 \<Rightarrow> bool \<Rightarrow> bool \<Rightarrow> bool \<Rightarrow> vmm \<Rightarrow> vmm" where
  "MapFrame_kernel virtual physical wr cached usr s =
     (if directory_entry virtual = 0 \<and> table_entry virtual = 0 then s
      else set_kernel_pte virtual (new_pte physical wr cached usr) s)"

definition UnmapFrame_kernel :: "u32 \<Rightarrow> vmm \<Rightarrow> vmm" where
  "UnmapFrame_kernel virtual s = set_kernel_pte virtual zero_pte s"

definition AllocateMap :: "u32 \<Rightarrow> vmm \<Rightarrow> (u32 \<times> vmm) res" where
  "AllocateMap phys s =
     rbind (find_loop IsMapped_kernel 1 (first_page True) 0 s) (\<lambda>(virt, s).
       Inr (virt, MapFrame_kernel virt phys True True False s))"

definition GetPte :: "dir_ptr \<Rightarrow> u32 \<Rightarrow> vmm \<Rightarrow> (PageTableEntry \<times> vmm) res" where
  "GetPte directory vaddr s =
     (case directory of
        Kernel_Dir \<Rightarrow> Inr (kernel_pte s vaddr, s)
      | Dir_At d \<Rightarrow>
          rbind (read_word s (d + 4 * ucast (directory_entry vaddr))) (\<lambda>w.
          let pde = pde_of_word w in
          if \<not> pde_present pde then Inr (zero_pte, s)
          else
            let phys = push_bit 12 (ucast (page_table_addr pde)) in
            rbind (AllocateMap phys s) (\<lambda>(table, s).
            rbind (read_word s (table + 4 * ucast (table_entry vaddr))) (\<lambda>w.
              Inr (pte_of_word w, UnmapFrame_kernel table s)))))"

definition CreatePageTable :: "u32 \<Rightarrow> u32 \<Rightarrow> vmm \<Rightarrow> vmm res" where
  "CreatePageTable vaddr d s =
     rbind (PhysAllocateFrame s) (\<lambda>(phys, s).
     rbind (AllocateMap phys s) (\<lambda>(virt, s).
     rbind (zero_page virt s) (\<lambda>s.
     let s = UnmapFrame_kernel virt s;
         pde = pde_of_word 0;
         pde = pde\<lparr>pde_writable := True\<rparr>;
         pde = pde\<lparr>pde_user := True\<rparr>;
         pde = pde\<lparr>page_table_addr := ucast (drop_bit 12 phys)\<rparr>;
         pde = pde\<lparr>pde_present := True\<rparr>
     in write_word (d + 4 * ucast (directory_entry vaddr)) (word_of_pde pde) s)))"

definition SetPte :: "dir_ptr \<Rightarrow> u32 \<Rightarrow> PageTableEntry \<Rightarrow> vmm \<Rightarrow> vmm res" where
  "SetPte directory vaddr pte s =
     (case directory of
        Kernel_Dir \<Rightarrow> Inr (set_kernel_pte vaddr pte s)
      | Dir_At d \<Rightarrow>
          rbind (read_word s (d + 4 * ucast (directory_entry vaddr))) (\<lambda>w.
          rbind (if \<not> pde_present (pde_of_word w) then CreatePageTable vaddr d s else Inr s) (\<lambda>s.
          rbind (read_word s (d + 4 * ucast (directory_entry vaddr))) (\<lambda>w.
          let phys = push_bit 12 (ucast (page_table_addr (pde_of_word w))) in
          rbind (AllocateMap phys s) (\<lambda>(table, s).
          rbind (write_word (table + 4 * ucast (table_entry vaddr)) (word_of_pte pte) s) (\<lambda>s.
            Inr (UnmapFrame_kernel table s)))))))"

definition MapFrame :: "u32 \<Rightarrow> u32 \<Rightarrow> bool \<Rightarrow> bool \<Rightarrow> bool \<Rightarrow> dir_ptr \<Rightarrow> vmm \<Rightarrow> vmm res" where
  "MapFrame virtual physical wr cached usr directory s =
     (if directory_entry virtual = 0 \<and> table_entry virtual = 0 then Inr s
      else SetPte directory virtual (new_pte physical wr cached usr) s)"

definition MapRange :: "u32 \<Rightarrow> u32 \<Rightarrow> u32 \<Rightarrow> bool \<Rightarrow> bool \<Rightarrow> bool \<Rightarrow> dir_ptr \<Rightarrow> vmm \<Rightarrow> vmm res" where
  "MapRange virt_base phys_base n wr cached usr directory =
     rfold (\<lambda>frame s.
       let offset = of_nat frame * FRAME_SIZE;
           virtual = virt_base + offset;
           physical = phys_base + offset
       in MapFrame virtual physical wr cached usr directory s) [0..<unat n]"

definition IsMapped :: "dir_ptr \<Rightarrow> u32 \<Rightarrow> vmm \<Rightarrow> (bool \<times> vmm) res" where
  "IsMapped directory frame s = rbind (GetPte directory frame s) (\<lambda>(pte, s). Inr (present pte, s))"

definition FindContiguousFreeFrames :: "u32 \<Rightarrow> dir_ptr \<Rightarrow> bool \<Rightarrow> vmm \<Rightarrow> (u32 \<times> vmm) res" where
  "FindContiguousFreeFrames n directory kern s =
     find_loop (IsMapped directory) n (first_page kern) 0 s"

definition UnmapFrame :: "u32 \<Rightarrow> dir_ptr \<Rightarrow> vmm \<Rightarrow> vmm res" where
  "UnmapFrame virtual directory s = SetPte directory virtual zero_pte s"

definition X86SwitchPageDirectory :: "dir_ptr \<Rightarrow> vmm \<Rightarrow> vmm" where
  "X86SwitchPageDirectory directory s =
     (let s = s\<lparr>current_page_directory := directory\<rparr> in
      case directory of
        Kernel_Dir \<Rightarrow> s\<lparr>cr3 := frame_base (kpd_frame s)\<rparr>
      | Dir_At d \<Rightarrow> s\<lparr>cr3 := push_bit 12 (ucast (page_frame_addr (kernel_pte s d)))\<rparr>)"

definition USER_PROCESS_BASE :: u32 where "USER_PROCESS_BASE = 0x00100000"

definition MapProcess :: "u32 \<Rightarrow> u32 \<Rightarrow> vmm \<Rightarrow> (u32 \<times> vmm) res" where
  "MapProcess k_base n s =
     rbind (PhysAllocateFrame s) (\<lambda>(phys, s).
     rbind (AllocateMap phys s) (\<lambda>(dir, s).
     rbind (zero_page dir s) (\<lambda>s.
     rbind (rfold (\<lambda>i s.
              rbind (GetPte Kernel_Dir (k_base + of_nat i * FRAME_SIZE) s) (\<lambda>(pte, s).
              let pte = pte\<lparr>writable := True\<rparr>;
                  pte = pte\<lparr>user := True\<rparr>
              in SetPte (Dir_At dir) (USER_PROCESS_BASE + of_nat i * FRAME_SIZE) pte s)) [0..<unat n] s) (\<lambda>s.
     let first_kernel_pde = unat (drop_bit 22 KERNEL_STATIC_MEM_START) in
     rbind (rfold (\<lambda>i s. write_word (dir + 4 * of_nat i) (pmem s (kpd_frame s) (of_nat i)) s)
              [first_kernel_pde..<1024] s) (\<lambda>s. Inr (dir, s))))))"

definition X86AllocateContiguousVirtualFrames :: "u32 \<Rightarrow> bool \<Rightarrow> vmm \<Rightarrow> (u32 \<times> vmm) res" where
  "X86AllocateContiguousVirtualFrames n kern s =
     rbind (FindContiguousFreeFrames n (current_page_directory s) kern s) (\<lambda>(base, s).
     rbind (rfold (\<lambda>frame s.
              let offset = of_nat frame * 0x1000;
                  addr = base + offset in
              rbind (PhysAllocateFrame s) (\<lambda>(phys, s).
                MapFrame addr phys True True False (current_page_directory s) s)) [0..<unat n] s) (\<lambda>s.
       Inr (base, s)))"

definition X86FreeContiguousVirtualFrames :: "u32 \<Rightarrow> u32 \<Rightarrow> vmm \<Rightarrow> vmm res" where
  "X86FreeContiguousVirtualFrames base n =
     rfold (\<lambda>frame s.
       let offset = of_nat frame * 0x1000;
           addr = base + offset in
       rbind (GetPte (current_page_directory s) addr s) (\<lambda>(pte, s).
       let phys = push_bit 12 (ucast (page_frame_addr pte)) in
       if present pte then
         rbind (if phys \<noteq> 0 then PhysFreeFrame phys s else Inr s) (\<lambda>s.
           UnmapFrame addr (current_page_directory s) s)
       else Inr s)) [0..<unat n]"

definition X86CreateAddressSpace :: "u32 \<Rightarrow> u32 \<Rightarrow> vmm \<Rightarrow> (u32 \<times> vmm) res" where
  "X86CreateAddressSpace k_base n s =
     rbind (MapProcess k_base n s) (\<lambda>(ret, s).
     rbind (rfold (\<lambda>i s. UnmapFrame (k_base + of_nat i * FRAME_SIZE) Kernel_Dir s) [0..<unat n] s) (\<lambda>s.
       Inr (ret, s)))"

primrec create_stack_loop :: "u32 \<Rightarrow> dir_ptr \<Rightarrow> nat list \<Rightarrow> vmm \<Rightarrow> (bool \<times> vmm) res" where
  "create_stack_loop bottom dir [] s = Inr (True, s)"
| "create_stack_loop bottom dir (i # is) s =
     rbind (PhysAllocateFrame s) (\<lambda>(phys, s).
       if phys = 0 then Inr (False, s)
       else rbind (MapFrame (bottom + of_nat i * FRAME_SIZE) phys True True True dir s)
              (create_stack_loop bottom dir is))"

definition X86CreateStack :: "u32 \<Rightarrow> u32 \<Rightarrow> u32 \<Rightarrow> vmm \<Rightarrow> (u32 \<times> vmm) res" where
  "X86CreateStack address_space stack_top sz s =
     (let n = sz div FRAME_SIZE;
          n = (if sz mod FRAME_SIZE \<noteq> 0 then n + 1 else n);
          bottom = stack_top - n * FRAME_SIZE in
      rbind (create_stack_loop bottom (Dir_At address_space) [0..<unat n] s) (\<lambda>(done, s).
        Inr (if done then stack_top AND 0xFFFFF000 else 0, s)))"

text \<open>
  The two loops of \<open>X86DeleteAddressSpace\<close>, over the page numbers of the frames they visit; each
  stops at the first frame that is not mapped.
\<close>

primrec delete_loop :: "dir_ptr \<Rightarrow> nat list \<Rightarrow> vmm \<Rightarrow> vmm res" where
  "delete_loop dir [] s = Inr s"
| "delete_loop dir (page # pages) s =
     (let frame = of_nat page * 0x1000 in
      rbind (GetPte dir frame s) (\<lambda>(pte, s).
        if present pte then
          rbind (UnmapFrame frame dir s) (\<lambda>s.
          let phys = push_bit 12 (ucast (page_frame_addr pte)) in
          rbind (if phys \<noteq> 0 then PhysFreeFrame phys s else Inr s) (delete_loop dir pages))
        else Inr s))"

definition X86DeleteAddressSpace :: "u32 \<Rightarrow> vmm \<Rightarrow> vmm res" where
  "X86DeleteAddressSpace address_space s =
     (let kpage = unat ((KERNEL_STATIC_MEM_START AND 0xFFC00000) div 0x1000) in
      rbind (delete_loop (Dir_At address_space) [0..<kpage] s)
        (delete_loop (Dir_At address_space) (rev [1..<kpage + 1])))"

definition X86SwitchAddressSpace :: "dir_ptr option \<Rightarrow> vmm \<Rightarrow> vmm" where
  "X86SwitchAddressSpace address_space s =
     (case address_space of
        Some d \<Rightarrow> X86SwitchPageDirectory d s
      | None \<Rightarrow> X86SwitchPageDirectory Kernel_Dir s)"

definition vmm_init_pde :: "u32 \<Rightarrow> nat \<Rightarrow> PageDirectoryEntry" where
  "vmm_init_pde kpt_addr i =
     (pde_of_word 0)\<lparr>pde_user := True, pde_cache_disable := True, pde_write_through_caching := True,
       pde_writable := True, pde_present := True,
       page_table_addr := ucast (drop_bit 12 (kpt_addr + of_nat (i * 1024) * 4 - KERNEL_STATIC_MEM_START))\<rparr>"

definition X86VirtMemMgrInit ::
  "u32 \<Rightarrow> 'h \<Rightarrow> 'h idt_state \<Rightarrow> vmm \<Rightarrow> ('h idt_state \<times> vmm) res" where
  "X86VirtMemMgrInit kend X86PageFaultHandler i s =
     rbind (X86RegisterIsrHandler 14 X86PageFaultHandler i) (\<lambda>i.
     let s = s\<lparr>pmem := (pmem s)(kpd_frame s := (\<lambda>_. 0))\<rparr>;
          s = fold (\<lambda>t s. s\<lparr>pmem := (pmem s)(kpt_frame s + of_nat t := (\<lambda>_. 0))\<rparr>) [0..<1024] s;
          s = fold (\<lambda>i s. set_word (kpd_frame s) (of_nat i)
                (word_of_pde (vmm_init_pde (frame_base (kpt_frame s) + KERNEL_STATIC_MEM_START) i)) s) [0..<1024] s in
      rbind (MapRange 0x1000 0x1000 (1048576 div FRAME_SIZE - 1) True False False Kernel_Dir s) (\<lambda>s.
      let first_kernel_frame = KERNEL_STATIC_MEM_START AND 0xFFC00000;
          kernel_len = kend - first_kernel_frame;
          n = kernel_len div FRAME_SIZE;
          n = (if kernel_len mod FRAME_SIZE \<noteq> 0 then n + 1 else n) in
      rbind (MapRange (first_kernel_frame + 0x1000) 0x1000 n True True False Kernel_Dir s) (\<lambda>s.
        Inr (i, X86SwitchPageDirectory Kernel_Dir s))))"

declare find_loop.simps [simp del]

section \<open>Entries and pages\<close>

lemma bit_of_bool_word: "bit (of_bool b :: 'a::len word) n \<longleftrightarrow> b \<and> n = 0"
  by (cases b) (auto simp: bit_1_iff)

lemma pte_of_word_of_pte [simp]: "pte_of_word (word_of_pte e) = e"
proof (cases e)
  case (fields p w u wt cd d z g ig av f)
  have field: "ucast (drop_bit 6 (word_of_pte e)) = zero_bit e" "ucast (drop_bit 8 (word_of_pte e)) = ignored e"
    "ucast (drop_bit 9 (word_of_pte e)) = available e" "ucast (drop_bit 12 (word_of_pte e)) = page_frame_addr e"
    by (rule bit_word_eqI; auto simp: word_of_pte_def bit_simps bit_of_bool_word dest: bit_imp_le_length)+
  have "bit (word_of_pte e) 0 = present e" "bit (word_of_pte e) 1 = writable e" "bit (word_of_pte e) 2 = user e"
    "bit (word_of_pte e) 3 = write_through_caching e" "bit (word_of_pte e) 4 = cache_disable e"
    "bit (word_of_pte e) 5 = dirty e" "bit (word_of_pte e) 7 = global e"
    by (auto simp: word_of_pte_def bit_simps bit_of_bool_word dest: bit_imp_le_length)
  with field show ?thesis unfolding pte_of_word_def by simp
qed

lemma pde_of_word_of_pde [simp]: "pde_of_word (word_of_pde e) = e"
proof (cases e)
  case (fields p w u wt cd d z g ig av f)
  have field: "ucast (drop_bit 6 (word_of_pde e)) = pde_zero e" "ucast (drop_bit 8 (word_of_pde e)) = pde_ignored e"
    "ucast (drop_bit 9 (word_of_pde e)) = pde_available e" "ucast (drop_bit 12 (word_of_pde e)) = page_table_addr e"
    by (rule bit_word_eqI; auto simp: word_of_pde_def bit_simps bit_of_bool_word dest: bit_imp_le_length)+
  have "bit (word_of_pde e) 0 = pde_present e" "bit (word_of_pde e) 1 = pde_writable e" "bit (word_of_pde e) 2 = pde_user e"
    "bit (word_of_pde e) 3 = pde_write_through_caching e" "bit (word_of_pde e) 4 = pde_cache_disable e"
    "bit (word_of_pde e) 5 = pde_accessed e" "bit (word_of_pde e) 7 = pde_big_pages e"
    by (auto simp: word_of_pde_def bit_simps bit_of_bool_word dest: bit_imp_le_length)
  with field show ?thesis unfolding pde_of_word_def by simp
qed

definition page_no :: "u32 \<Rightarrow> 20 word" where
  "page_no v = ucast (drop_bit 12 v)"

lemma same_page_iff:
  "directory_entry v = directory_entry v' \<and> table_entry v = table_entry v' \<longleftrightarrow> page_no v = page_no v'"
proof
  assume "page_no v = page_no v'"
  then have p: "bit (page_no v) n = bit (page_no v') n" for n by simp
  show "directory_entry v = directory_entry v' \<and> table_entry v = table_entry v'"
  proof (intro conjI bit_word_eqI)
    fix n assume "n < LENGTH(10)"
    then show "bit (directory_entry v) n = bit (directory_entry v') n" "bit (table_entry v) n = bit (table_entry v') n"
      using p [of "n + 10"] p [of n]
      by (simp_all add: page_no_def directory_entry_def table_entry_def bit_simps add.commute)
  qed
next
  assume de: "directory_entry v = directory_entry v' \<and> table_entry v = table_entry v'"
  show "page_no v = page_no v'"
  proof (rule bit_word_eqI)
    fix n assume "n < LENGTH(20)"
    moreover have "bit (directory_entry v) m = bit (directory_entry v') m" "bit (table_entry v) m = bit (table_entry v') m" for m
      using de by simp_all
    from this(2) [of n] this(1) [of "n - 10"]
    show "bit (page_no v) n = bit (page_no v') n"
      using calculation
      by (cases "n < 10") (auto simp: page_no_def directory_entry_def table_entry_def bit_simps)
  qed
qed

lemma page_no_frame_base [simp]: "page_no (frame_base f) = f"
  unfolding page_no_def frame_base_def by (rule bit_word_eqI) (auto simp: bit_simps)

lemma unat_page_no: "unat (page_no v) = unat v div 4096"
proof -
  have "unat (drop_bit 12 v) = unat v div 4096"
    using unat_u32_less [of v] unfolding unsigned_drop_bit_eq by (simp add: drop_bit_eq_div take_bit_eq_mod)
  moreover have "unat v div 4096 < 1048576" using unat_u32_less [of v] by simp
  ultimately show ?thesis by (simp add: page_no_def unat_ucast_mod)
qed

lemma unat_frame_base: "unat (frame_base f) = unat f * 4096"
proof -
  have "unat f < 1048576" using unat_less [of f] by simp
  then show ?thesis
    by (simp add: frame_base_def push_bit_eq_mult unat_word_ariths unat_ucast_mod)
qed

lemma frame_base_page_no: "unat v mod 4096 = 0 \<Longrightarrow> frame_base (page_no v) = v"
  by (simp add: word_unat_eq_iff unat_frame_base unat_page_no mod_eq_0_iff_dvd)

lemma unat_page_addr: "p < 1048576 \<Longrightarrow> unat (of_nat p * 0x1000 :: u32) = p * 4096"
  by (simp add: unat_word_ariths unat_of_nat_less)

lemma page_no_page_addr: "p < 1048576 \<Longrightarrow> page_no (of_nat p * 0x1000) = of_nat p"
  by (simp add: word_unat_eq_iff unat_page_no unat_page_addr unat_of_nat_less)

text \<open>The kernel's mapping of pages, as a function of the page number.\<close>

definition kmap :: "vmm \<Rightarrow> 20 word \<Rightarrow> PageTableEntry" where
  "kmap s p = kernel_pte s (frame_base p)"

lemma kernel_pte_kmap: "kernel_pte s v = kmap s (page_no v)"
  using same_page_iff [of v "frame_base (page_no v)"] by (simp add: kmap_def kernel_pte_def)

lemma ucast_10_20_inj: "(ucast (a :: 10 word) :: 20 word) = ucast b \<longleftrightarrow> a = b"
proof
  assume "(ucast a :: 20 word) = ucast b"
  then have "unat (ucast a :: 20 word) = unat (ucast b :: 20 word)" by simp
  then show "a = b"
    using unat_less [of a] unat_less [of b] by (simp add: unat_ucast_mod word_unat_eq_iff)
qed simp

lemma kmap_set_kernel_pte [simp]: "kmap (set_kernel_pte v pte s) = (kmap s)(page_no v := pte)"
proof (rule ext)
  fix p
  have "kernel_pte (set_kernel_pte v pte s) (frame_base p)
      = (if directory_entry v = directory_entry (frame_base p) \<and> table_entry v = table_entry (frame_base p)
         then pte else kernel_pte s (frame_base p))"
    by (auto simp: kernel_pte_def set_kernel_pte_def set_word_def ucast_10_20_inj)
  then show "kmap (set_kernel_pte v pte s) p = ((kmap s)(page_no v := pte)) p"
    using same_page_iff [of v "frame_base p"] by (auto simp: kmap_def)
qed

lemma set_kernel_pte_fields [simp]:
  "frames (set_kernel_pte v pte s) = frames s"
  "current_page_directory (set_kernel_pte v pte s) = current_page_directory s"
  "kpt_frame (set_kernel_pte v pte s) = kpt_frame s" "kpd_frame (set_kernel_pte v pte s) = kpd_frame s"
  "cr3 (set_kernel_pte v pte s) = cr3 s"
  by (simp_all add: set_kernel_pte_def set_word_def)

lemma kmap_frames [simp]: "kmap (s\<lparr>frames := b\<rparr>) = kmap s"
  by (rule ext) (simp add: kmap_def kernel_pte_def)

section \<open>Searching for free pages\<close>

definition free_pages :: "vmm \<Rightarrow> nat \<Rightarrow> nat \<Rightarrow> bool" where
  "free_pages s st n \<longleftrightarrow> st + n \<le> 1048576 \<and> (\<forall>j \<in> {st..<st + n}. \<not> present (kmap s (of_nat j)))"

definition found_pages :: "vmm \<Rightarrow> nat \<Rightarrow> nat \<Rightarrow> u32 \<Rightarrow> bool" where
  "found_pages s first n r \<longleftrightarrow>
     (if r = 0 then \<forall>st \<ge> first. \<not> free_pages s st n
      else \<exists>st \<ge> first. r = of_nat st * 0x1000 \<and> free_pages s st n
             \<and> (\<forall>st'. first \<le> st' \<and> st' < st \<longrightarrow> \<not> free_pages s st' n))"

lemma find_loop_kernel:
  assumes "0 < first" and "first + unat found \<le> page" and "page \<le> 1048576" and "unat found < unat n"
    and "\<forall>j \<in> {page - unat found..<page}. \<not> present (kmap s (of_nat j))"
    and "\<forall>st. first \<le> st \<and> st < page - unat found \<longrightarrow> \<not> free_pages s st (unat n)"
  shows "\<exists>r. find_loop IsMapped_kernel n page found s = Inr (r, s) \<and> found_pages s first (unat n) r"
  using assms(2-)
proof (induction IsMapped_kernel n page found s rule: find_loop.induct)
  case (1 n page found s)
  let ?frame = "of_nat page * 0x1000 :: u32"
  note prems = 1(3-)
  show ?case
  proof (cases "page < 1048576")
    case False
    then have "page = 1048576" using prems by simp
    have "\<not> free_pages s st (unat n)" if "first \<le> st" for st
    proof (cases "st < page - unat found")
      case True
      with that prems show ?thesis by blast
    next
      case False
      with \<open>page = 1048576\<close> prems show ?thesis by (simp add: free_pages_def)
    qed
    with False show ?thesis by (simp add: find_loop.simps found_pages_def)
  next
    case True
    have km: "kernel_pte s ?frame = kmap s (of_nat page)"
      using True by (simp add: kernel_pte_kmap page_no_page_addr)
    show ?thesis
    proof (cases "present (kmap s (of_nat page))")
      case True
      have step: "find_loop IsMapped_kernel n page found s = find_loop IsMapped_kernel n (page + 1) 0 s"
        using \<open>page < 1048576\<close> True by (subst find_loop.simps) (simp add: IsMapped_kernel_def km)
      have "\<not> free_pages s st (unat n)" if "first \<le> st" "st < page + 1" for st
      proof (cases "st < page - unat found")
        case True
        with that prems show ?thesis by blast
      next
        case False
        have "page \<in> {st..<st + unat n}" using False that prems by auto
        with True show ?thesis by (auto simp: free_pages_def)
      qed
      then show ?thesis
        unfolding step using 1(1) [OF \<open>page < 1048576\<close> refl] True \<open>page < 1048576\<close> prems
        by (auto simp: IsMapped_kernel_def km)
    next
      case False
      have un: "\<not> present (kmap s (of_nat j))" if "j \<in> {page - unat found..<page + 1}" for j
        using that prems False by (cases "j = page") auto
      have f1: "unat (found + 1) = unat found + 1"
        using prems by (intro unat_plus_one [of _ n]) (simp add: word_less_nat_alt)
      show ?thesis
      proof (cases "found + 1 = n")
        case True
        have n: "unat n = unat found + 1" using True f1 by simp
        let ?st = "page - unat found"
        have st: "page = ?st + unat found" "first \<le> ?st" using prems by linarith+
        have fr: "free_pages s ?st (unat n)"
          using un n st \<open>page < 1048576\<close> by (auto simp: free_pages_def)
        have "(of_nat page :: u32) = of_nat ?st + found" by (subst st(1)) simp
        then have eq: "?frame - n * 0x1000 + 0x1000 = of_nat ?st * 0x1000"
          by (simp add: algebra_simps flip: True)
        have nz: "(of_nat ?st * 0x1000 :: u32) \<noteq> 0"
          using unat_page_addr [of ?st] st assms(1) \<open>page < 1048576\<close> by (auto simp: word_unat_eq_iff)
        have "find_loop IsMapped_kernel n page found s = Inr (?frame - n * 0x1000 + 0x1000, s)"
          using \<open>page < 1048576\<close> False True by (subst find_loop.simps) (simp add: IsMapped_kernel_def km)
        then have "find_loop IsMapped_kernel n page found s = Inr (of_nat ?st * 0x1000, s)" unfolding eq .
        moreover have "found_pages s first (unat n) (of_nat ?st * 0x1000)"
          unfolding found_pages_def if_not_P [OF nz] using fr st(2) prems by blast
        ultimately show ?thesis by blast
      next
        case ne: False
        have step: "find_loop IsMapped_kernel n page found s = find_loop IsMapped_kernel n (page + 1) (found + 1) s"
          using \<open>page < 1048576\<close> False ne by (subst find_loop.simps) (simp add: IsMapped_kernel_def km)
        have "unat (found + 1) < unat n" using ne f1 prems by (metis Suc_eq_plus1 Suc_lessI word_unat_eq_iff)
        then show ?thesis
          unfolding step using 1(2) [OF \<open>page < 1048576\<close> refl] False ne \<open>page < 1048576\<close> prems f1 un
          by (auto simp: IsMapped_kernel_def km)
      qed
    qed
  qed
qed

lemma IsMapped_Kernel_Dir: "IsMapped Kernel_Dir = IsMapped_kernel"
  by (intro ext) (simp add: IsMapped_def GetPte_def IsMapped_kernel_def)

lemma first_page_pos: "0 < first_page kern" "first_page kern \<le> 1048576"
  by (simp_all add: first_page_def KERNEL_STATIC_MEM_START_def)

lemma Find_kernel_spec:
  assumes "0 < n"
  shows "\<exists>r. FindContiguousFreeFrames n Kernel_Dir kern s = Inr (r, s) \<and> found_pages s (first_page kern) (unat n) r"
  unfolding FindContiguousFreeFrames_def IsMapped_Kernel_Dir
  using assms first_page_pos [of kern]
  by (intro find_loop_kernel) (auto simp: word_less_nat_alt)

section \<open>Allocating and freeing kernel pages\<close>

lemma page_zero_iff: "directory_entry v = 0 \<and> table_entry v = 0 \<longleftrightarrow> page_no v = 0"
  using same_page_iff [of v 0] by (simp add: directory_entry_def table_entry_def page_no_def)

lemma MapFrame_Kernel:
  "page_no v \<noteq> 0 \<Longrightarrow> MapFrame v phys wr ca us Kernel_Dir s = Inr (set_kernel_pte v (new_pte phys wr ca us) s)"
  using page_zero_iff [of v] by (auto simp: MapFrame_def SetPte_def)

lemma MapFrame_page_0: "page_no v = 0 \<Longrightarrow> MapFrame v phys wr ca us d s = Inr s"
  using page_zero_iff [of v] by (simp add: MapFrame_def)

lemma UnmapFrame_Kernel: "UnmapFrame v Kernel_Dir s = Inr (set_kernel_pte v zero_pte s)"
  by (simp add: UnmapFrame_def SetPte_def)

lemma page_offset:
  assumes "st + n \<le> 1048576" and "k < n"
  shows "(of_nat st * 0x1000 + of_nat k * 0x1000 :: u32) = of_nat (st + k) * 0x1000"
    and "page_no (of_nat st * 0x1000 + of_nat k * 0x1000) = of_nat (st + k)"
    and "unat (of_nat (st + k) :: 20 word) = st + k"
proof -
  show eq: "(of_nat st * 0x1000 + of_nat k * 0x1000 :: u32) = of_nat (st + k) * 0x1000"
    by (simp add: algebra_simps)
  show "page_no (of_nat st * 0x1000 + of_nat k * 0x1000) = of_nat (st + k)"
    unfolding eq using assms by (intro page_no_page_addr) simp
  show "unat (of_nat (st + k) :: 20 word) = st + k"
    using assms by (intro unat_of_nat_less) simp
qed

text \<open>A mapping in which the pages from \<open>st\<close> on are mapped to the frames \<open>fs\<close>.\<close>

definition map_pages :: "nat \<Rightarrow> u32 list \<Rightarrow> (20 word \<Rightarrow> PageTableEntry) \<Rightarrow> 20 word \<Rightarrow> PageTableEntry" where
  "map_pages st fs m = (\<lambda>p. if st \<le> unat p \<and> unat p < st + length fs
     then new_pte (fs ! (unat p - st)) True True False else m p)"

lemma map_pages_Nil [simp]: "map_pages st [] m = m"
  by (rule ext) (auto simp: map_pages_def)

lemma map_pages_snoc:
  assumes "st + length fs < 1048576"
  shows "(map_pages st fs m)(of_nat (st + length fs) := new_pte f True True False) = map_pages st (fs @ [f]) m"
proof (rule ext)
  fix p :: "20 word"
  have "p = of_nat (st + length fs) \<longleftrightarrow> unat p = st + length fs"
    using assms by (auto simp: unat_of_nat_less word_unat_eq_iff simp del: of_nat_add)
  then show "((map_pages st fs m)(of_nat (st + length fs) := new_pte f True True False)) p
      = map_pages st (fs @ [f]) m p"
    by (auto simp: map_pages_def nth_append less_Suc_eq)
qed

definition fresh_frames :: "vmm \<Rightarrow> u32 set" where
  "fresh_frames s = frames_all (frames s) - frames_used (frames s)"

lemma finite_fresh [simp]: "finite (fresh_frames s)"
  by (simp add: fresh_frames_def frames_all_def)

abbreviation alloc_body where
  "alloc_body base \<equiv> \<lambda>frame s.
     let offset = of_nat frame * 0x1000; addr = base + offset in
     rbind (PhysAllocateFrame s) (\<lambda>(phys, s). MapFrame addr phys True True False (current_page_directory s) s)"

lemma alloc_pages_spec:
  assumes wf: "phys_wf (frames s)" and cur: "current_page_directory s = Kernel_Dir"
    and st: "st + n \<le> 1048576" and k: "k \<le> n" "n \<le> card (fresh_frames s)"
  shows "\<exists>s' fs. rfold (alloc_body (of_nat st * 0x1000)) [0..<k] s = Inr s'
    \<and> length fs = k \<and> distinct fs \<and> set fs \<subseteq> fresh_frames s
    \<and> phys_wf (frames s') \<and> frames_all (frames s') = frames_all (frames s)
    \<and> frames_used (frames s') = frames_used (frames s) \<union> set fs
    \<and> current_page_directory s' = Kernel_Dir \<and> kmap s' = (map_pages st fs (kmap s))(0 := kmap s 0)"
  using k(1)
proof (induction k)
  case 0
  then show ?case using wf cur by auto
next
  case (Suc k)
  from Suc.IH [OF Suc_leD [OF Suc.prems]]
  obtain s1 fs where 1: "rfold (alloc_body (of_nat st * 0x1000)) [0..<k] s = Inr s1"
    and fs: "length fs = k" "distinct fs" "set fs \<subseteq> fresh_frames s"
    and ok: "phys_wf (frames s1)" "frames_all (frames s1) = frames_all (frames s)"
      "frames_used (frames s1) = frames_used (frames s) \<union> set fs"
      "current_page_directory s1 = Kernel_Dir" "kmap s1 = (map_pages st fs (kmap s))(0 := kmap s 0)"
    by blast
  obtain b f where a: "X86PhysAllocateFrame (frames s1) = Inr (b, f)" "phys_wf b"
    "frames_all b = frames_all (frames s1)"
    "if f = 0 then frames_used (frames s1) = frames_all (frames s1) \<and> frames_used b = frames_used (frames s1)
     else f \<in> frames_all (frames s1) - frames_used (frames s1)
       \<and> frames_used b = insert f (frames_used (frames s1))"
    using phys_frames.alloc_spec [OF ok(1)] by blast
  have "set fs \<noteq> fresh_frames s" using fs k Suc.prems distinct_card [of fs] by auto
  then have f: "f \<noteq> 0" using a(4) ok fs(3) by (auto simp: fresh_frames_def split: if_splits)
  let ?v = "of_nat st * 0x1000 + of_nat k * 0x1000 :: u32" and ?p = "of_nat (st + k) :: 20 word"
  have off: "page_no ?v = ?p" using page_offset [of st n k] st Suc.prems by auto
  have snoc: "(map_pages st fs (kmap s))(?p := new_pte f True True False) = map_pages st (fs @ [f]) (kmap s)"
    using map_pages_snoc [of st fs "kmap s" f] fs(1) st Suc.prems by simp
  let ?s = "if ?p = 0 then s1\<lparr>frames := b\<rparr> else set_kernel_pte ?v (new_pte f True True False) (s1\<lparr>frames := b\<rparr>)"
  have "alloc_body (of_nat st * 0x1000) k s1 = Inr ?s"
    using a(1) ok(4) off MapFrame_Kernel [of ?v f True True False "s1\<lparr>frames := b\<rparr>"]
      MapFrame_page_0 [of ?v f True True False Kernel_Dir "s1\<lparr>frames := b\<rparr>"]
    by (simp add: PhysAllocateFrame_def)
  moreover have "kmap ?s = (map_pages st (fs @ [f]) (kmap s))(0 := kmap s 0)"
    using ok(5) off unfolding snoc [symmetric] by (auto simp: fun_upd_twist)
  ultimately show ?case
    using 1 a f ok fs by (intro exI [of _ ?s] exI [of _ "fs @ [f]"])
      (auto simp: rfold_append fresh_frames_def)
qed

lemma map_pages_keeps_0: "0 < st \<Longrightarrow> (map_pages st fs m)(0 := m 0) = map_pages st fs m"
  by (rule ext) (auto simp: map_pages_def)

abbreviation free_body where
  "free_body base \<equiv> \<lambda>frame s.
     let offset = of_nat frame * 0x1000; addr = base + offset in
     rbind (GetPte (current_page_directory s) addr s) (\<lambda>(pte, s).
     let phys = push_bit 12 (ucast (page_frame_addr pte)) in
     if present pte then
       rbind (if phys \<noteq> 0 then PhysFreeFrame phys s else Inr s) (\<lambda>s.
         UnmapFrame addr (current_page_directory s) s)
     else Inr s)"

text \<open>The mapping with \<open>k\<close> pages from \<open>st\<close> cleared.\<close>

definition clear_pages :: "nat \<Rightarrow> nat \<Rightarrow> (20 word \<Rightarrow> PageTableEntry) \<Rightarrow> 20 word \<Rightarrow> PageTableEntry" where
  "clear_pages st k m = (\<lambda>p. if st \<le> unat p \<and> unat p < st + k then zero_pte else m p)"

lemma clear_pages_Suc:
  assumes "st + k < 1048576"
  shows "(clear_pages st k m)(of_nat (st + k) := zero_pte) = clear_pages st (Suc k) m"
proof (rule ext)
  fix p :: "20 word"
  have "p = of_nat (st + k) \<longleftrightarrow> unat p = st + k"
    using assms by (auto simp: unat_of_nat_less word_unat_eq_iff simp del: of_nat_add)
  then show "((clear_pages st k m)(of_nat (st + k) := zero_pte)) p = clear_pages st (Suc k) m p"
    by (auto simp: clear_pages_def)
qed

lemma frame_roundtrip:
  "f mod 4096 = 0 \<Longrightarrow> push_bit 12 (ucast (ucast (drop_bit 12 f) :: 20 word)) = (f :: u32)"
proof -
  assume "f mod 4096 = 0"
  then have "unat (f mod 4096) = 0" by simp
  then have "unat f mod 4096 = 0" by (simp add: unat_mod)
  then show ?thesis using frame_base_page_no [of f] by (simp add: frame_base_def page_no_def)
qed

lemma free_pages_loop:
  assumes wf: "phys_wf (frames s)" and cur: "current_page_directory s = Kernel_Dir"
    and st: "st + length fs \<le> 1048576" and k: "k \<le> length fs"
    and fs: "distinct fs" "set fs \<subseteq> frames_all (frames s)" and m: "kmap s = map_pages st fs m"
  shows "\<exists>s'. rfold (free_body (of_nat st * 0x1000)) [0..<k] s = Inr s'
    \<and> phys_wf (frames s') \<and> frames_all (frames s') = frames_all (frames s)
    \<and> frames_used (frames s') = frames_used (frames s) - set (take k fs)
    \<and> current_page_directory s' = Kernel_Dir \<and> kmap s' = clear_pages st k (kmap s)"
  using k
proof (induction k)
  case 0
  have "clear_pages st 0 (kmap s) = kmap s" by (rule ext) (auto simp: clear_pages_def)
  then show ?case using wf cur by simp
next
  case (Suc k)
  then obtain s1 where 1: "rfold (free_body (of_nat st * 0x1000)) [0..<k] s = Inr s1"
    and ok: "phys_wf (frames s1)" "frames_all (frames s1) = frames_all (frames s)"
      "frames_used (frames s1) = frames_used (frames s) - set (take k fs)"
      "current_page_directory s1 = Kernel_Dir" "kmap s1 = clear_pages st k (kmap s)"
    by auto
  let ?v = "of_nat st * 0x1000 + of_nat k * 0x1000 :: u32" and ?p = "of_nat (st + k) :: 20 word"
  have off: "page_no ?v = ?p" "unat ?p = st + k"
    using page_offset [of st "length fs" k] st Suc.prems by auto
  have f: "fs ! k \<in> frames_all (frames s1)" using fs(2) ok(2) Suc.prems nth_mem [of k fs] by auto
  have shape: "fs ! k \<noteq> 0" "fs ! k mod 4096 = 0"
    using phys_frames.all_frames_shape [OF ok(1) f] by auto
  have pte: "kernel_pte s1 ?v = new_pte (fs ! k) True True False"
    using off ok(5) m Suc.prems by (simp add: kernel_pte_kmap clear_pages_def map_pages_def)
  obtain b where b: "X86PhysFreeFrame (frames s1) (fs ! k) = Inr b" "phys_wf b"
    "frames_all b = frames_all (frames s1)" "frames_used b = frames_used (frames s1) - {fs ! k}"
    using phys_frames.free_spec [OF ok(1) f] by blast
  let ?s = "set_kernel_pte ?v zero_pte (s1\<lparr>frames := b\<rparr>)"
  have body: "free_body (of_nat st * 0x1000) k s1 = Inr ?s"
    using ok(4) pte b(1) shape
    by (simp add: GetPte_def new_pte_def frame_roundtrip PhysFreeFrame_def UnmapFrame_Kernel)
  have "kmap ?s = clear_pages st (Suc k) (kmap s)"
    using clear_pages_Suc [of st k "kmap s"] ok(5) off(1) st Suc.prems by simp
  moreover have "set (take (Suc k) fs) = insert (fs ! k) (set (take k fs))"
    using Suc.prems by (simp add: take_Suc_conv_app_nth)
  ultimately show ?case
    using 1 body b ok by (intro exI [of _ ?s]) (auto simp: rfold_append)
qed

lemma X86Allocate_kernel_spec:
  assumes "phys_wf (frames s)" and "current_page_directory s = Kernel_Dir" and "0 < n"
    and "unat n \<le> card (fresh_frames s)" and "unat n \<le> 1048576"
  shows "\<exists>st fs s'. X86AllocateContiguousVirtualFrames n kern s = Inr (of_nat st * 0x1000, s')
    \<and> (if st = 0 then \<forall>t \<ge> first_page kern. \<not> free_pages s t (unat n)
       else first_page kern \<le> st \<and> free_pages s st (unat n)
         \<and> (\<forall>t. first_page kern \<le> t \<and> t < st \<longrightarrow> \<not> free_pages s t (unat n)))
    \<and> length fs = unat n \<and> distinct fs \<and> set fs \<subseteq> fresh_frames s
    \<and> phys_wf (frames s') \<and> frames_all (frames s') = frames_all (frames s)
    \<and> frames_used (frames s') = frames_used (frames s) \<union> set fs
    \<and> current_page_directory s' = Kernel_Dir \<and> kmap s' = (map_pages st fs (kmap s))(0 := kmap s 0)"
proof -
  obtain r where r: "FindContiguousFreeFrames n Kernel_Dir kern s = Inr (r, s)"
    "found_pages s (first_page kern) (unat n) r"
    using Find_kernel_spec [OF assms(3)] by blast
  have "\<exists>st. r = of_nat st * 0x1000 \<and> st + unat n \<le> 1048576
      \<and> (if st = 0 then \<forall>t \<ge> first_page kern. \<not> free_pages s t (unat n)
         else first_page kern \<le> st \<and> free_pages s st (unat n)
           \<and> (\<forall>t. first_page kern \<le> t \<and> t < st \<longrightarrow> \<not> free_pages s t (unat n)))"
  proof (cases "r = 0")
    case True
    with r(2) assms(5) show ?thesis by (intro exI [of _ 0]) (simp add: found_pages_def)
  next
    case False
    with r(2) obtain st where "first_page kern \<le> st" "r = of_nat st * 0x1000" "free_pages s st (unat n)"
      "\<forall>t. first_page kern \<le> t \<and> t < st \<longrightarrow> \<not> free_pages s t (unat n)"
      unfolding found_pages_def by auto
    with first_page_pos(1) [of kern] show ?thesis
      by (intro exI [of _ st]) (auto simp: free_pages_def)
  qed
  then obtain st where st: "r = of_nat st * 0x1000" "st + unat n \<le> 1048576"
      "if st = 0 then \<forall>t \<ge> first_page kern. \<not> free_pages s t (unat n)
         else first_page kern \<le> st \<and> free_pages s st (unat n)
           \<and> (\<forall>t. first_page kern \<le> t \<and> t < st \<longrightarrow> \<not> free_pages s t (unat n))" by blast
  obtain s' fs where loop: "rfold (alloc_body (of_nat st * 0x1000)) [0..<unat n] s = Inr s'"
    and fs: "length fs = unat n" "distinct fs" "set fs \<subseteq> fresh_frames s"
      "phys_wf (frames s')" "frames_all (frames s') = frames_all (frames s)"
      "frames_used (frames s') = frames_used (frames s) \<union> set fs"
      "current_page_directory s' = Kernel_Dir" "kmap s' = (map_pages st fs (kmap s))(0 := kmap s 0)"
    using alloc_pages_spec [OF assms(1,2) st(2) order_refl assms(4)] by blast
  have "X86AllocateContiguousVirtualFrames n kern s = Inr (of_nat st * 0x1000, s')"
    unfolding X86AllocateContiguousVirtualFrames_def assms(2) r(1) st(1) using loop by simp
  with st(3) fs show ?thesis by blast
qed

section \<open>Properties of kernel pages\<close>

text \<open>
  C10: in the kernel's address space, when enough frames are free,
  \<open>X86AllocateContiguousVirtualFrames\<close> returns the lowest run of unmapped pages of the requested
  length above the start of the range, and maps its pages, present, writable and kernel-only, to as
  many different frames that were free and are now in use; every other page keeps its entry.
\<close>

theorem X86AllocateContiguousVirtualFrames_maps:
  assumes "phys_wf (frames s)" and "current_page_directory s = Kernel_Dir" and "0 < n"
    and "unat n \<le> card (fresh_frames s)" and "first_page kern \<le> t" and "free_pages s t (unat n)"
  shows "\<exists>st fs s'. X86AllocateContiguousVirtualFrames n kern s = Inr (of_nat st * 0x1000, s')
    \<and> first_page kern \<le> st \<and> st \<le> t \<and> free_pages s st (unat n)
    \<and> length fs = unat n \<and> distinct fs \<and> set fs \<subseteq> fresh_frames s
    \<and> phys_wf (frames s') \<and> frames_used (frames s') = frames_used (frames s) \<union> set fs
    \<and> (\<forall>p. kmap s' p = (if st \<le> unat p \<and> unat p < st + unat n
           then new_pte (fs ! (unat p - st)) True True False else kmap s p))"
proof -
  have n: "unat n \<le> 1048576" using assms(6) by (simp add: free_pages_def)
  obtain st fs s' where *: "X86AllocateContiguousVirtualFrames n kern s = Inr (of_nat st * 0x1000, s')"
    "if st = 0 then \<forall>t \<ge> first_page kern. \<not> free_pages s t (unat n)
       else first_page kern \<le> st \<and> free_pages s st (unat n)
         \<and> (\<forall>t. first_page kern \<le> t \<and> t < st \<longrightarrow> \<not> free_pages s t (unat n))"
    "length fs = unat n" "distinct fs" "set fs \<subseteq> fresh_frames s" "phys_wf (frames s')"
    "frames_used (frames s') = frames_used (frames s) \<union> set fs"
    "kmap s' = (map_pages st fs (kmap s))(0 := kmap s 0)"
    using X86Allocate_kernel_spec [OF assms(1-4) n, of kern] by blast
  have st: "0 < st" using *(2) assms(5,6) by (cases "st = 0") auto
  then have "first_page kern \<le> st" "free_pages s st (unat n)"
    "\<forall>t. first_page kern \<le> t \<and> t < st \<longrightarrow> \<not> free_pages s t (unat n)" using *(2) by auto
  moreover from this(3) assms(5,6) have "st \<le> t" using leI by blast
  moreover have "kmap s' p = (if st \<le> unat p \<and> unat p < st + unat n
           then new_pte (fs ! (unat p - st)) True True False else kmap s p)" for p
    unfolding *(8) map_pages_keeps_0 [OF st] by (simp add: map_pages_def *(3))
  ultimately show ?thesis using * by blast
qed

text \<open>A machine whose kernel page table is empty and that has four free frames.\<close>

definition demo_vmm :: vmm where
  "demo_vmm = \<lparr>kpd_frame = 0x100, kpt_frame = 0x101, current_page_directory = Kernel_Dir, cr3 = 0,
     pmem = (\<lambda>_ _. 0), frames = demo_frames\<rparr>"

lemma kmap_demo: "kmap demo_vmm p = zero_pte"
  by (simp add: kmap_def kernel_pte_def demo_vmm_def zero_pte_def)

lemma not_present_zero [simp]: "\<not> present zero_pte"
  by (simp add: zero_pte_def pte_of_word_def)

lemma demo_fresh: "1 \<le> card (fresh_frames demo_vmm)"
proof -
  have "X86PhysAllocateFrame demo_frames
      = Inr (\<lparr>bm_words = [3], bm_len = 8, dead_zone = 3, first_free = 5\<rparr>, 0x4000)" by code_simp
  then have "0x4000 \<in> fresh_frames demo_vmm"
    using X86PhysAllocateFrame_spec [OF demo_frames_wf] by (simp add: fresh_frames_def demo_vmm_def)
  then have "0 < card (fresh_frames demo_vmm)" by (auto simp: card_gt_0_iff)
  then show ?thesis by simp
qed

lemma demo_kernel:
  "phys_wf (frames demo_vmm)" "current_page_directory demo_vmm = Kernel_Dir"
  "first_page True \<le> 0xC0001" "free_pages demo_vmm 0xC0001 1"
  using demo_frames_wf
  by (simp_all add: demo_vmm_def first_page_def KERNEL_STATIC_MEM_START_def)
     (simp add: free_pages_def kmap_demo flip: demo_vmm_def)

theorem X86AllocateContiguousVirtualFrames_maps_witness:
  "\<exists>st fs s'. X86AllocateContiguousVirtualFrames 1 True demo_vmm = Inr (of_nat st * 0x1000, s')
     \<and> st = 0xC0001 \<and> length fs = 1 \<and> kmap s' 0xC0001 = new_pte (fs ! 0) True True False"
proof -
  have n: "unat (1 :: u32) \<le> card (fresh_frames demo_vmm)" using demo_fresh by simp
  obtain st fs s' where *: "X86AllocateContiguousVirtualFrames 1 True demo_vmm = Inr (of_nat st * 0x1000, s')"
    "first_page True \<le> st" "st \<le> 0xC0001" "length fs = unat (1 :: u32)"
    "\<forall>p. kmap s' p = (if st \<le> unat p \<and> unat p < st + unat (1 :: u32)
           then new_pte (fs ! (unat p - st)) True True False else kmap demo_vmm p)"
    using X86AllocateContiguousVirtualFrames_maps [OF demo_kernel(1,2) _ n demo_kernel(3)] demo_kernel(4)
    by auto
  moreover have "first_page True = 0xC0001" by (simp add: first_page_def KERNEL_STATIC_MEM_START_def)
  ultimately show ?thesis by auto
qed

text \<open>
  C11: \<open>X86FreeContiguousVirtualFrames\<close> undoes \<open>X86AllocateContiguousVirtualFrames\<close>: it does not
  fault, exactly the frames taken by the allocation are free again, the pages of the run are
  absent, and every other page keeps its entry.
\<close>

theorem X86FreeContiguousVirtualFrames_undoes:
  assumes "phys_wf (frames s)" and "current_page_directory s = Kernel_Dir" and "0 < n"
    and "unat n \<le> card (fresh_frames s)" and "unat n \<le> 1048576"
    and "X86AllocateContiguousVirtualFrames n kern s = Inr (base, s')" and "base \<noteq> 0"
  shows "\<exists>s''. X86FreeContiguousVirtualFrames base n s' = Inr s'' \<and> phys_wf (frames s'')
    \<and> frames_used (frames s'') = frames_used (frames s)
    \<and> (\<forall>v. present (kernel_pte s'' v) = present (kernel_pte s v))
    \<and> (\<forall>v. present (kernel_pte s v) \<longrightarrow> kernel_pte s'' v = kernel_pte s v)"
proof -
  obtain st fs where *: "base = of_nat st * 0x1000"
    "if st = 0 then \<forall>t \<ge> first_page kern. \<not> free_pages s t (unat n)
       else first_page kern \<le> st \<and> free_pages s st (unat n)
         \<and> (\<forall>t. first_page kern \<le> t \<and> t < st \<longrightarrow> \<not> free_pages s t (unat n))"
    "length fs = unat n" "distinct fs" "set fs \<subseteq> fresh_frames s" "phys_wf (frames s')"
    "frames_all (frames s') = frames_all (frames s)"
    "frames_used (frames s') = frames_used (frames s) \<union> set fs"
    "current_page_directory s' = Kernel_Dir" "kmap s' = (map_pages st fs (kmap s))(0 := kmap s 0)"
    using X86Allocate_kernel_spec [OF assms(1-5), of kern] assms(6) by auto
  have st: "0 < st" using *(1) assms(7) by (cases st) auto
  then have fp: "free_pages s st (unat n)" using *(2) by simp
  have km: "kmap s' = map_pages st fs (kmap s)" unfolding *(10) by (rule map_pages_keeps_0 [OF st])
  have sub: "set fs \<subseteq> frames_all (frames s')" using *(5,7) by (auto simp: fresh_frames_def)
  have le: "st + length fs \<le> 1048576" using fp *(3) by (simp add: free_pages_def)
  obtain s'' where s'': "rfold (free_body (of_nat st * 0x1000)) [0..<unat n] s' = Inr s''"
    "phys_wf (frames s'')" "frames_used (frames s'') = frames_used (frames s') - set (take (unat n) fs)"
    "kmap s'' = clear_pages st (unat n) (kmap s')"
    using free_pages_loop [OF *(6,9) le _ *(4) sub km, of "unat n"] *(3) by auto
  have "frames_used (frames s'') = frames_used (frames s)"
    using s''(3) *(3,5,8) by (auto simp: fresh_frames_def)
  moreover have "kmap s'' p = (if st \<le> unat p \<and> unat p < st + unat n then zero_pte else kmap s p)" for p
    unfolding s''(4) km by (simp add: clear_pages_def map_pages_def *(3))
  moreover have "\<not> present (kmap s p)" if "st \<le> unat p" "unat p < st + unat n" for p
    using fp that unfolding free_pages_def by (metis atLeastLessThan_iff of_nat_unat ucast_id)
  moreover have "X86FreeContiguousVirtualFrames base n s' = Inr s''"
    unfolding X86FreeContiguousVirtualFrames_def *(1) by (rule s''(1))
  ultimately show ?thesis using s''(2) by (auto simp: kernel_pte_kmap)
qed

theorem X86FreeContiguousVirtualFrames_undoes_witness:
  "\<exists>base s' s''. X86AllocateContiguousVirtualFrames 1 True demo_vmm = Inr (base, s')
     \<and> X86FreeContiguousVirtualFrames base 1 s' = Inr s''
     \<and> frames_used (frames s'') = frames_used demo_frames"
proof -
  have n: "unat (1 :: u32) \<le> card (fresh_frames demo_vmm)" using demo_fresh by simp
  have p: "(0 :: u32) < 1" "unat (1 :: u32) \<le> 1048576" by simp_all
  obtain st fs s' where *: "X86AllocateContiguousVirtualFrames 1 True demo_vmm = Inr (of_nat st * 0x1000, s')"
    "if st = 0 then \<forall>t \<ge> first_page True. \<not> free_pages demo_vmm t (unat (1 :: u32))
       else first_page True \<le> st \<and> free_pages demo_vmm st (unat (1 :: u32))
         \<and> (\<forall>t. first_page True \<le> t \<and> t < st \<longrightarrow> \<not> free_pages demo_vmm t (unat (1 :: u32)))"
    using X86Allocate_kernel_spec [OF demo_kernel(1,2) p(1) n p(2), of True] by blast
  have st: "st \<noteq> 0" using *(2) demo_kernel(3,4) by (metis unat_1)
  then have "st < 1048576" using *(2) by (simp add: free_pages_def)
  then have "(of_nat st * 0x1000 :: u32) \<noteq> 0" using unat_page_addr [of st] st by (auto simp: word_unat_eq_iff)
  from X86FreeContiguousVirtualFrames_undoes [OF demo_kernel(1,2) p(1) n p(2) *(1) this]
  show ?thesis using *(1) by (auto simp: demo_vmm_def)
qed

text \<open>
  when no run of pages is free, \<open>X86AllocateContiguousVirtualFrames\<close> does not refuse: it returns
  \<open>NULL\<close>, but has taken \<open>n\<close> frames and has replaced the entries of the pages 1 to \<open>n\<close> - 1, where
  the kernel's identity mapping of low memory is.
\<close>

theorem X86AllocateContiguousVirtualFrames_exhausted:
  assumes "phys_wf (frames s)" and "current_page_directory s = Kernel_Dir" and "0 < n"
    and "unat n \<le> card (fresh_frames s)" and "unat n \<le> 1048576"
    and "\<And>t. first_page kern \<le> t \<Longrightarrow> \<not> free_pages s t (unat n)"
  shows "\<exists>s' fs. X86AllocateContiguousVirtualFrames n kern s = Inr (0, s')
    \<and> length fs = unat n \<and> distinct fs \<and> frames_used (frames s') = frames_used (frames s) \<union> set fs
    \<and> (\<forall>p. 0 < unat p \<and> unat p < unat n \<longrightarrow> kmap s' p = new_pte (fs ! unat p) True True False)"
proof -
  obtain st fs s' where *: "X86AllocateContiguousVirtualFrames n kern s = Inr (of_nat st * 0x1000, s')"
    "if st = 0 then \<forall>t \<ge> first_page kern. \<not> free_pages s t (unat n)
       else first_page kern \<le> st \<and> free_pages s st (unat n)
         \<and> (\<forall>t. first_page kern \<le> t \<and> t < st \<longrightarrow> \<not> free_pages s t (unat n))"
    "length fs = unat n" "distinct fs" "set fs \<subseteq> fresh_frames s"
    "frames_used (frames s') = frames_used (frames s) \<union> set fs"
    "kmap s' = (map_pages st fs (kmap s))(0 := kmap s 0)"
    using X86Allocate_kernel_spec [OF assms(1-5), of kern] by blast
  have st: "st = 0" using *(2) assms(6) by (auto split: if_splits)
  have "kmap s' p = new_pte (fs ! unat p) True True False" if "0 < unat p" "unat p < unat n" for p
    using that unfolding *(7) st by (auto simp: map_pages_def *(3))
  with * st show ?thesis by auto
qed

text \<open>The same machine with every page mapped.\<close>

definition full_vmm :: vmm where
  "full_vmm = demo_vmm\<lparr>pmem := (\<lambda>_ _. 1)\<rparr>"

theorem X86AllocateContiguousVirtualFrames_exhausted_witness:
  "\<exists>s' fs. X86AllocateContiguousVirtualFrames 1 True full_vmm = Inr (0, s') \<and> length fs = 1
    \<and> frames_used (frames s') = frames_used demo_frames \<union> set fs"
proof -
  have km: "present (kmap full_vmm p)" for p
    by (simp add: kmap_def kernel_pte_def full_vmm_def demo_vmm_def pte_of_word_def)
  have none: "\<not> free_pages full_vmm t (unat (1 :: u32))" for t
    using km by (auto simp: free_pages_def)
  have "fresh_frames full_vmm = fresh_frames demo_vmm"
    by (simp add: fresh_frames_def full_vmm_def)
  then have n: "unat (1 :: u32) \<le> card (fresh_frames full_vmm)" using demo_fresh by simp
  have "phys_wf (frames full_vmm)" "current_page_directory full_vmm = Kernel_Dir"
    using demo_kernel(1,2) by (simp_all add: full_vmm_def)
  from X86AllocateContiguousVirtualFrames_exhausted [OF this _ n _ none, of True]
  show ?thesis by (auto simp: full_vmm_def demo_vmm_def)
qed

end
