(* ===== verification/Vmm_Process.thy ===== *)
theory Vmm_Process
  imports Virt_Mem_Mgr
begin

text \<open>
  Address spaces of processes in \<open>arch/x86/mem/virt_mem_mgr_x86.c\<close>: what \<open>GetPte\<close> and \<open>SetPte\<close> do on a
  process's page directory, through the temporary mappings they make, and what that gives for
  \<open>X86CreateAddressSpace\<close>, \<open>X86CreateStack\<close> and \<open>X86DeleteAddressSpace\<close>. The definitions are those of
  \<open>Virt_Mem_Mgr\<close>; this theory adds the abstraction of a directory to a map from user pages to
  entries and the invariant that keeps the tables of a directory apart from each other and from the
  kernel's.
\<close>

section \<open>Invariant and abstraction\<close>

definition kpt_frames :: "vmm \<Rightarrow> (20 word) set" where
  "kpt_frames s = range (\<lambda>i :: 10 word. kpt_frame s + ucast i)"

definition vmm_ok :: "vmm \<Rightarrow> bool" where
  "vmm_ok s \<longleftrightarrow> phys_wf (frames s) \<and> kpd_frame s \<notin> kpt_frames s
     \<and> (\<forall>f \<in> insert (kpd_frame s) (kpt_frames s). frame_base f \<notin> frames_all (frames s))"

text \<open>A kernel page is left for the temporary mappings.\<close>

definition kfree :: "vmm \<Rightarrow> bool" where
  "kfree s \<longleftrightarrow> (\<exists>t \<ge> first_page True. free_pages s t 1)"

definition pde_at :: "vmm \<Rightarrow> 20 word \<Rightarrow> 10 word \<Rightarrow> PageDirectoryEntry" where
  "pde_at s fd i = pde_of_word (pmem s fd i)"

text \<open>The entry of the page of \<open>v\<close> in the directory held by frame \<open>fd\<close>.\<close>

definition umap :: "vmm \<Rightarrow> 20 word \<Rightarrow> u32 \<Rightarrow> PageTableEntry" where
  "umap s fd v = (let pde = pde_at s fd (directory_entry v) in
     if pde_present pde then pte_of_word (pmem s (page_table_addr pde) (table_entry v)) else zero_pte)"

definition user_addr :: "u32 \<Rightarrow> bool" where
  "user_addr v \<longleftrightarrow> unat (directory_entry v) < 0x300"

definition dir_mapped :: "vmm \<Rightarrow> u32 \<Rightarrow> 20 word \<Rightarrow> bool" where
  "dir_mapped s d fd \<longleftrightarrow> unat d mod 4096 = 0 \<and> present (kmap s (page_no d))
     \<and> page_frame_addr (kmap s (page_no d)) = fd"

definition proc_ok :: "vmm \<Rightarrow> u32 \<Rightarrow> 20 word \<Rightarrow> bool" where
  "proc_ok s d fd \<longleftrightarrow> dir_mapped s d fd \<and> frame_base fd \<in> frames_used (frames s)
     \<and> (\<forall>i. unat i < 0x300 \<and> pde_present (pde_at s fd i) \<longrightarrow>
          frame_base (page_table_addr (pde_at s fd i)) \<in> frames_used (frames s)
          \<and> page_table_addr (pde_at s fd i) \<noteq> fd)
     \<and> (\<forall>i j. unat i < 0x300 \<and> unat j < 0x300 \<and> pde_present (pde_at s fd i) \<and> pde_present (pde_at s fd j)
          \<and> page_table_addr (pde_at s fd i) = page_table_addr (pde_at s fd j) \<longrightarrow> i = j)"

text \<open>
  \<open>quiet s s'\<close>: a scratch mapping came and went. Nothing changes but entries of absent kernel pages,
  which are cleared.
\<close>

definition quiet :: "vmm \<Rightarrow> vmm \<Rightarrow> bool" where
  "quiet s s' \<longleftrightarrow> frames s' = frames s \<and> current_page_directory s' = current_page_directory s
     \<and> kpd_frame s' = kpd_frame s \<and> kpt_frame s' = kpt_frame s \<and> cr3 s' = cr3 s
     \<and> (\<forall>f. f \<notin> kpt_frames s \<longrightarrow> pmem s' f = pmem s f)
     \<and> (\<forall>p. kmap s' p = kmap s p \<or> \<not> present (kmap s p) \<and> kmap s' p = zero_pte)"

lemma quiet_refl [simp]: "quiet s s"
  by (simp add: quiet_def)

lemma quiet_kpt_frames: "quiet s s' \<Longrightarrow> kpt_frames s' = kpt_frames s"
  by (simp add: quiet_def kpt_frames_def)

lemma quiet_trans: "quiet s s' \<Longrightarrow> quiet s' s'' \<Longrightarrow> quiet s s''"
  unfolding quiet_def kpt_frames_def by (metis not_present_zero)

lemma quiet_present: "quiet s s' \<Longrightarrow> present (kmap s' p) = present (kmap s p)"
  unfolding quiet_def by (metis not_present_zero)

lemma quiet_present_eq: "quiet s s' \<Longrightarrow> present (kmap s p) \<Longrightarrow> kmap s' p = kmap s p"
  unfolding quiet_def by metis

lemma quiet_kfree: "quiet s s' \<Longrightarrow> kfree s' = kfree s"
  by (simp add: kfree_def free_pages_def quiet_present)

lemma quiet_dir_mapped: "quiet s s' \<Longrightarrow> dir_mapped s d fd \<Longrightarrow> dir_mapped s' d fd"
  using quiet_present_eq [of s s' "page_no d"] by (simp add: dir_mapped_def)

lemma quiet_vmm_ok: "quiet s s' \<Longrightarrow> vmm_ok s' = vmm_ok s"
  by (simp add: vmm_ok_def quiet_kpt_frames) (simp add: quiet_def)

lemma used_not_kpt:
  "vmm_ok s \<Longrightarrow> frame_base f \<in> frames_used (frames s) \<Longrightarrow> f \<notin> kpt_frames s \<and> f \<noteq> kpd_frame s"
  unfolding vmm_ok_def using phys_frames.in_use_subset by blast

section \<open>Temporary mappings\<close>

lemma word_in_page:
  fixes v :: u32 and i :: "10 word"
  assumes "unat v mod 4096 = 0"
  shows "page_no (v + 4 * ucast i) = page_no v" and "ucast (drop_bit 2 (v + 4 * ucast i)) = i"
proof -
  obtain k where k: "unat v = 4096 * k" using assms by (auto elim!: dvdE simp: mod_eq_0_iff_dvd)
  have i: "unat i < 1024" using unat_less [of i] by simp
  have kl: "k < 1048576" using k unat_u32_less [of v] by simp
  have i4: "unat (4 * ucast i :: u32) = 4 * unat i" using i by (simp add: unat_word_ariths unat_ucast_mod)
  have u: "unat (v + 4 * ucast i) = 4096 * k + 4 * unat i"
    using k kl i i4 by (subst unat_plus_no_wrap) simp_all
  show "page_no (v + 4 * ucast i) = page_no v"
    using i k by (simp add: word_unat_eq_iff unat_page_no u)
  have "unat (drop_bit 2 (v + 4 * ucast i)) = 1024 * k + unat i"
    using kl i unfolding unsigned_drop_bit_eq u by (simp add: drop_bit_eq_div take_bit_eq_mod)
  then show "ucast (drop_bit 2 (v + 4 * ucast i)) = i"
    using i by (simp add: word_unat_eq_iff unat_ucast_mod)
qed

lemma read_word_in_page:
  assumes "unat v mod 4096 = 0"
  shows "read_word s (v + 4 * ucast i) =
     (if present (kmap s (page_no v)) then Inr (pmem s (page_frame_addr (kmap s (page_no v))) i)
      else Inl Page_Fault)"
  unfolding read_word_def virt_frame_def kernel_pte_kmap word_in_page [OF assms] by simp

lemma write_word_in_page:
  assumes "unat v mod 4096 = 0"
  shows "write_word (v + 4 * ucast i) w s =
     (if present (kmap s (page_no v)) then Inr (set_word (page_frame_addr (kmap s (page_no v))) i w s)
      else Inl Page_Fault)"
  unfolding write_word_def virt_frame_def kernel_pte_kmap word_in_page [OF assms] by simp

lemma AllocateMap_spec:
  assumes "kfree s"
  obtains v where "AllocateMap phys s = Inr (v, set_kernel_pte v (new_pte phys True True False) s)"
    and "unat v mod 4096 = 0" and "first_page True \<le> unat (page_no v)" and "\<not> present (kmap s (page_no v))"
proof -
  obtain r where r: "FindContiguousFreeFrames 1 Kernel_Dir True s = Inr (r, s)"
    "found_pages s (first_page True) (unat (1 :: u32)) r"
    using Find_kernel_spec [of 1 True s] by auto
  have r0: "r \<noteq> 0" using r(2) assms by (auto simp: found_pages_def kfree_def)
  then obtain st where st: "first_page True \<le> st" "r = of_nat st * 0x1000" "free_pages s st 1"
    using r(2) by (auto simp: found_pages_def)
  then have lt: "st < 1048576" by (simp add: free_pages_def)
  have p: "page_no r = of_nat st" using st(2) page_no_page_addr [OF lt] by simp
  have ne: "page_no r \<noteq> 0" using p st(1) lt first_page_pos(1) [of True] by (auto simp: word_unat_eq_iff unat_of_nat_less)
  have "AllocateMap phys s = Inr (r, set_kernel_pte r (new_pte phys True True False) s)"
    using r(1) ne page_zero_iff [of r]
    by (auto simp: AllocateMap_def FindContiguousFreeFrames_def IsMapped_Kernel_Dir MapFrame_kernel_def)
  moreover have "unat r mod 4096 = 0" using st(2) unat_page_addr [OF lt] by simp
  moreover have "first_page True \<le> unat (page_no r)" using p st(1) lt by (simp add: unat_of_nat_less)
  moreover have "\<not> present (kmap s (page_no r))" using st(3) p by (simp add: free_pages_def)
  ultimately show ?thesis by (rule that)
qed

lemma pmem_set_kernel_pte: "f \<notin> kpt_frames s \<Longrightarrow> pmem (set_kernel_pte v pte s) f = pmem s f"
  by (auto simp: set_kernel_pte_def set_word_def kpt_frames_def)

lemma kpt_frames_set_kernel_pte [simp]: "kpt_frames (set_kernel_pte v pte s) = kpt_frames s"
  by (simp add: kpt_frames_def)

lemma frame_no_base [simp]: "ucast (drop_bit 12 (push_bit 12 (ucast f :: u32))) = (f :: 20 word)"
  using page_no_frame_base [of f] by (simp add: page_no_def frame_base_def)

lemma scratch_quiet:
  assumes "\<not> present (kmap s (page_no v))"
  shows "quiet s (UnmapFrame_kernel v (set_kernel_pte v e s))"
proof -
  have "pmem (UnmapFrame_kernel v (set_kernel_pte v e s)) f = pmem s f" if "f \<notin> kpt_frames s" for f
    using that by (simp add: UnmapFrame_kernel_def pmem_set_kernel_pte)
  then show ?thesis using assms by (simp add: quiet_def UnmapFrame_kernel_def)
qed

section \<open>Reading an entry\<close>

text \<open>
  The entry of a page in a directory; a directory shares the kernel's tables through its upper
  entries, and there the entry read is the kernel's own.
\<close>

lemma GetPte_spec:
  assumes d: "dir_mapped s d fd" and k: "kfree s" and fd: "fd \<notin> kpt_frames s"
    and t: "pde_present (pde_at s fd (directory_entry v)) \<Longrightarrow> page_table_addr (pde_at s fd (directory_entry v)) \<notin> kpt_frames s"
  shows "\<exists>s'. GetPte (Dir_At d) v s = Inr (umap s fd v, s') \<and> quiet s s'"
proof -
  let ?pde = "pde_at s fd (directory_entry v)"
  have rd: "read_word s (d + 4 * ucast (directory_entry v)) = Inr (pmem s fd (directory_entry v))"
    using d by (simp add: read_word_in_page dir_mapped_def)
  show ?thesis
  proof (cases "pde_present ?pde")
    case False
    then show ?thesis using rd by (simp add: GetPte_def umap_def pde_at_def)
  next
    case True
    let ?t = "page_table_addr ?pde"
    obtain a where a: "AllocateMap (push_bit 12 (ucast ?t)) s
        = Inr (a, set_kernel_pte a (new_pte (push_bit 12 (ucast ?t)) True True False) s)"
      "unat a mod 4096 = 0" "\<not> present (kmap s (page_no a))"
      by (rule AllocateMap_spec [OF k])
    let ?s1 = "set_kernel_pte a (new_pte (push_bit 12 (ucast ?t)) True True False) s"
    have "read_word ?s1 (a + 4 * ucast (table_entry v)) = Inr (pmem ?s1 ?t (table_entry v))"
      using a(2) by (simp add: read_word_in_page new_pte_def)
    also have "pmem ?s1 ?t = pmem s ?t" using t [OF True] by (rule pmem_set_kernel_pte)
    finally have "GetPte (Dir_At d) v s = Inr (umap s fd v, UnmapFrame_kernel a ?s1)"
      using rd True a(1) by (simp add: GetPte_def umap_def pde_at_def Let_def)
    with scratch_quiet [OF a(3)] show ?thesis by blast
  qed
qed

section \<open>Writing an entry\<close>

text \<open>
  \<open>kquiet s s'\<close>: as \<open>quiet\<close>, without saying anything about the frame allocator and the memory
  outside the kernel's tables.
\<close>

definition kquiet :: "vmm \<Rightarrow> vmm \<Rightarrow> bool" where
  "kquiet s s' \<longleftrightarrow> current_page_directory s' = current_page_directory s
     \<and> kpd_frame s' = kpd_frame s \<and> kpt_frame s' = kpt_frame s \<and> cr3 s' = cr3 s
     \<and> (\<forall>p. kmap s' p = kmap s p \<or> \<not> present (kmap s p) \<and> kmap s' p = zero_pte)"

lemma kquiet_refl [simp]: "kquiet s s"
  by (simp add: kquiet_def)

lemma kquiet_trans: "kquiet s s' \<Longrightarrow> kquiet s' s'' \<Longrightarrow> kquiet s s''"
  unfolding kquiet_def by (metis not_present_zero)

lemma kquiet_facts:
  assumes "kquiet s s'"
  shows "kpt_frames s' = kpt_frames s" and "present (kmap s' p) = present (kmap s p)"
    and "present (kmap s p) \<Longrightarrow> kmap s' p = kmap s p" and "kfree s' = kfree s"
    and "dir_mapped s d fd \<Longrightarrow> dir_mapped s' d fd"
proof -
  show "kpt_frames s' = kpt_frames s" using assms by (simp add: kquiet_def kpt_frames_def)
  show p: "present (kmap s' p) = present (kmap s p)" for p
    using assms unfolding kquiet_def by (metis not_present_zero)
  show e: "present (kmap s p) \<Longrightarrow> kmap s' p = kmap s p" for p
    using assms unfolding kquiet_def by metis
  show "kfree s' = kfree s" by (simp add: kfree_def free_pages_def p)
  show "dir_mapped s d fd \<Longrightarrow> dir_mapped s' d fd" using e [of "page_no d"] by (simp add: dir_mapped_def)
qed

lemma kmap_set_word [simp]: "f \<notin> kpt_frames s \<Longrightarrow> kmap (set_word f i w s) = kmap s"
  by (rule ext) (auto simp: kmap_def kernel_pte_def set_word_def kpt_frames_def)

lemma kmap_zero_frame [simp]: "f \<notin> kpt_frames s \<Longrightarrow> kmap (s\<lparr>pmem := (pmem s)(f := g)\<rparr>) = kmap s"
  by (rule ext) (auto simp: kmap_def kernel_pte_def kpt_frames_def)

lemma set_word_fields [simp]:
  "frames (set_word f i w s) = frames s" "kpt_frame (set_word f i w s) = kpt_frame s"
  "kpd_frame (set_word f i w s) = kpd_frame s" "cr3 (set_word f i w s) = cr3 s"
  "current_page_directory (set_word f i w s) = current_page_directory s"
  "pmem (set_word f i w s) = (pmem s)(f := (pmem s f)(i := w))"
  "kpt_frames (set_word f i w s) = kpt_frames s"
  by (simp_all add: set_word_def kpt_frames_def)

text \<open>The last part of \<open>SetPte\<close>: write one word of frame \<open>t\<close> through a temporary mapping.\<close>

lemma write_through:
  assumes k: "kfree s" and t: "t \<notin> kpt_frames s"
  shows "\<exists>s'. rbind (AllocateMap (push_bit 12 (ucast t)) s) (\<lambda>(table, s).
       rbind (write_word (table + 4 * ucast i) w s) (\<lambda>s. Inr (UnmapFrame_kernel table s))) = Inr s'
    \<and> kquiet s s' \<and> frames s' = frames s
    \<and> (\<forall>f. f \<notin> kpt_frames s \<longrightarrow> pmem s' f = (if f = t then (pmem s t)(i := w) else pmem s f))"
proof -
  obtain a where a: "AllocateMap (push_bit 12 (ucast t)) s
      = Inr (a, set_kernel_pte a (new_pte (push_bit 12 (ucast t)) True True False) s)"
    "unat a mod 4096 = 0" "\<not> present (kmap s (page_no a))"
    by (rule AllocateMap_spec [OF k])
  let ?s1 = "set_kernel_pte a (new_pte (push_bit 12 (ucast t)) True True False) s"
  let ?s' = "UnmapFrame_kernel a (set_word t i w ?s1)"
  have wr: "write_word (a + 4 * ucast i) w ?s1 = Inr (set_word t i w ?s1)"
    using a(2) by (simp add: write_word_in_page new_pte_def)
  have km: "kmap ?s' = (kmap s)(page_no a := zero_pte)"
    using t by (simp add: UnmapFrame_kernel_def)
  have "pmem ?s' f = (if f = t then (pmem s t)(i := w) else pmem s f)" if "f \<notin> kpt_frames s" for f
    using that t pmem_set_kernel_pte [of f "set_word t i w ?s1" a zero_pte] pmem_set_kernel_pte [of t s a]
      pmem_set_kernel_pte [of f s a]
    by (simp add: UnmapFrame_kernel_def)
  moreover have "kquiet s ?s'"
    unfolding kquiet_def km using a(3) by (simp add: UnmapFrame_kernel_def)
  moreover have "frames ?s' = frames s" by (simp add: UnmapFrame_kernel_def)
  ultimately show ?thesis using a(1) wr by auto
qed

definition new_pde :: "20 word \<Rightarrow> PageDirectoryEntry" where
  "new_pde t = (pde_of_word 0)\<lparr>pde_writable := True, pde_user := True, page_table_addr := t, pde_present := True\<rparr>"

lemma CreatePageTable_spec:
  assumes ok: "vmm_ok s" and d: "dir_mapped s d fd" and fd: "fd \<notin> kpt_frames s" and k: "kfree s"
    and fresh: "fresh_frames s \<noteq> {}"
  shows "\<exists>s' t. CreatePageTable v d s = Inr s' \<and> kquiet s s' \<and> vmm_ok s'
    \<and> frame_base t \<in> fresh_frames s \<and> frames_all (frames s') = frames_all (frames s)
    \<and> frames_used (frames s') = insert (frame_base t) (frames_used (frames s))
    \<and> (\<forall>f. f \<notin> kpt_frames s \<longrightarrow> pmem s' f =
         (if f = fd then ((if f = t then (\<lambda>_. 0) else pmem s f))(directory_entry v := word_of_pde (new_pde t))
          else if f = t then (\<lambda>_. 0) else pmem s f))"
proof -
  have wf: "phys_wf (frames s)" using ok by (simp add: vmm_ok_def)
  obtain b f where a: "X86PhysAllocateFrame (frames s) = Inr (b, f)" "phys_wf b" "frames_all b = frames_all (frames s)"
    "if f = 0 then frames_used (frames s) = frames_all (frames s) \<and> frames_used b = frames_used (frames s)
     else f \<in> frames_all (frames s) - frames_used (frames s) \<and> frames_used b = insert f (frames_used (frames s))"
    using phys_frames.alloc_spec [OF wf] by blast
  have f0: "f \<noteq> 0" using a(4) fresh by (auto simp: fresh_frames_def)
  then have f: "f \<in> fresh_frames s" "frames_used b = insert f (frames_used (frames s))"
    using a(4) by (simp_all add: fresh_frames_def)
  then have fa: "f \<in> frames_all (frames s)" by (simp add: fresh_frames_def)
  let ?t = "page_no f" and ?s0 = "s\<lparr>frames := b\<rparr>"
  have "f mod 4096 = 0" using phys_frames.all_frames_shape [OF wf fa] by simp
  then have bt: "frame_base ?t = f" using frame_roundtrip [of f] by (simp add: frame_base_def page_no_def)
  have tk: "?t \<notin> kpt_frames s" using ok fa bt unfolding vmm_ok_def by (metis insertCI)
  have k0: "kfree ?s0" using k by (simp add: kfree_def free_pages_def)
  obtain v' where v': "AllocateMap f ?s0 = Inr (v', set_kernel_pte v' (new_pte f True True False) ?s0)"
    "unat v' mod 4096 = 0" "\<not> present (kmap ?s0 (page_no v'))"
    by (rule AllocateMap_spec [OF k0])
  let ?s1 = "set_kernel_pte v' (new_pte f True True False) ?s0"
  let ?s2 = "UnmapFrame_kernel v' (?s1\<lparr>pmem := (pmem ?s1)(?t := (\<lambda>_. 0))\<rparr>)"
  let ?w = "word_of_pde (new_pde ?t)" and ?s' = "set_word fd (directory_entry v) (word_of_pde (new_pde ?t)) ?s2"
  have kf: "kpt_frames ?s0 = kpt_frames s" by (simp add: kpt_frames_def)
  have zp: "zero_page v' ?s1 = Inr (?s1\<lparr>pmem := (pmem ?s1)(?t := (\<lambda>_. 0))\<rparr>)"
    by (simp add: zero_page_def virt_frame_def kernel_pte_kmap new_pte_def page_no_def)
  have km2: "kmap ?s2 = (kmap s)(page_no v' := zero_pte)"
    using tk kf by (simp add: UnmapFrame_kernel_def)
  have kpt2: "kpt_frames ?s2 = kpt_frames s" using kf by (simp add: UnmapFrame_kernel_def kpt_frames_def)
  have km': "kmap ?s' = (kmap s)(page_no v' := zero_pte)" using km2 fd kpt2 by simp
  have nd: "page_no d \<noteq> page_no v'" using d v'(3) by (auto simp: dir_mapped_def)
  have "write_word (d + 4 * ucast (directory_entry v)) ?w ?s2 = Inr ?s'"
    using d nd km2 by (simp add: write_word_in_page dir_mapped_def)
  then have cpt: "CreatePageTable v d s = Inr ?s'"
    using a(1) v'(1) zp by (simp add: CreatePageTable_def PhysAllocateFrame_def new_pde_def page_no_def Let_def)
  have pm: "pmem ?s' g = (if g = fd then ((if g = ?t then (\<lambda>_. 0) else pmem s g))(directory_entry v := ?w)
      else if g = ?t then (\<lambda>_. 0) else pmem s g)" if "g \<notin> kpt_frames s" for g
  proof -
    have "pmem ?s2 h = (if h = ?t then (\<lambda>_. 0) else pmem s h)" if "h \<notin> kpt_frames s" for h
      using that kf pmem_set_kernel_pte [of h "?s1\<lparr>pmem := (pmem ?s1)(?t := (\<lambda>_. 0))\<rparr>" v' zero_pte]
        pmem_set_kernel_pte [of h ?s0 v']
      by (simp add: UnmapFrame_kernel_def kpt_frames_def)
    with that fd show ?thesis by simp
  qed
  have fr: "frames ?s' = b" by (simp add: UnmapFrame_kernel_def)
  have kq: "kquiet s ?s'" unfolding kquiet_def km' using v'(3) by (simp add: UnmapFrame_kernel_def)
  have "vmm_ok ?s'" using ok a(2,3) kq kquiet_facts(1) [OF kq] fr by (simp add: vmm_ok_def kquiet_def)
  with cpt kq pm fr a f bt show ?thesis by (intro exI [of _ ?s'] exI [of _ ?t]) simp
qed

text \<open>The frames that hold a directory and its user tables.\<close>

definition dir_frames :: "vmm \<Rightarrow> 20 word \<Rightarrow> (20 word) set" where
  "dir_frames s fd = insert fd {page_table_addr (pde_at s fd i) | i. unat i < 0x300 \<and> pde_present (pde_at s fd i)}"

text \<open>What writing the entry of \<open>v\<close> in the directory at \<open>d\<close> does: the frame condition and the update.\<close>

definition sets_entry :: "vmm \<Rightarrow> u32 \<Rightarrow> 20 word \<Rightarrow> u32 \<Rightarrow> PageTableEntry \<Rightarrow> vmm \<Rightarrow> bool" where
  "sets_entry s d fd v pte s' \<longleftrightarrow> kquiet s s' \<and> vmm_ok s' \<and> proc_ok s' d fd
     \<and> frames_all (frames s') = frames_all (frames s) \<and> frames_used (frames s) \<subseteq> frames_used (frames s')
     \<and> (\<forall>u. user_addr u \<longrightarrow> umap s' fd u = (if page_no u = page_no v then pte else umap s fd u))
     \<and> (\<forall>i. 0x300 \<le> unat i \<longrightarrow> pmem s' fd i = pmem s fd i)
     \<and> dir_frames s' fd \<subseteq> dir_frames s fd \<union> {f. frame_base f \<in> fresh_frames s}
     \<and> (\<forall>f. frame_base f \<notin> fresh_frames s \<and> f \<notin> kpt_frames s \<and> f \<notin> dir_frames s fd \<longrightarrow> pmem s' f = pmem s f)"

lemma proc_ok_facts:
  assumes "vmm_ok s" and "proc_ok s d fd"
  shows "dir_mapped s d fd" and "fd \<notin> kpt_frames s"
    and "unat i < 0x300 \<Longrightarrow> pde_present (pde_at s fd i) \<Longrightarrow>
       page_table_addr (pde_at s fd i) \<notin> kpt_frames s \<and> page_table_addr (pde_at s fd i) \<noteq> fd"
  using assms used_not_kpt [OF assms(1)] unfolding proc_ok_def by blast+

lemma SetPte_present:
  assumes ok: "vmm_ok s" and p: "proc_ok s d fd" and k: "kfree s" and u: "user_addr v"
    and pr: "pde_present (pde_at s fd (directory_entry v))"
  shows "\<exists>s'. SetPte (Dir_At d) v pte s = Inr s' \<and> sets_entry s d fd v pte s' \<and> frames s' = frames s"
proof -
  let ?i = "directory_entry v" and ?t = "page_table_addr (pde_at s fd (directory_entry v))"
  note pf = proc_ok_facts [OF ok p]
  have i: "unat ?i < 0x300" using u by (simp add: user_addr_def)
  have t: "?t \<notin> kpt_frames s" "?t \<noteq> fd" using pf(3) [OF i pr] by auto
  have rd: "read_word s (d + 4 * ucast ?i) = Inr (pmem s fd ?i)"
    using pf(1) by (simp add: read_word_in_page dir_mapped_def)
  obtain s' where s': "rbind (AllocateMap (push_bit 12 (ucast ?t)) s) (\<lambda>(table, s).
       rbind (write_word (table + 4 * ucast (table_entry v)) (word_of_pte pte) s) (\<lambda>s. Inr (UnmapFrame_kernel table s))) = Inr s'"
    "kquiet s s'" "frames s' = frames s"
    "\<forall>f. f \<notin> kpt_frames s \<longrightarrow> pmem s' f = (if f = ?t then (pmem s ?t)(table_entry v := word_of_pte pte) else pmem s f)"
    using write_through [OF k t(1)] by blast
  have set: "SetPte (Dir_At d) v pte s = Inr s'"
    using rd pr s'(1) by (simp add: SetPte_def pde_at_def Let_def)
  have pde: "pde_at s' fd = pde_at s fd" using s'(4) pf(2) t(2) by (auto simp: pde_at_def)
  have inj: "j = ?i" if "unat j < 0x300" "pde_present (pde_at s fd j)" "page_table_addr (pde_at s fd j) = ?t" for j
    using p that i pr unfolding proc_ok_def by blast
  have um: "umap s' fd w = (if page_no w = page_no v then pte else umap s fd w)" if w: "user_addr w" for w
  proof (cases "pde_present (pde_at s fd (directory_entry w))")
    case False
    then have "directory_entry w \<noteq> ?i" using pr by auto
    with False show ?thesis using same_page_iff [of w v] by (simp add: umap_def pde)
  next
    case True
    have j: "unat (directory_entry w) < 0x300" using w by (simp add: user_addr_def)
    have nk: "page_table_addr (pde_at s fd (directory_entry w)) \<notin> kpt_frames s" using pf(3) [OF j True] by simp
    show ?thesis
    proof (cases "directory_entry w = ?i")
      case eq: True
      have pm: "pmem s' ?t = (pmem s ?t)(table_entry v := word_of_pte pte)" using s'(4) t(1) by simp
      have sp: "page_no w = page_no v \<longleftrightarrow> table_entry w = table_entry v" using same_page_iff [of w v] eq by blast
      show ?thesis using True unfolding umap_def pde eq by (simp add: pm sp)
    next
      case ne: False
      then have "page_table_addr (pde_at s fd (directory_entry w)) \<noteq> ?t" using inj [OF j True] by blast
      then have "pmem s' (page_table_addr (pde_at s fd (directory_entry w)))
          = pmem s (page_table_addr (pde_at s fd (directory_entry w)))" using s'(4) nk by simp
      then show ?thesis using ne same_page_iff [of w v] unfolding umap_def pde by (simp add: Let_def)
    qed
  qed
  have ok': "vmm_ok s'" using ok s'(2,3) kquiet_facts(1) [OF s'(2)] by (simp add: vmm_ok_def kquiet_def)
  have p': "proc_ok s' d fd" using p kquiet_facts(5) [OF s'(2)] unfolding proc_ok_def pde s'(3) by blast
  have out: "pmem s' f = pmem s f" if "f \<notin> kpt_frames s" "f \<notin> dir_frames s fd" for f
  proof -
    have "f \<noteq> ?t" using that(2) i pr by (auto simp: dir_frames_def)
    then show ?thesis using s'(4) that(1) by simp
  qed
  have "pmem s' fd = pmem s fd" using s'(4) pf(2) t(2) by simp
  moreover have "dir_frames s' fd = dir_frames s fd" unfolding dir_frames_def pde ..
  ultimately have "sets_entry s d fd v pte s'"
    unfolding sets_entry_def using s'(2,3) ok' p' um out by simp
  with set s'(3) show ?thesis by blast
qed

lemma SetPte_absent:
  assumes ok: "vmm_ok s" and p: "proc_ok s d fd" and k: "kfree s" and u: "user_addr v"
    and ab: "\<not> pde_present (pde_at s fd (directory_entry v))" and fresh: "fresh_frames s \<noteq> {}"
  shows "\<exists>s'. SetPte (Dir_At d) v pte s = Inr s' \<and> sets_entry s d fd v pte s'
    \<and> (\<exists>f \<in> fresh_frames s. frames_used (frames s') = insert f (frames_used (frames s)))"
proof -
  let ?i = "directory_entry v"
  note pf = proc_ok_facts [OF ok p]
  have i: "unat ?i < 0x300" using u by (simp add: user_addr_def)
  obtain s1 t where s1: "CreatePageTable v d s = Inr s1" "kquiet s s1" "vmm_ok s1"
    "frame_base t \<in> fresh_frames s" "frames_all (frames s1) = frames_all (frames s)"
    "frames_used (frames s1) = insert (frame_base t) (frames_used (frames s))"
    "\<forall>f. f \<notin> kpt_frames s \<longrightarrow> pmem s1 f =
         (if f = fd then ((if f = t then (\<lambda>_. 0) else pmem s f))(?i := word_of_pde (new_pde t))
          else if f = t then (\<lambda>_. 0) else pmem s f)"
    using CreatePageTable_spec [OF ok pf(1,2) k fresh] by blast
  have tu: "frame_base t \<notin> frames_used (frames s)" using s1(4) by (simp add: fresh_frames_def)
  have tfd: "t \<noteq> fd" using tu p by (auto simp: proc_ok_def)
  have tnk: "t \<notin> kpt_frames s" using s1(4) ok by (auto simp: vmm_ok_def fresh_frames_def)
  have pm_fd: "pmem s1 fd = (pmem s fd)(?i := word_of_pde (new_pde t))" using s1(7) pf(2) tfd by simp
  have pm_t: "pmem s1 t = (\<lambda>_. 0)" using s1(7) tnk tfd by simp
  have pde: "pde_at s1 fd j = (if j = ?i then new_pde t else pde_at s fd j)" for j
    using pm_fd by (simp add: pde_at_def)
  have nt: "page_table_addr (pde_at s fd j) \<noteq> t" if "unat j < 0x300" "pde_present (pde_at s fd j)" for j
    using p that tu unfolding proc_ok_def by metis
  have p1: "proc_ok s1 d fd"
    using p kquiet_facts(5) [OF s1(2)] nt tfd s1(6) unfolding proc_ok_def
    by (simp add: pde new_pde_def) (metis nt)
  have um1: "umap s1 fd w = umap s fd w" if w: "user_addr w" for w
  proof (cases "directory_entry w = ?i")
    case True
    then show ?thesis using ab by (simp add: umap_def pde new_pde_def pm_t zero_pte_def)
  next
    case False
    have j: "unat (directory_entry w) < 0x300" using w by (simp add: user_addr_def)
    show ?thesis
    proof (cases "pde_present (pde_at s fd (directory_entry w))")
      case True
      then have "pmem s1 (page_table_addr (pde_at s fd (directory_entry w)))
          = pmem s (page_table_addr (pde_at s fd (directory_entry w)))"
        using s1(7) pf(3) [OF j True] nt [OF j True] by auto
      with False True show ?thesis by (simp add: umap_def pde)
    qed (simp add: umap_def pde False)
  qed
  have k1: "kfree s1" using kquiet_facts(4) [OF s1(2)] k by simp
  have pr1: "pde_present (pde_at s1 fd ?i)" by (simp add: pde new_pde_def)
  obtain s' where s': "SetPte (Dir_At d) v pte s1 = Inr s'" "sets_entry s1 d fd v pte s'" "frames s' = frames s1"
    using SetPte_present [OF s1(3) p1 k1 u pr1] by blast
  have rd: "read_word s (d + 4 * ucast ?i) = Inr (pmem s fd ?i)"
    "read_word s1 (d + 4 * ucast ?i) = Inr (pmem s1 fd ?i)"
    using pf(1) kquiet_facts(5) [OF s1(2) pf(1)] by (simp_all add: read_word_in_page dir_mapped_def)
  have set: "SetPte (Dir_At d) v pte s = Inr s'"
    using s'(1) rd s1(1) ab pr1 by (simp add: SetPte_def pde_at_def Let_def)
  have out: "pmem s' f = pmem s f" if "frame_base f \<notin> fresh_frames s" "f \<notin> kpt_frames s" "f \<notin> dir_frames s fd" for f
  proof -
    have ft: "f \<noteq> t" "f \<noteq> fd" using that s1(4) by (auto simp: dir_frames_def)
    have "frame_base f \<notin> fresh_frames s1" using that(1) s1(5,6) by (auto simp: fresh_frames_def)
    moreover have "f \<notin> dir_frames s1 fd" using that(3) ft by (auto simp: dir_frames_def pde new_pde_def)
    ultimately have "pmem s' f = pmem s1 f"
      using s'(2) that(2) kquiet_facts(1) [OF s1(2)] by (simp add: sets_entry_def)
    then show ?thesis using s1(7) that(2) ft by simp
  qed
  have hi: "pmem s' fd j = pmem s fd j" if "0x300 \<le> unat j" for j
    using s'(2) that pm_fd i by (auto simp: sets_entry_def)
  have fs1: "fresh_frames s1 \<subseteq> fresh_frames s" using s1(5,6) by (auto simp: fresh_frames_def)
  have "dir_frames s1 fd \<subseteq> dir_frames s fd \<union> {f. frame_base f \<in> fresh_frames s}"
    using s1(4) by (auto simp: dir_frames_def pde new_pde_def split: if_splits)
  then have df: "dir_frames s' fd \<subseteq> dir_frames s fd \<union> {f. frame_base f \<in> fresh_frames s}"
    using s'(2) fs1 unfolding sets_entry_def by blast
  have "sets_entry s d fd v pte s'"
    using s'(2) kquiet_trans [OF s1(2)] s1(5,6) um1 out hi df unfolding sets_entry_def by auto
  with set s'(3) s1(4,6) show ?thesis by auto
qed

lemma SetPte_spec:
  assumes "vmm_ok s" and "proc_ok s d fd" and "kfree s" and "user_addr v" and "fresh_frames s \<noteq> {}"
  shows "\<exists>s'. SetPte (Dir_At d) v pte s = Inr s' \<and> sets_entry s d fd v pte s'
    \<and> (\<exists>N \<subseteq> fresh_frames s. card N \<le> 1 \<and> frames_used (frames s') = frames_used (frames s) \<union> N)"
proof (cases "pde_present (pde_at s fd (directory_entry v))")
  case True
  then obtain s' where "SetPte (Dir_At d) v pte s = Inr s'" "sets_entry s d fd v pte s'" "frames s' = frames s"
    using SetPte_present [OF assms(1-4)] by blast
  then show ?thesis by (intro exI [of _ s'] conjI exI [of _ "{}"]) auto
next
  case False
  then obtain s' f where "SetPte (Dir_At d) v pte s = Inr s'" "sets_entry s d fd v pte s'"
    "f \<in> fresh_frames s" "frames_used (frames s') = insert f (frames_used (frames s))"
    using SetPte_absent [OF assms(1-4) False assms(5)] by blast
  then show ?thesis by (intro exI [of _ s'] conjI exI [of _ "{f}"]) auto
qed

section \<open>Deleting an address space\<close>

lemma GetPte_kernel_half:
  assumes d: "dir_mapped s d fd" and k: "kfree s" and v: "unat (page_no v) < first_page True"
    and t: "pde_present (pde_at s fd (directory_entry v))"
      "page_table_addr (pde_at s fd (directory_entry v)) = kpt_frame s + ucast (directory_entry v)"
  shows "\<exists>s'. GetPte (Dir_At d) v s = Inr (kernel_pte s v, s') \<and> quiet s s'"
proof -
  let ?t = "page_table_addr (pde_at s fd (directory_entry v))"
  have rd: "read_word s (d + 4 * ucast (directory_entry v)) = Inr (pmem s fd (directory_entry v))"
    using d by (simp add: read_word_in_page dir_mapped_def)
  obtain a where a: "AllocateMap (push_bit 12 (ucast ?t)) s
      = Inr (a, set_kernel_pte a (new_pte (push_bit 12 (ucast ?t)) True True False) s)"
    "unat a mod 4096 = 0" "first_page True \<le> unat (page_no a)" "\<not> present (kmap s (page_no a))"
    by (rule AllocateMap_spec [OF k])
  let ?s1 = "set_kernel_pte a (new_pte (push_bit 12 (ucast ?t)) True True False) s"
  have "read_word ?s1 (a + 4 * ucast (table_entry v)) = Inr (pmem ?s1 ?t (table_entry v))"
    using a(2) by (simp add: read_word_in_page new_pte_def)
  moreover have "pte_of_word (pmem ?s1 ?t (table_entry v)) = kernel_pte ?s1 v"
    using t(2) by (simp add: kernel_pte_def)
  moreover have "kernel_pte ?s1 v = kernel_pte s v"
    using v a(3) by (auto simp: kernel_pte_kmap)
  ultimately have "GetPte (Dir_At d) v s = Inr (kernel_pte s v, UnmapFrame_kernel a ?s1)"
    using rd t(1) a(1) by (simp add: GetPte_def pde_at_def Let_def)
  with scratch_quiet [OF a(4)] show ?thesis by blast
qed

text \<open>The upper part of the directory is the kernel's.\<close>

definition shares_kernel :: "vmm \<Rightarrow> 20 word \<Rightarrow> bool" where
  "shares_kernel s fd \<longleftrightarrow> (\<forall>i. 0x300 \<le> unat i \<longrightarrow> pde_present (pde_at s fd i)
      \<and> page_table_addr (pde_at s fd i) = kpt_frame s + ucast i)"

lemma delete_loop_stops:
  assumes "GetPte dir (of_nat page * 0x1000) s = Inr (pte, s')" and "\<not> present pte"
  shows "delete_loop dir (page # pages) s = Inr s'"
  using assms by simp

lemma kernel_page_facts:
  "directory_entry 0 = 0" "page_no 0 = 0" "user_addr 0"
  "directory_entry 0xC0000000 = 0x300" "unat (page_no 0xC0000000) = 0xC0000" "first_page True = 0xC0001"
  "unat ((KERNEL_STATIC_MEM_START AND 0xFFC00000) div 0x1000) = 0xC0000"
  by (simp_all add: directory_entry_def page_no_def user_addr_def first_page_def
      KERNEL_STATIC_MEM_START_def drop_bit_eq_div)

lemma X86DeleteAddressSpace_spec:
  assumes ok: "vmm_ok s" and p: "proc_ok s d fd" and k: "kfree s" and sh: "shares_kernel s fd"
    and z: "\<not> present (umap s fd 0)" and kz: "\<not> present (kernel_pte s 0xC0000000)"
  shows "\<exists>s'. X86DeleteAddressSpace d s = Inr s' \<and> quiet s s'"
proof -
  note pf = proc_ok_facts [OF ok p]
  have t0: "page_table_addr (pde_at s fd (directory_entry 0)) \<notin> kpt_frames s"
    if "pde_present (pde_at s fd (directory_entry 0))"
    using pf(3) [OF _ that] by (simp add: kernel_page_facts)
  obtain s1 where s1: "GetPte (Dir_At d) 0 s = Inr (umap s fd 0, s1)" "quiet s s1"
    using GetPte_spec [OF pf(1) k pf(2) t0] by blast
  obtain m where m: "[0..<0xC0000] = 0 # m"
    by (metis upt_conv_Cons zero_less_numeral)
  have l1: "delete_loop (Dir_At d) [0..<0xC0000] s = Inr s1"
    unfolding m using s1(1) z by (intro delete_loop_stops) simp_all
  have fd1: "pde_at s1 fd = pde_at s fd" using s1(2) pf(2) by (auto simp: quiet_def pde_at_def)
  have k1: "kpt_frame s1 = kpt_frame s" using s1(2) by (simp add: quiet_def)
  have i300: "unat (0x300 :: 10 word) = 0x300" by simp
  obtain s2 where s2: "GetPte (Dir_At d) 0xC0000000 s1 = Inr (kernel_pte s1 0xC0000000, s2)" "quiet s1 s2"
    using GetPte_kernel_half [OF quiet_dir_mapped [OF s1(2) pf(1)], of "0xC0000000"]
      quiet_kfree [OF s1(2)] k sh i300 unfolding shares_kernel_def fd1 k1
    by (auto simp: kernel_page_facts)
  have "\<not> present (kernel_pte s1 0xC0000000)"
    using kz quiet_present [OF s1(2)] by (simp add: kernel_pte_kmap)
  moreover have "rev [1..<n + 1] = n # rev [1..<n]" if "1 \<le> n" for n :: nat using that by simp
  then have "rev [1..<0xC0000 + 1] = 0xC0000 # rev [1..<0xC0000 :: nat]" by (rule meta_spec) simp
  ultimately have "delete_loop (Dir_At d) (rev [1..<0xC0000 + 1]) s1 = Inr s2"
    using s2(1) by (simp only:) (intro delete_loop_stops, simp_all)
  then have "X86DeleteAddressSpace d s = Inr s2"
    using l1 unfolding X86DeleteAddressSpace_def kernel_page_facts Let_def by simp
  then show ?thesis using quiet_trans [OF s1(2) s2(2)] by blast
qed

section \<open>Creating an address space\<close>

definition user_page :: "nat \<Rightarrow> u32" where
  "user_page i = USER_PROCESS_BASE + of_nat i * FRAME_SIZE"

lemma unat_user_page: "i < 0xBFF00 \<Longrightarrow> unat (user_page i) = (0x100 + i) * 4096"
proof -
  assume "i < 0xBFF00"
  then have "unat (of_nat i * 0x1000 :: u32) = i * 4096" by (intro unat_page_addr) simp
  with \<open>i < 0xBFF00\<close> show ?thesis
    by (simp add: user_page_def USER_PROCESS_BASE_def FRAME_SIZE_def unat_word_ariths)
qed

lemma page_no_user_page: "i < 0xBFF00 \<Longrightarrow> unat (page_no (user_page i)) = 0x100 + i"
  by (simp add: unat_page_no unat_user_page)

lemma unat_directory_entry: "unat (directory_entry v) = unat (page_no v) div 1024"
proof -
  have "unat (drop_bit 22 v) = unat v div 4194304"
    using unat_u32_less [of v] unfolding unsigned_drop_bit_eq by (simp add: drop_bit_eq_div take_bit_eq_mod)
  moreover have "unat v div 4194304 < 1024" using unat_u32_less [of v] by simp
  ultimately show ?thesis
    by (simp add: directory_entry_def unat_ucast_mod unat_page_no div_mult2_eq [symmetric])
qed

lemma user_addr_iff: "user_addr v \<longleftrightarrow> unat (page_no v) < 0xC0000"
  unfolding user_addr_def unat_directory_entry by (simp add: div_less_iff_less_mult)

lemma user_addr_user_page: "i < 0xBFF00 \<Longrightarrow> user_addr (user_page i)"
  by (simp add: user_addr_iff page_no_user_page)

definition user_pte :: "PageTableEntry \<Rightarrow> PageTableEntry" where
  "user_pte e = e\<lparr>writable := True, user := True\<rparr>"

abbreviation map_user_body where
  "map_user_body dir k_base \<equiv> \<lambda>i s.
     rbind (GetPte Kernel_Dir (k_base + of_nat i * FRAME_SIZE) s) (\<lambda>(pte, s).
     let pte = pte\<lparr>writable := True\<rparr>; pte = pte\<lparr>user := True\<rparr>
     in SetPte (Dir_At dir) (USER_PROCESS_BASE + of_nat i * FRAME_SIZE) pte s)"

text \<open>The state after \<open>n\<close> pages of a process have been entered, and what it takes to enter another.\<close>

definition user_mapped :: "vmm \<Rightarrow> u32 \<Rightarrow> 20 word \<Rightarrow> u32 \<Rightarrow> nat \<Rightarrow> vmm \<Rightarrow> bool" where
  "user_mapped s d fd k_base n s' \<longleftrightarrow> kquiet s s' \<and> vmm_ok s' \<and> proc_ok s' d fd
     \<and> frames_all (frames s') = frames_all (frames s) \<and> frames_used (frames s) \<subseteq> frames_used (frames s')
     \<and> card (fresh_frames s) \<le> card (fresh_frames s') + n
     \<and> (\<forall>u. user_addr u \<longrightarrow> umap s' fd u =
          (if 0x100 \<le> unat (page_no u) \<and> unat (page_no u) < 0x100 + n
           then user_pte (kernel_pte s (k_base + of_nat (unat (page_no u) - 0x100) * FRAME_SIZE)) else umap s fd u))
     \<and> (\<forall>i. 0x300 \<le> unat i \<longrightarrow> pmem s' fd i = pmem s fd i)
     \<and> dir_frames s' fd \<subseteq> dir_frames s fd \<union> {f. frame_base f \<in> fresh_frames s}
     \<and> (\<forall>f. frame_base f \<notin> fresh_frames s \<and> f \<notin> kpt_frames s \<and> f \<notin> dir_frames s fd \<longrightarrow> pmem s' f = pmem s f)"

lemma fresh_antimono:
  "frames_all (frames s') = frames_all (frames s) \<Longrightarrow> frames_used (frames s) \<subseteq> frames_used (frames s')
     \<Longrightarrow> fresh_frames s' \<subseteq> fresh_frames s"
  by (auto simp: fresh_frames_def)

lemma card_fresh_step:
  assumes "N \<subseteq> fresh_frames s" and "card N \<le> 1"
    and "frames_used (frames s') = frames_used (frames s) \<union> N" and "frames_all (frames s') = frames_all (frames s)"
  shows "card (fresh_frames s) \<le> card (fresh_frames s') + 1"
proof -
  have "fresh_frames s' = fresh_frames s - N" using assms(3,4) by (auto simp: fresh_frames_def)
  then have "card (fresh_frames s') = card (fresh_frames s) - card N"
    using assms(1) by (simp add: card_Diff_subset finite_subset)
  with assms(2) show ?thesis by simp
qed

lemma map_user_pages:
  assumes ok: "vmm_ok s" and p: "proc_ok s d fd" and k: "kfree s" and n: "n \<le> 0xBFF00" "n \<le> card (fresh_frames s)"
    and src: "\<forall>i < n. present (kernel_pte s (k_base + of_nat i * FRAME_SIZE))"
  shows "\<exists>s'. rfold (map_user_body d k_base) [0..<n] s = Inr s' \<and> user_mapped s d fd k_base n s'"
  using n src
proof (induction n)
  case 0
  then show ?case using ok p by (auto simp: user_mapped_def)
next
  case (Suc n)
  then obtain s1 where 1: "rfold (map_user_body d k_base) [0..<n] s = Inr s1" "user_mapped s d fd k_base n s1"
    by auto
  have m: "kquiet s s1" "vmm_ok s1" "proc_ok s1 d fd" "card (fresh_frames s) \<le> card (fresh_frames s1) + n"
    using 1(2) by (auto simp: user_mapped_def)
  have k1: "kfree s1" using kquiet_facts(4) [OF m(1)] k by simp
  have fr: "fresh_frames s1 \<noteq> {}" using m(4) Suc.prems(2) by auto
  let ?v = "user_page n" and ?e = "user_pte (kernel_pte s (k_base + of_nat n * FRAME_SIZE))"
  have ke: "kernel_pte s1 (k_base + of_nat n * FRAME_SIZE) = kernel_pte s (k_base + of_nat n * FRAME_SIZE)"
    using kquiet_facts(3) [OF m(1)] Suc.prems(3) by (simp add: kernel_pte_kmap)
  have nv: "n < 0xBFF00" using Suc.prems(1) by simp
  obtain s2 N where s2: "SetPte (Dir_At d) ?v ?e s1 = Inr s2" "sets_entry s1 d fd ?v ?e s2"
    "N \<subseteq> fresh_frames s1" "card N \<le> 1" "frames_used (frames s2) = frames_used (frames s1) \<union> N"
    using SetPte_spec [OF m(2,3) k1 user_addr_user_page [OF nv] fr] by blast
  have step: "map_user_body d k_base n s1 = Inr s2"
    using s2(1) ke by (simp add: GetPte_def user_page_def user_pte_def)
  have c: "card (fresh_frames s1) \<le> card (fresh_frames s2) + 1"
    using s2(2) by (intro card_fresh_step [OF s2(3,4,5)]) (simp add: sets_entry_def)
  have fs: "fresh_frames s1 \<subseteq> fresh_frames s" using 1(2) by (intro fresh_antimono) (auto simp: user_mapped_def)
  have "user_mapped s d fd k_base (Suc n) s2"
    unfolding user_mapped_def
  proof (intro conjI allI impI)
    show "kquiet s s2" using kquiet_trans [OF m(1)] s2(2) by (simp add: sets_entry_def)
    show "vmm_ok s2" "proc_ok s2 d fd" using s2(2) by (simp_all add: sets_entry_def)
    show "frames_all (frames s2) = frames_all (frames s)" "frames_used (frames s) \<subseteq> frames_used (frames s2)"
      using s2(2) 1(2) by (auto simp: sets_entry_def user_mapped_def)
    show "card (fresh_frames s) \<le> card (fresh_frames s2) + Suc n" using m(4) c by simp
    show "pmem s2 fd i = pmem s fd i" if "0x300 \<le> unat i" for i
      using that s2(2) 1(2) by (simp add: sets_entry_def user_mapped_def)
    show "dir_frames s2 fd \<subseteq> dir_frames s fd \<union> {f. frame_base f \<in> fresh_frames s}"
      using s2(2) 1(2) fs unfolding sets_entry_def user_mapped_def by blast
    show "pmem s2 f = pmem s f" if "frame_base f \<notin> fresh_frames s \<and> f \<notin> kpt_frames s \<and> f \<notin> dir_frames s fd" for f
    proof -
      have "f \<notin> dir_frames s1 fd" using that 1(2) unfolding user_mapped_def by blast
      with that fs s2(2) kquiet_facts(1) [OF m(1)] have "pmem s2 f = pmem s1 f"
        unfolding sets_entry_def by blast
      then show ?thesis using that 1(2) by (simp add: user_mapped_def)
    qed
    show "umap s2 fd u = (if 0x100 \<le> unat (page_no u) \<and> unat (page_no u) < 0x100 + Suc n
           then user_pte (kernel_pte s (k_base + of_nat (unat (page_no u) - 0x100) * FRAME_SIZE)) else umap s fd u)"
      if u: "user_addr u" for u
    proof -
      have sp: "page_no u = page_no ?v \<longleftrightarrow> unat (page_no u) = 0x100 + n"
        using page_no_user_page [OF nv] by (metis word_unat_eq_iff)
      have "umap s2 fd u = (if page_no u = page_no ?v then ?e else umap s1 fd u)"
        using s2(2) u by (simp add: sets_entry_def)
      moreover have "umap s1 fd u = (if 0x100 \<le> unat (page_no u) \<and> unat (page_no u) < 0x100 + n
           then user_pte (kernel_pte s (k_base + of_nat (unat (page_no u) - 0x100) * FRAME_SIZE)) else umap s fd u)"
        using 1(2) u by (simp add: user_mapped_def)
      ultimately show ?thesis
      proof (cases "unat (page_no u) = 0x100 + n")
        case True
        then have i: "unat (page_no u) - 0x100 = n" by simp
        have "umap s2 fd u = ?e" using \<open>umap s2 fd u = _\<close> True sp by simp
        then show ?thesis unfolding i using True by simp
      next
        case False
        then show ?thesis using \<open>umap s2 fd u = _\<close> \<open>umap s1 fd u = _\<close> sp by auto
      qed
    qed
  qed
  then show ?case using 1(1) step by (auto simp: rfold_append)
qed

text \<open>Two kernel pages are left: one for the directory, one for temporary mappings.\<close>

definition kfree2 :: "vmm \<Rightarrow> bool" where
  "kfree2 s \<longleftrightarrow> (\<exists>t t'. t \<noteq> t' \<and> first_page True \<le> t \<and> first_page True \<le> t' \<and> free_pages s t 1 \<and> free_pages s t' 1)"

lemma kfree2_kfree: "kfree2 s \<Longrightarrow> kfree s"
  by (auto simp: kfree2_def kfree_def)

lemma free_page_iff: "free_pages s t 1 \<longleftrightarrow> t < 1048576 \<and> \<not> present (kmap s (of_nat t))"
  by (auto simp: free_pages_def)

lemma kfree_after_map:
  assumes "kfree2 s" and "kmap s' = (kmap s)(p := e)"
  shows "kfree s'"
proof -
  obtain t t' where t: "t \<noteq> t'" "first_page True \<le> t" "first_page True \<le> t'" "free_pages s t 1" "free_pages s t' 1"
    using assms(1) by (auto simp: kfree2_def)
  have lt: "t < 1048576" "t' < 1048576" using t(4,5) by (simp_all only: free_page_iff)
  define q where "q = (if of_nat t = p then t' else t)"
  have q: "first_page True \<le> q" "free_pages s q 1" using t by (simp_all add: q_def)
  have "of_nat q \<noteq> p"
  proof (cases "of_nat t = p")
    case True
    then have "unat p = t" using lt by (auto simp: unat_of_nat_less)
    then have "unat (of_nat t' :: 20 word) \<noteq> unat p" using lt t(1) by (simp add: unat_of_nat_less)
    with True show ?thesis by (auto simp: q_def)
  qed (simp add: q_def)
  then have "free_pages s' q 1" using q(2) unfolding free_page_iff assms(2) by simp
  with q(1) show ?thesis by (auto simp: kfree_def)
qed

lemma of_nat_as_ucast: "i < 1024 \<Longrightarrow> (of_nat i :: u32) = ucast (of_nat i :: 10 word)"
  by (simp add: word_unat_eq_iff unat_of_nat_less unat_ucast_mod)

lemma copy_kernel_pdes:
  assumes d: "dir_mapped s d fd" and fd: "fd \<notin> kpt_frames s" "fd \<noteq> kpd_frame s" and m: "a \<le> m" "m \<le> 1024"
  shows "\<exists>s'. rfold (\<lambda>i s. write_word (d + 4 * of_nat i) (pmem s (kpd_frame s) (of_nat i)) s) [a..<m] s = Inr s'
    \<and> kmap s' = kmap s \<and> frames s' = frames s \<and> kpt_frame s' = kpt_frame s \<and> kpd_frame s' = kpd_frame s
    \<and> current_page_directory s' = current_page_directory s \<and> cr3 s' = cr3 s
    \<and> (\<forall>f. f \<noteq> fd \<longrightarrow> pmem s' f = pmem s f)
    \<and> (\<forall>i. pmem s' fd i = (if a \<le> unat i \<and> unat i < m then pmem s (kpd_frame s) i else pmem s fd i))"
  using m
proof (induction m rule: dec_induct)
  case base
  then show ?case by auto
next
  case (step m)
  then obtain s1 where 1: "rfold (\<lambda>i s. write_word (d + 4 * of_nat i) (pmem s (kpd_frame s) (of_nat i)) s) [a..<m] s = Inr s1"
    "kmap s1 = kmap s" "frames s1 = frames s" "kpt_frame s1 = kpt_frame s" "kpd_frame s1 = kpd_frame s"
    "current_page_directory s1 = current_page_directory s" "cr3 s1 = cr3 s" "\<forall>f. f \<noteq> fd \<longrightarrow> pmem s1 f = pmem s f"
    "\<forall>i. pmem s1 fd i = (if a \<le> unat i \<and> unat i < m then pmem s (kpd_frame s) i else pmem s fd i)"
    by auto
  have u: "unat (of_nat m :: 10 word) = m" using step.prems by (intro unat_of_nat_less) simp
  have fd1: "fd \<notin> kpt_frames s1" using fd(1) 1(4) by (simp add: kpt_frames_def)
  let ?s = "set_word fd (of_nat m) (pmem s1 (kpd_frame s1) (of_nat m)) s1"
  have "write_word (d + 4 * of_nat m) (pmem s1 (kpd_frame s1) (of_nat m)) s1 = Inr ?s"
    unfolding of_nat_as_ucast [of m, OF Suc_le_lessD [OF step.prems]]
    using d 1(2) by (simp add: write_word_in_page dir_mapped_def)
  moreover have "pmem ?s fd i = (if a \<le> unat i \<and> unat i < Suc m then pmem s (kpd_frame s) i else pmem s fd i)" for i
  proof (cases "i = of_nat m")
    case True
    then show ?thesis using step.hyps 1(5,8) fd(2) u by simp
  next
    case False
    then have "unat i \<noteq> m" using u by (auto simp: word_unat_eq_iff)
    with False show ?thesis using 1(9) by auto
  qed
  ultimately show ?case using step.hyps 1 fd1 by (simp add: rfold_append)
qed

text \<open>
  A directory as \<open>MapProcess\<close> leaves it: the \<open>n\<close> pages from the user base are those the kernel has
  at \<open>k_base\<close>, writable and accessible to user code, no other user page is mapped, and the upper
  entries are the kernel's. The kernel's own mapping gains only the page of the directory.
\<close>

definition process_space :: "vmm \<Rightarrow> u32 \<Rightarrow> nat \<Rightarrow> u32 \<Rightarrow> 20 word \<Rightarrow> vmm \<Rightarrow> bool" where
  "process_space s k_base n d fd s' \<longleftrightarrow> vmm_ok s' \<and> proc_ok s' d fd
     \<and> frames_all (frames s') = frames_all (frames s) \<and> frames_used (frames s) \<subseteq> frames_used (frames s')
     \<and> frame_base fd \<in> fresh_frames s \<and> \<not> present (kmap s (page_no d))
     \<and> (\<forall>u. user_addr u \<longrightarrow> umap s' fd u =
          (if 0x100 \<le> unat (page_no u) \<and> unat (page_no u) < 0x100 + n
           then user_pte (kernel_pte s (k_base + of_nat (unat (page_no u) - 0x100) * FRAME_SIZE)) else zero_pte))
     \<and> (\<forall>i. 0x300 \<le> unat i \<longrightarrow> pmem s' fd i = pmem s (kpd_frame s) i)
     \<and> kpt_frame s' = kpt_frame s \<and> kpd_frame s' = kpd_frame s
     \<and> current_page_directory s' = current_page_directory s"

text \<open>The first steps of \<open>MapProcess\<close>: a new frame, mapped in the kernel and zeroed.\<close>

abbreviation new_directory :: "vmm \<Rightarrow> (u32 \<times> vmm) res" where
  "new_directory s \<equiv> rbind (PhysAllocateFrame s) (\<lambda>(phys, s). rbind (AllocateMap phys s) (\<lambda>(dir, s).
     rbind (zero_page dir s) (\<lambda>s. Inr (dir, s))))"

definition empty_directory :: "vmm \<Rightarrow> u32 \<Rightarrow> 20 word \<Rightarrow> vmm \<Rightarrow> bool" where
  "empty_directory s d fd s' \<longleftrightarrow> vmm_ok s' \<and> proc_ok s' d fd \<and> kfree s'
     \<and> frame_base fd \<in> fresh_frames s \<and> fd \<notin> kpt_frames s \<and> fd \<noteq> kpd_frame s \<and> \<not> present (kmap s (page_no d))
     \<and> frames_all (frames s') = frames_all (frames s) \<and> fresh_frames s' = fresh_frames s - {frame_base fd}
     \<and> frames_used (frames s) \<subseteq> frames_used (frames s')
     \<and> (\<forall>i. \<not> pde_present (pde_at s' fd i)) \<and> (\<exists>e. kmap s' = (kmap s)(page_no d := e))
     \<and> kpt_frame s' = kpt_frame s \<and> kpd_frame s' = kpd_frame s
     \<and> current_page_directory s' = current_page_directory s \<and> pmem s' (kpd_frame s) = pmem s (kpd_frame s)"

lemma new_directory_spec:
  assumes ok: "vmm_ok s" and k: "kfree2 s" and fresh: "fresh_frames s \<noteq> {}"
  shows "\<exists>d fd s'. new_directory s = Inr (d, s') \<and> empty_directory s d fd s'"
proof -
  have wf: "phys_wf (frames s)" using ok by (simp add: vmm_ok_def)
  obtain b f where a: "X86PhysAllocateFrame (frames s) = Inr (b, f)" "phys_wf b" "frames_all b = frames_all (frames s)"
    "if f = 0 then frames_used (frames s) = frames_all (frames s) \<and> frames_used b = frames_used (frames s)
     else f \<in> frames_all (frames s) - frames_used (frames s) \<and> frames_used b = insert f (frames_used (frames s))"
    using phys_frames.alloc_spec [OF wf] by blast
  have f0: "f \<noteq> 0" using a(4) fresh by (auto simp: fresh_frames_def)
  then have f: "f \<in> fresh_frames s" "frames_used b = insert f (frames_used (frames s))"
    using a(4) by (simp_all add: fresh_frames_def)
  then have fa: "f \<in> frames_all (frames s)" by (simp add: fresh_frames_def)
  let ?fd = "page_no f" and ?s0 = "s\<lparr>frames := b\<rparr>"
  have "f mod 4096 = 0" using phys_frames.all_frames_shape [OF wf fa] by simp
  then have bt: "frame_base ?fd = f" using frame_roundtrip [of f] by (simp add: frame_base_def page_no_def)
  have fdk: "?fd \<notin> kpt_frames s" "?fd \<noteq> kpd_frame s" using ok fa bt unfolding vmm_ok_def by (metis insertCI)+
  have k0: "kfree2 ?s0" using k by (simp add: kfree2_def free_pages_def)
  obtain d where d: "AllocateMap f ?s0 = Inr (d, set_kernel_pte d (new_pte f True True False) ?s0)"
    "unat d mod 4096 = 0" "\<not> present (kmap ?s0 (page_no d))"
    by (rule AllocateMap_spec [OF kfree2_kfree [OF k0]])
  let ?s1 = "set_kernel_pte d (new_pte f True True False) ?s0"
  let ?s2 = "?s1\<lparr>pmem := (pmem ?s1)(?fd := (\<lambda>_. 0))\<rparr>"
  have run: "new_directory s = Inr (d, ?s2)"
    using a(1) d(1) by (simp add: PhysAllocateFrame_def zero_page_def virt_frame_def kernel_pte_kmap new_pte_def page_no_def)
  have kpt2: "kpt_frames ?s2 = kpt_frames s" by (simp add: kpt_frames_def)
  have km2: "kmap ?s2 = (kmap s)(page_no d := new_pte f True True False)"
    using fdk(1) kpt2 by (simp add: kpt_frames_def)
  have pde2: "\<not> pde_present (pde_at ?s2 ?fd i)" for i by (simp add: pde_at_def pde_of_word_def)
  have "dir_mapped ?s2 d ?fd" using d(2) km2 by (simp add: dir_mapped_def new_pte_def page_no_def)
  then have "proc_ok ?s2 d ?fd" using pde2 f(2) bt by (simp add: proc_ok_def)
  moreover have "pmem ?s2 (kpd_frame s) = pmem s (kpd_frame s)"
    using pmem_set_kernel_pte [of "kpd_frame s" ?s0 d] ok fdk(2) by (simp add: vmm_ok_def kpt_frames_def)
  moreover have "fresh_frames ?s2 = fresh_frames s - {f}" using a(3) f by (auto simp: fresh_frames_def)
  moreover have "vmm_ok ?s2" using ok a(2,3) kpt2 by (simp add: vmm_ok_def)
  ultimately have "empty_directory s d ?fd ?s2"
    unfolding empty_directory_def using kfree_after_map [OF k km2] pde2 fdk bt f d(3) a(3) km2
    by (auto simp del: fun_upd_apply)
  with run show ?thesis by blast
qed

text \<open>The last step: the kernel's entries are copied into the upper part of the directory.\<close>

lemma share_kernel_spec:
  assumes ok: "vmm_ok s" and p: "proc_ok s d fd"
  shows "\<exists>s'. rfold (\<lambda>i s. write_word (d + 4 * of_nat i) (pmem s (kpd_frame s) (of_nat i)) s) [0x300..<1024] s = Inr s'
    \<and> vmm_ok s' \<and> proc_ok s' d fd \<and> kmap s' = kmap s \<and> frames s' = frames s
    \<and> kpt_frame s' = kpt_frame s \<and> kpd_frame s' = kpd_frame s \<and> current_page_directory s' = current_page_directory s
    \<and> (\<forall>u. user_addr u \<longrightarrow> umap s' fd u = umap s fd u)
    \<and> (\<forall>i. 0x300 \<le> unat i \<longrightarrow> pmem s' fd i = pmem s (kpd_frame s) i)"
proof -
  note pf = proc_ok_facts [OF ok p]
  have "frame_base fd \<in> frames_used (frames s)" using p by (simp add: proc_ok_def)
  then have nk: "fd \<noteq> kpd_frame s" using used_not_kpt [OF ok] by blast
  obtain s' where s': "rfold (\<lambda>i s. write_word (d + 4 * of_nat i) (pmem s (kpd_frame s) (of_nat i)) s) [0x300..<1024] s = Inr s'"
    "kmap s' = kmap s" "frames s' = frames s" "kpt_frame s' = kpt_frame s" "kpd_frame s' = kpd_frame s"
    "current_page_directory s' = current_page_directory s" "\<forall>f. f \<noteq> fd \<longrightarrow> pmem s' f = pmem s f"
    "\<forall>i. pmem s' fd i = (if 0x300 \<le> unat i \<and> unat i < 1024 then pmem s (kpd_frame s) i else pmem s fd i)"
    using copy_kernel_pdes [OF pf(1,2) nk, of "0x300" 1024] by auto
  have low: "pde_at s' fd i = pde_at s fd i" if "unat i < 0x300" for i using that s'(8) by (simp add: pde_at_def)
  have um: "umap s' fd u = umap s fd u" if "user_addr u" for u
  proof -
    have i: "unat (directory_entry u) < 0x300" using that by (simp add: user_addr_def)
    show ?thesis using s'(7) low [OF i] pf(3) [OF i] by (simp add: umap_def Let_def)
  qed
  have "kpt_frames s' = kpt_frames s" using s'(4) by (simp add: kpt_frames_def)
  then have "vmm_ok s'" using ok s'(3,5) by (simp add: vmm_ok_def)
  moreover have "proc_ok s' d fd" using p low s'(2,3) unfolding proc_ok_def dir_mapped_def by metis
  moreover have "pmem s' fd i = pmem s (kpd_frame s) i" if "0x300 \<le> unat i" for i
    using s'(8) that unat_less [of i] by simp
  ultimately show ?thesis using s' um by blast
qed

lemma MapProcess_split:
  "MapProcess k_base n s = rbind (new_directory s) (\<lambda>(dir, s).
     rbind (rfold (map_user_body dir k_base) [0..<unat n] s) (\<lambda>s.
     rbind (rfold (\<lambda>i s. write_word (dir + 4 * of_nat i) (pmem s (kpd_frame s) (of_nat i)) s) [0x300..<1024] s)
       (\<lambda>s. Inr (dir, s))))"
proof -
  have first: "unat (drop_bit 22 KERNEL_STATIC_MEM_START) = 0x300"
    by (simp add: KERNEL_STATIC_MEM_START_def drop_bit_eq_div)
  show ?thesis
    unfolding MapProcess_def first Let_def by (simp add: rbind_assoc case_prod_unfold cong: rbind_cong del: upt_rec_numeral)
qed

lemma MapProcess_spec:
  assumes ok: "vmm_ok s" and k: "kfree2 s" and n: "unat n \<le> 0xBFF00" "unat n < card (fresh_frames s)"
    and src: "\<forall>i < unat n. present (kernel_pte s (k_base + of_nat i * FRAME_SIZE))"
  shows "\<exists>d fd s'. MapProcess k_base n s = Inr (d, s') \<and> process_space s k_base (unat n) d fd s'
     \<and> (\<forall>p. present (kmap s p) \<longrightarrow> kmap s' p = kmap s p)"
proof -
  obtain d fd s2 where s2: "new_directory s = Inr (d, s2)" and e: "empty_directory s d fd s2"
    using new_directory_spec [OF ok k] n(2) by fastforce
  have e': "vmm_ok s2" "proc_ok s2 d fd" "kfree s2" "kpt_frames s2 = kpt_frames s"
    using e by (simp_all add: empty_directory_def kpt_frames_def)
  have pk: "kmap s2 p = kmap s p" if "present (kmap s p)" for p
    using that e by (auto simp: empty_directory_def)
  have src2: "\<forall>i < unat n. present (kernel_pte s2 (k_base + of_nat i * FRAME_SIZE))"
    using src pk unfolding kernel_pte_kmap by metis
  have n2: "unat n \<le> card (fresh_frames s2)"
    using n(2) e by (simp add: empty_directory_def card_Diff_singleton)
  obtain s3 where s3: "rfold (map_user_body d k_base) [0..<unat n] s2 = Inr s3" and m: "user_mapped s2 d fd k_base (unat n) s3"
    using map_user_pages [OF e'(1-3) n(1) n2 src2] by blast
  have m': "kquiet s2 s3" "vmm_ok s3" "proc_ok s3 d fd" using m by (auto simp: user_mapped_def)
  obtain s4 where s4: "rfold (\<lambda>i s. write_word (d + 4 * of_nat i) (pmem s (kpd_frame s) (of_nat i)) s) [0x300..<1024] s3 = Inr s4"
    and h: "vmm_ok s4" "proc_ok s4 d fd" "kmap s4 = kmap s3" "frames s4 = frames s3" "kpt_frame s4 = kpt_frame s3"
      "kpd_frame s4 = kpd_frame s3" "current_page_directory s4 = current_page_directory s3"
      "\<forall>u. user_addr u \<longrightarrow> umap s4 fd u = umap s3 fd u"
      "\<forall>i. 0x300 \<le> unat i \<longrightarrow> pmem s4 fd i = pmem s3 (kpd_frame s3) i"
    using share_kernel_spec [OF m'(2,3)] by blast
  have um: "umap s4 fd u = (if 0x100 \<le> unat (page_no u) \<and> unat (page_no u) < 0x100 + unat n
           then user_pte (kernel_pte s (k_base + of_nat (unat (page_no u) - 0x100) * FRAME_SIZE)) else zero_pte)"
    if u: "user_addr u" for u
  proof -
    have z: "umap s2 fd u = zero_pte" using e by (simp add: empty_directory_def umap_def)
    have "kernel_pte s2 (k_base + of_nat j * FRAME_SIZE) = kernel_pte s (k_base + of_nat j * FRAME_SIZE)"
      if "j < unat n" for j using src that pk unfolding kernel_pte_kmap by blast
    moreover have "umap s3 fd u = (if 0x100 \<le> unat (page_no u) \<and> unat (page_no u) < 0x100 + unat n
           then user_pte (kernel_pte s2 (k_base + of_nat (unat (page_no u) - 0x100) * FRAME_SIZE)) else umap s2 fd u)"
      using m u unfolding user_mapped_def by blast
    ultimately show ?thesis using h(8) u z by (auto simp del: of_nat_diff)
  qed
  have "kpd_frame s \<notin> kpt_frames s" "frame_base (kpd_frame s) \<notin> fresh_frames s2" "kpd_frame s \<notin> dir_frames s2 fd"
    using ok e by (auto simp: vmm_ok_def empty_directory_def fresh_frames_def dir_frames_def)
  then have "pmem s3 (kpd_frame s) = pmem s2 (kpd_frame s)" using m e'(4) unfolding user_mapped_def by blast
  then have hi: "pmem s4 fd i = pmem s (kpd_frame s) i" if "0x300 \<le> unat i" for i
    using that h(9) m'(1) e by (simp add: kquiet_def empty_directory_def)
  have fr: "frames_all (frames s4) = frames_all (frames s)" "frames_used (frames s) \<subseteq> frames_used (frames s4)"
    using h(4) m e unfolding user_mapped_def empty_directory_def by auto
  have st: "frame_base fd \<in> fresh_frames s" "\<not> present (kmap s (page_no d))" "kpt_frame s4 = kpt_frame s"
    "kpd_frame s4 = kpd_frame s" "current_page_directory s4 = current_page_directory s"
    using h(5-7) m'(1) e by (simp_all add: kquiet_def empty_directory_def)
  have "process_space s k_base (unat n) d fd s4"
    unfolding process_space_def using h(1,2) fr st um hi by blast
  moreover have "kmap s4 p = kmap s p" if "present (kmap s p)" for p
    using that pk [OF that] h(3) kquiet_facts(3) [OF m'(1), of p] by simp
  moreover have "MapProcess k_base n s = Inr (d, s4)"
    unfolding MapProcess_split s2 using s3 s4 by simp
  ultimately show ?thesis by blast
qed

text \<open>\<open>X86CreateAddressSpace\<close> then takes the moved pages out of the kernel's mapping.\<close>

definition moved :: "u32 \<Rightarrow> nat \<Rightarrow> (20 word) set" where
  "moved k_base n = (\<lambda>i. page_no (k_base + of_nat i * FRAME_SIZE)) ` {..<n}"

lemma unmap_kernel_pages:
  "\<exists>s'. rfold (\<lambda>i s. UnmapFrame (k_base + of_nat i * FRAME_SIZE) Kernel_Dir s) [0..<n] s = Inr s'
     \<and> (\<forall>p. kmap s' p = (if p \<in> moved k_base n then zero_pte else kmap s p))
     \<and> frames s' = frames s \<and> kpt_frame s' = kpt_frame s \<and> kpd_frame s' = kpd_frame s
     \<and> current_page_directory s' = current_page_directory s
     \<and> (\<forall>f. f \<notin> kpt_frames s \<longrightarrow> pmem s' f = pmem s f)"
proof (induction n)
  case 0
  then show ?case by (simp add: moved_def)
next
  case (Suc n)
  then obtain s1 where 1: "rfold (\<lambda>i s. UnmapFrame (k_base + of_nat i * FRAME_SIZE) Kernel_Dir s) [0..<n] s = Inr s1"
    "\<forall>p. kmap s1 p = (if p \<in> moved k_base n then zero_pte else kmap s p)" "frames s1 = frames s"
    "kpt_frame s1 = kpt_frame s" "kpd_frame s1 = kpd_frame s" "current_page_directory s1 = current_page_directory s"
    "\<forall>f. f \<notin> kpt_frames s \<longrightarrow> pmem s1 f = pmem s f" by blast
  let ?v = "k_base + of_nat n * FRAME_SIZE" and ?s = "set_kernel_pte (k_base + of_nat n * FRAME_SIZE) zero_pte s1"
  have "moved k_base (Suc n) = insert (page_no ?v) (moved k_base n)" by (simp add: moved_def lessThan_Suc)
  moreover have "pmem ?s f = pmem s f" if "f \<notin> kpt_frames s" for f
    using that 1(4,7) pmem_set_kernel_pte [of f s1] by (simp add: kpt_frames_def)
  ultimately show ?case using 1 by (simp add: rfold_append UnmapFrame_Kernel)
qed

lemma process_space_unmap:
  assumes ps: "process_space s k_base n d fd s1" and src: "\<forall>p \<in> moved k_base n. present (kmap s p)"
    and km: "\<forall>p. kmap s' p = (if p \<in> moved k_base n then zero_pte else kmap s1 p)"
    and same: "frames s' = frames s1" "kpt_frame s' = kpt_frame s1" "kpd_frame s' = kpd_frame s1"
      "current_page_directory s' = current_page_directory s1" "\<forall>f. f \<notin> kpt_frames s1 \<longrightarrow> pmem s' f = pmem s1 f"
  shows "process_space s k_base n d fd s'"
proof -
  have ok: "vmm_ok s1" and p: "proc_ok s1 d fd" using ps by (simp_all add: process_space_def)
  note pf = proc_ok_facts [OF ok p]
  have pd: "pde_at s' fd = pde_at s1 fd" and pm: "pmem s' fd = pmem s1 fd"
    using same(5) pf(2) by (auto simp: pde_at_def)
  have "page_no d \<notin> moved k_base n" using ps src by (auto simp: process_space_def)
  then have "dir_mapped s' d fd" using pf(1) km by (simp add: dir_mapped_def)
  then have p': "proc_ok s' d fd" using p unfolding proc_ok_def pd same(1) by blast
  have "kpt_frames s' = kpt_frames s1" using same(2) by (simp add: kpt_frames_def)
  then have ok': "vmm_ok s'" using ok same(1,3) by (simp add: vmm_ok_def)
  have um: "umap s' fd u = umap s1 fd u" if "user_addr u" for u
  proof -
    have i: "unat (directory_entry u) < 0x300" using that by (simp add: user_addr_def)
    show ?thesis using same(5) pf(3) [OF i] unfolding umap_def pd by (simp add: Let_def)
  qed
  show ?thesis using ps ok' p' um unfolding process_space_def same(1-4) pm by simp
qed

lemma X86CreateAddressSpace_spec:
  assumes "vmm_ok s" and "kfree2 s" and "unat n \<le> 0xBFF00" and "unat n < card (fresh_frames s)"
    and src: "\<forall>i < unat n. present (kernel_pte s (k_base + of_nat i * FRAME_SIZE))"
  shows "\<exists>d fd s'. X86CreateAddressSpace k_base n s = Inr (d, s') \<and> process_space s k_base (unat n) d fd s'
     \<and> (\<forall>p. present (kmap s p) \<longrightarrow> kmap s' p = (if p \<in> moved k_base (unat n) then zero_pte else kmap s p))"
proof -
  obtain d fd s1 where 1: "MapProcess k_base n s = Inr (d, s1)" "process_space s k_base (unat n) d fd s1"
    "\<forall>p. present (kmap s p) \<longrightarrow> kmap s1 p = kmap s p"
    using MapProcess_spec [OF assms] by blast
  obtain s' where s': "rfold (\<lambda>i s. UnmapFrame (k_base + of_nat i * FRAME_SIZE) Kernel_Dir s) [0..<unat n] s1 = Inr s'"
    "\<forall>p. kmap s' p = (if p \<in> moved k_base (unat n) then zero_pte else kmap s1 p)"
    "frames s' = frames s1" "kpt_frame s' = kpt_frame s1" "kpd_frame s' = kpd_frame s1"
    "current_page_directory s' = current_page_directory s1" "\<forall>f. f \<notin> kpt_frames s1 \<longrightarrow> pmem s' f = pmem s1 f"
    using unmap_kernel_pages [of k_base "unat n" s1] by blast
  have "\<forall>p \<in> moved k_base (unat n). present (kmap s p)" using src by (auto simp: moved_def kernel_pte_kmap)
  then have "process_space s k_base (unat n) d fd s'" using process_space_unmap [OF 1(2) _ s'(2-7)] by blast
  moreover have "X86CreateAddressSpace k_base n s = Inr (d, s')" using 1(1) s'(1) by (simp add: X86CreateAddressSpace_def)
  moreover have "kmap s' p = (if p \<in> moved k_base (unat n) then zero_pte else kmap s p)" if "present (kmap s p)" for p
    using s'(2) 1(3) that by simp
  ultimately show ?thesis by blast
qed

section \<open>Creating a stack\<close>

definition stack_mapped :: "vmm \<Rightarrow> u32 \<Rightarrow> 20 word \<Rightarrow> nat \<Rightarrow> u32 list \<Rightarrow> vmm \<Rightarrow> bool" where
  "stack_mapped s d fd b fs s' \<longleftrightarrow> kquiet s s' \<and> vmm_ok s' \<and> proc_ok s' d fd
     \<and> distinct fs \<and> set fs \<subseteq> fresh_frames s \<and> set fs \<subseteq> frames_used (frames s')
     \<and> frames_all (frames s') = frames_all (frames s) \<and> frames_used (frames s) \<subseteq> frames_used (frames s')
     \<and> card (fresh_frames s) \<le> card (fresh_frames s') + 2 * length fs
     \<and> (\<forall>u. user_addr u \<longrightarrow> umap s' fd u =
          (if b \<le> unat (page_no u) \<and> unat (page_no u) < b + length fs
           then new_pte (fs ! (unat (page_no u) - b)) True True True else umap s fd u))"

lemma create_stack_loop_append:
  "create_stack_loop bottom dir (xs @ ys) s =
     rbind (create_stack_loop bottom dir xs s) (\<lambda>(ok, s). if ok then create_stack_loop bottom dir ys s else Inr (False, s))"
proof (induction xs arbitrary: s)
  case (Cons x xs)
  then show ?case
    by (auto simp: rbind_assoc case_prod_unfold intro!: rbind_cong)
qed simp

lemma stack_step:
  assumes m: "stack_mapped s d fd b fs s1" and k: "kfree s" and c: "2 * Suc (length fs) \<le> card (fresh_frames s)"
    and b: "0 < b" "b + length fs < 0xC0000"
  shows "\<exists>f s2. create_stack_loop (of_nat b * 0x1000) (Dir_At d) [length fs] s1 = Inr (True, s2)
     \<and> stack_mapped s d fd b (fs @ [f]) s2"
proof -
  let ?n = "length fs" and ?v = "of_nat b * 0x1000 + of_nat (length fs) * 0x1000 :: u32"
  have m': "kquiet s s1" "vmm_ok s1" "proc_ok s1 d fd" "card (fresh_frames s) \<le> card (fresh_frames s1) + 2 * ?n"
    "frames_all (frames s1) = frames_all (frames s)" "frames_used (frames s) \<subseteq> frames_used (frames s1)"
    "distinct fs" "set fs \<subseteq> fresh_frames s" "set fs \<subseteq> frames_used (frames s1)"
    using m by (simp_all add: stack_mapped_def)
  have two: "2 \<le> card (fresh_frames s1)" using m'(4) c by simp
  then have ne: "fresh_frames s1 \<noteq> {}" by auto
  have wf: "phys_wf (frames s1)" using m'(2) by (simp add: vmm_ok_def)
  obtain bm f where a: "X86PhysAllocateFrame (frames s1) = Inr (bm, f)" "phys_wf bm" "frames_all bm = frames_all (frames s1)"
    "if f = 0 then frames_used (frames s1) = frames_all (frames s1) \<and> frames_used bm = frames_used (frames s1)
     else f \<in> frames_all (frames s1) - frames_used (frames s1) \<and> frames_used bm = insert f (frames_used (frames s1))"
    using phys_frames.alloc_spec [OF wf] by blast
  have f0: "f \<noteq> 0" using a(4) ne by (auto simp: fresh_frames_def)
  then have f: "f \<in> fresh_frames s1" "frames_used bm = insert f (frames_used (frames s1))"
    using a(4) by (simp_all add: fresh_frames_def)
  let ?t = "s1\<lparr>frames := bm\<rparr>"
  have kt: "kpt_frames ?t = kpt_frames s1" "pde_at ?t fd = pde_at s1 fd" "umap ?t fd u = umap s1 fd u" for u
    by (simp_all add: kpt_frames_def pde_at_def umap_def fun_eq_iff Let_def)
  have okt: "vmm_ok ?t" using m'(2) a(2,3) kt(1) by (simp add: vmm_ok_def)
  have pt: "proc_ok ?t d fd"
    using m'(3) f(2) unfolding proc_ok_def kt(2) by (simp add: dir_mapped_def)
  have kft: "kfree ?t" using kquiet_facts(4) [OF m'(1)] k by (simp add: kfree_def free_pages_def)
  have ft: "fresh_frames ?t = fresh_frames s1 - {f}" using a(3) f by (auto simp: fresh_frames_def)
  then have cft: "card (fresh_frames s1) = card (fresh_frames ?t) + 1"
    using f(1) two by (simp add: card_Diff_singleton)
  then have net: "fresh_frames ?t \<noteq> {}" using two by auto
  have pg: "page_no ?v = of_nat (b + ?n)" "unat (of_nat (b + ?n) :: 20 word) = b + ?n"
    using page_offset [of b "?n + 1" ?n] b by simp_all
  have uv: "user_addr ?v" using b pg by (simp add: user_addr_iff)
  have nz: "\<not> (directory_entry ?v = 0 \<and> table_entry ?v = 0)"
    unfolding page_zero_iff using pg b by (metis add_is_0 less_numeral_extra(3) unat_0)
  obtain s2 N where s2: "SetPte (Dir_At d) ?v (new_pte f True True True) ?t = Inr s2"
    "sets_entry ?t d fd ?v (new_pte f True True True) s2"
    "N \<subseteq> fresh_frames ?t" "card N \<le> 1" "frames_used (frames s2) = frames_used (frames ?t) \<union> N"
    using SetPte_spec [OF okt pt kft uv net] by blast
  have run: "create_stack_loop (of_nat b * 0x1000) (Dir_At d) [?n] s1 = Inr (True, s2)"
    using a(1) f0 s2(1) nz by (auto simp: PhysAllocateFrame_def MapFrame_def FRAME_SIZE_def)
  have c2: "card (fresh_frames ?t) \<le> card (fresh_frames s2) + 1"
    using s2(2) by (intro card_fresh_step [OF s2(3,4,5)]) (simp add: sets_entry_def)
  have kq: "kquiet s s2"
  proof -
    have "kquiet s1 ?t" by (simp add: kquiet_def)
    moreover have "kquiet ?t s2" using s2(2) by (simp add: sets_entry_def)
    ultimately show ?thesis using m'(1) by (intro kquiet_trans [of s s1 s2] kquiet_trans [of s1 ?t s2])
  qed
  have um: "umap s2 fd u = (if b \<le> unat (page_no u) \<and> unat (page_no u) < b + length (fs @ [f])
           then new_pte ((fs @ [f]) ! (unat (page_no u) - b)) True True True else umap s fd u)" if u: "user_addr u" for u
  proof -
    have "umap s2 fd u = (if page_no u = page_no ?v then new_pte f True True True else umap s1 fd u)"
      using s2(2) u kt(3) by (simp add: sets_entry_def)
    moreover have "page_no u = page_no ?v \<longleftrightarrow> unat (page_no u) = b + ?n"
      using pg by (metis word_unat_eq_iff)
    moreover have "umap s1 fd u = (if b \<le> unat (page_no u) \<and> unat (page_no u) < b + ?n
           then new_pte (fs ! (unat (page_no u) - b)) True True True else umap s fd u)"
      using m u by (simp add: stack_mapped_def)
    ultimately show ?thesis by (auto simp: nth_append)
  qed
  have fr: "f \<notin> set fs" "f \<in> fresh_frames s" using f(1) m'(5,6,9) by (auto simp: fresh_frames_def)
  have "stack_mapped s d fd b (fs @ [f]) s2"
    unfolding stack_mapped_def
    using kq s2(2,5) m' fr um f(2) c2 cft a(3) by (auto simp: sets_entry_def)
  with run show ?thesis by blast
qed

lemma create_stack_pages:
  assumes ok: "vmm_ok s" and p: "proc_ok s d fd" and k: "kfree s"
    and n: "2 * n \<le> card (fresh_frames s)" and b: "0 < b" "b + n \<le> 0xC0000"
  shows "\<exists>fs s'. create_stack_loop (of_nat b * 0x1000) (Dir_At d) [0..<n] s = Inr (True, s')
     \<and> length fs = n \<and> stack_mapped s d fd b fs s'"
  using n b(2)
proof (induction n)
  case 0
  have "stack_mapped s d fd b [] s" using ok p by (auto simp: stack_mapped_def)
  then show ?case by auto
next
  case (Suc n)
  then obtain fs s1 where 1: "create_stack_loop (of_nat b * 0x1000) (Dir_At d) [0..<n] s = Inr (True, s1)"
    "length fs = n" "stack_mapped s d fd b fs s1" by auto
  obtain f s2 where "create_stack_loop (of_nat b * 0x1000) (Dir_At d) [length fs] s1 = Inr (True, s2)"
    "stack_mapped s d fd b (fs @ [f]) s2"
    using stack_step [OF 1(3) k] Suc.prems 1(2) b(1) by auto
  then show ?case
    using 1(1,2) by (intro exI [of _ "fs @ [f]"] exI [of _ s2]) (simp add: create_stack_loop_append)
qed

section \<open>Properties\<close>

text \<open>
  C12: \<open>X86CreateAddressSpace\<close> moves \<open>n\<close> kernel pages into a new address space: it does not fault,
  the user pages from \<open>USER_PROCESS_BASE\<close> on get the frames the kernel had at \<open>k_base\<close>, writable and
  accessible to user code, no other user page is mapped, the upper quarter of the directory is the
  kernel's, the moved pages disappear from the kernel and every other present kernel page keeps its
  entry; the new directory and its tables are frames that were free.
\<close>

theorem X86CreateAddressSpace_moves_pages:
  assumes "vmm_ok s" and "kfree2 s" and "unat n \<le> 0xBFF00" and "unat n < card (fresh_frames s)"
    and "\<And>i. i < unat n \<Longrightarrow> present (kernel_pte s (k_base + of_nat i * FRAME_SIZE))"
  shows "\<exists>d fd s'. X86CreateAddressSpace k_base n s = Inr (d, s') \<and> vmm_ok s' \<and> proc_ok s' d fd
     \<and> frame_base fd \<in> fresh_frames s
     \<and> (\<forall>u. user_addr u \<longrightarrow> umap s' fd u =
          (if 0x100 \<le> unat (page_no u) \<and> unat (page_no u) < 0x100 + unat n
           then (kernel_pte s (k_base + of_nat (unat (page_no u) - 0x100) * FRAME_SIZE))\<lparr>writable := True, user := True\<rparr>
           else zero_pte))
     \<and> (\<forall>i. 0x300 \<le> unat i \<longrightarrow> pmem s' fd i = pmem s (kpd_frame s) i)
     \<and> (\<forall>p. present (kmap s p) \<longrightarrow> kmap s' p = (if p \<in> moved k_base (unat n) then zero_pte else kmap s p))"
proof -
  have "\<forall>i < unat n. present (kernel_pte s (k_base + of_nat i * FRAME_SIZE))" using assms(5) by blast
  from X86CreateAddressSpace_spec [OF assms(1-4) this] show ?thesis
    unfolding process_space_def user_pte_def by blast
qed

text \<open>A machine with one kernel page mapped at \<open>0xC0500000\<close>.\<close>

definition demo_user :: vmm where
  "demo_user = set_kernel_pte 0xC0500000 (new_pte 0x3000 True True False) demo_vmm"

lemma demo_fresh_two: "{0x4000, 0x5000} \<subseteq> fresh_frames demo_vmm"
proof -
  have u: "used demo_frames = {3}"
    by (auto simp: used_def bit_at_def demo_frames_def lo_ix_def hi_ix_def bit_1_iff)
  have "frame_addr 4 \<noteq> frame_addr 3" "frame_addr 5 \<noteq> frame_addr 3"
    by (simp_all add: frame_addr_def)
  moreover have "frame_addr 4 = 0x4000" "frame_addr 5 = 0x5000" by (simp_all add: frame_addr_def)
  moreover have "frame_addr 4 \<in> frames_all demo_frames" "frame_addr 5 \<in> frames_all demo_frames"
    by (simp_all add: frames_all_def demo_frames_def lo_ix_def hi_ix_def)
  ultimately show ?thesis by (simp add: fresh_frames_def demo_vmm_def frames_used_def u)
qed

lemma frames_all_demo: "frame_base f \<in> frames_all demo_frames \<Longrightarrow> unat f < 8"
proof -
  assume "frame_base f \<in> frames_all demo_frames"
  then obtain i where i: "frame_base f = frame_addr i" "i < 8"
    by (auto simp: frames_all_def demo_frames_def lo_ix_def hi_ix_def)
  then have "unat f * 4096 = i * 4096"
    using unat_frame_base [of f] unat_frame_addr [of i] by (simp add: PHYS_BITMAP_LEN_def)
  with i(2) show ?thesis by simp
qed

lemma demo_kpt_frames:
  assumes "f \<in> kpt_frames s" and "kpt_frame s = 0x101"
  shows "0x101 \<le> unat f"
proof -
  obtain i :: "10 word" where i: "f = 0x101 + ucast i" using assms by (auto simp: kpt_frames_def)
  have "unat i < 1024" using unat_less [of i] by simp
  then have "unat f = 0x101 + unat i" unfolding i by (subst unat_plus_no_wrap) (simp_all add: unat_ucast_mod)
  then show ?thesis by simp
qed

lemma demo_vmm_ok:
  assumes "kpd_frame s = 0x100" and "kpt_frame s = 0x101" and "phys_wf (frames s)"
    and "frames_all (frames s) = frames_all demo_frames"
  shows "vmm_ok s"
proof -
  have "0x101 \<le> unat f" if "f \<in> kpt_frames s" for f using demo_kpt_frames [OF that assms(2)] .
  then show ?thesis
    using assms frames_all_demo unfolding vmm_ok_def by fastforce
qed

lemma kmap_demo_user: "kmap demo_user = (kmap demo_vmm)(0xC0500 := new_pte 0x3000 True True False)"
proof -
  have "page_no 0xC0500000 = 0xC0500" by (simp add: page_no_def drop_bit_eq_div)
  then show ?thesis unfolding demo_user_def by simp
qed

theorem X86CreateAddressSpace_moves_pages_witness:
  "\<exists>d fd s'. X86CreateAddressSpace 0xC0500000 1 demo_user = Inr (d, s') \<and> proc_ok s' d fd
     \<and> umap s' fd USER_PROCESS_BASE = (new_pte 0x3000 True True False)\<lparr>writable := True, user := True\<rparr>
     \<and> umap s' fd 0 = zero_pte"
proof -
  have f: "frames demo_user = demo_frames" "kpd_frame demo_user = 0x100" "kpt_frame demo_user = 0x101"
    by (simp_all add: demo_user_def demo_vmm_def)
  have ok: "vmm_ok demo_user" using f demo_frames_wf by (intro demo_vmm_ok) simp_all
  have fp: "free_pages demo_user t 1" if "t < 0xC0500" for t
  proof -
    have "unat (of_nat t :: 20 word) = t" using that by (intro unat_of_nat_less) simp
    then have "(of_nat t :: 20 word) \<noteq> 0xC0500" using that by (auto simp: word_unat_eq_iff)
    then show ?thesis using that unfolding free_page_iff kmap_demo_user by (simp add: kmap_demo)
  qed
  have k: "kfree2 demo_user"
    unfolding kfree2_def kernel_page_facts
    by (rule exI [of _ "0xC0001"], rule exI [of _ "0xC0002"]) (simp add: fp [unfolded One_nat_def])
  have "fresh_frames demo_user = fresh_frames demo_vmm" using f(1) by (simp add: fresh_frames_def demo_vmm_def)
  moreover have "card {0x4000, 0x5000 :: u32} \<le> card (fresh_frames demo_vmm)"
    using demo_fresh_two by (intro card_mono) auto
  ultimately have c: "unat (1 :: u32) < card (fresh_frames demo_user)" by simp
  have p: "page_no 0xC0500000 = 0xC0500" by (simp add: page_no_def drop_bit_eq_div)
  have e: "kernel_pte demo_user 0xC0500000 = new_pte 0x3000 True True False"
    unfolding kernel_pte_kmap kmap_demo_user p by simp
  then have src: "present (kernel_pte demo_user (0xC0500000 + of_nat i * FRAME_SIZE))" if "i < unat (1 :: u32)" for i
    using that by (simp add: new_pte_def)
  have n: "unat (1 :: u32) \<le> 0xBFF00" by simp
  obtain d fd s' where *: "X86CreateAddressSpace 0xC0500000 1 demo_user = Inr (d, s')" "proc_ok s' d fd"
    "\<forall>u. user_addr u \<longrightarrow> umap s' fd u = (if 0x100 \<le> unat (page_no u) \<and> unat (page_no u) < 0x100 + unat (1 :: u32)
        then (kernel_pte demo_user (0xC0500000 + of_nat (unat (page_no u) - 0x100) * FRAME_SIZE))\<lparr>writable := True, user := True\<rparr>
        else zero_pte)"
    using X86CreateAddressSpace_moves_pages [OF ok k n c src] by blast
  have ub: "unat (page_no USER_PROCESS_BASE) = 0x100" by (simp add: page_no_def USER_PROCESS_BASE_def drop_bit_eq_div)
  then have "user_addr USER_PROCESS_BASE" by (simp add: user_addr_iff)
  with *(3) ub e have "umap s' fd USER_PROCESS_BASE = (new_pte 0x3000 True True False)\<lparr>writable := True, user := True\<rparr>"
    by simp
  moreover have "umap s' fd 0 = zero_pte" using *(3) kernel_page_facts(2,3) by simp
  ultimately show ?thesis using *(1,2) by blast
qed

lemma page_addr_and_mask: "(of_nat t * 0x1000 AND 0xFFFFF000 :: u32) = of_nat t * 0x1000"
proof -
  have a: "(of_nat t * 0x1000 :: u32) = push_bit 12 (of_nat t)" by (simp add: push_bit_eq_mult)
  have b: "(0xFFFFF000 :: u32) = push_bit 12 (mask 20)" by (simp add: mask_eq_exp_minus_1 push_bit_eq_mult)
  show ?thesis unfolding a b by (rule bit_word_eqI) (auto simp: bit_simps)
qed

text \<open>A process whose directory is in frame 3, mapped at 0xC0500000, with only the kernel's tables.\<close>

definition demo_proc :: vmm where
  "demo_proc = demo_user\<lparr>pmem := (pmem demo_user)(3 :=
     (\<lambda>i. if 0x300 \<le> unat i then word_of_pde (new_pde (0x101 + ucast i)) else 0))\<rparr>"

lemma demo_proc_facts:
  "frames demo_proc = demo_frames" "kmap demo_proc = kmap demo_user"
  "pde_at demo_proc 3 i = (if 0x300 \<le> unat i then new_pde (0x101 + ucast i) else pde_of_word 0)"
  "vmm_ok demo_proc" "kfree demo_proc" "fresh_frames demo_proc = fresh_frames demo_vmm"
proof -
  have f: "frames demo_proc = demo_frames" "kpd_frame demo_proc = 0x100" "kpt_frame demo_proc = 0x101"
    "kpt_frame demo_user = 0x101"
    by (simp_all add: demo_proc_def demo_user_def demo_vmm_def)
  then show "frames demo_proc = demo_frames" "fresh_frames demo_proc = fresh_frames demo_vmm"
    by (simp_all add: fresh_frames_def demo_vmm_def)
  show "vmm_ok demo_proc" using f demo_frames_wf by (intro demo_vmm_ok) simp_all
  have "3 \<notin> kpt_frames demo_user" using demo_kpt_frames [OF _ f(4), of 3] by auto
  then show k: "kmap demo_proc = kmap demo_user" unfolding demo_proc_def by simp
  have "free_pages demo_proc 0xC0001 1"
    unfolding free_page_iff k kmap_demo_user by (simp add: kmap_demo)
  then show "kfree demo_proc" unfolding kfree_def kernel_page_facts by blast
  show "pde_at demo_proc 3 i = (if 0x300 \<le> unat i then new_pde (0x101 + ucast i) else pde_of_word 0)"
    by (simp add: pde_at_def demo_proc_def)
qed

lemma demo_proc_ok: "proc_ok demo_proc 0xC0500000 3"
proof -
  have u: "used demo_frames = {3}"
    by (auto simp: used_def bit_at_def demo_frames_def lo_ix_def hi_ix_def bit_1_iff)
  then have "frame_base 3 \<in> frames_used demo_frames"
    by (simp add: frames_used_def frame_addr_def frame_base_def)
  moreover have "page_no 0xC0500000 = 0xC0500" by (simp add: page_no_def drop_bit_eq_div)
  then have "dir_mapped demo_proc 0xC0500000 3"
    unfolding dir_mapped_def demo_proc_facts kmap_demo_user by (simp add: new_pte_def drop_bit_eq_div)
  ultimately show ?thesis
    unfolding proc_ok_def demo_proc_facts by (simp add: pde_of_word_def)
qed

text \<open>
  \<open>X86CreateStack\<close> with enough free frames maps the pages below the given top, each to a
  different frame that was free, writable and accessible to user code, leaves every other user page
  alone, and returns the top of the stack.
\<close>

theorem X86CreateStack_maps:
  assumes "vmm_ok s" and "proc_ok s d fd" and "kfree s" and "sz = of_nat n * 0x1000" and "n < 0x40000"
    and "2 * n \<le> card (fresh_frames s)" and "stack_top = of_nat t * 0x1000" and "n < t" and "t \<le> 0xC0000"
  shows "\<exists>fs s'. X86CreateStack d stack_top sz s = Inr (stack_top, s') \<and> vmm_ok s' \<and> proc_ok s' d fd
     \<and> length fs = n \<and> distinct fs \<and> set fs \<subseteq> fresh_frames s \<and> set fs \<subseteq> frames_used (frames s')
     \<and> (\<forall>u. user_addr u \<longrightarrow> umap s' fd u =
          (if t - n \<le> unat (page_no u) \<and> unat (page_no u) < t
           then new_pte (fs ! (unat (page_no u) - (t - n))) True True True else umap s fd u))"
proof -
  have sz: "unat sz = n * 4096" using assms(4,5) unat_page_addr [of n] by simp
  have dm: "unat (sz div FRAME_SIZE) = n" "sz mod FRAME_SIZE = 0"
    using sz by (simp_all add: FRAME_SIZE_def unat_div word_unat_eq_iff unat_mod)
  have "sz div FRAME_SIZE = of_nat n" using dm(1) assms(5) by (simp add: word_unat_eq_iff unat_of_nat_less)
  moreover have "(of_nat t * 0x1000 - of_nat n * 0x1000 :: u32) = of_nat (t - n) * 0x1000"
    using assms(8) by (simp add: of_nat_diff algebra_simps)
  ultimately have bot: "stack_top - sz div FRAME_SIZE * FRAME_SIZE = of_nat (t - n) * 0x1000"
    using assms(7) by (simp add: FRAME_SIZE_def)
  obtain fs s' where l: "create_stack_loop (of_nat (t - n) * 0x1000) (Dir_At d) [0..<n] s = Inr (True, s')"
    "length fs = n" "stack_mapped s d fd (t - n) fs s'"
    using create_stack_pages [OF assms(1-3,6), of "t - n"] assms(8,9) by auto
  have top: "stack_top AND 0xFFFFF000 = stack_top" unfolding assms(7) by (rule page_addr_and_mask)
  have "X86CreateStack d stack_top sz s = Inr (stack_top, s')"
    unfolding X86CreateStack_def Let_def using l(1) dm bot top by simp
  moreover have "t - n + n = t" using assms(8) by simp
  ultimately show ?thesis using l(2,3) unfolding stack_mapped_def by auto
qed

theorem X86CreateStack_maps_witness:
  "\<exists>f s'. X86CreateStack 0xC0500000 0x40000000 0x1000 demo_proc = Inr (0x40000000, s')
     \<and> f \<in> fresh_frames demo_proc \<and> f \<in> frames_used (frames s')
     \<and> umap s' 3 0x3FFFF000 = new_pte f True True True"
proof -
  have c: "2 * 1 \<le> card (fresh_frames demo_proc)"
    using card_mono [OF finite_fresh demo_fresh_two] by (simp add: demo_proc_facts)
  have "(0x1000 :: u32) = of_nat 1 * 0x1000" "(0x40000000 :: u32) = of_nat 0x40000 * 0x1000" by simp_all
  from X86CreateStack_maps [OF demo_proc_facts(4) demo_proc_ok demo_proc_facts(5) this(1) _ c this(2)]
  obtain fs s' where *: "X86CreateStack 0xC0500000 0x40000000 0x1000 demo_proc = Inr (0x40000000, s')"
    "length fs = 1" "set fs \<subseteq> fresh_frames demo_proc" "set fs \<subseteq> frames_used (frames s')"
    "\<forall>u. user_addr u \<longrightarrow> umap s' 3 u = (if 0x40000 - 1 \<le> unat (page_no u) \<and> unat (page_no u) < 0x40000
       then new_pte (fs ! (unat (page_no u) - (0x40000 - 1))) True True True else umap demo_proc 3 u)"
    by auto
  have pg: "unat (page_no 0x3FFFF000) = 0x3FFFF" by (simp add: page_no_def drop_bit_eq_div)
  then have "user_addr 0x3FFFF000" by (simp add: user_addr_iff)
  with *(5) pg have "umap s' 3 0x3FFFF000 = new_pte (fs ! 0) True True True" by simp
  moreover have "fs ! 0 \<in> set fs" using *(2) by simp
  ultimately show ?thesis using * by blast
qed

text \<open>
  C13: \<open>X86DeleteAddressSpace\<close> gives no frame back. Page 0 of an address space is never mapped
  (programs start at \<open>USER_PROCESS_BASE\<close>), so the first loop stops at once; the second starts at the
  first kernel page, 0xC0000000, which the kernel does not map, and stops there too. The frames in
  use and the entries of every user page are unchanged.
\<close>

theorem X86DeleteAddressSpace_frees_nothing:
  assumes "vmm_ok s" and "proc_ok s d fd" and "kfree s" and "shares_kernel s fd"
    and "\<not> present (umap s fd 0)" and "\<not> present (kernel_pte s 0xC0000000)"
  shows "\<exists>s'. X86DeleteAddressSpace d s = Inr s' \<and> frames s' = frames s
     \<and> (\<forall>u. user_addr u \<longrightarrow> umap s' fd u = umap s fd u)"
proof -
  obtain s' where s': "X86DeleteAddressSpace d s = Inr s'" "quiet s s'"
    using X86DeleteAddressSpace_spec [OF assms] by blast
  note pf = proc_ok_facts [OF assms(1,2)]
  have pd: "pde_at s' fd = pde_at s fd" using s'(2) pf(2) by (auto simp: quiet_def pde_at_def)
  have "umap s' fd u = umap s fd u" if "user_addr u" for u
  proof -
    have i: "unat (directory_entry u) < 0x300" using that by (simp add: user_addr_def)
    show ?thesis using s'(2) pf(3) [OF i] unfolding umap_def pd quiet_def by (simp add: Let_def)
  qed
  with s' show ?thesis by (auto simp: quiet_def)
qed

theorem X86DeleteAddressSpace_frees_nothing_witness:
  "\<exists>s'. X86DeleteAddressSpace 0xC0500000 demo_proc = Inr s' \<and> frames s' = demo_frames"
proof -
  have "shares_kernel demo_proc 3"
    unfolding shares_kernel_def demo_proc_facts by (simp add: new_pde_def demo_proc_def demo_user_def demo_vmm_def)
  moreover have "\<not> present (umap demo_proc 3 0)"
    by (simp add: umap_def demo_proc_facts kernel_page_facts pde_of_word_def zero_pte_def pte_of_word_def)
  moreover have "page_no 0xC0000000 = 0xC0000" by (simp add: page_no_def drop_bit_eq_div)
  then have "\<not> present (kernel_pte demo_proc 0xC0000000)"
    by (simp add: kernel_pte_kmap demo_proc_facts kmap_demo_user kmap_demo)
  ultimately show ?thesis
    using X86DeleteAddressSpace_frees_nothing [OF demo_proc_facts(4) demo_proc_ok demo_proc_facts(5)]
    by (auto simp: demo_proc_facts)
qed

end
