(* ===== verification/Stdlib_String.thy ===== *)
theory Stdlib_String
  imports Kernel_Prelude
begin

text \<open>
  \<open>stdlib/string.c\<close>, \<open>stdlib/ctype.c\<close> and \<open>isspace\<close> of \<open>stdlib/stdio.c\<close>.

  A \<open>char*\<close> is the list of bytes from the pointer to the end of its object; reading or writing
  past that end is a fault. Indices stay inside the object, which is smaller than the address
  space, so the \<open>size_t\<close> counters are naturals. \<open>char\<close> is signed on the target: comparisons read a
  byte with \<open>sint\<close>. A returned pointer into the argument is its index, \<open>None\<close> for \<open>NULL\<close>.
\<close>

section \<open>Model\<close>

type_synonym buf = "u8 list"

definition lit :: "string \<Rightarrow> buf" where
  "lit s = map of_char s @ [0]"

definition tolower :: "int \<Rightarrow> int" where
  "tolower c = (if c \<ge> 65 \<and> c \<le> 90 then c + (97 - 65) else c)"

function strcmp_loop :: "buf \<Rightarrow> buf \<Rightarrow> nat \<Rightarrow> nat res" where
  "strcmp_loop str1 str2 i =
     rbind (load str1 i) (\<lambda>a. if a = 0 then Inr i else
     rbind (load str2 i) (\<lambda>b. if b = 0 then Inr i else
       if a = b then strcmp_loop str1 str2 (i + 1) else Inr i))"
  by pat_completeness auto
termination
  by (relation "measure (\<lambda>(str1, str2, i). length str1 - i)") (auto simp: load_Inr_iff)

definition strcmp :: "buf \<Rightarrow> buf \<Rightarrow> int res" where
  "strcmp str1 str2 =
     rbind (strcmp_loop str1 str2 0) (\<lambda>i.
     rbind (load str1 i) (\<lambda>a.
     rbind (load str2 i) (\<lambda>b.
       if sint a < sint b then Inr (- 1) else if sint a = sint b then Inr 0 else Inr 1)))"

function strcasecmp_loop :: "buf \<Rightarrow> buf \<Rightarrow> nat \<Rightarrow> nat res" where
  "strcasecmp_loop str1 str2 i =
     rbind (load str1 i) (\<lambda>a. if a = 0 then Inr i else
     rbind (load str2 i) (\<lambda>b. if b = 0 then Inr i else
       if tolower (sint a) = tolower (sint b) then strcasecmp_loop str1 str2 (i + 1) else Inr i))"
  by pat_completeness auto
termination
  by (relation "measure (\<lambda>(str1, str2, i). length str1 - i)") (auto simp: load_Inr_iff)

definition strcasecmp :: "buf \<Rightarrow> buf \<Rightarrow> int res" where
  "strcasecmp str1 str2 =
     rbind (strcasecmp_loop str1 str2 0) (\<lambda>i.
     rbind (load str1 i) (\<lambda>a.
     rbind (load str2 i) (\<lambda>b.
       if tolower (sint a) < tolower (sint b) then Inr (- 1)
       else if tolower (sint a) = tolower (sint b) then Inr 0 else Inr 1)))"

function strlen_loop :: "buf \<Rightarrow> nat \<Rightarrow> nat res" where
  "strlen_loop str i = rbind (load str i) (\<lambda>c. if c \<noteq> 0 then strlen_loop str (i + 1) else Inr i)"
  by pat_completeness auto
termination
  by (relation "measure (\<lambda>(str, i). length str - i)") (auto simp: load_Inr_iff)

definition strlen :: "buf \<Rightarrow> nat res" where
  "strlen str = strlen_loop str 0"

function strcpy_loop :: "buf \<Rightarrow> buf \<Rightarrow> nat \<Rightarrow> buf res" where
  "strcpy_loop dest src i =
     rbind (strlen src) (\<lambda>n.
       if i < n + 1 then
         rbind (load src i) (\<lambda>c.
         rbind (store dest i c) (\<lambda>dest. strcpy_loop dest src (i + 1)))
       else Inr dest)"
  by pat_completeness auto
termination
  by (relation "measure (\<lambda>(dest, src, i). length src - i)") (auto simp: load_Inr_iff)

definition strcpy :: "buf \<Rightarrow> buf \<Rightarrow> buf res" where
  "strcpy dest src = strcpy_loop dest src 0"

function strchr_loop :: "buf \<Rightarrow> int \<Rightarrow> nat \<Rightarrow> nat option res" where
  "strchr_loop str character i =
     rbind (strlen str) (\<lambda>n.
       if i < n then
         rbind (load str i) (\<lambda>c.
           if sint c = character then Inr (Some i) else strchr_loop str character (i + 1))
       else Inr None)"
  by pat_completeness auto
termination
  by (relation "measure (\<lambda>(str, character, i). length str - i)") (auto simp: load_Inr_iff)

definition strchr :: "buf \<Rightarrow> int \<Rightarrow> nat option res" where
  "strchr str character = strchr_loop str character 0"

definition isspace :: "int \<Rightarrow> bool res" where
  "isspace c = rbind (strchr (map of_char [CHR '' '', CHR 0x09, CHR 0x0A, CHR 0x0B, CHR 0x0C, CHR 0x0D]
       @ [0]) c) (\<lambda>p. Inr (p \<noteq> None))"

declare strcmp_loop.simps [simp del] strcasecmp_loop.simps [simp del] strlen_loop.simps [simp del]
  strcpy_loop.simps [simp del] strchr_loop.simps [simp del]

section \<open>Strings as lists\<close>

text \<open>The characters before the terminator, and that there is a terminator.\<close>

definition chars :: "buf \<Rightarrow> u8 list" where
  "chars s = takeWhile (\<lambda>c. c \<noteq> 0) s"

definition terminated :: "buf \<Rightarrow> bool" where
  "terminated s \<longleftrightarrow> 0 \<in> set s"

lemma length_chars_less: "terminated s \<Longrightarrow> length (chars s) < length s"
  by (metis (mono_tags) chars_def length_takeWhile_le nat_less_le takeWhile_eq_all_conv
      takeWhile_eq_take take_all_iff terminated_def)

lemma length_chars_le: "length (chars s) \<le> length s"
  by (simp add: chars_def length_takeWhile_le)

lemma nth_length_chars: "terminated s \<Longrightarrow> s ! length (chars s) = 0"
  using length_chars_less nth_length_takeWhile by (fastforce simp: chars_def)

lemma nth_chars: "i < length (chars s) \<Longrightarrow> chars s ! i = s ! i"
  by (simp add: chars_def takeWhile_nth)

lemma nth_chars_nonzero: "i < length (chars s) \<Longrightarrow> s ! i \<noteq> 0"
  using nth_mem [of i "chars s"] nth_chars [of i s] unfolding chars_def
  by (metis (mono_tags) set_takeWhileD)

lemma chars_eq_take: "chars s = take (length (chars s)) s"
  unfolding chars_def by (rule takeWhile_eq_take)

lemma nth_zero_iff: "terminated s \<Longrightarrow> i \<le> length (chars s) \<Longrightarrow> s ! i = 0 \<longleftrightarrow> i = length (chars s)"
  using nth_chars_nonzero [of i s] nth_length_chars [of s] by (cases "i = length (chars s)") auto

lemma chars_append_0: "(\<forall>c \<in> set xs. c \<noteq> 0) \<Longrightarrow> chars (xs @ 0 # ys) = xs"
  by (simp add: chars_def)

lemma terminated_append_0 [simp]: "terminated (xs @ 0 # ys)"
  by (simp add: terminated_def)

lemma chars_Cons [simp]: "chars (c # s) = (if c = 0 then [] else c # chars s)"
  by (simp add: chars_def)

lemma terminated_Cons [simp]: "terminated (c # s) \<longleftrightarrow> c = 0 \<or> terminated s"
  by (auto simp: terminated_def)

lemma not_terminated_Nil [simp]: "\<not> terminated []"
  by (simp add: terminated_def)

section \<open>strlen\<close>

lemma strlen_loop_spec:
  assumes "terminated s" and "i \<le> length (chars s)"
  shows "strlen_loop s i = Inr (length (chars s))"
  using assms
proof (induction s i rule: strlen_loop.induct)
  case (1 s i)
  have lt: "i < length s" using "1.prems" length_chars_less by fastforce
  show ?case
  proof (cases "i = length (chars s)")
    case True
    with "1.prems" lt have "s ! i = 0" by (simp add: nth_length_chars)
    with True lt show ?thesis by (subst strlen_loop.simps) simp
  next
    case False
    with "1.prems" have "i < length (chars s)" by simp
    with "1.IH" [of "s ! i"] "1.prems" lt show ?thesis
      by (simp add: strlen_loop.simps [of s i] nth_chars_nonzero)
  qed
qed

lemma strlen_unterminated_loop: "0 \<notin> set (drop i s) \<Longrightarrow> strlen_loop s i = Inl Out_Of_Bounds"
proof (induction s i rule: strlen_loop.induct)
  case (1 s i)
  show ?case
  proof (cases "i < length s")
    case True
    then have d: "drop i s = s ! i # drop (i + 1) s" by (simp add: Cons_nth_drop_Suc)
    with "1.prems" have "s ! i \<noteq> 0" and "0 \<notin> set (drop (i + 1) s)" by auto
    with "1.IH" True show ?thesis by (simp add: strlen_loop.simps [of s i])
  qed (simp add: strlen_loop.simps [of s i])
qed

lemma strlen_spec [simp]: "terminated s \<Longrightarrow> strlen s = Inr (length (chars s))"
  by (simp add: strlen_def strlen_loop_spec)

lemma strlen_fault: "\<not> terminated s \<Longrightarrow> strlen s = Inl Out_Of_Bounds"
  by (simp add: strlen_def strlen_unterminated_loop terminated_def)


section \<open>strcpy\<close>

lemma strcpy_loop_spec:
  assumes "terminated src" and "length (chars src) < length dest" and "i \<le> length (chars src) + 1"
    and "take i dest = take i src"
  shows "strcpy_loop dest src i
     = Inr (take (length (chars src) + 1) src @ drop (length (chars src) + 1) dest)"
  using assms
proof (induction dest src i rule: strcpy_loop.induct)
  case (1 dest src i)
  let ?n = "length (chars src)"
  show ?case
  proof (cases "i < ?n + 1")
    case False
    with "1.prems" have "i = ?n + 1" by simp
    with "1.prems" show ?thesis
      by (subst strcpy_loop.simps) (simp, metis append_take_drop_id)
  next
    case True
    have lt: "i < length src" "i < length dest"
      using True "1.prems" length_chars_less [of src] by auto
    have "take (i + 1) (dest[i := src ! i]) = take (i + 1) src"
      using lt "1.prems"(4) by (simp add: take_Suc_conv_app_nth)
    with "1.IH" [of ?n "src ! i" "dest[i := src ! i]"] "1.prems" True lt
    have "strcpy_loop (dest[i := src ! i]) src (i + 1)
        = Inr (take (?n + 1) src @ drop (?n + 1) dest)" by simp
    with True lt "1.prems"(1) show ?thesis by (subst strcpy_loop.simps) simp
  qed
qed

section \<open>strchr\<close>

text \<open>The first index from \<open>i\<close> on whose character, sign-extended, equals \<open>c\<close>.\<close>

definition char_at :: "buf \<Rightarrow> int \<Rightarrow> nat \<Rightarrow> bool" where
  "char_at s c i \<longleftrightarrow> i < length (chars s) \<and> sint (s ! i) = c"

lemma ex_char_at_iff: "(\<exists>j. char_at s c j) \<longleftrightarrow> c \<in> sint ` set (chars s)"
  by (force simp: char_at_def in_set_conv_nth nth_chars)

lemma strchr_loop_spec:
  assumes "terminated s" and "\<forall>j < i. \<not> char_at s c j"
  shows "\<exists>r. strchr_loop s c i = Inr r
    \<and> (case r of None \<Rightarrow> \<forall>j. \<not> char_at s c j
       | Some k \<Rightarrow> char_at s c k \<and> (\<forall>j < k. \<not> char_at s c j))"
  using assms
proof (induction s c i rule: strchr_loop.induct)
  case (1 s c i)
  show ?case
  proof (cases "i < length (chars s)")
    case False
    with "1.prems" show ?thesis
      by (subst strchr_loop.simps) (auto simp: char_at_def)
  next
    case True
    then have lt: "i < length s" using length_chars_le [of s] by simp
    show ?thesis
    proof (cases "sint (s ! i) = c")
      case True
      with \<open>i < length (chars s)\<close> lt "1.prems" show ?thesis
        by (subst strchr_loop.simps) (auto simp: char_at_def)
    next
      case False
      with "1.prems"(2) have "\<forall>j < i + 1. \<not> char_at s c j"
        by (auto simp: char_at_def less_Suc_eq)
      with "1.IH" [of "length (chars s)" "s ! i"] \<open>i < length (chars s)\<close> lt False "1.prems"(1)
      show ?thesis by (subst strchr_loop.simps) simp
    qed
  qed
qed

lemma strchr_spec:
  assumes "terminated s"
  shows "\<exists>r. strchr s c = Inr r
    \<and> (case r of None \<Rightarrow> \<forall>j. \<not> char_at s c j
       | Some k \<Rightarrow> char_at s c k \<and> (\<forall>j < k. \<not> char_at s c j))"
  using strchr_loop_spec [OF assms, of 0 c] by (simp add: strchr_def)

text \<open>Unlike the standard function, this one never finds the terminator; \<open>atoi\<close> relies on it.\<close>

lemma strchr_0: "terminated s \<Longrightarrow> strchr s 0 = Inr None"
proof -
  assume t: "terminated s"
  have "\<not> char_at s 0 j" for j
    using nth_chars_nonzero [of j s] sint_eq_iff [of "s ! j" 0] by (auto simp: char_at_def)
  with strchr_spec [OF t, of 0] show ?thesis by (auto split: option.splits)
qed


section \<open>strcmp and strcasecmp\<close>

text \<open>
  Both comparisons walk to the first position where a terminator is met or the keys of the
  characters differ; the key is the signed character, or its lower-case form.
\<close>

definition first_diff :: "(u8 \<Rightarrow> int) \<Rightarrow> buf \<Rightarrow> buf \<Rightarrow> nat \<Rightarrow> bool" where
  "first_diff f s1 s2 k \<longleftrightarrow> k \<le> length (chars s1) \<and> k \<le> length (chars s2)
     \<and> (\<forall>j < k. f (s1 ! j) = f (s2 ! j))
     \<and> (k = length (chars s1) \<or> k = length (chars s2) \<or> f (s1 ! k) \<noteq> f (s2 ! k))"

definition keys :: "(u8 \<Rightarrow> int) \<Rightarrow> buf \<Rightarrow> int list" where
  "keys f s = map f (chars s @ [0])"

abbreviation lower_key :: "u8 \<Rightarrow> int" where
  "lower_key c \<equiv> tolower (sint c)"

lemma strcmp_loop_spec:
  assumes "terminated s1" and "terminated s2"
    and "i \<le> length (chars s1)" and "i \<le> length (chars s2)"
    and "\<forall>j < i. sint (s1 ! j) = sint (s2 ! j)"
  shows "\<exists>k. strcmp_loop s1 s2 i = Inr k \<and> first_diff sint s1 s2 k"
  using assms
proof (induction s1 s2 i rule: strcmp_loop.induct)
  case (1 s1 s2 i)
  have lt: "i < length s1" "i < length s2"
    using "1.prems" length_chars_less [of s1] length_chars_less [of s2] by auto
  note z = nth_zero_iff [OF "1.prems"(1,3)] nth_zero_iff [OF "1.prems"(2,4)]
  show ?case
  proof (cases "i < length (chars s1) \<and> i < length (chars s2) \<and> s1 ! i = s2 ! i")
    case True
    have "\<exists>k. strcmp_loop s1 s2 (i + 1) = Inr k \<and> first_diff sint s1 s2 k"
      using "1.IH" [of "s1 ! i" "s2 ! i"] True lt z "1.prems" by (auto simp: less_Suc_eq)
    with True lt z show ?thesis by (subst strcmp_loop.simps) auto
  next
    case False
    with lt z "1.prems" show ?thesis
      by (subst strcmp_loop.simps) (auto simp: first_diff_def sint_eq_iff)
  qed
qed

lemma strcasecmp_loop_spec:
  assumes "terminated s1" and "terminated s2"
    and "i \<le> length (chars s1)" and "i \<le> length (chars s2)"
    and "\<forall>j < i. lower_key (s1 ! j) = lower_key (s2 ! j)"
  shows "\<exists>k. strcasecmp_loop s1 s2 i = Inr k \<and> first_diff lower_key s1 s2 k"
  using assms
proof (induction s1 s2 i rule: strcasecmp_loop.induct)
  case (1 s1 s2 i)
  have lt: "i < length s1" "i < length s2"
    using "1.prems" length_chars_less [of s1] length_chars_less [of s2] by auto
  note z = nth_zero_iff [OF "1.prems"(1,3)] nth_zero_iff [OF "1.prems"(2,4)]
  show ?case
  proof (cases "i < length (chars s1) \<and> i < length (chars s2)
      \<and> lower_key (s1 ! i) = lower_key (s2 ! i)")
    case True
    have "\<exists>k. strcasecmp_loop s1 s2 (i + 1) = Inr k \<and> first_diff lower_key s1 s2 k"
      using "1.IH" [of "s1 ! i" "s2 ! i"] True lt z "1.prems" by (auto simp: less_Suc_eq)
    with True lt z show ?thesis by (subst strcasecmp_loop.simps) auto
  next
    case False
    with lt z "1.prems" show ?thesis
      by (subst strcasecmp_loop.simps) (auto simp: first_diff_def)
  qed
qed

lemma nth_keys: "terminated s \<Longrightarrow> k \<le> length (chars s) \<Longrightarrow> keys f s ! k = f (s ! k)"
  using nth_length_chars [of s]
  by (auto simp: keys_def nth_append nth_chars less_Suc_eq_le [symmetric] less_Suc_eq)

lemma length_keys: "length (keys f s) = length (chars s) + 1"
  by (simp add: keys_def)

lemma first_diff_order:
  assumes t: "terminated s1" "terminated s2" and d: "first_diff f s1 s2 k"
    and f0: "\<And>c. f c = f 0 \<longleftrightarrow> c = 0"
  shows "f (s1 ! k) < f (s2 ! k) \<longleftrightarrow> (keys f s1, keys f s2) \<in> lexord {(x, y). x < y}"
    and "f (s1 ! k) = f (s2 ! k) \<longleftrightarrow> keys f s1 = keys f s2"
proof -
  have k: "k < length (keys f s1)" "k < length (keys f s2)"
    using d by (auto simp: first_diff_def length_keys)
  have nth: "keys f s1 ! k = f (s1 ! k)" "keys f s2 ! k = f (s2 ! k)"
    using d t by (auto simp: first_diff_def nth_keys)
  have pre: "take k (keys f s1) = take k (keys f s2)"
    using d t k by (intro nth_equalityI) (auto simp: first_diff_def nth_keys)
  have eq: "keys f s1 = keys f s2" if "f (s1 ! k) = f (s2 ! k)"
  proof -
    have "k = length (chars s1)" "k = length (chars s2)"
      using that d f0 [of "s1 ! k"] f0 [of "s2 ! k"] nth_zero_iff [OF t(1), of k]
        nth_zero_iff [OF t(2), of k]
      unfolding first_diff_def by metis+
    then have len: "length (keys f s1) = k + 1" "length (keys f s2) = k + 1"
      by (simp_all add: length_keys)
    have "keys f s1 ! j = keys f s2 ! j" if "j < k + 1" for j
      using that d t nth \<open>f (s1 ! k) = f (s2 ! k)\<close>
      by (cases "j = k") (auto simp: first_diff_def nth_keys)
    with len show ?thesis by (intro nth_equalityI) auto
  qed
  show "f (s1 ! k) = f (s2 ! k) \<longleftrightarrow> keys f s1 = keys f s2" using eq nth by auto
  obtain p x y where xy: "keys f s1 = p @ f (s1 ! k) # x" "keys f s2 = p @ f (s2 ! k) # y"
    using id_take_nth_drop [OF k(1)] id_take_nth_drop [OF k(2)] nth pre by simp
  then have lex: "(keys f s1, keys f s2) \<in> lexord {(x, y). x < y} \<longleftrightarrow>
      f (s1 ! k) < f (s2 ! k) \<or> f (s1 ! k) = f (s2 ! k) \<and> (x, y) \<in> lexord {(x, y). x < y}"
    by (simp add: lexord_same_pref_iff)
  have "(x, y) \<notin> lexord {(x, y). x < y}" if "f (s1 ! k) = f (s2 ! k)"
  proof -
    have "x = y" using eq [OF that] xy that by simp
    then show ?thesis by (simp add: lexord_irreflexive)
  qed
  with lex show "f (s1 ! k) < f (s2 ! k) \<longleftrightarrow> (keys f s1, keys f s2) \<in> lexord {(x, y). x < y}"
    by blast
qed

lemma tolower_0_iff: "lower_key c = lower_key 0 \<longleftrightarrow> c = 0"
  using sint_eq_iff [of c 0] by (auto simp: tolower_def)


lemma keys_sint_eq_iff: "keys sint s1 = keys sint s2 \<longleftrightarrow> chars s1 = chars s2"
  by (auto simp: keys_def inj_def sint_eq_iff)

section \<open>Properties\<close>

text \<open>
  \<open>strcmp\<close> on two terminated strings stays inside both and returns 0 exactly when the strings
  are equal, and -1 exactly when the first is smaller in the lexicographic order of the signed
  characters, terminator included.
\<close>

theorem strcmp_order:
  assumes "terminated s1" and "terminated s2"
  shows "strcmp s1 s2 = Inr (if (keys sint s1, keys sint s2) \<in> lexord {(x, y). x < y} then - 1
                             else if chars s1 = chars s2 then 0 else 1)"
proof -
  obtain k where k: "strcmp_loop s1 s2 0 = Inr k" "first_diff sint s1 s2 k"
    using strcmp_loop_spec [OF assms, of 0] by auto
  have lt: "k < length s1" "k < length s2"
    using k(2) length_chars_less [OF assms(1)] length_chars_less [OF assms(2)]
    by (auto simp: first_diff_def)
  show ?thesis
    using k lt first_diff_order [OF assms k(2) sint_eq_iff] keys_sint_eq_iff [of s1 s2]
    by (simp add: strcmp_def)
qed

theorem strcmp_order_witness:
  "strcmp (lit ''notjunk'') (lit ''notjunk'') = Inr 0
   \<and> strcmp (lit ''abc'') (lit ''abd'') = Inr (- 1) \<and> strcmp (lit ''b'') (lit ''abd'') = Inr 1"
  using strcmp_order [of "lit ''notjunk''" "lit ''notjunk''"] strcmp_order [of "lit ''abc''" "lit ''abd''"]
    strcmp_order [of "lit ''b''" "lit ''abd''"]
  by (simp add: lit_def keys_def of_char_def)

lemma strcasecmp_value:
  assumes "terminated s1" and "terminated s2"
  shows "strcasecmp s1 s2 =
     Inr (if (keys lower_key s1, keys lower_key s2) \<in> lexord {(x, y). x < y} then - 1
          else if map lower_key (chars s1) = map lower_key (chars s2) then 0 else 1)"
proof -
  obtain k where k: "strcasecmp_loop s1 s2 0 = Inr k" "first_diff lower_key s1 s2 k"
    using strcasecmp_loop_spec [OF assms, of 0] by auto
  have lt: "k < length s1" "k < length s2"
    using k(2) length_chars_less [OF assms(1)] length_chars_less [OF assms(2)]
    by (auto simp: first_diff_def)
  have eq: "keys lower_key s1 = keys lower_key s2
      \<longleftrightarrow> map lower_key (chars s1) = map lower_key (chars s2)"
    by (simp add: keys_def)
  show ?thesis
    using k lt first_diff_order [OF assms k(2) tolower_0_iff] eq by (simp add: strcasecmp_def)
qed

lemma lexord_irrefl_less: "(xs, xs) \<notin> lexord {(x, y). x < (y :: int)}"
  by (rule lexord_irreflexive) simp

text \<open>Equality up to case, as the directory lookup of the file system uses it.\<close>

lemma strcasecmp_zero:
  assumes "terminated s1" and "terminated s2"
  obtains r where "strcasecmp s1 s2 = Inr r" and "r = 0 \<longleftrightarrow> map lower_key (chars s1) = map lower_key (chars s2)"
proof
  have "map lower_key (chars s1) = map lower_key (chars s2) \<Longrightarrow> keys lower_key s1 = keys lower_key s2"
    by (simp add: keys_def)
  then show "(if (keys lower_key s1, keys lower_key s2) \<in> lexord {(x, y). x < y} then - 1
      else if map lower_key (chars s1) = map lower_key (chars s2) then 0 else 1 :: int) = 0
      \<longleftrightarrow> map lower_key (chars s1) = map lower_key (chars s2)"
    using lexord_irrefl_less by auto
qed (rule strcasecmp_value [OF assms])

text \<open>
  \<open>strcasecmp\<close>, which decides whether a directory entry matches a name, returns 0 exactly
  when the strings are equal after mapping \<open>A\<close> to \<open>Z\<close> to lower case, and orders the others by the
  lower-cased characters.
\<close>

theorem strcasecmp_order:
  assumes "terminated s1" and "terminated s2"
  shows "strcasecmp s1 s2 =
     Inr (if (keys lower_key s1, keys lower_key s2) \<in> lexord {(x, y). x < y} then - 1
          else if map lower_key (chars s1) = map lower_key (chars s2) then 0 else 1)"
  by (rule strcasecmp_value [OF assms])

theorem strcasecmp_order_witness:
  "strcasecmp (lit ''KERNEL.ELF'') (lit ''kernel.elf'') = Inr 0"
  using strcasecmp_order [of "lit ''KERNEL.ELF''" "lit ''kernel.elf''"]
  by (simp add: lit_def keys_def of_char_def tolower_def)

text \<open>
  \<open>strchr\<close> on a terminated string returns the first occurrence of the character, \<open>NULL\<close> when
  there is none, and never the terminator; \<open>strcpy\<close> into a buffer with room copies the string and
  its terminator and leaves the rest of the buffer alone.
\<close>

theorem strchr_strcpy_spec:
  assumes "terminated s"
  shows "(\<exists>r. strchr s c = Inr r
       \<and> (case r of None \<Rightarrow> c \<notin> sint ` set (chars s)
          | Some k \<Rightarrow> k < length (chars s) \<and> sint (chars s ! k) = c
              \<and> c \<notin> sint ` set (take k (chars s))))
    \<and> strchr s 0 = Inr None
    \<and> (length (chars s) < length dest \<longrightarrow>
        strcpy dest s = Inr (chars s @ 0 # drop (length (chars s) + 1) dest))"
proof (intro conjI impI)
  obtain r where r: "strchr s c = Inr r"
    "case r of None \<Rightarrow> \<forall>j. \<not> char_at s c j
       | Some k \<Rightarrow> char_at s c k \<and> (\<forall>j < k. \<not> char_at s c j)"
    using strchr_spec [OF assms, of c] by blast
  have "case r of None \<Rightarrow> c \<notin> sint ` set (chars s)
      | Some k \<Rightarrow> k < length (chars s) \<and> sint (chars s ! k) = c \<and> c \<notin> sint ` set (take k (chars s))"
    using r(2)
    by (fastforce simp: char_at_def in_set_conv_nth nth_chars split: option.splits)
  with r(1) show "\<exists>r. strchr s c = Inr r
       \<and> (case r of None \<Rightarrow> c \<notin> sint ` set (chars s)
          | Some k \<Rightarrow> k < length (chars s) \<and> sint (chars s ! k) = c
              \<and> c \<notin> sint ` set (take k (chars s)))" by blast
  show "strchr s 0 = Inr None" using assms by (rule strchr_0)
  assume "length (chars s) < length dest"
  moreover have "take (length (chars s) + 1) s = chars s @ [0]"
    using length_chars_less [OF assms] nth_length_chars [OF assms] chars_eq_take [of s]
    by (simp add: take_Suc_conv_app_nth)
  ultimately show "strcpy dest s = Inr (chars s @ 0 # drop (length (chars s) + 1) dest)"
    using strcpy_loop_spec [OF assms, of dest 0] by (simp add: strcpy_def)
qed

theorem strchr_strcpy_spec_witness:
  "strcpy [0xFF, 0xFF, 0xFF, 0xFF, 0xFF, 0xFF] (lit ''abc'') = Inr [97, 98, 99, 0, 0xFF, 0xFF]
   \<and> strchr (lit ''abc'') 0 = Inr None"
  using strchr_strcpy_spec [of "lit ''abc''" 98 "[0xFF, 0xFF, 0xFF, 0xFF, 0xFF, 0xFF]"]
  by (simp add: lit_def of_char_def)

end
