(* ===== verification/Stdlib_Conv.thy ===== *)
theory Stdlib_Conv
  imports Stdlib_String
begin

text \<open>
  The number conversions of \<open>stdlib/stdlib.c\<close>: \<open>digits\<close>, \<open>utoa\<close>, \<open>utoa_lc\<close>, \<open>itoa\<close>, \<open>itoa_lc\<close> and
  \<open>atoi\<close>.

  \<open>unsigned int\<close> and \<open>int\<close> are 32-bit words; signed arithmetic wraps, as the compiled code does,
  and a negative \<open>int\<close> is a word whose \<open>sint\<close> is negative. A conversion that writes through
  \<open>str\<close> returns the new buffer and the pointer it returns, as an index into that buffer.
\<close>

section \<open>Model\<close>

function digits_loop :: "u32 \<Rightarrow> u32 \<Rightarrow> nat \<Rightarrow> nat res" where
  "digits_loop x base ret =
     (if x > 0 then
        if base = 0 then Inl Div_By_Zero
        else if base = 1 then Inl Diverges
        else digits_loop (x div base) base (ret + 1)
      else Inr ret)"
  by pat_completeness auto
termination
proof (relation "measure (\<lambda>(x, base, ret). unat x)", simp)
  fix x base :: u32 and ret :: nat
  assume "x > 0" and "base \<noteq> 0" and "base \<noteq> 1"
  then have "0 < unat x" and "1 < unat base"
    by (simp_all add: word_less_nat_alt)
       (metis One_nat_def Suc_lessI neq0_conv unat_1 unat_eq_0 word_unat_eq_iff)
  then show "((x div base, base, ret + 1), (x, base, ret)) \<in> measure (\<lambda>(x, base, ret). unat x)"
    by (simp add: unat_div)
qed

definition digits :: "u32 \<Rightarrow> int \<Rightarrow> nat res" where
  "digits x base = (if x = 0 then Inr 1 else digits_loop x (of_int base) 0)"

primrec utoa_loop :: "buf \<Rightarrow> u32 \<Rightarrow> u32 \<Rightarrow> buf \<Rightarrow> nat \<Rightarrow> buf res" where
  "utoa_loop alphabet base value str 0 = Inr str"
| "utoa_loop alphabet base value str (Suc i) =
     rbind (load alphabet (unat (value mod base))) (\<lambda>c.
     rbind (store str i c) (\<lambda>str.
       utoa_loop alphabet base (value div base) str i))"

definition utoa :: "u32 \<Rightarrow> buf \<Rightarrow> int \<Rightarrow> (buf \<times> nat option) res" where
  "utoa value str base =
     (if base < 2 \<or> base > 36 then Inr (str, None)
      else
        rbind (digits value base) (\<lambda>len.
        rbind (utoa_loop (lit ''0123456789ABCDEFGHIJKLMNOPQRSTUVWXYZ'') (of_int base) value str len) (\<lambda>str.
        rbind (store str len 0) (\<lambda>str. Inr (str, Some 0)))))"

definition utoa_lc :: "u32 \<Rightarrow> buf \<Rightarrow> int \<Rightarrow> (buf \<times> nat option) res" where
  "utoa_lc value str base =
     (if base < 2 \<or> base > 36 then Inr (str, None)
      else
        rbind (digits value base) (\<lambda>len.
        rbind (utoa_loop (lit ''0123456789abcdefghijklmnopqrstuvwxyz'') (of_int base) value str len) (\<lambda>str.
        rbind (store str len 0) (\<lambda>str. Inr (str, Some 0)))))"

definition itoa :: "u32 \<Rightarrow> buf \<Rightarrow> int \<Rightarrow> (buf \<times> nat option) res" where
  "itoa value str base =
     (if sint value < 0 then
        rbind (store str 0 (of_char (CHR ''-''))) (\<lambda>str.
        rbind (utoa (- value) (drop 1 str) base) (\<lambda>(rest, p).
          Inr (take 1 str @ rest, map_option Suc p)))
      else utoa value str base)"

definition itoa_lc :: "u32 \<Rightarrow> buf \<Rightarrow> int \<Rightarrow> (buf \<times> nat option) res" where
  "itoa_lc value str base =
     (if sint value < 0 then
        rbind (store str 0 (of_char (CHR ''-''))) (\<lambda>str.
        rbind (utoa_lc (- value) (drop 1 str) base) (\<lambda>(rest, p).
          Inr (take 1 str @ rest, map_option Suc p)))
      else utoa_lc value str base)"

function atoi_spaces :: "buf \<Rightarrow> nat \<Rightarrow> nat res" where
  "atoi_spaces str i =
     rbind (load str i) (\<lambda>c.
     rbind (isspace (sint c)) (\<lambda>sp. if sp then atoi_spaces str (i + 1) else Inr i))"
  by pat_completeness auto
termination
  by (relation "measure (\<lambda>(str, i). length str - i)") (auto simp: load_Inr_iff)

function atoi_digits :: "buf \<Rightarrow> nat \<Rightarrow> u32 \<Rightarrow> u32 res" where
  "atoi_digits str i ret =
     rbind (load str i) (\<lambda>c.
     rbind (strchr (lit ''0123456789'') (sint c)) (\<lambda>ptr.
       case ptr of
         None \<Rightarrow> Inr ret
       | Some d \<Rightarrow> atoi_digits str (i + 1) (ret * 10 + of_nat d)))"
  by pat_completeness auto
termination
  by (relation "measure (\<lambda>(str, i, ret). length str - i)") (auto simp: load_Inr_iff)

definition atoi :: "buf \<Rightarrow> u32 res" where
  "atoi str =
     rbind (atoi_spaces str 0) (\<lambda>i.
     rbind (load str i) (\<lambda>c.
       let (sign, i) = (if c = of_char (CHR ''-'') then (- 1, i + 1)
                        else if c = of_char (CHR ''+'') then (1, i + 1) else (1, i))
       in rbind (atoi_digits str i 0) (\<lambda>ret. Inr (ret * sign))))"

declare digits_loop.simps [simp del] atoi_spaces.simps [simp del] atoi_digits.simps [simp del]

section \<open>Positional representation\<close>

text \<open>The digits of \<open>n\<close> in base \<open>b\<close>, most significant first: the reference for \<open>utoa\<close>.\<close>

fun rep :: "nat \<Rightarrow> nat \<Rightarrow> nat list" where
  "rep b n = (if b < 2 \<or> n < b then [n] else rep b (n div b) @ [n mod b])"

declare rep.simps [simp del]

definition value_of :: "nat \<Rightarrow> nat list \<Rightarrow> nat" where
  "value_of b ds = foldl (\<lambda>a d. a * b + d) 0 ds"

lemma rep_ne [simp]: "rep b n \<noteq> []"
  by (subst rep.simps) simp

lemma value_of_rep: "value_of b (rep b n) = n"
proof (induction b n rule: rep.induct)
  case (1 b n)
  then show ?case
    by (cases "b < 2 \<or> n < b") (simp_all add: rep.simps [of b n] value_of_def)
qed

lemma rep_digits: "2 \<le> b \<Longrightarrow> d \<in> set (rep b n) \<Longrightarrow> d < b"
proof (induction b n rule: rep.induct)
  case (1 b n)
  then show ?case by (cases "n < b") (auto simp: rep.simps [of b n])
qed

lemma length_rep_le: "2 \<le> b \<Longrightarrow> n < b ^ k \<Longrightarrow> 0 < k \<Longrightarrow> length (rep b n) \<le> k"
proof (induction k arbitrary: n)
  case (Suc k)
  show ?case
  proof (cases "n < b")
    case True
    then show ?thesis by (simp add: rep.simps [of b n])
  next
    case False
    with Suc.prems have "0 < k" by (cases k) auto
    moreover have "n div b < b ^ k"
      using Suc.prems by (simp add: less_mult_imp_div_less mult.commute)
    ultimately have "length (rep b (n div b)) \<le> k" using Suc.IH Suc.prems(1) by blast
    with False Suc.prems(1) show ?thesis by (simp add: rep.simps [of b n])
  qed
qed simp

lemma hd_rep: "2 \<le> b \<Longrightarrow> hd (rep b n) = 0 \<Longrightarrow> n = 0"
proof (induction b n rule: rep.induct)
  case (1 b n)
  then show ?case
    by (cases "n < b") (auto simp: rep.simps [of b n] div_eq_0_iff)
qed

text \<open>The \<open>k\<close> lowest digits, as the loop of \<open>utoa\<close> produces them from the right.\<close>

primrec low_digits :: "nat \<Rightarrow> nat \<Rightarrow> nat \<Rightarrow> nat list" where
  "low_digits b 0 n = []"
| "low_digits b (Suc k) n = low_digits b k (n div b) @ [n mod b]"

lemma length_low_digits [simp]: "length (low_digits b k n) = k"
  by (induction k arbitrary: n) simp_all

lemma low_digits_rep: "2 \<le> b \<Longrightarrow> low_digits b (length (rep b n)) n = rep b n"
proof (induction b n rule: rep.induct)
  case (1 b n)
  then show ?case by (cases "n < b") (simp_all add: rep.simps [of b n])
qed

section \<open>utoa and itoa\<close>

lemma unat_of_int_base: "2 \<le> base \<Longrightarrow> base \<le> 36 \<Longrightarrow> unat (of_int base :: u32) = nat base"
  by (simp add: unat_eq_nat_uint uint_word_of_int nat_mod_distrib)

lemma digits_loop_spec:
  assumes "2 \<le> unat base"
  shows "digits_loop x base ret
     = Inr (if x = 0 then ret else ret + length (rep (unat base) (unat x)))"
  using assms
proof (induction x base ret rule: digits_loop.induct)
  case (1 x base ret)
  show ?case
  proof (cases "x = 0")
    case True
    then show ?thesis by (subst digits_loop.simps) simp
  next
    case False
    then have pos: "x > 0" by (simp add: word_neq_0_conv)
    have b: "base \<noteq> 0" "base \<noteq> 1" using "1.prems" by auto
    have zero: "x div base = 0 \<longleftrightarrow> unat x < unat base"
      using "1.prems" by (auto simp: word_unat_eq_iff unat_div div_eq_0_iff)
    show ?thesis
      using "1.IH" [OF pos b "1.prems"] pos b False zero "1.prems"
      by (simp add: digits_loop.simps [of x base ret] rep.simps [of "unat base" "unat x"] unat_div)
  qed
qed

lemma digits_spec:
  assumes "2 \<le> base" and "base \<le> 36"
  shows "digits x base = Inr (length (rep (nat base) (unat x)))"
  using assms digits_loop_spec [of "of_int base" x 0] unat_of_int_base [OF assms]
  by (auto simp: digits_def rep.simps [of "nat base" 0])

lemma utoa_loop_spec:
  assumes "0 < unat base" and "unat base \<le> length alphabet" and "n \<le> length str"
  shows "utoa_loop alphabet base v str n
     = Inr (map ((!) alphabet) (low_digits (unat base) n (unat v)) @ drop n str)"
  using assms
proof (induction n arbitrary: v str)
  case (Suc n)
  have ix: "unat (v mod base) = unat v mod unat base" by (rule unat_mod)
  then have lt: "unat (v mod base) < length alphabet"
    using Suc.prems by (metis mod_less_divisor less_le_trans)
  have "drop n (str[n := c]) = c # drop (Suc n) str" for c
    using Suc.prems by (simp add: drop_update_swap Cons_nth_drop_Suc [symmetric])
  with Suc lt show ?case by (simp add: ix unat_div)
qed simp

definition digit_chars :: "buf \<Rightarrow> nat \<Rightarrow> nat \<Rightarrow> u8 list" where
  "digit_chars alphabet b n = map ((!) alphabet) (rep b n)"

lemma utoa_any_spec:
  assumes base: "2 \<le> base" "base \<le> 36" and alpha: "36 \<le> length alphabet"
    and room: "length (rep (nat base) (unat v)) < length str"
  shows "rbind (digits v base) (\<lambda>len.
        rbind (utoa_loop alphabet (of_int base) v str len) (\<lambda>str.
        rbind (store str len 0) (\<lambda>str. Inr (str, Some (0 :: nat)))))
     = Inr (digit_chars alphabet (nat base) (unat v)
              @ 0 # drop (length (rep (nat base) (unat v)) + 1) str, Some 0)"
proof -
  let ?n = "length (rep (nat base) (unat v))"
  have b: "unat (of_int base :: u32) = nat base" by (rule unat_of_int_base [OF base])
  have loop: "utoa_loop alphabet (of_int base) v str ?n
      = Inr (digit_chars alphabet (nat base) (unat v) @ drop ?n str)"
    using utoa_loop_spec [of "of_int base" alphabet ?n str v] b base alpha room
      low_digits_rep [of "nat base" "unat v"]
    by (simp add: digit_chars_def)
  have "drop ?n str = str ! ?n # drop (?n + 1) str"
    using room by (simp add: Cons_nth_drop_Suc)
  with loop show ?thesis
    by (simp add: digits_spec [OF base] digit_chars_def list_update_append)
qed

lemma utoa_spec:
  assumes "2 \<le> base" and "base \<le> 36" and "length (rep (nat base) (unat v)) < length str"
  shows "utoa v str base = Inr (digit_chars (lit ''0123456789ABCDEFGHIJKLMNOPQRSTUVWXYZ'') (nat base) (unat v)
              @ 0 # drop (length (rep (nat base) (unat v)) + 1) str, Some 0)"
  using assms utoa_any_spec [OF assms(1,2) _ assms(3)] by (simp add: utoa_def lit_def)

lemma utoa_lc_spec:
  assumes "2 \<le> base" and "base \<le> 36" and "length (rep (nat base) (unat v)) < length str"
  shows "utoa_lc v str base = Inr (digit_chars (lit ''0123456789abcdefghijklmnopqrstuvwxyz'') (nat base) (unat v)
              @ 0 # drop (length (rep (nat base) (unat v)) + 1) str, Some 0)"
  using assms utoa_any_spec [OF assms(1,2) _ assms(3)] by (simp add: utoa_lc_def lit_def)

section \<open>atoi\<close>

lemma isspace_iff: "isspace c = Inr (c \<in> {32, 9, 10, 11, 12, 13})"
proof -
  let ?s = "[32, 9, 10, 11, 12, 13, 0] :: buf"
  have lit: "map of_char [CHR '' '', CHR 0x09, CHR 0x0A, CHR 0x0B, CHR 0x0C, CHR 0x0D] @ [0] = ?s"
    by (simp add: of_char_def)
  have "(\<exists>j. char_at ?s c j) \<longleftrightarrow> c \<in> {32, 9, 10, 11, 12, 13}"
    by (auto simp: ex_char_at_iff)
  moreover obtain r where "strchr ?s c = Inr r"
    "case r of None \<Rightarrow> \<forall>j. \<not> char_at ?s c j
       | Some k \<Rightarrow> char_at ?s c k \<and> (\<forall>j < k. \<not> char_at ?s c j)"
    using strchr_spec [of ?s c] by (auto simp: terminated_def)
  ultimately show ?thesis
    unfolding isspace_def lit by (auto split: option.splits)
qed


text \<open>The first index of a digit in \<open>digits\<close> is its value; nothing else is found.\<close>

definition is_digit :: "u8 \<Rightarrow> bool" where
  "is_digit c \<longleftrightarrow> 48 \<le> sint c \<and> sint c \<le> 57"

definition digit_val :: "u8 \<Rightarrow> nat" where
  "digit_val c = nat (sint c - 48)"

lemma lit_digits: "lit ''0123456789'' = [48, 49, 50, 51, 52, 53, 54, 55, 56, 57, 0]"
  by (simp add: lit_def of_char_def)

lemma strchr_digits:
  "strchr (lit ''0123456789'') (sint c) = Inr (if is_digit c then Some (digit_val c) else None)"
proof -
  let ?s = "[48, 49, 50, 51, 52, 53, 54, 55, 56, 57, 0] :: buf"
  have t: "terminated ?s" by (simp add: terminated_def)
  have len: "length (chars ?s) = 10" by simp
  have nth: "sint (?s ! j) = 48 + int j" if "j < 10" for j
    using that by (auto simp: less_Suc_eq numeral_eq_Suc)
  have at: "char_at ?s (sint c) j \<longleftrightarrow> j < 10 \<and> sint c = 48 + int j" for j
    using nth [of j] by (auto simp: char_at_def len)
  obtain r where r: "strchr ?s (sint c) = Inr r"
    "case r of None \<Rightarrow> \<forall>j. \<not> char_at ?s (sint c) j
       | Some k \<Rightarrow> char_at ?s (sint c) k \<and> (\<forall>j < k. \<not> char_at ?s (sint c) j)"
    using strchr_spec [OF t, of "sint c"] by blast
  show ?thesis
  proof (cases r)
    case None
    with r(2) at [of "digit_val c"] have "\<not> is_digit c"
      by (auto simp: is_digit_def digit_val_def)
    with r(1) None show ?thesis by (simp add: lit_digits)
  next
    case (Some k)
    with r(2) at [of k] have "is_digit c" "digit_val c = k"
      by (auto simp: is_digit_def digit_val_def)
    with r(1) Some show ?thesis by (simp add: lit_digits)
  qed
qed

lemma atoi_digits_spec:
  assumes "drop i str = ds @ c # rest" and "\<forall>d \<in> set ds. is_digit d" and "\<not> is_digit c"
  shows "atoi_digits str i (of_nat acc)
     = Inr (of_nat (foldl (\<lambda>a d. a * 10 + d) acc (map digit_val ds)))"
  using assms
proof (induction ds arbitrary: i acc)
  case Nil
  then have "i < length str" "str ! i = c" using drop_eq_ConsD [of i str c rest] by auto
  with Nil show ?case by (subst atoi_digits.simps) (simp add: strchr_digits)
next
  case (Cons d ds)
  then have i: "i < length str" "str ! i = d" "drop (i + 1) str = ds @ c # rest"
    using drop_eq_ConsD [of i str d "ds @ c # rest"] by auto
  have "atoi_digits str (i + 1) (of_nat (acc * 10 + digit_val d))
      = Inr (of_nat (foldl (\<lambda>a d. a * 10 + d) (acc * 10 + digit_val d) (map digit_val ds)))"
    using i(3) Cons.prems by (intro Cons.IH) auto
  with Cons.prems i show ?case by (subst atoi_digits.simps) (simp add: strchr_digits)
qed

lemma atoi_spaces_spec:
  assumes "drop i str = ws @ c # rest" and "\<forall>w \<in> set ws. sint w \<in> {32, 9, 10, 11, 12, 13}"
    and "sint c \<notin> {32, 9, 10, 11, 12, 13}"
  shows "atoi_spaces str i = Inr (i + length ws)"
  using assms
proof (induction ws arbitrary: i)
  case Nil
  then have "i < length str" "str ! i = c" using drop_eq_ConsD [of i str c rest] by auto
  with Nil show ?case by (subst atoi_spaces.simps) (simp add: isspace_iff)
next
  case (Cons w ws)
  then have i: "i < length str" "str ! i = w" "drop (i + 1) str = ws @ c # rest"
    using drop_eq_ConsD [of i str w "ws @ c # rest"] by auto
  have "atoi_spaces str (i + 1) = Inr (i + 1 + length ws)"
    using i(3) Cons.prems by (intro Cons.IH) auto
  with Cons.prems i show ?case by (subst atoi_spaces.simps) (simp add: isspace_iff)
qed

text \<open>Blanks, an optional sign, digits and any other character: the accepted text and its value.\<close>

datatype sign = No_Sign | Plus | Minus

fun sign_chars :: "sign \<Rightarrow> u8 list" where
  "sign_chars No_Sign = []"
| "sign_chars Plus = [43]"
| "sign_chars Minus = [45]"

fun sign_val :: "sign \<Rightarrow> u32" where
  "sign_val Minus = - 1"
| "sign_val _ = 1"

definition number_text :: "u8 list \<Rightarrow> sign \<Rightarrow> u8 list \<Rightarrow> u8 \<Rightarrow> bool" where
  "number_text ws sg ds c \<longleftrightarrow>
     (\<forall>w \<in> set ws. sint w \<in> {32, 9, 10, 11, 12, 13}) \<and> (\<forall>d \<in> set ds. is_digit d) \<and> \<not> is_digit c
     \<and> (ds = [] \<and> sg = No_Sign \<longrightarrow> sint c \<notin> {32, 9, 10, 11, 12, 13} \<and> c \<noteq> 43 \<and> c \<noteq> 45)"

lemma digit_not_special:
  assumes "is_digit d"
  shows "sint d \<notin> {32, 9, 10, 11, 12, 13}" and "d \<noteq> 43" and "d \<noteq> 45"
  using assms by (auto simp: is_digit_def)

lemma atoi_spec:
  assumes "number_text ws sg ds c"
  shows "atoi (ws @ sign_chars sg @ ds @ c # rest)
     = Inr (of_nat (value_of 10 (map digit_val ds)) * sign_val sg)"
proof -
  let ?str = "ws @ sign_chars sg @ ds @ c # rest"
  have ws: "\<forall>w \<in> set ws. sint w \<in> {32, 9, 10, 11, 12, 13}" and dsc: "\<forall>d \<in> set ds. is_digit d" "\<not> is_digit c"
    and first: "ds = [] \<and> sg = No_Sign \<longrightarrow> sint c \<notin> {32, 9, 10, 11, 12, 13} \<and> c \<noteq> 43 \<and> c \<noteq> 45"
    using assms unfolding number_text_def by blast+
  obtain h t where ht: "sign_chars sg @ ds @ c # rest = h # t"
    by (cases "sign_chars sg @ ds @ c # rest") auto
  have h: "sint h \<notin> {32, 9, 10, 11, 12, 13}"
    using ht first dsc digit_not_special by (cases sg; cases ds) auto
  have sp: "atoi_spaces ?str 0 = Inr (length ws)"
    using atoi_spaces_spec [of 0 ?str ws h t] ht ws h by simp
  have dig: "atoi_digits ?str (length ws + length (sign_chars sg)) 0
      = Inr (of_nat (value_of 10 (map digit_val ds)))"
    using atoi_digits_spec [of "length ws + length (sign_chars sg)" ?str ds c rest 0] dsc
    by (simp add: value_of_def)
  have ld: "load ?str (length ws) = Inr h" using ht by (simp add: load_def nth_append)
  show ?thesis
  proof (cases sg)
    case No_Sign
    then have "h \<noteq> 43" "h \<noteq> 45"
      using ht first dsc digit_not_special by (cases ds; auto)+
    with No_Sign sp ld dig show ?thesis by (simp add: atoi_def of_char_def)
  qed (use ht sp ld dig in \<open>simp_all add: atoi_def of_char_def\<close>)
qed

section \<open>Digits read back\<close>

lemma length_rep_u32: "2 \<le> b \<Longrightarrow> length (rep b (unat (v :: u32))) \<le> 32"
proof (rule length_rep_le)
  assume b: "2 \<le> b"
  have "unat v < 2 ^ 32" using unat_u32_less [of v] by simp
  also have "(2 :: nat) ^ 32 \<le> b ^ 32" using b by (intro power_mono) auto
  finally show "unat v < b ^ 32" .
qed simp_all

abbreviation (input) decimal :: buf where
  "decimal \<equiv> lit ''0123456789ABCDEFGHIJKLMNOPQRSTUVWXYZ''"

lemma decimal_nth: "d < 10 \<Longrightarrow> decimal ! d = 48 + of_nat d"
  by (auto simp: lit_def of_char_def less_Suc_eq numeral_eq_Suc)

lemma sint_decimal: "d < 10 \<Longrightarrow> sint (48 + of_nat d :: u8) = 48 + int d"
  by (auto simp: less_Suc_eq numeral_eq_Suc)

lemma digit_decimal: "d < 10 \<Longrightarrow> is_digit (decimal ! d) \<and> digit_val (decimal ! d) = d"
  by (simp add: decimal_nth sint_decimal is_digit_def digit_val_def)

lemma digit_chars_decimal:
  "\<forall>c \<in> set (digit_chars decimal 10 n). is_digit c"
  "map digit_val (digit_chars decimal 10 n) = rep 10 n"
  using rep_digits [of 10 _ n] digit_decimal
  by (auto simp: digit_chars_def intro!: map_idI)

lemma atoi_decimal:
  assumes "sg = No_Sign \<or> sg = Minus"
  shows "atoi (sign_chars sg @ digit_chars decimal 10 n @ 0 # rest) = Inr (of_nat n * sign_val sg)"
proof -
  have "digit_chars decimal 10 n \<noteq> []" by (simp add: digit_chars_def)
  moreover have "\<not> is_digit 0" by (simp add: is_digit_def)
  ultimately have "number_text [] sg (digit_chars decimal 10 n) 0"
    using digit_chars_decimal(1) by (simp add: number_text_def)
  from atoi_spec [OF this] show ?thesis
    by (simp add: digit_chars_decimal(2) value_of_rep)
qed

lemma itoa_any_spec:
  assumes "2 \<le> base" and "base \<le> 36"
    and "length (rep (nat base) (unat v)) + 1 < length str"
    and "length (rep (nat base) (unat (- v))) + 1 < length str"
  shows "itoa v str base =
     (if sint v < 0 then
        Inr ([45] @ digit_chars decimal (nat base) (unat (- v))
               @ 0 # drop (length (rep (nat base) (unat (- v))) + 2) str, Some 1)
      else Inr (digit_chars decimal (nat base) (unat v)
               @ 0 # drop (length (rep (nat base) (unat v)) + 1) str, Some 0))"
proof -
  obtain x xs where "str = x # xs" using assms(3) by (cases str) auto
  with assms utoa_spec [OF assms(1,2), of "- v" xs] utoa_spec [OF assms(1,2), of v str]
  show ?thesis by (simp add: itoa_def of_char_def)
qed

lemma itoa_spec:
  assumes "2 \<le> base" and "base \<le> 36" and "33 < length str"
  shows "itoa v str base =
     (if sint v < 0 then
        Inr ([45] @ digit_chars decimal (nat base) (unat (- v))
               @ 0 # drop (length (rep (nat base) (unat (- v))) + 2) str, Some 1)
      else Inr (digit_chars decimal (nat base) (unat v)
               @ 0 # drop (length (rep (nat base) (unat v)) + 1) str, Some 0))"
proof -
  have len: "length (rep (nat base) (unat w)) + 1 < length str" for w :: u32
    using assms length_rep_u32 [of "nat base" w] by linarith
  show ?thesis by (rule itoa_any_spec [OF assms(1,2) len len])
qed

section \<open>Properties\<close>

text \<open>
  \<open>utoa\<close> and \<open>utoa_lc\<close> write, for every base from 2 to 36, exactly the digits of the value in
  that base, most significant first and without leading zeros, then the terminator, and return
  \<open>str\<close>; any other base is refused with \<open>NULL\<close> and an untouched buffer. At most 32 digits are
  written, so a buffer of 33 bytes is enough for every value.
\<close>

theorem utoa_represents:
  assumes "33 \<le> length str" and "ds = rep (nat base) (unat v)"
  shows "if base < 2 \<or> 36 < base then
      utoa v str base = Inr (str, None) \<and> utoa_lc v str base = Inr (str, None)
    else
      utoa v str base = Inr (digit_chars (lit ''0123456789ABCDEFGHIJKLMNOPQRSTUVWXYZ'') (nat base) (unat v)
         @ 0 # drop (length ds + 1) str, Some 0)
    \<and> utoa_lc v str base = Inr (digit_chars (lit ''0123456789abcdefghijklmnopqrstuvwxyz'') (nat base) (unat v)
         @ 0 # drop (length ds + 1) str, Some 0)
    \<and> value_of (nat base) ds = unat v \<and> (\<forall>d \<in> set ds. d < nat base) \<and> length ds \<le> 32
    \<and> (hd ds = 0 \<longrightarrow> v = 0)"
proof (cases "base < 2 \<or> 36 < base")
  case True
  then show ?thesis by (auto simp: utoa_def utoa_lc_def)
next
  case False
  then have base: "2 \<le> base" "base \<le> 36" and b: "2 \<le> nat base" by linarith+
  have len: "length ds \<le> 32" using b unfolding assms(2) by (rule length_rep_u32)
  then have room: "length (rep (nat base) (unat v)) < length str" using assms by simp
  have "\<forall>d \<in> set ds. d < nat base" using rep_digits [OF b] assms(2) by blast
  moreover have "hd ds = 0 \<longrightarrow> v = 0"
    using hd_rep [OF b, of "unat v"] unfolding assms(2) by (simp add: unat_eq_0)
  ultimately show ?thesis
    using False len unfolding utoa_spec [OF base room] utoa_lc_spec [OF base room] assms(2)
    by (simp only: value_of_rep if_False)
qed

theorem utoa_represents_witness:
  "utoa 0xBEEF (replicate 33 0) 16 = Inr ([66, 69, 69, 70] @ 0 # replicate 28 0, Some 0)
   \<and> utoa 5 (replicate 33 1) 37 = Inr (replicate 33 1, None)"
proof -
  have "rep 16 48879 = [11, 14, 14, 15]" by (simp add: rep.simps)
  then show ?thesis
    using utoa_represents [OF _ refl, of "replicate 33 0" 16 "0xBEEF"]
      utoa_represents [OF _ refl, of "replicate 33 1" 37 5]
    by (simp add: digit_chars_def lit_def of_char_def)
qed

text \<open>
  C4: \<open>atoi\<close> reads back every \<open>int\<close> that \<open>itoa\<close> prints in decimal, including the most negative
  one, whose absolute value is not an \<open>int\<close>. For a negative value \<open>itoa\<close> returns the address of the
  first digit, not of the buffer: the sign is in front of the returned pointer.
\<close>

theorem atoi_itoa:
  assumes "33 < length str"
  shows "\<exists>str' p. itoa v str 10 = Inr (str', Some p) \<and> length str' = length str
    \<and> atoi str' = Inr v \<and> p = (if sint v < 0 then 1 else 0)"
proof -
  have len: "length (rep 10 (unat w)) \<le> 32" for w :: u32 by (rule length_rep_u32) simp
  show ?thesis
  proof (cases "sint v < 0")
    case True
    then show ?thesis
      using itoa_spec [of 10 str v] assms len [of "- v"] atoi_decimal [of Minus "unat (- v)"]
      by (auto simp: digit_chars_def)
  next
    case False
    then show ?thesis
      using itoa_spec [of 10 str v] assms len [of v] atoi_decimal [of No_Sign "unat v"]
      by (auto simp: digit_chars_def)
  qed
qed

theorem atoi_itoa_witness:
  "\<exists>str' p. itoa 0x80000000 (replicate 34 0) 10 = Inr (str', Some p) \<and> length str' = 34
     \<and> atoi str' = Inr 0x80000000 \<and> p = 1"
  using atoi_itoa [of "replicate 34 0" "0x80000000"] by simp

text \<open>
  \<open>atoi\<close> skips white space, reads an optional sign and then decimal digits up to the first
  other character, and returns the signed value reduced modulo 2^32; it needs no more of the string
  than that character.
\<close>

theorem atoi_reads_number:
  assumes "number_text ws sg ds c"
  shows "atoi (ws @ sign_chars sg @ ds @ c # rest)
     = Inr (word_of_int (int (value_of 10 (map digit_val ds)) * (if sg = Minus then - 1 else 1)))"
  using atoi_spec [OF assms, of rest] by (cases sg) simp_all

theorem atoi_reads_number_witness:
  "atoi (lit ''  -42x'') = Inr (- 42)"
proof -
  have "number_text [32, 32] Minus [52, 50] 120" by (simp add: number_text_def is_digit_def)
  from atoi_reads_number [OF this, of "[0]"] show ?thesis
    by (simp add: lit_def of_char_def value_of_def digit_val_def)
qed

end
