(* ===== verification/Vga_Terminal.thy ===== *)
theory Vga_Terminal
  imports Kernel_Prelude
begin

text \<open>
  The text terminal of \<open>io/vga_terminal.c\<close> and \<open>io/vga_terminal.h\<close>.

  The state holds the module's static variables, the 80x25 cells of video memory and the 16-bit
  port writes made so far (the hardware cursor is programmed through them). Coordinates are the
  \<open>unsigned int\<close>s of the source, each cell access is bounds-checked, and a failed \<open>assert\<close> is a
  fault. The specification is a terminal with a flat list of cells and one position.
\<close>

section \<open>Model\<close>

definition VGA_COLOR_BLACK :: "4 word" where "VGA_COLOR_BLACK = 0x0"
definition VGA_COLOR_CYAN :: "4 word" where "VGA_COLOR_CYAN = 0x3"
definition VGA_COLOR_RED :: "4 word" where "VGA_COLOR_RED = 0x4"

definition VGA_COLOR_LIGHT :: "4 word \<Rightarrow> 4 word" where
  "VGA_COLOR_LIGHT color = color OR 0x8"

record VgaColorScheme =
  foreground :: "4 word"
  background :: "4 word"

record VgaEntry =
  character :: u8
  color_scheme :: VgaColorScheme

definition default_color_scheme :: VgaColorScheme where
  "default_color_scheme = \<lparr>foreground = VGA_COLOR_LIGHT VGA_COLOR_CYAN, background = VGA_COLOR_BLACK\<rparr>"

definition err_color_scheme :: VgaColorScheme where
  "err_color_scheme = \<lparr>foreground = VGA_COLOR_LIGHT VGA_COLOR_RED, background = VGA_COLOR_BLACK\<rparr>"

definition VGA_BUFFER_HEIGHT :: u32 where "VGA_BUFFER_HEIGHT = 25"
definition VGA_BUFFER_WIDTH :: u32 where "VGA_BUFFER_WIDTH = 80"

record vga =
  current_color_scheme :: VgaColorScheme
  vga_buffer :: "VgaEntry list"
  current_x :: u32
  current_y :: u32
  port_writes16 :: "(u16 \<times> u16) list"  \<comment> \<open>\<open>PortWrite16(port, value)\<close>, oldest first\<close>

definition SetEntryAt :: "u32 \<Rightarrow> u32 \<Rightarrow> VgaEntry \<Rightarrow> vga \<Rightarrow> vga res" where
  "SetEntryAt x y entry s =
     rbind (c_assert (x < VGA_BUFFER_WIDTH \<and> y < VGA_BUFFER_HEIGHT)) (\<lambda>_.
     let i = y * VGA_BUFFER_WIDTH + x in
     rbind (store (vga_buffer s) (unat i) entry) (\<lambda>b. Inr (s\<lparr>vga_buffer := b\<rparr>)))"

definition GetEntryAt :: "u32 \<Rightarrow> u32 \<Rightarrow> vga \<Rightarrow> VgaEntry res" where
  "GetEntryAt x y s =
     rbind (c_assert (x < VGA_BUFFER_WIDTH \<and> y < VGA_BUFFER_HEIGHT)) (\<lambda>_.
     let i = y * VGA_BUFFER_WIDTH + x in load (vga_buffer s) (unat i))"

definition ConstructVgaEntry :: "u8 \<Rightarrow> VgaColorScheme \<Rightarrow> VgaEntry" where
  "ConstructVgaEntry ch scheme = \<lparr>character = ch, color_scheme = scheme\<rparr>"

definition PortWrite16 :: "u16 \<Rightarrow> u16 \<Rightarrow> vga \<Rightarrow> vga" where
  "PortWrite16 port v s = s\<lparr>port_writes16 := port_writes16 s @ [(port, v)]\<rparr>"

definition MoveCursorAt :: "u32 \<Rightarrow> u32 \<Rightarrow> vga \<Rightarrow> vga res" where
  "MoveCursorAt x y s =
     rbind (c_assert (x < VGA_BUFFER_WIDTH \<and> y < VGA_BUFFER_HEIGHT)) (\<lambda>_.
     let s = s\<lparr>current_x := x, current_y := y\<rparr>;
         pos = y * VGA_BUFFER_WIDTH + x;
         low = push_bit 8 (ucast (pos AND 0xFF) :: u16) OR 0x0F;
         high = ucast (pos AND 0xFF00) OR 0x0E;
         s = PortWrite16 0x3D4 low s;
         s = PortWrite16 0x3D4 high s
     in Inr s)"

definition Scroll :: "vga \<Rightarrow> vga res" where
  "Scroll s =
     rbind (rfold (\<lambda>y. rfold (\<lambda>x s.
              rbind (GetEntryAt (of_nat x) (of_nat y) s) (\<lambda>entry.
                SetEntryAt (of_nat x) (of_nat y - 1) entry s)) [0..<unat VGA_BUFFER_WIDTH])
              [1..<unat VGA_BUFFER_HEIGHT] s) (\<lambda>s.
     let whitespace = ConstructVgaEntry (of_char (CHR '' '')) (current_color_scheme s) in
     rbind (rfold (\<lambda>x. SetEntryAt (of_nat x) (VGA_BUFFER_HEIGHT - 1) whitespace)
              [0..<unat VGA_BUFFER_WIDTH] s) (\<lambda>s.
       MoveCursorAt (current_x s) (current_y s - 1) s))"

lemma rfold_current_y:
  assumes "\<And>i s s'. f i s = Inr s' \<Longrightarrow> current_y s' = current_y s" and "rfold f xs s = Inr s'"
  shows "current_y s' = current_y s"
  using assms(2) by (induction xs arbitrary: s) (auto simp: rbind_Inr_iff dest: assms(1))

lemma SetEntryAt_current_y: "SetEntryAt x y entry s = Inr s' \<Longrightarrow> current_y s' = current_y s"
  by (auto simp: SetEntryAt_def Let_def rbind_Inr_iff)

lemma Scroll_current_y:
  assumes "Scroll s = Inr s'"
  shows "unat (current_y s') < unat (current_y s)"
proof -
  let ?row = "\<lambda>y. rfold (\<lambda>x s. rbind (GetEntryAt (of_nat x) (of_nat y) s) (\<lambda>entry.
      SetEntryAt (of_nat x) (of_nat y - 1) entry s)) [0..<unat VGA_BUFFER_WIDTH]"
  obtain s1 s2 where 1: "rfold ?row [1..<unat VGA_BUFFER_HEIGHT] s = Inr s1"
    and 2: "rfold (\<lambda>x. SetEntryAt (of_nat x) (VGA_BUFFER_HEIGHT - 1)
        (ConstructVgaEntry (of_char (CHR '' '')) (current_color_scheme s1)))
        [0..<unat VGA_BUFFER_WIDTH] s1 = Inr s2"
    and 3: "MoveCursorAt (current_x s2) (current_y s2 - 1) s2 = Inr s'"
    using assms by (auto simp: Scroll_def Let_def rbind_Inr_iff)
  have "current_y s1 = current_y s"
    by (rule rfold_current_y [OF _ 1], erule rfold_current_y [rotated])
       (auto simp: rbind_Inr_iff dest: SetEntryAt_current_y)
  moreover have "current_y s2 = current_y s1"
    by (rule rfold_current_y [OF _ 2]) (rule SetEntryAt_current_y)
  moreover have "current_y s' = current_y s2 - 1" "current_y s2 - 1 < 25"
    using 3 by (auto simp: MoveCursorAt_def PortWrite16_def Let_def rbind_Inr_iff VGA_BUFFER_HEIGHT_def)
  moreover have "unat (y - 1) < unat y" if "y - 1 < 25" for y :: u32
    using that by (cases "y = 0") (simp_all add: unat_minus_one unat_gt_0)
  ultimately show ?thesis by simp
qed

function AdvanceCursor_loop :: "u32 \<Rightarrow> vga \<Rightarrow> vga res" where
  "AdvanceCursor_loop lines s =
     (if current_y s + lines \<ge> VGA_BUFFER_HEIGHT then rbind (Scroll s) (AdvanceCursor_loop lines)
      else Inr s)"
  by pat_completeness auto
termination
  by (relation "measure (\<lambda>(lines, s). unat (current_y s))") (auto dest: Scroll_current_y)

definition AdvanceCursor :: "u32 \<Rightarrow> vga \<Rightarrow> vga res" where
  "AdvanceCursor n s =
     (let v = current_x s + n;
          lines = v div VGA_BUFFER_WIDTH;
          new_x = v mod VGA_BUFFER_WIDTH in
      rbind (AdvanceCursor_loop lines s) (\<lambda>s. MoveCursorAt new_x (current_y s + lines) s))"

definition VgaTerminalSwitchColorScheme :: "VgaColorScheme \<Rightarrow> vga \<Rightarrow> vga" where
  "VgaTerminalSwitchColorScheme scheme s = s\<lparr>current_color_scheme := scheme\<rparr>"

definition VgaTerminalGetColorScheme :: "vga \<Rightarrow> VgaColorScheme" where
  "VgaTerminalGetColorScheme s = current_color_scheme s"

definition VgaTerminalInit :: "vga \<Rightarrow> vga res" where
  "VgaTerminalInit s =
     rbind (MoveCursorAt 0 0 s) (\<lambda>s.
     let s = VgaTerminalSwitchColorScheme default_color_scheme s;
         whitespace = ConstructVgaEntry (of_char (CHR '' '')) (current_color_scheme s) in
     rfold (\<lambda>y. rfold (\<lambda>x. SetEntryAt (of_nat x) (of_nat y) whitespace) [0..<unat VGA_BUFFER_WIDTH])
       [0..<unat VGA_BUFFER_HEIGHT] s)"

definition VgaTerminalPut :: "u8 \<Rightarrow> vga \<Rightarrow> vga res" where
  "VgaTerminalPut c s =
     (if c = of_char (CHR ''\<newline>'') then AdvanceCursor (VGA_BUFFER_WIDTH - current_x s) s
      else rbind (SetEntryAt (current_x s) (current_y s)
                   (ConstructVgaEntry c (current_color_scheme s)) s) (\<lambda>s. AdvanceCursor 1 s))"

declare AdvanceCursor_loop.simps [simp del]

section \<open>Specification\<close>

text \<open>
  The terminal a user sees: 25 lines of 80 cells in one list, the position of the next character
  and the colours in use.
\<close>

record screen =
  cells :: "VgaEntry list"
  pos :: nat
  colours :: VgaColorScheme

definition blank :: "VgaColorScheme \<Rightarrow> VgaEntry" where
  "blank c = \<lparr>character = 32, color_scheme = c\<rparr>"

definition feed :: "screen \<Rightarrow> screen" where
  "feed t = (if pos t < 2000 then t
     else t\<lparr>cells := drop 80 (cells t) @ replicate 80 (blank (colours t)), pos := pos t - 80\<rparr>)"

definition screen_put :: "u8 \<Rightarrow> screen \<Rightarrow> screen" where
  "screen_put c t =
     (if c = 10 then feed (t\<lparr>pos := (pos t div 80 + 1) * 80\<rparr>)
      else feed (t\<lparr>cells := (cells t)[pos t := \<lparr>character = c, color_scheme = colours t\<rparr>],
                   pos := pos t + 1\<rparr>))"

definition screen_of :: "vga \<Rightarrow> screen" where
  "screen_of s = \<lparr>cells = vga_buffer s, pos = unat (current_y s) * 80 + unat (current_x s),
     colours = current_color_scheme s\<rparr>"

text \<open>The position the last two port writes give the cursor registers 0x0F and 0x0E.\<close>

definition cursor_of :: "(u16 \<times> u16) list \<Rightarrow> nat option" where
  "cursor_of ws = (case rev ws of
       (p2, high) # (p1, low) # _ \<Rightarrow>
         if p1 = 0x3D4 \<and> p2 = 0x3D4 \<and> low AND 0xFF = 0x0F \<and> high AND 0xFF = 0x0E
         then Some (unat (drop_bit 8 high) * 256 + unat (drop_bit 8 low)) else None
     | _ \<Rightarrow> None)"

definition vga_ok :: "vga \<Rightarrow> bool" where
  "vga_ok s \<longleftrightarrow> length (vga_buffer s) = 2000 \<and> current_x s < 80 \<and> current_y s < 25
     \<and> cursor_of (port_writes16 s) = Some (unat (current_y s) * 80 + unat (current_x s))"

section \<open>Cells\<close>

lemma cell_index:
  fixes x y :: u32
  assumes "x < 80" and "y < 25"
  shows "unat (y * 80 + x) = unat y * 80 + unat x"
proof -
  have "unat x < 80" "unat y < 25" using assms by (simp_all add: word_less_nat_alt)
  moreover from this have "unat (y * 80) = unat y * 80" by (simp add: unat_word_ariths)
  ultimately show ?thesis by (simp add: unat_word_ariths)
qed

lemma coords_of_nat:
  "x < 80 \<Longrightarrow> (of_nat x :: u32) < 80" "y < 25 \<Longrightarrow> (of_nat y :: u32) < 25"
  "x < 80 \<Longrightarrow> unat (of_nat x :: u32) = x" "y < 25 \<Longrightarrow> unat (of_nat y :: u32) = y"
  by (simp_all add: word_less_nat_alt unat_of_nat_less)

lemma SetEntryAt_in:
  assumes "x < 80" and "y < 25" and "length (vga_buffer s) = 2000"
  shows "SetEntryAt x y e s = Inr (s\<lparr>vga_buffer := (vga_buffer s)[unat y * 80 + unat x := e]\<rparr>)"
proof -
  have "unat x < 80" "unat y < 25" using assms by (simp_all add: word_less_nat_alt)
  with assms show ?thesis
    by (simp add: SetEntryAt_def VGA_BUFFER_WIDTH_def VGA_BUFFER_HEIGHT_def cell_index)
qed

lemma GetEntryAt_in:
  assumes "x < 80" and "y < 25" and "length (vga_buffer s) = 2000"
  shows "GetEntryAt x y s = Inr (vga_buffer s ! (unat y * 80 + unat x))"
proof -
  have "unat x < 80" "unat y < 25" using assms by (simp_all add: word_less_nat_alt)
  with assms show ?thesis
    by (simp add: GetEntryAt_def VGA_BUFFER_WIDTH_def VGA_BUFFER_HEIGHT_def cell_index)
qed

lemma dims: "unat VGA_BUFFER_WIDTH = 80" "unat VGA_BUFFER_HEIGHT = 25"
  by (simp_all add: VGA_BUFFER_WIDTH_def VGA_BUFFER_HEIGHT_def)

text \<open>A list whose first \<open>k\<close> cells have been replaced by the \<open>k\<close> cells one line of width \<open>w\<close> below.\<close>

definition shifted :: "nat \<Rightarrow> 'a list \<Rightarrow> nat \<Rightarrow> 'a list" where
  "shifted w b k = take k (drop w b) @ drop k b"

lemma shifted_0 [simp]: "shifted w b 0 = b"
  by (simp add: shifted_def)

lemma length_shifted [simp]: "k + w \<le> length b \<Longrightarrow> length (shifted w b k) = length b"
  by (simp add: shifted_def)

lemma shifted_step:
  assumes "k + w < length b"
  shows "shifted w b k ! (k + w) = b ! (k + w)"
    and "(shifted w b k)[k := b ! (k + w)] = shifted w b (Suc k)"
proof -
  show "shifted w b k ! (k + w) = b ! (k + w)" using assms by (simp add: shifted_def nth_append)
  have "take (Suc k) (drop w b) = take k (drop w b) @ [b ! (k + w)]"
    using assms by (simp add: take_Suc_conv_app_nth add.commute)
  moreover have "drop k b = b ! k # drop (Suc k) b" using assms by (simp add: Cons_nth_drop_Suc)
  ultimately show "(shifted w b k)[k := b ! (k + w)] = shifted w b (Suc k)"
    using assms by (simp add: shifted_def list_update_append)
qed

abbreviation scroll_row where
  "scroll_row n y \<equiv> rfold (\<lambda>x s. rbind (GetEntryAt (of_nat x) (of_nat y) s) (\<lambda>entry.
        SetEntryAt (of_nat x) (of_nat y - 1) entry s)) [0..<n]"

lemma scroll_row_spec:
  assumes "n \<le> 80" and "y < 24" and "length b = 2000"
  shows "scroll_row n (Suc y) (s\<lparr>vga_buffer := shifted 80 b (y * 80)\<rparr>)
     = Inr (s\<lparr>vga_buffer := shifted 80 b (y * 80 + n)\<rparr>)"
  using assms(1)
proof (induction n)
  case (Suc n)
  have y1: "of_nat (Suc y) - 1 = (of_nat y :: u32)" by simp
  have k: "y * 80 + n + 80 < length b" "Suc y * 80 + n = y * 80 + n + 80" using assms Suc.prems by simp_all
  then have len: "length (shifted 80 b (y * 80 + n)) = 2000" using assms by simp
  have get: "GetEntryAt (of_nat n) (of_nat (Suc y)) (s\<lparr>vga_buffer := shifted 80 b (y * 80 + n)\<rparr>)
      = Inr (b ! (y * 80 + n + 80))"
    using len Suc.prems assms(2) shifted_step(1) [OF k(1)] k(2)
    by (simp add: GetEntryAt_in coords_of_nat ac_simps del: of_nat_Suc)
  have set: "SetEntryAt (of_nat n) (of_nat y) (b ! (y * 80 + n + 80))
        (s\<lparr>vga_buffer := shifted 80 b (y * 80 + n)\<rparr>)
      = Inr (s\<lparr>vga_buffer := shifted 80 b (y * 80 + Suc n)\<rparr>)"
    using len Suc.prems assms(2) shifted_step(2) [OF k(1)] by (simp add: SetEntryAt_in coords_of_nat)
  from Suc show ?case
    unfolding y1 by (simp add: rfold_append get set del: of_nat_Suc)
qed simp

lemma scroll_rows_spec:
  assumes "length (vga_buffer s) = 2000" and "m \<le> 24" and "w = 80"
  shows "rfold (scroll_row w) [1..<Suc m] s
      = Inr (s\<lparr>vga_buffer := shifted 80 (vga_buffer s) (m * 80)\<rparr>)"
  using assms(2)
proof (induction m)
  case (Suc m)
  have "scroll_row w (Suc m) (s\<lparr>vga_buffer := shifted 80 (vga_buffer s) (m * 80)\<rparr>)
      = Inr (s\<lparr>vga_buffer := shifted 80 (vga_buffer s) (m * 80 + w)\<rparr>)"
    using Suc.prems assms by (intro scroll_row_spec) auto
  then show ?case
    using Suc assms(3) by (simp add: rfold_append add.commute del: of_nat_Suc)
qed simp

lemma fill_cells:
  assumes "n \<le> 80" and "y < 25" and "length b = 2000"
  shows "rfold (\<lambda>x. SetEntryAt (of_nat x) (of_nat y) e) [0..<n] (s\<lparr>vga_buffer := b\<rparr>)
     = Inr (s\<lparr>vga_buffer := take (y * 80) b @ replicate n e @ drop (y * 80 + n) b\<rparr>)"
  using assms(1)
proof (induction n)
  case (Suc n)
  let ?b = "take (y * 80) b @ replicate n e @ drop (y * 80 + n) b"
  have len: "length ?b = 2000" and "y * 80 + n < length b" using assms Suc.prems by simp_all
  then have "?b[y * 80 + n := e] = take (y * 80) b @ replicate (Suc n) e @ drop (y * 80 + Suc n) b"
    by (simp add: list_update_append Cons_nth_drop_Suc [symmetric] replicate_append_same)
  with Suc assms len coords_of_nat show ?case
    by (simp add: rfold_append SetEntryAt_in)
qed (simp add: assms)

section \<open>Cursor\<close>

lemma byte_masks:
  "(0xFF :: 'a::len word) = mask 8" "(0x0F :: 'a word) = mask 4"
  "(0xFF00 :: 'a word) = push_bit 8 (mask 8)"
  by (simp_all add: mask_eq_exp_minus_1 push_bit_eq_mult)

lemma bit_0x0E: "bit (0x0E :: int) n \<longleftrightarrow> 1 \<le> n \<and> n < 4"
proof -
  have "(0x0E :: int) = push_bit 1 (mask 3)" by (simp add: mask_eq_exp_minus_1)
  then show ?thesis by (simp only: bit_push_bit_iff bit_mask_iff) auto
qed

lemma cursor_registers:
  fixes p :: u32
  defines "low \<equiv> push_bit 8 (ucast (p AND 0xFF) :: u16) OR 0x0F"
    and "high \<equiv> ucast (p AND 0xFF00) OR 0x0E :: u16"
  shows "low AND 0xFF = 0x0F" "high AND 0xFF = 0x0E"
    "drop_bit 8 low = ucast (take_bit 8 p)" "drop_bit 8 high = ucast (take_bit 8 (drop_bit 8 p))"
proof -
  have e: "n < 8" if "bit (0x0E :: int) n" for n using that unfolding bit_0x0E by simp
  show "low AND 0xFF = 0x0F" unfolding low_def byte_masks
    by (rule bit_word_eqI) (auto simp: bit_simps)
  show "high AND 0xFF = 0x0E" unfolding high_def byte_masks
    by (rule bit_word_eqI) (auto simp: bit_simps dest: e)
  show "drop_bit 8 low = ucast (take_bit 8 p)" unfolding low_def byte_masks
    by (rule bit_word_eqI) (auto simp: bit_simps)
  show "drop_bit 8 high = ucast (take_bit 8 (drop_bit 8 p))" unfolding high_def byte_masks
    by (rule bit_word_eqI) (auto simp: bit_simps dest: e)
qed

lemma cursor_bytes:
  fixes p :: u32
  assumes "unat p < 65536"
  shows "unat (ucast (take_bit 8 (drop_bit 8 p)) :: u16) * 256 + unat (ucast (take_bit 8 p) :: u16) = unat p"
proof -
  have "unat (ucast (take_bit 8 q :: u32) :: u16) = unat q mod 256" for q
    unfolding unat_ucast_mod unsigned_take_bit_eq by (simp add: take_bit_eq_mod mod_mod_cancel)
  moreover have "unat (drop_bit 8 p) = unat p div 256" 
    using unat_u32_less [of p] unfolding unsigned_drop_bit_eq
    by (simp add: drop_bit_eq_div take_bit_eq_mod)
  ultimately show ?thesis using assms by simp
qed

lemma MoveCursorAt_spec:
  assumes "x < 80" and "y < 25" and "length (vga_buffer s) = 2000"
  shows "\<exists>s'. MoveCursorAt x y s = Inr s' \<and> vga_ok s' \<and> current_x s' = x \<and> current_y s' = y
    \<and> vga_buffer s' = vga_buffer s \<and> current_color_scheme s' = current_color_scheme s"
proof -
  have "unat x < 80" "unat y < 25" using assms by (simp_all add: word_less_nat_alt)
  then have "unat (y * 80 + x) < 65536" using cell_index [OF assms(1,2)] by simp
  from cursor_bytes [OF this] show ?thesis
    using assms cursor_registers [of "y * 80 + x"] cell_index [OF assms(1,2)]
    by (simp add: MoveCursorAt_def PortWrite16_def Let_def VGA_BUFFER_WIDTH_def VGA_BUFFER_HEIGHT_def
        vga_ok_def cursor_of_def)
qed

section \<open>Scrolling and advancing\<close>

lemma Scroll_spec:
  assumes "vga_ok s" and "0 < current_y s"
  shows "\<exists>s'. Scroll s = Inr s' \<and> vga_ok s' \<and> current_x s' = current_x s \<and> current_y s' = current_y s - 1
    \<and> vga_buffer s' = drop 80 (vga_buffer s) @ replicate 80 (blank (current_color_scheme s))
    \<and> current_color_scheme s' = current_color_scheme s"
proof -
  let ?b = "vga_buffer s" and ?e = "blank (current_color_scheme s)"
  have ok: "length ?b = 2000" "current_x s < 80" "current_y s < 25"
    using assms(1) by (auto simp: vga_ok_def)
  have y1: "current_y s - 1 < 25"
    using ok(3) assms(2) by (simp add: word_less_nat_alt unat_minus_one unat_gt_0)
  have rng: "[1..<unat VGA_BUFFER_HEIGHT] = [1..<Suc 24]" by (simp add: dims(2))
  have rows: "rfold (scroll_row (unat VGA_BUFFER_WIDTH)) [1..<unat VGA_BUFFER_HEIGHT] s
      = Inr (s\<lparr>vga_buffer := shifted 80 ?b 1920\<rparr>)"
    unfolding rng using scroll_rows_spec [OF ok(1), of 24 "unat VGA_BUFFER_WIDTH"] dims(1)
    by (simp del: upt_rec_numeral upt_Suc)
  have 24: "VGA_BUFFER_HEIGHT - 1 = of_nat 24" by (simp add: VGA_BUFFER_HEIGHT_def)
  have "length (shifted 80 ?b 1920) = 2000" using ok by simp
  from fill_cells [OF _ _ this, of "unat VGA_BUFFER_WIDTH" 24 ?e s]
  have "rfold (\<lambda>x. SetEntryAt (of_nat x) (VGA_BUFFER_HEIGHT - 1) ?e) [0..<unat VGA_BUFFER_WIDTH]
      (s\<lparr>vga_buffer := shifted 80 ?b 1920\<rparr>) = Inr (s\<lparr>vga_buffer := drop 80 ?b @ replicate 80 ?e\<rparr>)"
    unfolding 24 using ok(1) dims(1) by (simp add: shifted_def)
  with rows show ?thesis
    using MoveCursorAt_spec [OF ok(2) y1, of "s\<lparr>vga_buffer := drop 80 ?b @ replicate 80 ?e\<rparr>"] ok(1)
    by (simp add: Scroll_def Let_def ConstructVgaEntry_def blank_def of_char_def)
qed

lemma AdvanceCursor_spec:
  assumes ok: "vga_ok s" and n: "unat (current_x s) + unat n \<le> 80"
  defines "t \<equiv> feed (screen_of s\<lparr>pos := unat (current_y s) * 80 + unat (current_x s) + unat n\<rparr>)"
  shows "\<exists>s'. AdvanceCursor n s = Inr s' \<and> vga_ok s' \<and> screen_of s' = t"
proof -
  let ?x = "unat (current_x s)" and ?y = "unat (current_y s)"
  have b: "length (vga_buffer s) = 2000" and xy: "?x < 80" "?y < 25"
    using ok by (auto simp: vga_ok_def word_less_nat_alt)
  have v: "unat (current_x s + n) = ?x + unat n" using n by (intro unat_plus_no_wrap) simp
  show ?thesis
  proof (cases "?x + unat n = 80")
    case False
    then have lt: "current_x s + n < 80" using n v by (simp add: word_less_nat_alt)
    then have dm: "(current_x s + n) div 80 = 0" "(current_x s + n) mod 80 = current_x s + n"
      using v n False by (simp_all add: word_unat_eq_iff unat_div unat_mod)
    have "AdvanceCursor_loop 0 s = Inr s"
      using xy by (subst AdvanceCursor_loop.simps) (simp add: VGA_BUFFER_HEIGHT_def word_le_nat_alt)
    moreover have "?y * 80 + ?x + unat n < 2000" using xy n False by linarith
    ultimately show ?thesis
      using MoveCursorAt_spec [OF lt, of "current_y s" s] xy b v dm
      by (auto simp: AdvanceCursor_def VGA_BUFFER_WIDTH_def t_def feed_def screen_of_def word_less_nat_alt)
  next
    case True
    then have v80: "current_x s + n = 80" using v by (simp add: word_unat_eq_iff)
    show ?thesis
    proof (cases "?y < 24")
      case True
      then have y1: "unat (current_y s + 1) = ?y + 1" by (intro unat_plus_one [of _ 24]) (simp add: word_less_nat_alt)
      then have "AdvanceCursor_loop 1 s = Inr s"
        using True by (subst AdvanceCursor_loop.simps) (simp add: VGA_BUFFER_HEIGHT_def word_le_nat_alt)
      then show ?thesis
        using MoveCursorAt_spec [of 0 "current_y s + 1" s] b v80 y1 True \<open>?x + unat n = 80\<close>
        by (auto simp: AdvanceCursor_def VGA_BUFFER_WIDTH_def t_def feed_def screen_of_def word_less_nat_alt)
    next
      case False
      then have y24: "current_y s = 24" using xy by (simp add: word_unat_eq_iff)
      obtain s1 where s1: "Scroll s = Inr s1" "vga_ok s1" "current_x s1 = current_x s" "current_y s1 = 23"
        "vga_buffer s1 = drop 80 (vga_buffer s) @ replicate 80 (blank (current_color_scheme s))"
        "current_color_scheme s1 = current_color_scheme s"
        using Scroll_spec [OF ok] y24 by auto
      then have "AdvanceCursor_loop 1 s = Inr s1"
        using y24 by (simp add: AdvanceCursor_loop.simps [of 1 s] AdvanceCursor_loop.simps [of 1 s1] VGA_BUFFER_HEIGHT_def)
      then show ?thesis
        using MoveCursorAt_spec [of 0 24 s1] b v80 s1 y24 \<open>?x + unat n = 80\<close>
        by (auto simp: AdvanceCursor_def VGA_BUFFER_WIDTH_def t_def feed_def screen_of_def)
    qed
  qed
qed

section \<open>Output\<close>

lemma VgaTerminalPut_spec:
  assumes ok: "vga_ok s"
  shows "\<exists>s'. VgaTerminalPut c s = Inr s' \<and> vga_ok s' \<and> screen_of s' = screen_put c (screen_of s)"
proof -
  let ?x = "unat (current_x s)" and ?y = "unat (current_y s)"
  have b: "length (vga_buffer s) = 2000" and lt: "current_x s < 80" "current_y s < 25"
    using ok by (auto simp: vga_ok_def)
  then have x: "?x < 80" by (simp add: word_less_nat_alt)
  show ?thesis
  proof (cases "c = 10")
    case True
    have "unat (80 - current_x s) = 80 - ?x" using lt(1) by (subst unat_sub) (auto simp: word_le_nat_alt word_less_nat_alt)
    moreover have "(?y * 80 + ?x) div 80 = ?y" using x by (simp add: div_add1_eq)
    ultimately show ?thesis
      using AdvanceCursor_spec [OF ok, of "80 - current_x s"] x True
      by (auto simp: VgaTerminalPut_def VGA_BUFFER_WIDTH_def of_char_def screen_put_def screen_of_def algebra_simps)
  next
    case False
    let ?s = "s\<lparr>vga_buffer := (vga_buffer s)[?y * 80 + ?x := \<lparr>character = c, color_scheme = current_color_scheme s\<rparr>]\<rparr>"
    have "vga_ok ?s" using ok by (simp add: vga_ok_def)
    from AdvanceCursor_spec [OF this, of 1] show ?thesis
      using x False SetEntryAt_in [OF lt b]
      by (auto simp: VgaTerminalPut_def ConstructVgaEntry_def of_char_def screen_put_def screen_of_def)
  qed
qed

lemma vga_ok_scheme: "vga_ok s \<Longrightarrow> vga_ok (VgaTerminalSwitchColorScheme c s)"
  by (simp add: vga_ok_def VgaTerminalSwitchColorScheme_def)

lemma screen_of_scheme: "screen_of (VgaTerminalSwitchColorScheme c s) = screen_of s\<lparr>colours := c\<rparr>"
  by (simp add: screen_of_def VgaTerminalSwitchColorScheme_def)

lemma put_text_spec:
  assumes "vga_ok s"
  shows "\<exists>s'. rfold VgaTerminalPut cs s = Inr s' \<and> vga_ok s' \<and> screen_of s' = fold screen_put cs (screen_of s)"
  using assms
proof (induction cs arbitrary: s)
  case (Cons c cs)
  obtain s1 where 1: "VgaTerminalPut c s = Inr s1" "vga_ok s1" "screen_of s1 = screen_put c (screen_of s)"
    using VgaTerminalPut_spec [OF Cons.prems, of c] by blast
  with Cons.IH [OF 1(2)] show ?case by auto
qed simp

lemma clear_rows:
  assumes "length (vga_buffer s) = 2000" and "m \<le> 25" and "w = 80"
  shows "rfold (\<lambda>y. rfold (\<lambda>x. SetEntryAt (of_nat x) (of_nat y) e) [0..<w]) [0..<m] s
     = Inr (s\<lparr>vga_buffer := replicate (m * 80) e @ drop (m * 80) (vga_buffer s)\<rparr>)"
  using assms(2)
proof (induction m)
  case (Suc m)
  let ?b = "replicate (m * 80) e @ drop (m * 80) (vga_buffer s)"
  have "rfold (\<lambda>x. SetEntryAt (of_nat x) (of_nat m) e) [0..<w] (s\<lparr>vga_buffer := ?b\<rparr>)
      = Inr (s\<lparr>vga_buffer := take (m * 80) ?b @ replicate w e @ drop (m * 80 + w) ?b\<rparr>)"
    using Suc.prems assms by (intro fill_cells) auto
  moreover have "take (m * 80) ?b @ replicate w e @ drop (m * 80 + w) ?b
      = replicate (Suc m * 80) e @ drop (Suc m * 80) (vga_buffer s)"
    using assms(3) replicate_add [of "m * 80" 80 e] by (simp add: add.commute)
  ultimately show ?case using Suc by (simp add: rfold_append)
qed simp

section \<open>Properties\<close>

text \<open>
  \<open>VgaTerminalInit\<close> on the 2000 cells of video memory, whatever they hold, does not fault: it
  leaves 25 blank lines in the default colours, the position at the top left, and the hardware
  cursor registers at position 0.
\<close>

theorem VgaTerminalInit_clears:
  assumes "length (vga_buffer s) = 2000"
  shows "\<exists>s'. VgaTerminalInit s = Inr s' \<and> vga_ok s'
    \<and> screen_of s' = \<lparr>cells = replicate 2000 (blank default_color_scheme), pos = 0,
                       colours = default_color_scheme\<rparr>"
proof -
  obtain s1 where 1: "MoveCursorAt 0 0 s = Inr s1" "vga_ok s1" "current_x s1 = 0" "current_y s1 = 0"
    using MoveCursorAt_spec [OF _ _ assms, of 0 0] by auto
  let ?s = "VgaTerminalSwitchColorScheme default_color_scheme s1"
  let ?b = "replicate (25 * 80) (blank default_color_scheme) @ drop (25 * 80) (vga_buffer ?s)"
  have ok: "vga_ok ?s" using 1(2) by (rule vga_ok_scheme)
  then have len: "length (vga_buffer ?s) = 2000" by (simp add: vga_ok_def)
  have "rfold (\<lambda>y. rfold (\<lambda>x. SetEntryAt (of_nat x) (of_nat y) (blank default_color_scheme))
      [0..<unat VGA_BUFFER_WIDTH]) [0..<unat VGA_BUFFER_HEIGHT] ?s = Inr (?s\<lparr>vga_buffer := ?b\<rparr>)"
    using clear_rows [OF len, of "unat VGA_BUFFER_HEIGHT" "unat VGA_BUFFER_WIDTH"] dims by simp
  then have "VgaTerminalInit s = Inr (?s\<lparr>vga_buffer := ?b\<rparr>)"
    using 1(1) by (simp add: VgaTerminalInit_def Let_def ConstructVgaEntry_def blank_def of_char_def
        VgaTerminalSwitchColorScheme_def)
  then show ?thesis
    using ok 1 len by (auto simp: vga_ok_def screen_of_def VgaTerminalSwitchColorScheme_def)
qed

text \<open>Power-on contents used to instantiate the theorems.\<close>

definition boot_vga :: vga where
  "boot_vga = \<lparr>current_color_scheme = default_color_scheme,
     vga_buffer = replicate 2000 (blank err_color_scheme), current_x = 0, current_y = 24,
     port_writes16 = [(0x3D4, 0x800F), (0x3D4, 0x070E)]\<rparr>"

lemma vga_ok_boot: "vga_ok boot_vga"
  by (simp add: vga_ok_def boot_vga_def cursor_of_def drop_bit_eq_div)

theorem VgaTerminalInit_clears_witness:
  "\<exists>s'. VgaTerminalInit boot_vga = Inr s' \<and> vga_ok s'
    \<and> screen_of s' = \<lparr>cells = replicate 2000 (blank default_color_scheme), pos = 0,
                       colours = default_color_scheme\<rparr>"
  using VgaTerminalInit_clears [of boot_vga] by (simp add: boot_vga_def)

text \<open>
  C6: \<open>VgaTerminalPut\<close> implements the abstract terminal: in a consistent state it never fails an
  assertion or leaves video memory, and its effect on the screen is that of the specification, which
  writes the character at the position and steps to the next cell, starts the next line on a
  newline, and past the last line drops the first line and appends a blank one. It keeps the
  consistency, and so the hardware cursor shows the position after every character.
\<close>

theorem VgaTerminalPut_refines:
  assumes "vga_ok s"
  shows "\<exists>s'. rfold VgaTerminalPut cs s = Inr s' \<and> vga_ok s'
    \<and> screen_of s' = fold screen_put cs (screen_of s)
    \<and> cursor_of (port_writes16 s') = Some (pos (fold screen_put cs (screen_of s)))"
proof -
  obtain s' where s': "rfold VgaTerminalPut cs s = Inr s'" "vga_ok s'"
    "screen_of s' = fold screen_put cs (screen_of s)"
    using put_text_spec [OF assms] by blast
  moreover have "cursor_of (port_writes16 s') = Some (pos (screen_of s'))"
    using s'(2) by (simp add: vga_ok_def screen_of_def)
  ultimately show ?thesis by auto
qed

theorem VgaTerminalPut_refines_witness:
  "\<exists>s'. rfold VgaTerminalPut [72, 105, 10] boot_vga = Inr s' \<and> vga_ok s' \<and> pos (screen_of s') = 1920
    \<and> cells (screen_of s') ! 1841 = \<lparr>character = 105, color_scheme = default_color_scheme\<rparr>"
proof -
  let ?t = "fold screen_put [72, 105, 10] (screen_of boot_vga)"
  have "pos ?t = 1920" and "cells ?t ! 1841 = \<lparr>character = 105, color_scheme = default_color_scheme\<rparr>"
    by (simp_all add: screen_put_def screen_of_def boot_vga_def feed_def nth_append)
  with VgaTerminalPut_refines [OF vga_ok_boot, of "[72, 105, 10]"] show ?thesis by auto
qed

end
