(* ===== verification/Stdlib_Stdio.thy ===== *)
theory Stdlib_Stdio
  imports Stdlib_Conv Vga_Terminal
begin

text \<open>
  Formatted output of \<open>stdlib/stdio.c\<close> and \<open>exit\<close> of \<open>stdlib/stdlib.c\<close>.

  \<open>vfprintf\<close> writes through \<open>file->write_op\<close>, here an argument: \<open>write_op size buf w\<close> acts on the
  state \<open>w\<close> of the output and returns the number of bytes. The variable arguments are a list of
  values, the 32 uninitialised bytes of \<open>char str[32]\<close> an argument \<open>junk\<close> of every function that has
  such a buffer. The loop counters index \<open>fmt\<close> and \<open>dest\<close> and are naturals. \<open>next\<close> (the target of
  the \<open>goto\<close>s) is \<open>printf_directive\<close>; the copies of the conversion code in \<open>vfprintf\<close> and \<open>sprintf\<close>
  that differ only in the number routine share \<open>print_padded\<close> and \<open>sprint_padded\<close>.
\<close>

section \<open>Model\<close>

definition putchar :: "u8 \<Rightarrow> vga \<Rightarrow> vga res" where
  "putchar ch s = VgaTerminalPut ch s"

definition StdoutWriteOp :: "nat \<Rightarrow> buf \<Rightarrow> vga \<Rightarrow> (vga \<times> nat) res" where
  "StdoutWriteOp n str s =
     (let s = VgaTerminalSwitchColorScheme default_color_scheme s in
      rbind (rfold (\<lambda>i s. rbind (load str i) (\<lambda>ch. putchar ch s)) [0..<n] s) (\<lambda>s. Inr (s, n)))"

definition StderrWriteOp :: "nat \<Rightarrow> buf \<Rightarrow> vga \<Rightarrow> (vga \<times> nat) res" where
  "StderrWriteOp n str s =
     (let s = VgaTerminalSwitchColorScheme err_color_scheme s in
      rbind (rfold (\<lambda>i s. rbind (load str i) (\<lambda>ch. putchar ch s)) [0..<n] s) (\<lambda>s. Inr (s, n)))"

type_synonym 'w write_op = "nat \<Rightarrow> buf \<Rightarrow> 'w \<Rightarrow> ('w \<times> nat) res"

datatype arg = Arg_Int u32 | Arg_Str buf

fun va_int :: "arg list \<Rightarrow> (u32 \<times> arg list) res" where
  "va_int (Arg_Int v # args) = Inr (v, args)"
| "va_int _ = Inl Bad_Argument"

fun va_str :: "arg list \<Rightarrow> (buf \<times> arg list) res" where
  "va_str (Arg_Str s # args) = Inr (s, args)"
| "va_str _ = Inl Bad_Argument"

abbreviation (input) ch :: "char \<Rightarrow> u8" where
  "ch c \<equiv> of_char c"

function printf_directive :: "buf \<Rightarrow> nat \<Rightarrow> u32 \<Rightarrow> u8 \<Rightarrow> (nat \<times> u32 \<times> u8 \<times> u8) res" where
  "printf_directive fmt i width pad_c =
     rbind (load fmt (i + 1)) (\<lambda>c.
       if c = ch CHR ''0'' then printf_directive fmt (i + 1) width (ch CHR ''0'')
       else if c \<in> {ch CHR ''1'', ch CHR ''2'', ch CHR ''3'', ch CHR ''4'', ch CHR ''5'',
                    ch CHR ''6'', ch CHR ''7'', ch CHR ''8'', ch CHR ''9''} then
         rbind (atoi (drop (i + 1) fmt)) (\<lambda>width. printf_directive fmt (i + 1) width pad_c)
       else Inr (i + 1, width, pad_c, c))"
  by pat_completeness auto
termination
  by (relation "measure (\<lambda>(fmt, i, width, pad_c). length fmt - i)") (auto simp: load_Inr_iff)

definition print_padded :: "'w write_op \<Rightarrow> u32 \<Rightarrow> u8 \<Rightarrow> buf \<Rightarrow> 'w \<Rightarrow> 'w res" where
  "print_padded write_op width pad_c str w =
     rbind (strlen str) (\<lambda>len.
     rbind (if len < unat width
            then rfold (\<lambda>k w. rbind (write_op 1 [pad_c] w) (\<lambda>(w, _). Inr w)) [0..<unat width - len] w
            else Inr w) (\<lambda>w.
     rbind (write_op len str w) (\<lambda>(w, _). Inr w)))"

definition vfprintf_conversion ::
  "buf \<Rightarrow> 'w write_op \<Rightarrow> u8 \<Rightarrow> u32 \<Rightarrow> u8 \<Rightarrow> arg list \<Rightarrow> 'w \<Rightarrow> ('w \<times> arg list) res" where
  "vfprintf_conversion junk write_op c width pad_c args w =
     (if c = ch CHR ''%'' then
        rbind (write_op 1 (lit ''%'') w) (\<lambda>(w, _). Inr (w, args))
      else if c = ch CHR ''d'' \<or> c = ch CHR ''i'' then
        rbind (va_int args) (\<lambda>(arg, args).
        rbind (itoa arg junk 10) (\<lambda>(str, _).
        rbind (print_padded write_op width pad_c str w) (\<lambda>w. Inr (w, args))))
      else if c = ch CHR ''u'' then
        rbind (va_int args) (\<lambda>(arg, args).
        rbind (utoa arg junk 10) (\<lambda>(str, _).
        rbind (print_padded write_op width pad_c str w) (\<lambda>w. Inr (w, args))))
      else if c = ch CHR ''o'' then
        rbind (va_int args) (\<lambda>(arg, args).
        rbind (utoa arg junk 8) (\<lambda>(str, _).
        rbind (print_padded write_op width pad_c str w) (\<lambda>w. Inr (w, args))))
      else if c = ch CHR ''x'' then
        rbind (va_int args) (\<lambda>(arg, args).
        rbind (utoa_lc arg junk 16) (\<lambda>(str, _).
        rbind (print_padded write_op width pad_c str w) (\<lambda>w. Inr (w, args))))
      else if c = ch CHR ''X'' then
        rbind (va_int args) (\<lambda>(arg, args).
        rbind (utoa arg junk 16) (\<lambda>(str, _).
        rbind (print_padded write_op width pad_c str w) (\<lambda>w. Inr (w, args))))
      else if c = ch CHR ''c'' then
        rbind (va_int args) (\<lambda>(arg, args).
        rbind (write_op 1 [ucast arg] w) (\<lambda>(w, _). Inr (w, args)))
      else if c = ch CHR ''s'' then
        rbind (va_str args) (\<lambda>(str, args).
        rbind (print_padded write_op width pad_c str w) (\<lambda>w. Inr (w, args)))
      else Inr (w, args))"

declare printf_directive.simps [simp del]

lemma printf_directive_advances:
  "printf_directive fmt i width pad_c = Inr (i', r) \<Longrightarrow> i < i' \<and> i' < length fmt"
proof (induction fmt i width pad_c arbitrary: r rule: printf_directive.induct)
  case (1 fmt i width pad_c)
  then show ?case
    by (simp add: printf_directive.simps [of fmt i width pad_c] rbind_Inr_iff load_Inr_iff
        split: if_splits) fastforce+
qed

function vfprintf_loop :: "buf \<Rightarrow> 'w write_op \<Rightarrow> buf \<Rightarrow> nat \<Rightarrow> arg list \<Rightarrow> 'w \<Rightarrow> 'w res" where
  "vfprintf_loop junk write_op fmt i args w =
     rbind (load fmt i) (\<lambda>c.
       if c = 0 then Inr w
       else if c \<noteq> ch CHR ''%'' then
         rbind (write_op 1 (drop i fmt) w) (\<lambda>(w, _). vfprintf_loop junk write_op fmt (i + 1) args w)
       else
         rbind (printf_directive fmt i 0 (ch CHR '' '')) (\<lambda>(i, width, pad_c, c).
         rbind (vfprintf_conversion junk write_op c width pad_c args w) (\<lambda>(w, args).
           vfprintf_loop junk write_op fmt (i + 1) args w)))"
  by pat_completeness auto
termination
  by (relation "measure (\<lambda>(junk, write_op, fmt, i, args, w). length fmt - i)")
     (auto simp: load_Inr_iff dest: printf_directive_advances)

definition vfprintf :: "buf \<Rightarrow> 'w write_op \<Rightarrow> buf \<Rightarrow> arg list \<Rightarrow> 'w \<Rightarrow> ('w \<times> int) res" where
  "vfprintf junk write_op fmt args w =
     rbind (vfprintf_loop junk write_op fmt 0 args w) (\<lambda>w. Inr (w, 0))"

definition fprintf :: "buf \<Rightarrow> 'w write_op \<Rightarrow> buf \<Rightarrow> arg list \<Rightarrow> 'w \<Rightarrow> ('w \<times> int) res" where
  "fprintf junk write_op fmt args w = vfprintf junk write_op fmt args w"

definition printf :: "buf \<Rightarrow> buf \<Rightarrow> arg list \<Rightarrow> vga \<Rightarrow> (vga \<times> int) res" where
  "printf junk fmt args s = vfprintf junk StdoutWriteOp fmt args s"

definition sprint_padded :: "u32 \<Rightarrow> u8 \<Rightarrow> buf \<Rightarrow> buf \<times> nat \<Rightarrow> (buf \<times> nat) res" where
  "sprint_padded width pad_c str dj =
     rbind (strlen str) (\<lambda>len.
     rbind (if len < unat width
            then rfold (\<lambda>k (dest, j). rbind (load dest j) (\<lambda>old.
                   rbind (store dest j (old + pad_c)) (\<lambda>dest. Inr (dest, j + 1)))) [0..<unat width - len] dj
            else Inr dj) (\<lambda>(dest, j).
     rbind (strcpy (drop j dest) str) (\<lambda>rest.
     rbind (strlen str) (\<lambda>len. Inr (take j dest @ rest, j + len)))))"

definition sprintf_conversion ::
  "buf \<Rightarrow> u8 \<Rightarrow> u32 \<Rightarrow> u8 \<Rightarrow> arg list \<Rightarrow> buf \<times> nat \<Rightarrow> ((buf \<times> nat) \<times> arg list) res" where
  "sprintf_conversion junk c width pad_c args dj =
     (if c = ch CHR ''%'' then
        rbind (store (fst dj) (snd dj) (ch CHR ''%'')) (\<lambda>dest. Inr ((dest, snd dj + 1), args))
      else if c = ch CHR ''d'' \<or> c = ch CHR ''i'' then
        rbind (va_int args) (\<lambda>(arg, args).
        rbind (itoa arg junk 10) (\<lambda>(str, _).
        rbind (sprint_padded width pad_c str dj) (\<lambda>dj. Inr (dj, args))))
      else if c = ch CHR ''u'' then
        rbind (va_int args) (\<lambda>(arg, args).
        rbind (utoa arg junk 10) (\<lambda>(str, _).
        rbind (sprint_padded width pad_c str dj) (\<lambda>dj. Inr (dj, args))))
      else if c = ch CHR ''o'' then
        rbind (va_int args) (\<lambda>(arg, args).
        rbind (utoa arg junk 8) (\<lambda>(str, _).
        rbind (sprint_padded width pad_c str dj) (\<lambda>dj. Inr (dj, args))))
      else if c = ch CHR ''x'' then
        rbind (va_int args) (\<lambda>(arg, args).
        rbind (utoa_lc arg junk 16) (\<lambda>(str, _).
        rbind (sprint_padded width pad_c str dj) (\<lambda>dj. Inr (dj, args))))
      else if c = ch CHR ''X'' then
        rbind (va_int args) (\<lambda>(arg, args).
        rbind (utoa arg junk 16) (\<lambda>(str, _).
        rbind (sprint_padded width pad_c str dj) (\<lambda>dj. Inr (dj, args))))
      else if c = ch CHR ''c'' then
        rbind (va_int args) (\<lambda>(arg, args).
        rbind (store (fst dj) (snd dj) (ucast arg)) (\<lambda>dest. Inr ((dest, snd dj + 1), args)))
      else if c = ch CHR ''s'' then
        rbind (va_str args) (\<lambda>(str, args).
        rbind (sprint_padded width pad_c str dj) (\<lambda>dj. Inr (dj, args)))
      else Inr (dj, args))"

function sprintf_loop :: "buf \<Rightarrow> buf \<Rightarrow> nat \<Rightarrow> arg list \<Rightarrow> buf \<times> nat \<Rightarrow> (buf \<times> nat) res" where
  "sprintf_loop junk fmt i args dj =
     rbind (load fmt i) (\<lambda>c.
       if c = 0 then Inr dj
       else if c \<noteq> ch CHR ''%'' then
         rbind (store (fst dj) (snd dj) c) (\<lambda>dest. sprintf_loop junk fmt (i + 1) args (dest, snd dj + 1))
       else
         rbind (printf_directive fmt i 0 (ch CHR '' '')) (\<lambda>(i, width, pad_c, c).
         rbind (sprintf_conversion junk c width pad_c args dj) (\<lambda>(dj, args).
           sprintf_loop junk fmt (i + 1) args dj)))"
  by pat_completeness auto
termination
  by (relation "measure (\<lambda>(junk, fmt, i, args, dj). length fmt - i)")
     (auto simp: load_Inr_iff dest: printf_directive_advances)

definition sprintf :: "buf \<Rightarrow> buf \<Rightarrow> buf \<Rightarrow> arg list \<Rightarrow> (buf \<times> nat) res" where
  "sprintf junk dest fmt args =
     rbind (sprintf_loop junk fmt 0 args (dest, 0)) (\<lambda>(dest, j).
     rbind (store dest j 0) (\<lambda>dest.
     rbind (strlen dest) (\<lambda>n. Inr (dest, n))))"

text \<open>\<open>exit\<close> does not return: the result is the state in which the processor halts.\<close>

definition exit_status :: "buf \<Rightarrow> u32 \<Rightarrow> vga \<Rightarrow> vga res" where
  "exit_status junk status s =
     (if status \<noteq> 0 then
        let s = VgaTerminalSwitchColorScheme
                  \<lparr>foreground = VGA_COLOR_LIGHT VGA_COLOR_RED, background = VGA_COLOR_BLACK\<rparr> s in
        rbind (fprintf junk StderrWriteOp
                 (lit ''A fatal error has occured, exiting with error code %d\<newline>'') [Arg_Int status] s)
          (\<lambda>(s, _). Inr s)
      else Inr s)"

declare vfprintf_loop.simps [simp del] sprintf_loop.simps [simp del]

section \<open>Specification of format strings\<close>

datatype conv = Pct | Dec | Int_Dec | Uns | Oct | Hex_Lc | Hex_Uc | Chr | Str

text \<open>A format is a list of literal characters and of directives with the digits they carry.\<close>

datatype item = Lit u8 | Directive "nat list" conv

fun conv_char :: "conv \<Rightarrow> u8" where
  "conv_char Pct = 37" | "conv_char Dec = 100" | "conv_char Int_Dec = 105" | "conv_char Uns = 117"
| "conv_char Oct = 111" | "conv_char Hex_Lc = 120" | "conv_char Hex_Uc = 88" | "conv_char Chr = 99"
| "conv_char Str = 115"

definition digit_text :: "nat list \<Rightarrow> u8 list" where
  "digit_text ds = map (\<lambda>d. 48 + of_nat d) ds"

fun item_syntax :: "item \<Rightarrow> u8 list" where
  "item_syntax (Lit c) = [c]"
| "item_syntax (Directive ds k) = 37 # digit_text ds @ [conv_char k]"

fun item_ok :: "item \<Rightarrow> bool" where
  "item_ok (Lit c) \<longleftrightarrow> c \<noteq> 0 \<and> c \<noteq> 37"
| "item_ok (Directive ds k) \<longleftrightarrow> (\<forall>d \<in> set ds. d < 10)"

definition fmt_of :: "item list \<Rightarrow> buf" where
  "fmt_of is = concat (map item_syntax is) @ [0]"

text \<open>
  The width the code obtains from the digits: each non-zero digit replaces it by the number that
  starts there, so the last non-zero digit and the zeros behind it decide. Any \<open>0\<close> among the digits
  selects zero padding.
\<close>

fun scan_width :: "nat list \<Rightarrow> nat \<Rightarrow> nat" where
  "scan_width [] w = w"
| "scan_width (d # ds) w = scan_width ds (if d = 0 then w else value_of 10 (d # ds) mod 2 ^ 32)"

definition pad_char :: "nat list \<Rightarrow> u8" where
  "pad_char ds = (if 0 \<in> set ds then 48 else 32)"

definition padded :: "nat list \<Rightarrow> u8 list \<Rightarrow> u8 list" where
  "padded ds t = replicate (scan_width ds 0 - length t) (pad_char ds) @ t"

definition signed_text :: "u32 \<Rightarrow> u8 list" where
  "signed_text v = (if sint v < 0 then 45 # digit_chars decimal 10 (nat (- sint v))
                    else digit_chars decimal 10 (nat (sint v)))"

fun number_text_of :: "conv \<Rightarrow> u32 \<Rightarrow> u8 list" where
  "number_text_of Uns v = digit_chars decimal 10 (unat v)"
| "number_text_of Oct v = digit_chars decimal 8 (unat v)"
| "number_text_of Hex_Lc v = digit_chars (lit ''0123456789abcdefghijklmnopqrstuvwxyz'') 16 (unat v)"
| "number_text_of Hex_Uc v = digit_chars decimal 16 (unat v)"
| "number_text_of _ v = signed_text v"

text \<open>The text of one directive and the arguments it leaves; \<open>None\<close> when they do not fit it.\<close>

fun directive_text :: "nat list \<Rightarrow> conv \<Rightarrow> arg list \<Rightarrow> (u8 list \<times> arg list) option" where
  "directive_text ds Pct args = Some ([37], args)"
| "directive_text ds Str (Arg_Str s # args) = (if terminated s then Some (padded ds (chars s), args) else None)"
| "directive_text ds Str _ = None"
| "directive_text ds Chr (Arg_Int v # args) = Some ([ucast v], args)"
| "directive_text ds k (Arg_Int v # args) = Some (padded ds (number_text_of k v), args)"
| "directive_text ds k _ = None"

fun render :: "item list \<Rightarrow> arg list \<Rightarrow> u8 list option" where
  "render [] args = Some []"
| "render (Lit c # is) args = map_option (\<lambda>t. c # t) (render is args)"
| "render (Directive ds k # is) args =
     (case directive_text ds k args of
        None \<Rightarrow> None
      | Some (t, args) \<Rightarrow> map_option (\<lambda>u. t @ u) (render is args))"

section \<open>Directives\<close>

lemma conv_char_simps:
  "conv_char k \<noteq> 0" "\<not> is_digit (conv_char k)" "sint (conv_char k) \<notin> {32, 9, 10, 11, 12, 13}"
  "conv_char k \<noteq> 43" "conv_char k \<noteq> 45"
  "conv_char k \<notin> {48, 49, 50, 51, 52, 53, 54, 55, 56, 57}"
  by (cases k; simp add: is_digit_def)+

lemma atoi_digit_text:
  assumes "\<forall>d \<in> set ds. d < 10" and "ds \<noteq> []"
  shows "atoi (digit_text ds @ conv_char k # rest) = Inr (of_nat (value_of 10 ds))"
proof -
  have d: "is_digit (48 + of_nat d) \<and> digit_val (48 + of_nat d) = d" if "d < 10" for d
    using digit_decimal [OF that] decimal_nth [OF that] by simp
  have "number_text [] No_Sign (digit_text ds) (conv_char k)"
    using assms d conv_char_simps(2) by (auto simp: number_text_def digit_text_def)
  moreover have "map digit_val (digit_text ds) = ds"
    using assms(1) d by (auto simp: digit_text_def intro!: map_idI)
  ultimately show ?thesis using atoi_spec [of "[]" No_Sign "digit_text ds" "conv_char k" rest] by simp
qed

lemma digit_code:
  assumes "d < 10"
  shows "(48 + of_nat d :: u8) = 48 \<longleftrightarrow> d = 0"
    and "(48 + of_nat d :: u8) \<in> {49, 50, 51, 52, 53, 54, 55, 56, 57} \<longleftrightarrow> d \<noteq> 0"
proof -
  have d: "d = 0 \<or> d = 1 \<or> d = 2 \<or> d = 3 \<or> d = 4 \<or> d = 5 \<or> d = 6 \<or> d = 7 \<or> d = 8 \<or> d = 9"
    using assms by arith
  show "(48 + of_nat d :: u8) = 48 \<longleftrightarrow> d = 0" using d by (elim disjE) simp_all
  show "(48 + of_nat d :: u8) \<in> {49, 50, 51, 52, 53, 54, 55, 56, 57} \<longleftrightarrow> d \<noteq> 0"
    using d by (elim disjE) simp_all
qed

lemma printf_directive_spec:
  assumes "drop (i + 1) fmt = digit_text ds @ conv_char k # rest" and "\<forall>d \<in> set ds. d < 10"
  shows "printf_directive fmt i (of_nat w) p
     = Inr (i + 1 + length ds, of_nat (scan_width ds w), if 0 \<in> set ds then 48 else p, conv_char k)"
  using assms
proof (induction ds arbitrary: i w p)
  case Nil
  then have "drop (i + 1) fmt = conv_char k # rest" by (simp add: digit_text_def)
  from drop_eq_ConsD [OF this] show ?case
    using conv_char_simps(6) [of k]
    by (subst printf_directive.simps) (simp add: of_char_def)
next
  case (Cons d ds)
  then have dr: "drop (i + 1) fmt = (48 + of_nat d) # digit_text ds @ conv_char k # rest"
    by (simp add: digit_text_def)
  note l = drop_eq_ConsD [OF dr]
  have ld: "load fmt (i + 1) = Inr (48 + of_nat d)" using l by simp
  note IH = Cons.IH [of "i + 1"]
  have rest: "drop (i + 1 + 1) fmt = digit_text ds @ conv_char k # rest" "\<forall>d \<in> set ds. d < 10"
    using l Cons.prems by simp_all
  show ?case
  proof (cases "d = 0")
    case True
    then show ?thesis
      using IH [OF rest, of w 48] ld
      by (simp add: printf_directive.simps [of fmt i] of_char_def)
  next
    case False
    have a: "atoi (drop (i + 1) fmt) = Inr (of_nat (value_of 10 (d # ds)))"
      using atoi_digit_text [of "d # ds" k rest] Cons.prems by simp
    show ?thesis
      using IH [OF rest, of "value_of 10 (d # ds) mod 2 ^ 32" p] ld a False digit_code [of d] Cons.prems(2)
      unfolding of_nat_mod_u32 by (subst printf_directive.simps) (simp add: of_char_def)
  qed
qed

section \<open>Numbers in a 32-byte buffer\<close>

lemma rep_room:
  "length (rep 10 (unat (v :: u32))) \<le> 10" "length (rep 8 (unat v)) \<le> 11" "length (rep 16 (unat v)) \<le> 8"
  using unat_u32_less [of v] by (auto intro!: length_rep_le)

lemma chars_number:
  assumes "2 \<le> b" and "b \<le> 36" and "\<forall>d < 36. alphabet ! d \<noteq> 0"
  shows "chars (digit_chars alphabet b n @ 0 # rest) = digit_chars alphabet b n"
proof (rule chars_append_0)
  show "\<forall>c \<in> set (digit_chars alphabet b n). c \<noteq> 0"
    using rep_digits [of b _ n] assms by (fastforce simp: digit_chars_def)
qed

lemma alphabet_nonzero:
  "\<forall>d < 36. decimal ! d \<noteq> 0"
  "\<forall>d < 36. lit ''0123456789abcdefghijklmnopqrstuvwxyz'' ! d \<noteq> 0"
proof -
  have *: "\<forall>d < 36. xs ! d \<noteq> 0" if "\<forall>c \<in> set (take 36 xs). c \<noteq> 0" "36 \<le> length xs" for xs :: buf
    using that nth_mem [of _ "take 36 xs"] by fastforce
  show "\<forall>d < 36. decimal ! d \<noteq> 0" by (rule *) (simp_all add: lit_def of_char_def)
  show "\<forall>d < 36. lit ''0123456789abcdefghijklmnopqrstuvwxyz'' ! d \<noteq> 0"
    by (rule *) (simp_all add: lit_def of_char_def)
qed

lemma utoa_str:
  assumes "base \<in> {8, 10, 16}" and "length junk = 32"
  shows "\<exists>str p. utoa v junk base = Inr (str, p) \<and> terminated str
     \<and> chars str = digit_chars decimal (nat base) (unat v)"
proof -
  have "length (rep (nat base) (unat v)) < length junk" using assms rep_room [of v] by auto
  moreover have b: "2 \<le> base" "base \<le> 36" using assms(1) by auto
  moreover from b have "2 \<le> nat base" "nat base \<le> 36" by linarith+
  ultimately show ?thesis by (simp add: utoa_spec chars_number alphabet_nonzero)
qed

lemma utoa_lc_str:
  assumes "length junk = 32"
  shows "\<exists>str p. utoa_lc v junk 16 = Inr (str, p) \<and> terminated str
     \<and> chars str = digit_chars (lit ''0123456789abcdefghijklmnopqrstuvwxyz'') 16 (unat v)"
  using assms rep_room(3) [of v] by (simp add: utoa_lc_spec chars_number alphabet_nonzero)

lemma sint_cases:
  fixes v :: u32
  shows "sint v < 0 \<Longrightarrow> unat (- v) = nat (- sint v)" and "0 \<le> sint v \<Longrightarrow> unat v = nat (sint v)"
proof -
  have rng: "- (2 ^ 31) \<le> sint v" "sint v < 2 ^ 31"
    using sint_ge [of v] sint_lt [of v] by simp_all
  have v: "v = word_of_int (sint v)" by simp
  show "unat (- v) = nat (- sint v)" if "sint v < 0"
  proof -
    have e: "- v = word_of_int (- sint v)" using v by simp
    have "uint (- v) = (- sint v) mod 2 ^ 32" by (subst e) (simp only: uint_word_of_int, simp)
    with that rng show ?thesis by (simp add: unat_eq_nat_uint)
  qed
  show "unat v = nat (sint v)" if "0 \<le> sint v"
  proof -
    have "uint v = sint v mod 2 ^ 32" by (subst v) (simp only: uint_word_of_int, simp)
    with that rng show ?thesis by (simp add: unat_eq_nat_uint)
  qed
qed

lemma itoa_str:
  assumes "length junk = 32"
  shows "\<exists>str p. itoa v junk 10 = Inr (str, p) \<and> terminated str \<and> chars str = signed_text v"
proof -
  have room: "length (rep (nat 10) (unat w)) + 1 < length junk" for w :: u32
    using rep_room(1) [of w] assms by simp
  have neg: "chars ([45] @ digit_chars decimal 10 n @ 0 # rest) = 45 # digit_chars decimal 10 n" for n rest
    by (simp add: chars_number alphabet_nonzero)
  show ?thesis
    using itoa_any_spec [OF _ _ room room, of v] sint_cases [of v] neg
    by (auto simp: signed_text_def chars_number alphabet_nonzero)
qed

lemma unat_scan_width: "unat (of_nat (scan_width ds 0) :: u32) = scan_width ds 0"
proof -
  have "w < 2 ^ 32 \<Longrightarrow> scan_width ds w < 2 ^ 32" for w
    by (induction ds w rule: scan_width.induct) auto
  then show ?thesis by (simp add: unat_of_nat_less)
qed

lemma length_digit_text [simp]: "length (digit_text ds) = length ds"
  by (simp add: digit_text_def)

lemma directive_text_cases [consumes 1, case_names Pct Str Chr Num]:
  assumes "directive_text ds k args = Some (t, args')"
  obtains "k = Pct" and "t = [37]" and "args' = args"
  | s where "k = Str" and "args = Arg_Str s # args'" and "terminated s" and "t = padded ds (chars s)"
  | v where "k = Chr" and "args = Arg_Int v # args'" and "t = [ucast v]"
  | v where "k \<notin> {Pct, Str, Chr}" and "args = Arg_Int v # args'" and "t = padded ds (number_text_of k v)"
  using assms
  by (cases "(ds, k, args)" rule: directive_text.cases) (auto split: if_splits)

section \<open>Files that can be written\<close>

text \<open>
  What \<open>vfprintf\<close> relies on of \<open>write_op\<close>: on a good state it accepts any prefix of a buffer, returns
  its length, and appends it to what the reader of the output sees, so that writing in pieces and
  writing at once look the same.
\<close>

locale file_sink =
  fixes write_op :: "'w write_op" and ok :: "'w \<Rightarrow> bool" and view :: "'w \<Rightarrow> 'v"
    and emit :: "u8 list \<Rightarrow> 'v \<Rightarrow> 'v"
  assumes write_prefix: "ok w \<Longrightarrow> n \<le> length b \<Longrightarrow>
      \<exists>w'. write_op n b w = Inr (w', n) \<and> ok w' \<and> view w' = emit (take n b) (view w)"
    and emit_append: "emit (s @ t) v = emit t (emit s v)"
begin

lemma pad_writes:
  assumes "ok w" and "0 < n"
  shows "\<exists>w'. rfold (\<lambda>k w. rbind (write_op 1 [p] w) (\<lambda>(w, _). Inr w)) [0..<n] w = Inr w' \<and> ok w'
     \<and> view w' = emit (replicate n p) (view w)"
  using assms(2)
proof (induction n rule: nat_induct_non_zero)
  case 1
  then show ?case using write_prefix [OF assms(1), of 1 "[p]"] by auto
next
  case (Suc n)
  then obtain w1 where 1: "rfold (\<lambda>k w. rbind (write_op 1 [p] w) (\<lambda>(w, _). Inr w)) [0..<n] w = Inr w1"
    "ok w1" "view w1 = emit (replicate n p) (view w)" by blast
  obtain w2 where 2: "write_op 1 [p] w1 = Inr (w2, 1)" "ok w2" "view w2 = emit [p] (view w1)"
    using write_prefix [OF 1(2), of 1 "[p]"] by auto
  have "replicate (Suc n) p = replicate n p @ [p]" by (simp add: replicate_append_same)
  with 1 2 show ?case by (simp add: rfold_append emit_append)
qed

lemma print_padded_spec:
  assumes "ok w" and "terminated str"
  shows "\<exists>w'. print_padded write_op width p str w = Inr w' \<and> ok w'
     \<and> view w' = emit (replicate (unat width - length (chars str)) p @ chars str) (view w)"
proof -
  have str: "take (length (chars str)) str = chars str" using chars_eq_take [of str] by simp
  have le: "length (chars str) \<le> length str" by (rule length_chars_le)
  show ?thesis
  proof (cases "length (chars str) < unat width")
    case True
    then obtain w1 where 1: "rfold (\<lambda>k w. rbind (write_op 1 [p] w) (\<lambda>(w, _). Inr w))
        [0..<unat width - length (chars str)] w = Inr w1" "ok w1"
      "view w1 = emit (replicate (unat width - length (chars str)) p) (view w)"
      using pad_writes [OF assms(1), of "unat width - length (chars str)" p] by auto
    with True assms(2) write_prefix [OF 1(2) le] str show ?thesis
      by (auto simp: print_padded_def emit_append)
  next
    case False
    with assms write_prefix [OF assms(1) le] str show ?thesis
      by (auto simp: print_padded_def)
  qed
qed

lemma vfprintf_conversion_spec:
  assumes "ok w" and junk: "length junk = 32" and "directive_text ds k args = Some (t, args')"
  shows "\<exists>w'. vfprintf_conversion junk write_op (conv_char k) (of_nat (scan_width ds 0)) (pad_char ds) args w
      = Inr (w', args') \<and> ok w' \<and> view w' = emit t (view w)"
proof -
  have width: "unat (of_nat (scan_width ds 0) :: u32) = scan_width ds 0" by (rule unat_scan_width)
  have num: "\<exists>w'. print_padded write_op (of_nat (scan_width ds 0)) (pad_char ds) str w = Inr w' \<and> ok w'
      \<and> view w' = emit (padded ds (chars str)) (view w)" if "terminated str" for str
    using print_padded_spec [OF assms(1) that, of "of_nat (scan_width ds 0)" "pad_char ds"] width by (simp add: padded_def)
  note write1 = write_prefix [OF assms(1), of 1]
  show ?thesis
    using assms(3)
  proof (cases rule: directive_text_cases)
    case Pct
    then show ?thesis using write1 [of "lit ''%''"]
      by (auto simp: vfprintf_conversion_def of_char_def lit_def)
  next
    case (Str s)
    then show ?thesis using num [of s] by (auto simp: vfprintf_conversion_def of_char_def)
  next
    case (Chr v)
    then show ?thesis using write1 [of "[ucast v]"] by (auto simp: vfprintf_conversion_def of_char_def)
  next
    case (Num v)
    then show ?thesis
      using num utoa_str [OF _ junk, of 10 v] utoa_str [OF _ junk, of 8 v] utoa_str [OF _ junk, of 16 v]
        utoa_lc_str [OF junk, of v] itoa_str [OF junk, of v]
      by (cases k) (fastforce simp: vfprintf_conversion_def of_char_def)+
  qed
qed

lemma vfprintf_loop_spec:
  assumes "ok w" and junk: "length junk = 32"
    and "drop i fmt = fmt_of is" and "\<forall>it \<in> set is. item_ok it" and "render is args = Some t"
  shows "\<exists>w'. vfprintf_loop junk write_op fmt i args w = Inr w' \<and> ok w'
     \<and> view w' = (if is = [] then view w else emit t (view w))"
  using assms(1,3-)
proof (induction "is" arbitrary: i args t w)
  case Nil
  then have "load fmt i = Inr 0" using drop_eq_ConsD [of i fmt 0 "[]"] by (simp add: fmt_of_def)
  with Nil show ?case by (subst vfprintf_loop.simps) simp
next
  case (Cons it "is")
  show ?case
  proof (cases it)
    case (Lit c)
    have c: "c \<noteq> 0" "c \<noteq> 37" using Cons.prems(3) Lit by auto
    have dr: "drop i fmt = c # fmt_of is" using Cons.prems(2) Lit by (simp add: fmt_of_def)
    note l = drop_eq_ConsD [OF dr]
    obtain u where u: "render is args = Some u" "t = c # u" using Cons.prems(4) Lit by auto
    obtain w1 where 1: "write_op 1 (drop i fmt) w = Inr (w1, 1)" "ok w1" "view w1 = emit [c] (view w)"
      using write_prefix [OF Cons.prems(1), of 1 "drop i fmt"] dr by auto
    from Cons.IH [OF 1(2) l(3) _ u(1)] obtain w2 where
      "vfprintf_loop junk write_op fmt (i + 1) args w1 = Inr w2" "ok w2"
      "view w2 = (if is = [] then view w1 else emit u (view w1))"
      using Cons.prems(3) by auto
    moreover have "emit t (view w) = emit u (view w1)" using u(2) 1(3) emit_append [of "[c]" u] by simp
    moreover have "is = [] \<Longrightarrow> t = [c]" using u by auto
    ultimately show ?thesis
      using l c 1 by (subst vfprintf_loop.simps) (auto simp: of_char_def)
  next
    case (Directive ds k)
    have dr: "drop i fmt = 37 # digit_text ds @ conv_char k # fmt_of is"
      using Cons.prems(2) Directive by (simp add: fmt_of_def)
    note l = drop_eq_ConsD [OF dr]
    have ds: "\<forall>d \<in> set ds. d < 10" using Cons.prems(3) Directive by simp
    obtain u args' r where u: "directive_text ds k args = Some (u, args')" "render is args' = Some r" "t = u @ r"
      using Cons.prems(4) Directive by (auto split: option.splits)
    have d: "printf_directive fmt i 0 32
        = Inr (i + 1 + length ds, of_nat (scan_width ds 0), pad_char ds, conv_char k)"
      using printf_directive_spec [OF l(3) ds, of 0 32] by (simp add: pad_char_def)
    have nxt: "drop (i + 1 + length ds + 1) fmt = fmt_of is"
      using arg_cong [OF l(3), of "drop (length ds + 1)"] by (simp add: add.commute add.left_commute)
    obtain w1 where 1: "vfprintf_conversion junk write_op (conv_char k) (of_nat (scan_width ds 0))
        (pad_char ds) args w = Inr (w1, args')" "ok w1" "view w1 = emit u (view w)"
      using vfprintf_conversion_spec [OF Cons.prems(1) junk u(1)] by blast
    from Cons.IH [OF 1(2) nxt _ u(2)] obtain w2 where
      "vfprintf_loop junk write_op fmt (i + 1 + length ds + 1) args' w1 = Inr w2" "ok w2"
      "view w2 = (if is = [] then view w1 else emit r (view w1))"
      using Cons.prems(3) by auto
    moreover have "emit t (view w) = emit r (view w1)" using u(3) 1(3) emit_append [of u r] by simp
    moreover have "is = [] \<Longrightarrow> t = u" using u by auto
    ultimately show ?thesis
      using l d 1 by (subst vfprintf_loop.simps) (auto simp: of_char_def)
  qed
qed

lemma vfprintf_spec:
  assumes "ok w" and "length junk = 32" and "is \<noteq> []" and "\<forall>it \<in> set is. item_ok it"
    and "render is args = Some t"
  shows "\<exists>w'. vfprintf junk write_op (fmt_of is) args w = Inr (w', 0) \<and> ok w' \<and> view w' = emit t (view w)"
  using vfprintf_loop_spec [OF assms(1,2), of 0 "fmt_of is" "is" args t] assms by (auto simp: vfprintf_def)

end

section \<open>The terminal as a file\<close>

definition show_text :: "VgaColorScheme \<Rightarrow> u8 list \<Rightarrow> screen \<Rightarrow> screen" where
  "show_text c t v = fold screen_put t (v\<lparr>colours := c\<rparr>)"

lemma colours_put [simp]: "colours (screen_put c v) = colours v"
  by (simp add: screen_put_def feed_def)

lemma colours_fold [simp]: "colours (fold screen_put t v) = colours v"
  by (induction t arbitrary: v) simp_all

lemma show_text_append: "show_text c (s @ t) v = show_text c t (show_text c s v)"
proof -
  let ?w = "fold screen_put s (v\<lparr>colours := c\<rparr>)"
  have "w\<lparr>colours := colours w\<rparr> = w" for w :: screen by (cases w) simp
  from this [of ?w] have e: "?w\<lparr>colours := c\<rparr> = ?w" unfolding colours_fold by simp
  show ?thesis unfolding show_text_def fold_append comp_def e ..
qed

lemma write_loop:
  "n \<le> length b \<Longrightarrow> rfold (\<lambda>i s. rbind (load b i) (\<lambda>ch. putchar ch s)) [0..<n] s = rfold VgaTerminalPut (take n b) s"
  by (induction n) (auto simp: rfold_append take_Suc_conv_app_nth putchar_def intro!: rbind_cong)

lemma terminal_write:
  assumes "vga_ok s" and "n \<le> length b"
  shows "\<exists>s'. rbind (rfold (\<lambda>i s. rbind (load b i) (\<lambda>ch. putchar ch s)) [0..<n]
        (VgaTerminalSwitchColorScheme c s)) (\<lambda>s. Inr (s, n)) = Inr (s', n)
     \<and> vga_ok s' \<and> screen_of s' = show_text c (take n b) (screen_of s)"
  using put_text_spec [OF vga_ok_scheme [OF assms(1)], of "take n b" c] assms(2)
  by (auto simp: write_loop screen_of_scheme show_text_def)

interpretation stdout_file: file_sink StdoutWriteOp vga_ok screen_of "show_text default_color_scheme"
proof unfold_locales
  show "\<exists>w'. StdoutWriteOp n b w = Inr (w', n) \<and> vga_ok w'
      \<and> screen_of w' = show_text default_color_scheme (take n b) (screen_of w)"
    if "vga_ok w" and "n \<le> length b" for w n b
    using terminal_write [OF that] by (simp add: StdoutWriteOp_def)
qed (rule show_text_append)

interpretation stderr_file: file_sink StderrWriteOp vga_ok screen_of "show_text err_color_scheme"
proof unfold_locales
  show "\<exists>w'. StderrWriteOp n b w = Inr (w', n) \<and> vga_ok w'
      \<and> screen_of w' = show_text err_color_scheme (take n b) (screen_of w)"
    if "vga_ok w" and "n \<le> length b" for w n b
    using terminal_write [OF that] by (simp add: StderrWriteOp_def)
qed (rule show_text_append)

section \<open>sprintf\<close>

text \<open>
  \<open>at t m tail\<close>: \<open>dest\<close> holds the text \<open>t\<close>, then \<open>m\<close> zero bytes, and \<open>j\<close> is behind the text.
\<close>

abbreviation dest_at :: "u8 list \<Rightarrow> nat \<Rightarrow> u8 list \<Rightarrow> buf \<times> nat" where
  "dest_at t m tail \<equiv> (t @ replicate m 0 @ tail, length t)"

lemma store_at:
  "0 < m \<Longrightarrow> store (t @ replicate m 0 @ tail) (length t) c = Inr ((t @ [c]) @ replicate (m - 1) 0 @ tail)"
  by (cases m) (simp_all add: list_update_append)

lemma sprint_pad_loop:
  "n \<le> m \<Longrightarrow> rfold (\<lambda>k (dest, j). rbind (load dest j) (\<lambda>old.
       rbind (store dest j (old + p)) (\<lambda>dest. Inr (dest, j + 1)))) [0..<n] (dest_at t m tail)
     = Inr (dest_at (t @ replicate n p) (m - n) tail)"
proof (induction n)
  case (Suc n)
  let ?t = "t @ replicate n p"
  have "load (?t @ replicate (m - n) 0 @ tail) (length ?t) = Inr 0"
    using Suc.prems by (simp add: load_def nth_append)
  moreover have "store (?t @ replicate (m - n) 0 @ tail) (length ?t) p
      = Inr ((?t @ [p]) @ replicate (m - n - 1) 0 @ tail)"
    using Suc.prems by (intro store_at) simp
  ultimately show ?case
    using Suc by (simp add: rfold_append replicate_append_same [symmetric] del: append_assoc)
qed simp

lemma strcpy_at:
  assumes "terminated str" and "length (chars str) < m"
  shows "strcpy (replicate m 0 @ tail) str = Inr (chars str @ replicate (m - length (chars str)) 0 @ tail)"
proof -
  let ?n = "length (chars str)"
  have "take (?n + 1) str = chars str @ [0]"
    using length_chars_less [OF assms(1)] nth_length_chars [OF assms(1)] chars_eq_take [of str]
    by (simp add: take_Suc_conv_app_nth)
  moreover have "[0] @ replicate (m - Suc ?n) 0 = replicate (m - ?n) (0 :: u8)"
    using assms(2) by (cases "m - ?n") (simp_all add: Suc_diff_Suc)
  ultimately show ?thesis
    using strcpy_loop_spec [OF assms(1), of "replicate m 0 @ tail" 0] assms(2)
    by (simp add: strcpy_def)
qed

lemma sprint_padded_spec:
  assumes "terminated str" and "length u < m"
    and "u = replicate (unat width - length (chars str)) p @ chars str"
  shows "sprint_padded width p str (dest_at t m tail) = Inr (dest_at (t @ u) (m - length u) tail)"
proof -
  let ?n = "unat width - length (chars str)"
  have room: "?n + length (chars str) < m" using assms(2,3) by simp
  have pad: "(if length (chars str) < unat width
      then rfold (\<lambda>k (dest, j). rbind (load dest j) (\<lambda>old.
             rbind (store dest j (old + p)) (\<lambda>dest. Inr (dest, j + 1)))) [0..<?n] (dest_at t m tail)
      else Inr (dest_at t m tail)) = Inr (dest_at (t @ replicate ?n p) (m - ?n) tail)"
    using sprint_pad_loop [of ?n m p t tail] room by simp
  have "strcpy (replicate (m - ?n) 0 @ tail) str
      = Inr (chars str @ replicate (m - ?n - length (chars str)) 0 @ tail)"
    using room by (intro strcpy_at assms(1)) simp
  with pad show ?thesis using assms(1,3) by (simp add: sprint_padded_def)
qed

lemma sprintf_conversion_spec:
  assumes junk: "length junk = 32" and "directive_text ds k args = Some (u, args')" and "length u < m"
  shows "sprintf_conversion junk (conv_char k) (of_nat (scan_width ds 0)) (pad_char ds) args (dest_at t m tail)
      = Inr (dest_at (t @ u) (m - length u) tail, args')"
proof -
  have num: "sprint_padded (of_nat (scan_width ds 0)) (pad_char ds) str (dest_at t m tail)
      = Inr (dest_at (t @ u) (m - length u) tail)" if "terminated str" "u = padded ds (chars str)" for str
    using sprint_padded_spec [OF that(1) assms(3)] that(2) unat_scan_width [of ds] by (simp add: padded_def)
  have m: "0 < m" using assms(3) by simp
  show ?thesis
    using assms(2)
  proof (cases rule: directive_text_cases)
    case Pct
    then show ?thesis using store_at [OF m, of t tail 37] by (simp add: sprintf_conversion_def of_char_def)
  next
    case (Str s)
    then show ?thesis using num [of s] by (simp add: sprintf_conversion_def of_char_def)
  next
    case (Chr v)
    then show ?thesis using store_at [OF m, of t tail "ucast v"] by (simp add: sprintf_conversion_def of_char_def)
  next
    case (Num v)
    then show ?thesis
      using num utoa_str [OF _ junk, of 10 v] utoa_str [OF _ junk, of 8 v] utoa_str [OF _ junk, of 16 v]
        utoa_lc_str [OF junk, of v] itoa_str [OF junk, of v]
      by (cases k) (fastforce simp: sprintf_conversion_def of_char_def)+
  qed
qed

lemma sprintf_loop_spec:
  assumes junk: "length junk = 32"
    and "drop i fmt = fmt_of is" and "\<forall>it \<in> set is. item_ok it" and "render is args = Some r"
    and "length r < m"
  shows "sprintf_loop junk fmt i args (dest_at t m tail) = Inr (dest_at (t @ r) (m - length r) tail)"
  using assms(2-)
proof (induction "is" arbitrary: i args r t m)
  case Nil
  then have "load fmt i = Inr 0" using drop_eq_ConsD [of i fmt 0 "[]"] by (simp add: fmt_of_def)
  with Nil show ?case by (subst sprintf_loop.simps) simp
next
  case (Cons it "is")
  show ?case
  proof (cases it)
    case (Lit c)
    have c: "c \<noteq> 0" "c \<noteq> 37" using Cons.prems(2) Lit by auto
    have dr: "drop i fmt = c # fmt_of is" using Cons.prems(1) Lit by (simp add: fmt_of_def)
    note l = drop_eq_ConsD [OF dr]
    obtain u where u: "render is args = Some u" "r = c # u" using Cons.prems(3) Lit by auto
    have "sprintf_loop junk fmt (i + 1) args (dest_at (t @ [c]) (m - 1) tail)
        = Inr (dest_at ((t @ [c]) @ u) (m - 1 - length u) tail)"
      using Cons.prems u by (intro Cons.IH [OF l(3) _ u(1)]) auto
    then show ?thesis
      using l c u(2) Cons.prems(4) store_at [of m t tail c]
      by (subst sprintf_loop.simps) (simp add: of_char_def)
  next
    case (Directive ds k)
    have dr: "drop i fmt = 37 # digit_text ds @ conv_char k # fmt_of is"
      using Cons.prems(1) Directive by (simp add: fmt_of_def)
    note l = drop_eq_ConsD [OF dr]
    have ds: "\<forall>d \<in> set ds. d < 10" using Cons.prems(2) Directive by simp
    obtain u args' q where u: "directive_text ds k args = Some (u, args')" "render is args' = Some q" "r = u @ q"
      using Cons.prems(3) Directive by (auto split: option.splits)
    have d: "printf_directive fmt i 0 32
        = Inr (i + 1 + length ds, of_nat (scan_width ds 0), pad_char ds, conv_char k)"
      using printf_directive_spec [OF l(3) ds, of 0 32] by (simp add: pad_char_def)
    have nxt: "drop (i + 1 + length ds + 1) fmt = fmt_of is"
      using arg_cong [OF l(3), of "drop (length ds + 1)"] by (simp add: add.commute add.left_commute)
    have "sprintf_loop junk fmt (i + 1 + length ds + 1) args' (dest_at (t @ u) (m - length u) tail)
        = Inr (dest_at ((t @ u) @ q) (m - length u - length q) tail)"
      using Cons.prems u by (intro Cons.IH [OF nxt _ u(2)]) auto
    then show ?thesis
      using l d u(3) Cons.prems(4) sprintf_conversion_spec [OF junk u(1), of m t tail]
      by (subst sprintf_loop.simps) (simp add: of_char_def)
  qed
qed

lemma scan_width_all_zero: "\<forall>d \<in> set ds. d = 0 \<Longrightarrow> scan_width ds w = w"
  by (induction ds) auto

lemma scan_width_last:
  assumes "d \<noteq> 0"
  shows "scan_width (xs @ d # replicate n 0) w = d * 10 ^ n mod 2 ^ 32"
proof (induction xs arbitrary: w)
  case Nil
  have "foldl (\<lambda>a d. a * 10 + d) a (replicate n 0) = a * 10 ^ n" for a :: nat
    by (induction n arbitrary: a) simp_all
  then have "value_of 10 (d # replicate n 0) = d * 10 ^ n" by (simp add: value_of_def)
  with assms show ?case by (simp add: scan_width_all_zero)
qed simp

section \<open>Properties\<close>

text \<open>
  C7: \<open>printf\<close> and \<open>fprintf\<close> on \<open>stderr\<close> show, for every format made of literal characters and
  the directives \<open>%%\<close>, \<open>%d\<close>, \<open>%i\<close>, \<open>%u\<close>, \<open>%o\<close>, \<open>%x\<close>, \<open>%X\<close>, \<open>%c\<close> and \<open>%s\<close> with any digits between
  the percent sign and the letter, and for arguments that fit it, exactly the rendered text on the
  terminal, in the colours of the stream; nothing faults, whatever the local number buffer held
  before, and the return value is always 0.
\<close>

theorem printf_renders:
  assumes "vga_ok s" and "length junk = 32" and "is \<noteq> []" and "\<forall>it \<in> set is. item_ok it"
    and "render is args = Some t"
  shows "(\<exists>s'. printf junk (fmt_of is) args s = Inr (s', 0) \<and> vga_ok s'
        \<and> screen_of s' = show_text default_color_scheme t (screen_of s))
    \<and> (\<exists>s'. fprintf junk StderrWriteOp (fmt_of is) args s = Inr (s', 0) \<and> vga_ok s'
        \<and> screen_of s' = show_text err_color_scheme t (screen_of s))"
  using stdout_file.vfprintf_spec [OF assms] stderr_file.vfprintf_spec [OF assms]
  by (simp add: printf_def fprintf_def)

theorem printf_renders_witness:
  "\<exists>s'. printf (replicate 32 0xCC) (lit ''A%04X'') [Arg_Int 0xBE] boot_vga = Inr (s', 0) \<and> vga_ok s'
    \<and> screen_of s' = show_text default_color_scheme [65, 48, 48, 66, 69] (screen_of boot_vga)"
proof -
  let ?is = "[Lit 65, Directive [0, 4] Hex_Uc]"
  have r: "render ?is [Arg_Int 0xBE] = Some [65, 48, 48, 66, 69]"
    by (simp add: padded_def value_of_def pad_char_def digit_chars_def rep.simps lit_def of_char_def
        replicate_numeral)
  have f: "fmt_of ?is = lit ''A%04X''"
    by (simp add: fmt_of_def digit_text_def lit_def of_char_def)
  show ?thesis
    using printf_renders [OF vga_ok_boot, of "replicate 32 0xCC" ?is "[Arg_Int 0xBE]"] r f by simp
qed

text \<open>
  \<open>sprintf\<close> into a buffer whose first \<open>m\<close> bytes are zero, more than the text needs, writes the
  rendered text there and leaves every other byte as it was, terminator included; the result is the
  length of the string in the buffer. The buffer has to be zero because the padding is added to what
  the buffer holds: see the finding on line 229.
\<close>

theorem sprintf_renders:
  assumes "length junk = 32" and "\<forall>it \<in> set is. item_ok it" and "render is args = Some t"
    and "length t < m"
  shows "sprintf junk (replicate m 0 @ tail) (fmt_of is) args
     = Inr (t @ replicate (m - length t) 0 @ tail, length (chars (t @ [0])))"
proof -
  let ?d = "t @ replicate (m - length t) 0 @ tail"
  have loop: "sprintf_loop junk (fmt_of is) 0 args (replicate m 0 @ tail, 0) = Inr (?d, length t)"
    using sprintf_loop_spec [OF assms(1) _ assms(2,3,4), of 0 "fmt_of is" "[]" tail] by simp
  obtain r where r: "?d = t @ 0 # r" using assms(4) by (cases "m - length t") auto
  have "chars (t @ 0 # r) = chars (t @ [0])" by (induction t) simp_all
  with loop r show ?thesis
    by (simp add: sprintf_def store_def list_update_append)
qed

theorem sprintf_renders_witness:
  "sprintf (replicate 32 0xCC) (replicate 8 0 @ [7]) (lit ''%3d%%'') [Arg_Int (- 5)]
     = Inr ([32, 45, 53, 37, 0, 0, 0, 0, 7], 4)"
proof -
  let ?is = "[Directive [3] Dec, Directive [] Pct]"
  have r: "render ?is [Arg_Int (- 5)] = Some [32, 45, 53, 37]"
    by (simp add: padded_def value_of_def pad_char_def signed_text_def digit_chars_def rep.simps
        lit_def of_char_def)
  have f: "fmt_of ?is = lit ''%3d%%''"
    by (simp add: fmt_of_def digit_text_def lit_def of_char_def)
  show ?thesis
    using sprintf_renders [OF _ _ r, of "replicate 32 0xCC" 8 "[7]"] f
    by (simp add: replicate_numeral)
qed

text \<open>
  the width of a directive is not the number its digits spell: the last non-zero digit and the
  zeros behind it are the width, and a zero anywhere in the digits selects zero padding. So \<open>%12d\<close>
  pads to 2 characters and \<open>%10d\<close> pads to 10 with zeros.
\<close>

theorem printf_width_last_digit:
  assumes "\<forall>x \<in> set xs. x < 10" and "0 < d" and "d < 10"
    and "ds = xs @ d # replicate n 0"
  shows "printf_directive (37 # digit_text ds @ conv_char k # rest) 0 0 32
     = Inr (1 + length ds, of_nat (d * 10 ^ n), if 0 \<in> set xs \<or> 0 < n then 48 else 32, conv_char k)"
proof -
  have "(of_nat (d * 10 ^ n mod 2 ^ 32) :: u32) = of_nat (d * 10 ^ n)" by (rule of_nat_mod_u32)
  moreover have "\<forall>x \<in> set ds. x < 10" using assms by auto
  ultimately show ?thesis
    using printf_directive_spec [of 0 "37 # digit_text ds @ conv_char k # rest" ds k rest 0 32] assms(2,4)
      scan_width_last [of d xs n 0]
    by simp
qed

theorem printf_width_last_digit_witness:
  "printf_directive (lit ''%12d'') 0 0 32 = Inr (3, 2, 32, 100)
   \<and> printf_directive (lit ''%10d'') 0 0 32 = Inr (3, 10, 48, 100)"
  using printf_width_last_digit [of "[1]" 2 "[1, 2]" 0 Dec "[0]"]
    printf_width_last_digit [of "[]" 1 "[1, 0]" 1 Dec "[0]"]
  by (simp add: lit_def of_char_def digit_text_def)

text \<open>The padding bytes are added to the old contents of the buffer.\<close>

lemma sprintf_pads_dirty_buffer:
  "sprintf (replicate 32 0) [1, 1, 1, 1] (lit ''%2d'') [Arg_Int 5] = Inr ([33, 53, 0, 1], 2)"
proof -
  let ?fmt = "[37, 50, 100, 0] :: buf" and ?str = "53 # 0 # replicate 30 0 :: buf"
  have d: "printf_directive ?fmt 0 0 32 = Inr (2, 2, 32, 100)"
    using printf_directive_spec [of 0 ?fmt "[2]" Dec "[0]" 0 32] by (simp add: digit_text_def value_of_def)
  have i: "itoa 5 (replicate 32 0) 10 = Inr (?str, Some 0)"
    using itoa_any_spec [of 10 5 "replicate 32 0"] rep_room(1) [of "- 5"]
    by (simp add: digit_chars_def rep.simps [of 10 5] lit_def of_char_def replicate_numeral)
  have c: "strcpy [1, 1, 1] ?str = Inr [53, 0, 1]"
    using strcpy_loop_spec [of ?str "[1, 1, 1]" 0] by (simp add: strcpy_def)
  have p: "sprint_padded 2 32 ?str ([1, 1, 1, 1], 0) = Inr ([33, 53, 0, 1], 2)"
    using c by (simp add: sprint_padded_def load_def store_def)
  have "sprintf_loop (replicate 32 0) ?fmt 0 [Arg_Int 5] ([1, 1, 1, 1], 0) = Inr ([33, 53, 0, 1], 2)"
    using d i p
    by (simp add: sprintf_loop.simps [of _ _ 0] sprintf_loop.simps [of _ _ "Suc (Suc (Suc 0))"]
        sprintf_loop.simps [of _ _ 3] sprintf_conversion_def of_char_def load_def)
  then show ?thesis by (simp add: sprintf_def lit_def of_char_def store_def)
qed

end
