(* ===== verification/User_Process.thy ===== *)
theory User_Process
  imports Linked_List File_Descriptor Vmm_Process Stdlib_Stdio
begin

text \<open>
  Processes and the scheduler: \<open>user/process.c\<close>, \<open>user/process.h\<close>, the process part of
  \<open>arch/x86/user/process.c\<close> and \<open>X86SchedulerTick\<close> of \<open>arch/x86/dt/idt_x86.c\<close>.

  The state has the static variables of \<open>process.c\<close>, the heap objects by type (processes, file
  descriptors, saved register states), and the states of the components the code calls: page tables,
  interrupt controller, descriptor tables and terminal. What is not modelled here is the argument \<open>E\<close>:
  the answers of the port reads, the kernel heap (\<open>malloc\<close> and \<open>free\<close> of liballoc, which act on
  the allocator's own state and on the address space), the functions behind the operation pointers of a file descriptor, and the
  uninitialised buffer of \<open>printf\<close>.

  Several functions do not return to their caller: the value \<open>outcome\<close> says how they end.
\<close>

section \<open>Data\<close>

record Process =
  address_space :: u32
  last_state :: u32
  kernel_stack :: u32
  local_files :: u32
  proc_next :: u32
  pid :: u32

record ('h, 'm) user_state =
  last_pid :: u32
  head_proc :: u32
  current :: u32
  next_proc :: u32
  scheduling :: bool
  procs :: "u32 \<rightharpoonup> Process"
  fds :: "u32 \<rightharpoonup> FileDescriptor"
  cpus :: "u32 \<rightharpoonup> X86CpuState"
  vm :: vmm
  heap :: 'm
  irq :: "'h idt_state"
  dts :: gdt_state
  vt :: vga

record ('h, 'm) env =
  in8 :: "(u16 \<times> u8) list \<Rightarrow> u16 \<Rightarrow> u8"
  malloc :: "u32 \<Rightarrow> 'm \<times> vmm \<Rightarrow> (u32 \<times> 'm \<times> vmm) res"
  free_block :: "u32 \<Rightarrow> 'm \<times> vmm \<Rightarrow> ('m \<times> vmm) res"
  file_op :: "u32 \<Rightarrow> u32 \<Rightarrow> u32 \<Rightarrow> u32 \<Rightarrow> ('h, 'm) user_state \<Rightarrow> (u32 \<times> ('h, 'm) user_state) res"
  junk :: buf

datatype outcome =
    Returns u32          \<comment> \<open>to the caller\<close>
  | Resumes X86CpuState  \<comment> \<open>\<open>iret\<close> to user mode with these registers\<close>
  | Halts                \<comment> \<open>\<open>cli\<close> and \<open>hlt\<close> in \<open>exit\<close>\<close>
  | Spins                \<comment> \<open>\<open>while(1);\<close> with the timer running\<close>
  | Falls_Through        \<comment> \<open>back in \<open>_X86RestoreKernel\<close>, which has no code after its call\<close>

definition KERNEL_SYSCALL_STACK :: u32 where "KERNEL_SYSCALL_STACK = 16384"
definition USER_PROCESS_STACK :: u32 where "USER_PROCESS_STACK = 1048576"

definition sizeof_Process :: u32 where "sizeof_Process = 24"
definition sizeof_FileDescriptor :: u32 where "sizeof_FileDescriptor = 48"
definition sizeof_X86CpuState :: u32 where "sizeof_X86CpuState = 64"
definition sizeof_RemoveProcessParam :: u32 where "sizeof_RemoveProcessParam = 8"

text \<open>Calls of the heap. A freed object is no longer in the heap of its type.\<close>

definition heap_malloc :: "('h, 'm) env \<Rightarrow> u32 \<Rightarrow> ('h, 'm) user_state \<Rightarrow> (u32 \<times> ('h, 'm) user_state) res" where
  "heap_malloc E sz s = rbind (malloc E sz (heap s, vm s)) (\<lambda>(p, h, v). Inr (p, s\<lparr>heap := h, vm := v\<rparr>))"

definition heap_free :: "('h, 'm) env \<Rightarrow> u32 \<Rightarrow> ('h, 'm) user_state \<Rightarrow> ('h, 'm) user_state res" where
  "heap_free E p s = rbind (free_block E p (heap s, vm s)) (\<lambda>(h, v).
     Inr (s\<lparr>heap := h, vm := v, procs := (procs s)(p := None), fds := (fds s)(p := None), cpus := (cpus s)(p := None)\<rparr>))"

section \<open>Scheduler\<close>

definition StartScheduler :: "('h, 'm) env \<Rightarrow> ('h, 'm) user_state \<Rightarrow> ('h, 'm) user_state" where
  "StartScheduler E s = s\<lparr>scheduling := True, irq := X86StartScheduler (in8 E) (irq s)\<rparr>"

definition StopScheduler :: "('h, 'm) env \<Rightarrow> ('h, 'm) user_state \<Rightarrow> ('h, 'm) user_state" where
  "StopScheduler E s = s\<lparr>scheduling := False, irq := X86StopScheduler (in8 E) (irq s)\<rparr>"

text \<open>\<open>arch/x86/user/context_switch.asm\<close>: switch the address space, acknowledge the timer, \<open>iret\<close>.\<close>

definition X86UserlandJump :: "u32 \<Rightarrow> X86CpuState \<Rightarrow> ('h, 'm) user_state \<Rightarrow> outcome \<times> ('h, 'm) user_state" where
  "X86UserlandJump as st s =
     (let s = s\<lparr>vm := X86SwitchAddressSpace (if as = 0 then None else Some (Dir_At as)) (vm s)\<rparr>;
          s = s\<lparr>irq := PortWrite8 0x20 0x20 (irq s)\<rparr> in
      (Resumes st, s))"

definition X86RestoreProcess :: "u32 \<Rightarrow> ('h, 'm) user_state \<Rightarrow> (outcome \<times> ('h, 'm) user_state) res" where
  "X86RestoreProcess process s =
     rbind (deref (procs s) process) (\<lambda>p.
     let s = s\<lparr>dts := X86SetKernelStack (kernel_stack p) (dts s)\<rparr> in
     rbind (deref (cpus s) (last_state p)) (\<lambda>st.
       Inr (X86UserlandJump (address_space p) st s)))"

definition X86RestoreKernel ::
  "(('h, 'm) user_state \<Rightarrow> (outcome \<times> ('h, 'm) user_state) res) \<Rightarrow> ('h, 'm) user_state \<Rightarrow> (outcome \<times> ('h, 'm) user_state) res" where
  "X86RestoreKernel entry s = rbind (entry s) (\<lambda>(out, s).
     Inr (case out of Returns _ \<Rightarrow> Falls_Through | _ \<Rightarrow> out, s))"

text \<open>\<open>exit(0)\<close>.\<close>

definition halt :: "('h, 'm) env \<Rightarrow> ('h, 'm) user_state \<Rightarrow> (outcome \<times> ('h, 'm) user_state) res" where
  "halt E s = rbind (exit_status (junk E) 0 (vt s)) (\<lambda>t.
     Inr (Halts, s\<lparr>vt := t, irq := (irq s)\<lparr>interrupts_on := False\<rparr>\<rparr>))"

primrec SchedulerTick_loop :: "nat \<Rightarrow> ('h, 'm) env \<Rightarrow> ('h, 'm) user_state \<Rightarrow> (outcome \<times> ('h, 'm) user_state) res" where
  "SchedulerTick_loop 0 E s = Inl Diverges"
| "SchedulerTick_loop (Suc n) E s =
     (if head_proc s = 0 then
        rbind (printf (junk E) (lit ''No more processes in the system. Halt.\<newline>'') [] (vt s)) (\<lambda>(t, _).
          halt E (s\<lparr>vt := t\<rparr>))
      else
        rbind (if current s = 0 then Inr (s\<lparr>current := head_proc s\<rparr>)
               else rbind (deref (procs s) (current s)) (\<lambda>p.
                 if proc_next p = 0 then Inr (s\<lparr>current := head_proc s\<rparr>)
                 else Inr (s\<lparr>current := proc_next p\<rparr>))) (\<lambda>s.
        if current s \<noteq> 0 then X86RestoreProcess (current s) (StartScheduler E s)
        else SchedulerTick_loop n E s))"

definition SchedulerTick :: "('h, 'm) env \<Rightarrow> ('h, 'm) user_state \<Rightarrow> (outcome \<times> ('h, 'm) user_state) res" where
  "SchedulerTick E s =
     (let s = StopScheduler E s in
      if next_proc s \<noteq> 0 then
        X86RestoreProcess (next_proc s) (s\<lparr>current := next_proc s, next_proc := 0\<rparr>)
      else SchedulerTick_loop 1 E s)"

section \<open>Process list\<close>

definition GetProcess :: "u32 \<Rightarrow> ('h, 'm) user_state \<Rightarrow> u32 res" where
  "GetProcess ident s = find_node (procs s) proc_next (\<lambda>p. pid p = ident) [] (head_proc s)"

definition UserProcessCurrent :: "('h, 'm) user_state \<Rightarrow> u32 res" where
  "UserProcessCurrent s = (if current s \<noteq> 0 then rbind (deref (procs s) (current s)) (\<lambda>p. Inr (pid p)) else Inr 0)"

definition UserProcessLocalFile :: "u32 \<Rightarrow> u32 \<Rightarrow> ('h, 'm) user_state \<Rightarrow> u32 res" where
  "UserProcessLocalFile ident lid s =
     rbind (GetProcess ident s) (\<lambda>process.
       if process = 0 then Inr 0
       else rbind (deref (procs s) process) (\<lambda>p.
         find_node (fds s) fd_next (\<lambda>f. local_id f = lid) [] (local_files p)))"

text \<open>
  \<open>X86SchedulerTick\<close>, the handler of the timer interrupt: save the registers of the running process
  and continue in \<open>SchedulerTick\<close> on the kernel's own stack.
\<close>

definition X86SchedulerTick :: "('h, 'm) env \<Rightarrow> X86CpuState \<Rightarrow> ('h, 'm) user_state \<Rightarrow> (outcome \<times> ('h, 'm) user_state) res" where
  "X86SchedulerTick E st s =
     (let s = s\<lparr>vm := X86SwitchAddressSpace None (vm s)\<rparr> in
      rbind (UserProcessCurrent s) (\<lambda>ident.
      rbind (GetProcess ident s) (\<lambda>process.
      rbind (if process \<noteq> 0 then
               rbind (deref (procs s) process) (\<lambda>p.
               rbind (deref (cpus s) (last_state p)) (\<lambda>_.
                 Inr (s\<lparr>cpus := (cpus s)(last_state p \<mapsto> st)\<rparr>)))
             else Inr s) (\<lambda>s.
        X86RestoreKernel (SchedulerTick E) s))))"

section \<open>Removing a process\<close>

text \<open>\<open>Process** next\<close>: the address of \<open>head\<close> or of the \<open>next\<close> field of a process.\<close>

datatype link = Head_Link | Next_Link u32

definition set_link :: "link \<Rightarrow> u32 \<Rightarrow> ('h, 'm) user_state \<Rightarrow> ('h, 'm) user_state" where
  "set_link l v s = (case l of
       Head_Link \<Rightarrow> s\<lparr>head_proc := v\<rparr>
     | Next_Link a \<Rightarrow> s\<lparr>procs := (procs s)(a := map_option (\<lambda>p. p\<lparr>proc_next := v\<rparr>) (procs s a))\<rparr>)"

text \<open>
  The search of \<open>_RemoveProcess\<close>: \<open>l\<close> is the link, \<open>a\<close> its contents. The address of a link is never
  \<open>NULL\<close>, so the loop only ends at the process; at the end of the list \<open>(*next)->pid\<close> reads through \<open>NULL\<close>.
\<close>

function RemoveProcess_loop :: "(u32 \<rightharpoonup> Process) \<Rightarrow> u32 \<Rightarrow> u32 list \<Rightarrow> link \<Rightarrow> u32 \<Rightarrow> (link \<times> u32) res" where
  "RemoveProcess_loop m ident seen l a =
     (if a \<in> set seen then Inl Diverges
      else rbind (deref m a) (\<lambda>p.
        if pid p = ident then Inr (l, a)
        else RemoveProcess_loop m ident (a # seen) (Next_Link a) (proc_next p)))"
  by pat_completeness auto

termination RemoveProcess_loop
  by (relation "measure (\<lambda>(m, ident, seen, l, a). card (- set seen))") (use card_unseen in auto)

declare RemoveProcess_loop.simps [simp del]

function free_files :: "('h, 'm) env \<Rightarrow> u32 \<Rightarrow> ('h, 'm) user_state \<Rightarrow> ('h, 'm) user_state res" where
  "free_files E file s =
     (if file = 0 then Inr s
      else rbind (deref (fds s) file) (\<lambda>f.
           rbind (heap_free E file s) (\<lambda>s'. free_files E (fd_next f) s')))"
  by pat_completeness auto

termination free_files
proof (relation "measure (\<lambda>(E, file, s). card (dom (fds s)))")
  fix E :: "('h, 'm) env" and fl s f s'
  assume "fl \<noteq> 0" "deref (fds s) fl = Inr f" "heap_free E fl s = Inr s'"
  then have "fds s' = (fds s)(fl := None)" "fl \<in> dom (fds s)"
    by (auto simp: heap_free_def rbind_Inr_iff deref_Inr_iff)
  then show "((E, fd_next f, s'), E, fl, s) \<in> measure (\<lambda>(E, file, s). card (dom (fds s)))"
    using card_Diff1_less [of "dom (fds s)" fl] by simp
qed simp

declare free_files.simps [simp del]

record RemoveProcessParam =
  start_scheduler :: bool
  param_pid :: u32

definition RemoveProcess_entry :: "('h, 'm) env \<Rightarrow> RemoveProcessParam \<Rightarrow> ('h, 'm) user_state \<Rightarrow> (outcome \<times> ('h, 'm) user_state) res" where
  "RemoveProcess_entry E param s =
     rbind (RemoveProcess_loop (procs s) (param_pid param) [] Head_Link (head_proc s)) (\<lambda>(l, process).
     rbind (deref (procs s) process) (\<lambda>p.
     let s = set_link l (proc_next p) s in
     rbind (X86DeleteAddressSpace (address_space p) (vm s)) (\<lambda>v.
     rbind (heap_free E (kernel_stack p - KERNEL_SYSCALL_STACK) (s\<lparr>vm := v\<rparr>)) (\<lambda>s.
     rbind (heap_free E (last_state p) s) (\<lambda>s.
     rbind (free_files E (local_files p) s) (\<lambda>s.
       if start_scheduler param then Inr (Spins, StartScheduler E s)
       else Inr (Returns 0, s)))))))"

definition RemoveProcess :: "('h, 'm) env \<Rightarrow> u32 \<Rightarrow> ('h, 'm) user_state \<Rightarrow> (outcome \<times> ('h, 'm) user_state) res" where
  "RemoveProcess E ident s =
     rbind (heap_malloc E sizeof_RemoveProcessParam s) (\<lambda>(param, s).
       if param = 0 then Inl Null_Pointer
       else let arg = \<lparr>start_scheduler = scheduling s, param_pid = ident\<rparr>;
                s = StopScheduler E s in
            X86RestoreKernel (RemoveProcess_entry E arg) s)"

section \<open>Loading a process\<close>

definition zero_cpu :: X86CpuState where
  "zero_cpu = \<lparr>ds = 0, edi = 0, esi = 0, ebp = 0, esp = 0, ebx = 0, edx = 0, ecx = 0, eax = 0, interrupt = 0,
     error_code = 0, eip = 0, cs = 0, eflags = 0, user_esp = 0, ss = 0\<rparr>"

definition X86GenInitialProcessState :: "('h, 'm) env \<Rightarrow> u32 \<Rightarrow> ('h, 'm) user_state \<Rightarrow> ('h, 'm) user_state res" where
  "X86GenInitialProcessState E process s =
     rbind (heap_malloc E sizeof_X86CpuState s) (\<lambda>(state, s).
       if state = 0 then Inl Null_Pointer
       else
         rbind (deref (procs s) process) (\<lambda>p.
         rbind (X86CreateStack (address_space p) (KERNEL_STATIC_MEM_START AND 0xFFFFF000) USER_PROCESS_STACK (vm s))
           (\<lambda>(stack, v).
         let st = zero_cpu\<lparr>cs := 0x1B, ds := 0x23, eflags := 0x0202, eip := USER_PROCESS_BASE,
                    esp := stack, ss := 0x23, user_esp := stack\<rparr> in
         Inr (s\<lparr>vm := v, cpus := (cpus s)(state \<mapsto> st),
                procs := (procs s)(process \<mapsto> p\<lparr>last_state := state\<rparr>)\<rparr>))))"

text \<open>\<open>malloc\<close>, \<open>memcpy\<close> and the assignment of \<open>local_id\<close>, for one of the three standard files.\<close>

definition copy_file :: "('h, 'm) env \<Rightarrow> u32 \<Rightarrow> u32 \<Rightarrow> ('h, 'm) user_state \<Rightarrow> (u32 \<times> ('h, 'm) user_state) res" where
  "copy_file E src lid s =
     rbind (heap_malloc E sizeof_FileDescriptor s) (\<lambda>(copy, s).
     rbind (deref (fds s) src) (\<lambda>f.
       if copy = 0 then Inl Null_Pointer
       else Inr (copy, s\<lparr>fds := (fds s)(copy \<mapsto> f\<lparr>local_id := lid\<rparr>)\<rparr>)))"

definition set_fd_next :: "u32 \<Rightarrow> u32 \<Rightarrow> ('h, 'm) user_state \<Rightarrow> ('h, 'm) user_state res" where
  "set_fd_next p v s = rbind (deref (fds s) p) (\<lambda>f. Inr (s\<lparr>fds := (fds s)(p \<mapsto> f\<lparr>fd_next := v\<rparr>)\<rparr>))"

text \<open>
  The fields of the new process are collected in one record when the first is written; each is
  written before it is read.
\<close>

definition UserProcessLoad ::
  "('h, 'm) env \<Rightarrow> u32 \<Rightarrow> u32 \<Rightarrow> u32 \<Rightarrow> u32 \<Rightarrow> ('h, 'm) user_state \<Rightarrow> (u32 \<times> ('h, 'm) user_state) res" where
  "UserProcessLoad E prog stdin stdout stderr s =
     (let start = scheduling s;
          s = s\<lparr>irq := X86StopScheduler (in8 E) (irq s)\<rparr> in
      if last_pid s = 0xFFFFFFFF - 1 then Inr (0, s)
      else
        rbind (deref (fds s) prog) (\<lambda>f.
        let n = ucast (file_size f div ucast FRAME_SIZE) :: u32;
            n = (if file_size f mod ucast FRAME_SIZE \<noteq> 0 then n + 1 else n) in
        rbind (X86AllocateContiguousVirtualFrames n False (vm s)) (\<lambda>(buffer, v).
        let s = s\<lparr>vm := v, fds := (fds s)(prog \<mapsto> f\<lparr>seek := 0\<rparr>)\<rparr> in
        rbind (file_op E (read_op f) prog (ucast (file_size f)) buffer s) (\<lambda>(_, s).
        rbind (heap_malloc E sizeof_Process s) (\<lambda>(process, s).
        rbind (copy_file E stdin 0 s) (\<lambda>(l_stdin, s).
        rbind (copy_file E stdout 1 s) (\<lambda>(l_stdout, s).
        rbind (copy_file E stderr 2 s) (\<lambda>(l_stderr, s).
        if process = 0 then Inl Null_Pointer
        else
          rbind (set_fd_next l_stdin l_stdout s) (\<lambda>s.
          rbind (set_fd_next l_stdout l_stderr s) (\<lambda>s.
          rbind (set_fd_next l_stderr 0 s) (\<lambda>s.
          rbind (heap_malloc E KERNEL_SYSCALL_STACK s) (\<lambda>(stack, s).
          rbind (X86CreateAddressSpace buffer n (vm s)) (\<lambda>(as, v).
          let p = \<lparr>address_space = as, last_state = 0, kernel_stack = stack + KERNEL_SYSCALL_STACK,
                   local_files = l_stdin, proc_next = 0, pid = 0\<rparr>;
              s = s\<lparr>vm := v, procs := (procs s)(process \<mapsto> p)\<rparr> in
          rbind (X86GenInitialProcessState E process s) (\<lambda>s.
          let s = s\<lparr>last_pid := last_pid s + 1\<rparr> in
          rbind (deref (procs s) process) (\<lambda>p.
          let s = s\<lparr>procs := (procs s)(process \<mapsto> p\<lparr>pid := last_pid s, proc_next := head_proc s\<rparr>),
                    head_proc := process\<rparr>;
              s = (if start then StartScheduler E s else s) in
          Inr (last_pid s, s))))))))))))))))"

section \<open>Page faults\<close>

text \<open>
  \<open>X86PageFaultHandler\<close> of \<open>virt_mem_mgr_x86.c\<close>. \<open>RemoveProcess\<close> continues on another stack and does
  not come back, so the message and the restart of the timer after it are reached only if it
  returns.
\<close>

definition page_fault_action :: "u32 \<Rightarrow> string" where
  "page_fault_action code =
     (if code = 0 \<or> code = 4 then ''read a non-present page''
      else if code = 1 \<or> code = 5 then ''read a protected page''
      else if code = 2 \<or> code = 6 then ''write to a non-present page''
      else if code = 3 \<or> code = 7 then ''write to a protected page''
      else ''do something bad'')"

definition X86PageFaultHandler :: "('h, 'm) env \<Rightarrow> X86CpuState \<Rightarrow> ('h, 'm) user_state \<Rightarrow> (outcome \<times> ('h, 'm) user_state) res" where
  "X86PageFaultHandler E st s =
     (let s = s\<lparr>irq := X86StopScheduler (in8 E) (irq s)\<rparr> in
      rbind (UserProcessCurrent s) (\<lambda>ident.
      rbind (RemoveProcess E ident s) (\<lambda>(out, s).
        case out of
          Returns _ \<Rightarrow>
            rbind (fprintf (junk E) StderrWriteOp
                     (lit ''Process with PID %d attempted to %s and was terminated.\<newline>'')
                     [Arg_Int ident, Arg_Str (lit (page_fault_action (error_code st)))] (vt s)) (\<lambda>(t, _).
              Inr (Returns 0, s\<lparr>vt := t, irq := X86StartScheduler (in8 E) (irq s)\<rparr>))
        | _ \<Rightarrow> Inr (out, s))))"

end
