(* ===== verification/Process_Lists.thy ===== *)
theory Process_Lists
  imports User_Process
begin

text \<open>
  The process list and the scheduler of \<open>User_Process\<close>: lookup of processes and files, the switch at a
  timer interrupt, and round-robin order over a full turn.
\<close>

section \<open>Invariant of the list\<close>

definition proc_of :: "('h, 'm) user_state \<Rightarrow> u32 \<Rightarrow> Process" where
  "proc_of s a = the (procs s a)"

definition pid_of :: "('h, 'm) user_state \<Rightarrow> u32 \<Rightarrow> u32" where
  "pid_of s a = pid (proc_of s a)"

text \<open>\<open>ps\<close> are the processes in the order of the list; their identifiers are different and have been given out.\<close>

definition proc_list :: "('h, 'm) user_state \<Rightarrow> u32 list \<Rightarrow> bool" where
  "proc_list s ps \<longleftrightarrow> linked (procs s) proc_next (head_proc s) ps \<and> inj_on (pid_of s) (set ps)
     \<and> (\<forall>a \<in> set ps. 0 < pid_of s a \<and> pid_of s a \<le> last_pid s)"

lemma proc_list_facts:
  assumes "proc_list s ps"
  shows "linked (procs s) proc_next (head_proc s) ps" and "distinct ps" and "0 \<notin> set ps"
    and "a \<in> set ps \<Longrightarrow> procs s a = Some (proc_of s a)" and "a \<in> set ps \<Longrightarrow> a \<noteq> 0"
    and "ps = [] \<longleftrightarrow> head_proc s = 0" and "ps \<noteq> [] \<Longrightarrow> head_proc s = hd ps"
proof -
  show l: "linked (procs s) proc_next (head_proc s) ps" using assms by (simp add: proc_list_def)
  show "distinct ps" "0 \<notin> set ps" using linked_distinct [OF l] linked_nonnull [OF l] by auto
  then show "a \<in> set ps \<Longrightarrow> a \<noteq> 0" by auto
  show "a \<in> set ps \<Longrightarrow> procs s a = Some (proc_of s a)" using linked_live [OF l] by (auto simp: proc_of_def)
  show "ps = [] \<longleftrightarrow> head_proc s = 0" "ps \<noteq> [] \<Longrightarrow> head_proc s = hd ps" using l by (cases ps; simp)+
qed

lemma linked_nth_next:
  assumes "linked m nxt p as" and "i < length as"
  shows "nxt (the (m (as ! i))) = (if Suc i < length as then as ! Suc i else 0)"
  using assms
proof (induction as arbitrary: p i)
  case (Cons a as)
  then obtain x where x: "m a = Some x" "linked m nxt (nxt x) as" by auto
  show ?case
  proof (cases i)
    case 0
    then show ?thesis using x by (cases as) auto
  next
    case (Suc j)
    then show ?thesis using Cons.IH [OF x(2), of j] Cons.prems by simp
  qed
qed simp

lemma GetProcess_find:
  assumes "proc_list s ps"
  shows "GetProcess ident s = Inr (case find (\<lambda>a. pid_of s a = ident) ps of None \<Rightarrow> 0 | Some a \<Rightarrow> a)"
  unfolding GetProcess_def using find_node_linked [OF proc_list_facts(1) [OF assms], of "[]"]
  by (simp add: pid_of_def proc_of_def)

lemma GetProcess_listed:
  assumes "proc_list s ps" and "a \<in> set ps"
  shows "GetProcess (pid_of s a) s = Inr a"
proof -
  have "find (\<lambda>b. pid_of s b = pid_of s a) ps = Some a"
    using assms by (intro find_unique) (auto simp: proc_list_def inj_on_def)
  then show ?thesis unfolding GetProcess_find [OF assms(1)] by simp
qed

lemma GetProcess_unlisted:
  assumes "proc_list s ps" and "ident \<notin> pid_of s ` set ps"
  shows "GetProcess ident s = Inr 0"
proof -
  have "find (\<lambda>b. pid_of s b = ident) ps = None" using assms(2) by (auto simp: find_None_iff)
  then show ?thesis unfolding GetProcess_find [OF assms(1)] by simp
qed

text \<open>
  lookups follow the lists. \<open>GetProcess\<close> returns the process with the given identifier and \<open>NULL\<close>
  for an identifier of no process; \<open>UserProcessLocalFile\<close> returns the first open file of that process
  with the given local identifier, \<open>NULL\<close> when it has none and \<open>NULL\<close> when there is no such process. Both
  loops end and read live objects only.
\<close>

theorem process_lookup:
  assumes "proc_list s ps" and "a \<in> set ps" and "linked (fds s) fd_next (local_files (proc_of s a)) fs"
    and "ident \<notin> pid_of s ` set ps"
  shows "GetProcess (pid_of s a) s = Inr a
    \<and> UserProcessLocalFile (pid_of s a) lid s =
        Inr (case find (\<lambda>f. local_id (the (fds s f)) = lid) fs of None \<Rightarrow> 0 | Some f \<Rightarrow> f)
    \<and> GetProcess ident s = Inr 0 \<and> UserProcessLocalFile ident lid s = Inr 0"
proof -
  note pf = proc_list_facts(4,5) [OF assms(1,2)]
  have g: "GetProcess (pid_of s a) s = Inr a" "GetProcess ident s = Inr 0"
    using GetProcess_listed GetProcess_unlisted assms by blast+
  then show ?thesis
    using pf find_node_linked [OF assms(3), of "[]"] by (simp add: UserProcessLocalFile_def)
qed

section \<open>Timer ticks\<close>

text \<open>What a tick needs: a list whose processes have saved states of their own, and a current process in it.\<close>

definition sched_ok :: "('h, 'm) user_state \<Rightarrow> u32 list \<Rightarrow> bool" where
  "sched_ok s ps \<longleftrightarrow> proc_list s ps \<and> next_proc s = 0
     \<and> (\<forall>a \<in> set ps. last_state (proc_of s a) \<noteq> 0 \<and> cpus s (last_state (proc_of s a)) \<noteq> None)
     \<and> inj_on (\<lambda>a. last_state (proc_of s a)) (set ps)"

text \<open>The registers saved for the process at \<open>a\<close>.\<close>

definition saved :: "('h, 'm) user_state \<Rightarrow> u32 \<Rightarrow> X86CpuState" where
  "saved s a = the (cpus s (last_state (proc_of s a)))"

lemma SchedulerTick_loop_fuel: "SchedulerTick_loop (Suc n) E s = SchedulerTick_loop 1 E s"
  by (cases "procs s (current s)") (auto simp: deref_def rbind_def split: sum.splits)

lemma X86RestoreProcess_listed:
  assumes "sched_ok s ps" and "a \<in> set ps"
  shows "X86RestoreProcess a s = Inr (Resumes (saved s a),
     s\<lparr>dts := X86SetKernelStack (kernel_stack (proc_of s a)) (dts s),
       vm := X86SwitchAddressSpace (if address_space (proc_of s a) = 0 then None else Some (Dir_At (address_space (proc_of s a)))) (vm s),
       irq := PortWrite8 0x20 0x20 (irq s)\<rparr>)"
proof -
  have "proc_list s ps" using assms(1) by (simp add: sched_ok_def)
  note pf = proc_list_facts(4,5) [OF this assms(2)]
  obtain c where "cpus s (last_state (proc_of s a)) = Some c" "last_state (proc_of s a) \<noteq> 0"
    using assms by (auto simp: sched_ok_def)
  with pf show ?thesis
    by (simp add: X86RestoreProcess_def X86UserlandJump_def saved_def Let_def)
qed

lemma sched_ok_cong:
  assumes "procs s' = procs s" and "head_proc s' = head_proc s" and "next_proc s' = next_proc s"
    and "last_pid s' = last_pid s" and "dom (cpus s') = dom (cpus s)"
  shows "sched_ok s' ps = sched_ok s ps"
proof -
  have "cpus s' x \<noteq> None \<longleftrightarrow> cpus s x \<noteq> None" for x using assms(5) by auto
  moreover have "proc_of s' = proc_of s" using assms(1) by (simp add: proc_of_def fun_eq_iff)
  moreover have "pid_of s' = pid_of s" using assms(1) by (simp add: pid_of_def proc_of_def fun_eq_iff)
  ultimately show ?thesis using assms(1-4) by (simp add: sched_ok_def proc_list_def)
qed

text \<open>The process after the \<open>i\<close>-th in the list, the first one after the last.\<close>

definition turn :: "u32 list \<Rightarrow> nat \<Rightarrow> u32" where
  "turn ps i = ps ! (i mod length ps)"

lemma turn_in [simp]: "ps \<noteq> [] \<Longrightarrow> turn ps i \<in> set ps"
  by (simp add: turn_def)

lemma turn_Suc:
  assumes "proc_list s ps" and "ps \<noteq> []"
  shows "turn ps (Suc i) = (if proc_next (proc_of s (turn ps i)) = 0 then head_proc s else proc_next (proc_of s (turn ps i)))"
proof -
  note pf = proc_list_facts [OF assms(1)]
  let ?k = "i mod length ps"
  have k: "?k < length ps" using assms(2) by simp
  have n: "proc_next (proc_of s (turn ps i)) = (if Suc ?k < length ps then ps ! Suc ?k else 0)"
    using linked_nth_next [OF pf(1) k] by (simp add: turn_def proc_of_def)
  show ?thesis
  proof (cases "Suc ?k < length ps")
    case True
    then have "ps ! Suc ?k \<noteq> 0" using pf(3) nth_mem by metis
    with True n show ?thesis by (simp add: turn_def mod_Suc)
  next
    case False
    then have "Suc ?k = length ps" using k by simp
    then have "turn ps (Suc i) = hd ps" using assms(2) by (simp add: turn_def mod_Suc hd_conv_nth)
    with False n show ?thesis using pf(7) assms(2) by simp
  qed
qed

lemma SchedulerTick_turn:
  assumes "sched_ok s ps" and "ps \<noteq> []" and "current s = turn ps i"
  shows "\<exists>s'. SchedulerTick E s = Inr (Resumes (saved s (turn ps (Suc i))), s')
     \<and> current s' = turn ps (Suc i) \<and> scheduling s'
     \<and> esp0 (tss (dts s')) = kernel_stack (proc_of s (turn ps (Suc i)))
     \<and> vm s' = X86SwitchAddressSpace (let as = address_space (proc_of s (turn ps (Suc i))) in if as = 0 then None else Some (Dir_At as)) (vm s)
     \<and> procs s' = procs s \<and> cpus s' = cpus s \<and> fds s' = fds s \<and> head_proc s' = head_proc s
     \<and> next_proc s' = 0 \<and> last_pid s' = last_pid s"
proof -
  let ?b = "turn ps (Suc i)"
  let ?t = "StartScheduler E ((StopScheduler E s)\<lparr>current := ?b\<rparr>)"
  have pl: "proc_list s ps" "next_proc s = 0" using assms(1) by (simp_all add: sched_ok_def)
  note pf = proc_list_facts [OF pl(1)]
  have c: "turn ps i \<noteq> 0" "procs s (turn ps i) = Some (proc_of s (turn ps i))" "?b \<noteq> 0" "head_proc s \<noteq> 0"
    using pf(4,5,6) assms(2) by auto
  have t: "sched_ok ?t ps" using assms(1)
    by (subst sched_ok_cong [of ?t s]) (simp_all add: StartScheduler_def StopScheduler_def)
  have "SchedulerTick E s = X86RestoreProcess ?b ?t"
    using pl(2) c assms(3) turn_Suc [OF pl(1) assms(2), of i]
    by (auto simp: SchedulerTick_def StopScheduler_def Let_def split: if_splits)
  also have "\<dots> = Inr (Resumes (saved ?t ?b),
     ?t\<lparr>dts := X86SetKernelStack (kernel_stack (proc_of ?t ?b)) (dts ?t),
       vm := X86SwitchAddressSpace (if address_space (proc_of ?t ?b) = 0 then None else Some (Dir_At (address_space (proc_of ?t ?b)))) (vm ?t),
       irq := PortWrite8 0x20 0x20 (irq ?t)\<rparr>)"
    using assms(2) by (intro X86RestoreProcess_listed [OF t]) simp
  finally show ?thesis
    using pl(2) by (simp add: saved_def proc_of_def StartScheduler_def StopScheduler_def X86SetKernelStack_def Let_def)
qed

lemma current_pid:
  assumes "proc_list s ps" and "current s \<in> set ps"
  shows "UserProcessCurrent s = Inr (pid_of s (current s))"
  using proc_list_facts(4,5) [OF assms] by (simp add: UserProcessCurrent_def pid_of_def)

lemma X86SchedulerTick_saves:
  assumes "sched_ok s ps" and "current s \<in> set ps"
  shows "X86SchedulerTick E st s = X86RestoreKernel (SchedulerTick E)
     (s\<lparr>vm := X86SwitchAddressSpace None (vm s), cpus := (cpus s)(last_state (proc_of s (current s)) \<mapsto> st)\<rparr>)"
proof -
  let ?t = "s\<lparr>vm := X86SwitchAddressSpace None (vm s)\<rparr>"
  have pl: "proc_list s ps" using assms(1) by (simp add: sched_ok_def)
  then have plt: "proc_list ?t ps" by (simp add: proc_list_def pid_of_def [abs_def] proc_of_def)
  have c: "current ?t \<in> set ps" using assms(2) by simp
  have "GetProcess (pid_of ?t (current ?t)) ?t = Inr (current s)"
    using GetProcess_listed [OF plt c] by simp
  moreover have "UserProcessCurrent ?t = Inr (pid_of ?t (current ?t))" using current_pid [OF plt c] .
  moreover obtain c' where "cpus s (last_state (proc_of s (current s))) = Some c'" "last_state (proc_of s (current s)) \<noteq> 0"
    using assms by (auto simp: sched_ok_def)
  ultimately show ?thesis
    using proc_list_facts(4,5) [OF pl assms(2)] by (simp add: X86SchedulerTick_def Let_def)
qed

lemma X86SchedulerTick_turn:
  assumes "sched_ok s ps" and "ps \<noteq> []" and "current s = turn ps i"
  shows "\<exists>s'. X86SchedulerTick E st s =
        Inr (Resumes (if turn ps (Suc i) = turn ps i then st else saved s (turn ps (Suc i))), s')
     \<and> sched_ok s' ps \<and> current s' = turn ps (Suc i) \<and> scheduling s'
     \<and> (\<forall>a. a \<in> set ps \<longrightarrow> saved s' a = (if a = turn ps i then st else saved s a) \<and> proc_of s' a = proc_of s a)
     \<and> esp0 (tss (dts s')) = kernel_stack (proc_of s (turn ps (Suc i)))
     \<and> (address_space (proc_of s (turn ps (Suc i))) \<noteq> 0 \<longrightarrow>
          current_page_directory (vm s') = Dir_At (address_space (proc_of s (turn ps (Suc i)))))"
proof -
  let ?a = "turn ps i" and ?b = "turn ps (Suc i)"
  let ?t = "s\<lparr>vm := X86SwitchAddressSpace None (vm s), cpus := (cpus s)(last_state (proc_of s ?a) \<mapsto> st)\<rparr>"
  have a: "?a \<in> set ps" "?b \<in> set ps" using assms(2) by simp_all
  then have "last_state (proc_of s ?a) \<in> dom (cpus s)" using assms(1) by (auto simp: sched_ok_def)
  then have ok: "sched_ok ?t ps" using assms(1) by (subst sched_ok_cong [of ?t s]) (auto simp: insert_absorb)
  have sv: "saved ?t x = (if x = ?a then st else saved s x)" if "x \<in> set ps" for x
  proof -
    have "last_state (proc_of s x) = last_state (proc_of s ?a) \<longleftrightarrow> x = ?a"
      using assms(1) a(1) that unfolding sched_ok_def inj_on_def by blast
    then show ?thesis by (simp add: saved_def proc_of_def)
  qed
  have c: "current ?t = turn ps i" using assms(3) by simp
  obtain s' where s': "SchedulerTick E ?t = Inr (Resumes (saved ?t ?b), s')" "current s' = ?b" "scheduling s'"
    "esp0 (tss (dts s')) = kernel_stack (proc_of ?t ?b)"
    "vm s' = X86SwitchAddressSpace (let as = address_space (proc_of ?t ?b) in if as = 0 then None else Some (Dir_At as)) (vm ?t)"
    "procs s' = procs ?t" "cpus s' = cpus ?t" "head_proc s' = head_proc ?t" "next_proc s' = 0" "last_pid s' = last_pid ?t"
    using SchedulerTick_turn [OF ok assms(2) c] by blast
  have "next_proc ?t = 0" using ok by (simp add: sched_ok_def)
  then have "sched_ok s' ps" using ok s'(6-10) by (subst sched_ok_cong [of s' ?t]) simp_all
  moreover have "saved s' x = (if x = ?a then st else saved s x) \<and> proc_of s' x = proc_of s x" if "x \<in> set ps" for x
    using sv [OF that] s'(6,7) by (simp add: saved_def proc_of_def)
  moreover have "X86SchedulerTick E st s = Inr (Resumes (saved ?t ?b), s')"
    using X86SchedulerTick_saves [OF assms(1)] a(1) assms(3) s'(1) by (simp add: X86RestoreKernel_def)
  moreover have "proc_of ?t ?b = proc_of s ?b" by (simp add: proc_of_def)
  ultimately show ?thesis
    using s'(2-5) sv [OF a(2)] by (auto simp: X86SwitchAddressSpace_def X86SwitchPageDirectory_def Let_def)
qed

text \<open>
  C22: a timer interrupt switches processes. The registers of the interrupted process are saved in its
  own state and in no other; the process after it in the list (the first one after the last) becomes
  current and resumes with the registers saved for it, on its own kernel stack and in its own address
  space, with the timer running again; the list is unchanged.
\<close>

theorem X86SchedulerTick_switches:
  assumes "sched_ok s ps" and "ps \<noteq> []" and "current s = turn ps i"
  shows "\<exists>s'. X86SchedulerTick E st s =
        Inr (Resumes (if turn ps (Suc i) = turn ps i then st else saved s (turn ps (Suc i))), s')
     \<and> sched_ok s' ps \<and> current s' = turn ps (Suc i) \<and> scheduling s'
     \<and> (\<forall>a. a \<in> set ps \<longrightarrow> saved s' a = (if a = turn ps i then st else saved s a) \<and> proc_of s' a = proc_of s a)
     \<and> esp0 (tss (dts s')) = kernel_stack (proc_of s (turn ps (Suc i)))
     \<and> (address_space (proc_of s (turn ps (Suc i))) \<noteq> 0 \<longrightarrow>
          current_page_directory (vm s') = Dir_At (address_space (proc_of s (turn ps (Suc i)))))"
  using X86SchedulerTick_turn [OF assms] .

section \<open>A full turn\<close>

text \<open>
  A sequence of timer interrupts, each with the registers of the process it interrupts, and the
  order the scheduler is meant to have: \<open>rr ps i R\<close> are the register states that are resumed when the
  \<open>i\<close>-th process runs first and \<open>R\<close> has the saved registers.
\<close>

primrec ticks :: "('h, 'm) env \<Rightarrow> X86CpuState list \<Rightarrow> ('h, 'm) user_state \<Rightarrow> (outcome list \<times> ('h, 'm) user_state) res" where
  "ticks E [] s = Inr ([], s)"
| "ticks E (st # sts) s = rbind (X86SchedulerTick E st s) (\<lambda>(out, s).
     rbind (ticks E sts s) (\<lambda>(outs, s). Inr (out # outs, s)))"

primrec rr :: "u32 list \<Rightarrow> nat \<Rightarrow> (u32 \<Rightarrow> X86CpuState) \<Rightarrow> X86CpuState list \<Rightarrow> X86CpuState list" where
  "rr ps i R [] = []"
| "rr ps i R (st # sts) = (let R = R(turn ps i := st) in R (turn ps (Suc i)) # rr ps (Suc i) R sts)"

lemma rr_cong: "ps \<noteq> [] \<Longrightarrow> (\<And>a. a \<in> set ps \<Longrightarrow> R a = R' a) \<Longrightarrow> rr ps i R sts = rr ps i R' sts"
proof (induction sts arbitrary: i R R')
  case (Cons st sts)
  have "rr ps (Suc i) (R(turn ps i := st)) sts = rr ps (Suc i) (R'(turn ps i := st)) sts"
    using Cons.prems by (intro Cons.IH) auto
  with Cons.prems show ?case by (simp add: Let_def)
qed simp

lemma ticks_refine:
  assumes "sched_ok s ps" and "ps \<noteq> []" and "current s = turn ps i"
  shows "\<exists>s'. ticks E sts s = Inr (map Resumes (rr ps i (saved s) sts), s')
     \<and> sched_ok s' ps \<and> current s' = turn ps (i + length sts)"
  using assms
proof (induction sts arbitrary: s i)
  case (Cons st sts)
  let ?R = "(saved s)(turn ps i := st)"
  obtain s1 where s1: "X86SchedulerTick E st s = Inr (Resumes (?R (turn ps (Suc i))), s1)"
    "sched_ok s1 ps" "current s1 = turn ps (Suc i)" "\<And>a. a \<in> set ps \<Longrightarrow> saved s1 a = ?R a"
    using X86SchedulerTick_turn [OF Cons.prems, of E st] by auto
  obtain s' where "ticks E sts s1 = Inr (map Resumes (rr ps (Suc i) (saved s1) sts), s')"
    "sched_ok s' ps" "current s' = turn ps (Suc i + length sts)"
    using Cons.IH [OF s1(2) Cons.prems(2) s1(3)] by blast
  moreover have "rr ps (Suc i) (saved s1) sts = rr ps (Suc i) ?R sts"
    using Cons.prems(2) s1(4) by (rule rr_cong)
  ultimately show ?case using s1(1) by (simp add: Let_def)
qed simp

lemma length_rr [simp]: "length (rr ps i R sts) = length sts"
  by (induction sts arbitrary: i R) (simp_all add: Let_def)

lemma rr_nth:
  assumes "k < length sts"
  shows "rr ps i R sts ! k =
    (case find (\<lambda>j. turn ps (i + j) = turn ps (i + Suc k)) (rev [0..<Suc k]) of Some j \<Rightarrow> sts ! j | None \<Rightarrow> R (turn ps (i + Suc k)))"
  using assms
proof (induction sts arbitrary: i R k)
  case (Cons st sts)
  show ?case
  proof (cases k)
    case 0
    then show ?thesis by (simp add: Let_def)
  next
    case (Suc l)
    have f: "find P (rev [0..<Suc n]) = (case find (\<lambda>j. P (Suc j)) (rev [0..<n]) of Some j \<Rightarrow> Some (Suc j) | None \<Rightarrow> if P 0 then Some 0 else None)" for P n
      by (induction n) (simp_all split: option.splits)
    show ?thesis
      using Cons.IH [of l "Suc i"] Cons.prems Suc
      by (subst f) (simp add: Let_def del: upt_Suc split: option.splits)
  qed
qed simp

lemma turn_eq_iff:
  assumes "distinct ps" and "i \<le> j" and "j < i + length ps"
  shows "turn ps i = turn ps j \<longleftrightarrow> i = j"
proof
  assume "turn ps i = turn ps j"
  moreover have "ps \<noteq> []" using assms by auto
  ultimately have "i mod length ps = j mod length ps" using assms(1) by (simp add: turn_def nth_eq_iff_index_eq)
  then have "length ps dvd j - i" using assms(2) by (metis mod_eq_dvd_iff_nat)
  then have "j - i = 0" using assms(3) nat_dvd_not_less [of "j - i" "length ps"] by (cases "j - i = 0") auto
  then show "i = j" using assms(2) by simp
qed simp

text \<open>
  C23: in as many timer ticks as there are processes, every process runs. Starting with any process of
  the list, the others are resumed one after the other in the order of the list, each with the
  registers saved for it before, and at the last tick the first process is resumed with exactly the
  registers it was interrupted with.
\<close>

theorem scheduler_full_turn:
  assumes "sched_ok s ps" and "ps \<noteq> []" and "current s = turn ps i" and "length sts = length ps"
  shows "\<exists>outs s'. ticks E sts s = Inr (outs, s') \<and> sched_ok s' ps \<and> current s' = current s
     \<and> length outs = length ps
     \<and> (\<forall>k. Suc k < length ps \<longrightarrow> outs ! k = Resumes (saved s (turn ps (i + Suc k))))
     \<and> outs ! (length ps - 1) = Resumes (sts ! 0)"
proof -
  let ?n = "length ps"
  have d: "distinct ps" using assms(1) proc_list_facts(2) by (auto simp: sched_ok_def)
  obtain s' where s': "ticks E sts s = Inr (map Resumes (rr ps i (saved s) sts), s')"
    "sched_ok s' ps" "current s' = turn ps (i + length sts)"
    using ticks_refine [OF assms(1-3)] by blast
  have "current s' = current s" using s'(3) assms(3,4) by (simp add: turn_def)
  moreover have "rr ps i (saved s) sts ! k = saved s (turn ps (i + Suc k))" if "Suc k < ?n" for k
  proof -
    have "turn ps (i + j) \<noteq> turn ps (i + Suc k)" if "j < Suc k" for j
      using turn_eq_iff [OF d, of "i + j" "i + Suc k"] that \<open>Suc k < ?n\<close> by simp
    then have "find (\<lambda>j. turn ps (i + j) = turn ps (i + Suc k)) (rev [0..<Suc k]) = None"
      by (auto simp: find_None_iff simp del: upt_Suc)
    then show ?thesis using rr_nth [of k sts ps i "saved s"] that assms(4) by simp
  qed
  moreover have "rr ps i (saved s) sts ! (?n - 1) = sts ! 0"
  proof -
    obtain m where m: "?n = Suc m" using assms(2) by (cases ps) auto
    have "(i + Suc m) mod Suc m = i mod Suc m" by (rule mod_add_self2)
    then have e: "turn ps (i + Suc m) = turn ps (i + 0)" using m by (simp only: turn_def add_0_right)
    have "b = 0" if "b < Suc m" "turn ps (i + b) = turn ps (i + 0)" for b
      using turn_eq_iff [OF d, of i "i + b"] that m by simp
    then have "find (\<lambda>j. turn ps (i + j) = turn ps (i + Suc m)) (rev [0..<Suc m]) = Some 0"
      unfolding e by (intro find_unique) (auto simp del: upt_Suc)
    then show ?thesis using rr_nth [of m sts ps i "saved s"] assms(4) m by simp
  qed
  moreover have "?n - 1 < length (rr ps i (saved s) sts)" using assms(2,4) by simp
  ultimately show ?thesis using s'(1,2) assms(4) by auto
qed

section \<open>A machine with two processes\<close>

text \<open>Process 2 at 0x2000 is the head of the list, process 1 at 0x1000 follows it and is running.\<close>

definition demo_process :: "u32 \<Rightarrow> u32 \<Rightarrow> u32 \<Rightarrow> Process" where
  "demo_process ident nxt files = \<lparr>address_space = 0xC0500000, last_state = 0x100 * ident, kernel_stack = 0x8000 + 0x1000 * ident,
     local_files = files, proc_next = nxt, pid = ident\<rparr>"

definition demo_fd :: "u32 \<Rightarrow> u32 \<Rightarrow> FileDescriptor" where
  "demo_fd lid nxt = \<lparr>seek = 0, file_size = 0, volume = 0, data = 0, traverse_op = 0, read_op = 1, write_op = 2,
     local_id = lid, fd_type = FD_TYPE_TTY, fd_next = nxt\<rparr>"

definition demo_machine :: "(unit, u32 list) user_state" where
  "demo_machine = \<lparr>last_pid = 2, head_proc = 0x2000, current = 0x1000, next_proc = 0, scheduling = True,
     procs = [0x1000 \<mapsto> demo_process 1 0 0x3000, 0x2000 \<mapsto> demo_process 2 0x1000 0],
     fds = [0x3000 \<mapsto> demo_fd 0 0x3100, 0x3100 \<mapsto> demo_fd 1 0],
     cpus = [0x100 \<mapsto> zero_cpu\<lparr>eax := 1\<rparr>, 0x200 \<mapsto> zero_cpu\<lparr>eax := 2\<rparr>],
     vm = demo_vmm, heap = [0x1000, 0x2000, 0x3000, 0x3100, 0x100, 0x200, 0x5000, 0x6000],
     irq = \<lparr>idt = [], idtr = \<lparr>idtr_size = 0, idtr_base = 0\<rparr>, cpu_idtr = None, isr_handlers = [], irq_handlers = [],
            soft_int_handlers = [], port_writes8 = [], interrupts_on = True\<rparr>,
     dts = \<lparr>gdt = [], gdtr = \<lparr>gdtr_size = 0, gdtr_base = 0\<rparr>, cpu_gdtr = None, tss = zero_tss\<rparr>,
     vt = \<lparr>current_color_scheme = default_color_scheme, vga_buffer = [], current_x = 0, current_y = 0, port_writes16 = []\<rparr>\<rparr>"

text \<open>A heap that hands out the first free address of a fixed sequence; device reads return 0xFF.\<close>

definition demo_env :: "(unit, u32 list) env" where
  "demo_env = \<lparr>in8 = (\<lambda>_ _. 0xFF),
     malloc = (\<lambda>sz (h, v). case find (\<lambda>p. p \<notin> set h) [0x10000, 0x20000, 0x30000, 0x40000, 0x50000, 0x60000, 0x70000] of
                 Some p \<Rightarrow> Inr (p, p # h, v) | None \<Rightarrow> Inr (0, h, v)),
     free_block = (\<lambda>p (h, v). Inr (removeAll p h, v)),
     file_op = (\<lambda>op f len buf s. Inr (len, s)), junk = replicate 33 0\<rparr>"

lemma demo_sched_ok: "sched_ok demo_machine [0x2000, 0x1000]"
  by (simp add: sched_ok_def proc_list_def demo_machine_def demo_process_def proc_of_def pid_of_def inj_on_def)

lemma demo_turn: "turn [a, b] 0 = a" "turn [a, b] 1 = b" "turn [a, b] (Suc 0) = b" "turn [a, b] 2 = a"
  by (simp_all add: turn_def numeral_2_eq_2)

theorem process_lookup_witness:
  "GetProcess 1 demo_machine = Inr 0x1000 \<and> UserProcessLocalFile 1 1 demo_machine = Inr 0x3100
     \<and> GetProcess 7 demo_machine = Inr 0"
proof -
  let ?s = demo_machine
  have "proc_list ?s [0x2000, 0x1000]" using demo_sched_ok by (simp add: sched_ok_def)
  moreover have "linked (fds ?s) fd_next (local_files (proc_of ?s 0x1000)) [0x3000, 0x3100]"
    by (simp add: demo_machine_def demo_process_def demo_fd_def proc_of_def)
  moreover have p: "pid_of ?s 0x1000 = 1" "pid_of ?s 0x2000 = 2"
    by (simp_all add: pid_of_def proc_of_def demo_machine_def demo_process_def)
  then have "7 \<notin> pid_of ?s ` set [0x2000, 0x1000]" by simp
  ultimately have "GetProcess (pid_of ?s 0x1000) ?s = Inr 0x1000 \<and> GetProcess 7 ?s = Inr 0
     \<and> UserProcessLocalFile (pid_of ?s 0x1000) 1 ?s =
        Inr (case find (\<lambda>f. local_id (the (fds ?s f)) = 1) [0x3000, 0x3100] of None \<Rightarrow> 0 | Some f \<Rightarrow> f)"
    using process_lookup [of ?s "[0x2000, 0x1000]" "0x1000" "[0x3000, 0x3100]" 7 1] by simp
  then show ?thesis unfolding p by (simp add: demo_machine_def demo_fd_def)
qed

theorem X86SchedulerTick_switches_witness:
  "\<exists>s'. X86SchedulerTick demo_env (zero_cpu\<lparr>eax := 9\<rparr>) demo_machine = Inr (Resumes (zero_cpu\<lparr>eax := 2\<rparr>), s')
     \<and> current s' = 0x2000 \<and> saved s' 0x1000 = zero_cpu\<lparr>eax := 9\<rparr> \<and> esp0 (tss (dts s')) = 0xA000
     \<and> current_page_directory (vm s') = Dir_At 0xC0500000"
proof -
  let ?s = demo_machine
  have "current ?s = turn [0x2000, 0x1000] 1" by (simp add: demo_turn demo_machine_def)
  moreover have "proc_of ?s 0x2000 = demo_process 2 0x1000 0" "saved ?s 0x2000 = zero_cpu\<lparr>eax := 2\<rparr>"
    by (simp_all add: proc_of_def saved_def demo_machine_def demo_process_def)
  ultimately show ?thesis
    using X86SchedulerTick_switches [OF demo_sched_ok, of 1 demo_env "zero_cpu\<lparr>eax := 9\<rparr>"]
    by (auto simp: demo_turn numeral_2_eq_2 [symmetric] demo_process_def)
qed

theorem scheduler_full_turn_witness:
  "\<exists>s'. ticks demo_env [zero_cpu\<lparr>eax := 9\<rparr>, zero_cpu\<lparr>eax := 8\<rparr>] demo_machine
       = Inr ([Resumes (zero_cpu\<lparr>eax := 2\<rparr>), Resumes (zero_cpu\<lparr>eax := 9\<rparr>)], s') \<and> current s' = 0x1000"
proof -
  let ?s = demo_machine and ?sts = "[zero_cpu\<lparr>eax := 9\<rparr>, zero_cpu\<lparr>eax := 8\<rparr>]"
  have c: "current ?s = turn [0x2000, 0x1000] 1" "current ?s = 0x1000" by (simp_all add: demo_turn demo_machine_def)
  obtain outs s' where *: "ticks demo_env ?sts ?s = Inr (outs, s')" "current s' = current ?s" "length outs = 2"
    "outs ! 0 = Resumes (saved ?s (turn [0x2000, 0x1000] (1 + Suc 0)))" "outs ! 1 = Resumes (?sts ! 0)"
    using scheduler_full_turn [OF demo_sched_ok _ c(1), of ?sts demo_env] by auto
  obtain a b where "outs = [a, b]" using *(3) by (auto simp: length_Suc_conv numeral_2_eq_2)
  moreover have "saved ?s 0x2000 = zero_cpu\<lparr>eax := 2\<rparr>"
    by (simp add: proc_of_def saved_def demo_machine_def demo_process_def)
  ultimately show ?thesis using * c(2) by (simp add: demo_turn numeral_2_eq_2 [symmetric])
qed

end
