(* ===== verification/Process_Removal.thy ===== *)
theory Process_Removal
  imports Process_Lists
begin

text \<open>
  Removing a process: \<open>_RemoveProcess\<close> unlinks exactly the process with the given identifier and gives
  back its kernel stack, its saved state and its files; for an unknown identifier it runs into the end
  of the list.
\<close>

section \<open>Unlinking\<close>

lemma linked_unlink:
  assumes "linked m nxt p (us @ a # vs)" and "us \<noteq> []" and "nxt x' = nxt (the (m a))"
  shows "linked (m(last us \<mapsto> x')) nxt p (us @ vs)"
  using assms
proof (induction us arbitrary: p)
  case (Cons u us)
  then obtain x where x: "p = u" "u \<noteq> 0" "m u = Some x" "linked m nxt (nxt x) (us @ a # vs)" by auto
  have d: "distinct (u # us @ a # vs)" using linked_distinct [OF Cons.prems(1)] by simp
  show ?case
  proof (cases "us = []")
    case True
    then have "linked m nxt (nxt x') vs" using x(4) Cons.prems(3) by auto
    then have "linked (m(u \<mapsto> x')) nxt (nxt x') vs" using d linked_upd_other [of u vs m "Some x'"] by simp
    then show ?thesis using True x(1,2) by (simp del: fun_upd_apply add: fun_upd_same)
  next
    case False
    then have "last us \<noteq> u" using d last_in_set by fastforce
    then show ?thesis using Cons.IH [OF x(4) False Cons.prems(3)] False x(1-3) by simp
  qed
qed simp

lemma RemoveProcess_loop_found:
  assumes "linked m proc_next p (us @ a # vs)" and "\<forall>u \<in> set us. pid (the (m u)) \<noteq> ident" and "pid (the (m a)) = ident"
    and "set (us @ a # vs) \<inter> set seen = {}"
  shows "RemoveProcess_loop m ident seen l p = Inr (if us = [] then l else Next_Link (last us), a)"
  using assms
proof (induction us arbitrary: p l seen)
  case Nil
  then show ?case by (subst RemoveProcess_loop.simps) auto
next
  case (Cons u us)
  then obtain x where x: "p = u" "u \<noteq> 0" "m u = Some x" "linked m proc_next (proc_next x) (us @ a # vs)" by auto
  have "distinct (u # us @ a # vs)" using linked_distinct [OF Cons.prems(1)] by simp
  then have dj: "set (us @ a # vs) \<inter> set (u # seen) = {}" using Cons.prems(4) by auto
  have "RemoveProcess_loop m ident (u # seen) (Next_Link u) (proc_next x)
      = Inr (if us = [] then Next_Link u else Next_Link (last us), a)"
    using Cons.prems(2,3) by (intro Cons.IH [OF x(4) _ _ dj]) auto
  then show ?case using x(1-3) Cons.prems(2,4) by (subst RemoveProcess_loop.simps) auto
qed

lemma RemoveProcess_loop_missing:
  assumes "linked m proc_next p as" and "\<forall>u \<in> set as. pid (the (m u)) \<noteq> ident" and "set as \<inter> set seen = {}" and "0 \<notin> set seen"
  shows "RemoveProcess_loop m ident seen l p = Inl Null_Pointer"
  using assms
proof (induction as arbitrary: p l seen)
  case Nil
  then show ?case by (subst RemoveProcess_loop.simps) simp
next
  case (Cons u us)
  then obtain x where x: "p = u" "u \<noteq> 0" "m u = Some x" "linked m proc_next (proc_next x) us" by auto
  have "u \<notin> set us" using linked_distinct [OF Cons.prems(1)] by simp
  then have "set us \<inter> set (u # seen) = {}" using Cons.prems(3) by auto
  then have "RemoveProcess_loop m ident (u # seen) (Next_Link u) (proc_next x) = Inl Null_Pointer"
    using Cons.prems(2,4) x(2) by (intro Cons.IH [OF x(4)]) auto
  then show ?case using x(1-3) Cons.prems(2,3) by (subst RemoveProcess_loop.simps) auto
qed

section \<open>Giving memory back\<close>

text \<open>
  What \<open>_RemoveProcess\<close> relies on of the heap. \<open>in_use h v L\<close> says that \<open>h\<close> is a heap on the page tables \<open>v\<close> whose allocated
  blocks are those at the addresses \<open>L\<close>. \<open>free\<close> of an allocated block returns and leaves exactly that block
  unallocated; temporary mappings, made and removed again, do not matter to the heap. \<open>Process_Heap\<close> shows it of \<open>liballoc\<close>.
\<close>

locale object_heap =
  fixes free_at :: "u32 \<Rightarrow> 'm \<times> vmm \<Rightarrow> ('m \<times> vmm) res" and in_use :: "'m \<Rightarrow> vmm \<Rightarrow> u32 set \<Rightarrow> bool"
  assumes free_one: "in_use h v L \<Longrightarrow> p \<in> L \<Longrightarrow> \<exists>h' v'. free_at p (h, v) = Inr (h', v') \<and> in_use h' v' (L - {p})"
    and in_use_quiet: "in_use h v L \<Longrightarrow> quiet v v' \<Longrightarrow> in_use h v' L"

text \<open>\<open>s'\<close> is \<open>s\<close> with the objects at the addresses of \<open>B\<close> gone.\<close>

definition without :: "u32 set \<Rightarrow> ('h, 'm) user_state \<Rightarrow> ('h, 'm) user_state \<Rightarrow> bool" where
  "without B s s' \<longleftrightarrow> procs s' = procs s |` (- B) \<and> fds s' = fds s |` (- B) \<and> cpus s' = cpus s |` (- B)
     \<and> last_pid s' = last_pid s \<and> head_proc s' = head_proc s
     \<and> current s' = current s \<and> next_proc s' = next_proc s \<and> scheduling s' = scheduling s
     \<and> irq s' = irq s \<and> dts s' = dts s \<and> vt s' = vt s"

lemma restrict_UNIV: "m |` UNIV = m"
  by (simp add: restrict_map_def)

lemma restrict_minus: "m(p := None) = m |` (- {p})"
  by (auto simp: restrict_map_def fun_eq_iff)

lemma without_empty [simp]: "without {} s s"
  by (simp add: without_def restrict_UNIV)

lemma without_trans:
  assumes "without A s s'" and "without B s' s''"
  shows "without (A \<union> B) s s''"
proof -
  have "- A \<inter> - B = - (A \<union> B)" by blast
  then show ?thesis using assms unfolding without_def by (simp del: Compl_Un)
qed

lemma heap_free_without:
  assumes "object_heap (free_block E) in_use" and "in_use (heap s) (vm s) L" and "p \<in> L"
  shows "\<exists>s'. heap_free E p s = Inr s' \<and> without {p} s s' \<and> in_use (heap s') (vm s') (L - {p})"
proof -
  obtain h v where "free_block E p (heap s, vm s) = Inr (h, v)" "in_use h v (L - {p})"
    using object_heap.free_one [OF assms] by blast
  then show ?thesis by (simp add: heap_free_def without_def restrict_minus del: fun_upd_apply)
qed

lemma free_files_without:
  assumes "object_heap (free_block E) in_use" and "linked (fds s) fd_next p fs" and "in_use (heap s) (vm s) L" and "set fs \<subseteq> L"
  shows "\<exists>s'. free_files E p s = Inr s' \<and> without (set fs) s s' \<and> in_use (heap s') (vm s') (L - set fs)"
  using assms(2-4)
proof (induction fs arbitrary: p s L)
  case Nil
  then show ?case by (subst free_files.simps) auto
next
  case (Cons f fs)
  then obtain x where x: "p = f" "f \<noteq> 0" "fds s f = Some x" "linked (fds s) fd_next (fd_next x) fs" by auto
  have nf: "f \<notin> set fs" using linked_distinct [OF Cons.prems(1)] by simp
  obtain s1 where s1: "heap_free E f s = Inr s1" "without {f} s s1" "in_use (heap s1) (vm s1) (L - {f})"
    using heap_free_without [OF assms(1) Cons.prems(2), of f] Cons.prems(3) by auto
  have "fds s1 = fds s |` (- {f})" using s1(2) by (simp add: without_def)
  then have fr: "a \<in> set fs \<Longrightarrow> fds s1 a = fds s a" for a using nf by (auto simp: restrict_map_def)
  have lv: "set fs \<subseteq> L - {f}" using nf Cons.prems(3) by auto
  have "linked (fds s1) fd_next (fd_next x) fs" using x(4) linked_cong [of fs fd_next "fds s1" "fds s"] fr by simp
  from Cons.IH [OF this s1(3) lv] obtain s2 where s2: "free_files E (fd_next x) s1 = Inr s2" "without (set fs) s1 s2"
    "in_use (heap s2) (vm s2) (L - {f} - set fs)" by blast
  have "free_files E p s = Inr s2" using x(1-3) s1(1) s2(1) by (subst free_files.simps) simp
  moreover have "without (set (f # fs)) s s2" using without_trans [OF s1(2) s2(2)] by simp
  moreover have "L - {f} - set fs = L - set (f # fs)" by auto
  ultimately show ?case using s2(3) by auto
qed

section \<open>Removal\<close>

text \<open>An address space as \<open>CreateAddressSpace\<close> leaves it, which \<open>X86DeleteAddressSpace\<close> can walk.\<close>

definition space_ok :: "vmm \<Rightarrow> u32 \<Rightarrow> bool" where
  "space_ok v d \<longleftrightarrow> (\<exists>fd. vmm_ok v \<and> proc_ok v d fd \<and> kfree v \<and> shares_kernel v fd
     \<and> \<not> present (umap v fd 0) \<and> \<not> present (kernel_pte v 0xC0000000))"

text \<open>The processes other than \<open>a\<close> keep everything but their link.\<close>

definition others_kept :: "('h, 'm) user_state \<Rightarrow> u32 list \<Rightarrow> u32 \<Rightarrow> ('h, 'm) user_state \<Rightarrow> bool" where
  "others_kept s ps a s' \<longleftrightarrow>
     (\<forall>b. b \<in> set ps \<and> b \<noteq> a \<longrightarrow> (proc_of s' b)\<lparr>proc_next := 0\<rparr> = (proc_of s b)\<lparr>proc_next := 0\<rparr>)"

lemma link_removed:
  assumes "proc_list s ps" and "ps = us @ a # vs"
  defines "l \<equiv> (if us = [] then Head_Link else Next_Link (last us))"
  shows "proc_list (set_link l (proc_next (proc_of s a)) s) (us @ vs)"
    and "others_kept s ps a (set_link l (proc_next (proc_of s a)) s)"
proof -
  let ?n = "proc_next (proc_of s a)" and ?s' = "set_link l (proc_next (proc_of s a)) s"
  note pf = proc_list_facts [OF assms(1)]
  have last: "last us \<in> set ps" "procs s (last us) = Some (proc_of s (last us))" if "us \<noteq> []"
    using pf(4) [of "last us"] assms(2) that by auto
  have other: "(proc_of ?s' b)\<lparr>proc_next := 0\<rparr> = (proc_of s b)\<lparr>proc_next := 0\<rparr>" for b
    using last by (cases "procs s (last us)") (auto simp: set_link_def l_def proc_of_def)
  then show "others_kept s ps a ?s'" by (simp add: others_kept_def)
  have pid: "pid_of ?s' b = pid_of s b" for b
    using arg_cong [OF other [of b], of pid] by (simp add: pid_of_def)
  have "linked (procs ?s') proc_next (head_proc ?s') (us @ vs)"
  proof (cases "us = []")
    case True
    then show ?thesis using pf(1) assms(2) by (auto simp: set_link_def l_def proc_of_def)
  next
    case False
    have "linked ((procs s)(last us \<mapsto> (proc_of s (last us))\<lparr>proc_next := ?n\<rparr>)) proc_next (head_proc s) (us @ vs)"
      using linked_unlink [OF pf(1) [unfolded assms(2)] False] by (simp add: proc_of_def)
    then show ?thesis using False last by (simp add: set_link_def l_def)
  qed
  moreover have "inj_on (pid_of ?s') (set (us @ vs))"
    using assms(1,2) unfolding pid proc_list_def inj_on_def by auto
  moreover have "last_pid ?s' = last_pid s" by (simp add: set_link_def split: link.splits)
  ultimately show "proc_list ?s' (us @ vs)" using assms(1,2) pid by (auto simp: proc_list_def)
qed

lemma proc_list_without:
  assumes "proc_list s ps" and "without B s s'" and "B \<inter> set ps = {}"
  shows "proc_list s' ps" and "\<And>a. a \<in> set ps \<Longrightarrow> proc_of s' a = proc_of s a"
proof -
  have e: "procs s' a = procs s a" if "a \<in> set ps" for a
    using that assms(2,3) by (auto simp: without_def restrict_map_def)
  then show p: "\<And>a. a \<in> set ps \<Longrightarrow> proc_of s' a = proc_of s a" by (simp add: proc_of_def)
  then have "\<And>a. a \<in> set ps \<Longrightarrow> pid_of s' a = pid_of s a" by (simp add: pid_of_def)
  moreover have "linked (procs s') proc_next (head_proc s') ps"
    using assms(1,2) linked_cong [of ps proc_next "procs s'" "procs s"] e by (simp add: proc_list_def without_def)
  ultimately show "proc_list s' ps"
    using assms(1,2) by (auto simp: proc_list_def without_def inj_on_def)
qed

text \<open>The blocks of a process: its kernel stack, its saved registers and its files.\<close>

definition blocks :: "Process \<Rightarrow> u32 list \<Rightarrow> u32 list" where
  "blocks p fs = (kernel_stack p - KERNEL_SYSCALL_STACK) # last_state p # fs"

lemma free_blocks:
  assumes E: "object_heap (free_block E) in_use" and fs: "linked (fds s) fd_next (local_files p) fs"
    and d: "distinct (blocks p fs)" and L: "in_use (heap s) (vm s) L" and lv: "set (blocks p fs) \<subseteq> L"
  shows "\<exists>s1 s2 s3. heap_free E (kernel_stack p - KERNEL_SYSCALL_STACK) s = Inr s1 \<and> heap_free E (last_state p) s1 = Inr s2
     \<and> free_files E (local_files p) s2 = Inr s3 \<and> without (set (blocks p fs)) s s3 \<and> in_use (heap s3) (vm s3) (L - set (blocks p fs))"
proof -
  let ?k = "kernel_stack p - KERNEL_SYSCALL_STACK"
  obtain s1 where s1: "heap_free E ?k s = Inr s1" "without {?k} s s1" "in_use (heap s1) (vm s1) (L - {?k})"
    using heap_free_without [OF E L, of ?k] lv by (auto simp: blocks_def)
  have "last_state p \<in> L - {?k}" using lv d by (auto simp: blocks_def)
  then obtain s2 where s2: "heap_free E (last_state p) s1 = Inr s2" "without {last_state p} s1 s2"
    "in_use (heap s2) (vm s2) (L - {?k} - {last_state p})"
    using heap_free_without [OF E s1(3)] by blast
  have w2: "without {?k, last_state p} s s2"
    using without_trans [OF s1(2) s2(2)] by (simp add: insert_commute)
  have "linked (fds s2) fd_next (local_files p) fs"
    using fs w2 d by (subst linked_cong [of _ _ _ "fds s"]) (auto simp: without_def restrict_map_def blocks_def)
  moreover have "set fs \<subseteq> L - {?k} - {last_state p}" using lv d by (auto simp: blocks_def)
  ultimately obtain s3 where s3: "free_files E (local_files p) s2 = Inr s3" "without (set fs) s2 s3"
    "in_use (heap s3) (vm s3) (L - {?k} - {last_state p} - set fs)"
    using free_files_without [OF E _ s2(3)] by blast
  have "without (set (blocks p fs)) s s3" using without_trans [OF w2 s3(2)] by (simp add: blocks_def)
  moreover have "L - {?k} - {last_state p} - set fs = L - set (blocks p fs)" by (auto simp: blocks_def)
  ultimately show ?thesis using s1(1) s2(1) s3(1,3) by auto
qed

lemma RemoveProcess_loop_listed:
  assumes "proc_list s ps" and "ps = us @ a # vs"
  shows "RemoveProcess_loop (procs s) (pid_of s a) [] Head_Link (head_proc s)
     = Inr (if us = [] then Head_Link else Next_Link (last us), a)"
proof (rule RemoveProcess_loop_found [of _ _ us a vs])
  show "linked (procs s) proc_next (head_proc s) (us @ a # vs)" using proc_list_facts(1) [OF assms(1)] assms(2) by simp
  have "a \<notin> set us" using proc_list_facts(2) [OF assms(1)] assms(2) by simp
  then show "\<forall>u \<in> set us. pid (the (procs s u)) \<noteq> pid_of s a"
    using assms unfolding proc_list_def inj_on_def pid_of_def proc_of_def by auto
qed (simp_all add: pid_of_def proc_of_def)

text \<open>
  C24: \<open>_RemoveProcess\<close> takes the process with the given identifier out of the list and no other: the
  others keep their order, identifiers, files and saved states. Its kernel stack, its saved registers
  and its files are given back to the heap, once each, and nothing else is. The scheduler is started
  again when it was running. An identifier of no process is not found but dereferences \<open>NULL\<close> at the
  end of the list. The heap is any that keeps the contract \<open>object_heap\<close>.
\<close>

theorem RemoveProcess_unlinks:
  assumes "proc_list s ps" and "a \<in> set ps" and "linked (fds s) fd_next (local_files (proc_of s a)) fs"
    and "object_heap (free_block E) in_use" and "in_use (heap s) (vm s) L" and "distinct (blocks (proc_of s a) fs)"
    and "set (blocks (proc_of s a) fs) \<subseteq> L - set ps" and "space_ok (vm s) (address_space (proc_of s a))"
  shows "(\<exists>s'. RemoveProcess_entry E \<lparr>start_scheduler = start, param_pid = pid_of s a\<rparr> s = Inr (if start then Spins else Returns 0, s')
      \<and> proc_list s' (remove1 a ps) \<and> others_kept s ps a s'
      \<and> in_use (heap s') (vm s') (L - set (blocks (proc_of s a) fs))
      \<and> fds s' = fds s |` (- set (blocks (proc_of s a) fs)) \<and> cpus s' = cpus s |` (- set (blocks (proc_of s a) fs))
      \<and> scheduling s' = (start \<or> scheduling s) \<and> current s' = current s)
    \<and> (ident \<notin> pid_of s ` set ps \<longrightarrow>
        RemoveProcess_entry E \<lparr>start_scheduler = start, param_pid = ident\<rparr> s = Inl Null_Pointer)"
proof (intro conjI impI)
  let ?p = "proc_of s a" and ?B = "set (blocks (proc_of s a) fs)"
  note pf = proc_list_facts [OF assms(1)]
  obtain us vs where ps: "ps = us @ a # vs" using split_list [OF assms(2)] by blast
  have au: "a \<notin> set us" "a \<notin> set vs" using pf(2) ps by auto
  let ?l = "if us = [] then Head_Link else Next_Link (last us)"
  let ?t = "set_link ?l (proc_next ?p) s"
  have loop: "RemoveProcess_loop (procs s) (pid_of s a) [] Head_Link (head_proc s) = Inr (?l, a)"
    by (rule RemoveProcess_loop_listed [OF assms(1) ps])
  have t: "fds ?t = fds s" "cpus ?t = cpus s" "heap ?t = heap s" "vm ?t = vm s" "scheduling ?t = scheduling s" "current ?t = current s"
    by (simp_all add: set_link_def)
  obtain fd where sp: "vmm_ok (vm s)" "proc_ok (vm s) (address_space ?p) fd" "kfree (vm s)" "shares_kernel (vm s) fd"
    "\<not> present (umap (vm s) fd 0)" "\<not> present (kernel_pte (vm s) 0xC0000000)"
    using assms(8) unfolding space_ok_def by blast
  obtain v where v: "X86DeleteAddressSpace (address_space ?p) (vm s) = Inr v" "quiet (vm s) v"
    using X86DeleteAddressSpace_spec [OF sp] by blast
  let ?t1 = "?t\<lparr>vm := v\<rparr>"
  obtain t2 t3 t4 where fr: "heap_free E (kernel_stack ?p - KERNEL_SYSCALL_STACK) ?t1 = Inr t2"
    "heap_free E (last_state ?p) t2 = Inr t3" "free_files E (local_files ?p) t3 = Inr t4"
    and w4: "without ?B ?t1 t4" and u4: "in_use (heap t4) (vm t4) (L - ?B)"
  proof -
    have "in_use (heap ?t1) (vm ?t1) L" using object_heap.in_use_quiet [OF assms(4,5) v(2)] t(3) by simp
    from free_blocks [OF assms(4) _ assms(6) this] show ?thesis using assms(3,7) t(1) that by auto
  qed
  have r: "remove1 a ps = us @ vs" using au(1) ps by (simp add: remove1_append)
  have Bps: "?B \<inter> set (us @ vs) = {}" using assms(7) ps by auto
  have "proc_list ?t1 (us @ vs)" "others_kept s ps a ?t1"
    using link_removed [OF assms(1) ps] by (simp_all add: proc_list_def pid_of_def [abs_def] proc_of_def [abs_def] others_kept_def)
  then have pl4: "proc_list t4 (us @ vs)" "others_kept s ps a t4"
    using proc_list_without [OF _ w4 Bps] ps by (auto simp: others_kept_def)
  let ?s' = "if start then StartScheduler E t4 else t4"
  have "RemoveProcess_entry E \<lparr>start_scheduler = start, param_pid = pid_of s a\<rparr> s = Inr (if start then Spins else Returns 0, ?s')"
    using loop pf(4,5) [OF assms(2)] fr v(1) t(4) by (simp add: RemoveProcess_entry_def Let_def)
  moreover have "proc_list ?s' (remove1 a ps)" "others_kept s ps a ?s'"
    using pl4 unfolding r by (simp_all add: StartScheduler_def proc_list_def pid_of_def [abs_def] proc_of_def [abs_def] others_kept_def)
  moreover have "in_use (heap ?s') (vm ?s') (L - ?B)" "fds ?s' = fds s |` (- ?B)" "cpus ?s' = cpus s |` (- ?B)"
    "scheduling ?s' = (start \<or> scheduling s)" "current ?s' = current s"
    using w4 u4 t by (simp_all add: without_def StartScheduler_def)
  ultimately show "\<exists>s'. RemoveProcess_entry E \<lparr>start_scheduler = start, param_pid = pid_of s a\<rparr> s = Inr (if start then Spins else Returns 0, s')
      \<and> proc_list s' (remove1 a ps) \<and> others_kept s ps a s' \<and> in_use (heap s') (vm s') (L - ?B)
      \<and> fds s' = fds s |` (- ?B) \<and> cpus s' = cpus s |` (- ?B) \<and> scheduling s' = (start \<or> scheduling s) \<and> current s' = current s"
    by blast
next
  assume "ident \<notin> pid_of s ` set ps"
  then have "RemoveProcess_loop (procs s) ident [] Head_Link (head_proc s) = Inl Null_Pointer"
    using proc_list_facts(1) [OF assms(1)]
    by (intro RemoveProcess_loop_missing) (auto simp: pid_of_def proc_of_def)
  then show "RemoveProcess_entry E \<lparr>start_scheduler = start, param_pid = ident\<rparr> s = Inl Null_Pointer"
    by (simp add: RemoveProcess_entry_def)
qed

text \<open>Process 1 of the demonstration machine, with the address space of \<open>demo_proc\<close>.\<close>

lemma demo_heap: "object_heap (free_block demo_env) (\<lambda>h v L. set h = L)"
  by unfold_locales (auto simp: demo_env_def)

lemma demo_space_ok: "space_ok demo_proc 0xC0500000"
proof -
  have "shares_kernel demo_proc 3"
    unfolding shares_kernel_def demo_proc_facts by (simp add: new_pde_def demo_proc_def demo_user_def demo_vmm_def)
  moreover have "\<not> present (umap demo_proc 3 0)"
    by (simp add: umap_def demo_proc_facts kernel_page_facts pde_of_word_def zero_pte_def pte_of_word_def)
  moreover have "page_no 0xC0000000 = 0xC0000" by (simp add: page_no_def drop_bit_eq_div)
  then have "\<not> present (kernel_pte demo_proc 0xC0000000)"
    by (simp add: kernel_pte_kmap demo_proc_facts kmap_demo_user kmap_demo)
  ultimately show ?thesis unfolding space_ok_def using demo_proc_facts(4,5) demo_proc_ok by blast
qed

theorem RemoveProcess_unlinks_witness:
  "\<exists>s'. RemoveProcess_entry demo_env \<lparr>start_scheduler = True, param_pid = 1\<rparr> (demo_machine\<lparr>vm := demo_proc\<rparr>) = Inr (Spins, s')
     \<and> proc_list s' [0x2000] \<and> fds s' 0x3000 = None \<and> set (heap s') = {0x1000, 0x2000, 0x200, 0x6000}"
proof -
  let ?s = "demo_machine\<lparr>vm := demo_proc\<rparr>" and ?fs = "[0x3000, 0x3100] :: u32 list"
  have p: "proc_of ?s 0x1000 = demo_process 1 0 0x3000" "pid_of ?s 0x1000 = 1"
    by (simp_all add: pid_of_def proc_of_def demo_machine_def demo_process_def)
  have pl: "proc_list ?s [0x2000, 0x1000]" using demo_sched_ok
    by (simp add: sched_ok_def proc_list_def pid_of_def [abs_def] proc_of_def [abs_def])
  have fs: "linked (fds ?s) fd_next (local_files (proc_of ?s 0x1000)) ?fs"
    unfolding p by (simp add: demo_machine_def demo_process_def demo_fd_def)
  have b: "blocks (proc_of ?s 0x1000) ?fs = [0x5000, 0x100, 0x3000, 0x3100]"
    unfolding p by (simp add: blocks_def demo_process_def KERNEL_SYSCALL_STACK_def)
  have d: "distinct (blocks (proc_of ?s 0x1000) ?fs)"
    and h: "set (blocks (proc_of ?s 0x1000) ?fs) \<subseteq> set (heap ?s) - set [0x2000, 0x1000]"
    unfolding b by (simp_all add: demo_machine_def)
  have sp: "space_ok (vm ?s) (address_space (proc_of ?s 0x1000))"
    unfolding p using demo_space_ok by (simp add: demo_process_def)
  have a: "0x1000 \<in> set [0x2000, 0x1000 :: u32]" by simp
  obtain s' where *: "RemoveProcess_entry demo_env \<lparr>start_scheduler = True, param_pid = 1\<rparr> ?s = Inr (Spins, s')"
    "proc_list s' (remove1 0x1000 [0x2000, 0x1000])" "set (heap s') = set (heap ?s) - set [0x5000, 0x100, 0x3000, 0x3100]"
    "fds s' = fds ?s |` (- set [0x5000, 0x100, 0x3000, 0x3100])"
    using RemoveProcess_unlinks [OF pl a fs demo_heap refl d h sp, of True 0, THEN conjunct1, unfolded b p(2) if_True]
    by blast
  have "proc_list s' [0x2000]" using *(2) by simp
  moreover have "fds s' 0x3000 = None" unfolding *(4) by (simp add: restrict_map_def)
  moreover have "set (heap s') = {0x1000, 0x2000, 0x200, 0x6000}" unfolding *(3) by (simp add: demo_machine_def insert_Diff_if)
  ultimately show ?thesis using *(1) by blast
qed

end
