(* ===== verification/Kernel_Heap.thy ===== *)
theory Kernel_Heap
  imports Stdlib_Mem
begin

text \<open>
  The kernel heap, \<open>mem/liballoc/liballoc.c\<close>, on the byte-addressed memory of \<open>Stdlib_Mem\<close>: its structures are
  six words each, read and written in place, so that a block is wherever the arithmetic of the
  code puts it.

  The hooks of \<open>mem/liballoc/hooks.c\<close> that obtain and return pages are the record \<open>page_ops\<close>; new pages may change
  what is read at their addresses. The lock of the hooks is the interrupt flag. Loops over lists in
  memory are bounded by \<open>fuel\<close>, since a damaged list may have a cycle.
\<close>

section \<open>Structures\<close>

text \<open>The fields of \<open>struct liballoc_major\<close> and \<open>struct liballoc_minor\<close>, at the same six offsets.\<close>

datatype field = Prev | Next | Third | Fourth | Fifth | Sixth

abbreviation (input) "Pages \<equiv> Third"
abbreviation (input) "Size \<equiv> Fourth"
abbreviation (input) "Usage \<equiv> Fifth"
abbreviation (input) "First \<equiv> Sixth"
abbreviation (input) "Block \<equiv> Third"
abbreviation (input) "Magic \<equiv> Fourth"
abbreviation (input) "Min_Size \<equiv> Fifth"
abbreviation (input) "Req_Size \<equiv> Sixth"

primrec offset_of :: "field \<Rightarrow> u32" where
  "offset_of Prev = 0"
| "offset_of Next = 4"
| "offset_of Third = 8"
| "offset_of Fourth = 12"
| "offset_of Fifth = 16"
| "offset_of Sixth = 20"

definition get :: "mem \<Rightarrow> u32 \<Rightarrow> field \<Rightarrow> u32" where
  "get m a f = read32 m (a + offset_of f)"

definition put :: "u32 \<Rightarrow> field \<Rightarrow> u32 \<Rightarrow> mem \<Rightarrow> mem" where
  "put a f v m = write32 m (a + offset_of f) v"

abbreviation (input) "sizeof_major \<equiv> (24 :: u32)"
abbreviation (input) "sizeof_minor \<equiv> (24 :: u32)"

definition ALIGNMENT :: u32 where "ALIGNMENT = 16"
definition ALIGN_INFO :: u32 where "ALIGN_INFO = 16"
definition LIBALLOC_MAGIC :: u32 where "LIBALLOC_MAGIC = 0xc001c0de"
definition LIBALLOC_DEAD :: u32 where "LIBALLOC_DEAD = 0xdeaddead"
definition l_pageSize :: u32 where "l_pageSize = 4096"
definition l_pageCount :: u32 where "l_pageCount = 16"

record 'p heap =
  hmem :: mem
  l_memRoot :: u32
  l_bestBet :: u32
  l_allocated :: u64
  l_inuse :: u64
  l_warningCount :: u64
  l_errorCount :: u64
  l_possibleOverruns :: u64
  interrupts :: bool
  page_state :: 'p

record 'p page_ops =
  page_alloc :: "u32 \<Rightarrow> mem \<Rightarrow> 'p \<Rightarrow> (u32 \<times> mem \<times> 'p) res"
  page_free :: "u32 \<Rightarrow> u32 \<Rightarrow> 'p \<Rightarrow> 'p res"

definition liballoc_lock :: "'p heap \<Rightarrow> 'p heap" where
  "liballoc_lock s = s\<lparr>interrupts := False\<rparr>"

definition liballoc_unlock :: "'p heap \<Rightarrow> 'p heap" where
  "liballoc_unlock s = s\<lparr>interrupts := True\<rparr>"

section \<open>Helpers\<close>

definition ALIGN :: "u32 \<Rightarrow> mem \<Rightarrow> u32 \<times> mem" where
  "ALIGN p m =
     (let p = p + ALIGN_INFO;
          diff = p AND (ALIGNMENT - 1);
          (diff, p) = (if diff \<noteq> 0 then (ALIGNMENT - diff, p + (ALIGNMENT - diff)) else (diff, p)) in
      (p, m(p - ALIGN_INFO := ucast (diff + ALIGN_INFO))))"

definition UNALIGN :: "mem \<Rightarrow> u32 \<Rightarrow> u32" where
  "UNALIGN m p =
     (let diff = scast (m (p - ALIGN_INFO)) in
      if diff < ALIGNMENT + ALIGN_INFO then p - diff else p)"

definition liballoc_memset :: "u32 \<Rightarrow> int \<Rightarrow> u32 \<Rightarrow> mem \<Rightarrow> mem res" where
  "liballoc_memset p c n m =
     (if p = 0 \<and> n \<noteq> 0 then Inl Null_Pointer
      else Inr (fold (\<lambda>i m. m(p + of_nat i := word_of_int c)) [0..<unat n] m))"

function la_copy_words :: "mem \<Rightarrow> u32 \<Rightarrow> u32 \<Rightarrow> u32 \<Rightarrow> mem \<times> u32 \<times> u32 \<times> u32" where
  "la_copy_words m ldest lsrc n =
     (if n \<ge> 4 then la_copy_words (write32 m ldest (read32 m lsrc)) (ldest + 4) (lsrc + 4) (n - 4)
      else (m, ldest, lsrc, n))"
  by pat_completeness auto
termination
  by (relation "measure (\<lambda>(m, ldest, lsrc, n). unat n)") (auto simp: unat_sub word_le_nat_alt)

function la_copy_bytes :: "mem \<Rightarrow> u32 \<Rightarrow> u32 \<Rightarrow> u32 \<Rightarrow> mem" where
  "la_copy_bytes m cdest csrc n =
     (if n > 0 then la_copy_bytes (m(cdest := m csrc)) (cdest + 1) (csrc + 1) (n - 1) else m)"
  by pat_completeness auto
termination
  by (relation "measure (\<lambda>(m, cdest, csrc, n). unat n)") (auto simp: unat_sub word_le_nat_alt word_less_nat_alt)

declare la_copy_words.simps [simp del] la_copy_bytes.simps [simp del]

definition liballoc_memcpy :: "mem \<Rightarrow> u32 \<Rightarrow> u32 \<Rightarrow> u32 \<Rightarrow> mem" where
  "liballoc_memcpy m s1 s2 n =
     (let (m, cdest, csrc, n) = la_copy_words m s1 s2 n in la_copy_bytes m cdest csrc n)"

definition allocate_new_page :: "'p page_ops \<Rightarrow> u32 \<Rightarrow> 'p heap \<Rightarrow> (u32 \<times> 'p heap) res" where
  "allocate_new_page ops sz s =
     (let st = sz + sizeof_major;
          st = st + sizeof_minor;
          st = (if st mod l_pageSize = 0 then st div l_pageSize else st div l_pageSize + 1);
          st = (if st < l_pageCount then l_pageCount else st) in
      rbind (page_alloc ops st (hmem s) (page_state s)) (\<lambda>(maj, m, p).
      let s = s\<lparr>hmem := m, page_state := p\<rparr> in
      if maj = 0 then Inr (0, s\<lparr>l_warningCount := l_warningCount s + 1\<rparr>)
      else
        let m = put maj Prev 0 m;
            m = put maj Next 0 m;
            m = put maj Pages st m;
            m = put maj Size (st * l_pageSize) m;
            m = put maj Usage sizeof_major m;
            m = put maj First 0 m in
        Inr (maj, s\<lparr>hmem := m, l_allocated := l_allocated s + ucast (get m maj Size)\<rparr>)))"

section \<open>malloc\<close>

text \<open>The end of every successful case: alignment, the counter, the lock.\<close>

definition deliver :: "u32 \<Rightarrow> u32 \<Rightarrow> mem \<Rightarrow> 'p heap \<Rightarrow> u32 \<times> 'p heap" where
  "deliver new sz m s =
     (let s = s\<lparr>l_inuse := l_inuse s + ucast sz\<rparr>;
          (p, m) = ALIGN (new + sizeof_minor) m in
      (p, liballoc_unlock (s\<lparr>hmem := m\<rparr>)))"

text \<open>Case 2: a block without allocations.\<close>

definition case_2 :: "u32 \<Rightarrow> u32 \<Rightarrow> u32 \<Rightarrow> 'p heap \<Rightarrow> u32 \<times> 'p heap" where
  "case_2 maj sz req s =
     (let m = hmem s;
          m = put maj First (maj + sizeof_major) m;
          m = put (get m maj First) Magic LIBALLOC_MAGIC m;
          m = put (get m maj First) Prev 0 m;
          m = put (get m maj First) Next 0 m;
          m = put (get m maj First) Block maj m;
          m = put (get m maj First) Min_Size sz m;
          m = put (get m maj First) Req_Size req m;
          m = put maj Usage (get m maj Usage + (sz + sizeof_minor)) m in
      deliver (get m maj First) sz m s)"

text \<open>Case 3: in front of the first allocation of the block.\<close>

definition case_3 :: "u32 \<Rightarrow> u32 \<Rightarrow> u32 \<Rightarrow> 'p heap \<Rightarrow> u32 \<times> 'p heap" where
  "case_3 maj sz req s =
     (let m = hmem s;
          m = put (get m maj First) Prev (maj + sizeof_major) m;
          m = put (get m (get m maj First) Prev) Next (get m maj First) m;
          m = put maj First (get m (get m maj First) Prev) m;
          m = put (get m maj First) Magic LIBALLOC_MAGIC m;
          m = put (get m maj First) Prev 0 m;
          m = put (get m maj First) Block maj m;
          m = put (get m maj First) Min_Size sz m;
          m = put (get m maj First) Req_Size req m;
          m = put maj Usage (get m maj Usage + (sz + sizeof_minor)) m in
      deliver (get m maj First) sz m s)"

text \<open>Case 4.1: after the last allocation of the block.\<close>

definition case_4_1 :: "u32 \<Rightarrow> u32 \<Rightarrow> u32 \<Rightarrow> u32 \<Rightarrow> 'p heap \<Rightarrow> u32 \<times> 'p heap" where
  "case_4_1 maj mn sz req s =
     (let m = hmem s;
          m = put mn Next (mn + sizeof_minor + get m mn Min_Size) m;
          m = put (get m mn Next) Prev mn m;
          mn = get m mn Next;
          m = put mn Next 0 m;
          m = put mn Magic LIBALLOC_MAGIC m;
          m = put mn Block maj m;
          m = put mn Min_Size sz m;
          m = put mn Req_Size req m;
          m = put maj Usage (get m maj Usage + (sz + sizeof_minor)) m in
      deliver mn sz m s)"

text \<open>Case 4.2: between two allocations.\<close>

definition case_4_2 :: "u32 \<Rightarrow> u32 \<Rightarrow> u32 \<Rightarrow> u32 \<Rightarrow> 'p heap \<Rightarrow> u32 \<times> 'p heap" where
  "case_4_2 maj mn sz req s =
     (let m = hmem s;
          new_min = mn + sizeof_minor + get m mn Min_Size;
          m = put new_min Magic LIBALLOC_MAGIC m;
          m = put new_min Next (get m mn Next) m;
          m = put new_min Prev mn m;
          m = put new_min Min_Size sz m;
          m = put new_min Req_Size req m;
          m = put new_min Block maj m;
          m = put (get m mn Next) Prev new_min m;
          m = put mn Next new_min m;
          m = put maj Usage (get m maj Usage + (sz + sizeof_minor)) m in
      deliver new_min sz m s)"

text \<open>The loop of case 4; \<open>None\<close> when no gap of the block is large enough.\<close>

primrec case_4 :: "nat \<Rightarrow> u32 \<Rightarrow> u32 \<Rightarrow> u32 \<Rightarrow> u32 \<Rightarrow> 'p heap \<Rightarrow> (u32 \<times> 'p heap) option res" where
  "case_4 0 maj mn sz req s = Inl Diverges"
| "case_4 (Suc n) maj mn sz req s =
     (let m = hmem s in
      if mn = 0 then Inr None
      else if get m mn Next = 0 \<and> maj + get m maj Size - mn - sizeof_minor - get m mn Min_Size \<ge> sz + sizeof_minor then
        Inr (Some (case_4_1 maj mn sz req s))
      else if get m mn Next \<noteq> 0 \<and> get m mn Next - mn - sizeof_minor - get m mn Min_Size \<ge> sz + sizeof_minor then
        Inr (Some (case_4_2 maj mn sz req s))
      else case_4 n maj (get m mn Next) sz req s)"

definition cases_2_to_4 :: "nat \<Rightarrow> u32 \<Rightarrow> u32 \<Rightarrow> u32 \<Rightarrow> 'p heap \<Rightarrow> (u32 \<times> 'p heap) option res" where
  "cases_2_to_4 fuel maj sz req s =
     (let m = hmem s in
      if get m maj First = 0 then Inr (Some (case_2 maj sz req s))
      else if get m maj First - maj - sizeof_major \<ge> sz + sizeof_minor then Inr (Some (case_3 maj sz req s))
      else case_4 fuel maj (get m maj First) sz req s)"

text \<open>A new block is linked behind \<open>maj\<close>; the result is \<open>maj->next\<close>.\<close>

definition append_block :: "'p page_ops \<Rightarrow> u32 \<Rightarrow> u32 \<Rightarrow> 'p heap \<Rightarrow> (u32 \<times> 'p heap) res" where
  "append_block ops maj sz s =
     rbind (allocate_new_page ops sz s) (\<lambda>(b, s).
     let m = put maj Next b (hmem s) in
     if get m maj Next = 0 then Inr (0, s\<lparr>hmem := m\<rparr>)
     else Inr (get m maj Next, s\<lparr>hmem := put (get m maj Next) Prev maj m\<rparr>))"

text \<open>The loop over the blocks, with case 1 before and case 5 after the others.\<close>

primrec search :: "nat \<Rightarrow> nat \<Rightarrow> 'p page_ops \<Rightarrow> u32 \<Rightarrow> u32 \<Rightarrow> u32 \<Rightarrow> bool \<Rightarrow> u64 \<Rightarrow> 'p heap \<Rightarrow> (u32 \<times> 'p heap) res" where
  "search 0 fuel ops sz req maj startedBet bestSize s = Inl Diverges"
| "search (Suc n) fuel ops sz req maj startedBet bestSize s =
     (if maj = 0 then Inr (0, liballoc_unlock s)
      else
        let diff = get (hmem s) maj Size - get (hmem s) maj Usage;
            better = bestSize < ucast diff;
            s = (if better then s\<lparr>l_bestBet := maj\<rparr> else s);
            bestSize = (if better then ucast diff else bestSize);
            rest = (\<lambda>maj s.
              rbind (cases_2_to_4 fuel maj sz req s) (\<lambda>r. case r of Some ps \<Rightarrow> Inr ps
              | None \<Rightarrow>
                  if get (hmem s) maj Next = 0 then
                    if startedBet then search n fuel ops sz req (l_memRoot s) False bestSize s
                    else rbind (append_block ops maj sz s) (\<lambda>(b, s).
                      if b = 0 then Inr (0, liballoc_unlock s) else search n fuel ops sz req b startedBet bestSize s)
                  else search n fuel ops sz req (get (hmem s) maj Next) startedBet bestSize s)) in
        if diff < sz + sizeof_minor then
          if get (hmem s) maj Next \<noteq> 0 then search n fuel ops sz req (get (hmem s) maj Next) startedBet bestSize s
          else if startedBet then search n fuel ops sz req (l_memRoot s) False bestSize s
          else rbind (append_block ops maj sz s) (\<lambda>(b, s).
            if b = 0 then Inr (0, liballoc_unlock s) else rest b s)
        else rest maj s)"

text \<open>\<open>malloc\<close> once the size is known not to be 0.\<close>

definition malloc_sized :: "nat \<Rightarrow> 'p page_ops \<Rightarrow> u32 \<Rightarrow> u32 \<Rightarrow> 'p heap \<Rightarrow> (u32 \<times> 'p heap) res" where
  "malloc_sized fuel ops sz req s =
     rbind (if l_memRoot s = 0 then
              rbind (allocate_new_page ops sz s) (\<lambda>(b, s). Inr (b \<noteq> 0, s\<lparr>l_memRoot := b\<rparr>))
            else Inr (True, s)) (\<lambda>(ok, s).
     if \<not> ok then Inr (0, liballoc_unlock s)
     else
       let bestSize = (if l_bestBet s \<noteq> 0 then get (hmem s) (l_bestBet s) Size - get (hmem s) (l_bestBet s) Usage else 0);
           bet = (l_bestBet s \<noteq> 0 \<and> bestSize > sz + sizeof_minor) in
       search fuel fuel ops sz req (if bet then l_bestBet s else l_memRoot s) bet (ucast bestSize) s)"

definition la_malloc :: "nat \<Rightarrow> 'p page_ops \<Rightarrow> u32 \<Rightarrow> 'p heap \<Rightarrow> (u32 \<times> 'p heap) res" where
  "la_malloc fuel ops req s =
     (let sz = req + (ALIGNMENT + ALIGN_INFO);
          s = liballoc_lock s in
      if sz = 0 then
        let s = liballoc_unlock (s\<lparr>l_warningCount := l_warningCount s + 1\<rparr>) in
        malloc_sized fuel ops (1 + (ALIGNMENT + ALIGN_INFO)) 1 (liballoc_lock s)
      else malloc_sized fuel ops sz req s)"

section \<open>free, calloc and realloc\<close>

text \<open>The counters of an attempt on something that is not an allocation.\<close>

definition bad_magic :: "u32 \<Rightarrow> 'p heap \<Rightarrow> 'p heap" where
  "bad_magic mg s =
     (let s = s\<lparr>l_errorCount := l_errorCount s + 1\<rparr>;
          s = (if mg AND 0xFFFFFF = LIBALLOC_MAGIC AND 0xFFFFFF \<or> mg AND 0xFFFF = LIBALLOC_MAGIC AND 0xFFFF
                  \<or> mg AND 0xFF = LIBALLOC_MAGIC AND 0xFF
               then s\<lparr>l_possibleOverruns := l_possibleOverruns s + 1\<rparr> else s) in
      liballoc_unlock s)"

definition unlink_minor :: "u32 \<Rightarrow> u32 \<Rightarrow> mem \<Rightarrow> mem" where
  "unlink_minor mn maj m =
     (let m = put maj Usage (get m maj Usage - (get m mn Min_Size + sizeof_minor)) m;
          m = put mn Magic LIBALLOC_DEAD m;
          m = (if get m mn Next \<noteq> 0 then put (get m mn Next) Prev (get m mn Prev) m else m);
          m = (if get m mn Prev \<noteq> 0 then put (get m mn Prev) Next (get m mn Next) m else m) in
      if get m mn Prev = 0 then put maj First (get m mn Next) m else m)"

definition release_major :: "'p page_ops \<Rightarrow> u32 \<Rightarrow> 'p heap \<Rightarrow> 'p heap res" where
  "release_major ops maj s =
     (let m = hmem s;
          s = (if l_memRoot s = maj then s\<lparr>l_memRoot := get m maj Next\<rparr> else s);
          s = (if l_bestBet s = maj then s\<lparr>l_bestBet := 0\<rparr> else s);
          m = (if get m maj Prev \<noteq> 0 then put (get m maj Prev) Next (get m maj Next) m else m);
          m = (if get m maj Next \<noteq> 0 then put (get m maj Next) Prev (get m maj Prev) m else m);
          s = s\<lparr>hmem := m, l_allocated := l_allocated s - ucast (get m maj Size)\<rparr> in
      rbind (page_free ops maj (get m maj Pages) (page_state s)) (\<lambda>p. Inr (s\<lparr>page_state := p\<rparr>)))"

definition update_bet :: "u32 \<Rightarrow> 'p heap \<Rightarrow> 'p heap" where
  "update_bet maj s =
     (let m = hmem s in
      if l_bestBet s \<noteq> 0 then
        let bestSize = sint (get m (l_bestBet s) Size - get m (l_bestBet s) Usage);
            majSize = sint (get m maj Size - get m maj Usage) in
        if majSize > bestSize then s\<lparr>l_bestBet := maj\<rparr> else s
      else s)"

definition la_free :: "'p page_ops \<Rightarrow> u32 \<Rightarrow> 'p heap \<Rightarrow> 'p heap res" where
  "la_free ops p s =
     (if p = 0 then Inr (s\<lparr>l_warningCount := l_warningCount s + 1\<rparr>)
      else
        let p = UNALIGN (hmem s) p;
            s = liballoc_lock s;
            mn = p - sizeof_minor in
        if get (hmem s) mn Magic \<noteq> LIBALLOC_MAGIC then Inr (bad_magic (get (hmem s) mn Magic) s)
        else
          let maj = get (hmem s) mn Block;
              s = s\<lparr>l_inuse := l_inuse s - ucast (get (hmem s) mn Min_Size)\<rparr>;
              s = s\<lparr>hmem := unlink_minor mn maj (hmem s)\<rparr> in
          rbind (if get (hmem s) maj First = 0 then release_major ops maj s else Inr (update_bet maj s)) (\<lambda>s.
            Inr (liballoc_unlock s)))"

definition la_calloc :: "nat \<Rightarrow> 'p page_ops \<Rightarrow> u32 \<Rightarrow> u32 \<Rightarrow> 'p heap \<Rightarrow> (u32 \<times> 'p heap) res" where
  "la_calloc fuel ops nobj sz s =
     (let real_size = nobj * sz in
      rbind (la_malloc fuel ops real_size s) (\<lambda>(p, s).
      rbind (liballoc_memset p 0 real_size (hmem s)) (\<lambda>m. Inr (p, s\<lparr>hmem := m\<rparr>))))"

definition la_realloc :: "nat \<Rightarrow> 'p page_ops \<Rightarrow> u32 \<Rightarrow> u32 \<Rightarrow> 'p heap \<Rightarrow> (u32 \<times> 'p heap) res" where
  "la_realloc fuel ops p sz s =
     (if sz = 0 then rbind (la_free ops p s) (\<lambda>s. Inr (0, s))
      else if p = 0 then la_malloc fuel ops sz s
      else
        let q = UNALIGN (hmem s) p;
            s = liballoc_lock s;
            mn = q - sizeof_minor in
        if get (hmem s) mn Magic \<noteq> LIBALLOC_MAGIC then Inr (0, bad_magic (get (hmem s) mn Magic) s)
        else
          let real_size = get (hmem s) mn Req_Size in
          if real_size \<ge> sz then Inr (p, liballoc_unlock (s\<lparr>hmem := put mn Req_Size sz (hmem s)\<rparr>))
          else
            let s = liballoc_unlock s in
            rbind (la_malloc fuel ops sz s) (\<lambda>(q, s).
            if q = 0 \<and> real_size \<noteq> 0 then Inl Null_Pointer
            else
              let s = s\<lparr>hmem := liballoc_memcpy (hmem s) q p real_size\<rparr> in
              rbind (la_free ops p s) (\<lambda>s. Inr (q, s))))"

end
