(* ===== verification/Heap_Memory.thy ===== *)
theory Heap_Memory
  imports Kernel_Heap
begin

text \<open>
  Structures in byte memory behave like objects with fields as long as they do not overlap.
  Lists of structures linked in both directions.
\<close>

section \<open>Bytes and words\<close>

definition bytes_at :: "u32 \<Rightarrow> nat \<Rightarrow> u32 set" where
  "bytes_at a n = {x. unat a \<le> unat x \<and> unat x < unat a + n}"

definition hdr :: "u32 \<Rightarrow> u32 set" where
  "hdr a = bytes_at a 24"

definition fits :: "u32 \<Rightarrow> bool" where
  "fits a \<longleftrightarrow> unat a + 24 \<le> 2 ^ 32"

lemma unat_offset [simp]:
  "unat (offset_of f) = (case f of Prev \<Rightarrow> 0 | Next \<Rightarrow> 4 | Third \<Rightarrow> 8 | Fourth \<Rightarrow> 12 | Fifth \<Rightarrow> 16 | Sixth \<Rightarrow> 20)"
  by (cases f) simp_all

lemma unat_field_byte:
  assumes "fits a" and "i < 4"
  shows "unat (a + offset_of f + of_nat i) = unat a + unat (offset_of f) + i"
proof -
  have i: "unat (of_nat i :: u32) = i" using assms(2) by (intro unat_of_nat_less) simp
  have o: "unat (offset_of f) \<le> 20" by (cases f) simp_all
  then have "unat (a + offset_of f) = unat a + unat (offset_of f)"
    using assms(1) by (intro unat_plus_no_wrap) (simp add: fits_def)
  then show ?thesis using assms i o by (subst unat_plus_no_wrap) (simp_all add: fits_def)
qed

lemma field_byte_hdr:
  assumes "fits a" and "i < 4"
  shows "a + offset_of f + of_nat i \<in> hdr a"
proof -
  have "unat (offset_of f) \<le> 20" by (cases f) simp_all
  then show ?thesis using assms unat_field_byte [OF assms, of f] by (simp add: hdr_def bytes_at_def)
qed

lemma read32_bytes: "read32 m a = read32 m' a'" if "\<And>i. i < 4 \<Longrightarrow> m (a + of_nat i) = m' (a' + of_nat i)"
  using that [of 0] that [of 1] that [of 2] that [of 3] by (simp add: read32_def)

lemma write32_bytes:
  assumes "\<And>i. i < 4 \<Longrightarrow> x \<noteq> a + of_nat i"
  shows "write32 m a v x = m x"
  using assms [of 0] assms [of 1] assms [of 2] assms [of 3] by (simp add: write32_def)

lemma read32_write32: "read32 (write32 m a v) a = v"
proof -
  have "a \<noteq> a + 1" "a \<noteq> a + 2" "a \<noteq> a + 3" "a + 1 \<noteq> a + 2" "a + 1 \<noteq> a + 3" "a + 2 \<noteq> a + 3"
    by (simp_all)
  then have "read32 (write32 m a v) a = ucast (ucast v :: u8) OR push_bit 8 (ucast (ucast (drop_bit 8 v) :: u8))
      OR push_bit 16 (ucast (ucast (drop_bit 16 v) :: u8)) OR push_bit 24 (ucast (ucast (drop_bit 24 v) :: u8))"
    by (simp add: read32_def write32_def)
  also have "\<dots> = v"
  proof (rule bit_eqI)
    fix n assume "possible_bit TYPE(u32) n"
    then have "n < 32" by simp
    then show "bit (ucast (ucast v :: u8) OR push_bit 8 (ucast (ucast (drop_bit 8 v) :: u8))
      OR push_bit 16 (ucast (ucast (drop_bit 16 v) :: u8)) OR push_bit 24 (ucast (ucast (drop_bit 24 v) :: u8)) :: u32) n = bit v n"
      by (cases "n < 8"; cases "n < 16"; cases "n < 24") (auto simp: bit_simps)
  qed
  finally show ?thesis .
qed

lemma get_cong: "fits a \<Longrightarrow> (\<And>x. x \<in> hdr a \<Longrightarrow> m x = m' x) \<Longrightarrow> get m a f = get m' a f"
  unfolding get_def by (intro read32_bytes) (simp add: field_byte_hdr)

lemma put_outside: "fits a \<Longrightarrow> x \<notin> hdr a \<Longrightarrow> put a f v m x = m x"
  unfolding put_def by (intro write32_bytes) (metis field_byte_hdr)

lemma get_put_same [simp]: "get (put a f v m) a f = v"
  by (simp add: get_def put_def read32_write32)

lemma get_put_field:
  assumes "fits a" and "f \<noteq> g"
  shows "get (put a f v m) a g = get m a g"
  unfolding get_def
proof (rule read32_bytes)
  fix i :: nat assume i: "i < 4"
  have "a + offset_of g + of_nat i \<noteq> a + offset_of f + of_nat j" if j: "j < 4" for j
  proof
    assume "a + offset_of g + of_nat i = a + offset_of f + of_nat j"
    then have "unat (a + offset_of g + of_nat i) = unat (a + offset_of f + of_nat j)" by (rule arg_cong)
    then have "unat (offset_of g) + i = unat (offset_of f) + j"
      unfolding unat_field_byte [OF assms(1) i] unat_field_byte [OF assms(1) j] by linarith
    then show False using assms(2) i j by (cases f; cases g) auto
  qed
  then show "put a f v m (a + offset_of g + of_nat i) = m (a + offset_of g + of_nat i)"
    unfolding put_def by (intro write32_bytes) blast
qed

section \<open>Separated structures\<close>

definition apart :: "u32 \<Rightarrow> u32 \<Rightarrow> bool" where
  "apart a b \<longleftrightarrow> hdr a \<inter> hdr b = {}"

definition separated :: "u32 set \<Rightarrow> bool" where
  "separated H \<longleftrightarrow> (\<forall>a \<in> H. fits a) \<and> (\<forall>a \<in> H. \<forall>b \<in> H. a \<noteq> b \<longrightarrow> apart a b)"

lemma separated_mono: "separated H \<Longrightarrow> G \<subseteq> H \<Longrightarrow> separated G"
  by (auto simp: separated_def)

lemma get_put:
  assumes "separated H" and "a \<in> H" and "b \<in> H"
  shows "get (put a f v m) b g = (if a = b \<and> f = g then v else get m b g)"
proof (cases "a = b")
  case True
  then show ?thesis using assms get_put_field [of a f g v m] by (auto simp: separated_def)
next
  case False
  then have "hdr a \<inter> hdr b = {}" "fits a" "fits b" using assms by (auto simp: separated_def apart_def)
  then have "get (put a f v m) b g = get m b g" by (intro get_cong) (auto intro!: put_outside)
  then show ?thesis using False by simp
qed

lemma get_byte_upd: "fits b \<Longrightarrow> x \<notin> hdr b \<Longrightarrow> get (m(x := c)) b g = get m b g"
  by (intro get_cong) auto

section \<open>Lists linked in both directions\<close>

definition head_at :: "u32 list \<Rightarrow> u32 \<Rightarrow> u32" where
  "head_at as n = (case as of [] \<Rightarrow> n | a # _ \<Rightarrow> a)"

definition last_at :: "u32 \<Rightarrow> u32 list \<Rightarrow> u32" where
  "last_at p as = (if as = [] then p else last as)"

lemma head_at_simps [simp]: "head_at [] n = n" "head_at (a # as) n = a"
  by (simp_all add: head_at_def)

lemma last_at_simps [simp]: "last_at p [] = p" "last_at p (a # as) = last_at a as" "last_at p (as @ [b]) = b"
  by (simp_all add: last_at_def)

lemma head_at_append [simp]: "head_at (as @ bs) n = head_at as (head_at bs n)"
  by (cases as) simp_all

lemma head_at_in: "as \<noteq> [] \<Longrightarrow> head_at as n \<in> set as"
  by (cases as) simp_all

lemma last_at_in: "as \<noteq> [] \<Longrightarrow> last_at p as \<in> set as"
  by (simp add: last_at_def)

primrec dll :: "mem \<Rightarrow> u32 \<Rightarrow> u32 list \<Rightarrow> u32 \<Rightarrow> bool" where
  "dll m p [] n \<longleftrightarrow> True"
| "dll m p (a # as) n \<longleftrightarrow> get m a Prev = p \<and> get m a Next = head_at as n \<and> dll m a as n"

lemma dll_append: "dll m p (as @ bs) n \<longleftrightarrow> dll m p as (head_at bs n) \<and> dll m (last_at p as) bs n"
  by (induction as arbitrary: p) auto

lemma dll_cong:
  "(\<And>a. a \<in> set as \<Longrightarrow> get m a Prev = get m' a Prev \<and> get m a Next = get m' a Next) \<Longrightarrow> dll m p as n \<longleftrightarrow> dll m' p as n"
  by (induction as arbitrary: p) auto

text \<open>The last structure gets another successor, the first one another predecessor.\<close>

lemma dll_new_next:
  assumes "dll m p as n" and "distinct as"
    and "\<And>a. a \<in> set as \<Longrightarrow> get m' a Prev = get m a Prev"
    and "\<And>a. a \<in> set as \<Longrightarrow> get m' a Next = (if a = last_at p as then n' else get m a Next)"
  shows "dll m' p as n'"
  using assms
proof (induction as arbitrary: p)
  case (Cons a as)
  show ?case
  proof (cases "as = []")
    case True
    then show ?thesis using Cons.prems by simp
  next
    case False
    then have "last_at a as \<in> set as" by (rule last_at_in)
    then have "a \<noteq> last_at a as" using Cons.prems(2) by auto
    moreover have "dll m' a as n'" using Cons.prems by (intro Cons.IH) auto
    ultimately show ?thesis using Cons.prems False by (cases as) auto
  qed
qed simp

lemma dll_new_prev:
  assumes "dll m p as n" and "distinct as"
    and "\<And>a. a \<in> set as \<Longrightarrow> get m' a Next = get m a Next"
    and "\<And>a. a \<in> set as \<Longrightarrow> get m' a Prev = (if a = head_at as n then p' else get m a Prev)"
  shows "dll m' p' as n"
proof (cases as)
  case (Cons a bs)
  have "dll m a bs n \<longleftrightarrow> dll m' a bs n"
    using assms(2-) Cons by (intro dll_cong) auto
  then show ?thesis using assms Cons by simp
qed simp

end
