(* ===== verification/Heap_Layout.thy ===== *)
theory Heap_Layout
  imports Heap_Memory
begin

text \<open>
  Where the structures of the heap lie: blocks of pages, each with a header and allocations in
  ascending order that do not overlap. All of it is arithmetic on addresses; the contents of memory are in
  \<open>Heap_Blocks\<close>.
\<close>

section \<open>Allocations of a block\<close>

datatype minor = Minor (mn_at: u32) (mn_size: u32) (mn_req: u32)

datatype major = Major (mj_at: u32) (mj_pages: u32) (mj_minors: "minor list")

definition minor_end :: "minor \<Rightarrow> nat" where
  "minor_end x = unat (mn_at x) + 24 + unat (mn_size x)"

primrec spaced :: "nat \<Rightarrow> minor list \<Rightarrow> nat \<Rightarrow> bool" where
  "spaced lo [] hi \<longleftrightarrow> lo \<le> hi"
| "spaced lo (x # xs) hi \<longleftrightarrow> lo \<le> unat (mn_at x) \<and> spaced (minor_end x) xs hi"

definition end_of :: "nat \<Rightarrow> minor list \<Rightarrow> nat" where
  "end_of lo xs = (if xs = [] then lo else minor_end (last xs))"

lemma end_of_simps [simp]: "end_of lo [] = lo" "end_of lo (x # xs) = end_of (minor_end x) xs" "end_of lo (xs @ [x]) = minor_end x"
  by (simp_all add: end_of_def)

lemma spaced_append: "spaced lo (xs @ ys) hi \<longleftrightarrow> spaced lo xs (end_of lo xs) \<and> spaced (end_of lo xs) ys hi"
  by (induction xs arbitrary: lo) auto

lemma spaced_le: "spaced lo xs hi \<Longrightarrow> lo \<le> hi"
  by (induction xs arbitrary: lo) (auto simp: minor_end_def, fastforce)

lemma spaced_iff: "spaced lo xs hi \<longleftrightarrow> spaced lo xs (end_of lo xs) \<and> end_of lo xs \<le> hi"
  using spaced_append [of lo xs "[]" hi] by simp

lemma spaced_in:
  assumes "spaced lo xs hi" and "x \<in> set xs"
  shows "lo \<le> unat (mn_at x)" and "minor_end x \<le> hi"
proof -
  obtain as bs where xs: "xs = as @ x # bs" using assms(2) by (auto simp: in_set_conv_decomp)
  show "lo \<le> unat (mn_at x)" "minor_end x \<le> hi"
    using assms(1) spaced_le [of lo as] spaced_le [of "minor_end x" bs hi] by (auto simp: xs spaced_append dest: spaced_le)
qed

lemma spaced_order:
  assumes "spaced lo (as @ x # bs) hi" and "y \<in> set bs"
  shows "minor_end x \<le> unat (mn_at y)"
  using assms spaced_in(1) [of "minor_end x" bs hi y] by (simp add: spaced_append)

lemma spaced_apart:
  assumes "spaced lo xs hi" and "x \<in> set xs" and "y \<in> set xs" and "x \<noteq> y"
  shows "minor_end x \<le> unat (mn_at y) \<or> minor_end y \<le> unat (mn_at x)"
proof -
  obtain as bs where xs: "xs = as @ x # bs" using assms(2) by (auto simp: in_set_conv_decomp)
  consider "y \<in> set bs" | "y \<in> set as" using assms(3,4) xs by auto
  then show ?thesis
  proof cases
    case 1
    then show ?thesis using spaced_order [of lo as x bs hi y] assms(1) xs by simp
  next
    case 2
    then obtain cs ds where "as = cs @ y # ds" by (auto simp: in_set_conv_decomp)
    then have "xs = cs @ y # (ds @ x # bs)" by (simp add: xs)
    then show ?thesis using spaced_order [of lo cs y "ds @ x # bs" hi x] assms(1) by simp
  qed
qed

lemma spaced_distinct: "spaced lo xs hi \<Longrightarrow> distinct (map mn_at xs)"
proof (induction xs arbitrary: lo)
  case (Cons x xs)
  have "mn_at x \<noteq> mn_at y" if "y \<in> set xs" for y
    using spaced_order [of lo "[]" x xs hi y] Cons.prems that by (auto simp: minor_end_def)
  then show ?case using Cons by auto
qed simp

lemma spaced_insert:
  assumes "spaced lo (xs @ ys) hi" and "end_of lo xs \<le> unat (mn_at x)" and "minor_end x \<le> (if ys = [] then hi else unat (mn_at (hd ys)))"
  shows "spaced lo (xs @ x # ys) hi"
  using assms spaced_iff [of lo xs hi] by (cases ys) (auto simp: spaced_append)

lemma spaced_remove: "spaced lo (xs @ x # ys) hi \<Longrightarrow> spaced lo (xs @ ys) hi"
  using spaced_iff [of lo xs hi] by (cases ys) (auto simp: spaced_append minor_end_def dest: spaced_le)

definition space_used :: "minor list \<Rightarrow> nat" where
  "space_used xs = (\<Sum>x\<leftarrow>xs. unat (mn_size x) + 24)"

definition usage_of :: "minor list \<Rightarrow> u32" where
  "usage_of xs = 24 + (\<Sum>x\<leftarrow>xs. mn_size x + 24)"

lemma spaced_space: "spaced lo xs hi \<Longrightarrow> lo + space_used xs \<le> hi"
proof (induction xs arbitrary: lo)
  case (Cons x xs)
  then have "lo \<le> unat (mn_at x)" "minor_end x + space_used xs \<le> hi" using Cons.IH [of "minor_end x"] by auto
  then show ?case by (simp add: space_used_def minor_end_def)
qed (simp add: space_used_def)

lemma usage_of_space: "usage_of xs = of_nat (24 + space_used xs)"
  by (induction xs) (simp_all add: usage_of_def space_used_def)

section \<open>Blocks\<close>

definition major_end :: "major \<Rightarrow> nat" where
  "major_end M = unat (mj_at M) + unat (mj_pages M) * 4096"

definition major_geo :: "major \<Rightarrow> bool" where
  "major_geo M \<longleftrightarrow> mj_at M \<noteq> 0 \<and> unat (mj_at M) mod 4096 = 0 \<and> mj_pages M \<noteq> 0 \<and> major_end M \<le> 2 ^ 32
     \<and> spaced (unat (mj_at M) + 24) (mj_minors M) (major_end M)"

definition major_area :: "major \<Rightarrow> u32 set" where
  "major_area M = bytes_at (mj_at M) (unat (mj_pages M) * 4096)"

definition minor_area :: "minor \<Rightarrow> u32 set" where
  "minor_area x = bytes_at (mn_at x) (24 + unat (mn_size x))"

definition layout :: "major list \<Rightarrow> bool" where
  "layout Ms \<longleftrightarrow> (\<forall>M \<in> set Ms. major_geo M) \<and> distinct (map mj_at Ms)
     \<and> (\<forall>M \<in> set Ms. \<forall>N \<in> set Ms. mj_at M \<noteq> mj_at N \<longrightarrow> major_area M \<inter> major_area N = {})"

definition headers :: "major list \<Rightarrow> u32 set" where
  "headers Ms = (\<Union>M \<in> set Ms. insert (mj_at M) (mn_at ` set (mj_minors M)))"

definition minors_of :: "major list \<Rightarrow> minor list" where
  "minors_of Ms = concat (map mj_minors Ms)"

lemma headers_simps [simp]:
  "headers [] = {}"
  "headers (M # Ms) = insert (mj_at M) (mn_at ` set (mj_minors M)) \<union> headers Ms"
  "headers (Ms @ Ns) = headers Ms \<union> headers Ns"
  by (auto simp: headers_def)

lemma minors_of_simps [simp]:
  "minors_of [] = []" "minors_of (M # Ms) = mj_minors M @ minors_of Ms" "minors_of (Ms @ Ns) = minors_of Ms @ minors_of Ns"
  by (simp_all add: minors_of_def)

lemma bytes_at_disjoint: "unat a + n \<le> unat b \<or> unat b + k \<le> unat a \<Longrightarrow> bytes_at a n \<inter> bytes_at b k = {}"
  by (auto simp: bytes_at_def)

lemma bytes_at_mono: "unat a \<le> unat b \<Longrightarrow> unat b + k \<le> unat a + n \<Longrightarrow> bytes_at b k \<subseteq> bytes_at a n"
  by (auto simp: bytes_at_def)

lemma major_geo_hdr:
  assumes "major_geo M"
  shows "fits (mj_at M)" and "hdr (mj_at M) \<subseteq> major_area M"
proof -
  have "unat (mj_pages M) \<noteq> 0" using assms by (auto simp: major_geo_def unat_eq_0)
  then have "4096 \<le> unat (mj_pages M) * 4096" by simp
  then show "fits (mj_at M)" "hdr (mj_at M) \<subseteq> major_area M"
    using assms by (simp_all add: major_geo_def major_end_def fits_def hdr_def major_area_def bytes_at_mono)
qed

lemma major_geo_minor:
  assumes "major_geo M" and "x \<in> set (mj_minors M)"
  shows "fits (mn_at x)" and "hdr (mn_at x) \<subseteq> minor_area x" and "minor_area x \<subseteq> major_area M"
    and "hdr (mj_at M) \<inter> minor_area x = {}" and "minor_end x \<le> 2 ^ 32" and "mn_at x \<noteq> 0"
proof -
  note g = spaced_in [of "unat (mj_at M) + 24" "mj_minors M" "major_end M" x]
  have lo: "unat (mj_at M) + 24 \<le> unat (mn_at x)" and hi: "minor_end x \<le> major_end M" and e: "major_end M \<le> 2 ^ 32"
    using assms g by (auto simp: major_geo_def)
  show "fits (mn_at x)" using hi e by (simp add: fits_def minor_end_def)
  show "hdr (mn_at x) \<subseteq> minor_area x" unfolding hdr_def minor_area_def by (rule bytes_at_mono) simp_all
  show "minor_area x \<subseteq> major_area M"
    unfolding major_area_def minor_area_def using lo hi by (intro bytes_at_mono) (simp_all add: minor_end_def major_end_def)
  show "hdr (mj_at M) \<inter> minor_area x = {}" unfolding hdr_def minor_area_def using lo by (intro bytes_at_disjoint) simp
  show "minor_end x \<le> 2 ^ 32" using hi e by simp
  show "mn_at x \<noteq> 0" using lo by (metis add_is_0 le_0_eq unat_0 zero_neq_numeral)
qed

lemma minor_area_apart:
  assumes "spaced lo xs hi" and "x \<in> set xs" and "y \<in> set xs" and "x \<noteq> y"
  shows "minor_area x \<inter> minor_area y = {}"
  using spaced_apart [OF assms] unfolding minor_area_def minor_end_def by (intro bytes_at_disjoint) auto

text \<open>All regions of a layout are apart.\<close>

lemma layout_regions:
  assumes "layout Ms" and "M \<in> set Ms" and "N \<in> set Ms"
  shows "x \<in> set (mj_minors M) \<Longrightarrow> y \<in> set (mj_minors N) \<Longrightarrow> M \<noteq> N \<or> x \<noteq> y \<Longrightarrow> minor_area x \<inter> minor_area y = {}"
    and "x \<in> set (mj_minors M) \<Longrightarrow> hdr (mj_at N) \<inter> minor_area x = {}"
    and "M \<noteq> N \<Longrightarrow> major_area M \<inter> major_area N = {}"
proof -
  have g: "major_geo M" "major_geo N" using assms by (auto simp: layout_def)
  have d: "major_area M \<inter> major_area N = {}" if "M \<noteq> N"
    using assms that unfolding layout_def by (metis distinct_map inj_onD)
  show "M \<noteq> N \<Longrightarrow> major_area M \<inter> major_area N = {}" by (rule d)
  show "minor_area x \<inter> minor_area y = {}" if x: "x \<in> set (mj_minors M)" and y: "y \<in> set (mj_minors N)" and ne: "M \<noteq> N \<or> x \<noteq> y"
  proof (cases "M = N")
    case True
    then show ?thesis using g x y ne minor_area_apart unfolding major_geo_def by blast
  next
    case False
    then show ?thesis using d major_geo_minor(3) [OF g(1) x] major_geo_minor(3) [OF g(2) y] by blast
  qed
  show "hdr (mj_at N) \<inter> minor_area x = {}" if x: "x \<in> set (mj_minors M)"
  proof (cases "M = N")
    case True
    then show ?thesis using major_geo_minor(4) [OF g(1) x] by simp
  next
    case False
    then show ?thesis using d major_geo_minor(3) [OF g(1) x] major_geo_hdr(2) [OF g(2)] by blast
  qed
qed

lemma layout_separated:
  assumes "layout Ms"
  shows "separated (headers Ms)"
  unfolding separated_def
proof (intro conjI ballI impI)
  have g: "major_geo M" if "M \<in> set Ms" for M using assms that by (simp add: layout_def)
  show "fits a" if "a \<in> headers Ms" for a
    using that g major_geo_hdr(1) major_geo_minor(1) by (auto simp: headers_def)
  fix a b assume a: "a \<in> headers Ms" and b: "b \<in> headers Ms" and ne: "a \<noteq> b"
  obtain M N where M: "M \<in> set Ms" "a = mj_at M \<or> a \<in> mn_at ` set (mj_minors M)"
    and N: "N \<in> set Ms" "b = mj_at N \<or> b \<in> mn_at ` set (mj_minors N)" using a b by (auto simp: headers_def)
  show "apart a b"
  proof (cases "a = mj_at M"; cases "b = mj_at N")
    assume "a = mj_at M" "b = mj_at N"
    then show ?thesis using ne layout_regions(3) [OF assms M(1) N(1)] major_geo_hdr(2) [OF g] M(1) N(1)
      unfolding apart_def by blast
  next
    assume "a = mj_at M" "b \<noteq> mj_at N"
    then show ?thesis using N layout_regions(2) [OF assms N(1) M(1)] major_geo_minor(2) [OF g [OF N(1)]]
      unfolding apart_def by blast
  next
    assume "a \<noteq> mj_at M" "b = mj_at N"
    then show ?thesis using M layout_regions(2) [OF assms M(1) N(1)] major_geo_minor(2) [OF g [OF M(1)]]
      unfolding apart_def by blast
  next
    assume "a \<noteq> mj_at M" "b \<noteq> mj_at N"
    then obtain x y where "x \<in> set (mj_minors M)" "a = mn_at x" "y \<in> set (mj_minors N)" "b = mn_at y" using M N by auto
    then show ?thesis
      using ne layout_regions(1) [OF assms M(1) N(1)] major_geo_minor(2) [OF g [OF M(1)]] major_geo_minor(2) [OF g [OF N(1)]]
      unfolding apart_def by blast
  qed
qed

lemma zero_not_header: "layout Ms \<Longrightarrow> 0 \<notin> headers Ms"
  using major_geo_minor(6) by (fastforce simp: layout_def major_geo_def headers_def)

end
