(* ===== verification/Heap_Blocks.thy ===== *)
theory Heap_Blocks
  imports Heap_Layout
begin

text \<open>
  What memory holds for a layout of the heap, and how that changes when an allocation is linked in or out and
  when a block of pages comes or goes.
\<close>

section \<open>The address handed to the user\<close>

definition user_ptr :: "u32 \<Rightarrow> u32" where
  "user_ptr b = (let p = b + 24 + 16; d = p AND 15 in if d \<noteq> 0 then p + (16 - d) else p)"

definition tag_at :: "u32 \<Rightarrow> u32" where
  "tag_at b = user_ptr b - 16"

definition tag :: "u32 \<Rightarrow> u8" where
  "tag b = ucast (user_ptr b - (b + 24))"

lemma ALIGN_user_ptr: "ALIGN (b + 24) m = (user_ptr b, m(tag_at b := tag b))"
  by (simp add: ALIGN_def ALIGN_INFO_def ALIGNMENT_def user_ptr_def tag_at_def tag_def Let_def)

lemma and_15: "unat (p AND 15 :: u32) = unat p mod 16"
proof -
  have "p AND 15 = take_bit 4 p" by (simp add: take_bit_eq_mask mask_eq_exp_minus_1)
  then show ?thesis by (simp add: take_bit_eq_mod unat_mod)
qed

lemma user_ptr_bounds:
  assumes "unat b + 56 \<le> 2 ^ 32"
  obtains k where "16 \<le> k" "k \<le> 31" "unat (user_ptr b) = unat b + 24 + k" "unat (user_ptr b) mod 16 = 0"
    "user_ptr b - (b + 24) = of_nat k"
proof -
  have p: "unat (b + 24 + 16) = unat b + 40"
    using assms by (simp add: unat_plus_no_wrap)
  let ?d = "(b + 24 + 16) AND 15 :: u32"
  have d: "unat ?d = (unat b + 40) mod 16" using and_15 [of "b + 24 + 16"] p by simp
  show ?thesis
  proof (cases "?d = 0")
    case True
    then have u: "user_ptr b = b + 24 + 16" by (simp add: user_ptr_def Let_def)
    moreover have "(unat b + 40) mod 16 = 0" using d True by simp
    ultimately show ?thesis using that [of 16] p by (simp add: add.commute)
  next
    case False
    define e q where "e = (unat b + 40) mod 16" and "q = (unat b + 40) div 16"
    have eq: "unat b + 40 = q * 16 + e" by (simp add: e_def q_def)
    have u: "user_ptr b = b + 24 + 16 + (16 - ?d)" using False by (simp add: user_ptr_def Let_def)
    have "unat ?d \<noteq> 0" using False unat_eq_0 [of ?d] by blast
    then have lt: "0 < e" "e < 16" unfolding d e_def by simp_all
    have m: "unat (16 - ?d) = 16 - e" using d lt by (subst unat_sub) (simp_all add: word_le_nat_alt e_def)
    then have w: "16 - ?d = of_nat (16 - e)" by (metis of_nat_unat ucast_id)
    have "unat (user_ptr b) = unat b + 40 + (16 - e)"
      unfolding u using assms lt by (subst unat_plus_no_wrap) (simp_all only: p m, simp)
    then have n: "unat (user_ptr b) = (q + 1) * 16" "unat (user_ptr b) = unat b + 24 + (32 - e)" using eq lt by simp_all
    have "(of_nat (32 - e) :: u32) = 32 - of_nat e" "(of_nat (16 - e) :: u32) = 16 - of_nat e" using lt by (simp_all add: of_nat_diff)
    then have "user_ptr b - (b + 24) = of_nat (32 - e)" unfolding u w by simp
    moreover have "unat (user_ptr b) mod 16 = 0" unfolding n(1) by (rule mod_mult_self2_is_0)
    ultimately show ?thesis using that [of "32 - e"] lt n(2) by simp
  qed
qed

lemma tag_facts:
  assumes "unat b + 56 \<le> 2 ^ 32"
  shows "unat b + 24 \<le> unat (tag_at b)" and "unat (tag_at b) < unat b + 40" and "tag_at b \<in> bytes_at b (24 + n) \<longleftrightarrow> 16 \<le> n \<or> unat (tag_at b) < unat b + 24 + n"
    and "m (tag_at b) = tag b \<Longrightarrow> UNALIGN m (user_ptr b) = b + 24"
proof -
  obtain k where k: "16 \<le> k" "k \<le> 31" "unat (user_ptr b) = unat b + 24 + k" "unat (user_ptr b) mod 16 = 0" "user_ptr b - (b + 24) = of_nat k"
    using user_ptr_bounds [OF assms] by blast
  have t: "unat (tag_at b) = unat b + 24 + (k - 16)"
    using k(1,3) unfolding tag_at_def by (subst unat_sub) (simp_all add: word_le_nat_alt)
  then show "unat b + 24 \<le> unat (tag_at b)" "unat (tag_at b) < unat b + 40"
    and "tag_at b \<in> bytes_at b (24 + n) \<longleftrightarrow> 16 \<le> n \<or> unat (tag_at b) < unat b + 24 + n"
    using k(1,2) by (auto simp: bytes_at_def)
  assume m: "m (tag_at b) = tag b"
  have tag: "tag b = of_nat k" using k(2,5) by (simp add: tag_def unsigned_of_nat ucast_eq take_bit_nat_eq_self)
  have sk: "sint (of_nat k :: u8) = int k" using k(2) by (simp add: sint_uint unsigned_of_nat signed_take_bit_int_eq_self take_bit_nat_eq_self)
  have s: "(scast (m (tag_at b)) :: u32) = of_nat k" unfolding m tag using sk by (metis of_int_of_nat_eq of_int_sint)
  have "(of_nat k :: u32) < 32" using k(2) by (simp add: word_less_nat_alt unsigned_of_nat take_bit_nat_eq_self)
  then have "UNALIGN m (user_ptr b) = user_ptr b - of_nat k"
    using s by (simp add: UNALIGN_def ALIGN_INFO_def ALIGNMENT_def tag_at_def Let_def)
  then show "UNALIGN m (user_ptr b) = b + 24" using k(5) by (metis add.commute diff_add_cancel diff_diff_eq2 add_diff_cancel_right')
qed

section \<open>Contents\<close>

definition minor_mem :: "mem \<Rightarrow> u32 \<Rightarrow> minor \<Rightarrow> bool" where
  "minor_mem m a x \<longleftrightarrow> get m (mn_at x) Block = a \<and> get m (mn_at x) Magic = LIBALLOC_MAGIC
     \<and> get m (mn_at x) Min_Size = mn_size x \<and> get m (mn_at x) Req_Size = mn_req x
     \<and> m (tag_at (mn_at x)) = tag (mn_at x) \<and> unat (mn_req x) + 32 \<le> unat (mn_size x)"

definition major_mem :: "mem \<Rightarrow> major \<Rightarrow> bool" where
  "major_mem m M \<longleftrightarrow> get m (mj_at M) Pages = mj_pages M \<and> get m (mj_at M) Size = mj_pages M * 4096
     \<and> get m (mj_at M) Usage = usage_of (mj_minors M) \<and> get m (mj_at M) First = head_at (map mn_at (mj_minors M)) 0
     \<and> dll m 0 (map mn_at (mj_minors M)) 0 \<and> (\<forall>x \<in> set (mj_minors M). minor_mem m (mj_at M) x)"

definition content :: "mem \<Rightarrow> major list \<Rightarrow> bool" where
  "content m Ms \<longleftrightarrow> dll m 0 (map mj_at Ms) 0 \<and> (\<forall>M \<in> set Ms. major_mem m M)"

definition heap_ok :: "'p heap \<Rightarrow> major list \<Rightarrow> bool" where
  "heap_ok s Ms \<longleftrightarrow> layout Ms \<and> content (hmem s) Ms \<and> l_memRoot s = head_at (map mj_at Ms) 0
     \<and> (l_bestBet s = 0 \<or> l_bestBet s \<in> mj_at ` set Ms)
     \<and> l_allocated s = (\<Sum>M\<leftarrow>Ms. ucast (mj_pages M * 4096)) \<and> l_inuse s = (\<Sum>x\<leftarrow>minors_of Ms. ucast (mn_size x))"

text \<open>An allocation can hold its tag.\<close>

definition roomy :: "minor \<Rightarrow> bool" where
  "roomy x \<longleftrightarrow> unat (mn_req x) + 32 \<le> unat (mn_size x) \<and> minor_end x \<le> 2 ^ 32"

lemma roomy_tag:
  assumes "roomy x"
  shows "tag_at (mn_at x) \<in> minor_area x" and "tag_at (mn_at x) \<notin> hdr (mn_at x)" and "unat (mn_at x) + 56 \<le> 2 ^ 32"
proof -
  show b: "unat (mn_at x) + 56 \<le> 2 ^ 32" using assms by (simp add: roomy_def minor_end_def)
  show "tag_at (mn_at x) \<in> minor_area x" "tag_at (mn_at x) \<notin> hdr (mn_at x)"
    using tag_facts(1-3) [OF b] assms by (auto simp: minor_area_def roomy_def hdr_def bytes_at_def)
qed

lemma content_roomy: "layout Ms \<Longrightarrow> content m Ms \<Longrightarrow> M \<in> set Ms \<Longrightarrow> x \<in> set (mj_minors M) \<Longrightarrow> roomy x"
  using major_geo_minor(5) by (auto simp: layout_def content_def major_mem_def minor_mem_def roomy_def)

lemma major_mem_cong:
  assumes "\<And>c f. c = mj_at M \<or> c \<in> mn_at ` set (mj_minors M) \<Longrightarrow> f \<notin> skip c \<Longrightarrow> get m' c f = get m c f"
    and "\<And>x. x \<in> set (mj_minors M) \<Longrightarrow> m' (tag_at (mn_at x)) = m (tag_at (mn_at x))"
    and "\<And>c. c = mj_at M \<Longrightarrow> skip c \<subseteq> {Prev, Next}" and "\<And>c. c \<in> mn_at ` set (mj_minors M) \<Longrightarrow> skip c = {}"
  shows "major_mem m M \<Longrightarrow> major_mem m' M"
proof -
  assume M: "major_mem m M"
  have mj: "get m' (mj_at M) f = get m (mj_at M) f" if "f \<notin> {Prev, Next}" for f using assms(1,3) that by blast
  have mn: "get m' (mn_at x) f = get m (mn_at x) f" if "x \<in> set (mj_minors M)" for x f using assms(1,4) that by auto
  have "dll m' 0 (map mn_at (mj_minors M)) 0 \<longleftrightarrow> dll m 0 (map mn_at (mj_minors M)) 0" by (rule dll_cong) (use mn in auto)
  then show "major_mem m' M" using M mj mn assms(2) by (auto simp: major_mem_def minor_mem_def)
qed

end
