(* ===== verification/Heap_Linking.thy ===== *)
theory Heap_Linking
  imports Heap_Blocks
begin

text \<open>How the contents of memory follow the layout when allocations are linked in and out.\<close>

section \<open>Addresses of a layout\<close>

lemma mn_at_area: "mn_at x \<in> minor_area x"
  by (simp add: minor_area_def bytes_at_def)

lemma at_hdr: "a \<in> hdr a"
  by (simp add: hdr_def bytes_at_def)

lemma minor_header_inj:
  assumes "layout Ms" and "M \<in> set Ms" and "N \<in> set Ms" and "x \<in> set (mj_minors M)" and "y \<in> set (mj_minors N)" and "mn_at x = mn_at y"
  shows "M = N \<and> x = y"
proof (rule ccontr)
  assume "\<not> (M = N \<and> x = y)"
  then have "minor_area x \<inter> minor_area y = {}" using layout_regions(1) [OF assms(1-5)] by blast
  then show False using mn_at_area [of x] mn_at_area [of y] assms(6) by auto
qed

lemma major_ne_minor:
  assumes "layout Ms" and "M \<in> set Ms" and "N \<in> set Ms" and "x \<in> set (mj_minors M)"
  shows "mj_at N \<noteq> mn_at x"
  using layout_regions(2) [OF assms(1,2,3,4)] mn_at_area [of x] at_hdr [of "mj_at N"] by auto

lemma major_inj: "layout Ms \<Longrightarrow> M \<in> set Ms \<Longrightarrow> N \<in> set Ms \<Longrightarrow> mj_at M = mj_at N \<Longrightarrow> M = N"
  by (auto simp: layout_def distinct_map dest: inj_onD)

lemma layout_distinct: "layout Ms \<Longrightarrow> M \<in> set Ms \<Longrightarrow> distinct (map mn_at (mj_minors M))"
  using spaced_distinct unfolding layout_def major_geo_def by blast

lemma tag_not_header:
  assumes "layout Ms" and "M \<in> set Ms" and "x \<in> set (mj_minors M)" and "roomy x" and "c \<in> headers Ms"
  shows "tag_at (mn_at x) \<notin> hdr c"
proof -
  obtain N where N: "N \<in> set Ms" "c = mj_at N \<or> c \<in> mn_at ` set (mj_minors N)" using assms(5) by (auto simp: headers_def)
  from N(2) show ?thesis
  proof
    assume "c = mj_at N"
    then show ?thesis using layout_regions(2) [OF assms(1,2) N(1) assms(3)] roomy_tag(1) [OF assms(4)] by blast
  next
    assume "c \<in> mn_at ` set (mj_minors N)"
    then obtain y where y: "y \<in> set (mj_minors N)" "c = mn_at y" by blast
    have "major_geo N" using assms(1) N(1) by (simp add: layout_def)
    then have sub: "hdr c \<subseteq> minor_area y" using major_geo_minor(2) y by blast
    show ?thesis
    proof (cases "M = N \<and> x = y")
      case True
      then show ?thesis using roomy_tag(2) [OF assms(4)] y by simp
    next
      case False
      then show ?thesis using layout_regions(1) [OF assms(1,2) N(1) assms(3) y(1)] sub roomy_tag(1) [OF assms(4)] by blast
    qed
  qed
qed

lemma layout_resize:
  assumes "layout (A @ Major a pg xs # B)" and "major_geo (Major a pg ys)"
  shows "layout (A @ Major a pg ys # B)"
proof -
  have "major_area (Major a pg ys) = major_area (Major a pg xs)" by (simp add: major_area_def)
  then show ?thesis using assms unfolding layout_def by auto
qed

lemma layout_remove:
  assumes "layout (A @ Major a pg (xs @ x # ys) # B)"
  shows "layout (A @ Major a pg (xs @ ys) # B)"
proof (rule layout_resize [OF assms])
  have "major_geo (Major a pg (xs @ x # ys))" using assms by (simp add: layout_def)
  then show "major_geo (Major a pg (xs @ ys))" using spaced_remove by (auto simp: major_geo_def major_end_def)
qed

lemma usage_insert: "usage_of (xs @ x # ys) = usage_of (xs @ ys) + (mn_size x + 24)"
  by (simp add: usage_of_def)

lemma header_other_major:
  assumes "layout L" and "M \<in> set L" and "N \<in> set L" and "N \<noteq> M" and "c = mj_at N \<or> c \<in> mn_at ` set (mj_minors N)"
  shows "c \<notin> insert (mj_at M) (mn_at ` set (mj_minors M))" and "c \<in> headers L" and "c \<noteq> 0"
proof -
  have "c \<noteq> mj_at M" using assms(4,5) major_inj [OF assms(1,3,2)] major_ne_minor [OF assms(1,3,2)] by (metis imageE)
  moreover have "c \<noteq> mn_at y" if "y \<in> set (mj_minors M)" for y
    using assms(4,5) minor_header_inj [OF assms(1,3,2) _ that] major_ne_minor [OF assms(1,2,3) that] by (metis imageE)
  ultimately show "c \<notin> insert (mj_at M) (mn_at ` set (mj_minors M))" by auto
  show "c \<in> headers L" using assms(3,5) by (auto simp: headers_def)
  then show "c \<noteq> 0" using zero_not_header [OF assms(1)] by auto
qed

text \<open>Work inside one block leaves the others alone.\<close>

lemma other_major_mem:
  assumes L: "layout L" and M: "M \<in> set L" and N: "N \<in> set L" "N \<noteq> M" and mem: "major_mem m N" and ro: "\<forall>y \<in> set (mj_minors N). roomy y"
    and gets: "\<And>c f. c \<in> headers L \<Longrightarrow> c \<notin> insert (mj_at M) (mn_at ` set (mj_minors M)) \<Longrightarrow> get m' c f = get m c f"
    and bytes: "\<And>y. y \<notin> \<Union> (hdr ` headers L) \<Longrightarrow> y \<notin> (\<Union>x \<in> set (mj_minors M). minor_area x) \<Longrightarrow> m' y = m y"
  shows "major_mem m' N"
proof (rule major_mem_cong [where skip = "\<lambda>_. {}", OF _ _ _ _ mem])
  fix c f assume c: "c = mj_at N \<or> c \<in> mn_at ` set (mj_minors N)"
  show "get m' c f = get m c f" using gets header_other_major [OF L M N c] by blast
next
  fix y assume y: "y \<in> set (mj_minors N)"
  show "m' (tag_at (mn_at y)) = m (tag_at (mn_at y))"
  proof (rule bytes)
    show "tag_at (mn_at y) \<notin> \<Union> (hdr ` headers L)" using tag_not_header [OF L N(1) y] ro y by blast
    have "minor_area y \<inter> minor_area x = {}" if "x \<in> set (mj_minors M)" for x
      using layout_regions(1) [OF L N(1) M y that] N(2) by simp
    then show "tag_at (mn_at y) \<notin> (\<Union>x \<in> set (mj_minors M). minor_area x)" using roomy_tag(1) ro y by blast
  qed
qed simp_all

section \<open>Linking in\<close>

definition linked_in :: "mem \<Rightarrow> mem \<Rightarrow> u32 set \<Rightarrow> u32 \<Rightarrow> u32 \<Rightarrow> u32 \<Rightarrow> minor \<Rightarrow> bool" where
  "linked_in m m' H a p n x \<longleftrightarrow>
     (\<forall>f. get m' (mn_at x) f = (case f of Prev \<Rightarrow> p | Next \<Rightarrow> n | Third \<Rightarrow> a | Fourth \<Rightarrow> LIBALLOC_MAGIC
        | Fifth \<Rightarrow> mn_size x | Sixth \<Rightarrow> mn_req x))
     \<and> (\<forall>c \<in> H. \<forall>f. get m' c f = (if c = a \<and> f = Usage then get m a Usage + (mn_size x + 24)
          else if c = a \<and> f = First \<and> p = 0 then mn_at x
          else if c = p \<and> f = Next \<or> c = n \<and> f = Prev then mn_at x else get m c f))
     \<and> (\<forall>y. y \<notin> \<Union> (hdr ` H) \<longrightarrow> y \<notin> minor_area x \<longrightarrow> m' y = m y) \<and> m' (tag_at (mn_at x)) = tag (mn_at x)"

lemma linked_inD:
  assumes "linked_in m m' H a p n x"
  shows "get m' (mn_at x) Prev = p" "get m' (mn_at x) Next = n" "get m' (mn_at x) Block = a" "get m' (mn_at x) Magic = LIBALLOC_MAGIC"
    "get m' (mn_at x) Min_Size = mn_size x" "get m' (mn_at x) Req_Size = mn_req x"
    and "c \<in> H \<Longrightarrow> get m' c f = (if c = a \<and> f = Usage then get m a Usage + (mn_size x + 24)
          else if c = a \<and> f = First \<and> p = 0 then mn_at x
          else if c = p \<and> f = Next \<or> c = n \<and> f = Prev then mn_at x else get m c f)"
    and "y \<notin> \<Union> (hdr ` H) \<Longrightarrow> y \<notin> minor_area x \<Longrightarrow> m' y = m y" and "m' (tag_at (mn_at x)) = tag (mn_at x)"
  using assms by (auto simp: linked_in_def)

lemma new_header:
  assumes layout: "layout (A @ Major a pg (xs @ x # ys) # B)" (is "layout ?New")
  shows "mn_at x \<notin> headers (A @ Major a pg (xs @ ys) # B)"
proof
  let ?M = "Major a pg (xs @ x # ys)"
  have M: "?M \<in> set ?New" by simp
  assume "mn_at x \<in> headers (A @ Major a pg (xs @ ys) # B)"
  then consider N where "N \<in> set A \<union> set B" "mn_at x = mj_at N \<or> mn_at x \<in> mn_at ` set (mj_minors N)"
    | "mn_at x = a" | "mn_at x \<in> mn_at ` set (xs @ ys)" by (auto simp: headers_def)
  then show False
  proof cases
    case (1 N)
    then have N: "N \<in> set ?New" by auto
    have "mj_at N \<noteq> a" using 1(1) layout by (auto simp: layout_def)
    then have "N \<noteq> ?M" by auto
    then show False using 1(2) major_ne_minor [OF layout M N, of x] minor_header_inj [OF layout M N, of x] by auto
  next
    case 2
    then show False using major_ne_minor [OF layout M M, of x] by simp
  next
    case 3
    then show False using layout_distinct [OF layout M] by auto
  qed
qed

lemma insert_content:
  fixes A B :: "major list" and a pg :: u32 and xs ys :: "minor list" and x :: minor
  defines "Old \<equiv> A @ Major a pg (xs @ ys) # B" and "New \<equiv> A @ Major a pg (xs @ x # ys) # B"
    and "p \<equiv> last_at 0 (map mn_at xs)" and "n \<equiv> head_at (map mn_at ys) 0"
  assumes old: "content m Old" and layout: "layout New" and x: "roomy x" and eff: "linked_in m m' (headers Old) a p n x"
  shows "content m' New"
proof -
  let ?M = "Major a pg (xs @ x # ys)"
  have lo: "layout Old" using layout unfolding Old_def New_def by (rule layout_remove)
  have M: "?M \<in> set New" "Major a pg (xs @ ys) \<in> set Old" by (simp_all add: New_def Old_def)
  have z: "0 \<notin> headers New" using layout by (rule zero_not_header)
  have pn: "p = 0 \<or> p \<in> mn_at ` set (mj_minors ?M)" "n = 0 \<or> n \<in> mn_at ` set (mj_minors ?M)"
    using last_at_in [of "map mn_at xs" 0] head_at_in [of "map mn_at ys" 0] by (cases "xs = []"; cases "ys = []"; auto simp: p_def n_def)+
  have maj: "c \<noteq> p \<and> c \<noteq> n" if "N \<in> set New" "c = mj_at N" for N c
    using that pn z major_ne_minor [OF layout M(1) that(1)] by (auto simp: headers_def)
  have hold: "c \<in> headers Old" if "c \<in> headers New" "c \<noteq> mn_at x" for c using that by (auto simp: Old_def New_def)
  have xne: "mn_at x \<notin> headers Old" using layout unfolding Old_def New_def by (rule new_header)
  have tags: "m' (tag_at (mn_at y)) = m (tag_at (mn_at y))" if N: "N \<in> set New" "y \<in> set (mj_minors N)" "y \<noteq> x" "roomy y" for N y
  proof (rule linked_inD(8) [OF eff])
    have "headers Old \<subseteq> headers New" by (auto simp: Old_def New_def)
    then show "tag_at (mn_at y) \<notin> \<Union> (hdr ` headers Old)" using tag_not_header [OF layout N(1,2,4)] by blast
    have "minor_area y \<inter> minor_area x = {}" using layout_regions(1) [OF layout N(1) M(1) N(2), of x] N(3) by simp
    then show "tag_at (mn_at y) \<notin> minor_area x" using roomy_tag(1) [OF N(4)] by blast
  qed
  have rest: "major_mem m' N" if N: "N \<in> set New" "N \<noteq> ?M" for N
  proof (rule other_major_mem [OF layout M(1) N])
    have NO: "N \<in> set Old" using N by (auto simp: Old_def New_def)
    show "major_mem m N" "\<forall>y \<in> set (mj_minors N). roomy y" using old NO content_roomy [OF lo old NO] by (auto simp: content_def)
    show "get m' c f = get m c f" if "c \<in> headers New" "c \<notin> insert (mj_at ?M) (mn_at ` set (mj_minors ?M))" for c f
    proof -
      have "c \<noteq> 0" "c \<in> headers Old" "c \<noteq> a" using z that hold [of c] by auto
      then show ?thesis using linked_inD(7) [OF eff] pn that(2) by auto
    qed
    have "headers Old \<subseteq> headers New" by (auto simp: Old_def New_def)
    then show "m' y = m y" if "y \<notin> \<Union> (hdr ` headers New)" "y \<notin> (\<Union>x \<in> set (mj_minors ?M). minor_area x)" for y
      using that by (intro linked_inD(8) [OF eff]) auto
  qed
  have oldM: "major_mem m (Major a pg (xs @ ys))" using old M(2) by (auto simp: content_def)
  have ha: "a \<in> headers Old" by (simp add: Old_def)
  have hm: "mn_at y \<in> headers Old" "mn_at y \<noteq> a" if "y \<in> set (xs @ ys)" for y
    using that major_ne_minor [OF lo M(2) M(2), of y] by (auto simp: Old_def)
  have "p \<in> headers New" if "xs \<noteq> []" using that last_at_in [of "map mn_at xs" 0] by (auto simp: p_def New_def)
  then have p0: "p = 0 \<longleftrightarrow> xs = []" using z by (cases "xs = []") (auto simp: p_def)
  have a: "a \<noteq> p" "a \<noteq> n" using maj [OF M(1), of a] by simp_all
  have di: "distinct (map mn_at (xs @ ys))" using layout_distinct [OF lo M(2)] by simp
  have mem: "minor_mem m' a y" if "y \<in> set (xs @ ys)" for y
  proof -
    have "minor_mem m a y" "roomy y" using oldM that content_roomy [OF lo old M(2), of y] by (auto simp: major_mem_def)
    moreover have "y \<noteq> x" using xne hm(1) [OF that] by auto
    ultimately show ?thesis
      using that hm [OF that] linked_inD(7) [OF eff hm(1) [OF that]] tags [OF M(1), of y] by (auto simp: minor_mem_def)
  qed
  have memx: "minor_mem m' a x" using linked_inD(3-6,9) [OF eff] x by (simp add: minor_mem_def roomy_def)
  have seg: "dll m 0 (map mn_at xs) n" "dll m p (map mn_at ys) 0"
    using oldM by (simp_all add: major_mem_def dll_append n_def p_def)
  have ypn: "n \<notin> mn_at ` set xs" "p \<notin> mn_at ` set ys" "mn_at x \<noteq> p" "mn_at x \<noteq> n"
    using di xne hm(1) z head_at_in [of "map mn_at ys" 0] last_at_in [of "map mn_at xs" 0]
    by (auto simp: n_def p_def Old_def New_def head_at_def last_at_def split: list.splits) 
  have seg1: "dll m' 0 (map mn_at xs) (mn_at x)"
    using seg(1)
  proof (rule dll_new_next)
    fix c assume c: "c \<in> set (map mn_at xs)"
    then obtain y where y: "y \<in> set xs" "c = mn_at y" by auto
    show "get m' c Prev = get m c Prev" "get m' c Next = (if c = last_at 0 (map mn_at xs) then mn_at x else get m c Next)"
      using y hm [of y] ypn(1) linked_inD(7) [OF eff, of c] by (auto simp: p_def)
  qed (use di in simp)
  have seg2: "dll m' (mn_at x) (map mn_at ys) 0"
    using seg(2)
  proof (rule dll_new_prev)
    fix c assume c: "c \<in> set (map mn_at ys)"
    then obtain y where y: "y \<in> set ys" "c = mn_at y" by auto
    show "get m' c Next = get m c Next" "get m' c Prev = (if c = head_at (map mn_at ys) 0 then mn_at x else get m c Prev)"
      using y hm [of y] ypn(2) linked_inD(7) [OF eff, of c] by (auto simp: n_def)
  qed (use di in simp)
  have "dll m' 0 (map mn_at (xs @ x # ys)) 0"
    using seg1 seg2 linked_inD(1,2) [OF eff] by (simp add: dll_append p_def n_def)
  moreover have "get m' a First = head_at (map mn_at (xs @ x # ys)) 0"
    using linked_inD(7) [OF eff ha, of First] a oldM p0 by (cases xs) (auto simp: major_mem_def)
  moreover have "get m' a Usage = usage_of (xs @ x # ys)" "get m' a Pages = pg" "get m' a Size = pg * 4096"
    using linked_inD(7) [OF eff ha] a oldM by (simp_all add: major_mem_def usage_insert)
  ultimately have "major_mem m' ?M" using mem memx by (auto simp: major_mem_def)
  moreover have "dll m' 0 (map mj_at New) 0"
  proof -
    have "dll m' 0 (map mj_at New) 0 \<longleftrightarrow> dll m 0 (map mj_at New) 0"
    proof (rule dll_cong)
      fix c assume "c \<in> set (map mj_at New)"
      then obtain N where N: "N \<in> set New" "c = mj_at N" by auto
      then have "c \<in> headers Old" using hold [of c] major_ne_minor [OF layout M(1) N(1), of x] by (auto simp: headers_def)
      then show "get m' c Prev = get m c Prev \<and> get m' c Next = get m c Next"
        using linked_inD(7) [OF eff] maj [OF N] by simp
    qed
    moreover have "map mj_at New = map mj_at Old" by (simp add: New_def Old_def)
    ultimately show ?thesis using old by (simp add: content_def)
  qed
  ultimately show ?thesis using rest by (auto simp: content_def)
qed

section \<open>Linking out\<close>

definition linked_out :: "mem \<Rightarrow> mem \<Rightarrow> u32 set \<Rightarrow> u32 \<Rightarrow> u32 \<Rightarrow> u32 \<Rightarrow> minor \<Rightarrow> bool" where
  "linked_out m m' H a p n x \<longleftrightarrow>
     (\<forall>c \<in> H. \<forall>f. get m' c f = (if c = a \<and> f = Usage then get m a Usage - (mn_size x + 24)
          else if c = a \<and> f = First \<and> p = 0 then n
          else if c = p \<and> f = Next then n else if c = n \<and> f = Prev then p else get m c f))
     \<and> (\<forall>y. y \<notin> \<Union> (hdr ` insert (mn_at x) H) \<longrightarrow> m' y = m y)"

lemma linked_outD:
  assumes "linked_out m m' H a p n x"
  shows "c \<in> H \<Longrightarrow> get m' c f = (if c = a \<and> f = Usage then get m a Usage - (mn_size x + 24)
          else if c = a \<and> f = First \<and> p = 0 then n
          else if c = p \<and> f = Next then n else if c = n \<and> f = Prev then p else get m c f)"
    and "y \<notin> \<Union> (hdr ` insert (mn_at x) H) \<Longrightarrow> m' y = m y"
  using assms by (auto simp: linked_out_def)

lemma remove_content:
  fixes A B :: "major list" and a pg :: u32 and xs ys :: "minor list" and x :: minor
  defines "Old \<equiv> A @ Major a pg (xs @ x # ys) # B" and "New \<equiv> A @ Major a pg (xs @ ys) # B"
    and "p \<equiv> last_at 0 (map mn_at xs)" and "n \<equiv> head_at (map mn_at ys) 0"
  assumes old: "content m Old" and layout: "layout Old" and eff: "linked_out m m' (headers New) a p n x"
  shows "content m' New"
proof -
  let ?M = "Major a pg (xs @ x # ys)"
  have ln: "layout New" using layout unfolding Old_def New_def by (rule layout_remove)
  have M: "?M \<in> set Old" "Major a pg (xs @ ys) \<in> set New" by (simp_all add: New_def Old_def)
  have z: "0 \<notin> headers Old" using layout by (rule zero_not_header)
  have pn: "p = 0 \<or> p \<in> mn_at ` set xs" "n = 0 \<or> n \<in> mn_at ` set ys"
    using last_at_in [of "map mn_at xs" 0] head_at_in [of "map mn_at ys" 0] by (cases "xs = []"; cases "ys = []"; auto simp: p_def n_def)+
  have sub: "headers Old = insert (mn_at x) (headers New)" by (auto simp: Old_def New_def)
  have maj: "c \<noteq> p \<and> c \<noteq> n" if "N \<in> set New" "c = mj_at N" for N c
    using that pn zero_not_header [OF ln] major_ne_minor [OF ln M(2) that(1)] by (auto simp: headers_def)
  have rest: "major_mem m' N" if N: "N \<in> set Old" "N \<noteq> ?M" for N
  proof (rule other_major_mem [OF layout M(1) N])
    show "major_mem m N" "\<forall>y \<in> set (mj_minors N). roomy y" using old N content_roomy [OF layout old N(1)] by (auto simp: content_def)
    show "get m' c f = get m c f" if "c \<in> headers Old" "c \<notin> insert (mj_at ?M) (mn_at ` set (mj_minors ?M))" for c f
    proof -
      have "c \<noteq> 0" "c \<in> headers New" "c \<noteq> a" using z that sub by auto
      then show ?thesis using linked_outD(1) [OF eff] pn that(2) by auto
    qed
    show "m' y = m y" if "y \<notin> \<Union> (hdr ` headers Old)" "y \<notin> (\<Union>x \<in> set (mj_minors ?M). minor_area x)" for y
      using that(1) unfolding sub by (rule linked_outD(2) [OF eff])
  qed
  have oldM: "major_mem m ?M" using old M(1) by (auto simp: content_def)
  have ha: "a \<in> headers New" by (simp add: New_def)
  have hm: "mn_at y \<in> headers New" "mn_at y \<noteq> a" if "y \<in> set (xs @ ys)" for y
    using that major_ne_minor [OF ln M(2) M(2), of y] by (auto simp: New_def)
  have "p \<in> headers Old" if "xs \<noteq> []" using that last_at_in [of "map mn_at xs" 0] by (auto simp: p_def Old_def)
  then have p0: "p = 0 \<longleftrightarrow> xs = []" using z by (cases "xs = []") (auto simp: p_def)
  have a: "a \<noteq> p" "a \<noteq> n" using maj [OF M(2), of a] by simp_all
  have di: "distinct (map mn_at (xs @ ys))" using layout_distinct [OF ln M(2)] by simp
  have ypn: "n \<notin> mn_at ` set xs" "p \<notin> mn_at ` set ys"
    using di pn z by (auto simp: Old_def)
  have mem: "minor_mem m' a y" if y: "y \<in> set (xs @ ys)" for y
  proof -
    have yM: "y \<in> set (mj_minors ?M)" using y by auto
    then have "minor_mem m a y" "roomy y" using oldM content_roomy [OF layout old M(1)] by (auto simp: major_mem_def)
    moreover have "m' (tag_at (mn_at y)) = m (tag_at (mn_at y))"
      using tag_not_header [OF layout M(1) yM \<open>roomy y\<close>] unfolding sub by (intro linked_outD(2) [OF eff]) blast
    ultimately show ?thesis
      using y hm [OF y] linked_outD(1) [OF eff hm(1) [OF y]] by (auto simp: minor_mem_def)
  qed
  have seg: "dll m 0 (map mn_at xs) (mn_at x)" "dll m (mn_at x) (map mn_at ys) 0"
    using oldM by (simp_all add: major_mem_def dll_append)
  have seg1: "dll m' 0 (map mn_at xs) n"
    using seg(1)
  proof (rule dll_new_next)
    fix c assume c: "c \<in> set (map mn_at xs)"
    then obtain y where y: "y \<in> set xs" "c = mn_at y" by auto
    show "get m' c Prev = get m c Prev" "get m' c Next = (if c = last_at 0 (map mn_at xs) then n else get m c Next)"
      using y hm [of y] ypn(1) linked_outD(1) [OF eff, of c] by (auto simp: p_def)
  qed (use di in simp)
  have seg2: "dll m' p (map mn_at ys) 0"
    using seg(2)
  proof (rule dll_new_prev)
    fix c assume c: "c \<in> set (map mn_at ys)"
    then obtain y where y: "y \<in> set ys" "c = mn_at y" by auto
    show "get m' c Next = get m c Next" "get m' c Prev = (if c = head_at (map mn_at ys) 0 then p else get m c Prev)"
      using y hm [of y] ypn(2) linked_outD(1) [OF eff, of c] by (auto simp: n_def)
  qed (use di in simp)
  have "dll m' 0 (map mn_at (xs @ ys)) 0"
    using seg1 seg2 by (simp add: dll_append p_def n_def)
  moreover have "get m' a First = head_at (map mn_at (xs @ ys)) 0"
    using linked_outD(1) [OF eff ha, of First] a oldM p0 by (cases xs) (auto simp: major_mem_def n_def)
  moreover have "get m' a Usage = usage_of (xs @ ys)" "get m' a Pages = pg" "get m' a Size = pg * 4096"
    using linked_outD(1) [OF eff ha] a oldM by (simp_all add: major_mem_def usage_insert)
  ultimately have "major_mem m' (Major a pg (xs @ ys))" using mem by (auto simp: major_mem_def)
  moreover have "dll m' 0 (map mj_at New) 0"
  proof -
    have "dll m' 0 (map mj_at New) 0 \<longleftrightarrow> dll m 0 (map mj_at New) 0"
    proof (rule dll_cong)
      fix c assume "c \<in> set (map mj_at New)"
      then obtain N where N: "N \<in> set New" "c = mj_at N" by auto
      then have "c \<in> headers New" by (auto simp: headers_def)
      then show "get m' c Prev = get m c Prev \<and> get m' c Next = get m c Next"
        using linked_outD(1) [OF eff] maj [OF N] by simp
    qed
    moreover have "map mj_at New = map mj_at Old" by (simp add: New_def Old_def)
    ultimately show ?thesis using old by (simp add: content_def)
  qed
  moreover have "major_mem m' N" if "N \<in> set A \<union> set B" for N
  proof (rule rest)
    have "mj_at N \<noteq> a" using that layout by (auto simp: layout_def Old_def)
    then show "N \<in> set Old" "N \<noteq> ?M" using that by (auto simp: Old_def)
  qed
  ultimately show ?thesis by (auto simp: content_def New_def)
qed

end
