(* ===== verification/Heap_Majors.thy ===== *)
theory Heap_Majors
  imports Heap_Linking
begin

text \<open>Blocks of pages linked in at the end of the list and linked out anywhere.\<close>

text \<open>Changes of the links between blocks keep what the blocks hold.\<close>

lemma relinked_major_mem:
  assumes L: "layout L" and N: "N \<in> set L" and mem: "major_mem m N" and ro: "\<forall>y \<in> set (mj_minors N). roomy y"
    and gets: "\<And>c f. c = mj_at N \<or> c \<in> mn_at ` set (mj_minors N) \<Longrightarrow> c \<notin> mj_at ` set L \<or> f \<notin> {Prev, Next} \<Longrightarrow> get m' c f = get m c f"
    and bytes: "\<And>y. y \<notin> \<Union> (hdr ` headers L) \<Longrightarrow> y \<in> major_area N \<Longrightarrow> m' y = m y"
  shows "major_mem m' N"
proof (rule major_mem_cong [where skip = "\<lambda>c. if c \<in> mj_at ` set L then {Prev, Next} else {}", OF _ _ _ _ mem])
  fix c f assume "c = mj_at N \<or> c \<in> mn_at ` set (mj_minors N)" "f \<notin> (if c \<in> mj_at ` set L then {Prev, Next} else {})"
  then show "get m' c f = get m c f" by (intro gets) (auto split: if_splits)
next
  fix y assume y: "y \<in> set (mj_minors N)"
  have "major_geo N" using L N by (simp add: layout_def)
  then have "tag_at (mn_at y) \<in> major_area N" using major_geo_minor(3) y roomy_tag(1) ro by blast
  then show "m' (tag_at (mn_at y)) = m (tag_at (mn_at y))"
    using tag_not_header [OF L N y] ro y by (intro bytes) auto
next
  fix c assume "c \<in> mn_at ` set (mj_minors N)"
  then have "c \<notin> mj_at ` set L" using major_ne_minor [OF L N] by (metis imageE)
  then show "(if c \<in> mj_at ` set L then {Prev, Next} else {}) = {}" by simp
qed simp

lemma append_content:
  assumes old: "content m Ms" and lo: "layout Ms" and layout: "layout (Ms @ [Major b pg []])"
    and new: "get m' b Prev = last_at 0 (map mj_at Ms)" "get m' b Next = 0" "get m' b Pages = pg" "get m' b Size = pg * 4096"
      "get m' b Usage = 24" "get m' b First = 0"
    and gets: "\<And>c f. c \<in> headers Ms \<Longrightarrow> get m' c f = (if c = last_at 0 (map mj_at Ms) \<and> f = Next then b else get m c f)"
    and bytes: "\<And>y. y \<notin> \<Union> (hdr ` headers Ms) \<Longrightarrow> y \<notin> major_area (Major b pg []) \<Longrightarrow> m' y = m y"
  shows "content m' (Ms @ [Major b pg []])"
proof -
  let ?B = "Major b pg []"
  have mem: "major_mem m' N" if N: "N \<in> set Ms" for N
  proof (rule relinked_major_mem [OF lo N])
    show "major_mem m N" "\<forall>y \<in> set (mj_minors N). roomy y" using old N content_roomy [OF lo old N] by (auto simp: content_def)
    show "get m' c f = get m c f" if c: "c = mj_at N \<or> c \<in> mn_at ` set (mj_minors N)" and f: "c \<notin> mj_at ` set Ms \<or> f \<notin> {Prev, Next}" for c f
    proof -
      have h: "c \<in> headers Ms" using N c by (auto simp: headers_def)
      moreover have "c \<noteq> 0" using h zero_not_header [OF lo] by auto
      ultimately show ?thesis using gets [of c f] f last_at_in [of "map mj_at Ms" 0] by (cases "Ms = []") auto
    qed
    have "mj_at N \<noteq> mj_at ?B" using N layout by (auto simp: layout_def)
    then have "N \<noteq> ?B" by auto
    then show "m' y = m y" if "y \<notin> \<Union> (hdr ` headers Ms)" "y \<in> major_area N" for y
      using that layout_regions(3) [OF layout, of N ?B] N by (intro bytes) auto
  qed
  have "dll m' 0 (map mj_at Ms) b"
  proof (rule dll_new_next)
    show "dll m 0 (map mj_at Ms) 0" using old by (simp add: content_def)
    show "distinct (map mj_at Ms)" using lo by (simp add: layout_def)
    fix c assume "c \<in> set (map mj_at Ms)"
    then have "c \<in> headers Ms" by (auto simp: headers_def)
    then show "get m' c Prev = get m c Prev" "get m' c Next = (if c = last_at 0 (map mj_at Ms) then b else get m c Next)"
      using gets by auto
  qed
  then have "dll m' 0 (map mj_at (Ms @ [?B])) 0" using new(1,2) by (simp add: dll_append)
  moreover have "major_mem m' ?B" using new by (simp add: major_mem_def usage_of_def)
  ultimately show ?thesis using mem by (auto simp: content_def)
qed

lemma layout_drop: "layout (A @ M # B) \<Longrightarrow> layout (A @ B)"
  by (auto simp: layout_def)

lemma drop_content:
  fixes A B :: "major list"
  defines "p \<equiv> last_at 0 (map mj_at A)" and "n \<equiv> head_at (map mj_at B) 0"
  assumes old: "content m (A @ M # B)" and layout: "layout (A @ M # B)"
    and gets: "\<And>c f. c \<in> headers (A @ B) \<Longrightarrow> get m' c f = (if c = p \<and> f = Next then n else if c = n \<and> f = Prev then p else get m c f)"
    and bytes: "\<And>y. y \<notin> \<Union> (hdr ` headers (A @ B)) \<Longrightarrow> m' y = m y"
  shows "content m' (A @ B)"
proof -
  have lo: "layout (A @ B)" using layout by (rule layout_drop)
  have pn: "p = 0 \<or> p \<in> mj_at ` set A" "n = 0 \<or> n \<in> mj_at ` set B"
    using last_at_in [of "map mj_at A" 0] head_at_in [of "map mj_at B" 0] by (cases "A = []"; cases "B = []"; auto simp: p_def n_def)+
  have d: "distinct (map mj_at (A @ B))" using lo by (simp only: layout_def)
  have h: "c \<in> headers (A @ B)" "c \<noteq> 0" if "c \<in> mj_at ` set (A @ B)" for c
  proof -
    show "c \<in> headers (A @ B)" using that unfolding headers_def by blast
    then show "c \<noteq> 0" using zero_not_header [OF lo] by auto
  qed
  have mem: "major_mem m' N" if N: "N \<in> set (A @ B)" for N
  proof (rule relinked_major_mem [OF lo N])
    have NO: "N \<in> set (A @ M # B)" using N by auto
    show "major_mem m N" "\<forall>y \<in> set (mj_minors N). roomy y"
      using old NO content_roomy [OF layout old NO] unfolding content_def by blast+
    show "get m' c f = get m c f" if c: "c = mj_at N \<or> c \<in> mn_at ` set (mj_minors N)" and f: "c \<notin> mj_at ` set (A @ B) \<or> f \<notin> {Prev, Next}" for c f
    proof -
      have hc: "c \<in> headers (A @ B)" using N c unfolding headers_def by blast
      then have "c \<noteq> 0" using zero_not_header [OF lo] by auto
      then show ?thesis using gets [OF hc, of f] f pn by auto
    qed
    show "m' y = m y" if "y \<notin> \<Union> (hdr ` headers (A @ B))" for y using that by (rule bytes)
  qed
  have seg: "dll m 0 (map mj_at A) (mj_at M)" "dll m (mj_at M) (map mj_at B) 0"
    using old by (simp_all add: content_def dll_append)
  have "dll m' 0 (map mj_at A) n"
    using seg(1)
  proof (rule dll_new_next)
    fix c assume c: "c \<in> set (map mj_at A)"
    then have "c \<in> mj_at ` set (A @ B)" "c \<noteq> n" using d pn(2) h by auto
    then show "get m' c Prev = get m c Prev" "get m' c Next = (if c = last_at 0 (map mj_at A) then n else get m c Next)"
      using gets [OF h(1), of c] by (auto simp: p_def)
  qed (use d in simp)
  moreover have "dll m' p (map mj_at B) 0"
    using seg(2)
  proof (rule dll_new_prev)
    fix c assume c: "c \<in> set (map mj_at B)"
    then have "c \<in> mj_at ` set (A @ B)" "c \<noteq> p" using d pn(1) h by auto
    then show "get m' c Next = get m c Next" "get m' c Prev = (if c = head_at (map mj_at B) 0 then p else get m c Prev)"
      using gets [OF h(1), of c] by (auto simp: n_def)
  qed (use d in simp)
  ultimately show ?thesis using mem by (auto simp: content_def dll_append p_def n_def)
qed

end
