(* ===== verification/Heap_Malloc.thy ===== *)
theory Heap_Malloc
  imports Heap_Majors
begin

text \<open>The cases of \<open>malloc\<close>, its search through the blocks, and what a call does to the heap.\<close>

section \<open>The cases\<close>

text \<open>The links and fields an allocation needs, before its tag is written.\<close>

definition pre_linked :: "mem \<Rightarrow> mem \<Rightarrow> u32 set \<Rightarrow> u32 \<Rightarrow> u32 \<Rightarrow> u32 \<Rightarrow> minor \<Rightarrow> bool" where
  "pre_linked m m' H a p n x \<longleftrightarrow>
     (\<forall>f. get m' (mn_at x) f = (case f of Prev \<Rightarrow> p | Next \<Rightarrow> n | Third \<Rightarrow> a | Fourth \<Rightarrow> LIBALLOC_MAGIC
        | Fifth \<Rightarrow> mn_size x | Sixth \<Rightarrow> mn_req x))
     \<and> (\<forall>c \<in> H. \<forall>f. get m' c f = (if c = a \<and> f = Usage then get m a Usage + (mn_size x + 24)
          else if c = a \<and> f = First \<and> p = 0 then mn_at x
          else if c = p \<and> f = Next \<or> c = n \<and> f = Prev then mn_at x else get m c f))
     \<and> (\<forall>y. y \<notin> \<Union> (hdr ` insert (mn_at x) H) \<longrightarrow> m' y = m y)"

lemma case_2_linked:
  assumes sep: "separated (insert b H)" and a: "a \<in> H" "b \<notin> H" "0 \<notin> H" "b = a + 24"
  shows "\<exists>m'. case_2 a sz req s = deliver b sz m' s \<and> pre_linked (hmem s) m' H a 0 0 (Minor b sz req)"
proof -
  have in_H: "a \<in> H" "a \<noteq> b" "b \<noteq> a" and fit: "fits a" "fits b" using sep a(1-3) by (auto simp: separated_def)
  note gp = get_put [OF sep]
  let ?m = "put a Usage (get (hmem s) a Usage + (sz + 24)) (put b Req_Size req (put b Min_Size sz (put b Block a (put b Next 0 (put b Prev 0
     (put b Magic LIBALLOC_MAGIC (put a First b (hmem s))))))))"
  have "case_2 a sz req s = deliver b sz ?m s"
    unfolding case_2_def by (simp add: Let_def gp in_H a(4) [symmetric])
  moreover have "pre_linked (hmem s) ?m H a 0 0 (Minor b sz req)"
    unfolding pre_linked_def using a(2,3) by (auto simp: gp in_H put_outside fit split: field.splits)
  ultimately show ?thesis by blast
qed

lemma case_4_1_linked:
  assumes sep: "separated (insert b H)" and a: "a \<in> H" "mn \<in> H" "mn \<noteq> a" "b \<notin> H" "0 \<notin> H" "b = mn + 24 + get (hmem s) mn Min_Size"
  shows "\<exists>m'. case_4_1 a mn sz req s = deliver b sz m' s \<and> pre_linked (hmem s) m' H a mn 0 (Minor b sz req)"
proof -
  have in_H: "a \<in> H" "mn \<in> H" "a \<noteq> b" "b \<noteq> a" "mn \<noteq> b" "b \<noteq> mn" "a \<noteq> mn" "mn \<noteq> a" "mn \<noteq> 0"
    and fit: "fits a" "fits b" "fits mn" using sep a(1-5) by (auto simp: separated_def)
  note gp = get_put [OF sep]
  let ?m = "put a Usage (get (hmem s) a Usage + (sz + 24)) (put b Req_Size req (put b Min_Size sz (put b Block a (put b Magic LIBALLOC_MAGIC
     (put b Next 0 (put b Prev mn (put mn Next b (hmem s))))))))"
  have "case_4_1 a mn sz req s = deliver b sz ?m s"
    unfolding case_4_1_def by (simp add: Let_def gp in_H a(6) [symmetric])
  moreover have "pre_linked (hmem s) ?m H a mn 0 (Minor b sz req)"
    unfolding pre_linked_def using a(4,5) by (auto simp: gp in_H put_outside fit split: field.splits)
  ultimately show ?thesis by blast
qed

lemma case_4_2_linked:
  assumes sep: "separated (insert b H)" and a: "a \<in> H" "mn \<in> H" "mn \<noteq> a" "b \<notin> H" "0 \<notin> H" "b = mn + 24 + get (hmem s) mn Min_Size"
    and n: "get (hmem s) mn Next = n" "n \<in> H" "n \<noteq> a" "n \<noteq> mn"
  shows "\<exists>m'. case_4_2 a mn sz req s = deliver b sz m' s \<and> pre_linked (hmem s) m' H a mn n (Minor b sz req)"
proof -
  have in_H: "a \<in> H" "mn \<in> H" "n \<in> H" "a \<noteq> b" "b \<noteq> a" "mn \<noteq> b" "b \<noteq> mn" "a \<noteq> mn" "mn \<noteq> a"
      "n \<noteq> b" "b \<noteq> n" "n \<noteq> a" "a \<noteq> n" "n \<noteq> mn" "mn \<noteq> n" "mn \<noteq> 0"
    and fit: "fits a" "fits b" "fits mn" "fits n" using sep a(1-5) n(2-4) by (auto simp: separated_def)
  note gp = get_put [OF sep]
  let ?m = "put a Usage (get (hmem s) a Usage + (sz + 24)) (put mn Next b (put n Prev b (put b Block a (put b Req_Size req (put b Min_Size sz
     (put b Prev mn (put b Next n (put b Magic LIBALLOC_MAGIC (hmem s)))))))))"
  have "case_4_2 a mn sz req s = deliver b sz ?m s"
    unfolding case_4_2_def by (simp add: Let_def gp in_H a(6) [symmetric] n(1))
  moreover have "pre_linked (hmem s) ?m H a mn n (Minor b sz req)"
    unfolding pre_linked_def using a(4) by (auto simp: gp in_H put_outside fit split: field.splits)
  ultimately show ?thesis by blast
qed

lemma case_3_linked:
  assumes sep: "separated (insert b H)" and a: "a \<in> H" "b \<notin> H" "0 \<notin> H" "b = a + 24"
    and n: "get (hmem s) a First = n" "n \<in> H" "n \<noteq> a"
  shows "\<exists>m'. case_3 a sz req s = deliver b sz m' s \<and> pre_linked (hmem s) m' H a 0 n (Minor b sz req)"
proof -
  have in_H: "a \<in> H" "n \<in> H" "a \<noteq> b" "b \<noteq> a" "n \<noteq> b" "b \<noteq> n" "n \<noteq> a" "a \<noteq> n"
    and fit: "fits a" "fits b" "fits n" using sep a(1-3) n(2,3) by (auto simp: separated_def)
  note gp = get_put [OF sep]
  let ?m = "put a Usage (get (hmem s) a Usage + (sz + 24)) (put b Req_Size req (put b Min_Size sz (put b Block a (put b Prev 0
     (put b Magic LIBALLOC_MAGIC (put a First b (put b Next n (put n Prev b (hmem s)))))))))"
  have "case_3 a sz req s = deliver b sz ?m s"
    unfolding case_3_def by (simp add: Let_def gp in_H a(4) [symmetric] n(1))
  moreover have "pre_linked (hmem s) ?m H a 0 n (Minor b sz req)"
    unfolding pre_linked_def using a(2,3) by (auto simp: gp in_H put_outside fit split: field.splits)
  ultimately show ?thesis by blast
qed

section \<open>An allocation in a block\<close>

definition payload :: "minor \<Rightarrow> u32 set" where
  "payload x = minor_area x - hdr (mn_at x)"

definition keeps :: "mem \<Rightarrow> mem \<Rightarrow> major list \<Rightarrow> bool" where
  "keeps m m' Ms \<longleftrightarrow> (\<forall>x \<in> set (minors_of Ms). \<forall>y \<in> payload x. m' y = m y)"

lemma keepsD: "keeps m m' Ms \<Longrightarrow> x \<in> set (minors_of Ms) \<Longrightarrow> y \<in> payload x \<Longrightarrow> m' y = m y"
  by (simp add: keeps_def)

lemma in_minors_of: "x \<in> set (minors_of Ms) \<longleftrightarrow> (\<exists>M \<in> set Ms. x \<in> set (mj_minors M))"
  by (auto simp: minors_of_def)

lemma payload_not_header:
  assumes "layout Ms" and "M \<in> set Ms" and "x \<in> set (mj_minors M)" and "y \<in> payload x" and "c \<in> headers Ms"
  shows "y \<notin> hdr c"
proof -
  obtain N where N: "N \<in> set Ms" "c = mj_at N \<or> c \<in> mn_at ` set (mj_minors N)" using assms(5) by (auto simp: headers_def)
  have y: "y \<in> minor_area x" "y \<notin> hdr (mn_at x)" using assms(4) by (auto simp: payload_def)
  from N(2) show ?thesis
  proof
    assume "c = mj_at N"
    then show ?thesis using layout_regions(2) [OF assms(1,2) N(1) assms(3)] y(1) by blast
  next
    assume "c \<in> mn_at ` set (mj_minors N)"
    then obtain z where z: "z \<in> set (mj_minors N)" "c = mn_at z" by blast
    have "major_geo N" using assms(1) N(1) by (simp add: layout_def)
    then have sub: "hdr c \<subseteq> minor_area z" using major_geo_minor(2) z by blast
    then show ?thesis using layout_regions(1) [OF assms(1,2) N(1) assms(3) z(1)] y z by blast
  qed
qed

lemma tags_apart: "roomy x \<Longrightarrow> tag_at (mn_at x) \<in> payload x"
  using roomy_tag by (auto simp: payload_def)

lemma deliver_inserts:
  fixes s :: "'p heap" and x :: minor
  defines "b \<equiv> mn_at x"
  assumes old: "heap_ok s (A @ Major a pg (xs @ ys) # B)" and layout: "layout (A @ Major a pg (xs @ x # ys) # B)" and x: "roomy x"
    and pre: "pre_linked (hmem s) m' (headers (A @ Major a pg (xs @ ys) # B)) a (last_at 0 (map mn_at xs)) (head_at (map mn_at ys) 0) x"
  shows "\<exists>s'. deliver b (mn_size x) m' s = (user_ptr b, s') \<and> heap_ok s' (A @ Major a pg (xs @ x # ys) # B)
     \<and> keeps (hmem s) (hmem s') (A @ Major a pg (xs @ ys) # B) \<and> page_state s' = page_state s \<and> interrupts s'"
proof -
  let ?Old = "A @ Major a pg (xs @ ys) # B" and ?New = "A @ Major a pg (xs @ x # ys) # B"
  let ?M = "Major a pg (xs @ x # ys)"
  let ?H = "headers ?Old"
  define s' where "s' = s\<lparr>l_inuse := l_inuse s + ucast (mn_size x), hmem := m'(tag_at b := tag b), interrupts := True\<rparr>"
  have M: "?M \<in> set ?New" by simp
  have hs: "headers ?New = insert b ?H" by (auto simp: b_def)
  have tag: "tag_at b \<notin> hdr c" if "c \<in> insert b ?H" for c
    using tag_not_header [OF layout M _ x, of c] that unfolding hs b_def by simp
  have fit: "fits c" if "c \<in> insert b ?H" for c using layout_separated [OF layout] that unfolding hs separated_def by blast
  have hx: "hdr b \<subseteq> minor_area x" unfolding b_def by (rule major_geo_minor(2) [of ?M]) (use layout in \<open>auto simp: layout_def\<close>)
  have g: "get (m'(tag_at b := tag b)) c f = get m' c f" if "c \<in> insert b ?H" for c f
    using that by (intro get_byte_upd fit tag)
  have eff: "linked_in (hmem s) (hmem s') ?H a (last_at 0 (map mn_at xs)) (head_at (map mn_at ys) 0) x"
    using pre g roomy_tag(1) [OF x] hx unfolding linked_in_def pre_linked_def s'_def b_def by auto
  have "content (hmem s') ?New"
    using insert_content [OF _ layout x eff] old by (simp add: heap_ok_def)
  then have ok: "heap_ok s' ?New" using old layout by (auto simp: heap_ok_def s'_def algebra_simps)
  have "keeps (hmem s) (hmem s') ?Old"
    unfolding keeps_def
  proof (intro ballI)
    fix z y assume z: "z \<in> set (minors_of ?Old)" and y: "y \<in> payload z"
    then obtain N where N: "N \<in> set ?Old" "z \<in> set (mj_minors N)" unfolding in_minors_of by blast
    have lo: "layout ?Old" using layout by (rule layout_remove)
    have "z \<in> set (minors_of ?New)" using z by auto
    then obtain N' where N': "N' \<in> set ?New" "z \<in> set (mj_minors N')" unfolding in_minors_of by blast
    have "z \<noteq> x" using new_header [OF layout] N by (auto simp: headers_def)
    then have "minor_area z \<inter> minor_area x = {}" using layout_regions(1) [OF layout N'(1) M N'(2), of x] by simp
    then show "hmem s' y = hmem s y"
      using payload_not_header [OF lo N y] y by (intro linked_inD(8) [OF eff]) (auto simp: payload_def)
  qed
  moreover have "deliver b (mn_size x) m' s = (user_ptr b, s')"
    by (simp add: deliver_def ALIGN_user_ptr s'_def liballoc_unlock_def)
  ultimately show ?thesis using ok by (auto simp: s'_def)
qed

end
