(* ===== verification/Heap_Search.thy ===== *)
theory Heap_Search
  imports Heap_Malloc
begin

text \<open>The search of \<open>malloc\<close> within a block and over the blocks of the heap.\<close>

section \<open>Reading the heap\<close>

lemma block_reads:
  assumes "heap_ok s (A @ Major a pg ms # B)"
  shows "get (hmem s) a Size = pg * 4096" "get (hmem s) a Usage = usage_of ms" "get (hmem s) a First = head_at (map mn_at ms) 0"
    "get (hmem s) a Next = head_at (map mj_at B) 0" "get (hmem s) a Pages = pg" "get (hmem s) a Prev = last_at 0 (map mj_at A)"
    and "ms = xs @ y # ys \<Longrightarrow> get (hmem s) (mn_at y) Next = head_at (map mn_at ys) 0"
    and "ms = xs @ y # ys \<Longrightarrow> get (hmem s) (mn_at y) Min_Size = mn_size y"
    and "ms = xs @ y # ys \<Longrightarrow> get (hmem s) (mn_at y) Prev = last_at 0 (map mn_at xs)"
  using assms by (auto simp: heap_ok_def content_def major_mem_def minor_mem_def dll_append)

lemma block_geo:
  assumes "heap_ok s (A @ Major a pg ms # B)"
  shows "a \<noteq> 0" "spaced (unat a + 24) ms (unat a + unat pg * 4096)" "unat a + unat pg * 4096 \<le> 2 ^ 32" "pg \<noteq> 0" "unat a mod 4096 = 0"
  using assms by (auto simp: heap_ok_def layout_def major_geo_def major_end_def)

lemma heap_ok_bet: "heap_ok s Ms \<Longrightarrow> b = 0 \<or> b \<in> mj_at ` set Ms \<Longrightarrow> heap_ok (s\<lparr>l_bestBet := b\<rparr>) Ms"
  by (auto simp: heap_ok_def)

lemma word_diff:
  assumes "c = of_nat n" and "d = of_nat k" and "k \<le> n" and "n - k < 2 ^ 32"
  shows "unat (c - d :: u32) = n - k"
proof -
  have "c - d = of_nat (n - k)" using assms(1-3) by (simp add: of_nat_diff)
  then show ?thesis using assms(4) by (simp add: unat_of_nat_less)
qed

text \<open>The differences the code computes are the sizes of gaps, also for a block at the end of memory.\<close>

lemma block_free:
  assumes "heap_ok s (A @ Major a pg ms # B)"
  shows "unat (get (hmem s) a Size - get (hmem s) a Usage) = unat pg * 4096 - 24 - space_used ms"
    and "24 + space_used ms \<le> unat pg * 4096"
proof -
  note g = block_geo [OF assms]
  show le: "24 + space_used ms \<le> unat pg * 4096" using spaced_space [OF g(2)] by simp
  have "0 < unat a" using g(1) by (simp add: unat_gt_0)
  then have "unat pg * 4096 < 2 ^ 32" using g(3) by linarith
  then have "unat (get (hmem s) a Size - get (hmem s) a Usage) = unat pg * 4096 - (24 + space_used ms)"
    using le unfolding block_reads(1,2) [OF assms] usage_of_space by (intro word_diff) simp_all
  then show "unat (get (hmem s) a Size - get (hmem s) a Usage) = unat pg * 4096 - 24 - space_used ms" by simp
qed

lemma minor_end_word: "of_nat (minor_end y) = mn_at y + 24 + mn_size y"
  by (simp add: minor_end_def)

lemma gap_sizes:
  assumes ok: "heap_ok s (A @ Major a pg (xs @ y # ys) # B)"
  shows "unat (a + get (hmem s) a Size - mn_at y - 24 - get (hmem s) (mn_at y) Min_Size) = unat a + unat pg * 4096 - minor_end y"
    and "ys = z # zs \<Longrightarrow> unat (get (hmem s) (mn_at y) Next - mn_at y - 24 - get (hmem s) (mn_at y) Min_Size) = unat (mn_at z) - minor_end y"
    and "minor_end y \<le> (if ys = [] then unat a + unat pg * 4096 else unat (mn_at (hd ys)))"
proof -
  note g = block_geo [OF ok]
  have le: "minor_end y \<le> unat a + unat pg * 4096" using spaced_in(2) [OF g(2), of y] by simp
  have sp: "spaced (minor_end y) ys (unat a + unat pg * 4096)" using g(2) by (simp add: spaced_append)
  show "minor_end y \<le> (if ys = [] then unat a + unat pg * 4096 else unat (mn_at (hd ys)))" using sp by (cases ys) auto
  have pos: "24 \<le> minor_end y" by (simp add: minor_end_def)
  have "a + pg * 4096 - mn_at y - 24 - mn_size y = (a + pg * 4096) - of_nat (minor_end y)" by (simp add: minor_end_word)
  moreover have "unat ((a + pg * 4096) - of_nat (minor_end y)) = unat a + unat pg * 4096 - minor_end y"
  proof (rule word_diff [OF _ refl le])
    show "a + pg * 4096 = of_nat (unat a + unat pg * 4096)" by simp
    show "unat a + unat pg * 4096 - minor_end y < 2 ^ 32" using g(3) pos le by linarith
  qed
  ultimately show "unat (a + get (hmem s) a Size - mn_at y - 24 - get (hmem s) (mn_at y) Min_Size) = unat a + unat pg * 4096 - minor_end y"
    by (simp only: block_reads(1) [OF ok] block_reads(8) [OF ok refl])
  assume ys: "ys = z # zs"
  have le2: "minor_end y \<le> unat (mn_at z)" using sp ys by simp
  have "mn_at z - mn_at y - 24 - mn_size y = mn_at z - of_nat (minor_end y)" by (simp add: minor_end_word)
  moreover have "unat (mn_at z - of_nat (minor_end y)) = unat (mn_at z) - minor_end y"
    using le2 pos unat_u32_less [of "mn_at z"] by (intro word_diff) simp_all
  ultimately show "unat (get (hmem s) (mn_at y) Next - mn_at y - 24 - get (hmem s) (mn_at y) Min_Size) = unat (mn_at z) - minor_end y"
    by (simp only: block_reads(7) [OF ok refl] block_reads(8) [OF ok refl] ys list.map head_at_simps)
qed

section \<open>Within a block\<close>

definition placed ::
  "'p heap \<Rightarrow> 'p heap \<Rightarrow> major list \<Rightarrow> u32 \<Rightarrow> u32 \<Rightarrow> minor list \<Rightarrow> major list \<Rightarrow> u32 \<Rightarrow> u32 \<Rightarrow> u32 \<Rightarrow> bool" where
  "placed s s' A a pg ms B sz req p \<longleftrightarrow> (\<exists>xs ys x. ms = xs @ ys \<and> mn_size x = sz \<and> mn_req x = req \<and> roomy x \<and> p = user_ptr (mn_at x)
     \<and> heap_ok s' (A @ Major a pg (xs @ x # ys) # B) \<and> keeps (hmem s) (hmem s') (A @ Major a pg ms # B)
     \<and> page_state s' = page_state s \<and> interrupts s')"

lemma room_facts:
  assumes ok: "heap_ok s (A @ Major a pg (xs @ ys) # B)" and x: "roomy x"
    and at: "end_of (unat a + 24) xs \<le> unat (mn_at x)"
    and fit: "minor_end x \<le> (if ys = [] then unat a + unat pg * 4096 else unat (mn_at (hd ys)))"
  shows "layout (A @ Major a pg (xs @ x # ys) # B)" and "separated (insert (mn_at x) (headers (A @ Major a pg (xs @ ys) # B)))"
    and "mn_at x \<notin> headers (A @ Major a pg (xs @ ys) # B)" and "0 \<notin> headers (A @ Major a pg (xs @ ys) # B)"
proof -
  note g = block_geo [OF ok]
  have "major_geo (Major a pg (xs @ x # ys))"
    using g spaced_insert [OF g(2) at] fit by (simp add: major_geo_def major_end_def)
  moreover have lo: "layout (A @ Major a pg (xs @ ys) # B)" using ok by (simp add: heap_ok_def)
  ultimately show l: "layout (A @ Major a pg (xs @ x # ys) # B)" by (metis layout_resize)
  have "headers (A @ Major a pg (xs @ x # ys) # B) = insert (mn_at x) (headers (A @ Major a pg (xs @ ys) # B))" by auto
  then show "separated (insert (mn_at x) (headers (A @ Major a pg (xs @ ys) # B)))" using layout_separated [OF l] by simp
  show "mn_at x \<notin> headers (A @ Major a pg (xs @ ys) # B)" using l by (rule new_header)
  show "0 \<notin> headers (A @ Major a pg (xs @ ys) # B)" using lo by (rule zero_not_header)
qed

lemma placed_intro:
  assumes ok: "heap_ok s (A @ Major a pg (xs @ ys) # B)" and x: "roomy (Minor b sz req)" and r: "r = deliver b sz m' s"
    and l: "layout (A @ Major a pg (xs @ Minor b sz req # ys) # B)"
    and pre: "pre_linked (hmem s) m' (headers (A @ Major a pg (xs @ ys) # B)) a (last_at 0 (map mn_at xs)) (head_at (map mn_at ys) 0) (Minor b sz req)"
  shows "\<exists>p s'. r = (p, s') \<and> placed s s' A a pg (xs @ ys) B sz req p"
proof -
  obtain s' where "deliver b sz m' s = (user_ptr b, s')" "heap_ok s' (A @ Major a pg (xs @ Minor b sz req # ys) # B)"
    "keeps (hmem s) (hmem s') (A @ Major a pg (xs @ ys) # B)" "page_state s' = page_state s" "interrupts s'"
    using deliver_inserts [OF ok l x pre] by auto
  then show ?thesis
    unfolding placed_def r using x by (intro exI [of _ "user_ptr b"] exI [of _ s'] conjI exI [of _ xs] exI [of _ ys] exI [of _ "Minor b sz req"]) simp_all
qed

text \<open>A request that is small enough for no sum to wrap around.\<close>

definition request :: "u32 \<Rightarrow> u32 \<Rightarrow> bool" where
  "request req sz \<longleftrightarrow> unat req + 32 \<le> unat sz \<and> unat sz + 48 < 2 ^ 32"

lemma request_24: "request req sz \<Longrightarrow> unat (sz + 24) = unat sz + 24"
  using unat_plus_no_wrap [of sz 24] by (simp add: request_def)

lemma gap_after:
  assumes ok: "heap_ok s (A @ Major a pg (xs @ y # ys) # B)" and rq: "request req sz"
    and gap: "minor_end y + (unat sz + 24) \<le> (if ys = [] then unat a + unat pg * 4096 else unat (mn_at (hd ys)))"
  defines "b \<equiv> mn_at y + 24 + get (hmem s) (mn_at y) Min_Size" and "H \<equiv> headers (A @ Major a pg (xs @ y # ys) # B)"
  shows "roomy (Minor b sz req)" and "layout (A @ Major a pg ((xs @ [y]) @ Minor b sz req # ys) # B)"
    and "separated (insert b H)" and "b \<notin> H" and "0 \<notin> H" and "a \<in> H" and "mn_at y \<in> H" and "mn_at y \<noteq> a"
proof -
  have lo: "layout (A @ Major a pg (xs @ y # ys) # B)" using ok by (simp add: heap_ok_def)
  have hi: "(if ys = [] then unat a + unat pg * 4096 else unat (mn_at (hd ys))) \<le> 2 ^ 32"
    using block_geo(3) [OF ok] unat_u32_less [of "mn_at (hd ys)"] by auto
  then have lt: "minor_end y < 2 ^ 32" "minor_end y + (unat sz + 24) \<le> 2 ^ 32" using gap by linarith+
  have "b = of_nat (minor_end y)" unfolding b_def block_reads(8) [OF ok refl] minor_end_word ..
  then have b: "unat b = minor_end y" using lt(1) by (simp add: unat_of_nat_less)
  show ro: "roomy (Minor b sz req)" using rq lt(2) b by (simp add: roomy_def request_def minor_end_def)
  have at: "end_of (unat a + 24) (xs @ [y]) \<le> unat (mn_at (Minor b sz req))" using b by simp
  have fit: "minor_end (Minor b sz req) \<le> (if ys = [] then unat a + unat pg * 4096 else unat (mn_at (hd ys)))"
    using gap b by (simp add: minor_end_def)
  have ok': "heap_ok s (A @ Major a pg ((xs @ [y]) @ ys) # B)" using ok by simp
  note rf = room_facts [OF ok' ro at fit]
  show "layout (A @ Major a pg ((xs @ [y]) @ Minor b sz req # ys) # B)" by (rule rf(1))
  show "separated (insert b H)" "b \<notin> H" "0 \<notin> H" using rf(2-4) unfolding H_def by simp_all
  show "a \<in> H" "mn_at y \<in> H" by (auto simp: H_def)
  show "mn_at y \<noteq> a" using major_ne_minor [OF lo, of "Major a pg (xs @ y # ys)" "Major a pg (xs @ y # ys)" y] by simp
qed

lemma case_4_1_places:
  assumes ok: "heap_ok s (A @ Major a pg (xs @ [y]) # B)" and rq: "request req sz"
    and gap: "minor_end y + (unat sz + 24) \<le> unat a + unat pg * 4096"
  shows "\<exists>p s'. case_4_1 a (mn_at y) sz req s = (p, s') \<and> placed s s' A a pg (xs @ [y]) B sz req p"
proof -
  let ?b = "mn_at y + 24 + get (hmem s) (mn_at y) Min_Size"
  have ok': "heap_ok s (A @ Major a pg ((xs @ [y]) @ []) # B)" using ok by simp
  have "minor_end y + (unat sz + 24) \<le> (if [] = ([] :: minor list) then unat a + unat pg * 4096 else unat (mn_at (hd [])))" using gap by simp
  note ga = gap_after [OF ok rq this]
  obtain m' where "case_4_1 a (mn_at y) sz req s = deliver ?b sz m' s"
    "pre_linked (hmem s) m' (headers (A @ Major a pg (xs @ [y]) # B)) a (mn_at y) 0 (Minor ?b sz req)"
    using case_4_1_linked [of ?b "headers (A @ Major a pg (xs @ [y]) # B)" a "mn_at y" s sz req] ga by auto
  then show ?thesis using placed_intro [OF ok' ga(1), of "case_4_1 a (mn_at y) sz req s" m'] ga(2) by simp
qed

lemma case_4_2_places:
  assumes ok: "heap_ok s (A @ Major a pg (xs @ y # z # ys) # B)" and rq: "request req sz"
    and gap: "minor_end y + (unat sz + 24) \<le> unat (mn_at z)"
  shows "\<exists>p s'. case_4_2 a (mn_at y) sz req s = (p, s') \<and> placed s s' A a pg (xs @ y # z # ys) B sz req p"
proof -
  let ?b = "mn_at y + 24 + get (hmem s) (mn_at y) Min_Size" and ?M = "Major a pg (xs @ y # z # ys)"
  have ok': "heap_ok s (A @ Major a pg ((xs @ [y]) @ (z # ys)) # B)" using ok by simp
  have lo: "layout (A @ ?M # B)" using ok by (simp add: heap_ok_def)
  have "minor_end y + (unat sz + 24) \<le> (if z # ys = [] then unat a + unat pg * 4096 else unat (mn_at (hd (z # ys))))" using gap by simp
  note ga = gap_after [OF ok rq this]
  have n: "get (hmem s) (mn_at y) Next = mn_at z" using block_reads(7) [OF ok refl] by simp
  have z: "mn_at z \<in> headers (A @ ?M # B)" "mn_at z \<noteq> a" "mn_at z \<noteq> mn_at y"
    using major_ne_minor [OF lo, of ?M ?M z] layout_distinct [OF lo, of ?M] by auto
  obtain m' where "case_4_2 a (mn_at y) sz req s = deliver ?b sz m' s"
    "pre_linked (hmem s) m' (headers (A @ ?M # B)) a (mn_at y) (mn_at z) (Minor ?b sz req)"
    using case_4_2_linked [of ?b "headers (A @ ?M # B)" a "mn_at y" s "mn_at z" sz req] ga n z by auto
  then show ?thesis using placed_intro [OF ok' ga(1), of "case_4_2 a (mn_at y) sz req s" m'] ga(2) by simp
qed

lemma case_4_places:
  assumes ok: "heap_ok s (A @ Major a pg (xs @ y # ys) # B)" and rq: "request req sz" and n: "Suc (length ys) < n"
  shows "case_4 n a (mn_at y) sz req s = Inr None
     \<or> (\<exists>p s'. case_4 n a (mn_at y) sz req s = Inr (Some (p, s')) \<and> placed s s' A a pg (xs @ y # ys) B sz req p)"
  using ok n
proof (induction ys arbitrary: xs y n)
  case Nil
  then obtain k where k: "n = Suc (Suc k)" by (cases n; cases "n - 1") auto
  note ok = Nil.prems(1)
  have y: "mn_at y \<noteq> 0" using zero_not_header [of "A @ Major a pg (xs @ [y]) # B"] ok by (auto simp: heap_ok_def)
  show ?case
  proof (cases "a + get (hmem s) a Size - mn_at y - 24 - get (hmem s) (mn_at y) Min_Size \<ge> sz + 24")
    case True
    then have "minor_end y + (unat sz + 24) \<le> unat a + unat pg * 4096"
      using gap_sizes(1,3) [OF ok] request_24 [OF rq] by (simp add: word_le_nat_alt)
    then show ?thesis using case_4_1_places [OF ok rq] True block_reads(7) [OF ok refl] y by (auto simp: k)
  next
    case False
    then show ?thesis using block_reads(7) [OF ok refl] y by (simp add: k)
  qed
next
  case (Cons z ys)
  then obtain k where k: "n = Suc k" "Suc (length ys) < k" by (cases n) auto
  note ok = Cons.prems(1)
  have y: "mn_at y \<noteq> 0" "mn_at z \<noteq> 0" using zero_not_header [of "A @ Major a pg (xs @ y # z # ys) # B"] ok by (auto simp: heap_ok_def)
  have nx: "get (hmem s) (mn_at y) Next = mn_at z" using block_reads(7) [OF ok refl] by simp
  show ?case
  proof (cases "get (hmem s) (mn_at y) Next - mn_at y - 24 - get (hmem s) (mn_at y) Min_Size \<ge> sz + 24")
    case True
    then have "minor_end y + (unat sz + 24) \<le> unat (mn_at z)"
      using gap_sizes(2) [OF ok refl] gap_sizes(3) [OF ok] request_24 [OF rq] by (simp add: word_le_nat_alt)
    then show ?thesis using case_4_2_places [OF ok rq] True nx y by (auto simp: k(1))
  next
    case False
    moreover have "heap_ok s (A @ Major a pg ((xs @ [y]) @ z # ys) # B)" using ok by simp
    ultimately show ?thesis using Cons.IH [of "xs @ [y]" z k] nx y k by simp
  qed
qed

lemma case_2_places:
  assumes ok: "heap_ok s (A @ Major a pg [] # B)" and rq: "request req sz" and room: "48 + unat sz \<le> unat pg * 4096"
  shows "\<exists>p s'. case_2 a sz req s = (p, s') \<and> placed s s' A a pg [] B sz req p"
proof -
  let ?b = "a + 24" and ?H = "headers (A @ Major a pg [] # B)"
  have b: "unat ?b = unat a + 24" using block_geo(3) [OF ok] room unat_plus_no_wrap [of a 24] by simp
  have ro: "roomy (Minor ?b sz req)" using rq block_geo(3) [OF ok] room b by (simp add: roomy_def request_def minor_end_def)
  have ok': "heap_ok s (A @ Major a pg ([] @ []) # B)" using ok by simp
  have fit: "end_of (unat a + 24) [] \<le> unat (mn_at (Minor ?b sz req))"
    "minor_end (Minor ?b sz req) \<le> (if [] = ([] :: minor list) then unat a + unat pg * 4096 else unat (mn_at (hd [])))"
    using b room by (simp_all add: minor_end_def)
  note rf = room_facts [OF ok' ro fit]
  obtain m' where "case_2 a sz req s = deliver ?b sz m' s" "pre_linked (hmem s) m' ?H a 0 0 (Minor ?b sz req)"
    using case_2_linked [of ?b ?H a sz req s] rf(2-4) by auto
  then show ?thesis using placed_intro [OF ok' ro, of "case_2 a sz req s" m'] rf(1) by simp
qed

lemma case_3_places:
  assumes ok: "heap_ok s (A @ Major a pg (y # ys) # B)" and rq: "request req sz" and gap: "unat a + 48 + unat sz \<le> unat (mn_at y)"
  shows "\<exists>p s'. case_3 a sz req s = (p, s') \<and> placed s s' A a pg (y # ys) B sz req p"
proof -
  let ?b = "a + 24" and ?M = "Major a pg (y # ys)"
  let ?H = "headers (A @ ?M # B)"
  have lo: "layout (A @ ?M # B)" using ok by (simp add: heap_ok_def)
  have b: "unat ?b = unat a + 24" using gap unat_u32_less [of "mn_at y"] unat_plus_no_wrap [of a 24] by simp
  have ro: "roomy (Minor ?b sz req)"
    using rq gap b unat_u32_less [of "mn_at y"] by (simp add: roomy_def request_def minor_end_def)
  have ok': "heap_ok s (A @ Major a pg ([] @ y # ys) # B)" using ok by simp
  have fit: "end_of (unat a + 24) [] \<le> unat (mn_at (Minor ?b sz req))"
    "minor_end (Minor ?b sz req) \<le> (if y # ys = [] then unat a + unat pg * 4096 else unat (mn_at (hd (y # ys))))"
    using b gap by (simp_all add: minor_end_def)
  note rf = room_facts [OF ok' ro fit]
  have y: "mn_at y \<in> ?H" "mn_at y \<noteq> a" using major_ne_minor [OF lo, of ?M ?M y] by auto
  have fi: "get (hmem s) a First = mn_at y" using block_reads(3) [OF ok] by simp
  obtain m' where "case_3 a sz req s = deliver ?b sz m' s" "pre_linked (hmem s) m' ?H a 0 (mn_at y) (Minor ?b sz req)"
    using case_3_linked [of ?b ?H a s "mn_at y" sz req] rf(2-4) y fi by auto
  then show ?thesis using placed_intro [OF ok' ro, of "case_3 a sz req s" m'] rf(1) by simp
qed

lemma cases_2_to_4_places:
  assumes ok: "heap_ok s (A @ Major a pg ms # B)" and rq: "request req sz" and fuel: "length ms < fuel"
    and room: "ms = [] \<Longrightarrow> 48 + unat sz \<le> unat pg * 4096"
  shows "ms \<noteq> [] \<and> cases_2_to_4 fuel a sz req s = Inr None
     \<or> (\<exists>p s'. cases_2_to_4 fuel a sz req s = Inr (Some (p, s')) \<and> placed s s' A a pg ms B sz req p)"
proof (cases ms)
  case Nil
  then show ?thesis using case_2_places [of s A a pg B req sz] ok rq room block_reads(3) [OF ok] by (auto simp: cases_2_to_4_def)
next
  case (Cons y ys)
  have ok': "heap_ok s (A @ Major a pg (y # ys) # B)" using ok Cons by simp
  have y0: "mn_at y \<noteq> 0" using zero_not_header [of "A @ Major a pg (y # ys) # B"] ok' by (auto simp: heap_ok_def)
  have fi: "get (hmem s) a First = mn_at y" using block_reads(3) [OF ok'] by simp
  have le: "unat a + 24 \<le> unat (mn_at y)" using block_geo(2) [OF ok'] by simp
  have "mn_at y - a - 24 = mn_at y - of_nat (unat a + 24)" by simp
  moreover have "unat (mn_at y - of_nat (unat a + 24)) = unat (mn_at y) - (unat a + 24)"
    using le unat_u32_less [of "mn_at y"] by (intro word_diff) simp_all
  ultimately have d: "unat (mn_at y - a - 24) = unat (mn_at y) - (unat a + 24)" by (simp only:)
  show ?thesis
  proof (cases "sz + 24 \<le> mn_at y - a - 24")
    case True
    then have "unat a + 48 + unat sz \<le> unat (mn_at y)"
      using d le request_24 [OF rq] by (simp add: word_le_nat_alt)
    then show ?thesis using case_3_places [OF ok' rq] True fi y0 Cons by (auto simp: cases_2_to_4_def)
  next
    case False
    have "Suc (length ys) < Suc fuel" using fuel Cons by simp
    moreover have "heap_ok s (A @ Major a pg ([] @ y # ys) # B)" using ok' by simp
    ultimately show ?thesis using case_4_places [of s A a pg "[]" y ys B req sz fuel] rq False fi y0 Cons fuel
      by (auto simp: cases_2_to_4_def)
  qed
qed

end
