(* ===== verification/Heap_Allocation.thy ===== *)
theory Heap_Allocation
  imports Heap_Search
begin

text \<open>
  \<open>malloc\<close> over a source of pages. The locale \<open>page_giver\<close> states what \<open>malloc\<close> relies on: \<open>pages_ok p S\<close> says that the
  addresses in \<open>S\<close> are those of pages obtained from \<open>p\<close> and not returned.
\<close>

section \<open>New blocks\<close>

definition areas :: "major list \<Rightarrow> u32 set" where
  "areas Ms = (\<Union>M \<in> set Ms. major_area M)"

lemma areas_simps [simp]: "areas [] = {}" "areas (M # Ms) = major_area M \<union> areas Ms" "areas (Ms @ Ns) = areas Ms \<union> areas Ns"
  by (auto simp: areas_def)

lemma major_area_resize [simp]: "major_area (Major a pg xs) = bytes_at a (unat pg * 4096)"
  by (simp add: major_area_def)

definition pages_for :: "u32 \<Rightarrow> u32" where
  "pages_for sz = (let st = sz + 48; st = (if st mod 4096 = 0 then st div 4096 else st div 4096 + 1) in if st < 16 then 16 else st)"

lemma pages_for_enough:
  assumes "request req sz"
  shows "48 + unat sz \<le> unat (pages_for sz) * 4096" and "pages_for sz \<noteq> 0"
proof -
  let ?st = "if (sz + 48) mod 4096 = 0 then (sz + 48) div 4096 else (sz + 48) div 4096 + 1"
  have u: "unat (sz + 48) = unat sz + 48" using assms unat_plus_no_wrap [of sz 48] by (simp add: request_def)
  have lt: "unat ((sz + 48) div 4096) < 2 ^ 20" using unat_u32_less [of "sz + 48"] by (simp add: unat_div)
  have "unat (sz + 48) \<le> unat ?st * 4096"
  proof (cases "(sz + 48) mod 4096 = 0")
    case True
    then have "unat ((sz + 48) mod 4096) = 0" by (simp only: unsigned_0)
    then have "unat (sz + 48) mod 4096 = 0" unfolding unat_mod by simp
    then have "unat (sz + 48) = unat (sz + 48) div 4096 * 4096" using div_mult_mod_eq [of "unat (sz + 48)" 4096] by simp
    then show ?thesis using True by (simp add: unat_div)
  next
    case False
    have "unat ((sz + 48) div 4096 + 1) = unat ((sz + 48) div 4096) + 1" using lt unat_plus_no_wrap [of "(sz + 48) div 4096" 1] by simp
    then show ?thesis using False by (simp add: unat_div)
  qed
  then show "48 + unat sz \<le> unat (pages_for sz) * 4096" using u by (auto simp: pages_for_def Let_def word_less_nat_alt)
  show "pages_for sz \<noteq> 0" by (auto simp: pages_for_def Let_def)
qed

definition fresh_major :: "u32 \<Rightarrow> u32 \<Rightarrow> mem \<Rightarrow> mem" where
  "fresh_major b st m = put b First 0 (put b Usage 24 (put b Size (st * 4096) (put b Pages st (put b Next 0 (put b Prev 0 m)))))"

lemma get_fresh_major:
  assumes "separated (insert b H)" and "b \<notin> H"
  shows "get (fresh_major b st m) b f = (case f of Prev \<Rightarrow> 0 | Next \<Rightarrow> 0 | Third \<Rightarrow> st | Fourth \<Rightarrow> st * 4096 | Fifth \<Rightarrow> 24 | Sixth \<Rightarrow> 0)"
    and "c \<in> H \<Longrightarrow> get (fresh_major b st m) c f = get m c f"
  using assms by (auto simp: fresh_major_def get_put [OF assms(1)] split: field.splits)

lemma allocate_new_page_pages_for:
  "allocate_new_page ops sz s = rbind (page_alloc ops (pages_for sz) (hmem s) (page_state s)) (\<lambda>(maj, m, p).
     let s = s\<lparr>hmem := m, page_state := p\<rparr>; m = fresh_major maj (pages_for sz) m in
     if maj = 0 then Inr (0, s\<lparr>l_warningCount := l_warningCount s + 1\<rparr>)
     else Inr (maj, s\<lparr>hmem := m, l_allocated := l_allocated s + ucast (get m maj Size)\<rparr>))"
proof -
  have "sz + 24 + 24 = sz + 48" by simp
  then show ?thesis unfolding allocate_new_page_def pages_for_def fresh_major_def l_pageSize_def l_pageCount_def Let_def by (simp only:)
qed

lemma allocate_new_page_eq:
  assumes "page_alloc ops (pages_for sz) (hmem s) (page_state s) = Inr (b, m, p)" and "b \<noteq> 0" and "fits b"
  shows "allocate_new_page ops sz s =
    Inr (b, s\<lparr>hmem := fresh_major b (pages_for sz) m, page_state := p, l_allocated := l_allocated s + ucast (pages_for sz * 4096)\<rparr>)"
proof -
  have sep: "separated (insert b {})" using assms(3) by (simp add: separated_def)
  have "get (fresh_major b (pages_for sz) m) b Size = pages_for sz * 4096" using get_fresh_major(1) [OF sep] by simp
  then show ?thesis using assms(1,2) by (simp add: allocate_new_page_pages_for)
qed

text \<open>A new block at the end of the list.\<close>

lemma append_layout:
  assumes "layout Ms" and "b \<noteq> 0" and "unat b mod 4096 = 0" and "pg \<noteq> 0" and "unat b + unat pg * 4096 \<le> 2 ^ 32"
    and "bytes_at b (unat pg * 4096) \<inter> areas Ms = {}"
  shows "layout (Ms @ [Major b pg []])"
proof -
  have "0 < unat pg" using assms(4) by (simp add: unat_gt_0)
  then have "4096 \<le> unat pg * 4096" by simp
  then have g: "major_geo (Major b pg [])" using assms by (simp add: major_geo_def major_end_def)
  have "mj_at M \<noteq> b" if "M \<in> set Ms" for M
  proof
    assume b: "mj_at M = b"
    have "major_geo M" using assms(1) that by (simp add: layout_def)
    then have "b \<in> areas Ms" using major_geo_hdr(2) [of M] at_hdr [of b] b that by (auto simp: areas_def)
    moreover have "b \<in> bytes_at b (unat pg * 4096)" using \<open>0 < unat pg\<close> by (simp add: bytes_at_def)
    ultimately show False using assms(6) by blast
  qed
  then have "b \<notin> mj_at ` set Ms" by auto
  then show ?thesis using assms(1,6) g unfolding layout_def areas_def by auto
qed

lemma append_heap:
  assumes ok: "heap_ok s Ms" and lay: "layout (Ms @ [Major b st []])"
    and m: "\<And>y. y \<notin> bytes_at b (unat st * 4096) \<Longrightarrow> m y = hmem s y"
    and m': "m' = (if Ms = [] then fresh_major b st m else put b Prev (last_at 0 (map mj_at Ms)) (put (last_at 0 (map mj_at Ms)) Next b (fresh_major b st m)))"
  shows "heap_ok (s\<lparr>hmem := m', page_state := p, l_allocated := l_allocated s + ucast (st * 4096), l_memRoot := head_at (map mj_at Ms) b\<rparr>) (Ms @ [Major b st []])"
    and "keeps (hmem s) m' Ms"
proof -
  let ?N = "Ms @ [Major b st []]" and ?l = "last_at 0 (map mj_at Ms)" and ?B = "Major b st []"
  have lo: "layout Ms" using ok by (simp add: heap_ok_def)
  have sep: "separated (insert b (headers Ms))" using layout_separated [OF lay] by (simp add: Un_commute)
  have bM: "?B \<in> set ?N" by simp
  have area: "hdr c \<inter> bytes_at b (unat st * 4096) = {}" "b \<noteq> c" if c: "c \<in> headers Ms" for c
  proof -
    obtain N where N: "N \<in> set Ms" "c = mj_at N \<or> c \<in> mn_at ` set (mj_minors N)" using c by (auto simp: headers_def)
    have "mj_at N \<noteq> mj_at ?B" using N(1) lay by (auto simp: layout_def)
    then have "N \<noteq> ?B" by auto
    moreover have geo: "major_geo N" "major_geo ?B" using lay N(1) by (auto simp: layout_def)
    moreover have "hdr c \<subseteq> major_area N" using N(2) major_geo_hdr(2) [OF geo(1)] major_geo_minor(2,3) [OF geo(1)] by blast
    ultimately show d: "hdr c \<inter> bytes_at b (unat st * 4096) = {}"
      using layout_regions(3) [OF lay, of N ?B] N(1) by auto
    have "b \<in> bytes_at b (unat st * 4096)" using major_geo_hdr(2) [OF geo(2)] at_hdr [of b] by auto
    then show "b \<noteq> c" using d at_hdr [of c] by auto
  qed
  have nb: "b \<notin> headers Ms" using area(2) by blast
  have l: "?l \<in> headers Ms" "?l \<noteq> b" if "Ms \<noteq> []"
    using that last_at_in [of "map mj_at Ms" 0] area(2) by (auto simp: headers_def)
  note gf = get_fresh_major [OF sep nb]
  have gm: "get m c f = get (hmem s) c f" if "c \<in> headers Ms" for c f
  proof (rule get_cong)
    show "fits c" using that sep by (simp add: separated_def)
    show "m x = hmem s x" if "x \<in> hdr c" for x using area(1) [OF \<open>c \<in> headers Ms\<close>] that by (intro m) blast
  qed
  have gets: "get m' c f = (if c = ?l \<and> f = Next then b else get (hmem s) c f)" if "c \<in> headers Ms" for c f
    using that l nb gm [OF that] gf(2) [OF that] zero_not_header [OF lo] by (cases "Ms = []") (auto simp: m' get_put [OF sep])
  have new: "get m' b f = (if f = Prev then ?l else get (fresh_major b st m) b f)" for f
    using l gf(1) by (cases "Ms = []") (auto simp: m' get_put [OF sep])
  have geo: "major_geo ?B" using lay by (simp add: layout_def)
  have bytes: "m' y = hmem s y" if "y \<notin> \<Union> (hdr ` headers Ms)" "y \<notin> major_area ?B" for y
  proof -
    have y: "y \<notin> hdr b" "fits b" using that(2) major_geo_hdr [OF geo] by auto
    have "fresh_major b st m y = m y" unfolding fresh_major_def by (simp add: put_outside y)
    moreover have "m' y = fresh_major b st m y"
      using that(1) y l sep by (auto simp: m' put_outside separated_def)
    ultimately show ?thesis using m [of y] that(2) by simp
  qed
  have "content m' ?N"
    using ok by (intro append_content [OF _ lo lay _ _ _ _ _ _ gets bytes]) (simp_all add: new gf(1) heap_ok_def)
  then show "heap_ok (s\<lparr>hmem := m', page_state := p, l_allocated := l_allocated s + ucast (st * 4096), l_memRoot := head_at (map mj_at Ms) b\<rparr>) ?N"
    using ok lay by (auto simp: heap_ok_def)
  show "keeps (hmem s) m' Ms"
    unfolding keeps_def
  proof (intro ballI)
    fix x y assume "x \<in> set (minors_of Ms)" and y: "y \<in> payload x"
    then obtain N where N: "N \<in> set Ms" "x \<in> set (mj_minors N)" unfolding in_minors_of by blast
    have "mj_at N \<noteq> mj_at ?B" using N(1) lay by (auto simp: layout_def)
    then have "N \<noteq> ?B" by auto
    then have "major_area N \<inter> major_area ?B = {}" using layout_regions(3) [OF lay, of N ?B] N(1) by simp
    moreover have "y \<in> major_area N" using y N major_geo_minor(3) [of N x] lo by (auto simp: payload_def layout_def)
    ultimately show "m' y = hmem s y" using payload_not_header [OF lo N y] by (intro bytes) blast+
  qed
qed

section \<open>The search over the blocks\<close>

definition grown :: "major list \<Rightarrow> major list \<Rightarrow> minor \<Rightarrow> bool" where
  "grown Ms Ms' x \<longleftrightarrow> (\<exists>A a pg xs ys B. Ms = A @ Major a pg (xs @ ys) # B \<and> Ms' = A @ Major a pg (xs @ x # ys) # B)
     \<or> (\<exists>a. Ms' = Ms @ [Major a (pages_for (mn_size x)) [x]])"

definition malloc_post :: "('p \<Rightarrow> u32 set \<Rightarrow> bool) \<Rightarrow> 'p heap \<Rightarrow> 'p heap \<Rightarrow> major list \<Rightarrow> u32 \<Rightarrow> u32 \<Rightarrow> u32 \<Rightarrow> bool" where
  "malloc_post pages_ok s s' Ms sz req p \<longleftrightarrow> (\<exists>Ms' x. grown Ms Ms' x \<and> mn_size x = sz \<and> mn_req x = req \<and> roomy x \<and> p = user_ptr (mn_at x)
     \<and> heap_ok s' Ms' \<and> pages_ok (page_state s') (areas Ms') \<and> keeps (hmem s) (hmem s') Ms \<and> interrupts s')"

lemma grown_intros:
  "grown (A @ Major a pg (xs @ ys) # B) (A @ Major a pg (xs @ x # ys) # B) x" "grown Ms (Ms @ [Major a (pages_for (mn_size x)) [x]]) x"
  unfolding grown_def by blast+

lemma placed_post:
  assumes "placed s s' A a pg ms B sz req p" and "pages_ok (page_state s) (areas (A @ Major a pg ms # B))"
  shows "malloc_post pages_ok s s' (A @ Major a pg ms # B) sz req p"
proof -
  obtain xs ys x where x: "ms = xs @ ys" "mn_size x = sz" "mn_req x = req" "roomy x" "p = user_ptr (mn_at x)"
    "heap_ok s' (A @ Major a pg (xs @ x # ys) # B)" "keeps (hmem s) (hmem s') (A @ Major a pg ms # B)" "page_state s' = page_state s" "interrupts s'"
    using assms(1) unfolding placed_def by blast
  then show ?thesis
    unfolding malloc_post_def using assms(2)
    by (intro exI [of _ "A @ Major a pg (xs @ x # ys) # B"] exI [of _ x] conjI) (simp_all add: grown_intros)
qed

text \<open>Placing in a block that has just been appended.\<close>

lemma placed_new_post:
  assumes "placed s1 s' Ms b (pages_for sz) [] [] sz req p" and "pages_ok (page_state s1) (areas (Ms @ [Major b (pages_for sz) []]))" and "keeps (hmem s) (hmem s1) Ms"
  shows "malloc_post pages_ok s s' Ms sz req p"
proof -
  obtain x where x: "mn_size x = sz" "mn_req x = req" "roomy x" "p = user_ptr (mn_at x)"
    "heap_ok s' (Ms @ [Major b (pages_for sz) [x]])" "keeps (hmem s1) (hmem s') (Ms @ [Major b (pages_for sz) []])" "page_state s' = page_state s1" "interrupts s'"
    using assms(1) unfolding placed_def by auto
  have "keeps (hmem s) (hmem s') Ms" using assms(3) x(6) by (simp add: keeps_def)
  then show ?thesis
    unfolding malloc_post_def using assms(2) x
    by (intro exI [of _ "Ms @ [Major b (pages_for sz) [x]]"] exI [of _ x] conjI) (simp_all add: grown_def)
qed

locale page_giver =
  fixes ops :: "'p page_ops" and pages_ok :: "'p \<Rightarrow> u32 set \<Rightarrow> bool" and room :: "u32 \<Rightarrow> 'p \<Rightarrow> bool"
  assumes alloc_pages: "pages_ok p S \<Longrightarrow> n \<noteq> 0 \<Longrightarrow> room n p \<Longrightarrow> \<exists>b m' p'. page_alloc ops n m p = Inr (b, m', p')
      \<and> b \<noteq> 0 \<and> unat b mod 4096 = 0 \<and> unat b + unat n * 4096 \<le> 2 ^ 32 \<and> bytes_at b (unat n * 4096) \<inter> S = {}
      \<and> (\<forall>y. y \<notin> bytes_at b (unat n * 4096) \<longrightarrow> m' y = m y) \<and> pages_ok p' (S \<union> bytes_at b (unat n * 4096))"
begin

lemma new_block:
  assumes ok: "heap_ok s Ms" and pages: "pages_ok (page_state s) (areas Ms)" and rq: "request req sz" and room: "room (pages_for sz) (page_state s)"
  obtains b m p where "allocate_new_page ops sz s =
      Inr (b, s\<lparr>hmem := fresh_major b (pages_for sz) m, page_state := p, l_allocated := l_allocated s + ucast (pages_for sz * 4096)\<rparr>)"
    and "b \<noteq> 0" and "layout (Ms @ [Major b (pages_for sz) []])" and "\<forall>y. y \<notin> bytes_at b (unat (pages_for sz) * 4096) \<longrightarrow> m y = hmem s y"
    and "pages_ok p (areas (Ms @ [Major b (pages_for sz) []]))"
proof -
  note st = pages_for_enough [OF rq]
  obtain b m p where b: "page_alloc ops (pages_for sz) (hmem s) (page_state s) = Inr (b, m, p)" "b \<noteq> 0" "unat b mod 4096 = 0"
    "unat b + unat (pages_for sz) * 4096 \<le> 2 ^ 32" "bytes_at b (unat (pages_for sz) * 4096) \<inter> areas Ms = {}"
    "\<forall>y. y \<notin> bytes_at b (unat (pages_for sz) * 4096) \<longrightarrow> m y = hmem s y" "pages_ok p (areas Ms \<union> bytes_at b (unat (pages_for sz) * 4096))"
    using alloc_pages [OF pages st(2) room, of "hmem s"] by (elim exE conjE) (rule that)
  have lay: "layout (Ms @ [Major b (pages_for sz) []])"
    using ok b by (intro append_layout) (simp_all add: heap_ok_def st(2))
  then have "fits b" using major_geo_hdr(1) [of "Major b (pages_for sz) []"] by (simp add: layout_def)
  from that [OF allocate_new_page_eq [OF b(1,2) this] b(2) lay b(6)] b(7) show thesis by simp
qed

lemma append_block_works:
  assumes Ms: "Ms = A @ [Major a pg ms]" and ok: "heap_ok s Ms" and pages: "pages_ok (page_state s) (areas Ms)" and rq: "request req sz"
    and room: "room (pages_for sz) (page_state s)"
  obtains b s' where "append_block ops a sz s = Inr (b, s')" and "b \<noteq> 0" and "heap_ok s' (Ms @ [Major b (pages_for sz) []])"
    and "pages_ok (page_state s') (areas (Ms @ [Major b (pages_for sz) []]))" and "keeps (hmem s) (hmem s') Ms"
proof -
  let ?st = "pages_for sz"
  obtain b m p where b: "allocate_new_page ops sz s =
      Inr (b, s\<lparr>hmem := fresh_major b ?st m, page_state := p, l_allocated := l_allocated s + ucast (?st * 4096)\<rparr>)"
    "b \<noteq> 0" "layout (Ms @ [Major b ?st []])" "\<forall>y. y \<notin> bytes_at b (unat ?st * 4096) \<longrightarrow> m y = hmem s y"
    "pages_ok p (areas (Ms @ [Major b ?st []]))"
    by (rule new_block [OF ok pages rq room])
  define m' where "m' = put b Prev a (put a Next b (fresh_major b ?st m))"
  have m': "m' = (if Ms = [] then fresh_major b ?st m
      else put b Prev (last_at 0 (map mj_at Ms)) (put (last_at 0 (map mj_at Ms)) Next b (fresh_major b ?st m)))"
    by (simp add: m'_def Ms)
  let ?s = "s\<lparr>hmem := m', page_state := p, l_allocated := l_allocated s + ucast (?st * 4096)\<rparr>"
  have root: "l_memRoot s = head_at (map mj_at Ms) b" using ok by (simp add: heap_ok_def Ms)
  have h: "heap_ok ?s (Ms @ [Major b ?st []])" "keeps (hmem s) m' Ms"
    using append_heap(1) [OF ok b(3) b(4) [rule_format] m', of p] append_heap(2) [OF ok b(3) b(4) [rule_format] m'] root by (simp_all add: heap_ok_def)
  have "append_block ops a sz s = Inr (b, ?s)" using b(1,2) by (simp add: append_block_def m'_def)
  from that [OF this b(2) h(1)] show thesis using b(5) h(2) by simp
qed

lemma search_new:
  assumes ok: "heap_ok s1 (Ms @ [Major b (pages_for sz) []])" and pages: "pages_ok (page_state s1) (areas (Ms @ [Major b (pages_for sz) []]))"
    and rq: "request req sz" and fuel: "0 < fuel" and keeps: "keeps (hmem s) (hmem s1) Ms"
  shows "\<exists>p s'. cases_2_to_4 fuel b sz req s1 = Inr (Some (p, s')) \<and> malloc_post pages_ok s s' Ms sz req p"
    and "\<exists>p s'. search (Suc n) fuel ops sz req b bet best s1 = Inr (p, s') \<and> malloc_post pages_ok s s' Ms sz req p"
proof -
  note st = pages_for_enough [OF rq]
  have one: "\<exists>p s'. cases_2_to_4 fuel b sz req t = Inr (Some (p, s')) \<and> malloc_post pages_ok s s' Ms sz req p"
    if "heap_ok t (Ms @ [Major b (pages_for sz) []])" "hmem t = hmem s1" "page_state t = page_state s1" for t
    using cases_2_to_4_places [of t Ms b "pages_for sz" "[]" "[]" req sz fuel] that rq fuel st(1) pages keeps
    by (auto dest: placed_new_post [where s = s and pages_ok = pages_ok])
  show "\<exists>p s'. cases_2_to_4 fuel b sz req s1 = Inr (Some (p, s')) \<and> malloc_post pages_ok s s' Ms sz req p" using one [of s1] ok by simp
  let ?t = "if best < ucast (get (hmem s1) b Size - get (hmem s1) b Usage) then s1\<lparr>l_bestBet := b\<rparr> else s1"
  have t: "hmem ?t = hmem s1" "page_state ?t = page_state s1" by simp_all
  have okt: "heap_ok ?t (Ms @ [Major b (pages_for sz) []])" using ok heap_ok_bet [OF ok, of b] by auto
  have b0: "b \<noteq> 0" using block_geo(1) [of s1 Ms b "pages_for sz" "[]" "[]"] ok by simp
  have "unat (get (hmem s1) b Size - get (hmem s1) b Usage) = unat (pages_for sz) * 4096 - 24"
    using block_free(1) [of s1 Ms b "pages_for sz" "[]" "[]"] ok by (simp add: space_used_def)
  then have d: "\<not> get (hmem s1) b Size - get (hmem s1) b Usage < sz + 24" using st(1) request_24 [OF rq] by (simp add: word_less_nat_alt)
  obtain p s' where "cases_2_to_4 fuel b sz req ?t = Inr (Some (p, s'))" "malloc_post pages_ok s s' Ms sz req p"
    using one [OF okt] t by auto
  then show "\<exists>p s'. search (Suc n) fuel ops sz req b bet best s1 = Inr (p, s') \<and> malloc_post pages_ok s s' Ms sz req p"
    using b0 d by (simp add: Let_def)
qed

text \<open>
  The loop ends: it goes through the blocks behind the one it starts at, once more through all of them when it
  started at the best bet, and then asks for a new block, which is large enough.
\<close>

lemma search_finds:
  assumes rq: "request req sz" and fuel: "\<forall>M \<in> set Ms. length (mj_minors M) < fuel" and f0: "0 < fuel"
  shows "heap_ok s Ms \<Longrightarrow> pages_ok (page_state s) (areas Ms) \<Longrightarrow> room (pages_for sz) (page_state s) \<Longrightarrow> Ms = A @ Major a pg ms # B \<Longrightarrow>
      (if bet then length Ms else 0) + length B + 1 < n \<Longrightarrow>
      \<exists>p s'. search n fuel ops sz req a bet best s = Inr (p, s') \<and> malloc_post pages_ok s s' Ms sz req p"
proof (induction n arbitrary: s A a pg ms B bet best)
  case (Suc n)
  define diff where "diff = get (hmem s) a Size - get (hmem s) a Usage"
  define t where "t = (if best < ucast diff then s\<lparr>l_bestBet := a\<rparr> else s)"
  define best' where "best' = (if best < ucast diff then ucast diff else best)"
  note Ms = Suc.prems(4)
  have t: "hmem t = hmem s" "page_state t = page_state s" "l_memRoot t = l_memRoot s" by (simp_all add: t_def)
  have ok: "heap_ok t Ms" using heap_ok_bet [OF Suc.prems(1), of a] Suc.prems(1) by (simp add: t_def Ms)
  note ok' = ok [unfolded Ms]
  have pages: "pages_ok (page_state t) (areas Ms)" and room: "room (pages_for sz) (page_state t)" using Suc.prems(2,3) t by simp_all
  have a0: "a \<noteq> 0" using block_geo(1) [OF ok'] .
  have post: "malloc_post pages_ok s s' Ms sz req p" if "malloc_post pages_ok t s' Ms sz req p" for s' p
    using that t by (simp add: malloc_post_def)
  have nx: "get (hmem t) a Next = head_at (map mj_at B) 0" by (rule block_reads(4) [OF ok'])
  have behind: "\<exists>p s'. search n fuel ops sz req (get (hmem t) a Next) bet best' t = Inr (p, s') \<and> malloc_post pages_ok t s' Ms sz req p"
    and next0: "get (hmem t) a Next \<noteq> 0" if B: "B \<noteq> []"
  proof -
    obtain b pg' ms' B' where B': "B = Major b pg' ms' # B'" using B by (cases B) (auto, metis major.exhaust)
    have split: "Ms = (A @ [Major a pg ms]) @ Major b pg' ms' # B'" by (simp add: Ms B')
    have "b \<noteq> 0" using block_geo(1) [of t "A @ [Major a pg ms]"] ok split by metis
    then show "get (hmem t) a Next \<noteq> 0" using nx B' by simp
    show "\<exists>p s'. search n fuel ops sz req (get (hmem t) a Next) bet best' t = Inr (p, s') \<and> malloc_post pages_ok t s' Ms sz req p"
      using Suc.IH [OF ok pages room split, of bet best'] Suc.prems(5) nx B' by simp
  qed
  have again: "\<exists>p s'. search n fuel ops sz req (l_memRoot t) False best' t = Inr (p, s') \<and> malloc_post pages_ok t s' Ms sz req p" if bet
  proof -
    obtain b pg' ms' B' where B': "Ms = [] @ Major b pg' ms' # B'" using Ms by (cases Ms) (auto, metis major.exhaust)
    have "l_memRoot t = b" using ok B' by (simp add: heap_ok_def)
    then show ?thesis using Suc.IH [OF ok pages room B', of False best'] Suc.prems(5) B' that by simp
  qed
  have here: "cases_2_to_4 fuel a sz req t = Inr None
      \<or> (\<exists>p s'. cases_2_to_4 fuel a sz req t = Inr (Some (p, s')) \<and> malloc_post pages_ok t s' Ms sz req p)" if d: "\<not> diff < sz + 24"
  proof -
    have fm: "length ms < fuel" using fuel Ms by auto
    have "ms = [] \<Longrightarrow> 48 + unat sz \<le> unat pg * 4096"
      using d block_free [OF ok'] request_24 [OF rq] t(1) by (simp add: diff_def word_less_nat_alt space_used_def)
    from cases_2_to_4_places [OF ok' rq fm this] show ?thesis
      using placed_post [of t _ A a pg ms B sz req _ pages_ok] pages Ms by blast
  qed
  note step = Let_def diff_def [symmetric] t_def [symmetric] best'_def [symmetric]
  show ?case
  proof (cases "B = []")
    case False
    then show ?thesis using behind next0 here a0 post by (cases "diff < sz + 24") (auto simp: step)
  next
    case True
    have split: "Ms = A @ [Major a pg ms]" using Ms True by simp
    obtain b s1 where b: "append_block ops a sz t = Inr (b, s1)" "b \<noteq> 0" "heap_ok s1 (Ms @ [Major b (pages_for sz) []])"
      "pages_ok (page_state s1) (areas (Ms @ [Major b (pages_for sz) []]))" "keeps (hmem t) (hmem s1) Ms"
      by (rule append_block_works [OF split ok pages rq room])
    note new = search_new [OF b(3,4) rq f0 b(5)]
    obtain k where k: "n = Suc k" using Suc.prems(5) by (cases n) auto
    have n0: "get (hmem t) a Next = 0" using nx True by simp
    show ?thesis
    proof (cases bet)
      case True
      then show ?thesis using again here n0 a0 post by (cases "diff < sz + 24") (auto simp: step)
    next
      case False
      have "\<exists>p s'. search n fuel ops sz req b False best' s1 = Inr (p, s') \<and> malloc_post pages_ok t s' Ms sz req p"
        unfolding k by (rule new(2))
      then show ?thesis using new(1) False here b(1,2) n0 a0 post by (cases "diff < sz + 24") (auto simp: step)
    qed
  qed
qed simp

lemma malloc_sized_works:
  assumes ok: "heap_ok s Ms" and pages: "pages_ok (page_state s) (areas Ms)" and rq: "request req sz" and room: "room (pages_for sz) (page_state s)"
    and fuel: "2 * length Ms + 1 < fuel" "\<forall>M \<in> set Ms. length (mj_minors M) < fuel"
  shows "\<exists>p s'. malloc_sized fuel ops sz req s = Inr (p, s') \<and> malloc_post pages_ok s s' Ms sz req p"
proof (cases "Ms = []")
  case True
  obtain k where k: "fuel = Suc k" using fuel(1) by (cases fuel) auto
  obtain b m p where b: "allocate_new_page ops sz s =
      Inr (b, s\<lparr>hmem := fresh_major b (pages_for sz) m, page_state := p, l_allocated := l_allocated s + ucast (pages_for sz * 4096)\<rparr>)"
    "b \<noteq> 0" "layout (Ms @ [Major b (pages_for sz) []])" "\<forall>y. y \<notin> bytes_at b (unat (pages_for sz) * 4096) \<longrightarrow> m y = hmem s y"
    "pages_ok p (areas (Ms @ [Major b (pages_for sz) []]))"
    by (rule new_block [OF ok pages rq room])
  let ?s = "s\<lparr>hmem := fresh_major b (pages_for sz) m, page_state := p, l_allocated := l_allocated s + ucast (pages_for sz * 4096), l_memRoot := b\<rparr>"
  have ok1: "heap_ok ?s (Ms @ [Major b (pages_for sz) []])"
    using append_heap(1) [OF ok b(3) b(4) [rule_format] refl, of p] True by simp
  have s0: "l_memRoot s = 0" "l_bestBet s = 0" using ok True by (simp_all add: heap_ok_def)
  have "pages_ok (page_state ?s) (areas (Ms @ [Major b (pages_for sz) []]))" "keeps (hmem s) (hmem ?s) Ms"
    using b(5) True by (simp_all add: keeps_def)
  from search_new(2) [OF ok1 this(1) rq _ this(2), of fuel k False 0] show ?thesis
    using b(1,2) s0 k by (simp add: malloc_sized_def del: search.simps)
next
  case False
  define bs where "bs = (if l_bestBet s \<noteq> 0 then get (hmem s) (l_bestBet s) Size - get (hmem s) (l_bestBet s) Usage else 0)"
  define bet where "bet = (l_bestBet s \<noteq> 0 \<and> bs > sz + 24)"
  define a where "a = (if bet then l_bestBet s else l_memRoot s)"
  have root: "l_memRoot s \<in> mj_at ` set Ms"
    using ok False head_at_in [of "map mj_at Ms" 0] by (simp add: heap_ok_def)
  moreover have "l_bestBet s \<in> mj_at ` set Ms" if bet using ok that by (auto simp: heap_ok_def bet_def)
  ultimately have "a \<in> mj_at ` set Ms" by (auto simp: a_def)
  then obtain A M B where split: "Ms = A @ M # B" and M: "a = mj_at M" by (auto simp: in_set_conv_decomp)
  have split': "Ms = A @ Major a (mj_pages M) (mj_minors M) # B" using split M by simp
  have "(if bet then length Ms else 0) + length B + 1 < fuel" using fuel(1) split by simp
  from search_finds [OF rq fuel(2) _ ok pages room split' this, of "ucast bs"]
  obtain p s' where r: "search fuel fuel ops sz req a bet (ucast bs) s = Inr (p, s')" "malloc_post pages_ok s s' Ms sz req p"
    using fuel(1) by auto
  have "l_memRoot s \<noteq> 0" using root ok by (auto simp: heap_ok_def layout_def major_geo_def)
  then have "malloc_sized fuel ops sz req s = search fuel fuel ops sz req a bet (ucast bs) s"
    by (simp add: malloc_sized_def Let_def bs_def [symmetric] bet_def [symmetric] a_def [symmetric] del: search.simps)
  then show ?thesis using r by auto
qed

lemma malloc_works:
  assumes ok: "heap_ok s Ms" and pages: "pages_ok (page_state s) (areas Ms)" and rq: "unat req + 80 < 2 ^ 32"
    and room: "room (pages_for (req + 32)) (page_state s)"
    and fuel: "2 * length Ms + 1 < fuel" "\<forall>M \<in> set Ms. length (mj_minors M) < fuel"
  shows "\<exists>p s'. la_malloc fuel ops req s = Inr (p, s') \<and> malloc_post pages_ok s s' Ms (req + 32) req p"
proof -
  have u: "unat (req + 32) = unat req + 32" using rq unat_plus_no_wrap [of req 32] by simp
  then have r: "request req (req + 32)" using rq by (simp add: request_def)
  have n0: "req + 32 \<noteq> 0" using u by (metis add_is_0 unat_0 zero_neq_numeral)
  let ?s = "liballoc_lock s"
  have "heap_ok ?s Ms" "pages_ok (page_state ?s) (areas Ms)" "room (pages_for (req + 32)) (page_state ?s)"
    using ok pages room by (simp_all add: liballoc_lock_def heap_ok_def)
  from malloc_sized_works [OF this(1,2) r this(3) fuel]
  obtain p s' where "malloc_sized fuel ops (req + 32) req ?s = Inr (p, s')" "malloc_post pages_ok ?s s' Ms (req + 32) req p" by blast
  then show ?thesis
    using n0 by (auto simp: la_malloc_def ALIGNMENT_def ALIGN_INFO_def Let_def malloc_post_def liballoc_lock_def)
qed

end

text \<open>A source that also takes pages back.\<close>

locale page_source = page_giver +
  assumes free_pages: "pages_ok p S \<Longrightarrow> n \<noteq> 0 \<Longrightarrow> unat b mod 4096 = 0 \<Longrightarrow> unat b + unat n * 4096 \<le> 2 ^ 32 \<Longrightarrow> bytes_at b (unat n * 4096) \<subseteq> S
      \<Longrightarrow> \<exists>p'. page_free ops b n p = Inr p' \<and> pages_ok p' (S - bytes_at b (unat n * 4096))"

end
