(* ===== verification/Heap_Free.thy ===== *)
theory Heap_Free
  imports Heap_Allocation
begin

text \<open>\<open>free\<close>: the allocation is linked out, and a block without allocations goes back to the source of pages.\<close>

section \<open>Unlinking\<close>

lemma unlink_minor_linked:
  assumes sep: "separated (insert b H)" and a: "a \<in> H" "b \<notin> H" "0 \<notin> H"
    and links: "get m b Prev = p" "get m b Next = n" "get m b Min_Size = mn_size x" "mn_at x = b"
    and pn: "p = 0 \<or> p \<in> H \<and> p \<noteq> a" "n = 0 \<or> n \<in> H \<and> n \<noteq> a" "p = n \<Longrightarrow> p = 0"
  shows "linked_out m (unlink_minor b a m) H a p n x"
proof -
  note gp = get_put [OF sep]
  have ne: "a \<noteq> b" "b \<noteq> a" "b \<noteq> 0 \<Longrightarrow> p \<noteq> b" "n \<noteq> 0 \<Longrightarrow> n \<noteq> b" "p \<noteq> 0 \<Longrightarrow> p \<noteq> b" using a pn by auto
  have fit: "fits a" "fits b" "n \<noteq> 0 \<Longrightarrow> fits n" "p \<noteq> 0 \<Longrightarrow> fits p" using sep a(1) pn by (auto simp: separated_def)
  let ?m2 = "put b Magic LIBALLOC_DEAD (put a Usage (get m a Usage - (mn_size x + 24)) m)"
  let ?m3 = "if n \<noteq> 0 then put n Prev p ?m2 else ?m2"
  let ?m4 = "if p \<noteq> 0 then put p Next n ?m3 else ?m3"
  let ?m5 = "if p = 0 then put a First n ?m4 else ?m4"
  have r2: "get ?m2 b Next = n" "get ?m2 b Prev = p" using a ne links by (simp_all add: gp)
  have r3: "get ?m3 b Next = n" "get ?m3 b Prev = p" using a ne links pn r2 by (auto simp: gp)
  have r4: "get ?m4 b Next = n" "get ?m4 b Prev = p" using a ne links pn r3 by (auto simp: gp)
  have m: "unlink_minor b a m = ?m5" unfolding unlink_minor_def Let_def links(3) r2 r3 r4 by (rule refl)
  have "get ?m5 c f = (if c = a \<and> f = Usage then get m a Usage - (mn_size x + 24)
          else if c = a \<and> f = First \<and> p = 0 then n
          else if c = p \<and> f = Next then n else if c = n \<and> f = Prev then p else get m c f)" if c: "c \<in> H" for c f
    using c a ne pn by (cases "p = 0"; cases "n = 0") (auto simp: gp)
  moreover have "?m5 y = m y" if "y \<notin> \<Union> (hdr ` insert b H)" for y
    using that a fit pn by (auto simp: put_outside)
  ultimately show ?thesis unfolding linked_out_def m links(4) by blast
qed

lemma allocation_reads:
  assumes ok: "heap_ok s (A @ Major a pg (xs @ x # ys) # B)"
  shows "UNALIGN (hmem s) (user_ptr (mn_at x)) - 24 = mn_at x" and "get (hmem s) (mn_at x) Magic = LIBALLOC_MAGIC"
    and "get (hmem s) (mn_at x) Block = a" and "get (hmem s) (mn_at x) Min_Size = mn_size x" and "get (hmem s) (mn_at x) Req_Size = mn_req x"
    and "user_ptr (mn_at x) \<noteq> 0" and "roomy x"
proof -
  have mm: "minor_mem (hmem s) a x" using ok by (simp add: heap_ok_def content_def major_mem_def)
  show ro: "roomy x" using content_roomy [of "A @ Major a pg (xs @ x # ys) # B" "hmem s" "Major a pg (xs @ x # ys)" x] ok by (simp add: heap_ok_def)
  have t: "hmem s (tag_at (mn_at x)) = tag (mn_at x)" using mm by (simp add: minor_mem_def)
  show "UNALIGN (hmem s) (user_ptr (mn_at x)) - 24 = mn_at x" using tag_facts(4) [OF roomy_tag(3) [OF ro], of "hmem s"] t by simp
  show "get (hmem s) (mn_at x) Magic = LIBALLOC_MAGIC" "get (hmem s) (mn_at x) Block = a" "get (hmem s) (mn_at x) Min_Size = mn_size x"
    "get (hmem s) (mn_at x) Req_Size = mn_req x" using mm by (simp_all add: minor_mem_def)
  obtain k where "unat (user_ptr (mn_at x)) = unat (mn_at x) + 24 + k" using user_ptr_bounds [OF roomy_tag(3) [OF ro]] by metis
  then show "user_ptr (mn_at x) \<noteq> 0" by (metis add_is_0 unat_0 zero_neq_numeral)
qed

lemma keeps_headers:
  assumes "layout Ms" and "\<And>y. y \<notin> \<Union> (hdr ` headers Ms) \<Longrightarrow> m' y = m y"
  shows "keeps m m' Ms"
  unfolding keeps_def
proof (intro ballI)
  fix x y assume "x \<in> set (minors_of Ms)" and y: "y \<in> payload x"
  then obtain N where N: "N \<in> set Ms" "x \<in> set (mj_minors N)" unfolding in_minors_of by blast
  show "m' y = m y" using payload_not_header [OF assms(1) N y] by (intro assms(2)) blast
qed

lemma keeps_subset: "keeps m m' Ms \<Longrightarrow> set (minors_of Ns) \<subseteq> set (minors_of Ms) \<Longrightarrow> keeps m m' Ns"
  by (auto simp: keeps_def)

lemma unlink_facts:
  assumes ok: "heap_ok s (A @ Major a pg (xs @ x # ys) # B)"
  defines "New \<equiv> A @ Major a pg (xs @ ys) # B" and "p \<equiv> last_at 0 (map mn_at xs)" and "n \<equiv> head_at (map mn_at ys) 0"
  shows "separated (insert (mn_at x) (headers New))" and "a \<in> headers New" and "mn_at x \<notin> headers New" and "0 \<notin> headers New"
    and "get (hmem s) (mn_at x) Prev = p" and "get (hmem s) (mn_at x) Next = n" and "get (hmem s) (mn_at x) Min_Size = mn_size x"
    and "p = 0 \<or> p \<in> headers New \<and> p \<noteq> a" and "n = 0 \<or> n \<in> headers New \<and> n \<noteq> a" and "p = n \<Longrightarrow> p = 0"
proof -
  let ?Old = "A @ Major a pg (xs @ x # ys) # B" and ?M = "Major a pg (xs @ x # ys)"
  have lay: "layout ?Old" using ok by (simp add: heap_ok_def)
  have hs: "headers ?Old = insert (mn_at x) (headers New)" by (auto simp: New_def)
  show "separated (insert (mn_at x) (headers New))" using layout_separated [OF lay] unfolding hs .
  show "0 \<notin> headers New" using zero_not_header [OF lay] unfolding hs by simp
  have d: "distinct (map mn_at (xs @ x # ys))" using layout_distinct [OF lay, of ?M] by simp
  have am: "mn_at y \<noteq> a" if "y \<in> set (xs @ ys)" for y using major_ne_minor [OF lay, of ?M ?M y] that by auto
  have p: "p = 0 \<or> p \<in> mn_at ` set xs" and n: "n = 0 \<or> n \<in> mn_at ` set ys"
    using last_at_in [of "map mn_at xs" 0] head_at_in [of "map mn_at ys" 0] by (cases "xs = []"; cases "ys = []"; auto simp: p_def n_def)+
  have sub: "mn_at ` set xs \<subseteq> headers New" "mn_at ` set ys \<subseteq> headers New" by (auto simp: New_def)
  show "a \<in> headers New" by (simp add: New_def)
  show "mn_at x \<notin> headers New" using lay unfolding New_def by (rule new_header)
  show "get (hmem s) (mn_at x) Prev = p" unfolding p_def by (rule block_reads(9) [OF ok refl])
  show "get (hmem s) (mn_at x) Next = n" unfolding n_def by (rule block_reads(7) [OF ok refl])
  show "get (hmem s) (mn_at x) Min_Size = mn_size x" by (rule block_reads(8) [OF ok refl])
  show "p = 0 \<or> p \<in> headers New \<and> p \<noteq> a" "n = 0 \<or> n \<in> headers New \<and> n \<noteq> a" using p n sub am by auto
  have "mn_at ` set xs \<inter> mn_at ` set ys = {}" using d by auto
  then show "p = 0" if "p = n" using that p n by blast
qed

text \<open>The header of what was freed stays in memory, marked as dead.\<close>

lemma unlink_minor_dead:
  assumes ok: "heap_ok s (A @ Major a pg (xs @ x # ys) # B)"
  shows "get (unlink_minor (mn_at x) a (hmem s)) (mn_at x) Magic = LIBALLOC_DEAD"
proof -
  note f = unlink_facts [OF ok]
  note gp = get_put [OF f(1)]
  show ?thesis using f(2-10) by (auto simp: unlink_minor_def Let_def gp)
qed

lemma unlink_heap:
  assumes ok: "heap_ok s (A @ Major a pg (xs @ x # ys) # B)"
  defines "s1 \<equiv> s\<lparr>interrupts := False, l_inuse := l_inuse s - ucast (mn_size x), hmem := unlink_minor (mn_at x) a (hmem s)\<rparr>"
  shows "heap_ok s1 (A @ Major a pg (xs @ ys) # B)" and "keeps (hmem s) (hmem s1) (A @ Major a pg (xs @ x # ys) # B)"
proof -
  let ?Old = "A @ Major a pg (xs @ x # ys) # B" and ?New = "A @ Major a pg (xs @ ys) # B"
  define p n where "p = last_at 0 (map mn_at xs)" and "n = head_at (map mn_at ys) 0"
  note f = unlink_facts [OF ok, folded p_def n_def]
  have lay: "layout ?Old" using ok by (simp add: heap_ok_def)
  have hs: "headers ?Old = insert (mn_at x) (headers ?New)" by auto
  have "linked_out (hmem s) (unlink_minor (mn_at x) a (hmem s)) (headers ?New) a p n x"
    by (rule unlink_minor_linked [OF f(1-4) f(5-7) refl f(8-10)])
  then have eff: "linked_out (hmem s) (hmem s1) (headers ?New) a p n x" by (simp add: s1_def)
  have "content (hmem s1) ?New" using remove_content [OF _ lay eff [unfolded p_def n_def]] ok by (simp add: heap_ok_def)
  then show "heap_ok s1 ?New" using ok layout_remove [OF lay] by (auto simp: heap_ok_def s1_def)
  show "keeps (hmem s) (hmem s1) ?Old" using lay linked_outD(2) [OF eff] unfolding hs [symmetric] by (rule keeps_headers)
qed

section \<open>Releasing a block\<close>

definition shrunk :: "major list \<Rightarrow> major list \<Rightarrow> minor \<Rightarrow> bool" where
  "shrunk Ms Ms' x \<longleftrightarrow> (\<exists>A a pg xs ys B. Ms = A @ Major a pg (xs @ x # ys) # B
     \<and> Ms' = (if xs @ ys = [] then A @ B else A @ Major a pg (xs @ ys) # B))"

lemma release_mem:
  assumes ok: "heap_ok s (A @ Major a pg [] # B)"
  defines "p \<equiv> last_at 0 (map mj_at A)" and "n \<equiv> head_at (map mj_at B) 0"
  defines "m' \<equiv> (if n \<noteq> 0 then put n Prev p (if p \<noteq> 0 then put p Next n (hmem s) else hmem s) else (if p \<noteq> 0 then put p Next n (hmem s) else hmem s))"
  shows "content m' (A @ B)" and "keeps (hmem s) m' (A @ B)"
    and "get m' a Size = pg * 4096" and "get m' a Pages = pg" and "get m' a Next = n" "get m' a Prev = p"
    and "get (if p \<noteq> 0 then put p Next n (hmem s) else hmem s) a Next = n" "get (if p \<noteq> 0 then put p Next n (hmem s) else hmem s) a Prev = p"
proof -
  let ?Ms = "A @ Major a pg [] # B" and ?M = "Major a pg []"
  have lay: "layout ?Ms" using ok by (simp add: heap_ok_def)
  have lo: "layout (A @ B)" using lay by (rule layout_drop)
  have sep: "separated (headers ?Ms)" using lay by (rule layout_separated)
  note gp = get_put [OF sep]
  have p: "p = 0 \<or> p \<in> mj_at ` set A" and n: "n = 0 \<or> n \<in> mj_at ` set B"
    using last_at_in [of "map mj_at A" 0] head_at_in [of "map mj_at B" 0] by (cases "A = []"; cases "B = []"; auto simp: p_def n_def)+
  have pn: "p = 0 \<or> p \<in> headers ?Ms \<and> p \<in> headers (A @ B) \<and> p \<noteq> a" "n = 0 \<or> n \<in> headers ?Ms \<and> n \<in> headers (A @ B) \<and> n \<noteq> a" "p \<noteq> 0 \<Longrightarrow> p \<noteq> n"
    using p n lay by (auto simp: headers_def layout_def)
  have fit: "n \<noteq> 0 \<Longrightarrow> fits n" "p \<noteq> 0 \<Longrightarrow> fits p" using sep pn by (auto simp: separated_def)
  have a: "a \<in> headers ?Ms" by simp
  have ra: "get (hmem s) a Next = n" "get (hmem s) a Prev = p" "get (hmem s) a Size = pg * 4096" "get (hmem s) a Pages = pg"
    using block_reads [OF ok] by (simp_all add: n_def p_def)
  show "get m' a Size = pg * 4096" "get m' a Pages = pg" "get m' a Next = n" "get m' a Prev = p"
    "get (if p \<noteq> 0 then put p Next n (hmem s) else hmem s) a Next = n" "get (if p \<noteq> 0 then put p Next n (hmem s) else hmem s) a Prev = p"
    using a pn ra by (auto simp: m'_def gp)
  have gets: "get m' c f = (if c = p \<and> f = Next then n else if c = n \<and> f = Prev then p else get (hmem s) c f)" if "c \<in> headers (A @ B)" for c f
  proof -
    have "c \<in> headers ?Ms" "c \<noteq> 0" using that zero_not_header [OF lo] by auto
    then show ?thesis using pn by (auto simp: m'_def gp)
  qed
  have bytes: "m' y = hmem s y" if "y \<notin> \<Union> (hdr ` headers (A @ B))" for y
    using that pn fit by (auto simp: m'_def put_outside)
  show "content m' (A @ B)" using ok gets bytes unfolding p_def n_def by (intro drop_content [OF _ lay]) (simp_all add: heap_ok_def)
  show "keeps (hmem s) m' (A @ B)" using lo bytes by (rule keeps_headers)
qed

lemma block_first:
  assumes "heap_ok s (A @ Major a pg zs # B)" and "zs \<noteq> []"
  shows "get (hmem s) a First \<noteq> 0"
proof -
  have "head_at (map mn_at zs) 0 \<in> headers (A @ Major a pg zs # B)"
    using assms(2) head_at_in [of "map mn_at zs" 0] by auto
  then show ?thesis using block_reads(3) [OF assms(1)] zero_not_header [of "A @ Major a pg zs # B"] assms(1) by (auto simp: heap_ok_def)
qed

context page_source
begin

lemma release_works:
  assumes ok: "heap_ok s (A @ Major a pg [] # B)" and pages: "pages_ok (page_state s) (areas (A @ Major a pg [] # B))"
  shows "\<exists>s'. release_major ops a s = Inr s' \<and> heap_ok s' (A @ B) \<and> pages_ok (page_state s') (areas (A @ B)) \<and> keeps (hmem s) (hmem s') (A @ B)"
proof -
  let ?Ms = "A @ Major a pg [] # B" and ?M = "Major a pg []"
  define p n where "p = last_at 0 (map mj_at A)" and "n = head_at (map mj_at B) 0"
  define m1 where "m1 = (if p \<noteq> 0 then put p Next n (hmem s) else hmem s)"
  define m' where "m' = (if n \<noteq> 0 then put n Prev p m1 else m1)"
  note rm = release_mem [OF ok, folded p_def n_def, folded m1_def, folded m'_def]
  have lay: "layout ?Ms" using ok by (simp add: heap_ok_def)
  have ra: "get (hmem s) a Next = n" "get (hmem s) a Prev = p" using block_reads [OF ok] by (simp_all add: n_def p_def)
  note g = block_geo [OF ok]
  have ar: "areas (A @ B) = areas ?Ms - bytes_at a (unat pg * 4096)"
  proof -
    have "major_area N \<inter> major_area ?M = {}" if "N \<in> set A \<union> set B" for N
    proof -
      have "mj_at N \<noteq> mj_at ?M" using that lay by (auto simp: layout_def)
      then have "N \<noteq> ?M" by auto
      then show ?thesis using layout_regions(3) [OF lay, of N ?M] that by auto
    qed
    then show ?thesis unfolding areas_def by auto
  qed
  obtain p' where p': "page_free ops a pg (page_state s) = Inr p'" "pages_ok p' (areas (A @ B))"
    using free_pages [OF pages g(4,5,3)] ar by auto
  let ?t = "s\<lparr>l_memRoot := if l_memRoot s = a then n else l_memRoot s, l_bestBet := if l_bestBet s = a then 0 else l_bestBet s,
      hmem := m', l_allocated := l_allocated s - ucast (pg * 4096), page_state := p'\<rparr>"
  have "release_major ops a s = Inr ?t"
    unfolding release_major_def Let_def ra m1_def [symmetric] rm(7,8) m'_def [symmetric] rm(3,4) using p'(1) by simp
  moreover have "heap_ok ?t (A @ B)"
  proof -
    have "l_memRoot s = a \<longleftrightarrow> A = []" using ok lay by (cases A) (auto simp: heap_ok_def layout_def)
    then have "(if l_memRoot s = a then n else l_memRoot s) = head_at (map mj_at (A @ B)) 0"
      using ok by (cases A) (auto simp: heap_ok_def n_def)
    moreover have "l_bestBet s = 0 \<or> l_bestBet s = a \<or> l_bestBet s \<in> mj_at ` set (A @ B)" using ok by (auto simp: heap_ok_def)
    ultimately show ?thesis using ok rm(1) layout_drop [OF lay] by (auto simp: heap_ok_def)
  qed
  ultimately show ?thesis using p'(2) rm(2) by auto
qed

lemma free_works:
  assumes ok: "heap_ok s (A @ Major a pg (xs @ x # ys) # B)" and pages: "pages_ok (page_state s) (areas (A @ Major a pg (xs @ x # ys) # B))"
  shows "\<exists>s'. la_free ops (user_ptr (mn_at x)) s = Inr s' \<and> heap_ok s' (if xs @ ys = [] then A @ B else A @ Major a pg (xs @ ys) # B)
     \<and> pages_ok (page_state s') (areas (if xs @ ys = [] then A @ B else A @ Major a pg (xs @ ys) # B))
     \<and> keeps (hmem s) (hmem s') (A @ Major a pg (xs @ ys) # B) \<and> interrupts s'"
proof -
  note ar = allocation_reads [OF ok]
  define s1 where "s1 = s\<lparr>interrupts := False, l_inuse := l_inuse s - ucast (mn_size x), hmem := unlink_minor (mn_at x) a (hmem s)\<rparr>"
  have ok1: "heap_ok s1 (A @ Major a pg (xs @ ys) # B)" and k1: "keeps (hmem s) (hmem s1) (A @ Major a pg (xs @ x # ys) # B)"
    using unlink_heap [OF ok] by (simp_all add: s1_def)
  have k2: "keeps (hmem s) (hmem s1) (A @ Major a pg (xs @ ys) # B)" using k1 by (rule keeps_subset) auto
  have pg1: "pages_ok (page_state s1) (areas (A @ Major a pg (xs @ ys) # B))" using pages by (simp add: s1_def)
  have run: "la_free ops (user_ptr (mn_at x)) s =
      rbind (if get (hmem s1) a First = 0 then release_major ops a s1 else Inr (update_bet a s1)) (\<lambda>s. Inr (liballoc_unlock s))"
    using ar by (simp add: la_free_def Let_def liballoc_lock_def s1_def)
  have first: "get (hmem s1) a First = head_at (map mn_at (xs @ ys)) 0" by (rule block_reads(3) [OF ok1])
  show ?thesis
  proof (cases "xs @ ys = []")
    case True
    have r: "get (hmem s1) a First = 0" using first True by simp
    obtain s2 where s2: "release_major ops a s1 = Inr s2" "heap_ok s2 (A @ B)" "pages_ok (page_state s2) (areas (A @ B))" "keeps (hmem s1) (hmem s2) (A @ B)"
      using release_works [of s1 A a pg B] ok1 pg1 True by auto
    have "keeps (hmem s) (hmem s2) (A @ Major a pg (xs @ ys) # B)" using k2 s2(4) True by (auto simp: keeps_def)
    moreover have "heap_ok (liballoc_unlock s2) (A @ B)" using s2(2) by (simp add: heap_ok_def liballoc_unlock_def)
    ultimately show ?thesis using run r s2(1,3) True by (auto simp: liballoc_unlock_def)
  next
    case False
    have r: "get (hmem s1) a First \<noteq> 0" using ok1 False by (rule block_first)
    let ?t = "liballoc_unlock (update_bet a s1)"
    have "heap_ok (update_bet a s1) (A @ Major a pg (xs @ ys) # B)"
      using ok1 heap_ok_bet [OF ok1, of a] by (auto simp: update_bet_def Let_def)
    then have "heap_ok ?t (A @ Major a pg (xs @ ys) # B)" by (simp add: heap_ok_def liballoc_unlock_def)
    moreover have "hmem ?t = hmem s1" "page_state ?t = page_state s1" "interrupts ?t"
      by (simp_all add: update_bet_def Let_def liballoc_unlock_def)
    ultimately show ?thesis using run r k2 pg1 False by auto
  qed
qed

end

end
