(* ===== verification/Heap_Pages.thy ===== *)
theory Heap_Pages
  imports Heap_Free Virt_Mem_Mgr
begin

text \<open>
  The hooks of \<open>mem/liballoc/hooks.c\<close> that take pages from the virtual memory manager, and that these satisfy what
  the heap expects of a source of pages.
\<close>

section \<open>Hooks\<close>

text \<open>\<open>fresh v\<close> is what the frames mapped in \<open>v\<close> hold; the pages just mapped show it.\<close>

definition liballoc_alloc :: "(vmm \<Rightarrow> mem) \<Rightarrow> u32 \<Rightarrow> mem \<Rightarrow> vmm \<Rightarrow> (u32 \<times> mem \<times> vmm) res" where
  "liballoc_alloc fresh pages m v =
     rbind (X86AllocateContiguousVirtualFrames pages True v) (\<lambda>(b, v).
       Inr (b, (\<lambda>y. if unat b \<le> unat y \<and> unat y < unat b + unat pages * 4096 then fresh v y else m y), v))"

definition liballoc_free :: "u32 \<Rightarrow> u32 \<Rightarrow> vmm \<Rightarrow> vmm res" where
  "liballoc_free base pages v = X86FreeContiguousVirtualFrames base pages v"

definition vmm_pages :: "(vmm \<Rightarrow> mem) \<Rightarrow> vmm page_ops" where
  "vmm_pages fresh = \<lparr>page_alloc = liballoc_alloc fresh, page_free = liballoc_free\<rparr>"

section \<open>Pages of the heap\<close>

definition heap_pages :: "vmm \<Rightarrow> u32 set \<Rightarrow> bool" where
  "heap_pages v S \<longleftrightarrow> phys_wf (frames v) \<and> current_page_directory v = Kernel_Dir
     \<and> (\<exists>fr. inj_on fr (page_no ` S) \<and> (\<forall>p \<in> page_no ` S. kmap v p = new_pte (fr p) True True False \<and> fr p \<in> frames_used (frames v)))
     \<and> (\<forall>y z. page_no y = page_no z \<longrightarrow> y \<in> S \<longrightarrow> z \<in> S)"

lemma heap_pagesI:
  assumes "phys_wf (frames v)" and "current_page_directory v = Kernel_Dir" and "inj_on fr (page_no ` S)"
    and "\<And>p. p \<in> page_no ` S \<Longrightarrow> kmap v p = new_pte (fr p) True True False \<and> fr p \<in> frames_used (frames v)"
    and "\<And>y z. page_no y = page_no z \<Longrightarrow> y \<in> S \<Longrightarrow> z \<in> S"
  shows "heap_pages v S"
proof -
  have "\<exists>fr. inj_on fr (page_no ` S) \<and> (\<forall>p \<in> page_no ` S. kmap v p = new_pte (fr p) True True False \<and> fr p \<in> frames_used (frames v))"
    using assms(3,4) by (intro exI [of _ fr]) blast
  then show ?thesis using assms(1,2,5) unfolding heap_pages_def by blast
qed

text \<open>
  The frame behind an entry, the frames of the heap, and what belongs to the rest of the kernel when the heap has the
  pages \<open>S\<close>: the other frames in use, the other pages with their entries, and all the frames there are.
\<close>

definition mapped_frame :: "PageTableEntry \<Rightarrow> u32" where
  "mapped_frame e = frame_base (page_frame_addr e)"

definition heap_frames :: "vmm \<Rightarrow> u32 set \<Rightarrow> u32 set" where
  "heap_frames v S = mapped_frame ` kmap v ` page_no ` S"

record kernel_rest =
  rest_frames :: "u32 set"
  rest_map :: "20 word \<rightharpoonup> PageTableEntry"
  rest_all :: "u32 set"

definition rest_of :: "vmm \<Rightarrow> u32 set \<Rightarrow> kernel_rest" where
  "rest_of v S = \<lparr>rest_frames = frames_used (frames v) - heap_frames v S,
     rest_map = (\<lambda>p. if p \<notin> page_no ` S \<and> present (kmap v p) then Some (kmap v p) else None), rest_all = frames_all (frames v)\<rparr>"

definition owned_pages :: "kernel_rest \<Rightarrow> vmm \<Rightarrow> u32 set \<Rightarrow> bool" where
  "owned_pages W v S \<longleftrightarrow> heap_pages v S \<and> rest_of v S = W"

lemma heap_pages_whole: "heap_pages v S \<Longrightarrow> page_no y = page_no z \<Longrightarrow> y \<in> S \<Longrightarrow> z \<in> S"
  unfolding heap_pages_def by blast

lemma image_diff_whole:
  assumes "\<And>y z. f y = f z \<Longrightarrow> y \<in> S \<Longrightarrow> z \<in> S"
  shows "f ` (T - S) = f ` T - f ` S"
proof (intro subset_antisym subsetI)
  fix q assume "q \<in> f ` (T - S)"
  then obtain y where y: "y \<in> T" "y \<notin> S" "q = f y" by blast
  have "q \<notin> f ` S"
  proof
    assume "q \<in> f ` S"
    then obtain z where "z \<in> S" "f z = f y" using y(3) by fastforce
    then show False using assms [of z y] y(2) by simp
  qed
  then show "q \<in> f ` T - f ` S" using y by blast
qed blast

definition page_room :: "u32 \<Rightarrow> vmm \<Rightarrow> bool" where
  "page_room n v \<longleftrightarrow> unat n \<le> card (fresh_frames v) \<and> (\<exists>t \<ge> first_page True. free_pages v t (unat n))"

lemma present_new_pte [simp]: "present (new_pte f w c u)"
  by (simp add: new_pte_def)

lemma mapped_frame_new_pte: "phys_wf bm \<Longrightarrow> f \<in> frames_used bm \<Longrightarrow> mapped_frame (new_pte f w c u) = f"
  using phys_frames.in_use_subset phys_frames.all_frames_shape
  by (fastforce simp: mapped_frame_def new_pte_def frame_base_def frame_roundtrip)

lemma heap_frames_image:
  assumes "phys_wf (frames v)" and "\<forall>p \<in> page_no ` S. kmap v p = new_pte (fr p) True True False \<and> fr p \<in> frames_used (frames v)"
  shows "heap_frames v S = fr ` page_no ` S"
  unfolding heap_frames_def image_comp [of mapped_frame]
  by (rule image_cong) (use assms(2) mapped_frame_new_pte [OF assms(1)] in auto)

lemma heap_frames_used: "heap_pages v S \<Longrightarrow> heap_frames v S \<subseteq> frames_used (frames v)"
  unfolding heap_pages_def using heap_frames_image by fastforce

lemma card_heap_frames: "heap_pages v S \<Longrightarrow> card (heap_frames v S) = card (page_no ` S)"
  unfolding heap_pages_def by (elim exE conjE) (drule (1) heap_frames_image, simp only: card_image)

lemma finite_frames_used: "finite (frames_used bm)"
  by (simp add: frames_used_def used_def)

lemma in_run_iff:
  assumes "st + n \<le> 1048576" and "0 < n"
  shows "y \<in> bytes_at (of_nat st * 0x1000) (n * 4096) \<longleftrightarrow> st \<le> unat (page_no y) \<and> unat (page_no y) < st + n"
proof -
  have "unat (of_nat st * 0x1000 :: u32) = st * 4096" using assms by (intro unat_page_addr) simp
  then show ?thesis unfolding bytes_at_def unat_page_no by (auto simp: less_eq_div_iff_mult_less_eq div_less_iff_less_mult algebra_simps)
qed

lemma page_run_image:
  assumes "st + length fs \<le> 1048576"
  shows "(\<lambda>p :: 20 word. fs ! (unat p - st)) ` {p. st \<le> unat p \<and> unat p < st + length fs} = set fs"
proof (intro subset_antisym subsetI)
  fix f assume "f \<in> set fs"
  then obtain i where i: "i < length fs" "f = fs ! i" by (auto simp: in_set_conv_nth)
  then have "unat (of_nat (st + i) :: 20 word) = st + i" using assms by (intro unat_of_nat_less) simp
  then show "f \<in> (\<lambda>p :: 20 word. fs ! (unat p - st)) ` {p. st \<le> unat p \<and> unat p < st + length fs}"
    using i by (intro image_eqI [of _ _ "of_nat (st + i)"]) (simp_all del: of_nat_add)
qed auto

lemma page_no_run:
  assumes "st + n \<le> 1048576" and "0 < n"
  shows "page_no ` bytes_at (of_nat st * 0x1000) (n * 4096) = {p. st \<le> unat p \<and> unat p < st + n}"
proof (intro subset_antisym subsetI)
  fix p assume "p \<in> {p :: 20 word. st \<le> unat p \<and> unat p < st + n}"
  then have "frame_base p \<in> bytes_at (of_nat st * 0x1000) (n * 4096)" unfolding in_run_iff [OF assms] by simp
  then show "p \<in> page_no ` bytes_at (of_nat st * 0x1000) (n * 4096)" using page_no_frame_base [of p] by (metis imageI)
qed (use in_run_iff [OF assms] in auto)

lemma rest_ofI:
  assumes "frames_used (frames v') - heap_frames v' S' = frames_used (frames v) - heap_frames v S" and "frames_all (frames v') = frames_all (frames v)"
    and "\<And>p. (p \<notin> page_no ` S' \<and> present (kmap v' p) \<longleftrightarrow> p \<notin> page_no ` S \<and> present (kmap v p)) \<and> (p \<notin> page_no ` S' \<union> page_no ` S \<longrightarrow> kmap v' p = kmap v p)"
  shows "rest_of v' S' = rest_of v S"
  using assms by (auto simp: rest_of_def fun_eq_iff)

lemma heap_frames_cong: "(\<And>p. p \<in> page_no ` S \<Longrightarrow> kmap v' p = kmap v p) \<Longrightarrow> heap_frames v' S = heap_frames v S"
  unfolding heap_frames_def by (metis (mono_tags, lifting) image_cong)

lemma rest_of_map_pages:
  assumes ok: "heap_pages v S" and wf': "phys_wf (frames v')" and km: "kmap v' = map_pages st fs (kmap v)"
    and fp: "free_pages v st (length fs) \<and> 0 < length fs" and fu: "frames_used (frames v') = frames_used (frames v) \<union> set fs" "set fs \<subseteq> fresh_frames v"
    and all: "frames_all (frames v') = frames_all (frames v)"
  shows "rest_of v' (S \<union> bytes_at (of_nat st * 0x1000) (length fs * 4096)) = rest_of v S"
proof (rule rest_ofI [OF _ all])
  let ?R = "bytes_at (of_nat st * 0x1000) (length fs * 4096)" and ?P = "{p :: 20 word. st \<le> unat p \<and> unat p < st + length fs}"
  have le: "st + length fs \<le> 1048576" using fp by (simp add: free_pages_def)
  have pR: "page_no ` ?R = ?P" using le fp by (intro page_no_run) simp_all
  have free: "\<not> present (kmap v p)" if "p \<in> ?P" for p using fp that unfolding free_pages_def mem_Collect_eq by (metis atLeastLessThan_iff of_nat_unat ucast_id)
  have "present (kmap v p)" if "p \<in> page_no ` S" for p
  proof -
    obtain fr where "\<forall>p \<in> page_no ` S. kmap v p = new_pte (fr p) True True False" using ok unfolding heap_pages_def by blast
    then have "kmap v p = new_pte (fr p) True True False" using that by blast
    then show ?thesis by simp
  qed
  then have out: "p \<notin> ?P" if "p \<in> page_no ` S" for p using free that by blast
  have "mapped_frame (kmap v' p) = fs ! (unat p - st)" if "p \<in> ?P" for p
  proof -
    have "fs ! (unat p - st) \<in> frames_used (frames v')" using that fu(1) by (simp add: less_diff_conv2)
    then show ?thesis using mapped_frame_new_pte [OF wf'] that by (simp add: km map_pages_def)
  qed
  then have "heap_frames v' ?R = (\<lambda>p. fs ! (unat p - st)) ` ?P" unfolding heap_frames_def pR image_image by (rule image_cong [OF refl])
  moreover have "heap_frames v' S = heap_frames v S" by (rule heap_frames_cong) (use out in \<open>auto simp: km map_pages_def\<close>)
  ultimately have "heap_frames v' (S \<union> ?R) = heap_frames v S \<union> set fs" using page_run_image [OF le] by (simp add: heap_frames_def image_Un)
  then show "frames_used (frames v') - heap_frames v' (S \<union> ?R) = frames_used (frames v) - heap_frames v S"
    using fu by (auto simp: fresh_frames_def)
  show "(p \<notin> page_no ` (S \<union> ?R) \<and> present (kmap v' p) \<longleftrightarrow> p \<notin> page_no ` S \<and> present (kmap v p))
      \<and> (p \<notin> page_no ` (S \<union> ?R) \<union> page_no ` S \<longrightarrow> kmap v' p = kmap v p)" for p
    using free [of p] unfolding image_Un pR by (auto simp: km map_pages_def)
qed

lemma rest_of_clear_pages:
  assumes sub: "R \<subseteq> S" and pR: "page_no ` R = {p. st \<le> unat p \<and> unat p < st + n}"
    and km: "kmap v' = clear_pages st n (kmap v)" and fu: "frames_used (frames v') = frames_used (frames v) - heap_frames v R"
    and all: "frames_all (frames v') = frames_all (frames v)" and whole: "\<And>y z. page_no y = page_no z \<Longrightarrow> y \<in> R \<Longrightarrow> z \<in> R"
  shows "rest_of v' (S - R) = rest_of v S"
proof (rule rest_ofI [OF _ all])
  have pS: "page_no ` (S - R) = page_no ` S - page_no ` R" by (rule image_diff_whole) (rule whole)
  have "heap_frames v' (S - R) = heap_frames v (S - R)"
  proof (rule heap_frames_cong)
    fix p assume "p \<in> page_no ` (S - R)"
    then have "p \<notin> page_no ` R" unfolding pS by blast
    then have "\<not> (st \<le> unat p \<and> unat p < st + n)" unfolding pR mem_Collect_eq .
    then show "kmap v' p = kmap v p" unfolding km clear_pages_def by (rule if_not_P)
  qed
  moreover have "heap_frames v S = heap_frames v R \<union> heap_frames v (S - R)" using sub unfolding heap_frames_def image_Un [symmetric] by (simp add: Un_absorb1)
  ultimately show "frames_used (frames v') - heap_frames v' (S - R) = frames_used (frames v) - heap_frames v S" unfolding fu by blast
  have "page_no ` R \<subseteq> page_no ` S" using sub by (rule image_mono)
  then show "(p \<notin> page_no ` (S - R) \<and> present (kmap v' p) \<longleftrightarrow> p \<notin> page_no ` S \<and> present (kmap v p))
      \<and> (p \<notin> page_no ` (S - R) \<union> page_no ` S \<longrightarrow> kmap v' p = kmap v p)" for p
    unfolding pS pR by (auto simp: km clear_pages_def zero_pte_def pte_of_word_def)
qed

lemma alloc_heap_pages:
  assumes ok: "heap_pages v S" and n: "n \<noteq> 0" and room: "page_room n v"
  shows "\<exists>b m' v'. page_alloc (vmm_pages fresh) n m v = Inr (b, m', v')
      \<and> b \<noteq> 0 \<and> unat b mod 4096 = 0 \<and> unat b + unat n * 4096 \<le> 2 ^ 32 \<and> bytes_at b (unat n * 4096) \<inter> S = {}
      \<and> (\<forall>y. y \<notin> bytes_at b (unat n * 4096) \<longrightarrow> m' y = m y) \<and> heap_pages v' (S \<union> bytes_at b (unat n * 4096))
      \<and> rest_of v' (S \<union> bytes_at b (unat n * 4096)) = rest_of v S"
proof -
  have n0: "0 < n" "0 < unat n" using n by (simp_all add: word_gt_0 unat_gt_0)
  have wf: "phys_wf (frames v)" "current_page_directory v = Kernel_Dir" using ok by (simp_all add: heap_pages_def)
  obtain t where t: "first_page True \<le> t" "free_pages v t (unat n)" and card: "unat n \<le> card (fresh_frames v)"
    using room by (auto simp: page_room_def)
  have n20: "unat n \<le> 1048576" using t(2) by (simp add: free_pages_def)
  obtain st fs v' where s: "X86AllocateContiguousVirtualFrames n True v = Inr (of_nat st * 0x1000, v')"
    "if st = 0 then \<forall>t \<ge> first_page True. \<not> free_pages v t (unat n)
       else first_page True \<le> st \<and> free_pages v st (unat n) \<and> (\<forall>t. first_page True \<le> t \<and> t < st \<longrightarrow> \<not> free_pages v t (unat n))"
    "length fs = unat n" "distinct fs" "set fs \<subseteq> fresh_frames v" "phys_wf (frames v')" "frames_all (frames v') = frames_all (frames v)"
    "frames_used (frames v') = frames_used (frames v) \<union> set fs" "current_page_directory v' = Kernel_Dir"
    "kmap v' = (map_pages st fs (kmap v))(0 := kmap v 0)"
    using X86Allocate_kernel_spec [OF wf n0(1) card n20, of True] by blast
  have st: "st \<noteq> 0" using s(2) t by (auto split: if_splits)
  then have fp: "free_pages v st (unat n)" using s(2) by simp
  then have le: "st + unat n \<le> 1048576" by (simp add: free_pages_def)
  let ?b = "of_nat st * 0x1000 :: u32" and ?R = "bytes_at (of_nat st * 0x1000) (unat n * 4096)"
  note run = in_run_iff [OF le n0(2)]
  have ub: "unat ?b = st * 4096" using le n0(2) by (intro unat_page_addr) simp
  have km: "kmap v' = map_pages st fs (kmap v)" unfolding s(10) using st by (intro map_pages_keeps_0) simp
  obtain fr where fr: "inj_on fr (page_no ` S)" "\<forall>p \<in> page_no ` S. kmap v p = new_pte (fr p) True True False \<and> fr p \<in> frames_used (frames v)"
    using ok by (auto simp: heap_pages_def)
  have notS: "y \<notin> S" if "y \<in> ?R" for y
  proof
    assume "y \<in> S"
    then have "present (kmap v (page_no y))" using fr(2) by simp
    moreover have "unat (page_no y) \<in> {st..<st + unat n}" using that run by simp
    ultimately show False using fp unfolding free_pages_def by (metis of_nat_unat ucast_id)
  qed
  define fr' where "fr' p = (if st \<le> unat p \<and> unat p < st + unat n then fs ! (unat p - st) else fr p)" for p :: "20 word"
  have out: "\<not> (st \<le> unat p \<and> unat p < st + unat n)" if "p \<in> page_no ` S" for p using that notS run by blast
  have img: "p \<in> page_no ` S \<or> st \<le> unat p \<and> unat p < st + unat n" if "p \<in> page_no ` (S \<union> ?R)" for p using that run by blast
  have used: "fr' p \<in> frames_used (frames v')" "kmap v' p = new_pte (fr' p) True True False" if "p \<in> page_no ` (S \<union> ?R)" for p
    using img [OF that] out [of p] fr(2) s(3,8) by (auto simp: fr'_def km map_pages_def)
  have inj: "inj_on fr' (page_no ` (S \<union> ?R))"
  proof (rule inj_onI)
    fix p q assume p: "p \<in> page_no ` (S \<union> ?R)" and q: "q \<in> page_no ` (S \<union> ?R)" and eq: "fr' p = fr' q"
    have new: "fs ! i \<notin> frames_used (frames v)" if "i < length fs" for i using s(5) nth_mem [OF that] by (auto simp: fresh_frames_def)
    show "p = q"
    proof (cases "st \<le> unat p \<and> unat p < st + unat n"; cases "st \<le> unat q \<and> unat q < st + unat n")
      assume a: "st \<le> unat p \<and> unat p < st + unat n" "st \<le> unat q \<and> unat q < st + unat n"
      then have "fs ! (unat p - st) = fs ! (unat q - st)" "unat p - st < length fs" "unat q - st < length fs"
        using eq s(3) by (auto simp: fr'_def)
      then have "unat p - st = unat q - st" using s(4) nth_eq_iff_index_eq by blast
      then show ?thesis using a by (metis le_add_diff_inverse word_unat_eq_iff)
    next
      assume "st \<le> unat p \<and> unat p < st + unat n" "\<not> (st \<le> unat q \<and> unat q < st + unat n)"
      then have "fs ! (unat p - st) = fr q" "unat p - st < length fs" "q \<in> page_no ` S" using eq img [OF q] s(3) by (auto simp: fr'_def)
      then show ?thesis using fr(2) new [of "unat p - st"] by auto
    next
      assume "\<not> (st \<le> unat p \<and> unat p < st + unat n)" "st \<le> unat q \<and> unat q < st + unat n"
      then have "fs ! (unat q - st) = fr p" "unat q - st < length fs" "p \<in> page_no ` S" using eq img [OF p] s(3) by (auto simp: fr'_def)
      then show ?thesis using fr(2) new [of "unat q - st"] by auto
    next
      assume "\<not> (st \<le> unat p \<and> unat p < st + unat n)" "\<not> (st \<le> unat q \<and> unat q < st + unat n)"
      then have "fr p = fr q" "p \<in> page_no ` S" "q \<in> page_no ` S" using eq img [OF p] img [OF q] by (auto simp: fr'_def)
      then show ?thesis by (rule inj_onD [OF fr(1)])
    qed
  qed
  have whole: "z \<in> S \<union> ?R" if "page_no y = page_no z" "y \<in> S \<union> ?R" for y z
  proof -
    have "z \<in> ?R" if "y \<in> ?R" using that \<open>page_no y = page_no z\<close> unfolding run by simp
    then show ?thesis using that heap_pages_whole [OF ok that(1)] by blast
  qed
  have "heap_pages v' (S \<union> ?R)"
  proof (rule heap_pagesI [OF s(6,9) inj])
    show "kmap v' p = new_pte (fr' p) True True False \<and> fr' p \<in> frames_used (frames v')" if "p \<in> page_no ` (S \<union> ?R)" for p
      using used [OF that] by simp
    show "z \<in> S \<union> ?R" if "page_no y = page_no z" "y \<in> S \<union> ?R" for y z using that by (rule whole)
  qed
  moreover have "rest_of v' (S \<union> ?R) = rest_of v S"
    using rest_of_map_pages [OF ok s(6) km _ s(8,5,7)] fp s(3) n0(2) by simp
  moreover have "?b \<noteq> 0" using ub st by (metis mult_is_0 unat_0 zero_neq_numeral)
  moreover have "unat ?b + unat n * 4096 \<le> 2 ^ 32" using ub le by simp
  moreover have "unat ?b mod 4096 = 0" using ub by simp
  moreover have "?R \<inter> S = {}" using notS by blast
  moreover have "page_alloc (vmm_pages fresh) n m v = Inr (?b, (\<lambda>y. if unat ?b \<le> unat y \<and> unat y < unat ?b + unat n * 4096 then fresh v' y else m y), v')"
    by (simp only: vmm_pages_def page_ops.simps liballoc_alloc_def s(1) rbind_simps prod.case)
  ultimately show ?thesis by (intro exI conjI) (assumption | simp add: bytes_at_def)+
qed

lemma free_heap_pages:
  assumes ok: "heap_pages v S" and n: "n \<noteq> 0" and b: "unat b mod 4096 = 0" "unat b + unat n * 4096 \<le> 2 ^ 32" and sub: "bytes_at b (unat n * 4096) \<subseteq> S"
  shows "\<exists>v'. page_free (vmm_pages fresh) b n v = Inr v' \<and> heap_pages v' (S - bytes_at b (unat n * 4096))
      \<and> rest_of v' (S - bytes_at b (unat n * 4096)) = rest_of v S"
proof -
  define st where "st = unat b div 4096"
  have n0: "0 < unat n" using n by (simp add: unat_gt_0)
  have ub: "unat b = st * 4096" using b(1) by (simp add: st_def mod_0_imp_dvd)
  then have le: "st + unat n \<le> 1048576" using b(2) by simp
  have bst: "b = of_nat st * 0x1000" using ub unat_page_addr [of st] le n0 by (simp add: word_unat_eq_iff)
  note run = in_run_iff [OF le n0, folded bst]
  have wf: "phys_wf (frames v)" "current_page_directory v = Kernel_Dir" using ok by (simp_all add: heap_pages_def)
  obtain fr where fr: "inj_on fr (page_no ` S)" "\<forall>p \<in> page_no ` S. kmap v p = new_pte (fr p) True True False \<and> fr p \<in> frames_used (frames v)"
    using ok by (auto simp: heap_pages_def)
  have inS: "p \<in> page_no ` S" if "st \<le> unat p \<and> unat p < st + unat n" for p
  proof -
    have "frame_base p \<in> bytes_at b (unat n * 4096)" using that by (simp add: run)
    then show ?thesis using sub page_no_frame_base [of p] by (metis imageI subsetD)
  qed
  define fs where "fs = map (\<lambda>i. fr (of_nat (st + i))) [0..<unat n]"
  have l: "length fs = unat n" by (simp add: fs_def)
  have up: "unat (of_nat (st + i) :: 20 word) = st + i" if "i < unat n" for i
    using le that by (intro unat_of_nat_less) simp
  have d: "distinct fs"
    unfolding fs_def distinct_map
  proof (intro conjI distinct_upt inj_onI)
    fix i j assume ij: "i \<in> set [0..<unat n]" "j \<in> set [0..<unat n]" and eq: "fr (of_nat (st + i)) = fr (of_nat (st + j))"
    have "of_nat (st + i) \<in> page_no ` S" "of_nat (st + j) \<in> page_no ` S" using ij inS up by auto
    then have "(of_nat (st + i) :: 20 word) = of_nat (st + j)" by (rule inj_onD [OF fr(1) eq])
    then show "i = j" using up [of i] up [of j] ij by (metis add_left_cancel atLeastLessThan_iff set_upt)
  qed
  have nth: "fs ! (unat p - st) = fr p" if "st \<le> unat p \<and> unat p < st + unat n" for p
  proof -
    have "unat p - st < unat n" "st + (unat p - st) = unat p" using that by auto
    moreover have "of_nat (unat p) = p" by simp
    ultimately show ?thesis unfolding fs_def by (metis (no_types, lifting) add_0 diff_zero nth_map_upt)
  qed
  have sf: "f \<in> fr ` {p. st \<le> unat p \<and> unat p < st + unat n}" if f: "f \<in> set fs" for f
  proof -
    obtain i where "i < unat n" "f = fr (of_nat (st + i))" using f by (auto simp: fs_def)
    then show ?thesis using up [of i] by auto
  qed
  have all: "set fs \<subseteq> frames_all (frames v)"
    using sf inS fr(2) phys_frames.in_use_subset [OF wf(1)] by blast
  have km: "kmap v = map_pages st fs (kmap v)"
  proof (rule ext)
    fix p
    have "kmap v p = new_pte (fr p) True True False" if "st \<le> unat p \<and> unat p < st + unat n" using inS [OF that] fr(2) by blast
    then show "kmap v p = map_pages st fs (kmap v) p" using nth [of p] by (simp add: map_pages_def l)
  qed
  obtain v' where v': "rfold (free_body (of_nat st * 0x1000)) [0..<unat n] v = Inr v'" "phys_wf (frames v')"
    "frames_used (frames v') = frames_used (frames v) - set (take (unat n) fs)" "current_page_directory v' = Kernel_Dir"
    "kmap v' = clear_pages st (unat n) (kmap v)" "frames_all (frames v') = frames_all (frames v)"
    using free_pages_loop [OF wf _ _ d all km, of "unat n"] le l by auto
  let ?R = "bytes_at b (unat n * 4096)"
  have keep: "kmap v' p = new_pte (fr p) True True False \<and> fr p \<in> frames_used (frames v')" if p: "p \<in> page_no ` (S - ?R)" for p
  proof -
    obtain y where y: "y \<in> S" "y \<notin> ?R" "p = page_no y" using p by auto
    then have o: "\<not> (st \<le> unat p \<and> unat p < st + unat n)" and pS: "p \<in> page_no ` S" by (auto simp: run)
    have "fr p \<notin> set fs"
    proof
      assume "fr p \<in> set fs"
      then obtain q where q: "st \<le> unat q \<and> unat q < st + unat n" "fr p = fr q" using sf by auto
      then show False using fr(1) pS inS [OF q(1)] o by (metis inj_onD)
    qed
    then show ?thesis using fr(2) pS o v'(3,5) l by (auto simp: clear_pages_def)
  qed
  have inj: "inj_on fr (page_no ` (S - ?R))" using fr(1) by (rule inj_on_subset) auto
  have "heap_pages v' (S - ?R)"
  proof (rule heap_pagesI [OF v'(2,4) inj keep])
    show "z \<in> S - ?R" if "page_no y = page_no z" "y \<in> S - ?R" for y z
    proof -
      have "y \<in> ?R" if "z \<in> ?R" using that \<open>page_no y = page_no z\<close> unfolding run by simp
      then show ?thesis using that heap_pages_whole [OF ok that(1)] by blast
    qed
  qed
  moreover have "rest_of v' (S - ?R) = rest_of v S"
  proof -
    have pR: "page_no ` ?R = {p. st \<le> unat p \<and> unat p < st + unat n}" unfolding bst by (rule page_no_run [OF le n0])
    have "heap_frames v ?R = fr ` page_no ` ?R"
      using fr(2) image_mono [OF sub, of page_no] by (intro heap_frames_image wf(1)) blast
    also have "\<dots> = set fs" using page_run_image [of st fs] le l nth by (simp add: pR cong: image_cong_simp)
    finally show ?thesis using rest_of_clear_pages [OF sub pR v'(5) _ v'(6)] v'(3) l run by simp
  qed
  moreover have "page_free (vmm_pages fresh) b n v = Inr v'"
    using v'(1) by (simp add: vmm_pages_def liballoc_free_def X86FreeContiguousVirtualFrames_def bst)
  ultimately show ?thesis by blast
qed

text \<open>What follows for the frames and pages when the heap keeps only a part of its pages.\<close>

lemma page_no_diff: "heap_pages v S \<Longrightarrow> page_no ` (T - S) = page_no ` T - page_no ` S"
  by (rule image_diff_whole) (rule heap_pages_whole)

lemma card_rest_frames:
  assumes "heap_pages v S"
  shows "card (frames_used (frames v)) = card (rest_frames (rest_of v S)) + card (page_no ` S)"
  using heap_frames_used [OF assms] card_mono [OF finite_frames_used heap_frames_used [OF assms]] finite_frames_used [of "frames v"]
  unfolding card_heap_frames [OF assms, symmetric] by (simp add: rest_of_def card_Diff_subset finite_subset)

lemma pages_given_back:
  assumes v: "heap_pages v S" and v': "heap_pages v' S'" and rest: "rest_of v' S' = rest_of v S" and sub: "S' \<subseteq> S"
  shows "\<forall>q \<in> page_no ` (S - S'). \<not> present (kmap v' q)"
    and "card (frames_used (frames v)) = card (frames_used (frames v')) + card (page_no ` (S - S'))"
proof -
  have "q \<in> page_no ` S' \<or> \<not> present (kmap v' q)" if "q \<in> page_no ` S" for q
  proof -
    have "rest_map (rest_of v' S') q = None" using that unfolding rest by (simp add: rest_of_def)
    then show ?thesis by (simp add: rest_of_def split: if_splits)
  qed
  then show "\<forall>q \<in> page_no ` (S - S'). \<not> present (kmap v' q)" unfolding page_no_diff [OF v'] by blast
  have "card (page_no ` S) = card (page_no ` S') + card (page_no ` (S - S'))"
    unfolding page_no_diff [OF v'] using sub by (simp add: card_Diff_subset image_mono card_mono)
  then show "card (frames_used (frames v)) = card (frames_used (frames v')) + card (page_no ` (S - S'))"
    using card_rest_frames [OF v] card_rest_frames [OF v'] rest by simp
qed

lemma owned_byte:
  assumes "heap_pages v S" and "y \<in> S"
  shows "present (kmap v (page_no y))" and "mapped_frame (kmap v (page_no y)) \<in> frames_used (frames v) - rest_frames (rest_of v S)"
proof -
  have p: "page_no y \<in> page_no ` S" using assms(2) by simp
  then show "present (kmap v (page_no y))" using assms(1) unfolding heap_pages_def by (metis present_new_pte)
  have "mapped_frame (kmap v (page_no y)) \<in> heap_frames v S" using p by (simp add: heap_frames_def)
  then show "mapped_frame (kmap v (page_no y)) \<in> frames_used (frames v) - rest_frames (rest_of v S)"
    using heap_frames_used [OF assms(1)] by (auto simp: rest_of_def)
qed

interpretation kernel_heap: page_source "vmm_pages fresh" "owned_pages W" page_room for fresh W
  unfolding owned_pages_def
proof unfold_locales
  fix v :: vmm and S :: "u32 set" and n :: u32 and m :: mem
  assume "heap_pages v S \<and> rest_of v S = W" and "n \<noteq> 0" "page_room n v"
  then show "\<exists>b m' v'. page_alloc (vmm_pages fresh) n m v = Inr (b, m', v')
      \<and> b \<noteq> 0 \<and> unat b mod 4096 = 0 \<and> unat b + unat n * 4096 \<le> 2 ^ 32 \<and> bytes_at b (unat n * 4096) \<inter> S = {}
      \<and> (\<forall>y. y \<notin> bytes_at b (unat n * 4096) \<longrightarrow> m' y = m y)
      \<and> heap_pages v' (S \<union> bytes_at b (unat n * 4096)) \<and> rest_of v' (S \<union> bytes_at b (unat n * 4096)) = W"
    using alloc_heap_pages [of v S n fresh m] by auto
next
  fix v :: vmm and S :: "u32 set" and n b :: u32
  assume "heap_pages v S \<and> rest_of v S = W" and "n \<noteq> 0" "unat b mod 4096 = 0" "unat b + unat n * 4096 \<le> 2 ^ 32" "bytes_at b (unat n * 4096) \<subseteq> S"
  then show "\<exists>v'. page_free (vmm_pages fresh) b n v = Inr v' \<and> heap_pages v' (S - bytes_at b (unat n * 4096))
      \<and> rest_of v' (S - bytes_at b (unat n * 4096)) = W"
    using free_heap_pages [of v S n b fresh] by auto
qed

end
