(* ===== verification/Heap_Correct.thy ===== *)
theory Heap_Correct
  imports Heap_Pages
begin

text \<open>
  What the users of the kernel heap see: addresses with lengths. \<open>malloc\<close>, \<open>free\<close>, \<open>calloc\<close> and \<open>realloc\<close> over the
  virtual memory manager.
\<close>

section \<open>The user's view\<close>

definition block_of :: "minor \<Rightarrow> u32 \<times> u32" where
  "block_of x = (user_ptr (mn_at x), mn_req x)"

definition live :: "major list \<Rightarrow> (u32 \<times> u32) set" where
  "live Ms = block_of ` set (minors_of Ms)"

definition user_bytes :: "u32 \<times> u32 \<Rightarrow> u32 set" where
  "user_bytes = (\<lambda>(p, n). bytes_at p (unat n))"

definition kernel_heap_ok :: "vmm heap \<Rightarrow> major list \<Rightarrow> bool" where
  "kernel_heap_ok s Ms \<longleftrightarrow> heap_ok s Ms \<and> heap_pages (page_state s) (areas Ms) \<and> (\<forall>M \<in> set Ms. mj_minors M \<noteq> [])"

definition enough_fuel :: "nat \<Rightarrow> major list \<Rightarrow> bool" where
  "enough_fuel fuel Ms \<longleftrightarrow> 2 * length Ms + 1 < fuel \<and> (\<forall>M \<in> set Ms. length (mj_minors M) < fuel)"

lemma user_ptr_facts:
  assumes "roomy x"
  shows "user_bytes (block_of x) \<subseteq> payload x" and "unat (user_ptr (mn_at x)) mod 16 = 0" and "user_ptr (mn_at x) \<noteq> 0"
    and "unat (user_ptr (mn_at x)) + unat (mn_req x) \<le> 2 ^ 32" and "user_ptr (mn_at x) \<in> minor_area x"
    and "tag_at (mn_at x) \<notin> user_bytes (block_of x)" and "0 \<notin> user_bytes (block_of x)"
proof -
  note b = roomy_tag(3) [OF assms]
  obtain k where k: "16 \<le> k" "k \<le> 31" "unat (user_ptr (mn_at x)) = unat (mn_at x) + 24 + k" "unat (user_ptr (mn_at x)) mod 16 = 0"
    using user_ptr_bounds [OF b] by metis
  have r: "unat (mn_req x) + 32 \<le> unat (mn_size x)" "unat (mn_at x) + 24 + unat (mn_size x) \<le> 2 ^ 32" using assms by (simp_all add: roomy_def minor_end_def)
  show "user_bytes (block_of x) \<subseteq> payload x"
    using k r by (auto simp: user_bytes_def block_of_def payload_def minor_area_def hdr_def bytes_at_def)
  show "unat (user_ptr (mn_at x)) mod 16 = 0" by (rule k(4))
  show "user_ptr (mn_at x) \<noteq> 0" using k(3) by (metis add_is_0 unat_0 zero_neq_numeral)
  show "unat (user_ptr (mn_at x)) + unat (mn_req x) \<le> 2 ^ 32" using k r by simp
  show "user_ptr (mn_at x) \<in> minor_area x" using k r by (simp add: minor_area_def bytes_at_def)
  show "tag_at (mn_at x) \<notin> user_bytes (block_of x)"
    using k tag_facts(2) [OF b] by (auto simp: user_bytes_def block_of_def bytes_at_def)
  show "0 \<notin> user_bytes (block_of x)" using k by (auto simp: user_bytes_def block_of_def bytes_at_def)
qed

lemma roomy_live: "heap_ok s Ms \<Longrightarrow> x \<in> set (minors_of Ms) \<Longrightarrow> roomy x"
  unfolding in_minors_of heap_ok_def using content_roomy by blast

lemma minors_apart:
  assumes "layout Ms" and "x \<in> set (minors_of Ms)" and "y \<in> set (minors_of Ms)" and "x \<noteq> y"
  shows "minor_area x \<inter> minor_area y = {}"
proof -
  obtain M N where "M \<in> set Ms" "x \<in> set (mj_minors M)" "N \<in> set Ms" "y \<in> set (mj_minors N)" using assms(2,3) unfolding in_minors_of by blast
  then show ?thesis using layout_regions(1) [OF assms(1)] assms(4) by blast
qed

lemma live_apart:
  assumes "heap_ok s Ms" and "x \<in> set (minors_of Ms)" and "y \<in> set (minors_of Ms)" and "x \<noteq> y"
  shows "user_bytes (block_of x) \<inter> user_bytes (block_of y) = {}" and "user_ptr (mn_at x) \<noteq> user_ptr (mn_at y)"
proof -
  have lay: "layout Ms" using assms(1) by (simp add: heap_ok_def)
  have ro: "roomy x" "roomy y" using roomy_live [OF assms(1)] assms(2,3) by blast+
  have d: "minor_area x \<inter> minor_area y = {}" by (rule minors_apart [OF lay assms(2-4)])
  then show "user_bytes (block_of x) \<inter> user_bytes (block_of y) = {}"
    using user_ptr_facts(1) [OF ro(1)] user_ptr_facts(1) [OF ro(2)] unfolding payload_def by blast
  show "user_ptr (mn_at x) \<noteq> user_ptr (mn_at y)" using d user_ptr_facts(5) [OF ro(1)] user_ptr_facts(5) [OF ro(2)] by auto
qed

lemma minors_of_distinct: "layout Ms \<Longrightarrow> distinct (minors_of Ms)"
proof (induction Ms)
  case (Cons M Ms)
  have "distinct (mj_minors M)" using layout_distinct [OF Cons.prems, of M] by (simp add: distinct_map)
  moreover have "layout Ms" using layout_drop [of "[]" M Ms] Cons.prems by simp
  moreover have "x \<notin> set (minors_of Ms)" if "x \<in> set (mj_minors M)" for x
  proof
    assume "x \<in> set (minors_of Ms)"
    then obtain N where N: "N \<in> set Ms" "x \<in> set (mj_minors N)" unfolding in_minors_of by blast
    then have "M = N" using minor_header_inj [OF Cons.prems, of M N x x] that by simp
    then show False using N(1) Cons.prems by (auto simp: layout_def)
  qed
  ultimately show ?case using Cons.IH by auto
qed simp

lemma keeps_user:
  assumes "heap_ok s Ms" and "keeps m m' Ms" and "b \<in> live Ms" and "y \<in> user_bytes b"
  shows "m' y = m y"
proof -
  obtain x where x: "x \<in> set (minors_of Ms)" "b = block_of x" using assms(3) by (auto simp: live_def)
  then have "y \<in> payload x" using user_ptr_facts(1) [OF roomy_live [OF assms(1)]] assms(4) by blast
  then show ?thesis using keepsD [OF assms(2) x(1)] by blast
qed

lemma grown_minors: "grown Ms Ms' x \<Longrightarrow> set (minors_of Ms') = insert x (set (minors_of Ms))"
  by (auto simp: grown_def)

lemma live_in_areas:
  assumes "heap_ok s Ms" and "b \<in> live Ms"
  shows "user_bytes b \<subseteq> areas Ms"
proof -
  obtain x where x: "x \<in> set (minors_of Ms)" "b = block_of x" using assms(2) by (auto simp: live_def)
  obtain M where M: "M \<in> set Ms" "x \<in> set (mj_minors M)" using x(1) unfolding in_minors_of by blast
  have "major_geo M" using assms(1) M(1) by (simp add: heap_ok_def layout_def)
  then have "minor_area x \<subseteq> major_area M" using M(2) by (rule major_geo_minor(3))
  then show ?thesis using user_ptr_facts(1) [OF roomy_live [OF assms(1) x(1)]] M(1) unfolding x(2) payload_def areas_def by blast
qed

section \<open>malloc\<close>

lemma malloc_correct_grown:
  assumes ok: "kernel_heap_ok s Ms" and rq: "unat req + 80 < 2 ^ 32" and room: "page_room (pages_for (req + 32)) (page_state s)"
    and fuel: "enough_fuel fuel Ms"
  shows "\<exists>p s' Ms'. la_malloc fuel (vmm_pages fresh) req s = Inr (p, s') \<and> (\<exists>x. grown Ms Ms' x) \<and> kernel_heap_ok s' Ms' \<and> interrupts s'
     \<and> p \<noteq> 0 \<and> unat p mod 16 = 0 \<and> unat p + unat req \<le> 2 ^ 32 \<and> p \<notin> fst ` live Ms \<and> live Ms' = insert (p, req) (live Ms)
     \<and> (\<forall>b \<in> live Ms. user_bytes b \<inter> user_bytes (p, req) = {} \<and> (\<forall>y \<in> user_bytes b. hmem s' y = hmem s y))
     \<and> rest_of (page_state s') (areas Ms') = rest_of (page_state s) (areas Ms)"
proof -
  have h: "heap_ok s Ms" "heap_pages (page_state s) (areas Ms)" "\<forall>M \<in> set Ms. mj_minors M \<noteq> []" using ok by (simp_all add: kernel_heap_ok_def)
  let ?W = "rest_of (page_state s) (areas Ms)"
  have own: "owned_pages ?W (page_state s) (areas Ms)" using h(2) by (simp add: owned_pages_def)
  obtain p s' where r: "la_malloc fuel (vmm_pages fresh) req s = Inr (p, s')" "malloc_post (owned_pages ?W) s s' Ms (req + 32) req p"
    using kernel_heap.malloc_works [OF h(1) own rq room, of fuel fresh] fuel unfolding enough_fuel_def by blast
  obtain Ms' x where x: "grown Ms Ms' x" "mn_req x = req" "roomy x" "p = user_ptr (mn_at x)" "heap_ok s' Ms'"
    "owned_pages ?W (page_state s') (areas Ms')" "keeps (hmem s) (hmem s') Ms" "interrupts s'"
    using r(2) unfolding malloc_post_def by blast
  have op: "heap_pages (page_state s') (areas Ms')" "rest_of (page_state s') (areas Ms') = ?W" using x(6) by (simp_all add: owned_pages_def)
  have bx: "block_of x = (p, req)" using x(2,4) by (simp add: block_of_def)
  note ms = grown_minors [OF x(1)]
  have ne: "\<forall>M \<in> set Ms'. mj_minors M \<noteq> []" using x(1) h(3) by (auto simp: grown_def)
  have old: "y \<noteq> x" if "y \<in> set (minors_of Ms)" for y
  proof
    have "distinct (minors_of Ms')" using minors_of_distinct x(5) by (auto simp: heap_ok_def)
    then have "x \<notin> set (minors_of Ms)" using x(1) by (auto simp: grown_def)
    moreover assume "y = x"
    ultimately show False using that by simp
  qed
  have apart: "user_bytes b \<inter> user_bytes (p, req) = {}" "fst b \<noteq> p" if "b \<in> live Ms" for b
  proof -
    obtain y where y: "y \<in> set (minors_of Ms)" "b = block_of y" using \<open>b \<in> live Ms\<close> by (auto simp: live_def)
    show "user_bytes b \<inter> user_bytes (p, req) = {}" "fst b \<noteq> p"
      using live_apart [OF x(5), of y x] y ms old [OF y(1)] bx x(4) by (auto simp: block_of_def)
  qed
  have "live Ms' = insert (p, req) (live Ms)" using ms bx by (auto simp: live_def)
  moreover have "kernel_heap_ok s' Ms'" using x(5) op(1) ne by (simp add: kernel_heap_ok_def)
  moreover have "\<forall>b \<in> live Ms. user_bytes b \<inter> user_bytes (p, req) = {} \<and> (\<forall>y \<in> user_bytes b. hmem s' y = hmem s y)"
    using apart keeps_user [OF h(1) x(7)] by blast
  moreover have "p \<notin> fst ` live Ms" using apart(2) by blast
  moreover have "p \<noteq> 0" "unat p mod 16 = 0" "unat p + unat req \<le> 2 ^ 32" using user_ptr_facts(2-4) [OF x(3)] x(2,4) by simp_all
  ultimately show ?thesis using r(1) x(1,8) op(2) by (intro exI [of _ p] exI [of _ s'] exI [of _ Ms'] conjI) auto
qed

lemma malloc_correct:
  assumes "kernel_heap_ok s Ms" and "unat req + 80 < 2 ^ 32" and "page_room (pages_for (req + 32)) (page_state s)" and "enough_fuel fuel Ms"
  shows "\<exists>p s' Ms'. la_malloc fuel (vmm_pages fresh) req s = Inr (p, s') \<and> kernel_heap_ok s' Ms' \<and> interrupts s'
     \<and> p \<noteq> 0 \<and> unat p mod 16 = 0 \<and> unat p + unat req \<le> 2 ^ 32 \<and> p \<notin> fst ` live Ms \<and> live Ms' = insert (p, req) (live Ms)
     \<and> (\<forall>b \<in> live Ms. user_bytes b \<inter> user_bytes (p, req) = {} \<and> (\<forall>y \<in> user_bytes b. hmem s' y = hmem s y))
     \<and> rest_of (page_state s') (areas Ms') = rest_of (page_state s) (areas Ms)"
  using malloc_correct_grown [OF assms, of fresh] by (elim exE conjE) (intro exI conjI, assumption+)

section \<open>free\<close>

lemma minor_split:
  assumes "x \<in> set (minors_of Ms)"
  obtains A a pg xs ys B where "Ms = A @ Major a pg (xs @ x # ys) # B"
proof -
  obtain M where M: "M \<in> set Ms" "x \<in> set (mj_minors M)" using assms unfolding in_minors_of by blast
  obtain A B where Ms: "Ms = A @ M # B" using M(1) by (auto simp: in_set_conv_decomp)
  obtain xs ys where "mj_minors M = xs @ x # ys" using M(2) by (auto simp: in_set_conv_decomp)
  then have "Ms = A @ Major (mj_at M) (mj_pages M) (xs @ x # ys) # B" using Ms by (metis major.collapse)
  then show thesis by (rule that)
qed

text \<open>What \<open>free\<close> leaves of the blocks: a part of them, with no more allocations in any.\<close>

definition shrunk :: "major list \<Rightarrow> major list \<Rightarrow> bool" where
  "shrunk Ms Ms' \<longleftrightarrow> length Ms' \<le> length Ms \<and> areas Ms' \<subseteq> areas Ms
     \<and> (\<forall>M' \<in> set Ms'. \<exists>M \<in> set Ms. length (mj_minors M') \<le> length (mj_minors M))"

text \<open>The addresses of the major blocks that have an allocation other than \<open>p\<close>.\<close>

definition areas_without :: "u32 \<Rightarrow> major list \<Rightarrow> u32 set" where
  "areas_without p Ms = areas (filter (\<lambda>M. \<exists>x \<in> set (mj_minors M). fst (block_of x) \<noteq> p) Ms)"

lemma areas_after_free:
  assumes ne: "\<forall>M \<in> set A \<union> set B. mj_minors M \<noteq> []" and p: "fst (block_of x) = p"
    and other: "\<And>y. y \<in> set (minors_of A) \<union> set xs \<union> set ys \<union> set (minors_of B) \<Longrightarrow> fst (block_of y) \<noteq> p"
  shows "areas (if xs @ ys = [] then A @ B else A @ Major a pg (xs @ ys) # B) = areas_without p (A @ Major a pg (xs @ x # ys) # B)"
proof -
  let ?P = "\<lambda>M. \<exists>y \<in> set (mj_minors M). fst (block_of y) \<noteq> p"
  have "?P M" if "M \<in> set A \<union> set B" for M
  proof -
    have "mj_minors M \<noteq> []" using ne that by blast
    then obtain y where "y \<in> set (mj_minors M)" by (meson last_in_set)
    moreover from this have "y \<in> set (minors_of A) \<union> set xs \<union> set ys \<union> set (minors_of B)" using that unfolding Un_iff in_minors_of by blast
    ultimately show ?thesis using other by blast
  qed
  then have "filter ?P A = A" "filter ?P B = B" by simp_all
  moreover have "?P (Major a pg (xs @ x # ys)) \<longleftrightarrow> xs @ ys \<noteq> []" using p other [of "last (xs @ ys)"] last_in_set [of "xs @ ys"] by auto
  ultimately show ?thesis unfolding areas_without_def filter_append filter.simps by simp
qed

lemma free_correct_shrunk:
  assumes ok: "kernel_heap_ok s Ms" and p: "(p, n) \<in> live Ms"
  shows "\<exists>s' Ms'. la_free (vmm_pages fresh) p s = Inr s' \<and> shrunk Ms Ms' \<and> kernel_heap_ok s' Ms' \<and> interrupts s'
     \<and> live Ms' = live Ms - {(p, n)} \<and> p \<notin> fst ` live Ms' \<and> (\<forall>b \<in> live Ms'. \<forall>y \<in> user_bytes b. hmem s' y = hmem s y)
     \<and> (live Ms' = {} \<longrightarrow> Ms' = [] \<and> l_memRoot s' = 0 \<and> l_allocated s' = 0 \<and> l_inuse s' = 0)
     \<and> areas Ms' = areas_without p Ms \<and> rest_of (page_state s') (areas Ms') = rest_of (page_state s) (areas Ms)"
proof -
  have h: "heap_ok s Ms" "heap_pages (page_state s) (areas Ms)" "\<forall>M \<in> set Ms. mj_minors M \<noteq> []" using ok by (simp_all add: kernel_heap_ok_def)
  obtain x where x: "x \<in> set (minors_of Ms)" "(p, n) = block_of x" using p by (auto simp: live_def)
  obtain A a pg xs ys B where Ms: "Ms = A @ Major a pg (xs @ x # ys) # B" using x(1) by (rule minor_split)
  define Ms' where "Ms' = (if xs @ ys = [] then A @ B else A @ Major a pg (xs @ ys) # B)"
  have pp: "p = user_ptr (mn_at x)" using x(2) by (simp add: block_of_def)
  let ?W = "rest_of (page_state s) (areas Ms)"
  have own: "owned_pages ?W (page_state s) (areas Ms)" using h(2) by (simp add: owned_pages_def)
  obtain s' where s': "la_free (vmm_pages fresh) p s = Inr s'" "heap_ok s' Ms'" "owned_pages ?W (page_state s') (areas Ms')"
    "keeps (hmem s) (hmem s') (A @ Major a pg (xs @ ys) # B)" "interrupts s'"
    using kernel_heap.free_works [of s A a pg xs x ys B ?W fresh] h(1) own unfolding Ms pp Ms'_def by blast
  have op: "heap_pages (page_state s') (areas Ms')" "rest_of (page_state s') (areas Ms') = ?W" using s'(3) by (simp_all add: owned_pages_def)
  have sh: "shrunk Ms Ms'" by (auto simp: shrunk_def Ms Ms'_def)
  have m': "set (minors_of Ms') = set (minors_of A) \<union> set xs \<union> set ys \<union> set (minors_of B)" by (auto simp: Ms'_def)
  have "distinct (minors_of Ms)" using minors_of_distinct h(1) by (auto simp: heap_ok_def)
  then have ms: "set (minors_of Ms) = insert x (set (minors_of Ms'))" "x \<notin> set (minors_of Ms')" unfolding m' Ms by auto
  have other: "user_ptr (mn_at y) \<noteq> p" if "y \<in> set (minors_of Ms')" for y
    using live_apart(2) [OF h(1), of y x] that ms pp by auto
  have notin: "p \<notin> fst ` live Ms'"
  proof
    assume "p \<in> fst ` live Ms'"
    then obtain y where "y \<in> set (minors_of Ms')" "p = user_ptr (mn_at y)" by (auto simp: live_def block_of_def)
    then show False using other by blast
  qed
  have "(p, n) \<notin> live Ms'" using notin image_eqI [of p fst "(p, n)" "live Ms'"] by auto
  moreover have "live Ms = insert (p, n) (live Ms')" using ms(1) x(2) by (simp add: live_def)
  ultimately have live: "live Ms' = live Ms - {(p, n)}" by simp
  have k: "keeps (hmem s) (hmem s') Ms'" using s'(4) by (rule keeps_subset) (auto simp: m')
  have kept: "\<forall>b \<in> live Ms'. \<forall>y \<in> user_bytes b. hmem s' y = hmem s y" using keeps_user [OF s'(2) k] by blast
  have ne: "\<forall>M \<in> set Ms'. mj_minors M \<noteq> []" using h(3) by (auto simp: Ms Ms'_def)
  have "Ms' = []" if "live Ms' = {}" using that ne by (cases Ms') (auto simp: live_def)
  then have "live Ms' = {} \<longrightarrow> Ms' = [] \<and> l_memRoot s' = 0 \<and> l_allocated s' = 0 \<and> l_inuse s' = 0" using s'(2) by (auto simp: heap_ok_def)
  moreover have "kernel_heap_ok s' Ms'" using s'(2) op(1) ne by (simp add: kernel_heap_ok_def)
  moreover have "areas Ms' = areas_without p Ms"
    unfolding Ms Ms'_def by (rule areas_after_free) (use h(3) other m' pp in \<open>auto simp: Ms block_of_def\<close>)
  ultimately show ?thesis using s'(1,5) sh live notin kept op(2) by (intro exI [of _ s'] exI [of _ Ms'] conjI)
qed

lemma free_correct:
  assumes "kernel_heap_ok s Ms" and "(p, n) \<in> live Ms"
  shows "\<exists>s' Ms'. la_free (vmm_pages fresh) p s = Inr s' \<and> kernel_heap_ok s' Ms' \<and> interrupts s'
     \<and> live Ms' = live Ms - {(p, n)} \<and> p \<notin> fst ` live Ms' \<and> (\<forall>b \<in> live Ms'. \<forall>y \<in> user_bytes b. hmem s' y = hmem s y)
     \<and> (live Ms' = {} \<longrightarrow> Ms' = [] \<and> l_memRoot s' = 0 \<and> l_allocated s' = 0 \<and> l_inuse s' = 0)
     \<and> areas Ms' = areas_without p Ms \<and> rest_of (page_state s') (areas Ms') = rest_of (page_state s) (areas Ms)"
  using free_correct_shrunk [OF assms, of fresh] by (elim exE conjE) (intro exI conjI, assumption+)

text \<open>What is not an allocation is refused.\<close>

lemma free_refused:
  assumes "p \<noteq> 0" and "get (hmem s) (UNALIGN (hmem s) p - 24) Magic \<noteq> LIBALLOC_MAGIC"
  shows "\<exists>s'. la_free ops p s = Inr s' \<and> hmem s' = hmem s \<and> page_state s' = page_state s \<and> l_memRoot s' = l_memRoot s \<and> l_bestBet s' = l_bestBet s
     \<and> l_allocated s' = l_allocated s \<and> l_inuse s' = l_inuse s \<and> l_errorCount s' = l_errorCount s + 1 \<and> interrupts s'"
  using assms by (simp add: la_free_def Let_def bad_magic_def liballoc_lock_def liballoc_unlock_def)

text \<open>
  A block freed twice while its major block has other allocations: the dead mark is found.
\<close>

definition share_block :: "major list \<Rightarrow> u32 \<Rightarrow> u32 \<Rightarrow> bool" where
  "share_block Ms p q \<longleftrightarrow> (\<exists>M \<in> set Ms. {p, q} \<subseteq> (fst \<circ> block_of) ` set (mj_minors M))"

lemma double_free:
  assumes ok: "kernel_heap_ok s Ms" and q: "share_block Ms p q" "p \<noteq> q" and run: "la_free (vmm_pages fresh) p s = Inr s'"
  shows "get (hmem s') (UNALIGN (hmem s') p - 24) Magic = LIBALLOC_DEAD" and "p \<noteq> 0"
proof -
  have h: "heap_ok s Ms" using ok by (simp add: kernel_heap_ok_def)
  obtain M x y where M: "M \<in> set Ms" "x \<in> set (mj_minors M)" "y \<in> set (mj_minors M)" "p = user_ptr (mn_at x)" "q = user_ptr (mn_at y)"
    using q(1) by (auto simp: share_block_def block_of_def)
  obtain A B where Ms: "Ms = A @ M # B" using M(1) by (auto simp: in_set_conv_decomp)
  obtain xs ys where xs: "mj_minors M = xs @ x # ys" using M(2) by (auto simp: in_set_conv_decomp)
  obtain a pg where Mj: "M = Major a pg (xs @ x # ys)" using xs by (cases M) auto
  have ok0: "heap_ok s (A @ Major a pg (xs @ x # ys) # B)" using h Ms Mj by simp
  have ne: "xs @ ys \<noteq> []" using M(3,4,5) q(2) xs by auto
  define s1 where "s1 = s\<lparr>interrupts := False, l_inuse := l_inuse s - ucast (mn_size x), hmem := unlink_minor (mn_at x) a (hmem s)\<rparr>"
  have ok1: "heap_ok s1 (A @ Major a pg (xs @ ys) # B)" and k1: "keeps (hmem s) (hmem s1) (A @ Major a pg (xs @ x # ys) # B)"
    using unlink_heap [OF ok0] by (simp_all add: s1_def)
  have "la_free (vmm_pages fresh) p s = Inr (liballoc_unlock (update_bet a s1))"
    using allocation_reads [OF ok0] block_first [OF ok1 ne] M(4) by (simp add: la_free_def Let_def liballoc_lock_def s1_def)
  then have m: "hmem s' = hmem s1" using run by (auto simp: liballoc_unlock_def update_bet_def Let_def)
  have ro: "roomy x" by (rule allocation_reads(7) [OF ok0])
  have "hmem s1 (tag_at (mn_at x)) = hmem s (tag_at (mn_at x))" using keepsD [OF k1 _ tags_apart [OF ro]] by simp
  also have "\<dots> = tag (mn_at x)" using ok0 by (simp add: heap_ok_def content_def major_mem_def minor_mem_def)
  finally have "UNALIGN (hmem s1) p = mn_at x + 24" using tag_facts(4) [OF roomy_tag(3) [OF ro]] M(4) by simp
  then show "get (hmem s') (UNALIGN (hmem s') p - 24) Magic = LIBALLOC_DEAD" using unlink_minor_dead [OF ok0] by (simp add: m s1_def)
  show "p \<noteq> 0" using user_ptr_facts(3) [OF ro] M(4) by simp
qed

section \<open>Copying and filling\<close>

text \<open>The copy loop of the heap is \<open>memcpy\<close> of the library.\<close>

lemma la_copy_words_fold:
  "la_copy_words m d c n = (fold (\<lambda>i m. write32 m (d + 4 * of_nat i) (read32 m (c + 4 * of_nat i))) [0..<unat (n div 4)] m,
     d + (n div 4) * 4, c + (n div 4) * 4, n mod 4)"
proof (induction m d c n rule: la_copy_words.induct)
  case (1 m d c n)
  show ?case
  proof (cases "4 \<le> n")
    case True
    let ?k = "unat ((n - 4) div 4)"
    have un: "unat (n - 4) = unat n - 4" "4 \<le> unat n" using True by (simp_all add: unat_sub word_le_nat_alt)
    have q: "unat (n div 4) = Suc ?k" using un by (simp add: unat_div div_if)
    have "n div 4 = of_nat (unat (n div 4))" by (simp only: of_nat_unat ucast_id)
    also have "\<dots> = (n - 4) div 4 + 1" unfolding q by (simp only: of_nat_Suc of_nat_unat ucast_id add.commute)
    finally have qw: "n div 4 = (n - 4) div 4 + 1" .
    have "unat ((n - 4) mod 4) = unat (n mod 4)" using un by (simp add: unat_mod mod_if)
    then have m: "(n - 4) mod 4 = n mod 4" by (simp only: word_unat_eq_iff)
    have "fold (\<lambda>i m. write32 m (d + 4 + 4 * of_nat i) (read32 m (c + 4 + 4 * of_nat i))) [0..<?k] (write32 m d (read32 m c))
        = fold (\<lambda>i m. write32 m (d + 4 * of_nat i) (read32 m (c + 4 * of_nat i))) [0..<Suc ?k] m"
      by (simp only: upt_conv_Cons [of 0 "Suc _"] map_Suc_upt [symmetric] zero_less_Suc fold_simps fold_map comp_def)
        (simp add: algebra_simps comp_def)
    moreover have "x + 4 + (n - 4) div 4 * 4 = x + n div 4 * 4" for x unfolding qw by (simp only: distrib_right) simp
    moreover have "la_copy_words m d c n = la_copy_words (write32 m d (read32 m c)) (d + 4) (c + 4) (n - 4)"
      using True by (subst la_copy_words.simps) simp
    ultimately show ?thesis unfolding q using 1 [OF True] m by simp
  next
    case False
    then have "unat n < 4" by (simp add: word_le_nat_alt)
    then have "n div 4 = 0" "n mod 4 = n" by (simp_all add: word_unat_eq_iff unat_div unat_mod)
    then show ?thesis using False by (subst la_copy_words.simps) simp
  qed
qed

lemma la_copy_bytes_fold: "la_copy_bytes m d c n = fold (\<lambda>i m. m(d + of_nat i := m (c + of_nat i))) [0..<unat n] m"
proof (induction m d c n rule: la_copy_bytes.induct)
  case (1 m d c n)
  show ?case
  proof (cases "0 < n")
    case True
    then have u: "unat n = Suc (unat (n - 1))" by (simp add: unat_sub word_less_nat_alt word_le_nat_alt)
    have "fold (\<lambda>i m. m(d + 1 + of_nat i := m (c + 1 + of_nat i))) [0..<unat (n - 1)] (m(d := m c))
        = fold (\<lambda>i m. m(d + of_nat i := m (c + of_nat i))) [0..<Suc (unat (n - 1))] m"
      by (simp only: upt_conv_Cons [of 0 "Suc _"] map_Suc_upt [symmetric] zero_less_Suc fold_simps fold_map comp_def)
        (simp add: algebra_simps comp_def)
    then show ?thesis using 1 True by (subst la_copy_bytes.simps) (simp add: u del: upt_Suc fun_upd_apply)
  next
    case False
    then have "n = 0" by (simp add: word_gt_0)
    then show ?thesis by (subst la_copy_bytes.simps) simp
  qed
qed

lemma liballoc_memcpy_eq: "liballoc_memcpy m d c n = fst (memcpy m d c n)"
  by (simp add: liballoc_memcpy_def la_copy_words_fold la_copy_bytes_fold memcpy_def Let_def)

lemma liballoc_memset_blit:
  "p \<noteq> 0 \<Longrightarrow> liballoc_memset p c n m = Inr (blit m p (unat n) (\<lambda>_. word_of_int c))"
  using memset_bytes [of 0 "unat n" p "word_of_int c" m] unat_u32_less [of n] by (simp add: liballoc_memset_def)

lemma blit_outside: "unat p + n \<le> 2 ^ 32 \<Longrightarrow> y \<notin> bytes_at p n \<Longrightarrow> blit m p n f y = m y"
proof -
  assume a: "unat p + n \<le> 2 ^ 32" "y \<notin> bytes_at p n"
  have "n \<le> unat (y - p)"
  proof (cases "p \<le> y")
    case True
    then show ?thesis using a(2) by (simp add: unat_sub bytes_at_def word_le_nat_alt)
  next
    case False
    then have "unat (y - p) = 2 ^ 32 + unat y - unat p" by (simp add: unat_sub_if_size word_size word_le_nat_alt)
    then show ?thesis using a(1) by simp
  qed
  then show ?thesis by (simp add: blit_def)
qed

lemma blit_inside: "i < n \<Longrightarrow> n < 2 ^ 32 \<Longrightarrow> blit m p n f (p + of_nat i) = f i"
  by (simp add: blit_def unat_of_nat_less)

section \<open>Writes of the users\<close>

lemma content_cong:
  assumes "content m Ms" and "\<And>c f. c \<in> headers Ms \<Longrightarrow> get m' c f = get m c f"
    and "\<And>x. x \<in> set (minors_of Ms) \<Longrightarrow> m' (tag_at (mn_at x)) = m (tag_at (mn_at x))"
  shows "content m' Ms"
proof -
  have "dll m' 0 (map mj_at Ms) 0 \<longleftrightarrow> dll m 0 (map mj_at Ms) 0"
    by (rule dll_cong) (use assms(2) in \<open>auto simp: headers_def\<close>)
  moreover have "major_mem m' M" if "M \<in> set Ms" for M
  proof (rule major_mem_cong [where skip = "\<lambda>_. {}"])
    show "major_mem m M" using assms(1) that by (simp add: content_def)
    show "get m' c f = get m c f" if "c = mj_at M \<or> c \<in> mn_at ` set (mj_minors M)" for c f
      using that \<open>M \<in> set Ms\<close> by (intro assms(2)) (auto simp: headers_def)
    show "m' (tag_at (mn_at x)) = m (tag_at (mn_at x))" if "x \<in> set (mj_minors M)" for x
      using that \<open>M \<in> set Ms\<close> by (intro assms(3)) (auto simp: in_minors_of)
  qed simp_all
  ultimately show ?thesis using assms(1) by (simp add: content_def)
qed

lemma user_write_ok:
  assumes ok: "kernel_heap_ok s Ms" and b: "b \<in> live Ms" and m': "\<And>y. y \<notin> user_bytes b \<Longrightarrow> m' y = hmem s y"
  shows "kernel_heap_ok (s\<lparr>hmem := m'\<rparr>) Ms"
proof -
  have h: "heap_ok s Ms" using ok by (simp add: kernel_heap_ok_def)
  have lay: "layout Ms" using h by (simp add: heap_ok_def)
  obtain x where x: "x \<in> set (minors_of Ms)" "b = block_of x" using b by (auto simp: live_def)
  obtain M where M: "M \<in> set Ms" "x \<in> set (mj_minors M)" using x(1) unfolding in_minors_of by blast
  have pay: "user_bytes b \<subseteq> payload x" using user_ptr_facts(1) [OF roomy_live [OF h x(1)]] x(2) by simp
  have "content m' Ms"
  proof (rule content_cong)
    show "content (hmem s) Ms" using h by (simp add: heap_ok_def)
    show "get m' c f = get (hmem s) c f" if c: "c \<in> headers Ms" for c f
    proof (rule get_cong)
      show "fits c" using layout_separated [OF lay] c by (simp add: separated_def)
      show "m' y = hmem s y" if "y \<in> hdr c" for y using payload_not_header [OF lay M _ c] that pay by (intro m') blast
    qed
    show "m' (tag_at (mn_at y)) = hmem s (tag_at (mn_at y))" if y: "y \<in> set (minors_of Ms)" for y
    proof (rule m')
      have ro: "roomy y" by (rule roomy_live [OF h y])
      show "tag_at (mn_at y) \<notin> user_bytes b"
      proof (cases "y = x")
        case True
        then show ?thesis using user_ptr_facts(6) [OF ro] x(2) by simp
      next
        case False
        then show ?thesis using minors_apart [OF lay y x(1)] roomy_tag(1) [OF ro] pay unfolding payload_def by blast
      qed
    qed
  qed
  then show ?thesis using ok by (simp add: kernel_heap_ok_def heap_ok_def)
qed

section \<open>calloc and realloc\<close>

lemma calloc_correct:
  assumes ok: "kernel_heap_ok s Ms" and rq: "unat (nobj * sz) + 80 < 2 ^ 32" and room: "page_room (pages_for (nobj * sz + 32)) (page_state s)"
    and fuel: "enough_fuel fuel Ms"
  shows "\<exists>p s' Ms'. la_calloc fuel (vmm_pages fresh) nobj sz s = Inr (p, s') \<and> kernel_heap_ok s' Ms' \<and> p \<notin> fst ` live Ms
     \<and> live Ms' = insert (p, nobj * sz) (live Ms) \<and> (\<forall>i < unat (nobj * sz). hmem s' (p + of_nat i) = 0)
     \<and> (\<forall>b \<in> live Ms. \<forall>y \<in> user_bytes b. hmem s' y = hmem s y)
     \<and> rest_of (page_state s') (areas Ms') = rest_of (page_state s) (areas Ms)"
proof -
  let ?n = "nobj * sz"
  obtain p s1 Ms' where 1: "la_malloc fuel (vmm_pages fresh) ?n s = Inr (p, s1)" "kernel_heap_ok s1 Ms'" "p \<noteq> 0" "unat p + unat ?n \<le> 2 ^ 32" "p \<notin> fst ` live Ms"
    "live Ms' = insert (p, ?n) (live Ms)" "\<forall>b \<in> live Ms. user_bytes b \<inter> user_bytes (p, ?n) = {} \<and> (\<forall>y \<in> user_bytes b. hmem s1 y = hmem s y)"
    "rest_of (page_state s1) (areas Ms') = rest_of (page_state s) (areas Ms)"
    using malloc_correct [OF ok rq room fuel, of fresh] by (elim exE conjE) (rule that)
  let ?m = "blit (hmem s1) p (unat ?n) (\<lambda>_. word_of_int 0)"
  let ?s = "s1\<lparr>hmem := ?m\<rparr>"
  have out: "?m y = hmem s1 y" if "y \<notin> user_bytes (p, ?n)" for y using blit_outside [OF 1(4)] that by (simp add: user_bytes_def)
  have "(p, ?n) \<in> live Ms'" by (simp add: 1(6))
  then have "kernel_heap_ok ?s Ms'" using out by (rule user_write_ok [OF 1(2)])
  moreover have "hmem ?s (p + of_nat i) = 0" if "i < unat ?n" for i
    using blit_inside [OF that, of "hmem s1" p "\<lambda>_. word_of_int 0"] unat_u32_less [of ?n] by simp
  moreover have "hmem ?s y = hmem s y" if "b \<in> live Ms" "y \<in> user_bytes b" for b y
  proof -
    have "y \<notin> user_bytes (p, ?n)" "hmem s1 y = hmem s y" using 1(7) that by blast+
    then show ?thesis using out by simp
  qed
  moreover have "la_calloc fuel (vmm_pages fresh) nobj sz s = Inr (p, ?s)"
    using 1(1) liballoc_memset_blit [OF 1(3), of 0 ?n "hmem s1"] by (simp add: la_calloc_def)
  moreover have "rest_of (page_state ?s) (areas Ms') = rest_of (page_state s) (areas Ms)" using 1(8) by simp
  ultimately show ?thesis using 1(5,6) by blast
qed

lemma resize_heap:
  assumes ok: "heap_ok s (A @ Major a pg (xs @ x # ys) # B)" and sz: "unat sz \<le> unat (mn_req x)"
  defines "x' \<equiv> Minor (mn_at x) (mn_size x) sz" and "m' \<equiv> put (mn_at x) Req_Size sz (hmem s)"
  shows "heap_ok (s\<lparr>hmem := m'\<rparr>) (A @ Major a pg (xs @ x' # ys) # B)" and "keeps (hmem s) m' (A @ Major a pg (xs @ x # ys) # B)"
proof -
  let ?Old = "A @ Major a pg (xs @ x # ys) # B" and ?New = "A @ Major a pg (xs @ x' # ys) # B" and ?M = "Major a pg (xs @ x # ys)"
  have lay: "layout ?Old" and old: "content (hmem s) ?Old" using ok by (simp_all add: heap_ok_def)
  have M: "?M \<in> set ?Old" by simp
  have sp: "spaced lo (xs @ x' # ys) hi = spaced lo (xs @ x # ys) hi" for lo hi by (simp add: spaced_append x'_def minor_end_def)
  have "major_geo ?M" using lay by (simp add: layout_def)
  then have "major_geo (Major a pg (xs @ x' # ys))" by (simp add: major_geo_def major_end_def sp)
  then have lay': "layout ?New" by (rule layout_resize [OF lay])
  have sep: "separated (headers ?Old)" by (rule layout_separated [OF lay])
  have xh: "mn_at x \<in> headers ?Old" by auto
  have fit: "fits (mn_at x)" using sep xh by (simp add: separated_def)
  have gets: "get m' c f = (if c = mn_at x \<and> f = Req_Size then sz else get (hmem s) c f)" if "c \<in> headers ?Old" for c f
    using get_put [OF sep xh that, of Req_Size sz "hmem s" f] by (auto simp: m'_def)
  have bytes: "m' y = hmem s y" if "y \<notin> hdr (mn_at x)" for y using put_outside [OF fit that] by (simp add: m'_def)
  show k: "keeps (hmem s) m' ?Old" using lay by (rule keeps_headers) (use bytes xh in auto)
  have rest: "major_mem m' N" if N: "N \<in> set ?Old" "N \<noteq> ?M" for N
  proof (rule other_major_mem [OF lay M N])
    show "major_mem (hmem s) N" "\<forall>y \<in> set (mj_minors N). roomy y" using old N content_roomy [OF lay old N(1)] unfolding content_def by blast+
    show "get m' c f = get (hmem s) c f" if "c \<in> headers ?Old" "c \<notin> insert (mj_at ?M) (mn_at ` set (mj_minors ?M))" for c f
      using gets [OF that(1)] that(2) by auto
    show "m' y = hmem s y" if "y \<notin> \<Union> (hdr ` headers ?Old)" for y using that xh by (intro bytes) blast
  qed
  have oldM: "major_mem (hmem s) ?M" using old unfolding content_def by simp
  have "dll m' p (map mn_at (xs @ x' # ys)) n = dll (hmem s) p (map mn_at (xs @ x # ys)) n" for p n
  proof -
    have "map mn_at (xs @ x' # ys) = map mn_at (xs @ x # ys)" by (simp add: x'_def)
    then show ?thesis by (simp only:) (rule dll_cong, use gets in \<open>auto\<close>)
  qed
  moreover have "minor_mem m' a y" if y: "y \<in> set (xs @ ys)" for y
  proof -
    have d: "distinct (map mn_at (xs @ x # ys))" using layout_distinct [OF lay M] by simp
    then have nx: "mn_at x \<notin> mn_at ` set (xs @ ys)" by auto
    have yM: "y \<in> set (mj_minors ?M)" "mn_at y \<in> headers ?Old" using y by auto
    have ne: "mn_at y \<noteq> mn_at x" using nx y by (metis imageI)
    have "minor_mem (hmem s) a y" "roomy y" using oldM yM(1) content_roomy [OF lay old M yM(1)] by (auto simp: major_mem_def)
    moreover have "m' (tag_at (mn_at y)) = hmem s (tag_at (mn_at y))"
      using tag_not_header [OF lay M yM(1) \<open>roomy y\<close> xh] by (rule bytes)
    ultimately show ?thesis using gets [OF yM(2)] ne by (simp add: minor_mem_def)
  qed
  moreover have "minor_mem m' a x'"
  proof -
    have "minor_mem (hmem s) a x" "roomy x" using oldM content_roomy [OF lay old M, of x] by (auto simp: major_mem_def)
    moreover have "m' (tag_at (mn_at x)) = hmem s (tag_at (mn_at x))" using roomy_tag(2) [OF \<open>roomy x\<close>] by (rule bytes)
    ultimately show ?thesis using gets [OF xh] sz by (auto simp: minor_mem_def x'_def)
  qed
  moreover have "a \<noteq> mn_at x" using major_ne_minor [OF lay M M, of x] by simp
  ultimately have "major_mem m' (Major a pg (xs @ x' # ys))"
    using oldM gets [of a] by (auto simp: major_mem_def usage_of_def x'_def)
  moreover have "dll m' 0 (map mj_at ?New) 0"
  proof -
    have "dll m' 0 (map mj_at ?Old) 0 \<longleftrightarrow> dll (hmem s) 0 (map mj_at ?Old) 0"
    proof (rule dll_cong)
      fix c
      assume "c \<in> set (map mj_at ?Old)"
      then have "c \<in> headers ?Old" unfolding headers_def by auto
      then show "get m' c Prev = get (hmem s) c Prev \<and> get m' c Next = get (hmem s) c Next" using gets by simp
    qed
    then show ?thesis using old by (simp add: content_def)
  qed
  moreover have "N \<noteq> ?M" if "N \<in> set A \<union> set B" for N
  proof
    have "a \<notin> mj_at ` (set A \<union> set B)" using lay by (auto simp: layout_def)
    moreover assume "N = ?M"
    ultimately show False using imageI [OF that, of mj_at] by simp
  qed
  ultimately have "content m' ?New" using rest by (auto simp: content_def)
  then show "heap_ok (s\<lparr>hmem := m'\<rparr>) ?New" using ok lay' by (auto simp: heap_ok_def x'_def)
qed

lemma live_fst:
  assumes "heap_ok s Ms" and "b \<in> live Ms" and "c \<in> live Ms" and "b \<noteq> c"
  shows "fst b \<noteq> fst c" and "user_bytes b \<inter> user_bytes c = {}"
proof -
  obtain x y where "x \<in> set (minors_of Ms)" "y \<in> set (minors_of Ms)" "b = block_of x" "c = block_of y" "x \<noteq> y"
    using assms(2-4) by (auto simp: live_def)
  then show "fst b \<noteq> fst c" "user_bytes b \<inter> user_bytes c = {}" using live_apart [OF assms(1)] by (simp_all add: block_of_def)
qed

lemma live_bound:
  assumes "heap_ok s Ms" and "(p, n) \<in> live Ms"
  shows "unat p + unat n \<le> 2 ^ 32" and "p \<noteq> 0"
proof -
  obtain x where "x \<in> set (minors_of Ms)" "(p, n) = block_of x" using assms(2) by (auto simp: live_def)
  then show "unat p + unat n \<le> 2 ^ 32" "p \<noteq> 0" using user_ptr_facts(3,4) [OF roomy_live [OF assms(1)]] by (auto simp: block_of_def)
qed

lemma user_bytes_index: "i < unat n \<Longrightarrow> unat p + unat n \<le> 2 ^ 32 \<Longrightarrow> p + of_nat i \<in> user_bytes (p, n)"
proof -
  assume a: "i < unat n" "unat p + unat n \<le> 2 ^ 32"
  have i: "unat (of_nat i :: u32) = i" using a(1) unat_u32_less [of n] by (intro unat_of_nat_less) simp
  then have "unat (p + of_nat i) = unat p + i" using a unat_plus_no_wrap [of p "of_nat i"] by simp
  then show ?thesis using a(1) by (simp add: user_bytes_def bytes_at_def)
qed

text \<open>A copy towards a separate block: the bytes still to be read are never overwritten.\<close>

lemma memcpy_apart_blit:
  assumes "unat p + unat n \<le> 2 ^ 32" and "unat q + unat k \<le> 2 ^ 32" and "n \<le> k" and "user_bytes (p, n) \<inter> user_bytes (q, k) = {}"
  shows "liballoc_memcpy m q p n = blit m q (unat n) (\<lambda>j. m (p + of_nat j))"
proof (cases "n = 0")
  case True
  then show ?thesis unfolding liballoc_memcpy_eq using unat_u32_less [of "p - q"] by (intro memcpy_blit) simp
next
  case False
  then have n: "0 < unat n" "unat n \<le> unat k" using assms(3) by (simp_all add: unat_gt_0 word_le_nat_alt)
  have "p \<notin> user_bytes (q, k)" "q \<notin> user_bytes (p, n)"
    using assms(4) n by (auto simp: user_bytes_def bytes_at_def)
  then have "unat q + unat k \<le> unat p \<or> unat p + unat n \<le> unat q" using n by (auto simp: user_bytes_def bytes_at_def)
  then have "unat (p - q) + unat n \<le> 2 ^ 32"
  proof
    assume "unat q + unat k \<le> unat p"
    then have "unat (p - q) = unat p - unat q" by (simp add: unat_sub word_le_nat_alt)
    then show ?thesis using assms(1) by simp
  next
    assume a: "unat p + unat n \<le> unat q"
    then have "unat (p - q) = 2 ^ 32 + unat p - unat q" using n by (simp add: unat_sub_if_size word_size)
    then show ?thesis using a assms(2) by simp
  qed
  then show ?thesis unfolding liballoc_memcpy_eq by (rule memcpy_blit)
qed

lemma realloc_shrinks:
  assumes ok: "kernel_heap_ok s Ms" and p: "(p, n) \<in> live Ms" and sz: "sz \<noteq> 0" "sz \<le> n"
  shows "\<exists>s' Ms'. la_realloc fuel (vmm_pages fresh) p sz s = Inr (p, s') \<and> kernel_heap_ok s' Ms' \<and> interrupts s'
     \<and> live Ms' = insert (p, sz) (live Ms - {(p, n)}) \<and> (\<forall>b \<in> live Ms. \<forall>y \<in> user_bytes b. hmem s' y = hmem s y)
     \<and> rest_of (page_state s') (areas Ms') = rest_of (page_state s) (areas Ms)"
proof -
  have h: "heap_ok s Ms" "heap_pages (page_state s) (areas Ms)" "\<forall>M \<in> set Ms. mj_minors M \<noteq> []" using ok by (simp_all add: kernel_heap_ok_def)
  obtain x where x: "x \<in> set (minors_of Ms)" "(p, n) = block_of x" using p by (auto simp: live_def)
  obtain A a pg xs ys B where Ms: "Ms = A @ Major a pg (xs @ x # ys) # B" using x(1) by (rule minor_split)
  have pp: "p = user_ptr (mn_at x)" "n = mn_req x" using x(2) by (simp_all add: block_of_def)
  define x' Ms' where "x' = Minor (mn_at x) (mn_size x) sz" and "Ms' = A @ Major a pg (xs @ x' # ys) # B"
  let ?m = "put (mn_at x) Req_Size sz (hmem s)"
  let ?s = "liballoc_unlock (liballoc_lock s\<lparr>hmem := ?m\<rparr>)"
  have ok': "heap_ok (s\<lparr>hmem := ?m\<rparr>) Ms'" and k: "keeps (hmem s) ?m Ms"
    using resize_heap [of s A a pg xs x ys B sz] h(1) sz pp unfolding Ms Ms'_def x'_def by (simp_all add: word_le_nat_alt)
  have "la_realloc fuel (vmm_pages fresh) p sz s = Inr (p, ?s)"
    using allocation_reads [of s A a pg xs x ys B] h(1) sz pp live_bound(2) [OF h(1) p]
    by (simp add: la_realloc_def Let_def Ms liballoc_lock_def)
  moreover have "kernel_heap_ok ?s Ms'"
    using ok' h(2,3) by (simp add: kernel_heap_ok_def heap_ok_def liballoc_unlock_def liballoc_lock_def Ms'_def Ms)
  moreover have "live Ms' = insert (p, sz) (live Ms - {(p, n)})"
  proof -
    have "distinct (minors_of Ms)" using minors_of_distinct h(1) by (auto simp: heap_ok_def)
    then have nx: "x \<notin> set (minors_of (A @ Major a pg (xs @ ys) # B))" by (auto simp: Ms)
    have "(p, n) \<notin> live (A @ Major a pg (xs @ ys) # B)"
    proof
      assume "(p, n) \<in> live (A @ Major a pg (xs @ ys) # B)"
      then obtain y where y: "y \<in> set (minors_of (A @ Major a pg (xs @ ys) # B))" "(p, n) = block_of y" unfolding live_def by blast
      then have "y \<in> set (minors_of Ms)" "y \<noteq> x" using nx by (auto simp: Ms)
      then have "user_ptr (mn_at y) \<noteq> user_ptr (mn_at x)" by (rule live_apart(2) [OF h(1) _ x(1)])
      then show False using y(2) pp(1) by (simp add: block_of_def)
    qed
    moreover have "live Ms = insert (p, n) (live (A @ Major a pg (xs @ ys) # B))" using x(2) by (auto simp: live_def Ms)
    moreover have "live Ms' = insert (p, sz) (live (A @ Major a pg (xs @ ys) # B))"
      using pp(1) by (auto simp: live_def Ms'_def x'_def block_of_def)
    ultimately show ?thesis by simp
  qed
  moreover have "\<forall>b \<in> live Ms. \<forall>y \<in> user_bytes b. hmem ?s y = hmem s y"
    using keeps_user [OF h(1) k] by (simp add: liballoc_unlock_def liballoc_lock_def)
  moreover have "rest_of (page_state ?s) (areas Ms') = rest_of (page_state s) (areas Ms)"
    by (simp add: Ms Ms'_def liballoc_unlock_def liballoc_lock_def)
  ultimately show ?thesis by (intro exI [of _ ?s] exI [of _ Ms'] conjI) (assumption | simp add: liballoc_unlock_def)+
qed

lemma realloc_grows:
  assumes ok: "kernel_heap_ok s Ms" and p: "(p, n) \<in> live Ms" and sz: "n < sz" and rq: "unat sz + 80 < 2 ^ 32"
    and room: "page_room (pages_for (sz + 32)) (page_state s)" and fuel: "enough_fuel fuel Ms"
  shows "\<exists>q s' Ms'. la_realloc fuel (vmm_pages fresh) p sz s = Inr (q, s') \<and> kernel_heap_ok s' Ms' \<and> interrupts s'
     \<and> q \<notin> fst ` live Ms \<and> live Ms' = insert (q, sz) (live Ms - {(p, n)})
     \<and> (\<forall>i < unat n. hmem s' (q + of_nat i) = hmem s (p + of_nat i))
     \<and> (\<forall>b \<in> live Ms - {(p, n)}. \<forall>y \<in> user_bytes b. hmem s' y = hmem s y)
     \<and> rest_of (page_state s') (areas Ms') = rest_of (page_state s) (areas Ms)"
proof -
  have h: "heap_ok s Ms" using ok by (simp add: kernel_heap_ok_def)
  let ?s = "liballoc_unlock (liballoc_lock s)"
  have ok0: "kernel_heap_ok ?s Ms" "hmem ?s = hmem s" "page_state ?s = page_state s"
    using ok by (simp_all add: kernel_heap_ok_def heap_ok_def liballoc_lock_def liballoc_unlock_def)
  obtain q s1 Ms1 where 1: "la_malloc fuel (vmm_pages fresh) sz ?s = Inr (q, s1)" "kernel_heap_ok s1 Ms1" "q \<noteq> 0" "unat q + unat sz \<le> 2 ^ 32"
    "q \<notin> fst ` live Ms" "live Ms1 = insert (q, sz) (live Ms)"
    "\<forall>b \<in> live Ms. user_bytes b \<inter> user_bytes (q, sz) = {} \<and> (\<forall>y \<in> user_bytes b. hmem s1 y = hmem ?s y)"
    "rest_of (page_state s1) (areas Ms1) = rest_of (page_state s) (areas Ms)"
    using malloc_correct [OF ok0(1) rq, of fuel fresh, unfolded ok0(3), OF room fuel] by (elim exE conjE) (rule that)
  note pn = live_bound [OF h p]
  let ?m = "blit (hmem s1) q (unat n) (\<lambda>j. hmem s1 (p + of_nat j))"
  have cp: "liballoc_memcpy (hmem s1) q p n = ?m" using pn(1) 1(4,7) p sz by (intro memcpy_apart_blit) auto
  have out: "?m y = hmem s1 y" if "y \<notin> user_bytes (q, sz)" for y
  proof (rule blit_outside)
    show "unat q + unat n \<le> 2 ^ 32" using 1(4) sz by (simp add: word_less_nat_alt)
    show "y \<notin> bytes_at q (unat n)" using that sz by (auto simp: user_bytes_def bytes_at_def word_less_nat_alt)
  qed
  have qin: "(q, sz) \<in> live Ms1" by (simp add: 1(6))
  then have ok2: "kernel_heap_ok (s1\<lparr>hmem := ?m\<rparr>) Ms1" using out by (rule user_write_ok [OF 1(2)])
  have hm: "hmem (s1\<lparr>hmem := ?m\<rparr>) = ?m" by simp
  have p1: "(p, n) \<in> live Ms1" using p by (simp add: 1(6))
  obtain s' Ms' where 3: "la_free (vmm_pages fresh) p (s1\<lparr>hmem := ?m\<rparr>) = Inr s'" "kernel_heap_ok s' Ms'" "interrupts s'"
    "live Ms' = live Ms1 - {(p, n)}" "\<forall>b \<in> live Ms'. \<forall>y \<in> user_bytes b. hmem s' y = ?m y"
    "rest_of (page_state s') (areas Ms') = rest_of (page_state (s1\<lparr>hmem := ?m\<rparr>)) (areas Ms1)"
    using free_correct [OF ok2 p1, of fresh] unfolding hm by (elim exE conjE) (rule that)
  have qp: "(q, sz) \<noteq> (p, n)" using sz by auto
  have "live Ms' = insert (q, sz) (live Ms - {(p, n)})" using 3(4) 1(6) qp by auto
  moreover have "hmem s' (q + of_nat i) = hmem s (p + of_nat i)" if i: "i < unat n" for i
  proof -
    have "(q, sz) \<in> live Ms'" using qin qp 3(4) by simp
    moreover have "q + of_nat i \<in> user_bytes (q, sz)" using i sz 1(4) by (intro user_bytes_index) (auto simp: word_less_nat_alt)
    ultimately have "hmem s' (q + of_nat i) = ?m (q + of_nat i)" using 3(5) by blast
    also have "\<dots> = hmem s1 (p + of_nat i)" using i unat_u32_less [of n] by (simp add: blit_inside)
    also have "\<dots> = hmem s (p + of_nat i)" using 1(7) p user_bytes_index [OF i pn(1)] ok0(2) by (metis (no_types))
    finally show ?thesis .
  qed
  moreover have "hmem s' y = hmem s y" if b: "b \<in> live Ms - {(p, n)}" "y \<in> user_bytes b" for b y
  proof -
    have "b \<in> live Ms'" using b(1) 3(4) 1(6) by simp
    then have "hmem s' y = ?m y" using 3(5) b(2) by blast
    also have "\<dots> = hmem s y" using out [of y] 1(7) b ok0(2) by (metis (no_types) DiffD1 disjoint_iff)
    finally show ?thesis .
  qed
  moreover have "la_realloc fuel (vmm_pages fresh) p sz s = Inr (q, s')"
  proof -
    obtain x where x: "x \<in> set (minors_of Ms)" "(p, n) = block_of x" using p by (auto simp: live_def)
    obtain A a pg xs ys B where Ms: "Ms = A @ Major a pg (xs @ x # ys) # B" using x(1) by (rule minor_split)
    have sz0: "sz \<noteq> 0" "\<not> sz \<le> n" using sz by auto
    have "UNALIGN (hmem s) p - 24 = mn_at x" "get (hmem s) (mn_at x) Magic = LIBALLOC_MAGIC" "get (hmem s) (mn_at x) Req_Size = n" "p \<noteq> 0"
      using allocation_reads [of s A a pg xs x ys B] h x(2) unfolding Ms by (simp_all add: block_of_def)
    then show ?thesis using sz sz0 1(1,3) 3(1) cp by (simp add: la_realloc_def Let_def liballoc_lock_def)
  qed
  moreover have "rest_of (page_state s') (areas Ms') = rest_of (page_state s) (areas Ms)" using 3(6) 1(8) by simp
  ultimately show ?thesis using 3(2,3) 1(5) by blast
qed

end
