(* ===== verification/Block_Heap.thy ===== *)
theory Block_Heap
  imports Linked_List
begin

text \<open>
  The kernel heap as the device drivers use it: \<open>malloc\<close> takes a size and the allocator's state \<open>'m\<close>
  and returns an address, 0 for \<open>NULL\<close>. \<open>fresh_blocks malloc n h X\<close> is what a driver relies on: the
  next \<open>n\<close> allocations, of up to 32 KiB each, return blocks that differ from each other and from the
  addresses in \<open>X\<close>. The locale \<open>block_heap\<close> is the contract of a heap that also takes blocks back.
  \<open>Heap_Clients\<close> shows that the kernel heap keeps both promises.
\<close>

type_synonym 'm alloc = "u32 \<Rightarrow> 'm \<Rightarrow> u32 \<times> 'm"

definition MAX_REQUEST :: u32 where "MAX_REQUEST = 0x8000"

primrec fresh_blocks :: "'m alloc \<Rightarrow> nat \<Rightarrow> 'm \<Rightarrow> u32 set \<Rightarrow> bool" where
  "fresh_blocks malloc 0 h X \<longleftrightarrow> True"
| "fresh_blocks malloc (Suc n) h X \<longleftrightarrow> (\<forall>sz \<le> MAX_REQUEST. fst (malloc sz h) \<noteq> 0 \<and> fst (malloc sz h) \<notin> X
     \<and> fresh_blocks malloc n (snd (malloc sz h)) (insert (fst (malloc sz h)) X))"

lemma fresh_blocks_numeral:
  "fresh_blocks malloc (numeral k) h X \<longleftrightarrow> (\<forall>sz \<le> MAX_REQUEST. fst (malloc sz h) \<noteq> 0 \<and> fst (malloc sz h) \<notin> X
     \<and> fresh_blocks malloc (pred_numeral k) (snd (malloc sz h)) (insert (fst (malloc sz h)) X))"
  by (simp add: numeral_eq_Suc)

lemma fresh_blocksD:
  assumes "fresh_blocks malloc (Suc n) h X" and "malloc sz h = (p, h')" and "sz \<le> MAX_REQUEST"
  shows "p \<noteq> 0" and "p \<notin> X" and "fresh_blocks malloc n h' (insert p X)"
proof -
  have "fst (malloc sz h) \<noteq> 0 \<and> fst (malloc sz h) \<notin> X
      \<and> fresh_blocks malloc n (snd (malloc sz h)) (insert (fst (malloc sz h)) X)"
    using assms(1,3) by simp
  then show "p \<noteq> 0" "p \<notin> X" "fresh_blocks malloc n h' (insert p X)" using assms(2) by simp_all
qed

lemma fresh_blocks_antimono: "fresh_blocks malloc n h X \<Longrightarrow> Y \<subseteq> X \<Longrightarrow> m \<le> n \<Longrightarrow> fresh_blocks malloc m h Y"
proof (induction n arbitrary: h X Y m)
  case (Suc n)
  show ?case
  proof (cases m)
    case (Suc k)
    have "fresh_blocks malloc k (snd (malloc sz h)) (insert (fst (malloc sz h)) Y)" if "sz \<le> MAX_REQUEST" for sz
      using that Suc.prems Suc Suc.IH [of "snd (malloc sz h)" "insert (fst (malloc sz h)) X" "insert (fst (malloc sz h)) Y" k]
      by auto
    then show ?thesis using Suc Suc.prems by auto
  qed simp
qed simp

text \<open>
  The contract with \<open>free\<close>: \<open>serves n h L\<close> says that the blocks in use of the heap \<open>h\<close> are those at the addresses \<open>L\<close>
  and that it has memory for \<open>n\<close> more requests.
\<close>

locale block_heap =
  fixes malloc :: "'m alloc" and free :: "u32 \<Rightarrow> 'm \<Rightarrow> 'm" and serves :: "nat \<Rightarrow> 'm \<Rightarrow> u32 set \<Rightarrow> bool"
  assumes malloc_serves: "serves (Suc n) h L \<Longrightarrow> sz \<le> MAX_REQUEST \<Longrightarrow> malloc sz h = (p, h') \<Longrightarrow> p \<noteq> 0 \<and> p \<notin> L \<and> serves n h' (insert p L)"
    and free_serves: "serves n h L \<Longrightarrow> p \<in> L \<Longrightarrow> serves n (free p h) (L - {p})"
begin

lemma serves_malloc:
  assumes "serves (Suc n) h L" and "sz \<le> MAX_REQUEST"
  obtains p h' where "malloc sz h = (p, h')" and "p \<noteq> 0" and "p \<notin> L" and "serves n h' (insert p L)"
  using malloc_serves [OF assms] by (cases "malloc sz h") blast

lemma serves_fresh: "serves n h L \<Longrightarrow> X \<subseteq> L \<Longrightarrow> fresh_blocks malloc n h X"
proof (induction n arbitrary: h L X)
  case (Suc n)
  show ?case unfolding fresh_blocks.simps
  proof (intro allI impI)
    fix sz :: u32 assume "sz \<le> MAX_REQUEST"
    then obtain p h' where p: "malloc sz h = (p, h')" "p \<noteq> 0" "p \<notin> L" "serves n h' (insert p L)" by (rule serves_malloc [OF Suc.prems(1)])
    have "fresh_blocks malloc n h' (insert p X)" using p(4) by (rule Suc.IH) (use Suc.prems(2) in blast)
    then show "fst (malloc sz h) \<noteq> 0 \<and> fst (malloc sz h) \<notin> X \<and> fresh_blocks malloc n (snd (malloc sz h)) (insert (fst (malloc sz h)) X)"
      using p(1-3) Suc.prems(2) by auto
  qed
qed simp

text \<open>What was allocated last and is freed again leaves the blocks in use as they were.\<close>

lemma serves_free_new: "serves n h (insert p L) \<Longrightarrow> p \<notin> L \<Longrightarrow> serves n (free p h) L"
  using free_serves [of n h "insert p L" p] by simp

end

text \<open>A heap for concrete runs: blocks of 4096 bytes one after the other.\<close>

definition bump :: "u32 alloc" where
  "bump sz h = (h, h + 0x1000)"

lemma fresh_blocks_bump:
  assumes "unat h + 4096 * n < 2 ^ 32" and "0 < unat h" and "\<forall>x \<in> X. unat x < unat h"
  shows "fresh_blocks bump n h X"
  using assms
proof (induction n arbitrary: h X)
  case (Suc n)
  have u: "unat (h + 0x1000) = unat h + 0x1000" using Suc.prems(1) by (subst unat_plus_no_wrap) simp_all
  have "fresh_blocks bump n (h + 0x1000) (insert h X)"
    using Suc.prems by (intro Suc.IH) (auto simp: u)
  moreover have "h \<noteq> 0" "h \<notin> X" using Suc.prems(2,3) by auto
  ultimately show ?case using bump_def [of _ h] by simp
qed simp

end
