(* ===== verification/Heap_Clients.thy ===== *)
theory Heap_Clients
  imports Heap_Correct Block_Heap
begin

text \<open>
  The kernel heap as its clients see it: with pages left it keeps the promise \<open>fresh_blocks\<close> that the drivers rely
  on, so that what is proved of them holds over \<open>liballoc\<close> and the virtual memory manager.
\<close>

section \<open>Pages left\<close>

text \<open>\<open>m\<close> more pages can be mapped: there are frames, and a run of pages of this length is free.\<close>

definition pages_left :: "nat \<Rightarrow> vmm \<Rightarrow> bool" where
  "pages_left m v \<longleftrightarrow> m \<le> card (fresh_frames v) \<and> (\<exists>t \<ge> first_page True. free_pages v t m)"

lemma page_room_left: "page_room n v \<longleftrightarrow> pages_left (unat n) v"
  by (simp add: page_room_def pages_left_def)

lemma pages_left_mono: "pages_left m v \<Longrightarrow> k \<le> m \<Longrightarrow> pages_left k v"
  unfolding pages_left_def free_pages_def by fastforce

lemma pages_left_0: "pages_left 0 v"
  unfolding pages_left_def free_pages_def
  by (intro conjI exI [of _ "first_page True"]) (simp_all add: first_page_def KERNEL_STATIC_MEM_START_def)

text \<open>The allocation takes the lowest run that is long enough, so what it leaves of a longer run is still free.\<close>

lemma alloc_leaves:
  assumes ok: "heap_pages v S" and n: "n \<noteq> 0" and left: "pages_left m v" "unat n \<le> m"
    and run: "page_alloc (vmm_pages fresh) n c v = Inr (b, c', v')"
  shows "pages_left (m - unat n) v'"
proof -
  have n0: "0 < n" "0 < unat n" using n by (simp_all add: word_gt_0 unat_gt_0)
  have wf: "phys_wf (frames v)" "current_page_directory v = Kernel_Dir" using ok by (simp_all add: heap_pages_def)
  obtain t where t: "first_page True \<le> t" "free_pages v t m" and card: "m \<le> card (fresh_frames v)" using left(1) by (auto simp: pages_left_def)
  have n20: "unat n \<le> 1048576" using t(2) left(2) by (simp add: free_pages_def)
  have cn: "unat n \<le> card (fresh_frames v)" using card left(2) by simp
  obtain st fs w where s: "X86AllocateContiguousVirtualFrames n True v = Inr (of_nat st * 0x1000, w)"
    "if st = 0 then \<forall>t \<ge> first_page True. \<not> free_pages v t (unat n)
       else first_page True \<le> st \<and> free_pages v st (unat n) \<and> (\<forall>t. first_page True \<le> t \<and> t < st \<longrightarrow> \<not> free_pages v t (unat n))"
    "length fs = unat n" "distinct fs" "set fs \<subseteq> fresh_frames v" "frames_all (frames w) = frames_all (frames v)"
    "frames_used (frames w) = frames_used (frames v) \<union> set fs" "kmap w = (map_pages st fs (kmap v))(0 := kmap v 0)"
    using X86Allocate_kernel_spec [OF wf n0(1) cn n20, of True] by blast
  have w: "w = v'" using run s(1) by (auto simp: vmm_pages_def liballoc_alloc_def)
  have tn: "free_pages v t (unat n)" using t(2) left(2) by (auto simp: free_pages_def)
  have st: "st \<noteq> 0" "st \<le> t" using s(2) t(1) tn by (auto split: if_splits intro: leI)
  have km: "kmap v' = map_pages st fs (kmap v)" unfolding w [symmetric] s(8) using st by (intro map_pages_keeps_0) simp
  have "fresh_frames v' = fresh_frames v - set fs" using s(6,7) by (auto simp: fresh_frames_def w)
  then have "card (fresh_frames v') = card (fresh_frames v) - unat n"
    using s(3-5) by (simp add: card_Diff_subset distinct_card)
  moreover have "free_pages v' (t + unat n) (m - unat n)"
  proof -
    have "\<not> present (kmap v' (of_nat j))" if "t + unat n \<le> j" "j < t + m" for j
    proof -
      have "j < 1048576" using that t(2) by (simp add: free_pages_def)
      then have u: "unat (of_nat j :: 20 word) = j" by (simp add: unat_of_nat_less)
      then have "kmap v' (of_nat j) = kmap v (of_nat j)" using st(2) that(1) s(3) by (simp add: km map_pages_def)
      then show ?thesis using t(2) that by (simp add: free_pages_def)
    qed
    then show ?thesis using t(2) left(2) by (auto simp: free_pages_def)
  qed
  ultimately show ?thesis using card t(1) unfolding pages_left_def by (intro conjI exI [of _ "t + unat n"]) auto
qed

section \<open>A budget of pages\<close>

definition budget_pages :: "nat \<Rightarrow> vmm \<Rightarrow> u32 set \<Rightarrow> bool" where
  "budget_pages T v S \<longleftrightarrow> heap_pages v S \<and> pages_left (T - card (page_no ` S)) v"

lemma card_pages:
  assumes "unat b mod 4096 = 0" and "unat b + n * 4096 \<le> 2 ^ 32"
  shows "card (page_no ` bytes_at b (n * 4096)) = n"
proof -
  define st where "st = unat b div 4096"
  have b: "unat b = st * 4096" using assms(1) by (simp add: st_def mod_0_imp_dvd)
  have "unat ` page_no ` bytes_at b (n * 4096) = {st..<st + n}"
  proof (intro set_eqI iffI)
    fix k assume "k \<in> unat ` page_no ` bytes_at b (n * 4096)"
    then obtain y where "y \<in> bytes_at b (n * 4096)" "k = unat y div 4096" by (auto simp: unat_page_no)
    moreover from this(1) have "st * 4096 \<le> unat y" "unat y < (st + n) * 4096" by (auto simp: bytes_at_def b algebra_simps)
    ultimately show "k \<in> {st..<st + n}" by (simp add: less_eq_div_iff_mult_less_eq div_less_iff_less_mult)
  next
    fix k assume k: "k \<in> {st..<st + n}"
    then have "k * 4096 + 4096 \<le> (st + n) * 4096" by (metis Suc_leI add.commute atLeastLessThan_iff mult_Suc mult_le_mono1)
    then have lt: "k * 4096 < 2 ^ 32" using assms(2) b by (simp add: algebra_simps)
    let ?y = "of_nat (k * 4096) :: u32"
    have u: "unat ?y = k * 4096" using lt by (intro unat_of_nat_less) simp
    have "?y \<in> bytes_at b (n * 4096)" using k b u by (simp add: bytes_at_def algebra_simps)
    moreover have "k = unat (page_no ?y)" by (simp add: unat_page_no u del: of_nat_mult)
    ultimately show "k \<in> unat ` page_no ` bytes_at b (n * 4096)" by blast
  qed
  moreover have "card (unat ` page_no ` bytes_at b (n * 4096)) = card (page_no ` bytes_at b (n * 4096))"
    by (rule card_image) (simp add: inj_on_def word_unat_eq_iff)
  ultimately show ?thesis by simp
qed

lemma budget_alloc:
  assumes "budget_pages T v S" and n: "n \<noteq> 0" and room: "page_room n v"
  shows "\<exists>b m' v'. page_alloc (vmm_pages fresh) n m v = Inr (b, m', v')
      \<and> b \<noteq> 0 \<and> unat b mod 4096 = 0 \<and> unat b + unat n * 4096 \<le> 2 ^ 32 \<and> bytes_at b (unat n * 4096) \<inter> S = {}
      \<and> (\<forall>y. y \<notin> bytes_at b (unat n * 4096) \<longrightarrow> m' y = m y) \<and> budget_pages T v' (S \<union> bytes_at b (unat n * 4096))"
proof -
  have ok: "heap_pages v S" and left: "pages_left (T - card (page_no ` S)) v" using assms(1) by (simp_all add: budget_pages_def)
  obtain b m' v' where b: "page_alloc (vmm_pages fresh) n m v = Inr (b, m', v')" "b \<noteq> 0" "unat b mod 4096 = 0" "unat b + unat n * 4096 \<le> 2 ^ 32"
    "bytes_at b (unat n * 4096) \<inter> S = {}" "\<forall>y. y \<notin> bytes_at b (unat n * 4096) \<longrightarrow> m' y = m y" "heap_pages v' (S \<union> bytes_at b (unat n * 4096))"
    using alloc_heap_pages [OF ok n room, of fresh m] by (elim exE conjE) (rule that)
  let ?R = "bytes_at b (unat n * 4096)"
  have "page_no ` S \<inter> page_no ` ?R = {}" using b(5) heap_pages_whole [OF ok] by auto
  then have "card (page_no ` (S \<union> ?R)) = card (page_no ` S) + unat n"
    using card_pages [OF b(3,4)] by (simp add: image_Un card_Un_disjoint)
  moreover have "pages_left (T - card (page_no ` S) - unat n) v'"
  proof (cases "unat n \<le> T - card (page_no ` S)")
    case True
    then show ?thesis using alloc_leaves [OF ok n left _ b(1)] by simp
  qed (simp add: pages_left_0)
  ultimately have "budget_pages T v' (S \<union> ?R)" using b(7) by (simp add: budget_pages_def)
  with b(1-6) show ?thesis by (intro exI conjI)
qed

interpretation heap_budget: page_giver "vmm_pages fresh" "budget_pages T" page_room for fresh T
  by unfold_locales (erule (2) budget_alloc)

section \<open>Blocks for clients\<close>

text \<open>\<open>malloc\<close> as an operation on the state of the heap; a fault would be a return of \<open>NULL\<close>, which no client gets here.\<close>

definition kernel_malloc :: "nat \<Rightarrow> (vmm \<Rightarrow> mem) \<Rightarrow> vmm heap alloc" where
  "kernel_malloc fuel fresh sz h = (case la_malloc fuel (vmm_pages fresh) sz h of Inl _ \<Rightarrow> (0, h) | Inr r \<Rightarrow> r)"

text \<open>Enough for \<open>n\<close> calls.\<close>

definition fuel_for :: "nat \<Rightarrow> nat \<Rightarrow> major list \<Rightarrow> bool" where
  "fuel_for n fuel Ms \<longleftrightarrow> 2 * (length Ms + n) < fuel \<and> (\<forall>M \<in> set Ms. length (mj_minors M) + n \<le> fuel)"

lemma fuel_for_Suc: "fuel_for (Suc n) fuel Ms \<Longrightarrow> enough_fuel fuel Ms"
  by (auto simp: fuel_for_def enough_fuel_def)

lemma fuel_for_grown: "fuel_for (Suc n) fuel Ms \<Longrightarrow> grown Ms Ms' x \<Longrightarrow> fuel_for n fuel Ms'"
  unfolding fuel_for_def grown_def by (force dest: Suc_leD)

lemma pages_for_small:
  assumes "req \<le> MAX_REQUEST"
  shows "pages_for (req + 32) = 16"
proof -
  have r: "unat req \<le> 0x8000" using assms by (simp add: MAX_REQUEST_def word_le_nat_alt)
  have e: "req + 32 + 48 = req + 80" by simp
  have u: "unat (req + 80) = unat req + 80" using r unat_plus_no_wrap [of req 80] by simp
  have d: "unat ((req + 80) div 4096) < 15" unfolding unat_div u using r by simp
  then have "unat ((req + 80) div 4096 + 1) < 16" using unat_plus_no_wrap [of "(req + 80) div 4096" 1] by simp
  then have "(req + 32 + 48) div 4096 + 1 < 16" "(req + 32 + 48) div 4096 < 16" using d unfolding e by (simp_all add: word_less_nat_alt)
  then show ?thesis unfolding pages_for_def Let_def by presburger
qed

lemma grown_pages:
  assumes "grown Ms Ms' x" and "mn_size x = req + 32" and "req \<le> MAX_REQUEST" and "heap_ok s' Ms'"
  shows "card (page_no ` areas Ms') \<le> card (page_no ` areas Ms) + 16"
proof -
  consider (old) "areas Ms' = areas Ms" | (new) a where "Ms' = Ms @ [Major a 16 [x]]"
    using assms(1) pages_for_small [OF assms(3)] unfolding grown_def assms(2) by auto
  then show ?thesis
  proof cases
    case new
    then have "major_geo (Major a 16 [x])" using assms(4) by (simp add: heap_ok_def layout_def)
    then have "card (page_no ` bytes_at a (16 * 4096)) = 16" using card_pages [of a 16] by (simp add: major_geo_def major_end_def)
    then show ?thesis using card_Un_le [of "page_no ` areas Ms" "page_no ` bytes_at a 65536"] by (simp add: new image_Un)
  qed simp
qed

lemma kernel_malloc_step:
  assumes ok: "kernel_heap_ok h Ms" and left: "pages_left (16 * Suc n) (page_state h)" and fuel: "fuel_for (Suc n) fuel Ms" and sz: "sz \<le> MAX_REQUEST"
  shows "\<exists>p h' Ms'. kernel_malloc fuel fresh sz h = (p, h') \<and> kernel_heap_ok h' Ms' \<and> pages_left (16 * n) (page_state h') \<and> fuel_for n fuel Ms'
     \<and> p \<noteq> 0 \<and> p \<notin> fst ` live Ms \<and> live Ms' = insert (p, sz) (live Ms)"
proof -
  have u: "unat sz + 80 < 2 ^ 32" using sz by (simp add: MAX_REQUEST_def word_le_nat_alt)
  have room: "page_room (pages_for (sz + 32)) (page_state h)"
    unfolding page_room_left pages_for_small [OF sz] by (rule pages_left_mono [OF left]) simp
  obtain p h' Ms' x where r: "la_malloc fuel (vmm_pages fresh) sz h = Inr (p, h')" "grown Ms Ms' x" "kernel_heap_ok h' Ms'"
    "p \<noteq> 0" "p \<notin> fst ` live Ms" "live Ms' = insert (p, sz) (live Ms)"
    using malloc_correct_grown [OF ok u room fuel_for_Suc [OF fuel], of fresh] by (elim exE conjE) (rule that)
  define T where "T = 16 * Suc n + card (page_no ` areas Ms)"
  have h: "heap_ok h Ms" "heap_pages (page_state h) (areas Ms)" using ok by (simp_all add: kernel_heap_ok_def)
  then have bp: "budget_pages T (page_state h) (areas Ms)" using left by (simp add: budget_pages_def T_def)
  obtain q k where q: "la_malloc fuel (vmm_pages fresh) sz h = Inr (q, k)" "malloc_post (budget_pages T) h k Ms (sz + 32) sz q"
    using heap_budget.malloc_works [OF h(1) bp u room, of fuel fresh] fuel_for_Suc [OF fuel] unfolding enough_fuel_def by blast
  obtain Ns y where y: "grown Ms Ns y" "mn_size y = sz + 32" "heap_ok h' Ns" "budget_pages T (page_state h') (areas Ns)"
    using q r(1) unfolding malloc_post_def by auto
  have "16 * n \<le> T - card (page_no ` areas Ns)" using grown_pages [OF y(1,2) sz y(3)] by (simp add: T_def)
  then have "pages_left (16 * n) (page_state h')" using y(4) unfolding budget_pages_def by (blast intro: pages_left_mono)
  moreover have "kernel_malloc fuel fresh sz h = (p, h')" using r(1) by (simp add: kernel_malloc_def)
  ultimately show ?thesis using r fuel_for_grown [OF fuel r(2)] by blast
qed

text \<open>\<open>free\<close> gives pages back and takes none, so what was left of them still is.\<close>

lemma card_fresh_frames:
  assumes "heap_pages v S"
  shows "card (fresh_frames v) = card (rest_all (rest_of v S)) - card (rest_frames (rest_of v S)) - card (page_no ` S)"
proof -
  have sub: "frames_used (frames v) \<subseteq> frames_all (frames v)" using assms phys_frames.in_use_subset by (auto simp: heap_pages_def)
  have "card (fresh_frames v) = card (frames_all (frames v)) - card (frames_used (frames v))"
    unfolding fresh_frames_def by (rule card_Diff_subset [OF finite_frames_used sub])
  then show ?thesis using card_rest_frames [OF assms] by (simp add: rest_of_def)
qed

lemma pages_left_free:
  assumes v: "heap_pages v S" and v': "heap_pages v' S'" and rest: "rest_of v' S' = rest_of v S" and sub: "S' \<subseteq> S" and left: "pages_left m v"
  shows "pages_left m v'"
proof -
  have mapped: "present (kmap w p) \<longleftrightarrow> p \<in> page_no ` T \<or> rest_map (rest_of w T) p \<noteq> None" if "heap_pages w T" for w T p
    using that unfolding heap_pages_def by (auto simp: rest_of_def)
  have "present (kmap v p)" if "present (kmap v' p)" for p
    using that sub unfolding mapped [OF v] mapped [OF v'] rest by auto
  then have "free_pages v' t m" if "free_pages v t m" for t using that unfolding free_pages_def by blast
  moreover have "card (page_no ` S') \<le> card (page_no ` S)" using sub by (intro card_mono image_mono) simp_all
  then have "card (fresh_frames v) \<le> card (fresh_frames v')" unfolding card_fresh_frames [OF v] card_fresh_frames [OF v'] rest by simp
  ultimately show ?thesis using left unfolding pages_left_def by (blast intro: order_trans)
qed

definition kernel_free :: "(vmm \<Rightarrow> mem) \<Rightarrow> u32 \<Rightarrow> vmm heap \<Rightarrow> vmm heap" where
  "kernel_free fresh p h = (case la_free (vmm_pages fresh) p h of Inl _ \<Rightarrow> h | Inr h' \<Rightarrow> h')"

definition kernel_serves :: "nat \<Rightarrow> nat \<Rightarrow> vmm heap \<Rightarrow> u32 set \<Rightarrow> bool" where
  "kernel_serves fuel n h L \<longleftrightarrow> (\<exists>Ms. kernel_heap_ok h Ms \<and> pages_left (16 * n) (page_state h) \<and> fuel_for n fuel Ms \<and> L = fst ` live Ms)"

lemma fuel_for_shrunk: "fuel_for n fuel Ms \<Longrightarrow> shrunk Ms Ms' \<Longrightarrow> fuel_for n fuel Ms'"
  unfolding fuel_for_def shrunk_def by (metis (no_types, lifting) add_le_mono1 le_trans mult_le_mono2 order_le_less_trans)

lemma kernel_free_step:
  assumes "kernel_serves fuel n h L" and "p \<in> L"
  shows "kernel_serves fuel n (kernel_free fresh p h) (L - {p})"
proof -
  obtain Ms where Ms: "kernel_heap_ok h Ms" "pages_left (16 * n) (page_state h)" "fuel_for n fuel Ms" "L = fst ` live Ms"
    using assms(1) by (auto simp: kernel_serves_def)
  obtain sz where p: "(p, sz) \<in> live Ms" using assms(2) Ms(4) by auto
  obtain h' Ms' where r: "la_free (vmm_pages fresh) p h = Inr h'" "shrunk Ms Ms'" "kernel_heap_ok h' Ms'" "live Ms' = live Ms - {(p, sz)}"
    "p \<notin> fst ` live Ms'" "rest_of (page_state h') (areas Ms') = rest_of (page_state h) (areas Ms)"
    using free_correct_shrunk [OF Ms(1) p, of fresh] by (elim exE conjE) (rule that)
  have hp: "heap_pages (page_state h) (areas Ms)" "heap_pages (page_state h') (areas Ms')" "areas Ms' \<subseteq> areas Ms"
    using Ms(1) r(2,3) by (simp_all add: kernel_heap_ok_def shrunk_def)
  have "fst ` live Ms = insert p (fst ` live Ms')" using p r(4) by force
  then have "L - {p} = fst ` live Ms'" using r(5) Ms(4) by simp
  then show ?thesis using r(1,3) pages_left_free [OF hp(1,2) r(6) hp(3) Ms(2)] fuel_for_shrunk [OF Ms(3) r(2)]
    by (auto simp: kernel_serves_def kernel_free_def)
qed

interpretation kernel_blocks: block_heap "kernel_malloc fuel fresh" "kernel_free fresh" "kernel_serves fuel" for fuel fresh
proof unfold_locales
  fix n h L sz p h'
  assume s: "kernel_serves fuel (Suc n) h L" and sz: "sz \<le> MAX_REQUEST" and run: "kernel_malloc fuel fresh sz h = (p, h')"
  obtain Ms where Ms: "kernel_heap_ok h Ms" "pages_left (16 * Suc n) (page_state h)" "fuel_for (Suc n) fuel Ms" "L = fst ` live Ms"
    using s by (auto simp: kernel_serves_def)
  obtain Ms' where "kernel_heap_ok h' Ms'" "pages_left (16 * n) (page_state h')" "fuel_for n fuel Ms'" "p \<noteq> 0" "p \<notin> fst ` live Ms"
      "live Ms' = insert (p, sz) (live Ms)"
    using kernel_malloc_step [OF Ms(1-3) sz, of fresh] run by auto
  then show "p \<noteq> 0 \<and> p \<notin> L \<and> kernel_serves fuel n h' (insert p L)"
    using Ms(4) unfolding kernel_serves_def by (intro conjI exI [of _ Ms']) simp_all
qed (rule kernel_free_step)

lemma kernel_heap_fresh:
  assumes "kernel_heap_ok h Ms" and "pages_left (16 * n) (page_state h)" and "fuel_for n fuel Ms" and "X \<subseteq> fst ` live Ms"
  shows "fresh_blocks (kernel_malloc fuel fresh) n h X"
  using assms by (intro kernel_blocks.serves_fresh [of fuel n h "fst ` live Ms"]) (auto simp: kernel_serves_def)

end
