(* ===== verification/Process_Heap.thy ===== *)
theory Process_Heap
  imports Process_Removal Heap_Clients
begin

text \<open>
  The kernel heap under the processes: \<open>free\<close> of \<open>liballoc\<close>, over the page tables as they are at the call, keeps the
  contract \<open>object_heap\<close> that \<open>_RemoveProcess\<close> relies on.
\<close>

definition kernel_free_block :: "(vmm \<Rightarrow> mem) \<Rightarrow> u32 \<Rightarrow> vmm heap \<times> vmm \<Rightarrow> (vmm heap \<times> vmm) res" where
  "kernel_free_block fresh p = (\<lambda>(h, v). rbind (la_free (vmm_pages fresh) p (h\<lparr>page_state := v\<rparr>)) (\<lambda>h. Inr (h, page_state h)))"

definition kernel_in_use :: "vmm heap \<Rightarrow> vmm \<Rightarrow> u32 set \<Rightarrow> bool" where
  "kernel_in_use h v L \<longleftrightarrow> (\<exists>Ms. kernel_heap_ok (h\<lparr>page_state := v\<rparr>) Ms \<and> L = fst ` live Ms)"

lemma heap_pages_quiet:
  assumes "heap_pages v S" and "quiet v v'"
  shows "heap_pages v' S"
proof -
  obtain fr where fr: "inj_on fr (page_no ` S)" "\<forall>p \<in> page_no ` S. kmap v p = new_pte (fr p) True True False \<and> fr p \<in> frames_used (frames v)"
    using assms(1) by (auto simp: heap_pages_def)
  have q: "frames v' = frames v" "current_page_directory v' = current_page_directory v" "\<And>p. present (kmap v p) \<Longrightarrow> kmap v' p = kmap v p"
    using assms(2) by (auto simp: quiet_def)
  show ?thesis
  proof (rule heap_pagesI [OF _ _ fr(1)])
    show "phys_wf (frames v')" "current_page_directory v' = Kernel_Dir" using assms(1) q(1,2) by (simp_all add: heap_pages_def)
    show "kmap v' p = new_pte (fr p) True True False \<and> fr p \<in> frames_used (frames v')" if "p \<in> page_no ` S" for p
    proof -
      have e: "kmap v p = new_pte (fr p) True True False" "fr p \<in> frames_used (frames v)" using fr(2) that by blast+
      have "kmap v' p = kmap v p" by (rule q(3)) (simp add: e(1))
      then show ?thesis using e q(1) by simp
    qed
    show "z \<in> S" if "page_no y = page_no z" "y \<in> S" for y z using that by (rule heap_pages_whole [OF assms(1)])
  qed
qed

interpretation kernel_objects: object_heap "kernel_free_block fresh" kernel_in_use for fresh
proof unfold_locales
  fix h :: "vmm heap" and v :: vmm and L :: "u32 set" and p :: u32
  assume "kernel_in_use h v L" and p: "p \<in> L"
  then obtain Ms where Ms: "kernel_heap_ok (h\<lparr>page_state := v\<rparr>) Ms" "L = fst ` live Ms" by (auto simp: kernel_in_use_def)
  obtain n where n: "(p, n) \<in> live Ms" using p Ms(2) by auto
  obtain h' Ms' where r: "la_free (vmm_pages fresh) p (h\<lparr>page_state := v\<rparr>) = Inr h'" "kernel_heap_ok h' Ms'" "live Ms' = live Ms - {(p, n)}" "p \<notin> fst ` live Ms'"
    using free_correct [OF Ms(1) n, of fresh] by (elim exE conjE) (rule that)
  have "fst ` live Ms = insert p (fst ` live Ms')" using n r(3) by force
  then have "L - {p} = fst ` live Ms'" using r(4) Ms(2) by simp
  moreover have "h'\<lparr>page_state := page_state h'\<rparr> = h'" by simp
  ultimately have "kernel_in_use h' (page_state h') (L - {p})" using r(2) unfolding kernel_in_use_def by metis
  moreover have "kernel_free_block fresh p (h, v) = Inr (h', page_state h')" using r(1) by (simp add: kernel_free_block_def)
  ultimately show "\<exists>h' v'. kernel_free_block fresh p (h, v) = Inr (h', v') \<and> kernel_in_use h' v' (L - {p})" by blast
next
  fix h :: "vmm heap" and v v' :: vmm and L :: "u32 set"
  assume "kernel_in_use h v L" and "quiet v v'"
  then show "kernel_in_use h v' L" using heap_pages_quiet by (auto simp: kernel_in_use_def kernel_heap_ok_def heap_ok_def)
qed

end
