(* ===== verification/Process_Loading.thy ===== *)
theory Process_Loading
  imports Process_Lists
begin

text \<open>
  Loading a process: what \<open>UserProcessLoad\<close> adds to the list, for a heap and a read operation that keep
  the contracts \<open>malloc_ok\<close> and \<open>read_ok\<close>.
\<close>

section \<open>Contracts of the environment\<close>








section \<open>The new process\<close>

lemma set_fd_next_Inr:
  assumes "set_fd_next p v s = Inr s'"
  obtains f where "s' = s\<lparr>fds := (fds s)(p \<mapsto> f\<lparr>fd_next := v\<rparr>)\<rparr>" and "fds s p = Some f"
  using assms by (auto simp: set_fd_next_def rbind_Inr_iff deref_Inr_iff)







section \<open>A run of the loader\<close>









end
