(* ===== verification/User_Syscall.thy ===== *)
theory User_Syscall
  imports Process_Lists
begin

text \<open>
  The system calls: \<open>user/syscall.c\<close> and \<open>X86SyscallHandler\<close> of \<open>arch/x86/dt/idt_x86.c\<close>. The variadic
  arguments are the list of the words passed; the operation behind a file is a call through its
  descriptor, \<open>file_op\<close> of the environment.
\<close>

section \<open>Model\<close>

definition FN_CODE_READ :: u32 where "FN_CODE_READ = 0"
definition FN_CODE_WRITE :: u32 where "FN_CODE_WRITE = 1"
definition FN_CODE_EXIT :: u32 where "FN_CODE_EXIT = 2"
definition FN_CODE_GETPID :: u32 where "FN_CODE_GETPID = 3"
definition FN_CODE_ISATTY :: u32 where "FN_CODE_ISATTY = 4"
definition FN_CODE_LSEEK :: u32 where "FN_CODE_LSEEK = 5"

fun va_word :: "u32 list \<Rightarrow> (u32 \<times> u32 list) res" where
  "va_word [] = Inl Bad_Argument"
| "va_word (v # args) = Inr (v, args)"

definition SyscallRead :: "('h, 'm) env \<Rightarrow> u32 list \<Rightarrow> ('h, 'm) user_state \<Rightarrow> (outcome \<times> ('h, 'm) user_state) res" where
  "SyscallRead E args s =
     rbind (va_word args) (\<lambda>(lid, args).
     rbind (UserProcessCurrent s) (\<lambda>ident.
     rbind (UserProcessLocalFile ident lid s) (\<lambda>fl.
       if fl = 0 then Inr (Returns (- 1), s)
       else
         rbind (va_word args) (\<lambda>(buffer, args).
         rbind (va_word args) (\<lambda>(len, args).
           if buffer + len \<ge> KERNEL_STATIC_MEM_START then Inr (Returns (- 1), s)
           else
             rbind (deref (fds s) fl) (\<lambda>f.
             rbind (file_op E (read_op f) fl len buffer s) (\<lambda>(r, s).
               Inr (Returns r, s))))))))"

definition SyscallWrite :: "('h, 'm) env \<Rightarrow> u32 list \<Rightarrow> ('h, 'm) user_state \<Rightarrow> (outcome \<times> ('h, 'm) user_state) res" where
  "SyscallWrite E args s =
     rbind (va_word args) (\<lambda>(lid, args).
     rbind (UserProcessCurrent s) (\<lambda>ident.
     rbind (UserProcessLocalFile ident lid s) (\<lambda>fl.
       if fl = 0 then Inr (Returns (- 1), s)
       else
         rbind (va_word args) (\<lambda>(buffer, args).
         rbind (va_word args) (\<lambda>(len, args).
           if buffer + len \<ge> KERNEL_STATIC_MEM_START then Inr (Returns (- 1), s)
           else
             rbind (deref (fds s) fl) (\<lambda>f.
             rbind (file_op E (write_op f) fl len buffer s) (\<lambda>(r, s).
               Inr (Returns r, s))))))))"

definition SyscallExit :: "('h, 'm) env \<Rightarrow> ('h, 'm) user_state \<Rightarrow> (outcome \<times> ('h, 'm) user_state) res" where
  "SyscallExit E s =
     rbind (UserProcessCurrent s) (\<lambda>ident.
     rbind (RemoveProcess E ident s) (\<lambda>(out, s).
       case out of Returns _ \<Rightarrow> Inr (Spins, s) | _ \<Rightarrow> Inr (out, s)))"

definition SyscallGetpid :: "('h, 'm) user_state \<Rightarrow> (outcome \<times> ('h, 'm) user_state) res" where
  "SyscallGetpid s = rbind (UserProcessCurrent s) (\<lambda>ident. Inr (Returns ident, s))"

definition SyscallIsatty :: "u32 list \<Rightarrow> ('h, 'm) user_state \<Rightarrow> (outcome \<times> ('h, 'm) user_state) res" where
  "SyscallIsatty args s =
     rbind (va_word args) (\<lambda>(lid, args).
     rbind (UserProcessCurrent s) (\<lambda>ident.
     rbind (UserProcessLocalFile ident lid s) (\<lambda>fl.
     rbind (deref (fds s) fl) (\<lambda>f.
       Inr (Returns (if fd_type f = FD_TYPE_TTY then 1 else 0), s)))))"

definition SyscallLseek :: "u32 list \<Rightarrow> ('h, 'm) user_state \<Rightarrow> (outcome \<times> ('h, 'm) user_state) res" where
  "SyscallLseek args s =
     rbind (va_word args) (\<lambda>(lid, args).
     rbind (va_word args) (\<lambda>(offset, args).
     rbind (va_word args) (\<lambda>(origin_code, args).
     rbind (UserProcessCurrent s) (\<lambda>ident.
     rbind (UserProcessLocalFile ident lid s) (\<lambda>fl.
       if origin_code > 2 then Inr (Returns (- 1), s)
       else
         rbind (if origin_code = 0 then Inr 0
                else if origin_code = 1 then rbind (deref (fds s) fl) (\<lambda>f. Inr (ucast (seek f) :: u32))
                else rbind (deref (fds s) fl) (\<lambda>f. Inr (ucast (file_size f)))) (\<lambda>origin.
         rbind (deref (fds s) fl) (\<lambda>f.
         let f = f\<lparr>seek := ucast (origin + offset)\<rparr> in
           Inr (Returns (ucast (seek f)), s\<lparr>fds := (fds s)(fl \<mapsto> f)\<rparr>))))))))"

definition Syscall :: "('h, 'm) env \<Rightarrow> u32 \<Rightarrow> u32 list \<Rightarrow> ('h, 'm) user_state \<Rightarrow> (outcome \<times> ('h, 'm) user_state) res" where
  "Syscall E fn_code args s =
     (if fn_code = FN_CODE_READ then SyscallRead E args s
      else if fn_code = FN_CODE_WRITE then SyscallWrite E args s
      else if fn_code = FN_CODE_EXIT then SyscallExit E s
      else if fn_code = FN_CODE_GETPID then SyscallGetpid s
      else if fn_code = FN_CODE_ISATTY then SyscallIsatty args s
      else if fn_code = FN_CODE_LSEEK then SyscallLseek args s
      else Inr (Returns (- 1), s))"

text \<open>
  The handler assigns the result to \<open>eax\<close> of its by-value parameter, which is the register frame its
  stub has pushed: the model returns the parameter along with the outcome.
\<close>

definition X86SyscallHandler :: "('h, 'm) env \<Rightarrow> X86CpuState \<Rightarrow> ('h, 'm) user_state \<Rightarrow> (outcome \<times> X86CpuState \<times> ('h, 'm) user_state) res" where
  "X86SyscallHandler E st s =
     rbind (Syscall E (eax st) [ebx st, ecx st, edx st] s) (\<lambda>(out, s).
       case out of Returns r \<Rightarrow> Inr (Returns 0, st\<lparr>eax := r\<rparr>, s) | _ \<Rightarrow> Inr (out, st, s))"

section \<open>Files of the calling process\<close>

text \<open>The calling process has the files \<open>fs\<close>; \<open>open_file s fs lid\<close> is the one a descriptor names.\<close>

definition caller_ok :: "('h, 'm) user_state \<Rightarrow> u32 list \<Rightarrow> u32 list \<Rightarrow> bool" where
  "caller_ok s ps fs \<longleftrightarrow> proc_list s ps \<and> current s \<in> set ps
     \<and> linked (fds s) fd_next (local_files (proc_of s (current s))) fs"

definition open_file :: "('h, 'm) user_state \<Rightarrow> u32 list \<Rightarrow> u32 \<Rightarrow> u32 option" where
  "open_file s fs lid = find (\<lambda>f. local_id (the (fds s f)) = lid) fs"

lemma caller_file:
  assumes "caller_ok s ps fs"
  shows "UserProcessCurrent s = Inr (pid_of s (current s))"
    and "UserProcessLocalFile (pid_of s (current s)) lid s = Inr (case open_file s fs lid of None \<Rightarrow> 0 | Some f \<Rightarrow> f)"
    and "open_file s fs lid = Some f \<Longrightarrow> f \<noteq> 0 \<and> fds s f = Some (the (fds s f))"
proof -
  have c: "proc_list s ps" "current s \<in> set ps" and l: "linked (fds s) fd_next (local_files (proc_of s (current s))) fs"
    using assms by (simp_all add: caller_ok_def)
  show "UserProcessCurrent s = Inr (pid_of s (current s))" using current_pid [OF c] .
  show "UserProcessLocalFile (pid_of s (current s)) lid s = Inr (case open_file s fs lid of None \<Rightarrow> 0 | Some f \<Rightarrow> f)"
    using GetProcess_listed [OF c] proc_list_facts(4,5) [OF c] find_node_linked [OF l, of "[]"]
    by (simp add: UserProcessLocalFile_def open_file_def)
  assume "open_file s fs lid = Some f"
  then have "f \<in> set fs" by (auto simp: open_file_def find_Some_iff)
  then show "f \<noteq> 0 \<and> fds s f = Some (the (fds s f))"
    using linked_nonnull [OF l] linked_live [OF l] by auto
qed

text \<open>The check on a buffer: the end of the buffer, modulo the address space, is below the kernel.\<close>

definition passes_check :: "u32 \<Rightarrow> u32 \<Rightarrow> bool" where
  "passes_check buffer len \<longleftrightarrow> (unat buffer + unat len) mod 4294967296 < 0xC0000000"

lemma buffer_check: "KERNEL_STATIC_MEM_START \<le> buffer + len \<longleftrightarrow> \<not> passes_check buffer len"
  by (auto simp: passes_check_def KERNEL_STATIC_MEM_START_def word_le_nat_alt unat_word_ariths)

text \<open>
  C26: the buffers of \<open>read\<close> and \<open>write\<close>. For a descriptor of no open file both return -1 and do
  nothing. Otherwise the operation of the file is called with the buffer given exactly when
  \<open>buf + len\<close>, modulo \<open>2 ^ 32\<close>, is below the kernel at 0xC0000000, and -1 is returned when it is not.
  So a buffer that ends below the kernel is served and one that ends in the kernel is refused. A buffer so
  long that its end wraps around passes exactly when the wrapped end is below the kernel, although such a buffer always
  covers the top of the kernel's addresses: for every start, also one inside the kernel, the length \<open>- buf\<close> passes.
\<close>

theorem Syscall_buffer_check:
  assumes "caller_ok s ps fs"
  shows "(open_file s fs lid = None \<longrightarrow>
       Syscall E FN_CODE_READ [lid, buffer, len] s = Inr (Returns (- 1), s)
       \<and> Syscall E FN_CODE_WRITE [lid, buffer, len] s = Inr (Returns (- 1), s))
    \<and> (open_file s fs lid = Some f \<longrightarrow>
       Syscall E FN_CODE_READ [lid, buffer, len] s =
         (if passes_check buffer len then rbind (file_op E (read_op (the (fds s f))) f len buffer s) (\<lambda>(r, s). Inr (Returns r, s))
          else Inr (Returns (- 1), s))
       \<and> Syscall E FN_CODE_WRITE [lid, buffer, len] s =
         (if passes_check buffer len then rbind (file_op E (write_op (the (fds s f))) f len buffer s) (\<lambda>(r, s). Inr (Returns r, s))
          else Inr (Returns (- 1), s)))
    \<and> (unat buffer + unat len < 0xC0000000 \<longrightarrow> passes_check buffer len)
    \<and> (0xC0000000 \<le> unat buffer + unat len \<and> unat buffer + unat len < 4294967296 \<longrightarrow> \<not> passes_check buffer len)
    \<and> (4294967296 \<le> unat buffer + unat len \<longrightarrow> (passes_check buffer len \<longleftrightarrow> unat buffer + unat len - 4294967296 < 0xC0000000))
    \<and> passes_check buffer (- buffer)"
proof -
  note cf = caller_file [OF assms]
  have below_4G: "unat buffer + unat len < 0xC0000000 \<longrightarrow> passes_check buffer len"
      "0xC0000000 \<le> unat buffer + unat len \<and> unat buffer + unat len < 4294967296 \<longrightarrow> \<not> passes_check buffer len"
    by (simp_all add: passes_check_def)
  have "(unat buffer + unat (- buffer)) mod 4294967296 = 0" using unat_word_ariths(1) [of buffer "- buffer"] by simp
  then have p: "passes_check buffer (- buffer)" by (simp add: passes_check_def)
  have "unat buffer < 4294967296" "unat len < 4294967296" using unat_u32_less [of buffer] unat_u32_less [of len] by simp_all
  then have "passes_check buffer len \<longleftrightarrow> unat buffer + unat len - 4294967296 < 0xC0000000" if "4294967296 \<le> unat buffer + unat len"
    using that unfolding passes_check_def by (subst mod_if) (simp add: mod_less)
  then have w: "(4294967296 \<le> unat buffer + unat len \<longrightarrow> (passes_check buffer len \<longleftrightarrow> unat buffer + unat len - 4294967296 < 0xC0000000))
      \<and> passes_check buffer (- buffer)" using p by blast
  show ?thesis
  proof (cases "open_file s fs lid")
    case None
    then show ?thesis
      using cf(1,2) below_4G w by (simp add: Syscall_def SyscallRead_def SyscallWrite_def FN_CODE_READ_def FN_CODE_WRITE_def)
  next
    case (Some g)
    then show ?thesis
      using cf(1,2) cf(3) [OF Some]
      by (intro conjI below_4G conjunct1 [OF w] conjunct2 [OF w])
        (auto simp: Syscall_def SyscallRead_def SyscallWrite_def FN_CODE_READ_def FN_CODE_WRITE_def buffer_check)
  qed
qed

text \<open>
  C27: \<open>lseek\<close>, \<open>isatty\<close> and \<open>getpid\<close> for an open file. \<open>lseek\<close> moves the position to the offset from the
  start, from the current position or from the end, modulo \<open>2 ^ 32\<close>, returns the new position and
  changes no other file; with any other origin it returns -1 and changes nothing. \<open>isatty\<close> tells
  terminals from other files. For a descriptor of no open file the result is not tested: \<open>isatty\<close>
  and \<open>lseek\<close> with a valid origin dereference \<open>NULL\<close>. Any other function code returns -1.
\<close>

theorem Syscall_lseek_isatty:
  assumes "caller_ok s ps fs"
  shows "(open_file s fs lid = Some f \<and> origin_code \<le> 2 \<longrightarrow>
       (\<exists>r. r = (if origin_code = 0 then 0 else if origin_code = 1 then ucast (seek (the (fds s f))) else ucast (file_size (the (fds s f)))) + offset
        \<and> Syscall E FN_CODE_LSEEK [lid, offset, origin_code] s
            = Inr (Returns r, s\<lparr>fds := (fds s)(f \<mapsto> (the (fds s f))\<lparr>seek := ucast r\<rparr>)\<rparr>)))
    \<and> (2 < origin_code \<longrightarrow> Syscall E FN_CODE_LSEEK [lid, offset, origin_code] s = Inr (Returns (- 1), s))
    \<and> (open_file s fs lid = Some f \<longrightarrow> Syscall E FN_CODE_ISATTY [lid] s = Inr (Returns (if fd_type (the (fds s f)) = FD_TYPE_TTY then 1 else 0), s))
    \<and> (open_file s fs lid = None \<longrightarrow> Syscall E FN_CODE_ISATTY [lid] s = Inl Null_Pointer
        \<and> (origin_code \<le> 2 \<longrightarrow> Syscall E FN_CODE_LSEEK [lid, offset, origin_code] s = Inl Null_Pointer))
    \<and> Syscall E FN_CODE_GETPID args s = Inr (Returns (pid_of s (current s)), s)
    \<and> (5 < code \<longrightarrow> Syscall E code args s = Inr (Returns (- 1), s))"
proof -
  note cf = caller_file [OF assms]
  note codes = FN_CODE_READ_def FN_CODE_WRITE_def FN_CODE_EXIT_def FN_CODE_GETPID_def FN_CODE_ISATTY_def FN_CODE_LSEEK_def
  have code: "code \<notin> {0, 1, 2, 3, 4, 5}" if "5 < code" using that by auto
  have oc: "origin_code \<le> 2 \<longleftrightarrow> \<not> 2 < origin_code" by auto
  have uu: "ucast (ucast (x :: u32) :: u64) = x" for x by (rule bit_word_eqI) (auto simp: bit_simps)
  have a: "Syscall E FN_CODE_LSEEK [lid, offset, origin_code] s = Inr (Returns (- 1), s)" if "2 < origin_code"
    using that cf(1,2) by (simp add: Syscall_def SyscallLseek_def codes)
  have b: "Syscall E FN_CODE_GETPID args s = Inr (Returns (pid_of s (current s)), s)"
    using cf(1) by (simp add: Syscall_def SyscallGetpid_def codes)
  have c: "Syscall E code args s = Inr (Returns (- 1), s)" if "5 < code"
    using code [OF that] by (simp add: Syscall_def codes)
  show ?thesis
  proof (cases "open_file s fs lid")
    case None
    then show ?thesis
      using cf(1,2) a b c by (auto simp: Syscall_def SyscallIsatty_def SyscallLseek_def codes oc)
  next
    case (Some g)
    obtain x where g: "g \<noteq> 0" "fds s g = Some x" using cf(3) [OF Some] by blast
    have o3: "origin_code = 0 \<or> origin_code = 1 \<or> origin_code = 2" if "origin_code \<le> 2"
      using that by (auto simp: word_le_nat_alt word_unat_eq_iff)
    have d: "Syscall E FN_CODE_LSEEK [lid, offset, origin_code] s = Inr (Returns r, s\<lparr>fds := (fds s)(g \<mapsto> (the (fds s g))\<lparr>seek := ucast r\<rparr>)\<rparr>)"
      if "origin_code \<le> 2" "r = (if origin_code = 0 then 0 else if origin_code = 1 then ucast (seek (the (fds s g))) else ucast (file_size (the (fds s g)))) + offset" for r
      using o3 [OF that(1)] that(2) cf(1,2) Some g by (elim disjE) (simp_all add: Syscall_def SyscallLseek_def codes uu Let_def del: fun_upd_apply)
    have "Syscall E FN_CODE_ISATTY [lid] s = Inr (Returns (if fd_type (the (fds s g)) = FD_TYPE_TTY then 1 else 0), s)"
      using cf(1,2) Some g by (simp add: Syscall_def SyscallIsatty_def codes)
    then show ?thesis using Some a b c d by (simp del: fun_upd_apply)
  qed
qed

section \<open>System calls of process 1\<close>

lemma demo_caller_ok: "caller_ok demo_machine [0x2000, 0x1000] [0x3000, 0x3100]"
  using demo_sched_ok
  by (simp add: caller_ok_def sched_ok_def demo_machine_def proc_of_def demo_process_def demo_fd_def)

lemma demo_open_file: "open_file demo_machine [0x3000, 0x3100] 1 = Some 0x3100" "open_file demo_machine [0x3000, 0x3100] 7 = None"
  "the (fds demo_machine 0x3100) = demo_fd 1 0"
  by (simp_all add: open_file_def demo_machine_def demo_fd_def)

theorem Syscall_buffer_check_witness:
  "Syscall demo_env FN_CODE_WRITE [1, 0x100000, 0x20] demo_machine = Inr (Returns 0x20, demo_machine)
   \<and> Syscall demo_env FN_CODE_WRITE [1, 0xBFFFFFFF, 0x20] demo_machine = Inr (Returns (- 1), demo_machine)
   \<and> Syscall demo_env FN_CODE_WRITE [1, 0xFFFFFFF0, 0x20] demo_machine = Inr (Returns 0x20, demo_machine)
   \<and> Syscall demo_env FN_CODE_WRITE [1, 0xFFFFFFFF, 0xFFFFFFFF] demo_machine = Inr (Returns (- 1), demo_machine)
   \<and> Syscall demo_env FN_CODE_WRITE [7, 0x100000, 0x20] demo_machine = Inr (Returns (- 1), demo_machine)"
  using Syscall_buffer_check [OF demo_caller_ok, of 1 demo_env "0x100000" "0x20" "0x3100"]
    Syscall_buffer_check [OF demo_caller_ok, of 1 demo_env "0xBFFFFFFF" "0x20" "0x3100"]
    Syscall_buffer_check [OF demo_caller_ok, of 1 demo_env "0xFFFFFFF0" "0x20" "0x3100"]
    Syscall_buffer_check [OF demo_caller_ok, of 1 demo_env "0xFFFFFFFF" "0xFFFFFFFF" "0x3100"]
    Syscall_buffer_check [OF demo_caller_ok, of 7 demo_env "0x100000" "0x20" "0x3100"]
  by (simp add: demo_open_file passes_check_def demo_env_def)

theorem Syscall_lseek_isatty_witness:
  "(\<exists>s'. Syscall demo_env FN_CODE_LSEEK [1, 5, 0] demo_machine = Inr (Returns 5, s') \<and> seek (the (fds s' 0x3100)) = 5)
   \<and> Syscall demo_env FN_CODE_LSEEK [1, 5, 3] demo_machine = Inr (Returns (- 1), demo_machine)
   \<and> Syscall demo_env FN_CODE_ISATTY [1] demo_machine = Inr (Returns 1, demo_machine)
   \<and> Syscall demo_env FN_CODE_ISATTY [7] demo_machine = Inl Null_Pointer
   \<and> Syscall demo_env 9 [] demo_machine = Inr (Returns (- 1), demo_machine)"
  using Syscall_lseek_isatty [OF demo_caller_ok, of 1 "0x3100" 0 5 demo_env "[]" 9]
    Syscall_lseek_isatty [OF demo_caller_ok, of 7 "0x3100" 3 5 demo_env "[]" 9]
    Syscall_lseek_isatty [OF demo_caller_ok, of 1 "0x3100" 3 5 demo_env "[]" 9]
  by (simp add: demo_open_file demo_fd_def)

end
