(* ===== verification/Disk_Partition.thy ===== *)
theory Disk_Partition
  imports Kernel_Prelude
begin

text \<open>
  Disks and partitions: \<open>GetPartitionEntry\<close>, \<open>PartitionReadSector\<close> and \<open>PartitionRead\<close> of
  \<open>io/disk/disk.c\<close> with the structures of \<open>io/disk/disk.h\<close>.

  A disk is its read operation, \<open>rd\<close>: what the sector with a given number holds, or \<open>None\<close> when the
  operation returns \<open>NULL\<close>. A buffer is the list of its bytes and accesses outside it are faults. The
  kernel heap is the function \<open>blk\<close>: the uninitialised bytes of the block \<open>malloc\<close> returns for a size,
  \<open>None\<close> for \<open>NULL\<close>. The interface of a disk with sectors of 512 bytes is the locale \<open>sector_device\<close>.
\<close>

section \<open>Bytes and buffers\<close>

type_synonym bytes = "u8 list"
type_synonym device = "u64 \<Rightarrow> bytes option"
type_synonym heap_blocks = "u32 \<Rightarrow> bytes option"

definition le16 :: "bytes \<Rightarrow> nat \<Rightarrow> u16" where
  "le16 b i = ucast (b ! i) OR push_bit 8 (ucast (b ! (i + 1)))"

definition le32 :: "bytes \<Rightarrow> nat \<Rightarrow> u32" where
  "le32 b i = ucast (le16 b i) OR push_bit 16 (ucast (le16 b (i + 2)))"

definition store_bytes :: "bytes \<Rightarrow> nat \<Rightarrow> bytes \<Rightarrow> bytes res" where
  "store_bytes dest off bs =
     (if off + length bs \<le> length dest then Inr (take off dest @ bs @ drop (off + length bs) dest)
      else Inl Out_Of_Bounds)"

definition new_block :: "heap_blocks \<Rightarrow> u32 \<Rightarrow> bytes res" where
  "new_block blk n = (case blk n of None \<Rightarrow> Inl Null_Pointer | Some b \<Rightarrow> Inr b)"

text \<open>\<open>disk->read_op(disk, sector, buf)\<close> for the buffer position \<open>off\<close>; the result tells \<open>NULL\<close> apart.\<close>

definition read_op_into :: "device \<Rightarrow> u64 \<Rightarrow> bytes \<Rightarrow> nat \<Rightarrow> (bool \<times> bytes) res" where
  "read_op_into rd sector dest off = (case rd sector of
       None \<Rightarrow> Inr (False, dest)
     | Some b \<Rightarrow> rbind (store_bytes dest off b) (\<lambda>dest. Inr (True, dest)))"

section \<open>The partition table\<close>

definition DISK_SECTOR_SIZE :: nat where "DISK_SECTOR_SIZE = 512"

record Chs =
  chs_head :: u8
  chs_sector :: "6 word"
  chs_cylinder :: "10 word"

record MbrPartitionEntry =
  active :: u8
  start_chs :: Chs
  system_id :: u8
  end_chs :: Chs
  start_lba :: u32
  lba_length :: u32

definition Chs_of_bytes :: "bytes \<Rightarrow> nat \<Rightarrow> Chs" where
  "Chs_of_bytes b i = \<lparr>chs_head = b ! i, chs_sector = ucast (b ! (i + 1)),
     chs_cylinder = ucast (drop_bit 6 (le16 b (i + 1)))\<rparr>"

text \<open>The structure \<open>Mbr\<close>: the table of four entries of 16 bytes starts after 446 bytes.\<close>

definition partition_table :: "bytes \<Rightarrow> nat \<Rightarrow> MbrPartitionEntry" where
  "partition_table mbr n = (let at = 446 + 16 * n in
     \<lparr>active = mbr ! at, start_chs = Chs_of_bytes mbr (at + 1), system_id = mbr ! (at + 4), end_chs = Chs_of_bytes mbr (at + 5),
      start_lba = le32 mbr (at + 8), lba_length = le32 mbr (at + 12)\<rparr>)"

definition GetPartitionEntry :: "heap_blocks \<Rightarrow> device \<Rightarrow> u32 \<Rightarrow> MbrPartitionEntry res" where
  "GetPartitionEntry blk rd part =
     rbind (c_assert (part < 4)) (\<lambda>_.
     rbind (new_block blk 512) (\<lambda>mbr.
     rbind (read_op_into rd 0 mbr 0) (\<lambda>(_, mbr).
       Inr (partition_table mbr (unat part)))))"

definition DiskReadSector :: "device \<Rightarrow> u64 \<Rightarrow> bytes \<Rightarrow> (bool \<times> bytes) res" where
  "DiskReadSector rd sector dest = read_op_into rd sector dest 0"

definition PartitionReadSector ::
  "heap_blocks \<Rightarrow> device \<Rightarrow> u32 \<Rightarrow> u64 \<Rightarrow> bytes \<Rightarrow> nat \<Rightarrow> (bool \<times> bytes) res" where
  "PartitionReadSector blk rd part sector dest off =
     rbind (GetPartitionEntry blk rd part) (\<lambda>e.
       read_op_into rd (ucast (start_lba e) + sector) dest off)"

section \<open>Reading bytes of a partition\<close>

text \<open>
  The loop over the full sectors. Its counter is a \<open>size_t\<close>, of 32 bits, compared with 64-bit sector
  numbers; \<open>off\<close> is the position in the buffer. Every pass writes inside the buffer or faults, so the
  loop ends.
\<close>

function PartitionRead_loop ::
  "heap_blocks \<Rightarrow> device \<Rightarrow> u32 \<Rightarrow> u64 \<Rightarrow> u32 \<Rightarrow> bytes \<Rightarrow> nat \<Rightarrow> (bool \<times> bytes \<times> nat) res" where
  "PartitionRead_loop blk rd part bound i dest off =
     (if ucast i < bound then
        rbind (PartitionReadSector blk rd part (ucast i) dest off) (\<lambda>(ok, dest').
          if ok then PartitionRead_loop blk rd part bound (i + 1) dest' (off + DISK_SECTOR_SIZE)
          else Inr (False, dest', off))
      else Inr (True, dest, off))"
  by pat_completeness auto

lemma length_store_bytes: "store_bytes dest off bs = Inr dest' \<Longrightarrow> length dest' = length dest"
  by (auto simp: store_bytes_def split: if_splits)

lemma length_PartitionReadSector:
  assumes "PartitionReadSector blk rd part sector dest off = Inr (ok, dest')"
  shows "length dest' = length dest" and "ok \<Longrightarrow> off \<le> length dest"
  using assms
  by (auto simp: PartitionReadSector_def read_op_into_def store_bytes_def rbind_Inr_iff split: option.splits if_splits)

termination PartitionRead_loop
proof (relation "measure (\<lambda>(blk, rd, part, bound, i, dest, off). Suc (length dest) - off)")
  fix blk rd part bound i dest off x ok dest'
  assume "PartitionReadSector blk rd part (ucast (i :: u32)) dest off = Inr x" "(ok, dest') = x" "ok"
  then show "((blk, rd, part, bound, i + 1, dest', off + DISK_SECTOR_SIZE), blk, rd, part, bound, i, dest, off)
      \<in> measure (\<lambda>(blk, rd, part, bound, i, dest, off). Suc (length dest) - off)"
    using length_PartitionReadSector [of blk rd part "ucast i" dest off ok dest'] by (auto simp: DISK_SECTOR_SIZE_def)
qed simp

declare PartitionRead_loop.simps [simp del]

text \<open>\<open>memcpy(buf + off, src + from, n)\<close> between buffers.\<close>

definition copy_bytes :: "bytes \<Rightarrow> nat \<Rightarrow> bytes \<Rightarrow> nat \<Rightarrow> nat \<Rightarrow> bytes res" where
  "copy_bytes dest off src from n =
     (if from + n \<le> length src then store_bytes dest off (take n (drop from src)) else Inl Out_Of_Bounds)"

text \<open>The result tells a returned \<open>NULL\<close> apart and has the buffer.\<close>

definition PartitionRead ::
  "heap_blocks \<Rightarrow> device \<Rightarrow> u32 \<Rightarrow> u64 \<Rightarrow> u64 \<Rightarrow> bytes \<Rightarrow> (bool \<times> bytes) res" where
  "PartitionRead blk rd part addr len dest =
     rbind (new_block blk 512) (\<lambda>sector_buf.
     let padding = unat (addr mod 512);
         leading = DISK_SECTOR_SIZE - padding in
     rbind (PartitionReadSector blk rd part (addr div 512) sector_buf 0) (\<lambda>(ok, sector_buf).
     if \<not> ok then Inr (False, dest)
     else
       rbind (copy_bytes dest 0 sector_buf padding leading) (\<lambda>dest.
       let addr = addr + of_nat leading;
           len = len - of_nat leading;
           base = addr div 512;
           full_sectors = len div 512 in
       rbind (PartitionRead_loop blk rd part (base + full_sectors) (ucast base) dest leading) (\<lambda>(ok, dest, off).
       if \<not> ok then Inr (False, dest)
       else
         let len = len - full_sectors * 512 in
         rbind (PartitionReadSector blk rd part (base + full_sectors) sector_buf 0) (\<lambda>(ok, sector_buf).
         if \<not> ok then Inr (False, dest)
         else
           rbind (copy_bytes dest off sector_buf 0 (unat len)) (\<lambda>dest.
             Inr (True, dest)))))))"

section \<open>Disks with sectors of 512 bytes\<close>

lemma sector_split:
  fixes a n :: nat
  shows "a + (512 - a mod 512) = 512 * (a div 512 + 1)"
    and "512 - a mod 512 \<le> n \<Longrightarrow> a div 512 + 1 \<le> (a + n) div 512"
    and "512 - a mod 512 \<le> n \<Longrightarrow> n = (512 - a mod 512) + 512 * ((a + n) div 512 - (a div 512 + 1)) + (a + n) mod 512"
proof -
  define q r where "q = a div 512" and "r = a mod 512"
  then have a: "a = 512 * q + r" "r < 512" by simp_all
  then show 1: "a + (512 - a mod 512) = 512 * (a div 512 + 1)"
    unfolding q_def [symmetric] r_def [symmetric] by (subst a(1)) (use a(2) in simp)
  assume le: "512 - a mod 512 \<le> n"
  define t where "t = n - (512 - r)"
  have n: "n = (512 - r) + t" using le by (simp add: t_def r_def)
  have "a + n = 512 * (q + 1) + t" using 1 n by (simp add: q_def r_def)
  moreover have "(512 * (q + 1) + t) div 512 = q + 1 + t div 512" "(512 * (q + 1) + t) mod 512 = t mod 512"
    by (rule div_mult_self4, simp, rule mod_mult_self4)
  ultimately have dm: "(a + n) div 512 = q + 1 + t div 512" "(a + n) mod 512 = t mod 512" by simp_all
  then show "a div 512 + 1 \<le> (a + n) div 512" by (simp add: q_def)
  show "n = (512 - a mod 512) + 512 * ((a + n) div 512 - (a div 512 + 1)) + (a + n) mod 512"
    unfolding q_def [symmetric] r_def [symmetric] dm by (subst n) simp
qed

lemma copy_tail:
  assumes "length xs = k" and "n = k + r" and "r \<le> length src" and "n \<le> length dest"
  shows "copy_bytes (xs @ drop k dest) k src 0 r = Inr (xs @ take r src @ drop n dest)"
  using assms by (simp add: copy_bytes_def store_bytes_def add.commute)

text \<open>The word arithmetic of \<open>PartitionRead\<close>, in the naturals: \<open>l\<close> leading bytes, \<open>f\<close> full sectors.\<close>

lemma PartitionRead_words:
  fixes addr len :: u64
  defines "l \<equiv> 512 - unat addr mod 512" and "q \<equiv> unat addr div 512" and "m \<equiv> (unat addr + unat len) div 512"
  assumes n: "l \<le> unat len" and bound: "unat addr + unat len < 2199023255552"
  shows "addr div 512 = of_nat q" and "unat (addr mod 512) = unat addr mod 512"
    and "(addr + of_nat l) div 512 = of_nat (q + 1)" and "(len - of_nat l) div 512 = of_nat (m - (q + 1))"
    and "unat (len - of_nat l - of_nat (m - (q + 1)) * 512) = (unat addr + unat len) mod 512" and "m < 4294967296"
proof -
  have al: "unat addr + l = 512 * (q + 1)" and le: "q + 1 \<le> m" and nm: "unat len = l + 512 * (m - (q + 1)) + (unat addr + unat len) mod 512"
    using sector_split(1) [of "unat addr"] sector_split(2,3) [of "unat addr" "unat len"] n unfolding l_def q_def m_def by blast+
  show m: "m < 4294967296" using bound by (simp add: less_mult_imp_div_less m_def)
  have u64: "k < 18446744073709551616 \<Longrightarrow> unat (of_nat k :: u64) = k" for k by (intro unat_of_nat_less) simp
  have ul: "unat (of_nat l :: u64) = l" by (intro u64) (simp add: l_def)
  have uq: "unat (of_nat q :: u64) = q" using le m by (intro u64) simp
  show "addr div 512 = of_nat q" "unat (addr mod 512) = unat addr mod 512"
    using uq by (simp_all add: word_unat_eq_iff unat_div unat_mod q_def)
  have "unat (addr + of_nat l) = unat addr + l" using bound n ul by (subst unat_plus_no_wrap) simp_all
  then have "unat ((addr + of_nat l) div 512) = q + 1" using al by (simp add: unat_div)
  moreover have "unat (of_nat (q + 1) :: u64) = q + 1" using le m by (intro u64) simp
  ultimately show "(addr + of_nat l) div 512 = of_nat (q + 1)" by (simp add: word_unat_eq_iff del: of_nat_add)
  define f where "f = m - (q + 1)"
  have ln: "unat (len - of_nat l) = 512 * f + (unat addr + unat len) mod 512"
    using n ul nm by (subst unat_diff_le) (simp_all add: word_le_nat_alt f_def)
  have uf: "unat (of_nat f :: u64) = f" "f < 4294967296" using m by (auto intro!: u64 simp: f_def)
  have "unat ((len - of_nat l) div 512) = f" using ln by (simp add: unat_div)
  then show "(len - of_nat l) div 512 = of_nat (m - (q + 1))" using uf(1) by (simp add: word_unat_eq_iff f_def)
  have "unat (of_nat f * 512 :: u64) = f * 512" using uf by (simp add: unat_word_ariths)
  then show "unat (len - of_nat l - of_nat (m - (q + 1)) * 512) = (unat addr + unat len) mod 512"
    using ln unfolding f_def [symmetric] by (subst unat_diff_le) (simp_all add: word_le_nat_alt)
qed

text \<open>The \<open>k\<close>-th sector of a partition, and its \<open>k\<close>-th byte.\<close>

definition psector :: "device \<Rightarrow> u32 \<Rightarrow> u64 \<Rightarrow> bytes option" where
  "psector rd part k = rd (ucast (start_lba (partition_table (the (rd 0)) (unat part))) + k)"

definition pbyte :: "device \<Rightarrow> u32 \<Rightarrow> nat \<Rightarrow> u8" where
  "pbyte rd part k = the (psector rd part (of_nat (k div 512))) ! (k mod 512)"

text \<open>
  What the partition code and the file system rely on of a disk: a readable partition table,
  sectors of 512 bytes, and a heap that has a block for a sector.
\<close>

locale sector_device =
  fixes blk :: heap_blocks and rd :: device and part :: u32
  assumes part_lt: "part < 4"
    and block_512: "\<exists>b. blk 512 = Some b \<and> length b = 512"
    and sector_512: "rd n = Some b \<Longrightarrow> length b = 512"
    and mbr_readable: "rd 0 \<noteq> None"
begin

lemma GetPartitionEntry_eq: "GetPartitionEntry blk rd part = Inr (partition_table (the (rd 0)) (unat part))"
proof -
  obtain b m where "blk 512 = Some b" "length b = 512" "rd 0 = Some m" using block_512 mbr_readable by auto
  then show ?thesis
    using part_lt sector_512 [of 0 m]
    by (simp add: GetPartitionEntry_def new_block_def read_op_into_def store_bytes_def)
qed

lemma PartitionReadSector_eq:
  "PartitionReadSector blk rd part k dest off = (case psector rd part k of
      None \<Rightarrow> Inr (False, dest)
    | Some b \<Rightarrow> if off + 512 \<le> length dest then Inr (True, take off dest @ b @ drop (off + 512) dest) else Inl Out_Of_Bounds)"
  using sector_512 by (auto simp: PartitionReadSector_def GetPartitionEntry_eq read_op_into_def psector_def store_bytes_def split: option.splits)

lemma psector_length: "psector rd part k = Some b \<Longrightarrow> length b = 512"
  using sector_512 by (simp add: psector_def)

lemma sector_pbytes:
  assumes "psector rd part (of_nat k) = Some b"
  shows "b = map (pbyte rd part) [512 * k..<512 * k + 512]"
proof (rule nth_equalityI)
  show "length b = length (map (pbyte rd part) [512 * k..<512 * k + 512])" using psector_length [OF assms] by simp
  fix i
  assume "i < length b"
  then have "i < 512" using psector_length [OF assms] by simp
  then show "b ! i = map (pbyte rd part) [512 * k..<512 * k + 512] ! i" using assms by (simp add: pbyte_def)
qed

lemma PartitionRead_loop_eq:
  assumes "\<forall>k \<in> {unat i..<m}. psector rd part (of_nat k) \<noteq> None" and "m < 4294967296" and "unat i \<le> m"
    and "off + 512 * (m - unat i) \<le> length dest"
  shows "PartitionRead_loop blk rd part (of_nat m) i dest off =
     Inr (True, take off dest @ map (pbyte rd part) [512 * unat i..<512 * m] @ drop (off + 512 * (m - unat i)) dest, off + 512 * (m - unat i))"
  using assms
proof (induction "m - unat i" arbitrary: i dest off)
  case 0
  then have m: "m = unat i" by simp
  then have "(of_nat m :: u64) = ucast i" by (simp add: unat_ucast_mod word_unat_eq_iff unat_of_nat_less)
  then show ?case using m by (subst PartitionRead_loop.simps) simp
next
  case (Suc n)
  have lt: "unat i < m" using Suc.hyps(2) by simp
  have ui: "unat (ucast i :: u64) = unat i" using unat_u32_less [of i] by (simp add: unat_ucast_mod)
  have um: "unat (of_nat m :: u64) = m" using Suc.prems(2) by (intro unat_of_nat_less) simp
  have c: "(ucast i :: u64) < of_nat m" using lt ui um by (simp add: word_less_nat_alt)
  have oi: "(of_nat (unat i) :: u64) = ucast i" using ui unat_u32_less [of i] by (simp add: word_unat_eq_iff unat_of_nat_less)
  obtain b where b: "psector rd part (ucast i) = Some b" using Suc.prems(1) lt oi by (metis atLeastLessThan_iff le_refl option.exhaust)
  have bm: "b = map (pbyte rd part) [512 * unat i..<512 * unat i + 512]" using sector_pbytes [of "unat i" b] b oi by simp
  have i1: "unat (i + 1) = unat i + 1" using lt Suc.prems(2) by (subst unat_plus_no_wrap) simp_all
  let ?d = "take off dest @ b @ drop (off + 512) dest"
  have room: "off + 512 \<le> length dest" using Suc.prems(4) lt by (simp add: diff_mult_distrib2)
  have ld: "length ?d = length dest" using room psector_length [OF b] by simp
  have k: "off + 512 + 512 * (m - unat (i + 1)) = off + 512 * (m - unat i)" using lt i1 by (simp add: diff_mult_distrib2)
  have "PartitionRead_loop blk rd part (of_nat m) i dest off = PartitionRead_loop blk rd part (of_nat m) (i + 1) ?d (off + 512)"
    using c b room by (subst PartitionRead_loop.simps) (simp add: PartitionReadSector_eq DISK_SECTOR_SIZE_def)
  also have "\<dots> = Inr (True, take (off + 512) ?d @ map (pbyte rd part) [512 * unat (i + 1)..<512 * m]
      @ drop (off + 512 + 512 * (m - unat (i + 1))) ?d, off + 512 + 512 * (m - unat (i + 1)))"
    using Suc.hyps(2) Suc.prems i1 lt ld k by (intro Suc.hyps(1)) auto
  also have "take (off + 512) ?d = take off dest @ b" using room psector_length [OF b] by simp
  also have "drop (off + 512 + 512 * (m - unat (i + 1))) ?d = drop (off + 512 * (m - unat i)) dest"
    using room psector_length [OF b] k lt by (simp add: add.commute)
  also have "(take off dest @ b) @ map (pbyte rd part) [512 * unat (i + 1)..<512 * m] @ drop (off + 512 * (m - unat i)) dest
      = take off dest @ map (pbyte rd part) [512 * unat i..<512 * m] @ drop (off + 512 * (m - unat i)) dest"
  proof -
    have "[512 * unat i..<512 * m] = [512 * unat i..<512 * unat i + 512] @ [512 * unat i + 512..<512 * m]"
      using lt upt_add_eq_append [of "512 * unat i" "512 * unat i + 512" "512 * m - (512 * unat i + 512)"] by simp
    then show ?thesis using bm i1 by (simp add: add.commute)
  qed
  finally show ?case using k by simp
qed

lemma PartitionRead_eq:
  assumes n: "512 - unat addr mod 512 \<le> unat len" and bound: "unat addr + unat len < 2199023255552"
    and room: "unat len \<le> length dest"
    and readable: "\<forall>k \<in> {unat addr div 512..(unat addr + unat len) div 512}. psector rd part (of_nat k) \<noteq> None"
  shows "PartitionRead blk rd part addr len dest =
     Inr (True, map (pbyte rd part) [unat addr..<unat addr + unat len] @ drop (unat len) dest)"
proof -
  let ?a = "unat addr" and ?n = "unat len"
  let ?q = "?a div 512" and ?p = "?a mod 512"
  let ?m = "(?a + ?n) div 512" and ?r = "(?a + ?n) mod 512"
  define l f where "l = 512 - ?a mod 512" and "f = ?m - (?q + 1)"
  have ll: "l \<le> ?n" "?p + l = 512" using n by (simp_all add: l_def)
  have al': "?a + l = 512 * (?q + 1)" and le: "?q + 1 \<le> ?m" and nm: "?n = l + 512 * f + ?r"
    using sector_split(1) [of ?a] sector_split(2,3) [of ?a ?n] n unfolding l_def f_def by blast+
  then have al: "?a + l = 512 * ?q + 512" by simp
  have f: "?q + 1 + f = ?m" using le by (simp add: f_def)
  note w = PartitionRead_words [OF n bound, folded l_def f_def]
  have "?q \<in> {?q..?m}" "?m \<in> {?q..?m}" using le by simp_all
  then obtain b0 bm where b: "psector rd part (of_nat ?q) = Some b0" "psector rd part (of_nat ?m) = Some bm"
    using readable by blast
  obtain sb where sb: "blk 512 = Some sb" "length sb = 512" using block_512 by blast
  let ?d1 = "map (pbyte rd part) [?a..<?a + l] @ drop l dest"
  have c1: "copy_bytes dest 0 b0 ?p l = Inr ?d1"
  proof -
    have "take l (drop ?p b0) = map (pbyte rd part) [?a..<?a + l]"
      unfolding sector_pbytes [OF b(1)] using ll(2) by (simp add: take_map drop_map al [symmetric])
    then show ?thesis using ll psector_length [OF b(1)] room by (simp add: copy_bytes_def store_bytes_def)
  qed
  have bd: "(of_nat (Suc ?q) + of_nat f :: u64) = of_nat ?m" using f by (metis Suc_eq_plus1 of_nat_add)
  have i: "unat (ucast (of_nat (?q + 1) :: u64) :: u32) = ?q + 1"
  proof -
    have "unat (of_nat (?q + 1) :: u64) = ?q + 1" using le w(6) by (intro unat_of_nat_less) simp
    then show ?thesis using le w(6) by (simp add: unat_ucast_mod del: of_nat_add of_nat_Suc)
  qed
  let ?d2 = "map (pbyte rd part) [?a..<512 * ?m] @ drop (l + 512 * f) dest"
  have lp: "PartitionRead_loop blk rd part (of_nat ?m) (ucast (of_nat (?q + 1) :: u64)) ?d1 l = Inr (True, ?d2, l + 512 * f)"
  proof -
    have e: "512 * ?m = ?a + l + 512 * f" using al f by linarith
    have "[?a..<512 * ?m] = [?a..<?a + l] @ [512 * (?q + 1)..<512 * ?m]"
      unfolding e al' [symmetric] by (rule upt_add_eq_append) simp
    moreover have "l + 512 * f \<le> length ?d1" using nm room by simp
    ultimately show ?thesis
      using PartitionRead_loop_eq [of "ucast (of_nat (?q + 1) :: u64)" ?m l ?d1] i readable w(6) le by (simp add: f_def add.commute)
  qed
  have c2: "copy_bytes ?d2 (l + 512 * f) bm 0 ?r = Inr (map (pbyte rd part) [?a..<?a + ?n] @ drop ?n dest)"
  proof -
    have "take ?r bm = map (pbyte rd part) [512 * ?m..<512 * ?m + ?r]"
      unfolding sector_pbytes [OF b(2)] by (simp add: take_map)
    moreover have "[?a..<512 * ?m + ?r] = [?a..<512 * ?m] @ [512 * ?m..<512 * ?m + ?r]"
      using al f by (intro upt_add_eq_append) linarith
    moreover have "512 * ?m + ?r = ?a + ?n" by simp
    moreover have "length (map (pbyte rd part) [?a..<512 * ?m]) = l + 512 * f" using al f by simp
    ultimately show ?thesis
      using copy_tail [of "map (pbyte rd part) [?a..<512 * ?m]" "l + 512 * f" ?n ?r bm dest] psector_length [OF b(2)] nm room
      by (simp del: mult_div_mod_eq)
  qed
  show ?thesis
    using sb b c1 c2 lp psector_length [OF b(1)] psector_length [OF b(2)]
    by (simp add: PartitionRead_def new_block_def PartitionReadSector_eq w l_def [symmetric] bd DISK_SECTOR_SIZE_def Let_def del: of_nat_add of_nat_Suc)
qed

lemma PartitionRead_short:
  assumes "unat len < 512 - unat addr mod 512" and "length dest = unat len" and "psector rd part (addr div 512) \<noteq> None"
  shows "PartitionRead blk rd part addr len dest = Inl Out_Of_Bounds"
proof -
  obtain b where b: "psector rd part (addr div 512) = Some b" using assms(3) by blast
  obtain sb where sb: "blk 512 = Some sb" "length sb = 512" using block_512 by blast
  have "unat (addr mod 512) = unat addr mod 512" by (simp add: unat_mod)
  then show ?thesis using assms(1,2) b sb psector_length [OF b]
    by (simp add: PartitionRead_def new_block_def PartitionReadSector_eq copy_bytes_def store_bytes_def DISK_SECTOR_SIZE_def)
qed

end

end
