(* ===== verification/Fat32.thy ===== *)
theory Fat32
  imports Disk_Partition File_Descriptor Block_Heap Stdlib_String
begin

text \<open>
  The FAT32 driver, \<open>io/disk/fs/fat.c\<close>: mounting, cluster chains, reading files and looking up names
  in directories.

  Packed structures are the bytes they are read as, with one accessor per field that is used. The
  state has the heap objects by type (volumes, FAT data of volumes and of files, file descriptors)
  and the disks, by address. Scratch buffers come from \<open>blk\<close> as in \<open>Disk_Partition\<close>; objects that
  outlive the call come from \<open>malloc\<close> with the heap's own state \<open>'m\<close>.
\<close>

section \<open>Structures\<close>

definition bytes_per_sector :: "bytes \<Rightarrow> u16" where "bytes_per_sector br = le16 br 11"
definition sectors_per_cluster :: "bytes \<Rightarrow> u8" where "sectors_per_cluster br = br ! 13"
definition reserved_sectors :: "bytes \<Rightarrow> u16" where "reserved_sectors br = le16 br 14"
definition fats :: "bytes \<Rightarrow> u8" where "fats br = br ! 16"
definition fat12_16_signature :: "bytes \<Rightarrow> u8" where "fat12_16_signature br = br ! 38"
definition fat32_sectors_per_fat :: "bytes \<Rightarrow> u32" where "fat32_sectors_per_fat br = le32 br 36"
definition fat32_root_cluster_number :: "bytes \<Rightarrow> u32" where "fat32_root_cluster_number br = le32 br 44"
definition fat32_signature :: "bytes \<Rightarrow> u8" where "fat32_signature br = br ! 66"
definition boot_signature :: "bytes \<Rightarrow> u16" where "boot_signature br = le16 br 510"

definition FAT_ATTR_DIRECTORY :: u8 where "FAT_ATTR_DIRECTORY = 0x10"
definition FAT_ATTR_LFN :: u8 where "FAT_ATTR_LFN = 0x0F"

text \<open>A directory entry of 32 bytes, as a short-name entry and as a long-name entry.\<close>

definition sfn_name :: "bytes \<Rightarrow> bytes" where "sfn_name e = take 8 e"
definition sfn_extension :: "bytes \<Rightarrow> bytes" where "sfn_extension e = take 3 (drop 8 e)"
definition sfn_attr :: "bytes \<Rightarrow> u8" where "sfn_attr e = e ! 11"
definition sfn_cluster_number_high :: "bytes \<Rightarrow> u16" where "sfn_cluster_number_high e = le16 e 20"
definition sfn_cluster_number_low :: "bytes \<Rightarrow> u16" where "sfn_cluster_number_low e = le16 e 26"
definition sfn_size :: "bytes \<Rightarrow> u32" where "sfn_size e = le32 e 28"
definition lfn_name_1 :: "bytes \<Rightarrow> u16 list" where "lfn_name_1 e = map (\<lambda>i. le16 e (1 + 2 * i)) [0..<5]"
definition lfn_name_2 :: "bytes \<Rightarrow> u16 list" where "lfn_name_2 e = map (\<lambda>i. le16 e (14 + 2 * i)) [0..<6]"
definition lfn_name_3 :: "bytes \<Rightarrow> u16 list" where "lfn_name_3 e = map (\<lambda>i. le16 e (28 + 2 * i)) [0..<2]"

datatype FatType = FAT12 | FAT16 | FAT32

record FatVolumeInternalData =
  br :: bytes
  fat_type :: FatType
  first_data_sector :: u32
  bytes_per_cluster :: u32

record FatFileInternalData =
  first_cluster :: u32

record Volume =
  vol_disk :: u32
  vol_data :: u32
  vol_partition :: u32
  vol_root :: u32
  vol_next :: u32

record 'm fat_state =
  devs :: "u32 \<rightharpoonup> device"
  vols :: "u32 \<rightharpoonup> Volume"
  fvids :: "u32 \<rightharpoonup> FatVolumeInternalData"
  ffids :: "u32 \<rightharpoonup> FatFileInternalData"
  files :: "u32 \<rightharpoonup> FileDescriptor"
  fat_heap :: 'm

definition INVALID_CLUSTER :: u32 where "INVALID_CLUSTER = 0"
definition FAT_ENTRY_BAD_SECTOR :: u32 where "FAT_ENTRY_BAD_SECTOR = 0x0FFFFFF8"

text \<open>Addresses of the driver's operations.\<close>

definition Fat32TraverseOp_addr :: u32 where "Fat32TraverseOp_addr = 1"
definition Fat32ReadOp_addr :: u32 where "Fat32ReadOp_addr = 2"
definition FileAccessOpStub_addr :: u32 where "FileAccessOpStub_addr = 3"

section \<open>Clusters\<close>

primrec read_cluster_loop ::
  "heap_blocks \<Rightarrow> device \<Rightarrow> u32 \<Rightarrow> FatVolumeInternalData \<Rightarrow> u64 \<Rightarrow> nat list \<Rightarrow> bytes \<Rightarrow> nat \<Rightarrow> (bool \<times> bytes) res" where
  "read_cluster_loop blk rd part d first_sector [] dest off = Inr (True, dest)"
| "read_cluster_loop blk rd part d first_sector (i # is) dest off =
     rbind (PartitionReadSector blk rd part (first_sector + of_nat i) dest (off + i * unat (bytes_per_sector (br d))))
       (\<lambda>(ok, dest). if ok then read_cluster_loop blk rd part d first_sector is dest off else Inr (False, dest))"

definition Fat32ReadCluster ::
  "heap_blocks \<Rightarrow> device \<Rightarrow> u32 \<Rightarrow> FatVolumeInternalData \<Rightarrow> u32 \<Rightarrow> bytes \<Rightarrow> nat \<Rightarrow> (bool \<times> bytes) res" where
  "Fat32ReadCluster blk rd part d cluster dest off =
     (let first_sector = (cluster - 2) * ucast (sectors_per_cluster (br d)) + first_data_sector d in
      read_cluster_loop blk rd part d (ucast first_sector) [0..<unat (sectors_per_cluster (br d))] dest off)"

text \<open>The result of the read is not tested; the scratch buffer is not freed.\<close>

definition NextCluster :: "heap_blocks \<Rightarrow> device \<Rightarrow> u32 \<Rightarrow> FatVolumeInternalData \<Rightarrow> u32 \<Rightarrow> u32 res" where
  "NextCluster blk rd part d cluster =
     rbind (new_block blk (ucast (bytes_per_sector (br d)))) (\<lambda>fat.
     let entries_per_sector = ucast (bytes_per_sector (br d) div 4) :: u32 in
     if entries_per_sector = 0 then Inl Div_By_Zero
     else
       rbind (PartitionReadSector blk rd part
                (ucast (ucast (reserved_sectors (br d)) + cluster div entries_per_sector)) fat 0) (\<lambda>(_, fat).
       let i = 4 * unat (cluster mod entries_per_sector) in
       if i + 4 \<le> length fat then
         let v = le32 fat i AND 0x0FFFFFFF in
         Inr (if v < FAT_ENTRY_BAD_SECTOR then v else INVALID_CLUSTER)
       else Inl Out_Of_Bounds))"

section \<open>Reading a file\<close>

text \<open>\<open>file->volume->data\<close>, and the disk and partition of the volume.\<close>

definition volume_context :: "'m fat_state \<Rightarrow> u32 \<Rightarrow> (device \<times> u32 \<times> FatVolumeInternalData) res" where
  "volume_context s v =
     rbind (deref (vols s) v) (\<lambda>vol.
     rbind (deref (fvids s) (vol_data vol)) (\<lambda>d.
     rbind (deref (devs s) (vol_disk vol)) (\<lambda>rd.
       Inr (rd, vol_partition vol, d))))"

text \<open>The loop to the cluster of the position: \<open>None\<close> when the chain ends before it.\<close>

primrec skip_clusters ::
  "heap_blocks \<Rightarrow> device \<Rightarrow> u32 \<Rightarrow> FatVolumeInternalData \<Rightarrow> nat \<Rightarrow> u32 \<Rightarrow> u32 option res" where
  "skip_clusters blk rd part d 0 cluster = Inr (Some cluster)"
| "skip_clusters blk rd part d (Suc n) cluster =
     rbind (NextCluster blk rd part d cluster) (\<lambda>cluster.
       if cluster = INVALID_CLUSTER then Inr None else skip_clusters blk rd part d n cluster)"

text \<open>The loop over the entire clusters; the first component tells whether it ran to its end.\<close>

primrec read_clusters ::
  "heap_blocks \<Rightarrow> device \<Rightarrow> u32 \<Rightarrow> FatVolumeInternalData \<Rightarrow> nat \<Rightarrow> u32 \<Rightarrow> u32 \<Rightarrow> u32 \<Rightarrow> bytes \<Rightarrow> nat
    \<Rightarrow> (bool \<times> u32 \<times> u32 \<times> u32 \<times> bytes \<times> nat) res" where
  "read_clusters blk rd part d 0 ret sz cluster dest off = Inr (True, ret, sz, cluster, dest, off)"
| "read_clusters blk rd part d (Suc n) ret sz cluster dest off =
     (if cluster = INVALID_CLUSTER then Inr (False, ret, sz, cluster, dest, off)
      else rbind (Fat32ReadCluster blk rd part d cluster dest off) (\<lambda>(ok, dest).
        if \<not> ok then Inr (False, ret, sz, cluster, dest, off)
        else rbind (NextCluster blk rd part d cluster) (\<lambda>cluster.
          read_clusters blk rd part d n (ret + bytes_per_cluster d) (sz - bytes_per_cluster d) cluster dest
            (off + unat (bytes_per_cluster d)))))"

text \<open>The part of \<open>Fat32ReadOp\<close> after the leading bytes: entire clusters, then the rest of the last one.\<close>

definition read_rest ::
  "heap_blocks \<Rightarrow> device \<Rightarrow> u32 \<Rightarrow> FatVolumeInternalData \<Rightarrow> u32 \<Rightarrow> u32 \<Rightarrow> u32 \<Rightarrow> bytes \<Rightarrow> bytes \<Rightarrow> nat \<Rightarrow> (u32 \<times> bytes) res" where
  "read_rest blk rd part d ret sz cluster cluster_buf dest off =
     (let entire_clusters = sz div bytes_per_cluster d in
      rbind (read_clusters blk rd part d (unat entire_clusters) ret sz cluster dest off)
        (\<lambda>(ok, ret, sz, cluster, dest, off).
      if \<not> ok then Inr (ret, dest)
      else if sz \<noteq> 0 then
        if cluster = INVALID_CLUSTER then Inr (ret, dest)
        else rbind (Fat32ReadCluster blk rd part d cluster cluster_buf 0) (\<lambda>(ok, cluster_buf).
          if \<not> ok then Inr (ret, dest)
          else rbind (copy_bytes dest off cluster_buf 0 (unat sz)) (\<lambda>dest. Inr (ret + sz, dest)))
      else Inr (ret, dest)))"

text \<open>
  The bytes and the number returned; \<open>file->seek\<close> advances by that number where the code says so,
  which is everywhere but on the early returns of 0.
\<close>

definition Fat32ReadOp ::
  "heap_blocks \<Rightarrow> u32 \<Rightarrow> u32 \<Rightarrow> bytes \<Rightarrow> 'm fat_state \<Rightarrow> (u32 \<times> bytes \<times> 'm fat_state) res" where
  "Fat32ReadOp blk fl sz dest s =
     rbind (deref (files s) fl) (\<lambda>f.
     if fd_type f \<noteq> FD_TYPE_FILE then Inr (0, dest, s)
     else
       rbind (volume_context s (volume f)) (\<lambda>(rd, part, d).
       rbind (deref (ffids s) (data f)) (\<lambda>ff.
       rbind (new_block blk (bytes_per_cluster d)) (\<lambda>cluster_buf.
       let bpc = ucast (bytes_per_cluster d) :: u64 in
       if bpc = 0 then Inl Div_By_Zero
       else
         let leading = ucast ((bpc - seek f mod bpc) mod bpc) :: u32;
             first = ucast (seek f div bpc) :: u32 in
         rbind (skip_clusters blk rd part d (unat first) (first_cluster ff)) (\<lambda>c.
         case c of None \<Rightarrow> Inr (0, dest, s)
         | Some cluster \<Rightarrow>
             rbind (if leading \<noteq> 0 then
                      rbind (Fat32ReadCluster blk rd part d cluster cluster_buf 0) (\<lambda>(ok, cluster_buf).
                      if \<not> ok then Inr None
                      else rbind (copy_bytes dest 0 cluster_buf (unat (bytes_per_cluster d - leading)) (unat leading)) (\<lambda>dest.
                           rbind (NextCluster blk rd part d cluster) (\<lambda>cluster.
                             Inr (Some (leading, sz - leading, cluster, cluster_buf, dest, unat leading)))))
                    else Inr (Some (0, sz, cluster, cluster_buf, dest, 0))) (\<lambda>r.
             case r of None \<Rightarrow> Inr (0, dest, s)
             | Some (ret, sz, cluster, cluster_buf, dest, off) \<Rightarrow>
                 rbind (read_rest blk rd part d ret sz cluster cluster_buf dest off) (\<lambda>(ret, dest).
                   Inr (ret, dest, s\<lparr>files := (files s)(fl \<mapsto> f\<lparr>seek := seek f + ucast ret\<rparr>)\<rparr>))))))))"

section \<open>Looking up a name\<close>

text \<open>
  What \<open>malloc\<close> leaves in new objects: the fields the code does not set keep these values. \<open>h_free\<close> is
  \<open>free\<close> on the allocator's state.
\<close>

record 'm fat_env =
  h_malloc :: "'m alloc"
  h_free :: "u32 \<Rightarrow> 'm \<Rightarrow> 'm"
  junk_file :: FileDescriptor
  junk_vol :: Volume
  junk_br :: bytes
  scratch :: heap_blocks

definition sizeof_FatFileInternalData :: u32 where "sizeof_FatFileInternalData = 4"
definition sizeof_FatVolumeInternalData :: u32 where "sizeof_FatVolumeInternalData = 524"
definition sizeof_Volume :: u32 where "sizeof_Volume = 20"
definition sizeof_file :: u32 where "sizeof_file = 48"

definition GenFileDescriptor :: "'m fat_env \<Rightarrow> u32 \<Rightarrow> bytes \<Rightarrow> 'm fat_state \<Rightarrow> (u32 \<times> 'm fat_state) res" where
  "GenFileDescriptor E vol entry s =
     (let (ret, h) = h_malloc E sizeof_file (fat_heap s) in
      if ret = 0 then Inl Null_Pointer
      else
        let f = (junk_file E)\<lparr>seek := 0, traverse_op := Fat32TraverseOp_addr, read_op := Fat32ReadOp_addr,
                  write_op := FileAccessOpStub_addr, volume := vol\<rparr>;
            f = if sfn_attr entry AND FAT_ATTR_DIRECTORY \<noteq> 0 then f\<lparr>file_size := 0, fd_type := FD_TYPE_DIRECTORY\<rparr>
                else f\<lparr>file_size := ucast (sfn_size entry), fd_type := FD_TYPE_FILE\<rparr>;
            (fiid, h) = h_malloc E sizeof_FatFileInternalData h in
        if fiid = 0 then Inl Null_Pointer
        else
          let c = push_bit 16 (ucast (sfn_cluster_number_high entry)) OR ucast (sfn_cluster_number_low entry) in
          Inr (ret, s\<lparr>fat_heap := h, files := (files s)(ret \<mapsto> f\<lparr>data := fiid\<rparr>),
                      ffids := (ffids s)(fiid \<mapsto> \<lparr>first_cluster = c\<rparr>)\<rparr>))"

text \<open>\<open>*seek++ = (char) c\<close> for the characters of one field of a long-name entry, until and including 0.\<close>

primrec lfn_chars :: "u16 list \<Rightarrow> bool \<times> bytes \<times> nat \<Rightarrow> (bool \<times> bytes \<times> nat) res" where
  "lfn_chars [] st = Inr st"
| "lfn_chars (c # cs) st = (case st of (fin, buf, pos) \<Rightarrow>
     if fin then Inr st
     else rbind (store buf pos (ucast c)) (\<lambda>buf. lfn_chars cs (c = 0, buf, pos + 1)))"

text \<open>
  \<open>for(i = n - 1; field[i] == ' ' && i >= 0; i--);\<close> and \<open>len = i + 1\<close>. With a field of spaces the loop reads
  the byte before the field; only before the first entry there is none.
\<close>

definition trimmed_length :: "bytes \<Rightarrow> nat" where
  "trimmed_length field = length (dropWhile (\<lambda>c. c = 0x20) (rev field))"

definition short_name :: "nat \<Rightarrow> bytes \<Rightarrow> bytes \<Rightarrow> bytes res" where
  "short_name i entry buf =
     (let len = trimmed_length (sfn_name entry) in
      if i = 0 \<and> len = 0 then Inl Out_Of_Bounds
      else
        rbind (store_bytes buf 0 (take len (sfn_name entry))) (\<lambda>buf.
        let pos = len;
            len = trimmed_length (sfn_extension entry) in
        rbind (if len \<noteq> 0 then
                 rbind (store buf pos (of_char CHR ''.'')) (\<lambda>buf.
                 rbind (store_bytes buf (pos + 1) (take len (sfn_extension entry))) (\<lambda>buf.
                   Inr (buf, pos + 1 + len)))
               else Inr (buf, pos)) (\<lambda>(buf, pos).
          store buf pos 0)))"

datatype entry_result = Returns_Null | Found bytes | Goes_On bytes nat

text \<open>One entry of a directory; \<open>i\<close> is its index in the cluster.\<close>

definition dir_entry :: "buf \<Rightarrow> nat \<Rightarrow> bytes \<Rightarrow> bytes \<Rightarrow> nat \<Rightarrow> entry_result res" where
  "dir_entry name i entry buf pos =
     (if entry ! 0 = 0x00 then Inr Returns_Null
      else if entry ! 0 = 0xE5 then Inr (Goes_On buf 0)
      else if sfn_attr entry = FAT_ATTR_LFN then
        rbind (lfn_chars (lfn_name_1 entry) (False, buf, pos)) (\<lambda>st.
        rbind (lfn_chars (lfn_name_2 entry) st) (\<lambda>st.
        rbind (lfn_chars (lfn_name_3 entry) st) (\<lambda>(_, buf, pos).
          Inr (Goes_On buf pos))))
      else
        rbind (if pos = 0 then short_name i entry buf else Inr buf) (\<lambda>buf.
        rbind (strcasecmp buf name) (\<lambda>r.
          if r = 0 then Inr (Found entry) else Inr (Goes_On buf 0))))"

definition entry_at :: "bytes \<Rightarrow> nat \<Rightarrow> bytes" where
  "entry_at cluster i = take 32 (drop (32 * i) cluster)"

primrec dir_entries :: "buf \<Rightarrow> bytes \<Rightarrow> nat list \<Rightarrow> bytes \<Rightarrow> nat \<Rightarrow> entry_result res" where
  "dir_entries name cluster [] buf pos = Inr (Goes_On buf pos)"
| "dir_entries name cluster (i # is) buf pos =
     rbind (dir_entry name i (entry_at cluster i) buf pos) (\<lambda>r. case r of
       Goes_On buf pos \<Rightarrow> dir_entries name cluster is buf pos
     | _ \<Rightarrow> Inr r)"

text \<open>
  The loop over the clusters of a directory. \<open>fuel\<close> bounds their number; a chain that comes back to
  a cluster is followed forever.
\<close>

primrec dir_clusters ::
  "nat \<Rightarrow> heap_blocks \<Rightarrow> device \<Rightarrow> u32 \<Rightarrow> FatVolumeInternalData \<Rightarrow> buf \<Rightarrow> u32 \<Rightarrow> bytes \<Rightarrow> bytes \<Rightarrow> nat \<Rightarrow> bytes option res" where
  "dir_clusters 0 blk rd part d name cluster_number cluster buf pos =
     (if cluster_number = INVALID_CLUSTER then Inr None else Inl Diverges)"
| "dir_clusters (Suc fuel) blk rd part d name cluster_number cluster buf pos =
     (if cluster_number = INVALID_CLUSTER then Inr None
      else
        rbind (Fat32ReadCluster blk rd part d cluster_number cluster 0) (\<lambda>(_, cluster).
        rbind (dir_entries name cluster [0..<unat (bytes_per_cluster d) div 32] buf pos) (\<lambda>r. case r of
          Returns_Null \<Rightarrow> Inr None
        | Found entry \<Rightarrow> Inr (Some entry)
        | Goes_On buf pos \<Rightarrow>
            rbind (NextCluster blk rd part d cluster_number) (\<lambda>cluster_number.
              dir_clusters fuel blk rd part d name cluster_number cluster buf pos))))"

definition Fat32TraverseOp :: "nat \<Rightarrow> 'm fat_env \<Rightarrow> u32 \<Rightarrow> buf \<Rightarrow> 'm fat_state \<Rightarrow> (u32 \<times> 'm fat_state) res" where
  "Fat32TraverseOp fuel E parent name s =
     rbind (deref (files s) parent) (\<lambda>f.
     if fd_type f \<noteq> FD_TYPE_DIRECTORY then Inr (0, s)
     else
       rbind (volume_context s (volume f)) (\<lambda>(rd, part, d).
       rbind (deref (ffids s) (data f)) (\<lambda>fiid.
       rbind (new_block (scratch E) (bytes_per_cluster d)) (\<lambda>cluster.
       rbind (new_block (scratch E) 256) (\<lambda>buf.
       rbind (dir_clusters fuel (scratch E) rd part d name (first_cluster fiid) cluster buf 0) (\<lambda>r. case r of
         None \<Rightarrow> Inr (0, s)
       | Some entry \<Rightarrow> GenFileDescriptor E (volume f) entry s))))))"

section \<open>Mounting\<close>

definition Fat32MountVolume :: "'m fat_env \<Rightarrow> u32 \<Rightarrow> 'm fat_state \<Rightarrow> (u32 \<times> 'm fat_state) res" where
  "Fat32MountVolume E vol s =
     rbind (deref (vols s) vol) (\<lambda>v.
     rbind (deref (fvids s) (vol_data v)) (\<lambda>d.
     let d = d\<lparr>first_data_sector := ucast (reserved_sectors (br d)) + ucast (fats (br d)) * fat32_sectors_per_fat (br d)\<rparr>;
         d = d\<lparr>bytes_per_cluster := ucast (bytes_per_sector (br d)) * ucast (sectors_per_cluster (br d))\<rparr>;
         s = s\<lparr>fvids := (fvids s)(vol_data v \<mapsto> d)\<rparr>;
         (fl, h) = h_malloc E sizeof_file (fat_heap s) in
     if fl = 0 then Inl Null_Pointer
     else
       let f = (junk_file E)\<lparr>volume := vol, traverse_op := Fat32TraverseOp_addr, read_op := Fat32ReadOp_addr,
                 write_op := FileAccessOpStub_addr, fd_type := FD_TYPE_DIRECTORY\<rparr>;
           (fd, h) = h_malloc E sizeof_FatFileInternalData h in
       if fd = 0 then Inl Null_Pointer
       else Inr (vol, s\<lparr>fat_heap := h,
              ffids := (ffids s)(fd \<mapsto> \<lparr>first_cluster = fat32_root_cluster_number (br d)\<rparr>),
              files := (files s)(fl \<mapsto> f\<lparr>data := fd\<rparr>),
              vols := (vols s)(vol \<mapsto> v\<lparr>vol_root := fl\<rparr>)\<rparr>)))"

text \<open>The result of the read is not tested, so the boot record may be the junk of the new block.\<close>

definition FatMountVolume :: "'m fat_env \<Rightarrow> u32 \<Rightarrow> u32 \<Rightarrow> 'm fat_state \<Rightarrow> (u32 \<times> 'm fat_state) res" where
  "FatMountVolume E disk part s =
     (let (dp, h) = h_malloc E sizeof_FatVolumeInternalData (fat_heap s) in
      if dp = 0 then Inl Null_Pointer
      else
        rbind (deref (devs s) disk) (\<lambda>rd.
        rbind (PartitionReadSector (scratch E) rd part 0 (junk_br E) 0) (\<lambda>(_, b).
        if boot_signature b \<noteq> 0xAA55 then Inr (0, s\<lparr>fat_heap := h_free E dp h\<rparr>)
        else
          let (ret, h) = h_malloc E sizeof_Volume h in
          if ret = 0 then Inl Null_Pointer
          else if fat12_16_signature b = 0x28 \<or> fat12_16_signature b = 0x29 then
            Inr (0, s\<lparr>fat_heap := h_free E ret (h_free E dp h)\<rparr>)
          else if fat32_signature b = 0x28 \<or> fat32_signature b = 0x29 then
            Fat32MountVolume E ret (s\<lparr>fat_heap := h,
              fvids := (fvids s)(dp \<mapsto> \<lparr>br = b, fat_type = FAT32, first_data_sector = 0, bytes_per_cluster = 0\<rparr>),
              vols := (vols s)(ret \<mapsto> (junk_vol E)\<lparr>vol_disk := disk, vol_data := dp, vol_partition := part\<rparr>)\<rparr>)
          else Inr (0, s\<lparr>fat_heap := h_free E ret (h_free E dp h)\<rparr>))))"

end
