(* ===== verification/Port_Io.thy ===== *)
theory Port_Io
  imports Kernel_Prelude
begin

text \<open>
  The processor's I/O space as the device drivers see it: the instructions behind \<open>PortRead8\<close> to
  \<open>PortWrite32\<close> of \<open>io/ports.h\<close> act on the state \<open>'d\<close> of the machine's devices. Which devices those are
  is not part of the program, so the drivers take the six operations as an argument. A read may
  change the state of a device.

  \<open>poll\<close> is a loop that reads a port until a condition on the byte holds. Its first argument bounds
  the number of reads; the loop of the code has no bound and running out of it is \<open>Diverges\<close>.
\<close>

record 'd port_ops =
  port_in8 :: "u16 \<Rightarrow> 'd \<Rightarrow> u8 \<times> 'd"
  port_in16 :: "u16 \<Rightarrow> 'd \<Rightarrow> u16 \<times> 'd"
  port_in32 :: "u16 \<Rightarrow> 'd \<Rightarrow> u32 \<times> 'd"
  port_out8 :: "u16 \<Rightarrow> u8 \<Rightarrow> 'd \<Rightarrow> 'd"
  port_out16 :: "u16 \<Rightarrow> u16 \<Rightarrow> 'd \<Rightarrow> 'd"
  port_out32 :: "u16 \<Rightarrow> u32 \<Rightarrow> 'd \<Rightarrow> 'd"

definition outs8 :: "'d port_ops \<Rightarrow> (u16 \<times> u8) list \<Rightarrow> 'd \<Rightarrow> 'd" where
  "outs8 io pvs d = fold (\<lambda>(p, v). port_out8 io p v) pvs d"

primrec poll :: "nat \<Rightarrow> 'd port_ops \<Rightarrow> u16 \<Rightarrow> (u8 \<Rightarrow> bool) \<Rightarrow> 'd \<Rightarrow> (u8 \<times> 'd) res" where
  "poll 0 io p P d = Inl Diverges"
| "poll (Suc n) io p P d =
     (let (v, d) = port_in8 io p d in if P v then Inr (v, d) else poll n io p P d)"

primrec in16s :: "nat \<Rightarrow> 'd port_ops \<Rightarrow> u16 \<Rightarrow> 'd \<Rightarrow> u16 list \<times> 'd" where
  "in16s 0 io p d = ([], d)"
| "in16s (Suc n) io p d =
     (let (w, d) = port_in16 io p d; (ws, d) = in16s n io p d in (w # ws, d))"

primrec in8s :: "nat \<Rightarrow> 'd port_ops \<Rightarrow> u16 \<Rightarrow> 'd \<Rightarrow> 'd" where
  "in8s 0 io p d = d"
| "in8s (Suc n) io p d = in8s n io p (snd (port_in8 io p d))"

lemma outs8_simps [simp]:
  "outs8 io [] d = d"
  "outs8 io ((p, v) # pvs) d = outs8 io pvs (port_out8 io p v d)"
  by (simp_all add: outs8_def)

text \<open>A loop that is given more reads than it needs ends in the same way.\<close>

lemma poll_mono: "poll n io p P d = Inr r \<Longrightarrow> n \<le> m \<Longrightarrow> poll m io p P d = Inr r"
proof (induction n arbitrary: m d)
  case (Suc n)
  then obtain k where "m = Suc k" "n \<le> k" by (cases m) auto
  with Suc show ?case by (auto simp: Let_def split: prod.splits if_splits)
qed simp

lemma poll_never:
  assumes "\<And>d. \<not> P (fst (port_in8 io p d))"
  shows "poll n io p P d = Inl Diverges"
  using assms by (induction n arbitrary: d) (simp_all add: case_prod_beta)

lemma length_in16s: "length (fst (in16s n io p d)) = n"
  by (induction n arbitrary: d) (simp_all add: Let_def split: prod.splits, metis fst_conv)

end
