(* ===== verification/Ide_Controller.thy ===== *)
theory Ide_Controller
  imports Port_Io Disk_Partition Block_Heap
begin

text \<open>
  The IDE driver, \<open>io/disk/ide.c\<close>: identification of the drives and reads of sectors by 48-bit
  address over port I/O.

  The state has the heap objects by type, the static variable \<open>one\<close> of \<open>IdeControllerInit\<close> and the
  devices behind the ports. Waiting loops are bounded by \<open>fuel\<close>, see \<open>Port_Io\<close>.
\<close>

section \<open>Data\<close>

record IdeControllerInternalData =
  p_channel :: u16
  p_control :: u16
  s_channel :: u16
  s_control :: u16
  pm :: bool
  ps :: bool
  sm :: bool
  ss_drive :: bool

record IdeDiskInternalData =
  icid :: u32
  secondary :: bool
  slave :: bool

record DiskDescriptor =
  disk_data :: u32
  disk_next :: u32
  disk_read_op :: u32
  disk_id :: u32

record ('d, 'm) ide_state =
  disk_descs :: "u32 \<rightharpoonup> DiskDescriptor"
  ide_disks :: "u32 \<rightharpoonup> IdeDiskInternalData"
  ide_ctrls :: "u32 \<rightharpoonup> IdeControllerInternalData"
  ide_one :: bool
  ide_heap :: 'm
  dev :: 'd

definition IdeReadOp_addr :: u32 where "IdeReadOp_addr = 4"

section \<open>Identification\<close>

definition IdentifyDrive :: "nat \<Rightarrow> 'd port_ops \<Rightarrow> u16 \<Rightarrow> bool \<Rightarrow> 'd \<Rightarrow> (bool \<times> 'd) res" where
  "IdentifyDrive fuel io channel sl d =
     (let cmd = if sl then 0xB0 else 0xA0;
          (v, d) = port_in8 io (channel + 7) d in
      if v = 0xFF then Inr (False, d)
      else
        let d = outs8 io [(channel + 6, cmd), (channel + 2, 0x00), (channel + 3, 0x00),
                          (channel + 4, 0x00), (channel + 5, 0x00), (channel + 7, 0xEC)] d;
            (v, d) = port_in8 io (channel + 7) d in
        if v = 0 then Inr (False, d)
        else
          rbind (poll fuel io (channel + 7) (\<lambda>status. status AND 0x80 = 0) d) (\<lambda>(_, d).
          let (mid, d) = port_in8 io (channel + 4) d;
              (hi, d) = if mid \<noteq> 0 then (mid, d) else port_in8 io (channel + 5) d in
          if hi \<noteq> 0 then Inr (False, d)
          else
            rbind (poll fuel io (channel + 7) (\<lambda>status. status AND 0x08 = 0 \<or> status AND 0x01 = 0) d) (\<lambda>(status, d).
            let d = if status AND 0x01 = 0 then snd (in16s 256 io channel d) else d in
            Inr (True, d))))"

definition IdentifyDrives ::
  "nat \<Rightarrow> 'd port_ops \<Rightarrow> IdeControllerInternalData \<Rightarrow> 'd \<Rightarrow> (IdeControllerInternalData \<times> 'd) res" where
  "IdentifyDrives fuel io c d =
     rbind (IdentifyDrive fuel io (p_channel c) False d) (\<lambda>(b, d). let c = c\<lparr>pm := b\<rparr> in
     rbind (IdentifyDrive fuel io (p_channel c) True d) (\<lambda>(b, d). let c = c\<lparr>ps := b\<rparr> in
     rbind (IdentifyDrive fuel io (s_channel c) False d) (\<lambda>(b, d). let c = c\<lparr>sm := b\<rparr> in
     rbind (IdentifyDrive fuel io (s_channel c) True d) (\<lambda>(b, d). let c = c\<lparr>ss_drive := b\<rparr> in
       Inr (c, d)))))"

section \<open>Reading a sector\<close>

definition word_bytes :: "u16 list \<Rightarrow> bytes" where
  "word_bytes ws = concat (map (\<lambda>w. [ucast w, ucast (drop_bit 8 w)]) ws)"

text \<open>The transfer proper: the port traffic of \<open>IdeReadOp\<close> on one channel.\<close>

definition ide_transfer :: "nat \<Rightarrow> 'd port_ops \<Rightarrow> u16 \<Rightarrow> bool \<Rightarrow> u64 \<Rightarrow> 'd \<Rightarrow> (bytes \<times> 'd) res" where
  "ide_transfer fuel io channel sl sector d =
     (let cmd = if sl then 0x50 else 0x40;
          d = outs8 io [(channel + 6, cmd), (channel + 2, 0x00), (channel + 3, ucast (drop_bit 24 sector)),
                        (channel + 4, ucast (drop_bit 32 sector)), (channel + 5, ucast (drop_bit 40 sector)),
                        (channel + 2, 0x01), (channel + 3, ucast sector), (channel + 4, ucast (drop_bit 8 sector)),
                        (channel + 5, ucast (drop_bit 16 sector)), (channel + 7, 0x24)] d;
          d = in8s 4 io (channel + 7) d in
      rbind (poll fuel io (channel + 7) (\<lambda>status. status AND 0x80 = 0 \<and> status AND 0x08 \<noteq> 0) d) (\<lambda>(_, d).
      let (ws, d) = in16s 256 io channel d in
      Inr (word_bytes ws, d)))"

text \<open>\<open>IdeReadOp\<close> returns its buffer, never \<open>NULL\<close>; the bytes are what it stores there.\<close>

definition IdeReadOp ::
  "nat \<Rightarrow> 'd port_ops \<Rightarrow> u32 \<Rightarrow> u64 \<Rightarrow> ('d, 'm) ide_state \<Rightarrow> (bytes \<times> ('d, 'm) ide_state) res" where
  "IdeReadOp fuel io disk sector s =
     rbind (deref (disk_descs s) disk) (\<lambda>dd.
     rbind (c_assert (disk_data dd \<noteq> 0)) (\<lambda>_.
     rbind (deref (ide_disks s) (disk_data dd)) (\<lambda>di.
     rbind (c_assert (icid di \<noteq> 0)) (\<lambda>_.
     rbind (deref (ide_ctrls s) (icid di)) (\<lambda>c.
     rbind (ide_transfer fuel io (if secondary di then s_channel c else p_channel c) (slave di) sector (dev s)) (\<lambda>(bs, d).
       Inr (bs, s\<lparr>dev := d\<rparr>)))))))"

section \<open>Initialisation\<close>

text \<open>\<open>p->field = v\<close> on a fresh block: the other fields keep the bytes of the block, given by \<open>junk\<close>.\<close>

definition ide_add_disk :: "'m alloc \<Rightarrow> u32 \<Rightarrow> DiskDescriptor \<Rightarrow> nat \<Rightarrow> u32 \<Rightarrow> ('d, 'm) ide_state \<Rightarrow> (u32 \<times> ('d, 'm) ide_state) res" where
  "ide_add_disk malloc ctrl junk i nxt s =
     (let (q, h) = malloc 8 (ide_heap s) in
      if q = 0 then Inl Null_Pointer
      else
        let s = s\<lparr>ide_heap := h, ide_disks := (ide_disks s)(q \<mapsto>
                  \<lparr>icid = ctrl, secondary = (i div 2 \<noteq> 0), slave = (i mod 2 \<noteq> 0)\<rparr>)\<rparr>;
            (disk, h) = malloc 16 (ide_heap s) in
        if disk = 0 then Inl Null_Pointer
        else Inr (disk, s\<lparr>ide_heap := h, disk_descs := (disk_descs s)(disk \<mapsto>
               junk\<lparr>disk_data := q, disk_next := nxt, disk_read_op := IdeReadOp_addr\<rparr>)\<rparr>))"

definition drive_exists :: "IdeControllerInternalData \<Rightarrow> nat \<Rightarrow> bool" where
  "drive_exists c i = (if i = 0 then pm c else if i = 1 then ps c else if i = 2 then sm c else ss_drive c)"

text \<open>
  The head of the chain of disks, \<open>controller->data\<close> and the state. The loop reads the existence bits
  of the controller's data, which is not written meanwhile.
\<close>

definition IdeControllerInit ::
  "nat \<Rightarrow> 'd port_ops \<Rightarrow> 'm alloc \<Rightarrow> DiskDescriptor \<Rightarrow> IdeControllerInternalData \<Rightarrow> ('d, 'm) ide_state
    \<Rightarrow> (u32 \<times> u32 \<times> ('d, 'm) ide_state) res" where
  "IdeControllerInit fuel io malloc junk cjunk s =
     (if ide_one s then Inr (0, 0, s)
      else
        let s = s\<lparr>ide_one := True\<rparr>;
            (ctrl, h) = malloc 10 (ide_heap s) in
        if ctrl = 0 then Inl Null_Pointer
        else
          let c = cjunk\<lparr>p_channel := 0x1F0, p_control := 0x3F6, s_channel := 0x170, s_control := 0x376\<rparr> in
          rbind (IdentifyDrives fuel io c (dev s)) (\<lambda>(c, d).
          let s = s\<lparr>ide_heap := h, ide_ctrls := (ide_ctrls s)(ctrl \<mapsto> c), dev := d\<rparr> in
          rbind (rfold (\<lambda>i (nxt, s). if drive_exists c i then ide_add_disk malloc ctrl junk i nxt s else Inr (nxt, s))
                  [0..<4] (0, s)) (\<lambda>(nxt, s).
            Inr (nxt, ctrl, s))))"

section \<open>The two channels of an ATA controller\<close>

text \<open>
  The hardware the driver is written for: each channel has up to two drives, one device register and
  address registers that keep the last two bytes written to them. A command makes the selected drive
  busy for \<open>delay\<close> reads of the status; then its data are ready. A channel without drives floats (0xFF),
  an absent drive beside a present one reads 0, a packet device refuses \<open>IDENTIFY\<close> and shows its signature.
\<close>

datatype drive = No_Drive | Ata (sectors: "u64 \<Rightarrow> u16 list") (identity: "u16 list") | Atapi

record ata =
  dev_reg :: u8
  lba_lo :: "u8 \<times> u8"
  lba_mid :: "u8 \<times> u8"
  lba_hi :: "u8 \<times> u8"
  busy :: nat
  fifo :: "u16 list"

definition ata_lba :: "ata \<Rightarrow> u64" where
  "ata_lba a = ucast (snd (lba_lo a)) OR push_bit 8 (ucast (snd (lba_mid a))) OR push_bit 16 (ucast (snd (lba_hi a)))
     OR push_bit 24 (ucast (fst (lba_lo a))) OR push_bit 32 (ucast (fst (lba_mid a))) OR push_bit 40 (ucast (fst (lba_hi a)))"

definition sel :: "(bool \<Rightarrow> drive) \<Rightarrow> ata \<Rightarrow> drive" where
  "sel ds a = ds (bit (dev_reg a) 4)"

definition ata_command :: "nat \<Rightarrow> (bool \<Rightarrow> drive) \<Rightarrow> u8 \<Rightarrow> ata \<Rightarrow> ata" where
  "ata_command delay ds v a = (case sel ds a of
       No_Drive \<Rightarrow> a
     | Ata img ident \<Rightarrow> if v = 0xEC then a\<lparr>busy := delay, fifo := ident\<rparr>
                       else if v = 0x24 then a\<lparr>busy := delay, fifo := img (ata_lba a)\<rparr> else a
     | Atapi \<Rightarrow> if v = 0xEC then a\<lparr>lba_mid := (snd (lba_mid a), 0x14), lba_hi := (snd (lba_hi a), 0xEB)\<rparr> else a)"

definition ata_out8 :: "nat \<Rightarrow> (bool \<Rightarrow> drive) \<Rightarrow> u16 \<Rightarrow> u8 \<Rightarrow> ata \<Rightarrow> ata" where
  "ata_out8 delay ds k v a =
     (if k = 3 then a\<lparr>lba_lo := (snd (lba_lo a), v)\<rparr>
      else if k = 4 then a\<lparr>lba_mid := (snd (lba_mid a), v)\<rparr>
      else if k = 5 then a\<lparr>lba_hi := (snd (lba_hi a), v)\<rparr>
      else if k = 6 then a\<lparr>dev_reg := v\<rparr>
      else if k = 7 then ata_command delay ds v a
      else a)"

definition ata_status :: "(bool \<Rightarrow> drive) \<Rightarrow> ata \<Rightarrow> u8" where
  "ata_status ds a =
     (if ds False = No_Drive \<and> ds True = No_Drive then 0xFF
      else case sel ds a of No_Drive \<Rightarrow> 0 | Atapi \<Rightarrow> 0x51
      | Ata _ _ \<Rightarrow> if busy a > 0 then 0x80 else if fifo a = [] then 0x50 else 0x58)"

definition ata_in8 :: "(bool \<Rightarrow> drive) \<Rightarrow> u16 \<Rightarrow> ata \<Rightarrow> u8 \<times> ata" where
  "ata_in8 ds k a =
     (if k = 7 then (ata_status ds a, a\<lparr>busy := busy a - 1\<rparr>)
      else if k = 4 then (snd (lba_mid a), a)
      else if k = 5 then (snd (lba_hi a), a)
      else (0xFF, a))"

definition ata_in16 :: "u16 \<Rightarrow> ata \<Rightarrow> u16 \<times> ata" where
  "ata_in16 k a = (if k = 0 then case fifo a of [] \<Rightarrow> (0xFFFF, a) | w # ws \<Rightarrow> (w, a\<lparr>fifo := ws\<rparr>) else (0xFFFF, a))"

definition base :: "bool \<Rightarrow> u16" where
  "base c = (if c then 0x170 else 0x1F0)"

definition at_channel :: "u16 \<Rightarrow> (bool \<Rightarrow> u16 \<Rightarrow> 'b) \<Rightarrow> 'b \<Rightarrow> 'b" where
  "at_channel p f z = (if p - base False < 8 then f False (p - base False)
     else if p - base True < 8 then f True (p - base True) else z)"

definition ata_ports :: "nat \<Rightarrow> (bool \<Rightarrow> bool \<Rightarrow> drive) \<Rightarrow> (bool \<Rightarrow> ata) port_ops" where
  "ata_ports delay media = \<lparr>
     port_in8 = (\<lambda>p d. at_channel p (\<lambda>c k. let (v, a) = ata_in8 (media c) k (d c) in (v, d(c := a))) (0xFF, d)),
     port_in16 = (\<lambda>p d. at_channel p (\<lambda>c k. let (v, a) = ata_in16 k (d c) in (v, d(c := a))) (0xFFFF, d)),
     port_in32 = (\<lambda>p d. (0xFFFFFFFF, d)),
     port_out8 = (\<lambda>p v d. at_channel p (\<lambda>c k. d(c := ata_out8 delay (media c) k v (d c))) d),
     port_out16 = (\<lambda>p v d. d),
     port_out32 = (\<lambda>p v d. d)\<rparr>"

lemma at_channel_base: "k < 8 \<Longrightarrow> at_channel (base c + k) f z = f c k"
proof (cases c)
  case True
  assume k: "k < 8"
  have "k - 128 = k + 0xFF80" by simp
  moreover have "unat (k + 0xFF80) = unat k + 0xFF80"
    using k by (subst unat_plus_no_wrap) (simp_all add: word_less_nat_alt)
  ultimately have "unat (k - 128) = unat k + 0xFF80" by metis
  then have "\<not> k - 128 < 8" by (simp add: word_less_nat_alt)
  then show ?thesis using k True by (simp add: at_channel_def base_def)
qed (simp add: at_channel_def base_def)

lemma ata_ports_channel [simp]:
  "k < 8 \<Longrightarrow> port_in8 (ata_ports delay media) (base c + k) d = (fst (ata_in8 (media c) k (d c)), d(c := snd (ata_in8 (media c) k (d c))))"
  "port_in16 (ata_ports delay media) (base c) d = (fst (ata_in16 0 (d c)), d(c := snd (ata_in16 0 (d c))))"
  "k < 8 \<Longrightarrow> port_out8 (ata_ports delay media) (base c + k) v d = d(c := ata_out8 delay (media c) k v (d c))"
  using at_channel_base [of 0 c] by (simp_all add: ata_ports_def at_channel_base case_prod_beta)

lemma in16s_ata:
  "in16s n (ata_ports delay media) (base c) d =
     (take n (fifo (d c)) @ replicate (n - length (fifo (d c))) 0xFFFF, d(c := (d c)\<lparr>fifo := drop n (fifo (d c))\<rparr>))"
proof (induction n arbitrary: d)
  case (Suc n)
  then show ?case by (cases "fifo (d c)") (auto simp: ata_in16_def fun_upd_def Let_def)
qed simp

lemma in8s_ata: "in8s n (ata_ports delay media) (base c + 7) d = d(c := (d c)\<lparr>busy := busy (d c) - n\<rparr>)"
  by (induction n arbitrary: d) (auto simp: ata_in8_def fun_eq_iff)

lemma ata_status_there:
  assumes "sel ds a = Ata img ident"
  shows "ata_status ds a = (if busy a > 0 then 0x80 else if fifo a = [] then 0x50 else 0x58)"
proof -
  have "\<not> (ds False = No_Drive \<and> ds True = No_Drive)"
    using assms by (cases "bit (dev_reg a) 4") (auto simp: sel_def)
  then show ?thesis using assms by (auto simp: ata_status_def)
qed

text \<open>Waiting for a drive that is there ends after the reads for which it is busy.\<close>

lemma poll_ata:
  assumes "sel (media c) (d c) = Ata img ident" and "busy (d c) < n" and "busy (d c) = 0 \<or> \<not> P 0x80"
    and "P (if fifo (d c) = [] then 0x50 else 0x58)"
  shows "poll n (ata_ports delay media) (base c + 7) P d = Inr (if fifo (d c) = [] then 0x50 else 0x58, d(c := (d c)\<lparr>busy := 0\<rparr>))"
  using assms
proof (induction n arbitrary: d)
  case (Suc n)
  show ?case
  proof (cases "busy (d c)")
    case 0
    then show ?thesis using Suc.prems by (auto simp: ata_in8_def ata_status_there)
  next
    case (Suc m)
    let ?d = "d(c := (d c)\<lparr>busy := m\<rparr>)"
    have "poll (Suc n) (ata_ports delay media) (base c + 7) P d = poll n (ata_ports delay media) (base c + 7) P ?d"
      using Suc Suc.prems by (simp add: ata_in8_def ata_status_there)
    moreover have "poll n (ata_ports delay media) (base c + 7) P ?d = Inr (if fifo (?d c) = [] then 0x50 else 0x58, ?d(c := (?d c)\<lparr>busy := 0\<rparr>))"
      using Suc Suc.prems by (intro Suc.IH) (auto simp: sel_def)
    ultimately show ?thesis by (auto simp: fun_eq_iff)
  qed
qed simp

text \<open>The six address bytes the driver writes are the 48-bit address.\<close>

lemma lba48_bytes:
  fixes s :: u64
  shows "ucast (ucast s :: u8) OR push_bit 8 (ucast (ucast (drop_bit 8 s) :: u8)) OR push_bit 16 (ucast (ucast (drop_bit 16 s) :: u8))
     OR push_bit 24 (ucast (ucast (drop_bit 24 s) :: u8)) OR push_bit 32 (ucast (ucast (drop_bit 32 s) :: u8))
     OR push_bit 40 (ucast (ucast (drop_bit 40 s) :: u8)) = take_bit 48 s" (is "?l = _")
proof (rule bit_eqI)
  fix n
  assume "possible_bit TYPE(u64) n"
  then have "n < 64" by simp
  consider "n < 8" | "8 \<le> n" "n < 16" | "16 \<le> n" "n < 24" | "24 \<le> n" "n < 32" | "32 \<le> n" "n < 40" | "40 \<le> n" "n < 48" | "48 \<le> n"
    by linarith
  then show "bit ?l n \<longleftrightarrow> bit (take_bit 48 s) n"
    using \<open>n < 64\<close> by cases (auto simp: bit_simps)
qed

lemma length_word_bytes: "length (word_bytes ws) = 2 * length ws"
  by (induction ws) (simp_all add: word_bytes_def)

lemma ide_transfer_ata:
  assumes "media c sl = Ata img ident" and "length (img (take_bit 48 sector)) = 256" and "delay < fuel"
  shows "\<exists>a. ide_transfer fuel (ata_ports delay media) (base c) sl sector d =
     Inr (word_bytes (img (take_bit 48 sector)), d(c := a))"
proof -
  let ?cmd = "if sl then 0x50 else 0x40 :: u8"
  let ?a = "(d c)\<lparr>dev_reg := ?cmd,
      lba_lo := (ucast (drop_bit 24 sector), ucast sector), lba_mid := (ucast (drop_bit 32 sector), ucast (drop_bit 8 sector)),
      lba_hi := (ucast (drop_bit 40 sector), ucast (drop_bit 16 sector)), busy := delay, fifo := img (take_bit 48 sector)\<rparr>"
  let ?b = "?a\<lparr>busy := delay - 4\<rparr>"
  have lba: "ata_lba (?a\<lparr>busy := n, fifo := ws\<rparr>) = take_bit 48 sector" for n ws
    using lba48_bytes [of sector] by (simp add: ata_lba_def)
  have bit: "bit ?cmd 4 = sl" by simp
  then have sel: "sel (media c) (?a\<lparr>busy := n, fifo := ws\<rparr>) = Ata img ident" for n ws
    using assms(1) by (simp add: sel_def)
  have out: "outs8 (ata_ports delay media) [(base c + 6, ?cmd), (base c + 2, 0x00), (base c + 3, ucast (drop_bit 24 sector)),
      (base c + 4, ucast (drop_bit 32 sector)), (base c + 5, ucast (drop_bit 40 sector)),
      (base c + 2, 0x01), (base c + 3, ucast sector), (base c + 4, ucast (drop_bit 8 sector)),
      (base c + 5, ucast (drop_bit 16 sector)), (base c + 7, 0x24)] d = d(c := ?a)"
    using sel [where n = "busy (d c)" and ws = "fifo (d c)"] lba [where n = "busy (d c)" and ws = "fifo (d c)"]
    by (simp add: ata_out8_def ata_command_def)
  define b where "b = ?b"
  have b: "fifo b = img (take_bit 48 sector)" "busy b < fuel" "sel (media c) b = Ata img ident"
    using assms(1,3) by (cases sl; simp add: b_def sel_def)+
  have nonempty: "img (take_bit 48 sector) \<noteq> []" using assms(2) by auto
  have "poll fuel (ata_ports delay media) (base c + 7) (\<lambda>status. status AND 0x80 = 0 \<and> status AND 0x08 \<noteq> 0) (d(c := b))
      = Inr (0x58, d(c := b\<lparr>busy := 0\<rparr>))"
    using poll_ata [of media c "d(c := b)" img ident fuel "\<lambda>status. status AND 0x80 = 0 \<and> status AND 0x08 \<noteq> 0" delay]
      b nonempty by simp
  then show ?thesis using assms(2) b(1)
    unfolding ide_transfer_def Let_def out in8s_ata by (simp add: in16s_ata b_def [symmetric]) blast
qed

text \<open>A drive that is not an ATA drive never offers data.\<close>

lemma poll_not_ata:
  assumes "\<not> is_Ata (sel (media c) (d c))" and "\<not> P 0" and "\<not> P 0x51" and "\<not> P 0xFF"
  shows "poll n (ata_ports delay media) (base c + 7) P d = Inl Diverges"
  using assms
proof (induction n arbitrary: d)
  case (Suc n)
  have "\<not> P (ata_status (media c) (d c))"
    using Suc.prems by (auto simp: ata_status_def split: drive.split)
  moreover have "poll n (ata_ports delay media) (base c + 7) P (d(c := (d c)\<lparr>busy := busy (d c) - 1\<rparr>)) = Inl Diverges"
    using Suc.prems by (intro Suc.IH) (simp_all add: sel_def)
  ultimately show ?case by (simp add: ata_in8_def)
qed simp

lemma dev_reg_command [simp]: "dev_reg (ata_command delay ds v a) = dev_reg a"
  by (simp add: ata_command_def split: drive.split)

lemma ide_transfer_not_ata:
  assumes "\<not> is_Ata (media c sl)"
  shows "ide_transfer fuel (ata_ports delay media) (base c) sl sector d = Inl Diverges"
proof -
  have sel: "\<not> is_Ata (sel (media c) (a\<lparr>busy := n\<rparr>))" if "dev_reg a = (if sl then 0x50 else 0x40)" for a n
    using assms that by (cases sl) (simp_all add: sel_def)
  show ?thesis
    by (simp add: ide_transfer_def Let_def in8s_ata ata_out8_def poll_not_ata sel)
qed

text \<open>Identification finds exactly the ATA drives.\<close>

lemma IdentifyDrive_ata:
  assumes "delay < fuel"
  shows "\<exists>a. IdentifyDrive fuel (ata_ports delay media) (base c) sl d = Inr (is_Ata (media c sl), d(c := a))"
proof (cases "media c False = No_Drive \<and> media c True = No_Drive")
  case True
  then have "media c sl = No_Drive" by (cases sl) simp_all
  then show ?thesis using True by (auto simp: IdentifyDrive_def ata_in8_def ata_status_def)
next
  case there: False
  define a where "a = (d c)\<lparr>busy := busy (d c) - 1, dev_reg := if sl then 0xB0 else 0xA0,
     lba_lo := (snd (lba_lo (d c)), 0), lba_mid := (snd (lba_mid (d c)), 0), lba_hi := (snd (lba_hi (d c)), 0)\<rparr>"
  have sel: "sel (media c) a = media c sl" by (cases sl) (simp_all add: sel_def a_def)
  have zero: "snd (lba_mid a) = 0" "snd (lba_hi a) = 0" by (simp_all add: a_def)
  have floating: "ata_status (media c) b \<noteq> 0xFF" for b
    using there by (simp add: ata_status_def split: drive.split)
  define a' where "a' = ata_command delay (media c) 0xEC a"
  let ?cmd = "if sl then 0xB0 else 0xA0 :: u8"
  let ?outs = "[(base c + 6, ?cmd), (base c + 2, 0x00), (base c + 3, 0x00), (base c + 4, 0x00), (base c + 5, 0x00), (base c + 7, 0xEC)]"
  have out: "outs8 (ata_ports delay media) ?outs (d(c := (d c)\<lparr>busy := busy (d c) - 1\<rparr>)) = d(c := a')"
    by (simp add: ata_out8_def a_def a'_def)
  have st: "port_in8 (ata_ports delay media) (base c + 7) (d(c := b)) = (ata_status (media c) b, d(c := b\<lparr>busy := busy b - 1\<rparr>))" for b
    by (simp add: ata_in8_def)
  have st0: "port_in8 (ata_ports delay media) (base c + 7) d = (ata_status (media c) (d c), d(c := (d c)\<lparr>busy := busy (d c) - 1\<rparr>))"
    using st [of "d c"] by simp
  let ?io = "ata_ports delay media"
  have run: "IdentifyDrive fuel ?io (base c) sl d =
     (if ata_status (media c) a' = 0 then Inr (False, d(c := a'\<lparr>busy := busy a' - 1\<rparr>))
      else rbind (poll fuel ?io (base c + 7) (\<lambda>status. status AND 0x80 = 0) (d(c := a'\<lparr>busy := busy a' - 1\<rparr>))) (\<lambda>(_, d).
        if snd (lba_mid (d c)) \<noteq> 0 \<or> snd (lba_hi (d c)) \<noteq> 0 then Inr (False, d)
        else rbind (poll fuel ?io (base c + 7) (\<lambda>status. status AND 0x08 = 0 \<or> status AND 0x01 = 0) d) (\<lambda>(status, d).
          Inr (True, if status AND 0x01 = 0 then snd (in16s 256 ?io (base c) d) else d))))"
    unfolding IdentifyDrive_def st0 Let_def split out st using floating
    by (auto simp: ata_in8_def intro!: arg_cong2 [where f = rbind] split: prod.splits)
  show ?thesis
  proof (cases "media c sl")
    case No_Drive
    then have "ata_status (media c) a' = 0" using there sel by (simp add: a'_def ata_command_def ata_status_def)
    then show ?thesis using No_Drive by (auto simp: run)
  next
    case Atapi
    then have "ata_status (media c) b = 0x51" if "dev_reg b = dev_reg a" for b
      using there sel that by (simp add: sel_def ata_status_def)
    moreover have "dev_reg a' = dev_reg a" "snd (lba_mid a') = 0x14"
      using Atapi sel by (simp_all add: a'_def ata_command_def)
    moreover obtain k where k: "fuel = Suc k" using assms by (cases fuel) auto
    ultimately show ?thesis using Atapi unfolding run unfolding k by (auto simp: st simp del: ata_ports_channel)
  next
    case (Ata img ident)
    have a': "dev_reg a' = dev_reg a" "lba_mid a' = lba_mid a" "lba_hi a' = lba_hi a" "busy a' = delay" "fifo a' = ident"
      using Ata sel by (simp_all add: a'_def ata_command_def)
    have sel': "sel (media c) b = Ata img ident" if "dev_reg b = dev_reg a'" for b
      using sel that a'(1) Ata by (simp add: sel_def)
    let ?s = "if ident = [] then 0x50 else 0x58 :: u8"
    have p: "poll fuel (ata_ports delay media) (base c + 7) P (d(c := b)) = Inr (?s, d(c := b\<lparr>busy := 0\<rparr>))"
      if "dev_reg b = dev_reg a'" "busy b < fuel" "fifo b = ident" "busy b = 0 \<or> \<not> P 0x80" "P 0x50" "P 0x58" for b P
      using poll_ata [of media c "d(c := b)" img ident fuel P delay] sel' [of b] that by simp
    define b where "b = a'\<lparr>busy := delay - 1\<rparr>"
    have b: "dev_reg b = dev_reg a'" "busy b < fuel" "fifo b = ident" "snd (lba_mid b) = 0" "snd (lba_hi b) = 0" "a'\<lparr>busy := busy a' - 1\<rparr> = b"
      using assms a' zero by (simp_all add: b_def)
    have "ata_status (media c) a' \<noteq> 0" by (simp add: ata_status_there [OF sel' [OF refl]])
    moreover have "0 < fuel" using assms by simp
    ultimately show ?thesis using Ata b unfolding run b(6) by (simp add: p [of b] p [of "b\<lparr>busy := 0\<rparr>"] in16s_ata) blast
  qed
qed

section \<open>Properties of the driver\<close>

text \<open>\<open>disk\<close> is a descriptor of the master or slave drive of a channel.\<close>

definition ide_disk :: "('d, 'm) ide_state \<Rightarrow> u32 \<Rightarrow> bool \<Rightarrow> bool \<Rightarrow> bool" where
  "ide_disk s disk c sl \<longleftrightarrow> disk \<noteq> 0 \<and> (\<exists>dd di ct. disk_descs s disk = Some dd \<and> disk_data dd \<noteq> 0
     \<and> disk_read_op dd = IdeReadOp_addr \<and> ide_disks s (disk_data dd) = Some di \<and> icid di \<noteq> 0 \<and> ide_ctrls s (icid di) = Some ct
     \<and> (if secondary di then s_channel ct else p_channel ct) = base c \<and> slave di = sl)"

lemma IdeReadOp_disk:
  assumes "ide_disk s disk c sl"
  shows "IdeReadOp fuel io disk sector s =
     rbind (ide_transfer fuel io (base c) sl sector (dev s)) (\<lambda>(bs, d). Inr (bs, s\<lparr>dev := d\<rparr>))"
proof -
  obtain dd di ct where "disk \<noteq> 0" "disk_descs s disk = Some dd" "disk_data dd \<noteq> 0" "ide_disks s (disk_data dd) = Some di"
    "icid di \<noteq> 0" "ide_ctrls s (icid di) = Some ct" "(if secondary di then s_channel ct else p_channel ct) = base c" "slave di = sl"
    using assms unfolding ide_disk_def by blast
  then show ?thesis by (simp add: IdeReadOp_def)
qed

text \<open>
  C28: on an ATA controller, whatever the state of its registers, \<open>IdeReadOp\<close> returns the 512 bytes of
  the sector with the low 48 bits of the number, on the right channel and drive, after at most as many
  status reads as the drive is busy for; it changes nothing but the registers of that channel, so that every later read is
  right as well. On a drive that never has data to transfer, such as one that is absent or a packet
  device, it waits forever.
\<close>

theorem IdeReadOp_reads_sector:
  assumes "ide_disk s disk c sl"
  shows "(\<forall>img ident. media c sl = Ata img ident \<and> length (img (take_bit 48 sector)) = 256 \<and> delay < fuel \<longrightarrow>
      (\<exists>a. IdeReadOp fuel (ata_ports delay media) disk sector s =
         Inr (word_bytes (img (take_bit 48 sector)), s\<lparr>dev := (dev s)(c := a)\<rparr>)))
    \<and> (\<not> is_Ata (media c sl) \<longrightarrow> IdeReadOp fuel (ata_ports delay media) disk sector s = Inl Diverges)"
proof (intro conjI allI impI)
  fix img ident
  assume a: "media c sl = Ata img ident \<and> length (img (take_bit 48 sector)) = 256 \<and> delay < fuel"
  obtain a where "ide_transfer fuel (ata_ports delay media) (base c) sl sector (dev s) =
      Inr (word_bytes (img (take_bit 48 sector)), (dev s)(c := a))"
    using ide_transfer_ata [of media c sl img ident sector delay fuel "dev s"] a by blast
  then show "\<exists>a. IdeReadOp fuel (ata_ports delay media) disk sector s =
      Inr (word_bytes (img (take_bit 48 sector)), s\<lparr>dev := (dev s)(c := a)\<rparr>)"
    by (auto simp: IdeReadOp_disk [OF assms])
next
  assume "\<not> is_Ata (media c sl)"
  then show "IdeReadOp fuel (ata_ports delay media) disk sector s = Inl Diverges"
    by (simp add: IdeReadOp_disk [OF assms] ide_transfer_not_ata)
qed

text \<open>Two drives: sector \<open>n\<close> of the first is full of \<open>n\<close>, the slave of the second channel has zeros.\<close>

definition demo_media :: "bool \<Rightarrow> bool \<Rightarrow> drive" where
  "demo_media c sl = (if \<not> c \<and> \<not> sl then Ata (\<lambda>n. replicate 256 (ucast n)) (replicate 256 0)
     else if c \<and> sl then Ata (\<lambda>n. replicate 256 0) (replicate 256 0) else No_Drive)"

definition demo_ata :: "bool \<Rightarrow> ata" where
  "demo_ata c = \<lparr>dev_reg = 0, lba_lo = (0, 0), lba_mid = (0, 0), lba_hi = (0, 0), busy = 0, fifo = []\<rparr>"

definition demo_ide :: "((bool \<Rightarrow> ata), u32) ide_state" where
  "demo_ide = \<lparr>disk_descs = Map.empty, ide_disks = Map.empty, ide_ctrls = Map.empty, ide_one = False, ide_heap = 0x1000, dev = demo_ata\<rparr>"

definition demo_desc :: DiskDescriptor where
  "demo_desc = \<lparr>disk_data = 0x2000, disk_next = 0, disk_read_op = IdeReadOp_addr, disk_id = 1\<rparr>"

definition demo_ctrl :: IdeControllerInternalData where
  "demo_ctrl = \<lparr>p_channel = 0x1F0, p_control = 0x3F6, s_channel = 0x170, s_control = 0x376,
     pm = True, ps = False, sm = False, ss_drive = False\<rparr>"

definition demo_ide_ready :: "((bool \<Rightarrow> ata), u32) ide_state" where
  "demo_ide_ready = demo_ide\<lparr>
     disk_descs := [0x3000 \<mapsto> demo_desc],
     ide_disks := [0x2000 \<mapsto> \<lparr>icid = 0x1000, secondary = False, slave = False\<rparr>],
     ide_ctrls := [0x1000 \<mapsto> demo_ctrl]\<rparr>"

lemma demo_ide_disk: "ide_disk demo_ide_ready 0x3000 False False"
  by (simp add: ide_disk_def demo_ide_ready_def demo_desc_def demo_ctrl_def base_def)

theorem IdeReadOp_reads_sector_witness:
  "ide_disk demo_ide_ready 0x3000 False False \<and> (\<exists>a. IdeReadOp 8 (ata_ports 7 demo_media) 0x3000 0x0102000304050607 demo_ide_ready =
     Inr (word_bytes (replicate 256 0x0607), demo_ide_ready\<lparr>dev := demo_ata(False := a)\<rparr>))"
proof -
  have "\<exists>a. IdeReadOp 8 (ata_ports 7 demo_media) 0x3000 0x0102000304050607 demo_ide_ready =
     Inr (word_bytes (replicate 256 (ucast (take_bit 48 0x0102000304050607 :: u64))), demo_ide_ready\<lparr>dev := (dev demo_ide_ready)(False := a)\<rparr>)"
    using IdeReadOp_reads_sector [OF demo_ide_disk, of demo_media "0x0102000304050607" 7 8] by (auto simp: demo_media_def)
  moreover have "ucast (take_bit 48 0x0102000304050607 :: u64) = (0x0607 :: u16)"
    by (simp add: take_bit_eq_mod)
  moreover have "dev demo_ide_ready = demo_ata" by (simp add: demo_ide_ready_def demo_ide_def)
  ultimately show ?thesis using demo_ide_disk by metis
qed

section \<open>Properties of the initialisation\<close>

text \<open>
  The state while the chain of disks is built: drives up to \<open>i\<close> are in it. Afterwards \<open>n\<close> allocations are left, none of
  which returns an address in \<open>X\<close>.
\<close>

definition ide_chain ::
  "'m alloc \<Rightarrow> u32 set \<Rightarrow> nat \<Rightarrow> u32 \<Rightarrow> IdeControllerInternalData \<Rightarrow> nat \<Rightarrow> u32 \<times> ('d, 'm) ide_state \<Rightarrow> bool" where
  "ide_chain malloc X n ctrl ct i = (\<lambda>(nxt, s). ide_ctrls s ctrl = Some ct \<and> (\<exists>as. linked (disk_descs s) disk_next nxt as
     \<and> list_all2 (\<lambda>a j. ide_disk s a (j div 2 \<noteq> 0) (j mod 2 \<noteq> 0)) as (rev (filter (drive_exists ct) [0..<i])))
     \<and> fresh_blocks malloc (n + 2 * (4 - i)) (ide_heap s) (X \<union> (dom (disk_descs s) \<union> dom (ide_disks s))))"

lemma ide_requests: "8 \<le> MAX_REQUEST" "16 \<le> MAX_REQUEST" "10 \<le> MAX_REQUEST"
  by (simp_all add: MAX_REQUEST_def)

lemma ide_add_disk_chain:
  assumes inv: "ide_chain malloc X n ctrl ct i (nxt, s)" and i: "i < 4" and ex: "drive_exists ct i"
    and ct: "ctrl \<noteq> 0" "p_channel ct = base False" "s_channel ct = base True"
  shows "\<exists>r. ide_add_disk malloc ctrl junk i nxt s = Inr r \<and> ide_chain malloc X n ctrl ct (Suc i) r"
proof -
  let ?X = "X \<union> (dom (disk_descs s) \<union> dom (ide_disks s))"
  obtain as where c: "ide_ctrls s ctrl = Some ct" and as: "linked (disk_descs s) disk_next nxt as"
    "list_all2 (\<lambda>a j. ide_disk s a (j div 2 \<noteq> 0) (j mod 2 \<noteq> 0)) as (rev (filter (drive_exists ct) [0..<i]))"
    and "fresh_blocks malloc (n + 2 * (4 - i)) (ide_heap s) ?X"
    using inv by (auto simp: ide_chain_def)
  moreover have "n + 2 * (4 - i) = Suc (Suc (n + 2 * (4 - Suc i)))" using i by simp
  ultimately have fresh: "fresh_blocks malloc (Suc (Suc (n + 2 * (4 - Suc i)))) (ide_heap s) ?X" by (simp only:)
  obtain q h where q: "malloc 8 (ide_heap s) = (q, h)" by (cases "malloc 8 (ide_heap s)")
  obtain disk h' where d: "malloc 16 h = (disk, h')" by (cases "malloc 16 h")
  note fq = fresh_blocksD [OF fresh q ide_requests(1)]
  note fd = fresh_blocksD [OF fq(3) d ide_requests(2)]
  let ?di = "\<lparr>icid = ctrl, secondary = (i div 2 \<noteq> 0), slave = (i mod 2 \<noteq> 0)\<rparr>"
  let ?dd = "junk\<lparr>disk_data := q, disk_next := nxt, disk_read_op := IdeReadOp_addr\<rparr>"
  let ?s = "s\<lparr>ide_disks := (ide_disks s)(q \<mapsto> ?di), ide_heap := h', disk_descs := (disk_descs s)(disk \<mapsto> ?dd)\<rparr>"
  have r: "ide_add_disk malloc ctrl junk i nxt s = Inr (disk, ?s)"
    using q d fq(1) fd(1) by (simp add: ide_add_disk_def)
  have new: "disk_descs s disk = None" "ide_disks s q = None" using fq(2) fd(2) by auto
  have "disk \<notin> set as" using linked_live [OF as(1)] new(1) by fastforce
  then have l: "linked (disk_descs ?s) disk_next disk (disk # as)" using as(1) fd(1) by (simp add: linked_upd_other)
  have keep: "ide_disk ?s a b sl" if k: "ide_disk s a b sl" for a b sl
  proof -
    obtain dd di ct where o: "a \<noteq> 0" "disk_descs s a = Some dd" "disk_data dd \<noteq> 0" "disk_read_op dd = IdeReadOp_addr"
      "ide_disks s (disk_data dd) = Some di" "icid di \<noteq> 0" "ide_ctrls s (icid di) = Some ct"
      "(if secondary di then s_channel ct else p_channel ct) = base b" "slave di = sl"
      using k unfolding ide_disk_def by blast
    then have "disk_descs ?s a = Some dd" "ide_disks ?s (disk_data dd) = Some di" "ide_ctrls ?s (icid di) = Some ct"
      using new by auto
    with o show ?thesis unfolding ide_disk_def by blast
  qed
  have "ide_disk ?s disk (i div 2 \<noteq> 0) (i mod 2 \<noteq> 0)"
    using fd(1) fq(1) ct c by (auto simp: ide_disk_def)
  then have "list_all2 (\<lambda>a j. ide_disk ?s a (j div 2 \<noteq> 0) (j mod 2 \<noteq> 0)) (disk # as) (rev (filter (drive_exists ct) [0..<Suc i]))"
    using list_all2_mono [OF as(2) keep] ex by simp
  moreover have "fresh_blocks malloc (n + 2 * (4 - Suc i)) (ide_heap ?s) (X \<union> (dom (disk_descs ?s) \<union> dom (ide_disks ?s)))"
    using fd(3) by (auto intro: fresh_blocks_antimono)
  moreover have "ide_ctrls ?s ctrl = Some ct" using c by simp
  ultimately have "ide_chain malloc X n ctrl ct (Suc i) (disk, ?s)"
    using l unfolding ide_chain_def split by blast
  then show ?thesis using r by blast
qed

text \<open>The drives in the order of the chain.\<close>

definition ata_drives :: "(bool \<Rightarrow> bool \<Rightarrow> drive) \<Rightarrow> (bool \<times> bool) list" where
  "ata_drives media = filter (\<lambda>(c, sl). is_Ata (media c sl)) [(True, True), (True, False), (False, True), (False, False)]"

text \<open>
  What the driver is written for, whatever else the machine has: both channels answer as those of an ATA controller with the
  drives \<open>media\<close> do, and the driver leaves the \<open>rest\<close> of the machine alone.
\<close>

locale ata_host =
  fixes io :: "'d port_ops" and delay :: nat and media :: "bool \<Rightarrow> bool \<Rightarrow> drive" and rest :: "'d \<Rightarrow> 'r"
  assumes identify: "delay < fuel \<Longrightarrow> \<exists>d'. IdentifyDrive fuel io (base c) sl d = Inr (is_Ata (media c sl), d') \<and> rest d' = rest d"
    and transfer: "media c sl = Ata img ident \<Longrightarrow> length (img (take_bit 48 n)) = 256 \<Longrightarrow> delay < fuel \<Longrightarrow>
      \<exists>d'. ide_transfer fuel io (base c) sl n d = Inr (word_bytes (img (take_bit 48 n)), d') \<and> rest d' = rest d"
begin

lemma IdentifyDrives_host:
  assumes fuel: "delay < fuel"
  shows "\<exists>d'. IdentifyDrives fuel io (ct\<lparr>p_channel := 0x1F0, p_control := pc, s_channel := 0x170, s_control := sc\<rparr>) d =
     Inr (ct\<lparr>p_channel := 0x1F0, p_control := pc, s_channel := 0x170, s_control := sc,
       pm := is_Ata (media False False), ps := is_Ata (media False True),
       sm := is_Ata (media True False), ss_drive := is_Ata (media True True)\<rparr>, d') \<and> rest d' = rest d"
proof -
  have b: "base False = 0x1F0" "base True = 0x170" by (simp_all add: base_def)
  obtain d1 where 1: "IdentifyDrive fuel io 0x1F0 False d = Inr (is_Ata (media False False), d1)" "rest d1 = rest d"
    using identify [OF fuel, of False False d] b by auto
  obtain d2 where 2: "IdentifyDrive fuel io 0x1F0 True d1 = Inr (is_Ata (media False True), d2)" "rest d2 = rest d1"
    using identify [OF fuel, of False True d1] b by auto
  obtain d3 where 3: "IdentifyDrive fuel io 0x170 False d2 = Inr (is_Ata (media True False), d3)" "rest d3 = rest d2"
    using identify [OF fuel, of True False d2] b by auto
  obtain d4 where 4: "IdentifyDrive fuel io 0x170 True d3 = Inr (is_Ata (media True True), d4)" "rest d4 = rest d3"
    using identify [OF fuel, of True True d3] b by auto
  show ?thesis using 1 2 3 4 by (simp add: IdentifyDrives_def)
qed

lemma IdeControllerInit_chain:
  fixes s :: "('d, 'm) ide_state"
  assumes "fresh_blocks malloc (n + 9) (ide_heap s) (X \<union> (dom (disk_descs s) \<union> dom (ide_disks s)))" and "delay < fuel" and "\<not> ide_one s"
  shows "\<exists>nxt ctrl s' as. IdeControllerInit fuel io malloc junk cjunk s = Inr (nxt, ctrl, s')
     \<and> linked (disk_descs s') disk_next nxt as \<and> list_all2 (\<lambda>a (c, sl). ide_disk s' a c sl) as (ata_drives media)
     \<and> fresh_blocks malloc n (ide_heap s') X \<and> ide_one s' \<and> rest (dev s') = rest (dev s)"
proof -
  let ?X = "X \<union> (dom (disk_descs s) \<union> dom (ide_disks s))"
  obtain ctrl h where m: "malloc 10 (ide_heap s) = (ctrl, h)" by (cases "malloc 10 (ide_heap s)")
  have n9: "n + 9 = Suc (n + 8)" by simp
  note f = fresh_blocksD [OF assms(1) [unfolded n9] m ide_requests(3)]
  define ct where "ct = cjunk\<lparr>p_channel := 0x1F0, p_control := 0x3F6, s_channel := 0x170, s_control := 0x376,
     pm := is_Ata (media False False), ps := is_Ata (media False True), sm := is_Ata (media True False), ss_drive := is_Ata (media True True)\<rparr>"
  obtain d where d: "IdentifyDrives fuel io
      (cjunk\<lparr>p_channel := 0x1F0, p_control := 0x3F6, s_channel := 0x170, s_control := 0x376\<rparr>) (dev s) = Inr (ct, d)" and rd: "rest d = rest (dev s)"
    using IdentifyDrives_host [OF assms(2), where ct = cjunk and pc = "0x3F6" and sc = "0x376"] unfolding ct_def by blast
  let ?s = "s\<lparr>ide_one := True, ide_heap := h, ide_ctrls := (ide_ctrls s)(ctrl \<mapsto> ct), dev := d\<rparr>"
  let ?f = "\<lambda>i (nxt, s). if drive_exists ct i then ide_add_disk malloc ctrl junk i nxt s else Inr (nxt, s)"
  define P where "P = (\<lambda>i (r :: u32 \<times> ('d, 'm) ide_state). ide_chain malloc X n ctrl ct i r \<and> ide_one (snd r) \<and> rest (dev (snd r)) = rest (dev s))"
  have "P 0 (0, ?s)"
    using fresh_blocks_antimono [OF f(3), of ?X "n + 8"] rd by (auto simp: P_def ide_chain_def intro!: exI [where x = "[]"])
  moreover have step: "\<exists>r'. ?f i r = Inr r' \<and> P (Suc i) r'" if b: "0 \<le> i" "i < 4" "P i r" for i r
  proof (cases "drive_exists ct i")
    case True
    have "ide_chain malloc X n ctrl ct i (fst r, snd r)" "p_channel ct = base False" "s_channel ct = base True"
      using b(3) by (simp_all add: P_def ct_def base_def)
    then obtain r' where "ide_add_disk malloc ctrl junk i (fst r) (snd r) = Inr r'" "ide_chain malloc X n ctrl ct (Suc i) r'"
      using ide_add_disk_chain [of malloc X n ctrl ct i "fst r" "snd r" junk] True b(2) f(1) by blast
    moreover have "ide_one (snd r')" "rest (dev (snd r')) = rest (dev s)"
      using calculation(1) b(3) by (auto simp: P_def ide_add_disk_def Let_def split: prod.splits if_splits)
    ultimately show ?thesis using True by (auto simp: P_def case_prod_beta)
  next
    case False
    then show ?thesis using b by (auto simp: P_def ide_chain_def intro: fresh_blocks_antimono)
  qed
  ultimately have "\<exists>r. rfold ?f [0..<4] (0, ?s) = Inr r \<and> P 4 r"
    by (intro rfold_upt_invar [of 0 4 P "(0, ?s)" ?f]) simp_all
  then obtain nxt s' where r: "rfold ?f [0..<4] (0, ?s) = Inr (nxt, s')" "P 4 (nxt, s')" by auto
  have run: "IdeControllerInit fuel io malloc junk cjunk s = Inr (nxt, ctrl, s')"
    using assms(3) m f(1) d r(1) by (simp add: IdeControllerInit_def)
  have drives: "map (\<lambda>j. (j div 2 \<noteq> 0, j mod 2 \<noteq> 0)) (rev (filter (drive_exists ct) [0..<4])) = ata_drives media"
    by (simp add: upt_rec ata_drives_def drive_exists_def ct_def)
  have "list_all2 (\<lambda>a (c, sl). ide_disk s' a c sl) as (ata_drives media)"
    if "list_all2 (\<lambda>a j. ide_disk s' a (j div 2 \<noteq> 0) (j mod 2 \<noteq> 0)) as (rev (filter (drive_exists ct) [0..<4]))" for as
    using that by (simp add: list.rel_map flip: drives)
  moreover obtain as where "linked (disk_descs s') disk_next nxt as"
    "list_all2 (\<lambda>a j. ide_disk s' a (j div 2 \<noteq> 0) (j mod 2 \<noteq> 0)) as (rev (filter (drive_exists ct) [0..<4]))"
    using r(2) unfolding P_def ide_chain_def by blast
  moreover have "fresh_blocks malloc n (ide_heap s') X" "ide_one s'" "rest (dev s') = rest (dev s)"
    using r(2) by (auto simp: P_def ide_chain_def intro: fresh_blocks_antimono)
  ultimately show ?thesis using run by blast
qed

end

interpretation ata_controller: ata_host "ata_ports delay media" delay media "\<lambda>_. ()" for delay media
proof
  show "\<exists>d'. IdentifyDrive fuel (ata_ports delay media) (base c) sl d = Inr (is_Ata (media c sl), d') \<and> () = ()"
    if "delay < fuel" for fuel c sl and d :: "bool \<Rightarrow> ata"
    using IdentifyDrive_ata [OF that, of media c sl d] by auto
  show "\<exists>d'. ide_transfer fuel (ata_ports delay media) (base c) sl n d = Inr (word_bytes (img (take_bit 48 n)), d') \<and> () = ()"
    if "media c sl = Ata img ident" "length (img (take_bit 48 n)) = 256" "delay < fuel" for c sl img ident n fuel and d :: "bool \<Rightarrow> ata"
    using ide_transfer_ata [of media c sl img ident n delay fuel d] that by auto
qed

text \<open>
  C29: given memory, the first \<open>IdeControllerInit\<close> ends and returns a chain with one disk for each ATA
  drive of the controller, the slave of the secondary channel first, each of which \<open>IdeReadOp\<close> finds on
  its own channel; every later call returns \<open>NULL\<close> and changes nothing.
\<close>

theorem IdeControllerInit_finds_drives:
  fixes s :: "(bool \<Rightarrow> ata, 'm) ide_state"
  assumes "fresh_blocks malloc 9 (ide_heap s) (dom (disk_descs s) \<union> dom (ide_disks s))" and "delay < fuel" and "\<not> ide_one s"
  shows "\<exists>nxt ctrl s'. IdeControllerInit fuel (ata_ports delay media) malloc junk cjunk s = Inr (nxt, ctrl, s')
     \<and> (\<exists>as. linked (disk_descs s') disk_next nxt as \<and> list_all2 (\<lambda>a (c, sl). ide_disk s' a c sl) as (ata_drives media))
     \<and> IdeControllerInit fuel (ata_ports delay media) malloc junk cjunk s' = Inr (0, 0, s')"
proof -
  obtain nxt ctrl s' as where "IdeControllerInit fuel (ata_ports delay media) malloc junk cjunk s = Inr (nxt, ctrl, s')"
    "linked (disk_descs s') disk_next nxt as" "list_all2 (\<lambda>a (c, sl). ide_disk s' a c sl) as (ata_drives media)" "ide_one s'"
    using ata_controller.IdeControllerInit_chain [of malloc 0 s "{}" delay fuel media junk cjunk] assms by auto
  moreover from this have "IdeControllerInit fuel (ata_ports delay media) malloc junk cjunk s' = Inr (0, 0, s')" by (simp add: IdeControllerInit_def)
  ultimately show ?thesis by blast
qed

lemma bump_fresh: "fresh_blocks bump 9 0x1000 {}"
  by (simp add: bump_def fresh_blocks_numeral)

theorem IdeControllerInit_finds_drives_witness:
  "\<exists>nxt ctrl s'. IdeControllerInit 8 (ata_ports 7 demo_media) bump demo_desc demo_ctrl demo_ide = Inr (nxt, ctrl, s')
     \<and> (\<exists>as. linked (disk_descs s') disk_next nxt as \<and> list_all2 (\<lambda>a (c, sl). ide_disk s' a c sl) as [(True, True), (False, False)])
     \<and> IdeControllerInit 8 (ata_ports 7 demo_media) bump demo_desc demo_ctrl s' = Inr (0, 0, s')"
proof -
  have "ata_drives demo_media = [(True, True), (False, False)]" by (simp add: ata_drives_def demo_media_def)
  moreover have "fresh_blocks bump 9 (ide_heap demo_ide) (dom (disk_descs demo_ide) \<union> dom (ide_disks demo_ide))"
    using bump_fresh by (simp add: demo_ide_def)
  ultimately show ?thesis
    using IdeControllerInit_finds_drives [of bump demo_ide 7 8 demo_media demo_desc demo_ctrl] by (simp add: demo_ide_def)
qed

section \<open>Partitions of an IDE disk\<close>

text \<open>The disk as the partition code sees it, \<open>None\<close> when the driver does not return.\<close>

definition ide_device :: "nat \<Rightarrow> 'd port_ops \<Rightarrow> u32 \<Rightarrow> ('d, 'm) ide_state \<Rightarrow> device" where
  "ide_device fuel io disk s sector = (case IdeReadOp fuel io disk sector s of Inl _ \<Rightarrow> None | Inr (bs, _) \<Rightarrow> Some bs)"

context ata_host
begin

lemma ide_device_host:
  assumes "ide_disk s disk c sl" and "media c sl = Ata img ident" and "\<forall>n. length (img n) = 256" and "delay < fuel"
  shows "ide_device fuel io disk s = (\<lambda>n. Some (word_bytes (img (take_bit 48 n))))"
proof
  fix n
  show "ide_device fuel io disk s n = Some (word_bytes (img (take_bit 48 n)))"
    using transfer [OF assms(2) assms(3) [rule_format] assms(4), of n "dev s"] assms(1) by (auto simp: ide_device_def IdeReadOp_disk)
qed

end

lemmas ide_device_ata = ata_controller.ide_device_host

lemma ide_sector_device:
  assumes "ide_disk s disk c sl" and "media c sl = Ata img ident" and "\<forall>n. length (img n) = 256" and "delay < fuel"
    and "part < 4" and "blk 512 = Some b" and "length b = 512"
  shows "sector_device blk (ide_device fuel (ata_ports delay media) disk s) part"
  using assms(3,5-7) by unfold_locales (auto simp: ide_device_ata [where media = media and c = c, OF assms(1-4)] length_word_bytes)

text \<open>A heap whose blocks have arbitrary contents, and a disk with an image, ready to be read.\<close>

definition any_block :: "(nat \<Rightarrow> u8) \<Rightarrow> heap_blocks" where
  "any_block g n = Some (map g [0..<unat n])"

definition image_media :: "(u64 \<Rightarrow> nat \<Rightarrow> u16) \<Rightarrow> bool \<Rightarrow> bool \<Rightarrow> drive" where
  "image_media img c sl = (if \<not> c \<and> \<not> sl then Ata (\<lambda>n. map (img n) [0..<256]) [] else No_Drive)"

definition image_device :: "nat \<Rightarrow> (u64 \<Rightarrow> nat \<Rightarrow> u16) \<Rightarrow> device" where
  "image_device delay img = ide_device (Suc delay) (ata_ports delay (image_media img)) 0x3000 demo_ide_ready"

lemma image_device_eq: "image_device delay img = (\<lambda>n. Some (word_bytes (map (img (take_bit 48 n)) [0..<256])))"
  unfolding image_device_def
  by (rule ide_device_ata [OF demo_ide_disk, where img = "\<lambda>n. map (img n) [0..<256]" and ident = "[]"])
    (simp_all add: image_media_def del: upt_rec_numeral)

lemma ucast_2_less: "(ucast (p :: 2 word) :: u32) < 4"
proof -
  have "unat p < 2 ^ LENGTH(2)" by (rule unsigned_less)
  then show ?thesis by (simp add: word_less_nat_alt unat_ucast_mod)
qed

interpretation ide_image: sector_device "any_block g" "image_device delay img" "ucast (p :: 2 word)" for g delay img p
  unfolding image_device_def
  by (rule ide_sector_device [OF demo_ide_disk, where img = "\<lambda>n. map (img n) [0..<256]" and ident = "[]" and b = "map g [0..<512]"])
    (simp_all add: image_media_def any_block_def ucast_2_less del: upt_rec_numeral)

text \<open>
  C30: \<open>PartitionRead\<close> through the IDE driver copies exactly the bytes from \<open>addr\<close> to \<open>addr + length\<close> of the
  partition into the buffer when the request reaches at least the end of its first sector. A request
  that ends inside its first sector is read beyond its length: with a buffer of just that size the copy
  of the rest of the sector writes past its end.
\<close>

theorem PartitionRead_copies:
  assumes disk: "ide_disk s disk c sl" "media c sl = Ata img ident" "\<forall>n. length (img n) = 256" "delay < fuel"
    and env: "part < 4" "blk 512 = Some b" "length b = 512"
  defines "rd \<equiv> ide_device fuel (ata_ports delay media) disk s"
  shows "(512 - unat addr mod 512 \<le> unat len \<and> unat addr + unat len < 2 ^ 41 \<and> unat len \<le> length dest \<longrightarrow>
      PartitionRead blk rd part addr len dest = Inr (True, map (pbyte rd part) [unat addr..<unat addr + unat len] @ drop (unat len) dest))
    \<and> (unat len < 512 - unat addr mod 512 \<and> length dest = unat len \<longrightarrow>
      PartitionRead blk rd part addr len dest = Inl Out_Of_Bounds)"
proof -
  have sd: "sector_device blk rd part" unfolding rd_def by (rule ide_sector_device [where media = media and blk = blk, OF disk env])
  have rd: "rd n \<noteq> None" for n by (simp add: rd_def ide_device_ata [where media = media and c = c, OF disk])
  then have all: "psector rd part k \<noteq> None" for k by (simp add: psector_def)
  show ?thesis
  proof (intro conjI impI)
    assume "512 - unat addr mod 512 \<le> unat len \<and> unat addr + unat len < 2 ^ 41 \<and> unat len \<le> length dest"
    then show "PartitionRead blk rd part addr len dest =
        Inr (True, map (pbyte rd part) [unat addr..<unat addr + unat len] @ drop (unat len) dest)"
      using sector_device.PartitionRead_eq [OF sd, of addr len dest] all by simp
  next
    assume "unat len < 512 - unat addr mod 512 \<and> length dest = unat len"
    then show "PartitionRead blk rd part addr len dest = Inl Out_Of_Bounds"
      using sector_device.PartitionRead_short [OF sd, of len addr dest] all by simp
  qed
qed

definition demo_block :: heap_blocks where
  "demo_block = any_block (\<lambda>_. 0xAA)"

lemma demo_block_sector: "demo_block 512 = Some (replicate 512 0xAA)"
  by (simp add: demo_block_def any_block_def map_replicate_const del: upt_rec_numeral)

theorem PartitionRead_copies_witness:
  "PartitionRead demo_block (ide_device 8 (ata_ports 7 demo_media) 0x3000 demo_ide_ready) 0 500 24 (replicate 24 0) =
     Inr (True, map (pbyte (ide_device 8 (ata_ports 7 demo_media) 0x3000 demo_ide_ready) 0) [500..<524])"
  using PartitionRead_copies [where media = demo_media and blk = demo_block and s = demo_ide_ready and disk = "0x3000" and c = False
      and sl = False and img = "\<lambda>n. replicate 256 (ucast n)" and ident = "replicate 256 0" and delay = 7 and fuel = 8 and part = 0
      and b = "replicate 512 0xAA" and addr = 500 and len = 24 and dest = "replicate 24 0"] demo_ide_disk demo_block_sector
  by (simp add: demo_media_def del: upt_rec_numeral replicate_numeral)

end
