(* ===== verification/Fat_Reading.thy ===== *)
theory Fat_Reading
  imports Fat32 Ide_Controller
begin

text \<open>
  Reading a file of a FAT32 volume against its specification: the bytes of a file are those of the
  clusters of its chain, and \<open>Fat32ReadOp\<close> copies a range of them.

  The locale \<open>fat_volume\<close> extends \<open>sector_device\<close> by what the driver relies on of a mounted volume.
\<close>

section \<open>Chains and contents\<close>

definition cluster_sector :: "FatVolumeInternalData \<Rightarrow> u32 \<Rightarrow> nat" where
  "cluster_sector d c = unat ((c - 2) * ucast (sectors_per_cluster (br d)) + first_data_sector d)"

definition cluster_bytes :: "device \<Rightarrow> u32 \<Rightarrow> FatVolumeInternalData \<Rightarrow> u32 \<Rightarrow> bytes" where
  "cluster_bytes rd part d c = map (pbyte rd part)
     [512 * cluster_sector d c..<512 * cluster_sector d c + unat (bytes_per_cluster d)]"

definition fat_next :: "device \<Rightarrow> u32 \<Rightarrow> FatVolumeInternalData \<Rightarrow> u32 \<Rightarrow> u32" where
  "fat_next rd part d c =
     (let fat = the (psector rd part (ucast (ucast (reserved_sectors (br d)) + c div 128)));
          v = le32 fat (4 * unat (c mod 128)) AND 0x0FFFFFFF in
      if v < FAT_ENTRY_BAD_SECTOR then v else INVALID_CLUSTER)"

text \<open>The \<open>k\<close>-th cluster of the chain from \<open>c\<close>, and the \<open>k\<close>-th byte of its contents.\<close>

definition chain_at :: "device \<Rightarrow> u32 \<Rightarrow> FatVolumeInternalData \<Rightarrow> u32 \<Rightarrow> nat \<Rightarrow> u32" where
  "chain_at rd part d c k = (fat_next rd part d ^^ k) c"

definition chain_byte :: "device \<Rightarrow> u32 \<Rightarrow> FatVolumeInternalData \<Rightarrow> u32 \<Rightarrow> nat \<Rightarrow> u8" where
  "chain_byte rd part d c k = (let n = unat (bytes_per_cluster d) in
     cluster_bytes rd part d (chain_at rd part d c (k div n)) ! (k mod n))"

text \<open>The chain from \<open>c\<close> has \<open>L\<close> clusters.\<close>

definition chain_length :: "device \<Rightarrow> u32 \<Rightarrow> FatVolumeInternalData \<Rightarrow> u32 \<Rightarrow> nat \<Rightarrow> bool" where
  "chain_length rd part d c L \<longleftrightarrow> (\<forall>k<L. chain_at rd part d c k \<noteq> INVALID_CLUSTER) \<and> chain_at rd part d c L = INVALID_CLUSTER"

section \<open>A mounted volume\<close>

locale fat_volume = sector_device +
  fixes d :: FatVolumeInternalData
  assumes sector_bytes: "bytes_per_sector (br d) = 512"
    and cluster_sectors: "sectors_per_cluster (br d) \<noteq> 0"
    and bpc_eq: "bytes_per_cluster d = 512 * ucast (sectors_per_cluster (br d))"
    and readable: "rd n \<noteq> None"
    and cluster_block: "\<exists>b. blk (bytes_per_cluster d) = Some b \<and> length b = unat (bytes_per_cluster d)"
begin

lemma spc_bounds: "0 < unat (sectors_per_cluster (br d))" "unat (sectors_per_cluster (br d)) < 256"
proof -
  have "unat (sectors_per_cluster (br d)) < 2 ^ LENGTH(8)" by (rule unsigned_less)
  then show "unat (sectors_per_cluster (br d)) < 256" by simp
  show "0 < unat (sectors_per_cluster (br d))" using cluster_sectors by (simp add: unat_gt_0)
qed

lemma bpc_nat: "unat (bytes_per_cluster d) = 512 * unat (sectors_per_cluster (br d))"
  using spc_bounds by (simp add: bpc_eq unat_word_ariths unat_ucast_mod)

lemma bpc_bounds: "0 < unat (bytes_per_cluster d)" "unat (bytes_per_cluster d) < 131072"
  using spc_bounds by (simp_all add: bpc_nat)

lemma all_psectors: "\<exists>b. psector rd part k = Some b \<and> length b = 512"
  using readable psector_length by (metis option.exhaust psector_def)

lemma length_cluster_bytes: "length (cluster_bytes rd part d c) = unat (bytes_per_cluster d)"
  by (simp add: cluster_bytes_def)

lemma read_cluster_loop_eq:
  assumes "off + 512 * n \<le> length dest" and "i \<le> n"
  shows "read_cluster_loop blk rd part d (of_nat F) [i..<n] dest off =
     Inr (True, take (off + 512 * i) dest @ map (pbyte rd part) [512 * (F + i)..<512 * (F + n)] @ drop (off + 512 * n) dest)"
  using assms
proof (induction "n - i" arbitrary: i dest)
  case 0
  then show ?case by simp
next
  case (Suc m)
  then have lt: "i < n" by simp
  let ?p = "off + 512 * i"
  obtain b where b: "psector rd part (of_nat (F + i)) = Some b" "length b = 512" using all_psectors by blast
  let ?d = "take ?p dest @ b @ drop (?p + 512) dest"
  have room: "?p + 512 \<le> length dest" using Suc.prems(1) lt by linarith
  then have l: "length ?d = length dest" using b(2) by simp
  have "read_cluster_loop blk rd part d (of_nat F) [i..<n] dest off = read_cluster_loop blk rd part d (of_nat F) [Suc i..<n] ?d off"
    using b room by (simp add: upt_conv_Cons [OF lt] sector_bytes PartitionReadSector_eq mult.commute)
  also have "\<dots> = Inr (True, take (off + 512 * Suc i) ?d @ map (pbyte rd part) [512 * (F + Suc i)..<512 * (F + n)] @ drop (off + 512 * n) ?d)"
    using Suc.hyps(2) Suc.prems lt l by (intro Suc.hyps(1)) auto
  also have "take (off + 512 * Suc i) ?d = take ?p dest @ b" using room b(2) by simp
  also have "drop (off + 512 * n) ?d = drop (off + 512 * n) dest"
  proof -
    have "off + 512 * n = ?p + 512 + 512 * (n - Suc i)" using lt by (simp add: diff_mult_distrib2)
    then show ?thesis using room b(2) by (simp add: ac_simps)
  qed
  also have "b = map (pbyte rd part) [512 * (F + i)..<512 * (F + Suc i)]"
    using sector_pbytes [OF b(1)] by (simp add: algebra_simps)
  also have "(take ?p dest @ map (pbyte rd part) [512 * (F + i)..<512 * (F + Suc i)])
        @ map (pbyte rd part) [512 * (F + Suc i)..<512 * (F + n)] @ drop (off + 512 * n) dest
      = take ?p dest @ map (pbyte rd part) [512 * (F + i)..<512 * (F + n)] @ drop (off + 512 * n) dest"
    using lt upt_add_eq_append [of "512 * (F + i)" "512 * (F + Suc i)" "512 * (n - Suc i)"]
    by (simp add: diff_mult_distrib2 flip: map_append)
  finally show ?case .
qed

lemma Fat32ReadCluster_eq:
  assumes "off + unat (bytes_per_cluster d) \<le> length dest"
  shows "Fat32ReadCluster blk rd part d c dest off =
     Inr (True, take off dest @ cluster_bytes rd part d c @ drop (off + unat (bytes_per_cluster d)) dest)"
proof -
  let ?f = "(c - 2) * ucast (sectors_per_cluster (br d)) + first_data_sector d"
  have "(ucast ?f :: u64) = of_nat (unat ?f)" by simp
  then show ?thesis
    using read_cluster_loop_eq [of off "unat (sectors_per_cluster (br d))" dest 0 "unat ?f"] assms
    by (simp add: Fat32ReadCluster_def cluster_bytes_def cluster_sector_def bpc_nat algebra_simps del: of_nat_unat)
qed

lemma NextCluster_eq: "NextCluster blk rd part d c = Inr (fat_next rd part d c)"
proof -
  obtain b where b: "blk 512 = Some b" "length b = 512" using block_512 by blast
  obtain f where f: "psector rd part (ucast (ucast (reserved_sectors (br d)) + c div 128)) = Some f" "length f = 512"
    using all_psectors by blast
  have "unat (c mod 128) < 128" by (simp add: unat_mod)
  then have "4 * unat (c mod 128) + 4 \<le> 512" by simp
  then show ?thesis
    using b f by (simp add: NextCluster_def new_block_def sector_bytes PartitionReadSector_eq fat_next_def Let_def)
qed

lemma chain_at_Suc: "fat_next rd part d (chain_at rd part d c k) = chain_at rd part d c (Suc k)"
  by (simp add: chain_at_def)

lemma cluster_chain_bytes:
  "cluster_bytes rd part d (chain_at rd part d c k) =
     map (chain_byte rd part d c) [k * unat (bytes_per_cluster d)..<Suc k * unat (bytes_per_cluster d)]"
proof (rule nth_equalityI)
  let ?n = "unat (bytes_per_cluster d)"
  show "length (cluster_bytes rd part d (chain_at rd part d c k)) = length (map (chain_byte rd part d c) [k * ?n..<Suc k * ?n])"
    by (simp add: length_cluster_bytes)
  fix i
  assume "i < length (cluster_bytes rd part d (chain_at rd part d c k))"
  then have "i < ?n" by (simp add: length_cluster_bytes)
  moreover from this have "(k * ?n + i) div ?n = k" "(k * ?n + i) mod ?n = i" by simp_all
  ultimately show "cluster_bytes rd part d (chain_at rd part d c k) ! i = map (chain_byte rd part d c) [k * ?n..<Suc k * ?n] ! i"
    by (simp add: chain_byte_def)
qed

lemma skip_clusters_eq:
  assumes "chain_length rd part d c L" and "k < L"
  shows "skip_clusters blk rd part d n (chain_at rd part d c k) = Inr (if k + n < L then Some (chain_at rd part d c (k + n)) else None)"
  using assms(2)
proof (induction n arbitrary: k)
  case (Suc n)
  show ?case
  proof (cases "Suc k < L")
    case True
    then have "chain_at rd part d c (Suc k) \<noteq> INVALID_CLUSTER" using assms(1) by (simp add: chain_length_def)
    then show ?thesis using Suc.IH [OF True] by (simp add: NextCluster_eq chain_at_Suc)
  next
    case False
    then have "Suc k = L" using Suc.prems by simp
    then have "chain_at rd part d c (Suc k) = INVALID_CLUSTER" using assms(1) by (simp add: chain_length_def)
    then show ?thesis using False by (simp add: NextCluster_eq chain_at_Suc)
  qed
qed simp

lemma read_clusters_eq:
  assumes "chain_length rd part d c L" and "k \<le> L" and "off + n * unat (bytes_per_cluster d) \<le> length dest"
  defines "bpc \<equiv> unat (bytes_per_cluster d)" and "m \<equiv> min n (L - k)"
  shows "read_clusters blk rd part d n ret sz (chain_at rd part d c k) dest off =
     Inr (n \<le> L - k, ret + of_nat (m * bpc), sz - of_nat (m * bpc), chain_at rd part d c (k + m),
       take off dest @ map (chain_byte rd part d c) [k * bpc..<(k + m) * bpc] @ drop (off + m * bpc) dest, off + m * bpc)"
  using assms(2,3) unfolding bpc_def m_def
proof (induction n arbitrary: k ret sz dest off)
  case (Suc n)
  let ?n = "unat (bytes_per_cluster d)"
  show ?case
  proof (cases "k < L")
    case False
    then have "k = L" using Suc.prems by simp
    then show ?thesis using assms(1) by (simp add: chain_length_def)
  next
    case True
    then have valid: "chain_at rd part d c k \<noteq> INVALID_CLUSTER" using assms(1) by (simp add: chain_length_def)
    let ?b = "cluster_bytes rd part d (chain_at rd part d c k)"
    let ?d = "take off dest @ ?b @ drop (off + ?n) dest"
    have room: "off + ?n + n * ?n \<le> length dest" using Suc.prems by simp
    have m: "min (Suc n) (L - k) = Suc (min n (L - Suc k))" using True by (auto simp: min_def)
    let ?m = "min n (L - Suc k)"
    have "read_clusters blk rd part d (Suc n) ret sz (chain_at rd part d c k) dest off =
        read_clusters blk rd part d n (ret + bytes_per_cluster d) (sz - bytes_per_cluster d) (chain_at rd part d c (Suc k)) ?d (off + ?n)"
      using valid room by (simp add: Fat32ReadCluster_eq NextCluster_eq chain_at_Suc)
    also have "\<dots> = Inr (n \<le> L - Suc k, ret + bytes_per_cluster d + of_nat (?m * ?n), sz - bytes_per_cluster d - of_nat (?m * ?n),
        chain_at rd part d c (Suc k + ?m),
        take (off + ?n) ?d @ map (chain_byte rd part d c) [Suc k * ?n..<(Suc k + ?m) * ?n] @ drop (off + ?n + ?m * ?n) ?d, off + ?n + ?m * ?n)"
      using True room length_cluster_bytes by (intro Suc.IH) auto
    also have "take (off + ?n) ?d = take off dest @ map (chain_byte rd part d c) [k * ?n..<Suc k * ?n]"
      using room by (simp add: length_cluster_bytes cluster_chain_bytes)
    also have "drop (off + ?n + ?m * ?n) ?d = drop (off + ?n + ?m * ?n) dest"
      using room by (simp add: length_cluster_bytes ac_simps)
    finally have r: "read_clusters blk rd part d (Suc n) ret sz (chain_at rd part d c k) dest off =
        Inr (n \<le> L - Suc k, ret + bytes_per_cluster d + of_nat (?m * ?n), sz - bytes_per_cluster d - of_nat (?m * ?n),
        chain_at rd part d c (Suc k + ?m), (take off dest @ map (chain_byte rd part d c) [k * ?n..<Suc k * ?n])
        @ map (chain_byte rd part d c) [Suc k * ?n..<(Suc k + ?m) * ?n] @ drop (off + ?n + ?m * ?n) dest, off + ?n + ?m * ?n)" .
    have u: "[k * ?n..<(k + Suc ?m) * ?n] = [k * ?n..<Suc k * ?n] @ [Suc k * ?n..<(Suc k + ?m) * ?n]"
      using upt_add_eq_append [of "k * ?n" "Suc k * ?n" "?m * ?n"] by (simp add: algebra_simps)
    have le: "n \<le> L - Suc k \<longleftrightarrow> Suc n \<le> L - k" using True by linarith
    show ?thesis unfolding r m u le by (simp add: algebra_simps)
  qed
qed simp

lemma read_rest_eq:
  assumes L: "chain_length rd part d c L" and k: "k \<le> L" and room: "off + unat sz \<le> length dest"
    and cb: "length cluster_buf = unat (bytes_per_cluster d)"
  defines "bpc \<equiv> unat (bytes_per_cluster d)" and "n \<equiv> min (unat sz) ((L - k) * unat (bytes_per_cluster d))"
  shows "read_rest blk rd part d ret sz (chain_at rd part d c k) cluster_buf dest off =
     Inr (ret + of_nat n, take off dest @ map (chain_byte rd part d c) [k * bpc..<k * bpc + n] @ drop (off + n) dest)"
proof -
  let ?q = "unat sz div bpc" and ?r = "unat sz mod bpc"
  have pos: "0 < bpc" using bpc_bounds by (simp add: bpc_def)
  have q: "unat (sz div bytes_per_cluster d) = ?q" by (simp add: unat_div bpc_def)
  define m where "m = min ?q (L - k)"
  have sz: "unat sz = ?q * bpc + ?r" by simp
  then have "off + ?q * bpc \<le> length dest" using room by linarith
  then have rc: "read_clusters blk rd part d ?q ret sz (chain_at rd part d c k) dest off =
     Inr (?q \<le> L - k, ret + of_nat (m * bpc), sz - of_nat (m * bpc), chain_at rd part d c (k + m),
       take off dest @ map (chain_byte rd part d c) [k * bpc..<(k + m) * bpc] @ drop (off + m * bpc) dest, off + m * bpc)"
    using read_clusters_eq [OF L k, of off ?q dest ret sz] by (simp add: bpc_def m_def)
  show ?thesis
  proof (cases "?q < L - k")
    case False
    then have m: "m = L - k" by (simp add: m_def)
    have "(L - k) * bpc \<le> ?q * bpc" using False by (intro mult_le_mono1) simp
    then have "(L - k) * bpc \<le> unat sz" using sz by linarith
    then have n: "n = m * bpc" by (simp add: n_def m bpc_def)
    have "chain_at rd part d c (k + m) = INVALID_CLUSTER" using L k m by (simp add: chain_length_def)
    then show ?thesis by (simp add: read_rest_def q rc n add_mult_distrib Let_def)
  next
    case True
    then have m: "m = ?q" by (simp add: m_def)
    have "k + ?q < L" using True by simp
    then have valid: "chain_at rd part d c (k + ?q) \<noteq> INVALID_CLUSTER" using L by (simp add: chain_length_def)
    have "unat sz < Suc ?q * bpc" using dividend_less_div_times [OF pos, of "unat sz"] by simp
    also have "\<dots> \<le> (L - k) * bpc" using True by (intro mult_le_mono1) simp
    finally have n: "n = unat sz" by (simp add: n_def bpc_def)
    have "?q * bpc < 4294967296" using sz unat_u32_less [of sz] by linarith
    then have "unat (of_nat (?q * bpc) :: u32) = ?q * bpc" by (intro unat_of_nat_less) simp
    then have rest: "unat (sz - of_nat (?q * bpc)) = ?r"
      by (subst unat_diff_le) (simp_all add: word_le_nat_alt minus_div_mult_eq_mod del: of_nat_mult)
    let ?d = "take off dest @ map (chain_byte rd part d c) [k * bpc..<(k + ?q) * bpc] @ drop (off + ?q * bpc) dest"
    let ?b = "cluster_bytes rd part d (chain_at rd part d c (k + ?q))"
    have "?r < bpc" using pos by simp
    then have t: "take ?r ?b = map (chain_byte rd part d c) [(k + ?q) * bpc..<(k + ?q) * bpc + ?r]"
      unfolding cluster_chain_bytes bpc_def [symmetric] by (simp add: take_map)
    have l: "length (take off dest @ map (chain_byte rd part d c) [k * bpc..<(k + ?q) * bpc]) = off + ?q * bpc"
      using room sz by (simp add: algebra_simps)
    have cp: "copy_bytes ?d (off + ?q * bpc) ?b 0 ?r = Inr (take off dest
        @ map (chain_byte rd part d c) [k * bpc..<k * bpc + unat sz] @ drop (off + unat sz) dest)"
    proof -
      have u: "[k * bpc..<k * bpc + unat sz] = [k * bpc..<(k + ?q) * bpc] @ [(k + ?q) * bpc..<(k + ?q) * bpc + ?r]"
      proof -
        have "k * bpc + unat sz = (k + ?q) * bpc + ?r" using sz by (simp add: algebra_simps)
        then show ?thesis by (simp only:) (rule upt_add_eq_append, simp)
      qed
      have "off + unat sz = off + ?q * bpc + ?r" using sz by simp
      moreover have "?r \<le> length ?b" using \<open>?r < bpc\<close> by (simp add: length_cluster_bytes bpc_def)
      ultimately show ?thesis
        using copy_tail [OF l, of "off + unat sz" ?r ?b dest] room t unfolding u by simp
    qed
    have whole: "ret + of_nat (?q * bpc) + (sz - of_nat (?q * bpc)) = ret + sz" by simp
    have rd: "Fat32ReadCluster blk rd part d (chain_at rd part d c (k + ?q)) cluster_buf 0 = Inr (True, ?b)"
      using Fat32ReadCluster_eq [of 0 cluster_buf] cb by simp
    show ?thesis
    proof (cases "sz - of_nat (?q * bpc) = 0")
      case True
      then have e: "?q * bpc = unat sz" using rest sz by simp
      then have "(k + ?q) * bpc = k * bpc + unat sz" by (simp add: add_mult_distrib)
      then show ?thesis unfolding read_rest_def Let_def q rc unfolding m n e by simp
    next
      case False
      then show ?thesis using valid True cp rd whole rest
        by (simp add: read_rest_def q rc m n Let_def)
    qed
  qed
qed

text \<open>The word arithmetic of the position, in the naturals.\<close>

lemma position_words:
  fixes p :: u64
  defines "bpc \<equiv> unat (bytes_per_cluster d)" and "b64 \<equiv> ucast (bytes_per_cluster d) :: u64"
  assumes p: "unat p < 2 ^ 32"
  shows "b64 \<noteq> 0" and "unat (ucast (p div b64) :: u32) = unat p div bpc"
    and "unat (ucast ((b64 - p mod b64) mod b64) :: u32) = (bpc - unat p mod bpc) mod bpc"
    and "unat p mod bpc \<noteq> 0 \<Longrightarrow> unat (bytes_per_cluster d - ucast ((b64 - p mod b64) mod b64)) = unat p mod bpc"
proof -
  have b: "unat b64 = bpc" using bpc_bounds by (simp add: b64_def bpc_def unat_ucast_mod)
  have pos: "0 < bpc" "bpc < 131072" using bpc_bounds by (simp_all add: bpc_def)
  show "b64 \<noteq> 0" using b pos by auto
  have "unat p div bpc < 2 ^ 32" using p div_le_dividend [of "unat p" bpc] by (rule le_less_trans [rotated])
  then show "unat (ucast (p div b64) :: u32) = unat p div bpc"
    by (simp add: unat_ucast_mod unat_div b)
  have "unat (p mod b64) = unat p mod bpc" by (simp add: unat_mod b)
  moreover have "unat p mod bpc < bpc" using pos by simp
  ultimately have "unat (b64 - p mod b64) = bpc - unat p mod bpc"
    by (subst unat_diff_le) (simp_all add: word_le_nat_alt b)
  then have l: "unat ((b64 - p mod b64) mod b64) = (bpc - unat p mod bpc) mod bpc" by (simp add: unat_mod b)
  have "(bpc - unat p mod bpc) mod bpc < bpc" using pos by simp
  then have "(bpc - unat p mod bpc) mod bpc < 4294967296" using pos by linarith
  then show l32: "unat (ucast ((b64 - p mod b64) mod b64) :: u32) = (bpc - unat p mod bpc) mod bpc"
    using l by (simp add: unat_ucast_mod)
  assume nz: "unat p mod bpc \<noteq> 0"
  then have "(bpc - unat p mod bpc) mod bpc = bpc - unat p mod bpc" using pos by simp
  then show "unat (bytes_per_cluster d - ucast ((b64 - p mod b64) mod b64)) = unat p mod bpc"
    using l32 \<open>unat p mod bpc < bpc\<close> by (subst unat_diff_le) (simp_all add: word_le_nat_alt flip: bpc_def)
qed

lemma leading_cluster:
  fixes a :: nat
  defines "bpc \<equiv> unat (bytes_per_cluster d)"
  assumes nz: "a mod bpc \<noteq> 0"
  shows "take (bpc - a mod bpc) (drop (a mod bpc) (cluster_bytes rd part d (chain_at rd part d c (a div bpc))))
      = map (chain_byte rd part d c) [a..<Suc (a div bpc) * bpc]"
    and "a + (bpc - a mod bpc) = Suc (a div bpc) * bpc"
proof -
  have pos: "0 < bpc" using bpc_bounds by (simp add: bpc_def)
  have a: "a = a div bpc * bpc + a mod bpc" by simp
  have lt: "a mod bpc < bpc" using pos by simp
  have "a + (bpc - a mod bpc) = a div bpc * bpc + bpc" using a lt by linarith
  then show "a + (bpc - a mod bpc) = Suc (a div bpc) * bpc" by simp
  have "drop (a mod bpc) [a div bpc * bpc..<Suc (a div bpc) * bpc] = [a..<Suc (a div bpc) * bpc]"
    using a by simp
  moreover have "Suc (a div bpc) * bpc - a = bpc - a mod bpc" using \<open>a + (bpc - a mod bpc) = Suc (a div bpc) * bpc\<close> by linarith
  ultimately show "take (bpc - a mod bpc) (drop (a mod bpc) (cluster_bytes rd part d (chain_at rd part d c (a div bpc))))
      = map (chain_byte rd part d c) [a..<Suc (a div bpc) * bpc]"
    unfolding cluster_chain_bytes bpc_def [symmetric] by (simp add: drop_map take_map del: mult_Suc)
qed

text \<open>From a position inside a cluster: the rest of that cluster, then the following ones.\<close>

lemma read_from_middle:
  fixes a :: nat
  defines "bpc \<equiv> unat (bytes_per_cluster d)" and "l \<equiv> unat (bytes_per_cluster d) - a mod unat (bytes_per_cluster d)"
  assumes nz: "a mod bpc \<noteq> 0" and L: "chain_length rd part d c L" and kL: "Suc (a div bpc) \<le> L"
    and lw: "unat lw = l" "l \<le> unat sz" and room: "unat sz \<le> length dest"
  defines "n \<equiv> min (unat sz) (L * bpc - a)" and "b \<equiv> cluster_bytes rd part d (chain_at rd part d c (a div bpc))"
    and "dest' \<equiv> map (chain_byte rd part d c) [a..<Suc (a div bpc) * bpc] @ drop l dest"
  shows "copy_bytes dest 0 b (a mod bpc) l = Inr dest'"
    and "read_rest blk rd part d lw (sz - lw) (chain_at rd part d c (Suc (a div bpc))) b dest' l =
       Inr (of_nat n, map (chain_byte rd part d c) [a..<a + n] @ drop n dest)"
proof -
  let ?k = "a div bpc"
  have lc: "take l (drop (a mod bpc) b) = map (chain_byte rd part d c) [a..<Suc ?k * bpc]" "a + l = Suc ?k * bpc"
    using leading_cluster(1) [of a c] leading_cluster(2) [of a] nz by (simp_all add: b_def l_def bpc_def)
  have ld: "length (map (chain_byte rd part d c) [a..<Suc ?k * bpc]) = l" using lc(2) by simp
  have "a mod bpc < bpc" using bpc_bounds by (simp add: bpc_def)
  then have "a mod bpc + l \<le> length b" by (simp add: length_cluster_bytes b_def l_def flip: bpc_def)
  moreover have "l \<le> length dest" using lw(2) room by simp
  ultimately show "copy_bytes dest 0 b (a mod bpc) l = Inr dest'"
    using lc(1) ld by (simp add: copy_bytes_def store_bytes_def dest'_def del: mult_Suc)
  define m where "m = min (unat (sz - lw)) ((L - Suc ?k) * bpc)"
  have us: "unat (sz - lw) = unat sz - l" using lw by (subst unat_diff_le) (simp_all add: word_le_nat_alt)
  have "L * bpc = Suc ?k * bpc + (L - Suc ?k) * bpc" using kL by (simp del: mult_Suc flip: add_mult_distrib)
  then have "L * bpc - a = l + (L - Suc ?k) * bpc" using lc(2) by linarith
  then have nm: "n = l + m" using lw(2) by (simp add: n_def m_def us min_def del: mult_Suc) linarith
  have "read_rest blk rd part d lw (sz - lw) (chain_at rd part d c (Suc ?k)) b dest' l =
      Inr (lw + of_nat m, take l dest' @ map (chain_byte rd part d c) [Suc ?k * bpc..<Suc ?k * bpc + m] @ drop (l + m) dest')"
    using read_rest_eq [OF L kL, of l "sz - lw" dest' b lw] room lw(2) us ld
    by (simp add: m_def length_cluster_bytes b_def dest'_def bpc_def del: mult_Suc)
  also have "lw + of_nat m = of_nat n" using lw(1) nm by (metis of_nat_add of_nat_unat ucast_id)
  also have "take l dest' @ map (chain_byte rd part d c) [Suc ?k * bpc..<Suc ?k * bpc + m] @ drop (l + m) dest' =
      map (chain_byte rd part d c) [a..<a + n] @ drop n dest"
  proof -
    have "[a..<a + n] = [a..<Suc ?k * bpc] @ [Suc ?k * bpc..<Suc ?k * bpc + m]"
      using upt_add_eq_append [of a "Suc ?k * bpc" m] lc(2) nm by (metis add.assoc le_add1)
    then show ?thesis using ld nm by (simp add: add.commute dest'_def del: mult_Suc)
  qed
  finally show "read_rest blk rd part d lw (sz - lw) (chain_at rd part d c (Suc ?k)) b dest' l =
      Inr (of_nat n, map (chain_byte rd part d c) [a..<a + n] @ drop n dest)" .
qed

text \<open>The specification of \<open>Fat32ReadOp\<close>.\<close>

lemma Fat32ReadOp_eq:
  fixes s :: "'m fat_state"
  defines "bpc \<equiv> unat (bytes_per_cluster d)"
  assumes fl: "fl \<noteq> 0" "files s fl = Some f" "fd_type f = FD_TYPE_FILE" "volume_context s (volume f) = Inr (rd, part, d)"
      "deref (ffids s) (data f) = Inr ff"
    and L: "chain_length rd part d (first_cluster ff) L" "0 < L" and p: "unat (seek f) < 2 ^ 32"
    and lead: "(bpc - unat (seek f) mod bpc) mod bpc \<le> unat sz" and room: "unat sz \<le> length dest"
  defines "n \<equiv> min (unat sz) (L * bpc - unat (seek f))"
  shows "Fat32ReadOp blk fl sz dest s = Inr (of_nat n,
     map (chain_byte rd part d (first_cluster ff)) [unat (seek f)..<unat (seek f) + n] @ drop n dest,
     s\<lparr>files := (files s)(fl \<mapsto> f\<lparr>seek := seek f + of_nat n\<rparr>)\<rparr>)"
proof -
  let ?a = "unat (seek f)" and ?c = "first_cluster ff"
  let ?k = "?a div bpc"
  note w = position_words [OF p, folded bpc_def]
  have pos: "0 < bpc" using bpc_bounds by (simp add: bpc_def)
  obtain cb where cb: "blk (bytes_per_cluster d) = Some cb" "length cb = bpc" using cluster_block by (auto simp: bpc_def)
  have c0: "chain_at rd part d ?c 0 = ?c" by (simp add: chain_at_def)
  have skip: "skip_clusters blk rd part d ?k ?c = Inr (if ?k < L then Some (chain_at rd part d ?c ?k) else None)"
    using skip_clusters_eq [OF L, of ?k] c0 by simp
  have k: "?k < L \<longleftrightarrow> ?a < L * bpc" using pos by (simp add: div_less_iff_less_mult)
  have "n < 2 ^ 32" using unat_u32_less [of sz] by (simp add: n_def)
  then have cast: "(ucast (of_nat n :: u32) :: u64) = of_nat n"
    by (simp add: word_unat_eq_iff unat_ucast_mod unat_of_nat_less)
  show ?thesis
  proof (cases "?k < L")
    case False
    then have "n = 0" using k by (simp add: n_def)
    moreover have "s\<lparr>files := (files s)(fl \<mapsto> f)\<rparr> = s" using fl(2) by (simp add: fun_upd_idem)
    ultimately show ?thesis using fl cb w(1,2) skip False
      by (simp add: Fat32ReadOp_def new_block_def Let_def)
  next
    case True
    then have kL: "?k \<le> L" "Suc ?k \<le> L" by simp_all
    show ?thesis
    proof (cases "?a mod bpc = 0")
      case z: True
      then have a: "?a = ?k * bpc" by (metis add.right_neutral div_mult_mod_eq)
      then have "n = min (unat sz) ((L - ?k) * bpc)" by (simp add: n_def diff_mult_distrib)
      then have "read_rest blk rd part d 0 sz (chain_at rd part d ?c ?k) cb dest 0 =
          Inr (of_nat n, map (chain_byte rd part d ?c) [?a..<?a + n] @ drop n dest)"
        using read_rest_eq [OF L(1) kL(1), of 0 sz dest cb 0] room cb(2) a by (simp add: bpc_def)
      moreover have "(ucast ((ucast (bytes_per_cluster d) - seek f mod ucast (bytes_per_cluster d)) mod ucast (bytes_per_cluster d) :: u64) :: u32) = 0"
        using w(3) z by (simp add: unat_eq_zero)
      ultimately show ?thesis using fl cb w(1,2) skip True cast
        by (simp add: Fat32ReadOp_def new_block_def Let_def)
    next
      case nz: False
      define l where "l = bpc - ?a mod bpc"
      let ?b64 = "ucast (bytes_per_cluster d) :: u64"
      define lw :: u32 where "lw = ucast ((?b64 - seek f mod ?b64) mod ?b64)"
      have l: "l < bpc" "0 < l" using nz pos by (simp_all add: l_def)
      have ul: "unat lw = l" using w(3) l(1) by (simp add: lw_def flip: l_def)
      moreover from this have "lw \<noteq> 0" using l(2) by auto
      ultimately have lw: "unat lw = l" "lw \<noteq> 0" "unat (bytes_per_cluster d - lw) = ?a mod bpc" "l \<le> unat sz"
        using w(4) nz lead l(1) by (simp_all add: lw_def flip: l_def)
      have rc: "Fat32ReadCluster blk rd part d (chain_at rd part d ?c ?k) cb 0 = Inr (True, cluster_bytes rd part d (chain_at rd part d ?c ?k))"
        using Fat32ReadCluster_eq [of 0 cb] cb(2) by (simp add: bpc_def)
      note mid = read_from_middle [of ?a, folded bpc_def, OF nz, folded l_def, OF L(1) kL(2) lw(1,4) room, folded n_def]
      show ?thesis using fl cb(1) w(1,2) skip True cast lw rc mid NextCluster_eq chain_at_Suc
        by (simp add: Fat32ReadOp_def new_block_def Let_def flip: lw_def)
    qed
  qed
qed

lemma Fat32ReadOp_short:
  fixes s :: "'m fat_state"
  defines "bpc \<equiv> unat (bytes_per_cluster d)"
  assumes fl: "fl \<noteq> 0" "files s fl = Some f" "fd_type f = FD_TYPE_FILE" "volume_context s (volume f) = Inr (rd, part, d)"
      "deref (ffids s) (data f) = Inr ff"
    and L: "chain_length rd part d (first_cluster ff) L" "unat (seek f) < L * bpc" and p: "unat (seek f) < 2 ^ 32"
    and lead: "unat sz < (bpc - unat (seek f) mod bpc) mod bpc" and room: "length dest = unat sz"
  shows "Fat32ReadOp blk fl sz dest s = Inl Out_Of_Bounds"
proof -
  let ?a = "unat (seek f)" and ?c = "first_cluster ff"
  let ?k = "?a div bpc" and ?b64 = "ucast (bytes_per_cluster d) :: u64"
  note w = position_words [OF p, folded bpc_def]
  have pos: "0 < bpc" using bpc_bounds by (simp add: bpc_def)
  define lw :: u32 where "lw = ucast ((?b64 - seek f mod ?b64) mod ?b64)"
  have lw: "unat lw = (bpc - ?a mod bpc) mod bpc" using w(3) by (simp add: lw_def)
  then have nz: "lw \<noteq> 0" using lead by auto
  obtain cb where cb: "blk (bytes_per_cluster d) = Some cb" "length cb = bpc" using cluster_block by (auto simp: bpc_def)
  have k: "?k < L" using L(2) pos by (simp add: div_less_iff_less_mult)
  then have "skip_clusters blk rd part d ?k ?c = Inr (Some (chain_at rd part d ?c ?k))"
    using skip_clusters_eq [OF L(1), of 0 ?k] by (simp add: chain_at_def)
  moreover have "Fat32ReadCluster blk rd part d (chain_at rd part d ?c ?k) cb 0 = Inr (True, cluster_bytes rd part d (chain_at rd part d ?c ?k))"
    using Fat32ReadCluster_eq [of 0 cb] cb(2) by (simp add: bpc_def)
  moreover have "copy_bytes dest 0 b i (unat lw) = Inl Out_Of_Bounds" for b i
    using lead lw room by (simp add: copy_bytes_def store_bytes_def)
  ultimately show ?thesis using fl cb(1) w(1,2) nz
    by (simp add: Fat32ReadOp_def new_block_def Let_def flip: lw_def)
qed

end

section \<open>A small volume\<close>

text \<open>Two sectors per cluster, one reserved sector, one FAT of one sector, root directory in cluster 2.\<close>

definition demo_br :: bytes where
  "demo_br = (replicate 512 0)[12 := 0x02, 13 := 2, 14 := 1, 16 := 1, 36 := 1, 44 := 2, 66 := 0x29, 510 := 0x55, 511 := 0xAA]"

definition demo_vol :: FatVolumeInternalData where
  "demo_vol = \<lparr>br = demo_br, fat_type = FAT32, first_data_sector = 2, bytes_per_cluster = 1024\<rparr>"

lemma demo_br_fields:
  "bytes_per_sector demo_br = 512" "sectors_per_cluster demo_br = 2" "reserved_sectors demo_br = 1"
  by (simp_all add: demo_br_def bytes_per_sector_def sectors_per_cluster_def reserved_sectors_def le16_def del: replicate_numeral)

lemma fat_volume_demo:
  assumes "sector_device blk rd part" and "\<And>n. rd n \<noteq> None" and "blk 1024 = Some b" and "length b = 1024"
  shows "fat_volume blk rd part demo_vol"
  using assms(2-4) by (intro fat_volume.intro assms(1) fat_volume_axioms.intro) (simp_all add: demo_vol_def demo_br_fields)

text \<open>The driver on a partition of an IDE disk, for every contents of the disk.\<close>

interpretation ide_fat: fat_volume "any_block g" "image_device delay img" "ucast (p :: 2 word)" demo_vol for g delay img p
  by (rule fat_volume_demo [OF ide_image.sector_device_axioms, where b = "map g [0..<1024]"])
    (simp_all add: image_device_eq any_block_def del: upt_rec_numeral)

section \<open>Reading a file\<close>

text \<open>
  C31: on a mounted volume, \<open>Fat32ReadOp\<close> at position \<open>p\<close> of a file whose chain has \<open>L\<close> clusters copies the bytes
  from \<open>p\<close> to \<open>p + n\<close> of the chain's contents, where \<open>n\<close> is the requested size or what is left of the
  chain, whichever is less (the size of the file plays no part), returns \<open>n\<close> and advances the position by
  \<open>n\<close>. This needs a request that reaches the end of the cluster the position is in. A shorter one
  from inside a cluster copies up to the end of that cluster anyway: with a buffer of the requested size
  it writes past the buffer.
\<close>

theorem Fat32ReadOp_reads:
  fixes s :: "'m fat_state"
  assumes vol: "fat_volume blk rd part d"
    and fl: "fl \<noteq> 0" "files s fl = Some f" "fd_type f = FD_TYPE_FILE" "volume_context s (volume f) = Inr (rd, part, d)"
      "deref (ffids s) (data f) = Inr ff"
    and L: "chain_length rd part d (first_cluster ff) L" "0 < L" and p: "unat (seek f) < 2 ^ 32"
  shows "let bpc = unat (bytes_per_cluster d); p = unat (seek f); leading = (bpc - p mod bpc) mod bpc; n = min (unat sz) (L * bpc - p) in
     (leading \<le> unat sz \<and> unat sz \<le> length dest \<longrightarrow>
        Fat32ReadOp blk fl sz dest s = Inr (of_nat n, map (chain_byte rd part d (first_cluster ff)) [p..<p + n] @ drop n dest,
          s\<lparr>files := (files s)(fl \<mapsto> f\<lparr>seek := seek f + of_nat n\<rparr>)\<rparr>))
     \<and> (unat sz < leading \<and> p < L * bpc \<and> length dest = unat sz \<longrightarrow> Fat32ReadOp blk fl sz dest s = Inl Out_Of_Bounds)"
  unfolding Let_def
  using fat_volume.Fat32ReadOp_eq [OF vol fl L p, of sz dest] fat_volume.Fat32ReadOp_short [OF vol fl L(1) _ p, of sz dest]
  by blast

text \<open>A disk with the volume from its first sector on: a directory in cluster 2 and a file in clusters 3 and 4.\<close>

definition demo_entry :: bytes where
  "demo_entry = map of_char ''KERNEL  ELF'' @ [0x20] @ replicate 14 0 @ [3, 0, 0xDC, 0x05, 0, 0]"

definition demo_rd :: device where
  "demo_rd n = Some (if n = 1 then (replicate 512 0)[8 := 0xFF, 9 := 0xFF, 10 := 0xFF, 11 := 0x0F, 12 := 4,
       16 := 0xFF, 17 := 0xFF, 18 := 0xFF, 19 := 0x0F]
     else if n = 2 then demo_entry @ replicate 480 0 else replicate 512 0)"

definition demo_file :: FileDescriptor where
  "demo_file = \<lparr>seek = 1000, file_size = 1500, volume = 0x100, data = 0x300, traverse_op = Fat32TraverseOp_addr,
     read_op = Fat32ReadOp_addr, write_op = FileAccessOpStub_addr, local_id = 0, fd_type = FD_TYPE_FILE, fd_next = 0\<rparr>"

definition demo_root :: FileDescriptor where
  "demo_root = demo_file\<lparr>seek := 0, file_size := 0, data := 0x600, fd_type := FD_TYPE_DIRECTORY\<rparr>"

definition demo_fat :: "u32 fat_state" where
  "demo_fat = \<lparr>devs = [0x10 \<mapsto> demo_rd],
     vols = [0x100 \<mapsto> \<lparr>vol_disk = 0x10, vol_data = 0x200, vol_partition = 0, vol_root = 0, vol_next = 0\<rparr>],
     fvids = [0x200 \<mapsto> demo_vol], ffids = [0x300 \<mapsto> \<lparr>first_cluster = 3\<rparr>, 0x600 \<mapsto> \<lparr>first_cluster = 2\<rparr>], files = [0x400 \<mapsto> demo_file, 0x500 \<mapsto> demo_root], fat_heap = 0x1000\<rparr>"

lemma demo_fat_volume: "fat_volume demo_block demo_rd 0 demo_vol"
proof -
  have "length (replicate 512 0 :: bytes) = 512" by (rule length_replicate)
  moreover have "length demo_entry = 32" by (simp add: demo_entry_def)
  ultimately have "sector_device demo_block demo_rd 0"
    using demo_block_sector by unfold_locales (auto simp: demo_rd_def simp del: replicate_numeral)
  then show ?thesis
    by (rule fat_volume_demo [where b = "replicate 1024 0xAA"])
      (simp_all add: demo_rd_def demo_block_def any_block_def map_replicate_const del: upt_rec_numeral replicate_numeral)
qed

lemma demo_psector_1: "psector demo_rd 0 1 = demo_rd 1"
  by (simp add: psector_def demo_rd_def partition_table_def le32_def le16_def del: replicate_numeral)

lemma demo_chain: "chain_length demo_rd 0 demo_vol 3 2"
proof -
  have n: "fat_next demo_rd 0 demo_vol 3 = 4" "fat_next demo_rd 0 demo_vol 4 = 0"
    by (simp_all add: fat_next_def demo_vol_def demo_br_fields demo_psector_1 demo_rd_def le32_def le16_def
        FAT_ENTRY_BAD_SECTOR_def INVALID_CLUSTER_def del: replicate_numeral)
  then have "chain_at demo_rd 0 demo_vol 3 0 = 3" "chain_at demo_rd 0 demo_vol 3 1 = 4" "chain_at demo_rd 0 demo_vol 3 2 = 0"
    by (simp_all add: chain_at_def eval_nat_numeral)
  then show ?thesis by (auto simp: chain_length_def INVALID_CLUSTER_def less_2_cases_iff)
qed

theorem Fat32ReadOp_reads_witness:
  "Fat32ReadOp demo_block 0x400 1500 (replicate 1500 0) demo_fat = Inr (1048,
     map (chain_byte demo_rd 0 demo_vol 3) [1000..<2048] @ replicate 452 0,
     demo_fat\<lparr>files := (files demo_fat)(0x400 \<mapsto> demo_file\<lparr>seek := 2048\<rparr>)\<rparr>)"
proof -
  have f: "(0x400 :: u32) \<noteq> 0" "files demo_fat 0x400 = Some demo_file" "fd_type demo_file = FD_TYPE_FILE"
    "volume_context demo_fat (volume demo_file) = Inr (demo_rd, 0, demo_vol)" "deref (ffids demo_fat) (data demo_file) = Inr \<lparr>first_cluster = 3\<rparr>"
    by (simp_all add: demo_fat_def demo_file_def volume_context_def)
  have c: "chain_length demo_rd 0 demo_vol (first_cluster \<lparr>first_cluster = 3\<rparr>) 2" using demo_chain by simp
  have p: "seek demo_file = 1000" "unat (bytes_per_cluster demo_vol) = 1024" by (simp_all add: demo_file_def demo_vol_def)
  show ?thesis
    using Fat32ReadOp_reads [OF demo_fat_volume f c, of 1500 "replicate 1500 0"]
    by (simp add: p Let_def del: upt_rec_numeral replicate_numeral)
qed

end
