(* ===== verification/Fat_Traversal.thy ===== *)
theory Fat_Traversal
  imports Fat_Reading
begin

text \<open>
  Looking up a name in a directory of a FAT32 volume, for directories without long-name entries: the
  result of \<open>Fat32TraverseOp\<close> is the first entry whose 8.3 name is the name up to case. Mounting and
  the descriptors the driver makes are at the end.
\<close>

section \<open>Names\<close>

text \<open>The name an entry stands for: both fields without trailing spaces, with a dot when there is an extension.\<close>

definition rtrim :: "bytes \<Rightarrow> bytes" where
  "rtrim field = rev (dropWhile (\<lambda>c. c = 0x20) (rev field))"

definition display_name :: "bytes \<Rightarrow> bytes" where
  "display_name e = rtrim (sfn_name e) @ (if rtrim (sfn_extension e) = [] then [] else of_char CHR ''.'' # rtrim (sfn_extension e))"

definition name_matches :: "buf \<Rightarrow> bytes \<Rightarrow> bool" where
  "name_matches name e \<longleftrightarrow> map lower_key (chars (display_name e @ [0])) = map lower_key (chars name)"

lemma rtrim_take: "take (trimmed_length field) field = rtrim field"
proof -
  have f: "field = rtrim field @ rev (takeWhile (\<lambda>c. c = 0x20) (rev field))"
    unfolding rtrim_def by (metis rev_append rev_rev_ident takeWhile_dropWhile_id)
  have "trimmed_length field = length (rtrim field)" by (simp add: trimmed_length_def rtrim_def)
  then show ?thesis using f by (metis append_eq_conv_conj)
qed

lemma length_rtrim: "length (rtrim field) = trimmed_length field"
  by (simp add: trimmed_length_def rtrim_def)

lemma trimmed_length_le: "trimmed_length field \<le> length field"
  using length_dropWhile_le [of "\<lambda>c. c = 0x20" "rev field"] by (simp add: trimmed_length_def)

lemma length_display_name: "length (display_name e) \<le> 12"
proof -
  have "length (rtrim (sfn_name e)) \<le> 8" "length (rtrim (sfn_extension e)) \<le> 3"
    using trimmed_length_le [of "sfn_name e"] trimmed_length_le [of "sfn_extension e"]
    by (auto simp: length_rtrim sfn_name_def sfn_extension_def)
  then show ?thesis by (auto simp: display_name_def)
qed

lemma store_after: "length xs = n \<Longrightarrow> store (xs @ y # ys) n v = Inr (xs @ v # ys)"
  by (simp add: store_def list_update_append)

lemma short_name_eq:
  assumes "256 \<le> length b" and "i \<noteq> 0 \<or> rtrim (sfn_name e) \<noteq> []"
  shows "short_name i e b = Inr (display_name e @ [0] @ drop (Suc (length (display_name e))) b)"
proof -
  let ?n = "rtrim (sfn_name e)" and ?x = "rtrim (sfn_extension e)"
  have l: "length ?n \<le> 8" "length ?x \<le> 3"
    using trimmed_length_le [of "sfn_name e"] trimmed_length_le [of "sfn_extension e"]
    by (auto simp: length_rtrim sfn_name_def sfn_extension_def)
  have nl: "trimmed_length (sfn_name e) = length ?n" "trimmed_length (sfn_extension e) = length ?x" by (simp_all add: length_rtrim)
  have tk: "take (length ?n) (sfn_name e) = ?n" "take (length ?x) (sfn_extension e) = ?x"
    using rtrim_take [of "sfn_name e"] rtrim_take [of "sfn_extension e"] by (simp_all add: length_rtrim)
  have s1: "store_bytes b 0 ?n = Inr (?n @ drop (length ?n) b)" using l assms(1) by (simp add: store_bytes_def)
  obtain y ys where y: "drop (length ?n) b = y # ys" using l assms(1) by (cases "drop (length ?n) b") auto
  have ys: "ys = drop (Suc (length ?n)) b" using y by (metis drop_Suc list.sel(3) tl_drop)
  have guard: "\<not> (i = 0 \<and> length ?n = 0)" using assms(2) by auto
  show ?thesis
  proof (cases "?x = []")
    case True
    then show ?thesis using s1 y ys guard
      by (simp add: short_name_def Let_def nl tk store_after display_name_def)
  next
    case False
    have "length ?x < length ys" using ys l assms(1) by simp
    then obtain z zs where z: "drop (length ?x) ys = z # zs" by (cases "drop (length ?x) ys") auto
    have zs: "zs = drop (Suc (length ?x)) ys" using z by (metis drop_Suc list.sel(3) tl_drop)
    let ?dot = "of_char CHR ''.'' :: u8"
    have s2: "store (?n @ y # ys) (length ?n) ?dot = Inr (?n @ ?dot # ys)" by (simp add: store_after)
    have s3: "store_bytes (?n @ ?dot # ys) (Suc (length ?n)) ?x = Inr (?n @ ?dot # ?x @ z # zs)"
      using \<open>length ?x < length ys\<close> z by (simp add: store_bytes_def)
    have s4: "store (?n @ ?dot # ?x @ z # zs) (Suc (length ?n + length ?x)) 0 = Inr (?n @ ?dot # ?x @ 0 # zs)"
      using store_after [of "?n @ ?dot # ?x" "Suc (length ?n + length ?x)" z zs 0] by simp
    show ?thesis using s1 y s2 s3 s4 guard False zs ys
      by (simp add: short_name_def Let_def nl tk display_name_def add.commute)
  qed
qed

section \<open>Scanning a directory\<close>

text \<open>
  The outcome of a scan over entries: nothing decided, the end of the directory, or the entry found.
  \<open>plain_entries\<close>: no long-name entry and no blank name before the end of the directory.
\<close>

fun scan :: "buf \<Rightarrow> bytes list \<Rightarrow> bytes option option" where
  "scan name [] = None"
| "scan name (e # es) =
     (if e ! 0 = 0x00 then Some None
      else if e ! 0 = 0xE5 then scan name es
      else if name_matches name e then Some (Some e)
      else scan name es)"

text \<open>The specification: the first entry in use with that name before the end of the directory.\<close>

definition lookup :: "buf \<Rightarrow> bytes list \<Rightarrow> bytes option" where
  "lookup name es = find (\<lambda>e. e ! 0 \<noteq> 0xE5 \<and> name_matches name e) (takeWhile (\<lambda>e. e ! 0 \<noteq> 0x00) es)"

lemma scan_lookup: "(case scan name es of None \<Rightarrow> None | Some r \<Rightarrow> r) = lookup name es"
  by (induction es) (auto simp: lookup_def)

definition plain_entries :: "bytes list \<Rightarrow> bool" where
  "plain_entries es \<longleftrightarrow> (\<forall>e \<in> set es. sfn_attr e \<noteq> FAT_ATTR_LFN \<and> rtrim (sfn_name e) \<noteq> [])"

lemma plain_entries_simps [simp]:
  "plain_entries []"
  "plain_entries (e # es) \<longleftrightarrow> sfn_attr e \<noteq> FAT_ATTR_LFN \<and> rtrim (sfn_name e) \<noteq> [] \<and> plain_entries es"
  "plain_entries (xs @ ys) \<longleftrightarrow> plain_entries xs \<and> plain_entries ys"
  by (auto simp: plain_entries_def)

lemma scan_append: "scan name (xs @ ys) = (case scan name xs of None \<Rightarrow> scan name ys | Some r \<Rightarrow> Some r)"
  by (induction xs) auto

lemma dir_entry_plain:
  assumes "256 \<le> length b" and "terminated name" and "sfn_attr e \<noteq> FAT_ATTR_LFN" and "rtrim (sfn_name e) \<noteq> []"
  shows "\<exists>b'. length b' = length b \<and> dir_entry name i e b 0 = Inr (
     if e ! 0 = 0x00 then Returns_Null else if e ! 0 = 0xE5 then Goes_On b 0
     else if name_matches name e then Found e else Goes_On b' 0)"
proof -
  let ?b = "display_name e @ [0] @ drop (Suc (length (display_name e))) b"
  have l: "length ?b = length b" using length_display_name [of e] assms(1) by simp
  have "terminated ?b" by (simp add: terminated_def)
  then obtain r where r: "strcasecmp ?b name = Inr r" "r = 0 \<longleftrightarrow> map lower_key (chars ?b) = map lower_key (chars name)"
    using assms(2) by (rule strcasecmp_zero)
  have "chars ?b = chars (display_name e @ [0])"
    by (cases "0 \<in> set (display_name e)") (auto simp: chars_def takeWhile_append1 takeWhile_append2 takeWhile_tail)
  then have "r = 0 \<longleftrightarrow> name_matches name e" using r(2) by (simp add: name_matches_def)
  then show ?thesis using r(1) l assms(3,4) short_name_eq [OF assms(1), of i e]
    by (intro exI [of _ ?b]) (simp add: dir_entry_def)
qed

lemma dir_entries_plain:
  assumes "256 \<le> length b" and "terminated name" and "plain_entries (map (entry_at cluster) is)"
  shows "\<exists>b'. length b' = length b \<and> dir_entries name cluster is b 0 = Inr (case scan name (map (entry_at cluster) is) of
     None \<Rightarrow> Goes_On b' 0 | Some None \<Rightarrow> Returns_Null | Some (Some e) \<Rightarrow> Found e)"
  using assms(1,3)
proof (induction "is" arbitrary: b)
  case (Cons i "is")
  let ?e = "entry_at cluster i"
  obtain b1 where b1: "length b1 = length b" and e: "dir_entry name i ?e b 0 = Inr (
      if ?e ! 0 = 0x00 then Returns_Null else if ?e ! 0 = 0xE5 then Goes_On b 0
      else if name_matches name ?e then Found ?e else Goes_On b1 0)"
    using dir_entry_plain [OF Cons.prems(1) assms(2), of ?e i] Cons.prems(2) by auto
  have p: "plain_entries (map (entry_at cluster) is)" using Cons.prems(2) by simp
  show ?case
    using Cons.IH [OF Cons.prems(1) p] Cons.IH [of b1] b1 p Cons.prems(1) by (auto simp: e)
qed auto

text \<open>The entries of a directory, cluster by cluster.\<close>

definition cluster_entries :: "device \<Rightarrow> u32 \<Rightarrow> FatVolumeInternalData \<Rightarrow> u32 \<Rightarrow> bytes list" where
  "cluster_entries rd part d c = map (entry_at (cluster_bytes rd part d c)) [0..<unat (bytes_per_cluster d) div 32]"

definition dir_listing :: "device \<Rightarrow> u32 \<Rightarrow> FatVolumeInternalData \<Rightarrow> u32 \<Rightarrow> nat \<Rightarrow> bytes list" where
  "dir_listing rd part d c L = concat (map (\<lambda>k. cluster_entries rd part d (chain_at rd part d c k)) [0..<L])"

context fat_volume
begin

text \<open>As much fuel as the chain has clusters is enough.\<close>

lemma dir_clusters_plain:
  assumes "chain_length rd part d c L" and "k \<le> L" and "L - k \<le> fuel" and "256 \<le> length b" and "terminated name"
    and "length cl = unat (bytes_per_cluster d)"
    and "plain_entries (concat (map (\<lambda>k. cluster_entries rd part d (chain_at rd part d c k)) [k..<L]))"
  shows "dir_clusters fuel blk rd part d name (chain_at rd part d c k) cl b 0 =
     Inr (lookup name (concat (map (\<lambda>k. cluster_entries rd part d (chain_at rd part d c k)) [k..<L])))"
  using assms(2-4,6,7)
proof (induction fuel arbitrary: k b cl)
  case 0
  then have "chain_at rd part d c k = INVALID_CLUSTER" using assms(1) by (simp add: chain_length_def)
  then show ?case using 0 by (simp add: lookup_def)
next
  case (Suc fuel)
  show ?case
  proof (cases "k < L")
    case False
    then have "chain_at rd part d c k = INVALID_CLUSTER" using assms(1) Suc.prems(1) by (simp add: chain_length_def)
    then show ?thesis using False by (simp add: lookup_def)
  next
    case True
    then have valid: "chain_at rd part d c k \<noteq> INVALID_CLUSTER" using assms(1) by (simp add: chain_length_def)
    let ?cb = "cluster_bytes rd part d (chain_at rd part d c k)"
    let ?rest = "concat (map (\<lambda>k. cluster_entries rd part d (chain_at rd part d c k)) [Suc k..<L])"
    have es: "concat (map (\<lambda>k. cluster_entries rd part d (chain_at rd part d c k)) [k..<L]) = cluster_entries rd part d (chain_at rd part d c k) @ ?rest"
      using True by (simp add: upt_conv_Cons)
    have rc: "Fat32ReadCluster blk rd part d (chain_at rd part d c k) cl 0 = Inr (True, ?cb)"
      using Fat32ReadCluster_eq [of 0 cl] Suc.prems(4) by simp
    obtain b' where b': "length b' = length b" and de: "dir_entries name ?cb [0..<unat (bytes_per_cluster d) div 32] b 0 =
        Inr (case scan name (cluster_entries rd part d (chain_at rd part d c k)) of
          None \<Rightarrow> Goes_On b' 0 | Some None \<Rightarrow> Returns_Null | Some (Some e) \<Rightarrow> Found e)"
      using dir_entries_plain [OF Suc.prems(3) assms(5), of ?cb "[0..<unat (bytes_per_cluster d) div 32]"] Suc.prems(5)
      unfolding es by (auto simp: cluster_entries_def)
    have ih: "dir_clusters fuel blk rd part d name (chain_at rd part d c (Suc k)) ?cb b' 0 = Inr (lookup name ?rest)"
      using True Suc.prems b' unfolding es by (intro Suc.IH) (auto simp: length_cluster_bytes)
    show ?thesis unfolding es scan_lookup [symmetric] scan_append using valid rc de ih
      by (auto simp: NextCluster_eq chain_at_Suc scan_lookup [symmetric] split: option.splits)
  qed
qed

end

section \<open>Descriptors\<close>

definition entry_cluster :: "bytes \<Rightarrow> u32" where
  "entry_cluster e = push_bit 16 (ucast (sfn_cluster_number_high e)) OR ucast (sfn_cluster_number_low e)"

text \<open>A descriptor for the entry, as the driver makes it.\<close>

definition describes :: "'m fat_state \<Rightarrow> u32 \<Rightarrow> u32 \<Rightarrow> bytes \<Rightarrow> bool" where
  "describes s p vol e \<longleftrightarrow> p \<noteq> 0 \<and> (\<exists>fd. files s p = Some fd \<and> seek fd = 0 \<and> volume fd = vol
     \<and> traverse_op fd = Fat32TraverseOp_addr \<and> read_op fd = Fat32ReadOp_addr \<and> write_op fd = FileAccessOpStub_addr
     \<and> (if sfn_attr e AND FAT_ATTR_DIRECTORY \<noteq> 0 then fd_type fd = FD_TYPE_DIRECTORY \<and> file_size fd = 0
        else fd_type fd = FD_TYPE_FILE \<and> file_size fd = ucast (sfn_size e))
     \<and> deref (ffids s) (data fd) = Inr \<lparr>first_cluster = entry_cluster e\<rparr>)"

lemma fat_requests:
  "sizeof_FatFileInternalData \<le> MAX_REQUEST" "sizeof_FatVolumeInternalData \<le> MAX_REQUEST" "sizeof_Volume \<le> MAX_REQUEST" "sizeof_file \<le> MAX_REQUEST"
  by (simp_all add: sizeof_FatFileInternalData_def sizeof_FatVolumeInternalData_def sizeof_Volume_def sizeof_file_def MAX_REQUEST_def)

lemma GenFileDescriptor_describes:
  assumes "fresh_blocks (h_malloc E) 2 (fat_heap s) (dom (files s) \<union> dom (ffids s))"
  shows "\<exists>p s'. GenFileDescriptor E vol e s = Inr (p, s') \<and> describes s' p vol e \<and> p \<notin> dom (files s)
     \<and> files s' |` (- {p}) = files s \<and> ffids s \<subseteq>\<^sub>m ffids s' \<and> vols s' = vols s \<and> fvids s' = fvids s \<and> devs s' = devs s"
proof -
  let ?X = "dom (files s) \<union> dom (ffids s)"
  obtain p h where p: "h_malloc E sizeof_file (fat_heap s) = (p, h)" by (cases "h_malloc E sizeof_file (fat_heap s)")
  obtain q h' where q: "h_malloc E sizeof_FatFileInternalData h = (q, h')" by (cases "h_malloc E sizeof_FatFileInternalData h")
  have "fresh_blocks (h_malloc E) (Suc 1) (fat_heap s) ?X" using assms by (simp add: numeral_2_eq_2)
  note fp = fresh_blocksD [OF this p fat_requests(4)]
  have "fresh_blocks (h_malloc E) (Suc 0) h (insert p ?X)" using fp(3) by simp
  note fq = fresh_blocksD [OF this q fat_requests(1)]
  have "ffids s \<subseteq>\<^sub>m (ffids s)(q \<mapsto> x)" for x using fq(2) by (auto simp: map_le_def)
  moreover have "((files s)(p \<mapsto> x)) |` (- {p}) = files s" for x
    using fp(2) by (auto simp: restrict_map_def fun_eq_iff domIff)
  moreover obtain fd where "GenFileDescriptor E vol e s = Inr (p, s\<lparr>fat_heap := h', files := (files s)(p \<mapsto> fd),
      ffids := (ffids s)(q \<mapsto> \<lparr>first_cluster = entry_cluster e\<rparr>)\<rparr>)"
    and "describes (s\<lparr>fat_heap := h', files := (files s)(p \<mapsto> fd), ffids := (ffids s)(q \<mapsto> \<lparr>first_cluster = entry_cluster e\<rparr>)\<rparr>) p vol e"
    using p q fp(1) fq(1) by (simp add: GenFileDescriptor_def describes_def entry_cluster_def Let_def)
  ultimately show ?thesis using fp(2)
    by (intro exI [of _ p] exI [of _ "s\<lparr>fat_heap := h', files := (files s)(p \<mapsto> fd),
      ffids := (ffids s)(q \<mapsto> \<lparr>first_cluster = entry_cluster e\<rparr>)\<rparr>"]) simp
qed

text \<open>
  C32: in a directory without long-name entries, \<open>Fat32TraverseOp\<close> returns \<open>NULL\<close> and changes nothing
  when no entry in use before the end of the directory has the given name up to case; otherwise it
  returns a new descriptor of the first such entry, at position 0, with the type, size and first cluster
  of the entry. It ends on every chain that ends.
\<close>

theorem Fat32TraverseOp_finds:
  fixes s :: "'m fat_state"
  assumes vol: "fat_volume (scratch E) rd part d"
    and dir: "parent \<noteq> 0" "files s parent = Some f" "fd_type f = FD_TYPE_DIRECTORY" "volume_context s (volume f) = Inr (rd, part, d)"
      "deref (ffids s) (data f) = Inr ff"
    and L: "chain_length rd part d (first_cluster ff) L" "L \<le> fuel" and name: "terminated name"
    and env: "scratch E 256 = Some b" "length b = 256" "fresh_blocks (h_malloc E) 2 (fat_heap s) (dom (files s) \<union> dom (ffids s))"
    and plain: "plain_entries (dir_listing rd part d (first_cluster ff) L)"
  shows "case lookup name (dir_listing rd part d (first_cluster ff) L) of
      None \<Rightarrow> Fat32TraverseOp fuel E parent name s = Inr (0, s)
    | Some e \<Rightarrow> \<exists>p s'. Fat32TraverseOp fuel E parent name s = Inr (p, s') \<and> describes s' p (volume f) e \<and> p \<notin> dom (files s)
        \<and> files s' |` (- {p}) = files s \<and> ffids s \<subseteq>\<^sub>m ffids s' \<and> vols s' = vols s \<and> fvids s' = fvids s \<and> devs s' = devs s"
proof -
  obtain cl where cl: "scratch E (bytes_per_cluster d) = Some cl" "length cl = unat (bytes_per_cluster d)"
    using fat_volume.cluster_block [OF vol] by blast
  have "dir_clusters fuel (scratch E) rd part d name (first_cluster ff) cl b 0 =
      Inr (lookup name (dir_listing rd part d (first_cluster ff) L))"
    using fat_volume.dir_clusters_plain [OF vol L(1), of 0 fuel b name cl] L(2) env(2) name cl(2) plain
    by (simp add: chain_at_def dir_listing_def)
  then show ?thesis using dir cl(1) env(1) GenFileDescriptor_describes [OF env(3), of "volume f"]
    by (simp add: Fat32TraverseOp_def new_block_def split: option.split)
qed

definition demo_fat_env :: "u32 fat_env" where
  "demo_fat_env = \<lparr>h_malloc = bump, h_free = (\<lambda>p h. h), junk_file = demo_file,
     junk_vol = \<lparr>vol_disk = 0, vol_data = 0, vol_partition = 0, vol_root = 0, vol_next = 0\<rparr>, junk_br = replicate 512 0xAA,
     scratch = demo_block\<rparr>"

lemma demo_root_cluster: "cluster_bytes demo_rd 0 demo_vol 2 = demo_entry @ replicate 992 0"
proof -
  have sd: "sector_device demo_block demo_rd 0" using demo_fat_volume by (simp add: fat_volume_def)
  have s: "psector demo_rd 0 (of_nat 2) = Some (demo_entry @ replicate 480 0)" "psector demo_rd 0 (of_nat 3) = Some (replicate 512 0)"
    by (simp_all add: psector_def demo_rd_def partition_table_def le32_def le16_def del: replicate_numeral)
  have "cluster_sector demo_vol 2 = 2" by (simp add: cluster_sector_def demo_vol_def)
  then have "cluster_bytes demo_rd 0 demo_vol 2 = map (pbyte demo_rd 0) [1024..<2048]"
    by (simp add: cluster_bytes_def demo_vol_def del: upt_rec_numeral)
  also have "[1024..<2048] = [1024..<1536] @ [1536..<2048 :: nat]" using upt_add_eq_append [of 1024 1536 512] by simp
  finally have "cluster_bytes demo_rd 0 demo_vol 2 = (demo_entry @ replicate 480 0) @ replicate 512 0"
    using sector_device.sector_pbytes [OF sd s(1)] sector_device.sector_pbytes [OF sd s(2)]
    by (simp del: upt_rec_numeral replicate_numeral)
  then show ?thesis by (simp add: replicate_add [symmetric] del: replicate_numeral)
qed

lemma demo_listing: "dir_listing demo_rd 0 demo_vol 2 1 = demo_entry # replicate 31 (replicate 32 0)"
proof (rule nth_equalityI)
  have e: "dir_listing demo_rd 0 demo_vol 2 1 = map (entry_at (demo_entry @ replicate 992 0)) [0..<32]"
    by (simp add: dir_listing_def chain_at_def cluster_entries_def demo_root_cluster) (simp add: demo_vol_def)
  then show "length (dir_listing demo_rd 0 demo_vol 2 1) = length (demo_entry # replicate 31 (replicate 32 0 :: bytes))"
    by (simp del: upt_rec_numeral replicate_numeral)
  have l: "length demo_entry = 32" by (simp add: demo_entry_def)
  fix i
  assume "i < length (dir_listing demo_rd 0 demo_vol 2 1)"
  then have i: "i < 32" unfolding e by (simp del: upt_rec_numeral)
  show "dir_listing demo_rd 0 demo_vol 2 1 ! i = (demo_entry # replicate 31 (replicate 32 0)) ! i"
  proof (cases i)
    case 0
    then show ?thesis unfolding e using l by (simp add: entry_at_def del: upt_rec_numeral replicate_numeral)
  next
    case (Suc j)
    then have "32 \<le> 992 - 32 * j" "j < 31" using i by simp_all
    then show ?thesis unfolding e using Suc i l
      by (simp add: entry_at_def min_def del: upt_rec_numeral replicate_numeral)
  qed
qed

lemma demo_root_chain: "chain_length demo_rd 0 demo_vol 2 1"
proof -
  have "fat_next demo_rd 0 demo_vol 2 = 0"
    by (simp add: fat_next_def demo_vol_def demo_br_fields demo_psector_1 demo_rd_def le32_def le16_def
        FAT_ENTRY_BAD_SECTOR_def INVALID_CLUSTER_def del: replicate_numeral)
  then show ?thesis by (simp add: chain_length_def chain_at_def INVALID_CLUSTER_def)
qed

theorem Fat32TraverseOp_finds_witness:
  "\<exists>p s'. Fat32TraverseOp 1 demo_fat_env 0x500 (lit ''kernel.elf'') demo_fat = Inr (p, s') \<and> describes s' p 0x100 demo_entry"
proof -
  have f: "(0x500 :: u32) \<noteq> 0" "files demo_fat 0x500 = Some demo_root" "fd_type demo_root = FD_TYPE_DIRECTORY"
    "volume_context demo_fat (volume demo_root) = Inr (demo_rd, 0, demo_vol)" "deref (ffids demo_fat) (data demo_root) = Inr \<lparr>first_cluster = 2\<rparr>"
    by (simp_all add: demo_fat_def demo_root_def demo_file_def volume_context_def)
  have c: "chain_length demo_rd 0 demo_vol (first_cluster \<lparr>first_cluster = 2\<rparr>) 1" using demo_root_chain by simp
  have v: "fat_volume (scratch demo_fat_env) demo_rd 0 demo_vol" using demo_fat_volume by (simp add: demo_fat_env_def)
  have b: "scratch demo_fat_env 256 = Some (replicate 256 0xAA)" "length (replicate 256 (0xAA :: u8)) = 256"
    by (simp_all add: demo_fat_env_def demo_block_def any_block_def map_replicate_const del: upt_rec_numeral replicate_numeral)
  have h: "fresh_blocks (h_malloc demo_fat_env) 2 (fat_heap demo_fat) (dom (files demo_fat) \<union> dom (ffids demo_fat))"
    by (simp add: demo_fat_env_def demo_fat_def fresh_blocks_numeral bump_def)
  have n: "rtrim (sfn_name demo_entry) = map of_char ''KERNEL''" "rtrim (sfn_extension demo_entry) = map of_char ''ELF''"
    "sfn_attr demo_entry = 0x20" "demo_entry ! 0 = 0x4B"
    by (simp_all add: rtrim_def sfn_name_def sfn_extension_def sfn_attr_def demo_entry_def of_char_def)
  have p: "plain_entries (dir_listing demo_rd 0 demo_vol (first_cluster \<lparr>first_cluster = 2\<rparr>) 1)"
  proof -
    have "rtrim (sfn_name (replicate 32 0)) \<noteq> []" "sfn_attr (replicate 32 0) = 0" by (simp_all add: rtrim_def sfn_name_def sfn_attr_def)
    then show ?thesis by (simp add: demo_listing [unfolded One_nat_def] plain_entries_def n FAT_ATTR_LFN_def del: replicate_numeral)
  qed
  have "lookup (lit ''kernel.elf'') (dir_listing demo_rd 0 demo_vol (first_cluster \<lparr>first_cluster = 2\<rparr>) 1) = Some demo_entry"
    by (simp add: demo_listing [unfolded One_nat_def] lookup_def name_matches_def display_name_def n lit_def chars_def of_char_def tolower_def)
  moreover have "volume demo_root = 0x100" by (simp add: demo_root_def demo_file_def)
  ultimately show ?thesis
    using Fat32TraverseOp_finds [OF v f c _ _ b h p, of 1 "lit ''kernel.elf''"] by (auto simp: terminated_def lit_def)
qed

section \<open>Mounting\<close>

definition mountable :: "bytes \<Rightarrow> bool" where
  "mountable b \<longleftrightarrow> boot_signature b = 0xAA55 \<and> fat12_16_signature b \<notin> {0x28, 0x29} \<and> fat32_signature b \<in> {0x28, 0x29}"

text \<open>\<open>v\<close> is a volume whose root directory is open.\<close>

definition mounted :: "'m fat_state \<Rightarrow> u32 \<Rightarrow> bytes \<Rightarrow> bool" where
  "mounted s v b \<longleftrightarrow> (\<exists>vol f. deref (vols s) v = Inr vol \<and> deref (files s) (vol_root vol) = Inr f \<and> fd_type f = FD_TYPE_DIRECTORY
     \<and> volume f = v \<and> deref (ffids s) (data f) = Inr \<lparr>first_cluster = fat32_root_cluster_number b\<rparr>)"

definition fat_geometry :: "bytes \<Rightarrow> FatVolumeInternalData" where
  "fat_geometry b = \<lparr>br = b, fat_type = FAT32,
     first_data_sector = ucast (reserved_sectors b) + ucast (fats b) * fat32_sectors_per_fat b,
     bytes_per_cluster = ucast (bytes_per_sector b) * ucast (sectors_per_cluster b)\<rparr>"

lemma fat_geometry_volume:
  assumes "sector_device blk rd part" and "bytes_per_sector b = 512" and "sectors_per_cluster b \<noteq> 0" and "\<forall>n. rd n \<noteq> None"
    and "\<exists>k. blk (bytes_per_cluster (fat_geometry b)) = Some k \<and> length k = unat (bytes_per_cluster (fat_geometry b))"
  shows "fat_volume blk rd part (fat_geometry b)"
  using assms by (intro fat_volume.intro fat_volume_axioms.intro) (auto simp: fat_geometry_def)

end
