(* ===== verification/Heap_History.thy ===== *)
theory Heap_History
  imports Heap_Correct
begin

text \<open>
  Histories of the kernel heap: any sequence of \<open>malloc\<close>, \<open>calloc\<close>, \<open>realloc\<close>, \<open>free\<close> and writes of the users into
  their own blocks, from the empty heap on. The properties of the heap close the theory.
\<close>

section \<open>The bound on the loops\<close>

text \<open>A result reached within some bound on the loops is the result for every larger bound.\<close>

lemma case_4_fuel: "case_4 n maj mn sz req s = Inr r \<Longrightarrow> n \<le> n' \<Longrightarrow> case_4 n' maj mn sz req s = Inr r"
proof (induction n arbitrary: mn n')
  case (Suc n)
  then obtain k where k: "n' = Suc k" "n \<le> k" by (cases n') auto
  show ?case using Suc.prems(1) Suc.IH [OF _ k(2)] unfolding k(1) by (auto simp: Let_def split: if_splits)
qed simp

lemma cases_2_to_4_fuel: "cases_2_to_4 fuel maj sz req s = Inr r \<Longrightarrow> fuel \<le> fuel' \<Longrightarrow> cases_2_to_4 fuel' maj sz req s = Inr r"
  using case_4_fuel by (auto simp: cases_2_to_4_def Let_def split: if_splits)

lemma search_fuel:
  "search n fuel ops sz req maj bet best s = Inr r \<Longrightarrow> n \<le> n' \<Longrightarrow> fuel \<le> fuel' \<Longrightarrow> search n' fuel' ops sz req maj bet best s = Inr r"
proof (induction n arbitrary: maj bet best s n')
  case (Suc n)
  then obtain k where k: "n' = Suc k" "n \<le> k" by (cases n') auto
  have IH: "search k fuel' ops sz req maj bet best s = Inr r" if "search n fuel ops sz req maj bet best s = Inr r" for maj bet best s
    using that k(2) Suc.prems(3) by (rule Suc.IH)
  have c: "cases_2_to_4 fuel' maj sz req s = Inr x" if "cases_2_to_4 fuel maj sz req s = Inr x" for maj s x
    using that Suc.prems(3) by (rule cases_2_to_4_fuel)
  show ?case using Suc.prems(1) unfolding k(1)
    by (auto simp: Let_def split: if_splits option.splits elim!: rbind_InrE dest!: IH c)
qed simp

lemma malloc_sized_fuel: "malloc_sized fuel ops sz req s = Inr r \<Longrightarrow> fuel \<le> fuel' \<Longrightarrow> malloc_sized fuel' ops sz req s = Inr r"
  unfolding malloc_sized_def Let_def
  by (auto split: if_splits elim!: rbind_InrE dest: search_fuel)

lemma malloc_fuel: "la_malloc fuel ops req s = Inr r \<Longrightarrow> fuel \<le> fuel' \<Longrightarrow> la_malloc fuel' ops req s = Inr r"
  unfolding la_malloc_def Let_def by (simp split: if_splits) (erule (1) malloc_sized_fuel)+

lemma rbind_mono: "rbind x f = Inr r \<Longrightarrow> (\<And>y. x = Inr y \<Longrightarrow> x' = Inr y) \<Longrightarrow> rbind x' f = Inr r"
  by (erule rbind_InrE) simp

lemma calloc_fuel: "la_calloc fuel ops nobj sz s = Inr r \<Longrightarrow> fuel \<le> fuel' \<Longrightarrow> la_calloc fuel' ops nobj sz s = Inr r"
  unfolding la_calloc_def Let_def by (erule rbind_mono) (erule (1) malloc_fuel)

lemma realloc_fuel: "la_realloc fuel ops p sz s = Inr r \<Longrightarrow> fuel \<le> fuel' \<Longrightarrow> la_realloc fuel' ops p sz s = Inr r"
  unfolding la_realloc_def Let_def
  by (simp split: if_split_asm split del: if_split) (erule (1) malloc_fuel | erule rbind_mono)+

lemma fuel_exists: "\<exists>N. fuel \<le> N \<and> enough_fuel N Ms"
proof (intro exI conjI)
  let ?N = "Suc (fuel + 2 * length Ms + sum_list (map (length \<circ> mj_minors) Ms) + 1)"
  show "enough_fuel ?N Ms" unfolding enough_fuel_def using member_le_sum_list [of _ "map (length \<circ> mj_minors) Ms"] by fastforce
  show "fuel \<le> ?N" by simp
qed

section \<open>Histories\<close>

text \<open>
  \<open>heap_run fresh W s B\<close>: the heap \<open>s\<close> is the result of a history after which the users hold the blocks \<open>B\<close>, pairs of
  an address and a length, and \<open>W\<close> is what the rest of the kernel has: its frames and pages at the start of
  the history, and what it has taken and given back since. A call takes part in a history when it
  returns, asks for at most 2^32 - 81 bytes and, where it may need pages, the virtual memory manager has them.
\<close>

inductive heap_run :: "(vmm \<Rightarrow> mem) \<Rightarrow> kernel_rest \<Rightarrow> vmm heap \<Rightarrow> (u32 \<times> u32) set \<Rightarrow> bool" for fresh where
  boot: "heap_run fresh (rest_of (page_state s) {}) s {}"
  if "l_memRoot s = 0" "l_bestBet s = 0" "l_allocated s = 0" "l_inuse s = 0" "heap_pages (page_state s) {}"
| malloc: "heap_run fresh W s' (insert (p, req) B)"
  if "heap_run fresh W s B" "unat req + 80 < 2 ^ 32" "page_room (pages_for (req + 32)) (page_state s)"
    "la_malloc fuel (vmm_pages fresh) req s = Inr (p, s')"
| calloc: "heap_run fresh W s' (insert (p, nobj * sz) B)"
  if "heap_run fresh W s B" "unat (nobj * sz) + 80 < 2 ^ 32" "page_room (pages_for (nobj * sz + 32)) (page_state s)"
    "la_calloc fuel (vmm_pages fresh) nobj sz s = Inr (p, s')"
| realloc: "heap_run fresh W s' (insert (q, sz) (B - {(p, n)}))"
  if "heap_run fresh W s B" "(p, n) \<in> B" "sz \<noteq> 0" "unat sz + 80 < 2 ^ 32" "page_room (pages_for (sz + 32)) (page_state s)"
    "la_realloc fuel (vmm_pages fresh) p sz s = Inr (q, s')"
| free: "heap_run fresh W s' (B - {(p, n)})"
  if "heap_run fresh W s B" "(p, n) \<in> B" "la_free (vmm_pages fresh) p s = Inr s'"
| user_write: "heap_run fresh W (s\<lparr>hmem := m\<rparr>) B"
  if "heap_run fresh W s B" "b \<in> B" "\<And>y. y \<notin> user_bytes b \<Longrightarrow> m y = hmem s y"
| other_pages: "heap_run fresh W' (s\<lparr>page_state := v\<rparr>) B"
  if "heap_run fresh W s B" "\<And>S. owned_pages W (page_state s) S \<Longrightarrow> owned_pages W' v S"

lemma empty_heap_ok:
  assumes "l_memRoot s = 0" "l_bestBet s = 0" "l_allocated s = 0" "l_inuse s = 0" "heap_pages (page_state s) {}"
  shows "kernel_heap_ok s []"
  using assms by (simp add: kernel_heap_ok_def heap_ok_def layout_def content_def)

lemma heap_run_ok: "heap_run fresh W s B \<Longrightarrow> \<exists>Ms. kernel_heap_ok s Ms \<and> live Ms = B \<and> rest_of (page_state s) (areas Ms) = W"
proof (induction rule: heap_run.induct)
  case (boot s)
  then show ?case using empty_heap_ok by (intro exI [of _ "[]"]) (simp add: live_def)
next
  case (malloc W s B req fuel p s')
  obtain Ms where Ms: "kernel_heap_ok s Ms" "live Ms = B" "rest_of (page_state s) (areas Ms) = W" using malloc.IH by blast
  obtain N where N: "fuel \<le> N" "enough_fuel N Ms" using fuel_exists by blast
  show ?case using malloc_correct [OF Ms(1) malloc.hyps(2,3) N(2), of fresh] malloc_fuel [OF malloc.hyps(4) N(1)] Ms(2,3) by auto
next
  case (calloc W s B nobj sz fuel p s')
  obtain Ms where Ms: "kernel_heap_ok s Ms" "live Ms = B" "rest_of (page_state s) (areas Ms) = W" using calloc.IH by blast
  obtain N where N: "fuel \<le> N" "enough_fuel N Ms" using fuel_exists by blast
  show ?case using calloc_correct [OF Ms(1) calloc.hyps(2,3) N(2), of fresh] calloc_fuel [OF calloc.hyps(4) N(1)] Ms(2,3) by auto
next
  case (realloc W s B p n sz fuel q s')
  obtain Ms where Ms: "kernel_heap_ok s Ms" "live Ms = B" "rest_of (page_state s) (areas Ms) = W" using realloc.IH by blast
  obtain N where N: "fuel \<le> N" "enough_fuel N Ms" using fuel_exists by blast
  have p: "(p, n) \<in> live Ms" using realloc.hyps(2) Ms(2) by simp
  note run = realloc_fuel [OF realloc.hyps(6) N(1)]
  show ?case
  proof (cases "sz \<le> n")
    case True
    show ?thesis using realloc_shrinks [OF Ms(1) p realloc.hyps(3) True, of N fresh] run Ms(2,3) by auto
  next
    case False
    then have "n < sz" by simp
    then show ?thesis using realloc_grows [OF Ms(1) p _ realloc.hyps(4,5) N(2), of fresh] run Ms(2,3) by auto
  qed
next
  case (free W s B p n s')
  obtain Ms where Ms: "kernel_heap_ok s Ms" "live Ms = B" "rest_of (page_state s) (areas Ms) = W" using free.IH by blast
  then have p: "(p, n) \<in> live Ms" using free.hyps(2) by simp
  show ?case using free_correct [OF Ms(1) p, of fresh] free.hyps(3) Ms(2,3) by auto
next
  case (user_write W s B b m)
  obtain Ms where Ms: "kernel_heap_ok s Ms" "live Ms = B" "rest_of (page_state s) (areas Ms) = W" using user_write.IH by blast
  then have b: "b \<in> live Ms" using user_write.hyps(2) by simp
  show ?case using user_write_ok [OF Ms(1) b user_write.hyps(3)] Ms(2,3) by (intro exI [of _ Ms]) simp
next
  case (other_pages W s B W' v)
  obtain Ms where Ms: "kernel_heap_ok s Ms" "live Ms = B" "rest_of (page_state s) (areas Ms) = W" using other_pages.IH by blast
  then have "owned_pages W' v (areas Ms)" by (intro other_pages.hyps(2)) (simp add: owned_pages_def kernel_heap_ok_def)
  then show ?case using Ms by (intro exI [of _ Ms]) (simp add: kernel_heap_ok_def heap_ok_def owned_pages_def)
qed

end
