(* ===== verification/Heap_Properties.thy ===== *)
theory Heap_Properties
  imports Heap_History
begin

text \<open>
  The properties of the kernel heap over the virtual memory manager, with a machine that has just booted as
  the example.
\<close>

section \<open>A machine after boot\<close>

definition boot_frames :: Bitmap where
  "boot_frames = \<lparr>bm_words = [0, 0, 0, 0], bm_len = 128, dead_zone = 3, first_free = 3\<rparr>"

definition boot_heap :: "vmm heap" where
  "boot_heap = \<lparr>hmem = (\<lambda>_. 0), l_memRoot = 0, l_bestBet = 0, l_allocated = 0, l_inuse = 0, l_warningCount = 0, l_errorCount = 0,
     l_possibleOverruns = 0, interrupts = True, page_state = demo_vmm\<lparr>frames := boot_frames\<rparr>\<rparr>"

lemma boot_frames_wf: "phys_wf boot_frames"
proof -
  have "bm_wf boot_frames" by code_simp
  then show ?thesis by (simp add: phys_wf_def PHYS_BITMAP_LEN_def lo_ix_def hi_ix_def boot_frames_def)
qed

lemma kmap_boot: "kmap (page_state boot_heap) p = zero_pte"
  using kmap_demo [of p] by (simp add: boot_heap_def kmap_def kernel_pte_def)

lemma boot_heap_ok: "kernel_heap_ok boot_heap []"
proof (rule empty_heap_ok)
  show "heap_pages (page_state boot_heap) {}"
    using boot_frames_wf by (simp add: heap_pages_def boot_heap_def demo_vmm_def)
qed (simp_all add: boot_heap_def)

lemma boot_frames_free: "used boot_frames = {}"
proof -
  have "bm_words boot_frames ! i = 0" if "i < 4" for i using that by (simp add: boot_frames_def less_Suc_eq numeral_eq_Suc) auto
  then show ?thesis by (auto simp: used_def bit_at_def lo_ix_def hi_ix_def boot_frames_def)
qed

lemma boot_room: "unat n \<le> 125 \<Longrightarrow> page_room n (page_state boot_heap)"
proof -
  assume n: "unat n \<le> 125"
  have "fresh_frames (page_state boot_heap) = frame_addr ` {3..<128}"
    by (simp add: fresh_frames_def boot_heap_def frames_all_def frames_used_def boot_frames_free) (simp add: lo_ix_def hi_ix_def boot_frames_def)
  moreover have "card (frame_addr ` {3..<128}) = card {3..<128 :: nat}"
    by (rule card_image, rule inj_on_subset [OF frame_addr_inj]) (auto simp: PHYS_BITMAP_LEN_def)
  ultimately have "unat n \<le> card (fresh_frames (page_state boot_heap))" using n by simp
  moreover have "first_page True \<le> 0xC0001" by (simp add: first_page_def KERNEL_STATIC_MEM_START_def)
  moreover have "free_pages (page_state boot_heap) 0xC0001 (unat n)" using n by (simp add: free_pages_def kmap_boot)
  ultimately show ?thesis unfolding page_room_def by blast
qed

lemma boot_malloc_room: "page_room (pages_for (100 + 32)) (page_state boot_heap)"
proof -
  have "pages_for (100 + 32) = 16" by (simp add: pages_for_def)
  then show ?thesis using boot_room [of 16] by simp
qed

lemma boot_fuel: "enough_fuel 2 []"
  by (simp add: enough_fuel_def)

lemma boot_malloc:
  obtains p s Ms where "la_malloc 2 (vmm_pages fresh) 100 boot_heap = Inr (p, s)" "kernel_heap_ok s Ms" "live Ms = {(p, 100)}"
    "rest_of (page_state s) (areas Ms) = rest_of (page_state boot_heap) {}"
  using malloc_correct [OF boot_heap_ok _ boot_malloc_room boot_fuel, of fresh] by (auto simp: live_def)

section \<open>Properties\<close>

text \<open>
  C14: on a well-formed heap with enough pages left, \<open>malloc\<close> of any size up to 2^32 - 81 ends without a fault, keeps the
  heap well-formed and returns a non-NULL address, a multiple of 16, of a block that does not wrap around, has
  no byte in common with any block in use and is now in use as well; the bytes of the other blocks are
  unchanged. The interrupts are on afterwards, whatever they were before.
\<close>

theorem la_malloc_allocates:
  assumes "kernel_heap_ok s Ms" and "unat req + 80 < 2 ^ 32" and "page_room (pages_for (req + 32)) (page_state s)" and "enough_fuel fuel Ms"
  shows "\<exists>p s' Ms'. la_malloc fuel (vmm_pages fresh) req s = Inr (p, s') \<and> kernel_heap_ok s' Ms' \<and> interrupts s'
     \<and> p \<noteq> 0 \<and> unat p mod 16 = 0 \<and> unat p + unat req \<le> 2 ^ 32 \<and> p \<notin> fst ` live Ms \<and> live Ms' = insert (p, req) (live Ms)
     \<and> (\<forall>b \<in> live Ms. user_bytes b \<inter> user_bytes (p, req) = {} \<and> (\<forall>y \<in> user_bytes b. hmem s' y = hmem s y))"
  using malloc_correct [OF assms, of fresh] by (elim exE conjE) (intro exI conjI, assumption+)

theorem la_malloc_allocates_witness:
  "\<exists>p s' Ms'. la_malloc 2 (vmm_pages (\<lambda>_ _. 0)) 100 boot_heap = Inr (p, s') \<and> kernel_heap_ok s' Ms' \<and> p \<noteq> 0 \<and> unat p mod 16 = 0
     \<and> live Ms' = {(p, 100)}"
  using la_malloc_allocates [OF boot_heap_ok _ boot_malloc_room boot_fuel, of "\<lambda>_ _. 0"] by (auto simp: live_def)

text \<open>
  C15: \<open>free\<close> of a block in use ends without a fault, keeps the heap well-formed, takes exactly this block out of use and
  leaves the bytes of the others alone. The pages that stay with the heap are those of the major blocks that
  still have an allocation; the other frames of the heap are no longer in use and their pages are no longer mapped, and the
  frames and pages of the rest of the kernel are as before. So when no block is left, every frame and every page of the
  heap has gone back and the counters are 0. A second \<open>free\<close> of the same address, while its major block
  has another allocation, only counts an error.
\<close>

theorem la_free_releases:
  assumes "kernel_heap_ok s Ms" and "(p, n) \<in> live Ms"
  shows "\<exists>s' Ms'. la_free (vmm_pages fresh) p s = Inr s' \<and> kernel_heap_ok s' Ms' \<and> interrupts s'
     \<and> live Ms' = live Ms - {(p, n)} \<and> p \<notin> fst ` live Ms' \<and> (\<forall>b \<in> live Ms'. \<forall>y \<in> user_bytes b. hmem s' y = hmem s y)
     \<and> areas Ms' = areas_without p Ms \<and> rest_of (page_state s') (areas Ms') = rest_of (page_state s) (areas Ms)
     \<and> (\<forall>q \<in> page_no ` (areas Ms - areas Ms'). \<not> present (kmap (page_state s') q))
     \<and> card (frames_used (frames (page_state s))) = card (frames_used (frames (page_state s'))) + card (page_no ` (areas Ms - areas Ms'))
     \<and> (live Ms' = {} \<longrightarrow> Ms' = [] \<and> l_memRoot s' = 0 \<and> l_allocated s' = 0 \<and> l_inuse s' = 0
          \<and> frames_used (frames (page_state s')) = frames_used (frames (page_state s)) - heap_frames (page_state s) (areas Ms)
          \<and> (\<forall>q \<in> page_no ` areas Ms. \<not> present (kmap (page_state s') q)))
     \<and> (\<forall>q. q \<noteq> p \<and> share_block Ms p q \<longrightarrow> (\<exists>s''. la_free (vmm_pages fresh) p s' = Inr s'' \<and> hmem s'' = hmem s' \<and> page_state s'' = page_state s'
          \<and> l_memRoot s'' = l_memRoot s' \<and> l_allocated s'' = l_allocated s' \<and> l_inuse s'' = l_inuse s' \<and> l_errorCount s'' = l_errorCount s' + 1))"
proof -
  obtain s' Ms' where r: "la_free (vmm_pages fresh) p s = Inr s'" "kernel_heap_ok s' Ms'" "interrupts s'"
    "live Ms' = live Ms - {(p, n)}" "p \<notin> fst ` live Ms'" "\<forall>b \<in> live Ms'. \<forall>y \<in> user_bytes b. hmem s' y = hmem s y"
    "live Ms' = {} \<longrightarrow> Ms' = [] \<and> l_memRoot s' = 0 \<and> l_allocated s' = 0 \<and> l_inuse s' = 0"
    "areas Ms' = areas_without p Ms" "rest_of (page_state s') (areas Ms') = rest_of (page_state s) (areas Ms)"
    using free_correct [OF assms, of fresh] by (elim exE conjE) (rule that)
  have hp: "heap_pages (page_state s) (areas Ms)" "heap_pages (page_state s') (areas Ms')" using assms(1) r(2) by (simp_all add: kernel_heap_ok_def)
  have sub: "areas Ms' \<subseteq> areas Ms" unfolding r(8) areas_without_def by (auto simp: areas_def)
  note g = pages_given_back [OF hp r(9) sub]
  have e: "frames_used (frames (page_state s')) = frames_used (frames (page_state s)) - heap_frames (page_state s) (areas Ms)
      \<and> (\<forall>q \<in> page_no ` areas Ms. \<not> present (kmap (page_state s') q))" if "live Ms' = {}"
    using g(1) r(7,9) that by (auto simp: rest_of_def heap_frames_def)
  have again: "\<exists>s''. la_free (vmm_pages fresh) p s' = Inr s'' \<and> hmem s'' = hmem s' \<and> page_state s'' = page_state s'
      \<and> l_memRoot s'' = l_memRoot s' \<and> l_allocated s'' = l_allocated s' \<and> l_inuse s'' = l_inuse s' \<and> l_errorCount s'' = l_errorCount s' + 1"
    if "q \<noteq> p \<and> share_block Ms p q" for q
    using double_free [OF assms(1) _ _ r(1), of q] that free_refused [of p s' "vmm_pages fresh"] by (auto simp: LIBALLOC_DEAD_def LIBALLOC_MAGIC_def)
  show ?thesis
    by (rule exI [of _ s'], rule exI [of _ Ms'], intro conjI r(1-6,8,9) g allI impI)
      (use r(7) e in blast, use r(7) in blast, use r(7) in blast, use r(7) in blast, use e in blast, use e in blast, rule again)
qed

theorem la_free_releases_witness:
  "\<exists>p s1 s2. la_malloc 2 (vmm_pages (\<lambda>_ _. 0)) 100 boot_heap = Inr (p, s1) \<and> la_free (vmm_pages (\<lambda>_ _. 0)) p s1 = Inr s2
     \<and> l_memRoot s2 = 0 \<and> l_allocated s2 = 0 \<and> frames_used (frames (page_state s2)) = {}"
proof -
  obtain p s Ms where 1: "la_malloc 2 (vmm_pages (\<lambda>_ _. 0)) 100 boot_heap = Inr (p, s)" "kernel_heap_ok s Ms" "live Ms = {(p, 100)}"
    "rest_of (page_state s) (areas Ms) = rest_of (page_state boot_heap) {}"
    by (rule boot_malloc)
  have "(p, 100) \<in> live Ms" using 1(3) by simp
  moreover have "frames_used (frames (page_state s)) - heap_frames (page_state s) (areas Ms) = {}"
    using 1(4) boot_frames_free by (simp add: rest_of_def frames_used_def boot_heap_def)
  ultimately show ?thesis using la_free_releases [OF 1(2), of p 100 "\<lambda>_ _. 0"] 1(1,3) by auto
qed

text \<open>
  C16: \<open>realloc\<close> of a block in use to a size other than 0 keeps the heap well-formed and the contents: the first bytes of
  the new block, up to the smaller of the two sizes, are those of the old one. A smaller or equal
  size keeps the address; otherwise the old block is no longer in use and the new address is none of those
  in use before. The bytes of the other blocks are unchanged.
\<close>

theorem la_realloc_keeps_contents:
  assumes "kernel_heap_ok s Ms" and "(p, n) \<in> live Ms" and "sz \<noteq> 0" and "unat sz + 80 < 2 ^ 32"
    and "n < sz \<Longrightarrow> page_room (pages_for (sz + 32)) (page_state s)" and "enough_fuel fuel Ms"
  shows "\<exists>q s' Ms'. la_realloc fuel (vmm_pages fresh) p sz s = Inr (q, s') \<and> kernel_heap_ok s' Ms' \<and> interrupts s'
     \<and> live Ms' = insert (q, sz) (live Ms - {(p, n)}) \<and> (if sz \<le> n then q = p else q \<notin> fst ` live Ms)
     \<and> (\<forall>i < min (unat n) (unat sz). hmem s' (q + of_nat i) = hmem s (p + of_nat i))
     \<and> (\<forall>b \<in> live Ms - {(p, n)}. \<forall>y \<in> user_bytes b. hmem s' y = hmem s y)"
proof (cases "sz \<le> n")
  case True
  obtain s' Ms' where r: "la_realloc fuel (vmm_pages fresh) p sz s = Inr (p, s')" "kernel_heap_ok s' Ms'" "interrupts s'"
    "live Ms' = insert (p, sz) (live Ms - {(p, n)})" "\<forall>b \<in> live Ms. \<forall>y \<in> user_bytes b. hmem s' y = hmem s y"
    using realloc_shrinks [OF assms(1-3) True, of fuel fresh] by (elim exE conjE) (rule that)
  have "hmem s' (p + of_nat i) = hmem s (p + of_nat i)" if "i < unat n" for i
    using r(5) assms(2) user_bytes_index [OF that live_bound(1)] assms(1,2) unfolding kernel_heap_ok_def by blast
  then show ?thesis using r True by (intro exI [of _ p] exI [of _ s'] exI [of _ Ms'] conjI) auto
next
  case False
  then have lt: "n < sz" by simp
  obtain q s' Ms' where r: "la_realloc fuel (vmm_pages fresh) p sz s = Inr (q, s')" "kernel_heap_ok s' Ms'" "interrupts s'"
    "q \<notin> fst ` live Ms" "live Ms' = insert (q, sz) (live Ms - {(p, n)})" "\<forall>i < unat n. hmem s' (q + of_nat i) = hmem s (p + of_nat i)"
    "\<forall>b \<in> live Ms - {(p, n)}. \<forall>y \<in> user_bytes b. hmem s' y = hmem s y"
    using realloc_grows [OF assms(1,2) lt assms(4) assms(5) [OF lt] assms(6), of fresh] by (elim exE conjE) (rule that)
  then show ?thesis using False by (intro exI [of _ q] exI [of _ s'] exI [of _ Ms'] conjI) auto
qed

theorem la_realloc_keeps_contents_witness:
  "\<exists>p s1 fuel s2. la_malloc 2 (vmm_pages (\<lambda>_ _. 0)) 100 boot_heap = Inr (p, s1) \<and> la_realloc fuel (vmm_pages (\<lambda>_ _. 0)) p 60 s1 = Inr (p, s2)
     \<and> (\<forall>i < 60. hmem s2 (p + of_nat i) = hmem s1 (p + of_nat i))"
proof -
  obtain p s Ms where 1: "la_malloc 2 (vmm_pages (\<lambda>_ _. 0)) 100 boot_heap = Inr (p, s)" "kernel_heap_ok s Ms" "live Ms = {(p, 100)}"
    by (rule boot_malloc)
  obtain fuel where f: "enough_fuel fuel Ms" using fuel_exists by blast
  have "(p, 100) \<in> live Ms" using 1(3) by simp
  then show ?thesis using la_realloc_keeps_contents [OF 1(2) _ _ _ _ f, of p 100 60 "\<lambda>_ _. 0"] 1(1) by auto
qed

text \<open>
  \<open>calloc\<close> allocates a block of the product of its arguments, modulo 2^32, and fills it with zeros; the
  other blocks keep their bytes.
\<close>

theorem la_calloc_zeroes:
  assumes "kernel_heap_ok s Ms" and "unat (nobj * sz) + 80 < 2 ^ 32" and "page_room (pages_for (nobj * sz + 32)) (page_state s)"
    and "enough_fuel fuel Ms"
  shows "\<exists>p s' Ms'. la_calloc fuel (vmm_pages fresh) nobj sz s = Inr (p, s') \<and> kernel_heap_ok s' Ms' \<and> p \<notin> fst ` live Ms
     \<and> live Ms' = insert (p, nobj * sz) (live Ms) \<and> (\<forall>i < unat (nobj * sz). hmem s' (p + of_nat i) = 0)
     \<and> (\<forall>b \<in> live Ms. \<forall>y \<in> user_bytes b. hmem s' y = hmem s y)"
  using calloc_correct [OF assms, of fresh] by (elim exE conjE) (intro exI conjI, assumption+)

theorem la_calloc_zeroes_witness:
  "\<exists>p s. la_calloc 2 (vmm_pages (\<lambda>_ _. 0)) 10 10 boot_heap = Inr (p, s) \<and> (\<forall>i < 100. hmem s (p + of_nat i) = 0)"
  using la_calloc_zeroes [OF boot_heap_ok _ _ boot_fuel, of 10 10 "\<lambda>_ _. 0"] boot_malloc_room by auto

text \<open>
  C17: along every history of calls that return, each for at most 2^32 - 81 bytes and with the pages it may need there, and of
  writes of the users into their blocks, the blocks in use have different addresses, all multiples of 16
  other than NULL, and no two have a byte in common; each byte lies on a mapped page whose frame is in use and is none of
  those of the rest of the kernel; each block can be freed without a fault. Without any block in use the heap
  holds no pages: its counters are 0, and the frames in use and the pages mapped are those of the rest of the kernel.
\<close>

theorem heap_history_safe:
  assumes "heap_run fresh W s B"
  shows "(\<forall>p n. (p, n) \<in> B \<longrightarrow> p \<noteq> 0 \<and> unat p mod 16 = 0 \<and> unat p + unat n \<le> 2 ^ 32 \<and> (\<exists>s'. la_free (vmm_pages fresh) p s = Inr s'))
     \<and> (\<forall>b \<in> B. \<forall>c \<in> B. b \<noteq> c \<longrightarrow> fst b \<noteq> fst c \<and> user_bytes b \<inter> user_bytes c = {})
     \<and> (\<forall>b \<in> B. \<forall>y \<in> user_bytes b. let e = kmap (page_state s) (page_no y) in
          present e \<and> mapped_frame e \<in> frames_used (frames (page_state s)) - rest_frames W)
     \<and> (B = {} \<longrightarrow> l_memRoot s = 0 \<and> l_allocated s = 0 \<and> l_inuse s = 0 \<and> frames_used (frames (page_state s)) = rest_frames W
          \<and> (\<forall>q. rest_map W q = (let e = kmap (page_state s) q in if present e then Some e else None)))"
proof -
  obtain Ms where Ms: "kernel_heap_ok s Ms" "live Ms = B" "rest_of (page_state s) (areas Ms) = W" using heap_run_ok [OF assms] by blast
  then have ok: "heap_ok s Ms" "\<forall>M \<in> set Ms. mj_minors M \<noteq> []" "heap_pages (page_state s) (areas Ms)" by (simp_all add: kernel_heap_ok_def)
  have "p \<noteq> 0 \<and> unat p mod 16 = 0 \<and> unat p + unat n \<le> 2 ^ 32 \<and> (\<exists>s'. la_free (vmm_pages fresh) p s = Inr s')" if "(p, n) \<in> B" for p n
  proof -
    have p: "(p, n) \<in> live Ms" using that Ms(2) by simp
    then obtain x where x: "x \<in> set (minors_of Ms)" "p = user_ptr (mn_at x)" by (auto simp: live_def block_of_def)
    then have "unat p mod 16 = 0" using user_ptr_facts(2) [OF roomy_live [OF ok(1)]] by simp
    then show ?thesis using live_bound [OF ok(1) p] free_correct [OF Ms(1) p, of fresh] by blast
  qed
  moreover have "fst b \<noteq> fst c \<and> user_bytes b \<inter> user_bytes c = {}" if "b \<in> B" "c \<in> B" "b \<noteq> c" for b c
    using live_fst [OF ok(1)] that Ms(2) by blast
  moreover have "let e = kmap (page_state s) (page_no y) in present e \<and> mapped_frame e \<in> frames_used (frames (page_state s)) - rest_frames W"
    if "b \<in> B" "y \<in> user_bytes b" for b y
  proof -
    have "y \<in> areas Ms" using live_in_areas [OF ok(1), of b] that Ms(2) by blast
    then show ?thesis using owned_byte [OF ok(3)] Ms(3) unfolding Let_def by blast
  qed
  moreover have "l_memRoot s = 0 \<and> l_allocated s = 0 \<and> l_inuse s = 0 \<and> frames_used (frames (page_state s)) = rest_frames W
      \<and> (\<forall>q. rest_map W q = (let e = kmap (page_state s) q in if present e then Some e else None))" if "B = {}"
  proof -
    have "Ms = []" using that Ms(2) ok(2) by (cases Ms) (auto simp: live_def)
    then show ?thesis using ok(1) Ms(3) by (auto simp: heap_ok_def rest_of_def heap_frames_def Let_def)
  qed
  ultimately show ?thesis by blast
qed

theorem heap_history_safe_witness:
  "\<exists>p s s'. la_malloc 2 (vmm_pages (\<lambda>_ _. 0)) 100 boot_heap = Inr (p, s) \<and> heap_run (\<lambda>_ _. 0) (rest_of (page_state boot_heap) {}) s {(p, 100)}
     \<and> p \<noteq> 0 \<and> unat p mod 16 = 0 \<and> la_free (vmm_pages (\<lambda>_ _. 0)) p s = Inr s' \<and> frames_used (frames (page_state s')) = {}"
proof -
  let ?W = "rest_of (page_state boot_heap) {}"
  obtain p s Ms where 1: "la_malloc 2 (vmm_pages (\<lambda>_ _. 0)) 100 boot_heap = Inr (p, s)" "kernel_heap_ok s Ms" "live Ms = {(p, 100)}"
    by (rule boot_malloc)
  have "heap_run (\<lambda>_ _. 0) ?W boot_heap {}"
    using boot_heap_ok by (intro heap_run.boot) (simp_all add: kernel_heap_ok_def heap_ok_def boot_heap_def)
  then have run: "heap_run (\<lambda>_ _. 0) ?W s {(p, 100)}"
    using heap_run.malloc [OF _ _ boot_malloc_room 1(1)] by simp
  obtain s' where s': "p \<noteq> 0" "unat p mod 16 = 0" "la_free (vmm_pages (\<lambda>_ _. 0)) p s = Inr s'"
    using conjunct1 [OF heap_history_safe [OF run], rule_format, of p 100] by auto
  have "heap_run (\<lambda>_ _. 0) ?W s' ({(p, 100)} - {(p, 100)})" by (rule heap_run.free [OF run _ s'(3)]) simp
  then have "heap_run (\<lambda>_ _. 0) ?W s' {}" by simp
  then have "frames_used (frames (page_state s')) = rest_frames ?W" using heap_history_safe [of _ ?W s' "{}"] by blast
  also have "\<dots> = {}" using boot_frames_free by (simp add: rest_of_def frames_used_def boot_heap_def)
  finally have "frames_used (frames (page_state s')) = {}" .
  then show ?thesis using 1(1) run s' by (intro exI conjI)
qed

text \<open>
  C18: \<open>malloc\<close>, \<open>calloc\<close> and \<open>realloc\<close> end on a well-formed heap: from some bound on the loops on, the
  result is a proper one and is the same for every bound.
\<close>

theorem heap_calls_end:
  assumes "kernel_heap_ok s Ms" and "unat req + 80 < 2 ^ 32" and "page_room (pages_for (req + 32)) (page_state s)"
  shows "(\<exists>N r. \<forall>fuel \<ge> N. la_malloc fuel (vmm_pages fresh) req s = Inr r)
     \<and> (nobj * sz = req \<longrightarrow> (\<exists>N r. \<forall>fuel \<ge> N. la_calloc fuel (vmm_pages fresh) nobj sz s = Inr r))
     \<and> ((p, n) \<in> live Ms \<longrightarrow> (\<exists>N r. \<forall>fuel \<ge> N. la_realloc fuel (vmm_pages fresh) p req s = Inr r))"
proof -
  obtain N where N: "enough_fuel N Ms" using fuel_exists by blast
  have "\<exists>r. la_malloc N (vmm_pages fresh) req s = Inr r" using malloc_correct [OF assms N, of fresh] by blast
  then have "\<exists>N r. \<forall>fuel \<ge> N. la_malloc fuel (vmm_pages fresh) req s = Inr r" using malloc_fuel by blast
  moreover have "\<exists>N r. \<forall>fuel \<ge> N. la_calloc fuel (vmm_pages fresh) nobj sz s = Inr r" if "nobj * sz = req"
  proof -
    have "\<exists>r. la_calloc N (vmm_pages fresh) nobj sz s = Inr r"
      using calloc_correct [OF assms(1) _ _ N, of nobj sz fresh] assms(2,3) that by blast
    then show ?thesis using calloc_fuel by blast
  qed
  moreover have "\<exists>N r. \<forall>fuel \<ge> N. la_realloc fuel (vmm_pages fresh) p req s = Inr r" if p: "(p, n) \<in> live Ms"
  proof -
    consider "req = 0" | "req \<noteq> 0" "req \<le> n" | "n < req" by force
    then have "\<exists>r. la_realloc N (vmm_pages fresh) p req s = Inr r"
    proof cases
      case 1
      then show ?thesis using free_correct [OF assms(1) p, of fresh] by (auto simp: la_realloc_def)
    next
      case 2
      then show ?thesis using realloc_shrinks [OF assms(1) p, of req N fresh] by blast
    next
      case 3
      then show ?thesis using realloc_grows [OF assms(1) p _ assms(2,3) N, of fresh] by blast
    qed
    then show ?thesis using realloc_fuel by blast
  qed
  ultimately show ?thesis by blast
qed

theorem heap_calls_end_witness:
  "\<exists>N r. \<forall>fuel \<ge> N. la_malloc fuel (vmm_pages (\<lambda>_ _. 0)) 100 boot_heap = Inr r"
  using heap_calls_end [OF boot_heap_ok _ boot_malloc_room, of "\<lambda>_ _. 0"] by simp

text \<open>C20: the copy loop of the heap does what \<open>memcpy\<close> of the library does, for every overlap and length.\<close>

theorem liballoc_memcpy_is_memcpy: "liballoc_memcpy m s1 s2 n = fst (memcpy m s1 s2 n)"
  by (rule liballoc_memcpy_eq)

text \<open>The first allocation of a heap, whatever the request behind the size.\<close>

lemma first_allocation:
  assumes ok: "kernel_heap_ok s []" and room: "page_room 16 (page_state s)" and sz: "unat sz < 64"
  shows "\<exists>p s'. malloc_sized (Suc fuel) (vmm_pages fresh) sz req s = Inr (p, s') \<and> p \<noteq> 0 \<and> l_allocated s' = 0x10000"
proof -
  have h: "l_memRoot s = 0" "l_bestBet s = 0" "l_allocated s = 0" "heap_pages (page_state s) {}"
    using ok by (simp_all add: kernel_heap_ok_def heap_ok_def)
  obtain b m v where b: "page_alloc (vmm_pages fresh) 16 (hmem s) (page_state s) = Inr (b, m, v)" "b \<noteq> 0" "unat b + 65536 \<le> 2 ^ 32"
    using alloc_heap_pages [OF h(4) _ room, of fresh "hmem s"] by auto
  have u: "unat (sz + 48) = unat sz + 48" "unat (sz + 24) = unat sz + 24" using sz unat_plus_no_wrap [of sz 48] unat_plus_no_wrap [of sz 24] by simp_all
  have "(sz + 48) mod 4096 = sz + 48" "(sz + 48) div 4096 = 0" using u(1) sz by (simp_all add: word_unat_eq_iff unat_mod unat_div)
  moreover have "sz + 48 \<noteq> 0" using u(1) by (metis add_is_0 unat_0 zero_neq_numeral)
  ultimately have pf: "pages_for sz = 16" by (simp add: pages_for_def)
  have u24: "unat (b + 24) = unat b + 24" using b(3) unat_plus_no_wrap [of b 24] by simp
  have fit: "fits b" using b(3) by (simp add: fits_def)
  have sep: "separated (insert b {})" and sep2: "separated (insert (b + 24) {b})"
    using b(3) u24 by (auto simp: separated_def fits_def apart_def hdr_def bytes_at_def)
  let ?m = "fresh_major b 16 m"
  let ?t = "s\<lparr>hmem := ?m, page_state := v, l_allocated := 0x10000, l_memRoot := b\<rparr>"
  let ?s = "?t\<lparr>l_bestBet := b\<rparr>"
  have g: "get ?m b Size = 0x10000" "get ?m b Usage = 24" "get ?m b First = 0" using get_fresh_major(1) [OF sep] by simp_all
  have "b + 24 \<notin> {b}" by simp
  then obtain m' where c: "case_2 b sz req ?s = deliver (b + 24) sz m' ?s"
    using case_2_linked [OF sep2, of b sz req ?s] b(2) by auto
  have "malloc_sized (Suc fuel) (vmm_pages fresh) sz req s = search (Suc fuel) (Suc fuel) (vmm_pages fresh) sz req b False 0 ?t"
    using allocate_new_page_eq [of "vmm_pages fresh" sz s b m v] b(1,2) fit h(1,2,3) unfolding pf
    by (simp add: malloc_sized_def del: search.simps)
  also have "\<dots> = Inr (case_2 b sz req ?s)"
    using b(2) g u(2) sz by (simp add: cases_2_to_4_def word_less_nat_alt)
  finally have "malloc_sized (Suc fuel) (vmm_pages fresh) sz req s = Inr (deliver (b + 24) sz m' ?s)" unfolding c .
  moreover have "user_ptr (b + 24) \<noteq> 0"
  proof -
    obtain k where "unat (user_ptr (b + 24)) = unat (b + 24) + 24 + k" using user_ptr_bounds [of "b + 24"] u24 b(3) by auto
    then show ?thesis using u24 by (metis add_is_0 unat_0 zero_neq_numeral)
  qed
  ultimately show ?thesis unfolding deliver_def ALIGN_user_ptr Let_def prod.case by (simp add: liballoc_unlock_def del: fun_upd_apply)
qed

text \<open>
  C21: a request of 2^32 - 32 bytes or more is not refused. The size with the alignment bytes wraps around, and on an
  empty heap \<open>malloc\<close> returns a block of 64 KiB as if the memory had been there.
\<close>

theorem la_malloc_wraps:
  assumes "kernel_heap_ok s []" and "2 ^ 32 - 32 \<le> unat req" and "page_room 16 (page_state s)"
  shows "\<exists>p s'. la_malloc (Suc fuel) (vmm_pages fresh) req s = Inr (p, s') \<and> p \<noteq> 0 \<and> l_allocated s' = 0x10000"
proof -
  have "unat (req + 32) = unat req + 32 - 2 ^ 32" using assms(2) unat_u32_less [of req] by (simp add: unat_add_lem unat_word_ariths mod_if)
  then have sz: "unat (req + 32) < 64" using unat_u32_less [of req] by simp
  let ?w = "liballoc_lock (liballoc_unlock (liballoc_lock s\<lparr>l_warningCount := l_warningCount (liballoc_lock s) + 1\<rparr>))"
  have "kernel_heap_ok (liballoc_lock s) []" "kernel_heap_ok ?w []" "page_room 16 (page_state (liballoc_lock s))" "page_room 16 (page_state ?w)"
    using assms(1,3) by (simp_all add: kernel_heap_ok_def heap_ok_def liballoc_lock_def liballoc_unlock_def)
  then have "\<exists>p s'. malloc_sized (Suc fuel) (vmm_pages fresh) (req + 32) req (liballoc_lock s) = Inr (p, s') \<and> p \<noteq> 0 \<and> l_allocated s' = 0x10000"
    and "\<exists>p s'. malloc_sized (Suc fuel) (vmm_pages fresh) 33 1 ?w = Inr (p, s') \<and> p \<noteq> 0 \<and> l_allocated s' = 0x10000"
    using sz by (simp_all add: first_allocation)
  moreover have "la_malloc (Suc fuel) (vmm_pages fresh) req s = (if req + 32 = 0 then malloc_sized (Suc fuel) (vmm_pages fresh) 33 1 ?w
      else malloc_sized (Suc fuel) (vmm_pages fresh) (req + 32) req (liballoc_lock s))"
    by (simp add: la_malloc_def Let_def ALIGNMENT_def ALIGN_INFO_def)
  ultimately show ?thesis by (cases "req + 32 = 0") (simp_all only: if_True if_False simp_thms)
qed

theorem la_malloc_wraps_witness:
  "\<exists>p s. la_malloc 1 (vmm_pages (\<lambda>_ _. 0)) 0xFFFFFFFF boot_heap = Inr (p, s) \<and> p \<noteq> 0 \<and> l_allocated s = 0x10000"
  using la_malloc_wraps [OF boot_heap_ok, of "0xFFFFFFFF" 0 "\<lambda>_ _. 0"] boot_room [of 16] by simp

end
