(* ===== verification/Fat_Mounting.thy ===== *)
theory Fat_Mounting
  imports Fat_Traversal Heap_Clients Heap_Properties
begin

text \<open>
  Mounting a FAT32 volume, over any heap that keeps the contract \<open>block_heap\<close>, with the kernel heap after boot as the
  example: what is allocated stays with a mounted volume and goes back when the partition is refused.
\<close>

lemma Fat32MountVolume_mounts:
  assumes p: "h_malloc E sizeof_file (fat_heap s) = (p, h)" "p \<noteq> 0" and q: "h_malloc E sizeof_FatFileInternalData h = (q, h')" "q \<noteq> 0"
    and v: "v \<noteq> 0" "vols s v = Some vol"
    and d: "vol_data vol \<noteq> 0" "fvids s (vol_data vol) = Some dd" "br dd = b" "fat_type dd = FAT32"
    and dev: "deref (devs s) (vol_disk vol) = Inr rd"
  shows "\<exists>s'. Fat32MountVolume E v s = Inr (v, s') \<and> volume_context s' v = Inr (rd, vol_partition vol, fat_geometry b) \<and> mounted s' v b
     \<and> fat_heap s' = h'"
proof -
  have "dd\<lparr>first_data_sector := ucast (reserved_sectors b) + ucast (fats b) * fat32_sectors_per_fat b,
      bytes_per_cluster := ucast (bytes_per_sector b) * ucast (sectors_per_cluster b)\<rparr> = fat_geometry b"
    using d(3,4) by (simp add: fat_geometry_def)
  then show ?thesis using p q v d dev
    by (simp add: Fat32MountVolume_def volume_context_def mounted_def Let_def)
qed

text \<open>
  C33: \<open>FatMountVolume\<close> mounts a partition exactly when its first sector has the boot signature and the
  FAT32 signature and the byte where FAT12 and FAT16 have theirs is neither 0x28 nor 0x29 (on FAT32 it is the third byte of
  the number of sectors per FAT). Then the volume has the geometry of the boot record and an open root
  directory at the root cluster, it holds four new blocks of the heap, the volume's own among them, and with
  sectors of 512 bytes it is a volume as the read operations expect it. Otherwise the result is \<open>NULL\<close> and
  everything is as before: every block that was allocated has been freed, so the blocks of
  the heap in use are those from before the call (the buffers of sectors are not objects of this heap, see \<open>scratch\<close>). The heap is any that keeps the contract of \<open>malloc\<close> and \<open>free\<close>.
\<close>

theorem FatMountVolume_mounts:
  fixes s :: "'m fat_state"
  assumes sd: "sector_device (scratch E) rd part" and boot: "psector rd part 0 = Some b" and dev: "deref (devs s) disk = Inr rd"
    and jb: "length (junk_br E) = 512" and heap: "block_heap (h_malloc E) (h_free E) serves" and room: "serves (n + 4) (fat_heap s) L"
  shows "if mountable b then
      \<exists>v s'. FatMountVolume E disk part s = Inr (v, s') \<and> v \<noteq> 0 \<and> volume_context s' v = Inr (rd, part, fat_geometry b) \<and> mounted s' v b
        \<and> (\<exists>N. card N = 4 \<and> v \<in> N \<and> N \<inter> L = {} \<and> serves n (fat_heap s') (N \<union> L))
        \<and> (bytes_per_sector b = 512 \<and> sectors_per_cluster b \<noteq> 0 \<and> (\<forall>n. rd n \<noteq> None)
            \<and> (\<exists>k. scratch E (bytes_per_cluster (fat_geometry b)) = Some k \<and> length k = unat (bytes_per_cluster (fat_geometry b)))
           \<longrightarrow> fat_volume (scratch E) rd part (fat_geometry b))
    else \<exists>h m. FatMountVolume E disk part s = Inr (0, s\<lparr>fat_heap := h\<rparr>) \<and> n + 2 \<le> m \<and> serves m h L"
proof -
  note serves_malloc = block_heap.serves_malloc [OF heap] and free_new = block_heap.serves_free_new [OF heap]
  have "length b = 512" using sector_device.psector_length [OF sd boot] .
  then have rd: "PartitionReadSector (scratch E) rd part 0 (junk_br E) 0 = Inr (True, b)"
    using sector_device.PartitionReadSector_eq [OF sd, of 0 "junk_br E" 0] boot jb by simp
  have "serves (Suc (n + 3)) (fat_heap s) L" using room by (simp add: numeral_eq_Suc)
  then obtain p h1 where p: "h_malloc E sizeof_FatVolumeInternalData (fat_heap s) = (p, h1)" "p \<noteq> 0" "p \<notin> L" "serves (n + 3) h1 (insert p L)"
    using fat_requests(2) by (rule serves_malloc)
  then have "serves (Suc (n + 2)) h1 (insert p L)" by (simp add: numeral_eq_Suc)
  then obtain v h2 where v: "h_malloc E sizeof_Volume h1 = (v, h2)" "v \<noteq> 0" "v \<notin> insert p L" "serves (n + 2) h2 (insert v (insert p L))"
    using fat_requests(3) by (rule serves_malloc)
  show ?thesis
  proof (cases "mountable b")
    case False
    have 1: "serves (n + 3) (h_free E p h1) L" using p(4,3) by (rule free_new)
    have "serves (n + 2) (h_free E p h2) (insert v L)" using free_new [of "n + 2" h2 p "insert v L"] v(3,4) p(3) by (auto simp: insert_commute)
    then have 2: "serves (n + 2) (h_free E v (h_free E p h2)) L" by (rule free_new) (use v(3) in simp)
    show ?thesis
    proof (cases "boot_signature b = 0xAA55")
      case True
      then have "FatMountVolume E disk part s = Inr (0, s\<lparr>fat_heap := h_free E v (h_free E p h2)\<rparr>)"
        using False p(1,2) v(1,2) rd dev by (auto simp: FatMountVolume_def mountable_def)
      then show ?thesis using False 2 by auto
    next
      case no: False
      then have "FatMountVolume E disk part s = Inr (0, s\<lparr>fat_heap := h_free E p h1\<rparr>)"
        using p(1,2) rd dev by (auto simp: FatMountVolume_def)
      then show ?thesis using False 1 by (auto intro!: exI [of _ "n + 3"])
    qed
  next
    case True
    have "serves (Suc (n + 1)) h2 (insert v (insert p L))" using v(4) by simp
    then obtain f h3 where f: "h_malloc E sizeof_file h2 = (f, h3)" "f \<noteq> 0" "f \<notin> insert v (insert p L)" "serves (n + 1) h3 (insert f (insert v (insert p L)))"
      using fat_requests(4) by (rule serves_malloc)
    then have "serves (Suc n) h3 (insert f (insert v (insert p L)))" by simp
    then obtain q h4 where q: "h_malloc E sizeof_FatFileInternalData h3 = (q, h4)" "q \<noteq> 0" "q \<notin> insert f (insert v (insert p L))"
        "serves n h4 (insert q (insert f (insert v (insert p L))))"
      using fat_requests(1) by (rule serves_malloc)
    let ?s = "s\<lparr>fat_heap := h2,
       fvids := (fvids s)(p \<mapsto> \<lparr>br = b, fat_type = FAT32, first_data_sector = 0, bytes_per_cluster = 0\<rparr>),
       vols := (vols s)(v \<mapsto> (junk_vol E)\<lparr>vol_disk := disk, vol_data := p, vol_partition := part\<rparr>)\<rparr>"
    have m: "FatMountVolume E disk part s = Fat32MountVolume E v ?s"
      using True p(1,2) v(1,2) rd dev by (auto simp: FatMountVolume_def mountable_def)
    have "\<exists>s'. Fat32MountVolume E v ?s = Inr (v, s') \<and> volume_context s' v = Inr (rd, part, fat_geometry b) \<and> mounted s' v b \<and> fat_heap s' = h4"
      using Fat32MountVolume_mounts [of E ?s f h3 q h4 v "(junk_vol E)\<lparr>vol_disk := disk, vol_data := p, vol_partition := part\<rparr>"
          "\<lparr>br = b, fat_type = FAT32, first_data_sector = 0, bytes_per_cluster = 0\<rparr>" b rd] p(2) v(2) f(1,2) q(1,2) dev by simp
    then obtain s' where s': "Fat32MountVolume E v ?s = Inr (v, s')" "volume_context s' v = Inr (rd, part, fat_geometry b)" "mounted s' v b" "fat_heap s' = h4"
      by blast
    have "card {q, f, v, p} = 4 \<and> v \<in> {q, f, v, p} \<and> {q, f, v, p} \<inter> L = {} \<and> serves n (fat_heap s') ({q, f, v, p} \<union> L)"
      using p(3) v(3) f(3) q(3,4) s'(4) by simp
    then show ?thesis using True m s'(1-3) v(2) fat_geometry_volume [OF sd] by auto
  qed
qed

text \<open>A disk whose first partition starts at sector 1, with the boot record there, and one with an empty partition; the heap of the kernel after boot.\<close>

definition demo_mount_rd :: device where
  "demo_mount_rd n = Some (if n = 0 then (replicate 512 0)[454 := 1] else if n = 1 then demo_br else replicate 512 0)"

definition demo_empty_rd :: device where
  "demo_empty_rd n = Some (if n = 0 then (replicate 512 0)[454 := 1] else replicate 512 0)"

definition mount_env :: "vmm heap fat_env" where
  "mount_env = \<lparr>h_malloc = kernel_malloc 10 (\<lambda>_ _. 0), h_free = kernel_free (\<lambda>_ _. 0), junk_file = junk_file demo_fat_env,
     junk_vol = junk_vol demo_fat_env, junk_br = junk_br demo_fat_env, scratch = scratch demo_fat_env\<rparr>"

definition mount_state :: "device \<Rightarrow> vmm heap fat_state" where
  "mount_state rd = \<lparr>devs = [0x10 \<mapsto> rd], vols = Map.empty, fvids = Map.empty, ffids = Map.empty, files = Map.empty, fat_heap = boot_heap\<rparr>"

lemma mount_heap: "block_heap (h_malloc mount_env) (h_free mount_env) (kernel_serves 10)"
  using kernel_blocks.block_heap_axioms by (simp add: mount_env_def)

lemma mount_room: "kernel_serves 10 (0 + 4) (fat_heap (mount_state rd)) {}"
proof -
  have "pages_left 64 (page_state boot_heap)" using boot_room [of 64] by (simp add: page_room_left)
  then show ?thesis unfolding kernel_serves_def using boot_heap_ok
    by (intro exI [of _ "[]"]) (simp add: mount_state_def fuel_for_def live_def)
qed

lemma mount_devices:
  "sector_device (scratch mount_env) demo_mount_rd 0" "sector_device (scratch mount_env) demo_empty_rd 0" "length (junk_br mount_env) = 512"
proof -
  have "length (replicate 512 0 :: bytes) = 512" "length demo_br = 512" by (rule length_replicate) (simp add: demo_br_def del: replicate_numeral)
  then show "sector_device (scratch mount_env) demo_mount_rd 0" "sector_device (scratch mount_env) demo_empty_rd 0" "length (junk_br mount_env) = 512"
    using demo_block_sector
    by (unfold_locales, auto simp: demo_mount_rd_def demo_empty_rd_def mount_env_def demo_fat_env_def simp del: replicate_numeral split: if_splits)
qed

theorem FatMountVolume_mounts_witness:
  "(\<exists>v s' N. FatMountVolume mount_env 0x10 0 (mount_state demo_mount_rd) = Inr (v, s') \<and> v \<noteq> 0
      \<and> volume_context s' v = Inr (demo_mount_rd, 0, demo_vol) \<and> mounted s' v demo_br \<and> card N = 4 \<and> kernel_serves 10 0 (fat_heap s') N)
   \<and> (\<exists>h m. FatMountVolume mount_env 0x10 0 (mount_state demo_empty_rd) = Inr (0, mount_state demo_empty_rd\<lparr>fat_heap := h\<rparr>) \<and> kernel_serves 10 m h {})"
proof
  have m: "mountable demo_br"
    by (simp add: mountable_def boot_signature_def fat12_16_signature_def fat32_signature_def demo_br_def le16_def del: replicate_numeral)
  have ps: "psector demo_mount_rd 0 0 = Some demo_br"
    by (simp add: psector_def demo_mount_rd_def partition_table_def le32_def le16_def del: replicate_numeral)
  have d: "deref (devs (mount_state rd)) 0x10 = Inr rd" for rd by (simp add: mount_state_def)
  have "fat_geometry demo_br = demo_vol"
    by (simp add: fat_geometry_def demo_vol_def demo_br_fields) (simp add: demo_br_def fats_def fat32_sectors_per_fat_def le32_def le16_def del: replicate_numeral)
  then show "\<exists>v s' N. FatMountVolume mount_env 0x10 0 (mount_state demo_mount_rd) = Inr (v, s') \<and> v \<noteq> 0
      \<and> volume_context s' v = Inr (demo_mount_rd, 0, demo_vol) \<and> mounted s' v demo_br \<and> card N = 4 \<and> kernel_serves 10 0 (fat_heap s') N"
    using FatMountVolume_mounts [OF mount_devices(1) ps d mount_devices(3) mount_heap mount_room] m by auto
  have "\<not> mountable (replicate 512 0)" by (simp add: mountable_def boot_signature_def le16_def del: replicate_numeral)
  moreover have "psector demo_empty_rd 0 0 = Some (replicate 512 0)"
    by (simp add: psector_def demo_empty_rd_def partition_table_def le32_def le16_def del: replicate_numeral)
  ultimately show "\<exists>h m. FatMountVolume mount_env 0x10 0 (mount_state demo_empty_rd) = Inr (0, mount_state demo_empty_rd\<lparr>fat_heap := h\<rparr>)
      \<and> kernel_serves 10 m h {}"
    using FatMountVolume_mounts [OF mount_devices(2) _ d mount_devices(3) mount_heap mount_room] by fastforce
qed

end
