(* ===== verification/Pci_Bus.thy ===== *)
theory Pci_Bus
  imports Port_Io Block_Heap Idt_X86
begin

text \<open>
  The PCI bus, \<open>io/pci.c\<close> and \<open>io/pci.h\<close>: access to configuration space through two 32-bit ports and
  the search for devices.

  The state has the list of devices as heap objects and the devices behind the ports. Bridges may lead
  from bus to bus without end, so the search is bounded by a depth and running out of it is \<open>Diverges\<close>.
\<close>

section \<open>Configuration space\<close>

definition PCI_CONFIG_ADDRESS_PORT :: u16 where "PCI_CONFIG_ADDRESS_PORT = 0xCF8"
definition PCI_CONFIG_DATA_PORT :: u16 where "PCI_CONFIG_DATA_PORT = 0xCFC"
definition PCI_CONFIG_CLASS_CODE_BRIDGE :: u8 where "PCI_CONFIG_CLASS_CODE_BRIDGE = 0x06"
definition PCI_CONFIG_SUBCLASS_PCI_TO_PCI_BRIDGE :: u8 where "PCI_CONFIG_SUBCLASS_PCI_TO_PCI_BRIDGE = 0x04"
definition PCI_IRQ :: u8 where "PCI_IRQ = 10"

definition PCI_CONFIG_COMMON_OFFSET_VENDOR_ID :: u8 where "PCI_CONFIG_COMMON_OFFSET_VENDOR_ID = 0x00"
definition PCI_CONFIG_COMMON_OFFSET_SUBCLASS :: u8 where "PCI_CONFIG_COMMON_OFFSET_SUBCLASS = 0x0A"
definition PCI_CONFIG_COMMON_OFFSET_CLASS_CODE :: u8 where "PCI_CONFIG_COMMON_OFFSET_CLASS_CODE = 0x0B"
definition PCI_CONFIG_COMMON_OFFSET_HEADER_TYPE :: u8 where "PCI_CONFIG_COMMON_OFFSET_HEADER_TYPE = 0x0E"
definition PCI_CONFIG_COMMON_OFFSET_BIST_REGISTER :: u8 where "PCI_CONFIG_COMMON_OFFSET_BIST_REGISTER = 0x0F"
definition PCI_CONFIG_REGULAR_DEVICE_OFFSET_INTERRUPT_LINE :: u8 where "PCI_CONFIG_REGULAR_DEVICE_OFFSET_INTERRUPT_LINE = 0x3C"
definition PCI_CONFIG_PCI_TO_PCI_BRIDGE_OFFSET_SECONDARY_BUS_NUMBER :: u8 where
  "PCI_CONFIG_PCI_TO_PCI_BRIDGE_OFFSET_SECONDARY_BUS_NUMBER = 0x19"

lemmas pci_consts = PCI_CONFIG_ADDRESS_PORT_def PCI_CONFIG_DATA_PORT_def PCI_CONFIG_CLASS_CODE_BRIDGE_def
  PCI_CONFIG_SUBCLASS_PCI_TO_PCI_BRIDGE_def PCI_IRQ_def PCI_CONFIG_COMMON_OFFSET_VENDOR_ID_def
  PCI_CONFIG_COMMON_OFFSET_SUBCLASS_def PCI_CONFIG_COMMON_OFFSET_CLASS_CODE_def PCI_CONFIG_COMMON_OFFSET_HEADER_TYPE_def
  PCI_CONFIG_COMMON_OFFSET_BIST_REGISTER_def PCI_CONFIG_REGULAR_DEVICE_OFFSET_INTERRUPT_LINE_def
  PCI_CONFIG_PCI_TO_PCI_BRIDGE_OFFSET_SECONDARY_BUS_NUMBER_def

text \<open>The union \<open>PciConfigAddress\<close> read as a word; the bit-fields keep the low bits of what is stored.\<close>

definition PciConfigAddress :: "u8 \<Rightarrow> u8 \<Rightarrow> u8 \<Rightarrow> u8 \<Rightarrow> u32" where
  "PciConfigAddress bus device function offset =
     push_bit 2 (take_bit 6 (ucast (drop_bit 2 offset))) OR push_bit 8 (take_bit 3 (ucast function))
     OR push_bit 11 (take_bit 5 (ucast device)) OR push_bit 16 (ucast bus) OR push_bit 31 1"

definition PciConfigRead32 :: "'d port_ops \<Rightarrow> u8 \<Rightarrow> u8 \<Rightarrow> u8 \<Rightarrow> u8 \<Rightarrow> 'd \<Rightarrow> u32 \<times> 'd" where
  "PciConfigRead32 io bus device function offset d =
     (let d = port_out32 io PCI_CONFIG_ADDRESS_PORT (PciConfigAddress bus device function offset) d in
      port_in32 io PCI_CONFIG_DATA_PORT d)"

definition PciConfigRead8 :: "'d port_ops \<Rightarrow> u8 \<Rightarrow> u8 \<Rightarrow> u8 \<Rightarrow> u8 \<Rightarrow> 'd \<Rightarrow> u8 \<times> 'd" where
  "PciConfigRead8 io bus device function offset d =
     (let (v, d) = PciConfigRead32 io bus device function offset d in (ucast (drop_bit (unat (offset mod 4) * 8) v), d))"

definition PciConfigRead16 :: "'d port_ops \<Rightarrow> u8 \<Rightarrow> u8 \<Rightarrow> u8 \<Rightarrow> u8 \<Rightarrow> 'd \<Rightarrow> u16 \<times> 'd" where
  "PciConfigRead16 io bus device function offset d =
     (let (v, d) = PciConfigRead32 io bus device function offset d in (ucast (drop_bit (unat (offset mod 4) * 8) v), d))"

definition PciConfigWrite32 :: "'d port_ops \<Rightarrow> u8 \<Rightarrow> u8 \<Rightarrow> u8 \<Rightarrow> u8 \<Rightarrow> u32 \<Rightarrow> 'd \<Rightarrow> 'd" where
  "PciConfigWrite32 io bus device function offset v d =
     (let d = port_out32 io PCI_CONFIG_ADDRESS_PORT (PciConfigAddress bus device function offset) d in
      port_out32 io PCI_CONFIG_DATA_PORT v d)"

text \<open>The shifts are by \<open>offset % 4\<close> bits, not bytes.\<close>

definition PciConfigWrite8 :: "'d port_ops \<Rightarrow> u8 \<Rightarrow> u8 \<Rightarrow> u8 \<Rightarrow> u8 \<Rightarrow> u8 \<Rightarrow> 'd \<Rightarrow> 'd" where
  "PciConfigWrite8 io bus device function offset v d =
     (let (reg, d) = PciConfigRead32 io bus device function offset d;
          reg = reg AND NOT (push_bit (unat (offset mod 4)) 0xFF);
          reg = reg OR push_bit (unat (offset mod 4)) (ucast v) in
      PciConfigWrite32 io bus device function offset reg d)"

definition PciConfigWrite16 :: "'d port_ops \<Rightarrow> u8 \<Rightarrow> u8 \<Rightarrow> u8 \<Rightarrow> u8 \<Rightarrow> u16 \<Rightarrow> 'd \<Rightarrow> 'd" where
  "PciConfigWrite16 io bus device function offset v d =
     (let (reg, d) = PciConfigRead32 io bus device function offset d;
          reg = reg AND NOT (push_bit (unat (offset mod 4)) 0xFFFF);
          reg = reg OR push_bit (unat (offset mod 4)) (ucast v) in
      PciConfigWrite32 io bus device function offset reg d)"

record PciConfigHeaderType =
  header_type :: "7 word"
  mf :: bool

record PciConfigBistRegister =
  completion_code :: "4 word"
  bist_reserved :: "2 word"
  start_bist :: bool
  bist_capable :: bool

text \<open>A value stored in a field of type \<open>bool\<close> is converted: \<open>byte >> 6\<close> is true when either of the two bits is set.\<close>

definition PciConfigReadHeaderType :: "'d port_ops \<Rightarrow> u8 \<Rightarrow> u8 \<Rightarrow> u8 \<Rightarrow> 'd \<Rightarrow> PciConfigHeaderType \<times> 'd" where
  "PciConfigReadHeaderType io bus device function d =
     (let (b, d) = PciConfigRead8 io bus device function PCI_CONFIG_COMMON_OFFSET_HEADER_TYPE d in
      (\<lparr>header_type = ucast b, mf = (drop_bit 7 b \<noteq> 0)\<rparr>, d))"

definition PciConfigReadBistRegister :: "'d port_ops \<Rightarrow> u8 \<Rightarrow> u8 \<Rightarrow> u8 \<Rightarrow> 'd \<Rightarrow> PciConfigBistRegister \<times> 'd" where
  "PciConfigReadBistRegister io bus device function d =
     (let (b, d) = PciConfigRead8 io bus device function PCI_CONFIG_COMMON_OFFSET_BIST_REGISTER d in
      (\<lparr>completion_code = ucast b, bist_reserved = 0, start_bist = (drop_bit 6 b \<noteq> 0), bist_capable = (drop_bit 7 b \<noteq> 0)\<rparr>, d))"

section \<open>Devices\<close>

record PciDevice =
  pci_bus :: u8
  pci_device :: "5 word"
  pci_function :: "3 word"
  pci_data :: u32
  pci_next :: u32

record ('d, 'm) pci_state =
  pci_devices_list :: u32
  pci_devs :: "u32 \<rightharpoonup> PciDevice"
  pci_heap :: 'm
  pci_io :: 'd

definition sizeof_PciDevice :: u32 where "sizeof_PciDevice = 12"

definition PciAddDevice ::
  "'d port_ops \<Rightarrow> 'm alloc \<Rightarrow> PciDevice \<Rightarrow> u8 \<Rightarrow> u8 \<Rightarrow> u8 \<Rightarrow> ('d, 'm) pci_state \<Rightarrow> ('d, 'm) pci_state res" where
  "PciAddDevice io malloc junk bus device function s =
     (let s = s\<lparr>pci_io := PciConfigWrite8 io bus device function PCI_CONFIG_REGULAR_DEVICE_OFFSET_INTERRUPT_LINE PCI_IRQ (pci_io s)\<rparr>;
          (p, h) = malloc sizeof_PciDevice (pci_heap s) in
      if p = 0 then Inl Null_Pointer
      else Inr (s\<lparr>pci_heap := h, pci_devs := (pci_devs s)(p \<mapsto> junk\<lparr>pci_bus := bus, pci_device := ucast device,
             pci_function := ucast function, pci_next := pci_devices_list s\<rparr>), pci_devices_list := p\<rparr>))"

definition pci_read8 :: "'d port_ops \<Rightarrow> u8 \<Rightarrow> u8 \<Rightarrow> u8 \<Rightarrow> u8 \<Rightarrow> ('d, 'm) pci_state \<Rightarrow> u8 \<times> ('d, 'm) pci_state" where
  "pci_read8 io bus device function offset s =
     (let (v, d) = PciConfigRead8 io bus device function offset (pci_io s) in (v, s\<lparr>pci_io := d\<rparr>))"

definition pci_read16 :: "'d port_ops \<Rightarrow> u8 \<Rightarrow> u8 \<Rightarrow> u8 \<Rightarrow> u8 \<Rightarrow> ('d, 'm) pci_state \<Rightarrow> u16 \<times> ('d, 'm) pci_state" where
  "pci_read16 io bus device function offset s =
     (let (v, d) = PciConfigRead16 io bus device function offset (pci_io s) in (v, s\<lparr>pci_io := d\<rparr>))"

text \<open>\<open>probe_bus\<close> is the recursive call of \<open>PciProbeBus\<close>.\<close>

definition PciProbeFunction ::
  "'d port_ops \<Rightarrow> 'm alloc \<Rightarrow> PciDevice \<Rightarrow> (u8 \<Rightarrow> ('d, 'm) pci_state \<Rightarrow> ('d, 'm) pci_state res)
    \<Rightarrow> u8 \<Rightarrow> u8 \<Rightarrow> u8 \<Rightarrow> ('d, 'm) pci_state \<Rightarrow> ('d, 'm) pci_state res" where
  "PciProbeFunction io malloc junk probe_bus bus device function s =
     (let (cl, s) = pci_read8 io bus device function PCI_CONFIG_COMMON_OFFSET_CLASS_CODE s;
          (subclass, s) = pci_read8 io bus device function PCI_CONFIG_COMMON_OFFSET_SUBCLASS s in
      rbind (if cl = PCI_CONFIG_CLASS_CODE_BRIDGE \<and> subclass = PCI_CONFIG_SUBCLASS_PCI_TO_PCI_BRIDGE then
               let (secondary_bus, s) = pci_read8 io bus device function PCI_CONFIG_PCI_TO_PCI_BRIDGE_OFFSET_SECONDARY_BUS_NUMBER s in
               probe_bus secondary_bus s
             else Inr s) (\<lambda>s.
        PciAddDevice io malloc junk bus device function s))"

definition PciProbeDevice ::
  "'d port_ops \<Rightarrow> 'm alloc \<Rightarrow> PciDevice \<Rightarrow> (u8 \<Rightarrow> ('d, 'm) pci_state \<Rightarrow> ('d, 'm) pci_state res)
    \<Rightarrow> u8 \<Rightarrow> u8 \<Rightarrow> ('d, 'm) pci_state \<Rightarrow> ('d, 'm) pci_state res" where
  "PciProbeDevice io malloc junk probe_bus bus device s =
     (let (vendor, s) = pci_read16 io bus device 0 PCI_CONFIG_COMMON_OFFSET_VENDOR_ID s in
      if vendor = 0xFFFF then Inr s
      else
        rbind (PciProbeFunction io malloc junk probe_bus bus device 0 s) (\<lambda>s.
        let (ht, d) = PciConfigReadHeaderType io bus device 0 (pci_io s);
            s = s\<lparr>pci_io := d\<rparr> in
        if \<not> mf ht then Inr s
        else rfold (\<lambda>function s.
          let (vendor, s) = pci_read16 io bus device (of_nat function) PCI_CONFIG_COMMON_OFFSET_VENDOR_ID s in
          if vendor \<noteq> 0xFFFF then PciProbeFunction io malloc junk probe_bus bus device (of_nat function) s else Inr s) [1..<8] s))"

primrec PciProbeBus ::
  "nat \<Rightarrow> 'd port_ops \<Rightarrow> 'm alloc \<Rightarrow> PciDevice \<Rightarrow> u8 \<Rightarrow> ('d, 'm) pci_state \<Rightarrow> ('d, 'm) pci_state res" where
  "PciProbeBus 0 io malloc junk bus s = Inl Diverges"
| "PciProbeBus (Suc depth) io malloc junk bus s =
     rfold (\<lambda>device s. PciProbeDevice io malloc junk (PciProbeBus depth io malloc junk) bus (of_nat device) s) [0..<32] s"

text \<open>The loop over the functions of the host bridge ends at the first one that is absent.\<close>

primrec pci_host_functions ::
  "nat \<Rightarrow> 'd port_ops \<Rightarrow> 'm alloc \<Rightarrow> PciDevice \<Rightarrow> nat list \<Rightarrow> ('d, 'm) pci_state \<Rightarrow> ('d, 'm) pci_state res" where
  "pci_host_functions depth io malloc junk [] s = Inr s"
| "pci_host_functions depth io malloc junk (function # fs) s =
     (let (vendor, s) = pci_read16 io 0 0 (of_nat function) PCI_CONFIG_COMMON_OFFSET_VENDOR_ID s in
      if vendor = 0xFFFF then Inr s
      else rbind (PciProbeBus depth io malloc junk (of_nat function) s) (\<lambda>s. pci_host_functions depth io malloc junk fs s))"

text \<open>\<open>PciIrqHandler\<close>, an empty function, is the argument \<open>handler\<close>.\<close>

definition PciInit ::
  "nat \<Rightarrow> 'd port_ops \<Rightarrow> 'm alloc \<Rightarrow> PciDevice \<Rightarrow> 'h \<Rightarrow> ('d, 'm) pci_state \<times> 'h idt_state
    \<Rightarrow> (('d, 'm) pci_state \<times> 'h idt_state) res" where
  "PciInit depth io malloc junk handler = (\<lambda>(s, t).
     let (ht, d) = PciConfigReadHeaderType io 0 0 0 (pci_io s);
         s = s\<lparr>pci_io := d\<rparr> in
     rbind (PciProbeBus depth io malloc junk 0 s) (\<lambda>s.
     rbind (if mf ht then pci_host_functions depth io malloc junk [0..<8] s else Inr s) (\<lambda>s.
     rbind (X86RegisterIrqHandler (IRQ PCI_IRQ) handler t) (\<lambda>t. Inr (s, t)))))"

section \<open>Access by device\<close>

definition PciConfigReadFromDevice8 :: "'d port_ops \<Rightarrow> PciDevice \<Rightarrow> u8 \<Rightarrow> 'd \<Rightarrow> u8 \<times> 'd" where
  "PciConfigReadFromDevice8 io dv offset d = PciConfigRead8 io (pci_bus dv) (ucast (pci_device dv)) (ucast (pci_function dv)) offset d"

definition PciConfigReadFromDevice16 :: "'d port_ops \<Rightarrow> PciDevice \<Rightarrow> u8 \<Rightarrow> 'd \<Rightarrow> u16 \<times> 'd" where
  "PciConfigReadFromDevice16 io dv offset d = PciConfigRead16 io (pci_bus dv) (ucast (pci_device dv)) (ucast (pci_function dv)) offset d"

definition PciConfigReadFromDevice32 :: "'d port_ops \<Rightarrow> PciDevice \<Rightarrow> u8 \<Rightarrow> 'd \<Rightarrow> u32 \<times> 'd" where
  "PciConfigReadFromDevice32 io dv offset d = PciConfigRead32 io (pci_bus dv) (ucast (pci_device dv)) (ucast (pci_function dv)) offset d"

definition PciConfigWriteToDevice8 :: "'d port_ops \<Rightarrow> PciDevice \<Rightarrow> u8 \<Rightarrow> u8 \<Rightarrow> 'd \<Rightarrow> 'd" where
  "PciConfigWriteToDevice8 io dv offset v d = PciConfigWrite8 io (pci_bus dv) (ucast (pci_device dv)) (ucast (pci_function dv)) offset v d"

definition PciConfigWriteToDevice16 :: "'d port_ops \<Rightarrow> PciDevice \<Rightarrow> u8 \<Rightarrow> u16 \<Rightarrow> 'd \<Rightarrow> 'd" where
  "PciConfigWriteToDevice16 io dv offset v d = PciConfigWrite16 io (pci_bus dv) (ucast (pci_device dv)) (ucast (pci_function dv)) offset v d"

definition PciConfigWriteToDevice32 :: "'d port_ops \<Rightarrow> PciDevice \<Rightarrow> u8 \<Rightarrow> u32 \<Rightarrow> 'd \<Rightarrow> 'd" where
  "PciConfigWriteToDevice32 io dv offset v d = PciConfigWrite32 io (pci_bus dv) (ucast (pci_device dv)) (ucast (pci_function dv)) offset v d"

definition PciConfigReadHeaderTypeFromDevice :: "'d port_ops \<Rightarrow> PciDevice \<Rightarrow> 'd \<Rightarrow> PciConfigHeaderType \<times> 'd" where
  "PciConfigReadHeaderTypeFromDevice io dv d = PciConfigReadHeaderType io (pci_bus dv) (ucast (pci_device dv)) (ucast (pci_function dv)) d"

definition PciConfigReadBistRegisterFromDevice :: "'d port_ops \<Rightarrow> PciDevice \<Rightarrow> 'd \<Rightarrow> PciConfigBistRegister \<times> 'd" where
  "PciConfigReadBistRegisterFromDevice io dv d = PciConfigReadBistRegister io (pci_bus dv) (ucast (pci_device dv)) (ucast (pci_function dv)) d"

end
