(* ===== verification/Pci_Enumeration.thy ===== *)
theory Pci_Enumeration
  imports Pci_Bus
begin

text \<open>
  The PCI code on the hardware it is written for: configuration registers behind an address and a data
  port. Byte accesses to registers, and the list of devices the search makes.
\<close>

section \<open>Configuration mechanism 1\<close>

record pci_space =
  cfg_addr :: u32
  cfg :: "u32 \<Rightarrow> u32"

definition pci_ports :: "pci_space port_ops" where
  "pci_ports = \<lparr>
     port_in8 = (\<lambda>p d. (0xFF, d)), port_in16 = (\<lambda>p d. (0xFFFF, d)),
     port_in32 = (\<lambda>p d. (if p = 0xCFC then cfg d (cfg_addr d) else 0xFFFFFFFF, d)),
     port_out8 = (\<lambda>p v d. d), port_out16 = (\<lambda>p v d. d),
     port_out32 = (\<lambda>p v d. if p = 0xCF8 then d\<lparr>cfg_addr := v\<rparr> else if p = 0xCFC then d\<lparr>cfg := (cfg d)(cfg_addr d := v)\<rparr> else d)\<rparr>"

lemma PciConfigRead32_ports:
  "PciConfigRead32 pci_ports bus device function offset d =
     (cfg d (PciConfigAddress bus device function offset), d\<lparr>cfg_addr := PciConfigAddress bus device function offset\<rparr>)"
  by (simp add: PciConfigRead32_def pci_ports_def pci_consts)

lemma PciConfigWrite32_ports:
  "PciConfigWrite32 pci_ports bus device function offset v d =
     d\<lparr>cfg_addr := PciConfigAddress bus device function offset, cfg := (cfg d)(PciConfigAddress bus device function offset := v)\<rparr>"
  by (simp add: PciConfigWrite32_def pci_ports_def pci_consts)

lemma bit_consts:
  "bit (0xFF :: int) n \<longleftrightarrow> n < 8" "bit (0xFC :: int) n \<longleftrightarrow> 2 \<le> n \<and> n < 8" "bit (0x80000000 :: int) n \<longleftrightarrow> n = 31"
  "bit (0xFFFFFF :: int) n \<longleftrightarrow> n < 24"
proof -
  have e: "(0xFF :: int) = mask 8" "(0xFC :: int) = push_bit 2 (mask 6)" "(0x80000000 :: int) = 2 ^ 31" "(0xFFFFFF :: int) = mask 24"
    by (simp_all add: mask_eq_exp_minus_1)
  show "bit (0xFF :: int) n \<longleftrightarrow> n < 8" unfolding e by (simp add: bit_mask_iff)
  show "bit (0xFC :: int) n \<longleftrightarrow> 2 \<le> n \<and> n < 8" unfolding e by (auto simp: bit_push_bit_iff bit_mask_iff)
  show "bit (0x80000000 :: int) n \<longleftrightarrow> n = 31" unfolding e by (auto simp only: bit_exp_iff possible_bit_def) simp
  show "bit (0xFFFFFF :: int) n \<longleftrightarrow> n < 24" unfolding e by (simp add: bit_mask_iff)
qed

lemma Suc_Suc_minus_2: "\<not> n < 2 \<Longrightarrow> Suc (Suc (n - 2)) = n"
  by simp

lemma PciConfigAddress_offset: "PciConfigAddress bus device function offset AND 0xFF = ucast (offset AND 0xFC)"
proof (rule bit_eqI)
  fix n
  show "bit (PciConfigAddress bus device function offset AND 0xFF) n \<longleftrightarrow> bit (ucast (offset AND 0xFC) :: u32) n"
    by (cases "n < 2"; cases "n < 8") (auto simp: PciConfigAddress_def bit_simps bit_consts Suc_Suc_minus_2)
qed

lemma PciConfigWrite8_ports:
  "cfg (PciConfigWrite8 pci_ports bus device function offset v d) = (cfg d)(PciConfigAddress bus device function offset :=
     (cfg d (PciConfigAddress bus device function offset) AND NOT (push_bit (unat (offset mod 4)) 0xFF)) OR push_bit (unat (offset mod 4)) (ucast v))"
  by (simp add: PciConfigWrite8_def PciConfigRead32_ports PciConfigWrite32_ports)

lemma PciConfigRead8_ports:
  "fst (PciConfigRead8 pci_ports bus device function offset d) =
     ucast (drop_bit (unat (offset mod 4) * 8) (cfg d (PciConfigAddress bus device function offset)))"
  by (simp add: PciConfigRead8_def PciConfigRead32_ports)

lemma byte_write:
  fixes r :: u32 and v :: u8
  defines "q k \<equiv> (r AND NOT (push_bit k 0xFF)) OR push_bit k (ucast v)"
  shows "(ucast (q 0) :: u8) = v" and "drop_bit 8 (q 0) = drop_bit 8 r"
    and "2 \<le> k \<Longrightarrow> k \<le> 3 \<Longrightarrow> (ucast (drop_bit (k * 8) (q k)) :: u8) = ucast (drop_bit (k * 8) r)"
proof -
  show "(ucast (q 0) :: u8) = v" "drop_bit 8 (q 0) = drop_bit 8 r"
    by (rule bit_eqI; auto simp: q_def bit_simps bit_consts dest: bit_imp_le_length simp del: push_bit_numeral)+
  assume "2 \<le> k" "k \<le> 3"
  then consider "k = 2" | "k = 3" by linarith
  then show "(ucast (drop_bit (k * 8) (q k)) :: u8) = ucast (drop_bit (k * 8) r)"
    by cases (rule bit_eqI; auto simp: q_def bit_simps bit_consts dest: bit_imp_le_length simp del: push_bit_numeral)+
qed

text \<open>
  C38: a register written as a word reads back; a byte written at an offset that is a multiple of four
  reads back and leaves the other bytes of the register and all other registers alone. At the last two
  offsets of a register the byte that should be written keeps its value, as the shift counts bits:
  the value goes to the bits from \<open>offset % 4\<close> on.
\<close>

theorem PciConfigWrite8_reads_back:
  fixes bus device fn offset v :: u8 and d :: pci_space and x :: u32
  defines "w \<equiv> PciConfigWrite8 pci_ports bus device fn offset v d" and "a \<equiv> PciConfigAddress bus device fn offset"
  shows "fst (PciConfigRead32 pci_ports bus device fn offset (PciConfigWrite32 pci_ports bus device fn offset x d)) = x
    \<and> (\<forall>b. b \<noteq> a \<longrightarrow> cfg w b = cfg d b)
    \<and> (offset mod 4 = 0 \<longrightarrow> fst (PciConfigRead8 pci_ports bus device fn offset w) = v \<and> drop_bit 8 (cfg w a) = drop_bit 8 (cfg d a))
    \<and> (offset mod 4 \<in> {2, 3} \<longrightarrow> fst (PciConfigRead8 pci_ports bus device fn offset w) = fst (PciConfigRead8 pci_ports bus device fn offset d))"
proof (intro conjI allI impI)
  show "fst (PciConfigRead32 pci_ports bus device fn offset (PciConfigWrite32 pci_ports bus device fn offset x d)) = x"
    by (simp add: PciConfigRead32_ports PciConfigWrite32_ports)
  show "cfg w b = cfg d b" if "b \<noteq> a" for b using that by (simp add: w_def a_def PciConfigWrite8_ports)
  show "fst (PciConfigRead8 pci_ports bus device fn offset w) = v" "drop_bit 8 (cfg w a) = drop_bit 8 (cfg d a)" if "offset mod 4 = 0"
    using that byte_write(1,2) [where r = "cfg d a" and v = v] by (simp_all add: w_def a_def PciConfigWrite8_ports PciConfigRead8_ports del: push_bit_numeral)
  assume "offset mod 4 \<in> {2, 3}"
  then have k: "2 \<le> unat (offset mod 4)" "unat (offset mod 4) \<le> 3" by auto
  show "fst (PciConfigRead8 pci_ports bus device fn offset w) = fst (PciConfigRead8 pci_ports bus device fn offset d)"
    using byte_write(3) [OF k, of "cfg d a" v] by (simp add: w_def a_def PciConfigWrite8_ports PciConfigRead8_ports del: push_bit_numeral)
qed

theorem PciConfigWrite8_reads_back_witness:
  "fst (PciConfigRead8 pci_ports 0 1 0 0x3C (PciConfigWrite8 pci_ports 0 1 0 0x3C 10 \<lparr>cfg_addr = 0, cfg = \<lambda>_. 0\<rparr>)) = 10
   \<and> fst (PciConfigRead8 pci_ports 0 1 0 0x3E (PciConfigWrite8 pci_ports 0 1 0 0x3E 10 \<lparr>cfg_addr = 0, cfg = \<lambda>_. 0\<rparr>))
       = fst (PciConfigRead8 pci_ports 0 1 0 0x3E \<lparr>cfg_addr = 0, cfg = \<lambda>_. 0\<rparr>)"
  using PciConfigWrite8_reads_back [of 0 1 0 "0x3C" 0 "\<lparr>cfg_addr = 0, cfg = \<lambda>_. 0\<rparr>" 10]
    PciConfigWrite8_reads_back [of 0 1 0 "0x3E" 0 "\<lparr>cfg_addr = 0, cfg = \<lambda>_. 0\<rparr>" 10] by simp

section \<open>The search\<close>

text \<open>What the registers of a function say.\<close>

definition vendor :: "(u32 \<Rightarrow> u32) \<Rightarrow> u8 \<Rightarrow> u8 \<Rightarrow> u8 \<Rightarrow> u16" where
  "vendor c b d f = ucast (c (PciConfigAddress b d f 0x00))"

definition is_bridge :: "(u32 \<Rightarrow> u32) \<Rightarrow> u8 \<Rightarrow> u8 \<Rightarrow> u8 \<Rightarrow> bool" where
  "is_bridge c b d f \<longleftrightarrow> (ucast (drop_bit 24 (c (PciConfigAddress b d f 0x0B))) :: u8) = 0x06
     \<and> (ucast (drop_bit 16 (c (PciConfigAddress b d f 0x0A))) :: u8) = 0x04"

definition multi :: "(u32 \<Rightarrow> u32) \<Rightarrow> u8 \<Rightarrow> u8 \<Rightarrow> bool" where
  "multi c b d \<longleftrightarrow> drop_bit 7 (ucast (drop_bit 16 (c (PciConfigAddress b d 0 0x0E))) :: u8) \<noteq> 0"

text \<open>The functions of a device and the devices of a bus, in the order of the search.\<close>

definition functions_of :: "(u32 \<Rightarrow> u32) \<Rightarrow> u8 \<Rightarrow> nat \<Rightarrow> nat list" where
  "functions_of c b d = (if vendor c b (of_nat d) 0 = 0xFFFF then []
     else 0 # (if multi c b (of_nat d) then filter (\<lambda>f. vendor c b (of_nat d) (of_nat f) \<noteq> 0xFFFF) [1..<8] else []))"

definition bus_devices :: "(u32 \<Rightarrow> u32) \<Rightarrow> u8 \<Rightarrow> (u8 \<times> nat \<times> nat) list" where
  "bus_devices c b = concat (map (\<lambda>d. map (\<lambda>f. (b, d, f)) (functions_of c b d)) [0..<32])"

text \<open>The list of the kernel has these devices, the first one at its head.\<close>

definition pci_lists :: "('d, 'm) pci_state \<Rightarrow> (u8 \<times> nat \<times> nat) list \<Rightarrow> bool" where
  "pci_lists s found \<longleftrightarrow> (\<exists>as. linked (pci_devs s) pci_next (pci_devices_list s) as
     \<and> list_all2 (\<lambda>a (b, d, f). \<exists>x. pci_devs s a = Some x \<and> pci_bus x = b \<and> pci_device x = of_nat d \<and> pci_function x = of_nat f) as found)"

text \<open>
  The state during the search over the registers \<open>c\<close>: only interrupt lines have changed, the devices
  found so far are listed and there is memory for \<open>n\<close> more.
\<close>

definition same_registers :: "(u32 \<Rightarrow> u32) \<Rightarrow> (u32 \<Rightarrow> u32) \<Rightarrow> bool" where
  "same_registers c c' \<longleftrightarrow> (\<forall>a. a AND 0xFF \<noteq> 0x3C \<longrightarrow> c' a = c a)"

definition searching ::
  "('d \<Rightarrow> u32 \<Rightarrow> u32) \<Rightarrow> (u32 \<Rightarrow> u32) \<Rightarrow> 'm alloc \<Rightarrow> nat \<Rightarrow> (u8 \<times> nat \<times> nat) list \<Rightarrow> ('d, 'm) pci_state \<Rightarrow> bool" where
  "searching regs c malloc n found s \<longleftrightarrow> same_registers c (regs (pci_io s)) \<and> pci_lists s found
     \<and> fresh_blocks malloc n (pci_heap s) (dom (pci_devs s))"

lemma ucast_u8_u32_eq: "(ucast (x :: u8) :: u32) = ucast y \<longleftrightarrow> x = y"
proof -
  have "unat x < 2 ^ LENGTH(8)" "unat y < 2 ^ LENGTH(8)" by (rule unsigned_less)+
  then show ?thesis by (auto simp: word_unat_eq_iff unat_ucast_mod)
qed

lemma same_registers_at:
  assumes "same_registers c c'" and "offset AND 0xFC \<noteq> 0x3C"
  shows "c' (PciConfigAddress b d f offset) = c (PciConfigAddress b d f offset)"
proof -
  have "PciConfigAddress b d f offset AND 0xFF \<noteq> 0x3C"
    using assms(2) ucast_u8_u32_eq [of "offset AND 0xFC" "0x3C"] by (simp add: PciConfigAddress_offset)
  then show ?thesis using assms(1) by (simp add: same_registers_def)
qed

text \<open>
  What the search relies on: reads and writes of 32 bits reach the registers, which are a part \<open>regs\<close> of the
  state of the machine. \<open>after_read\<close> is the state a read leaves.
\<close>

definition after_read :: "'d port_ops \<Rightarrow> u8 \<Rightarrow> u8 \<Rightarrow> u8 \<Rightarrow> u8 \<Rightarrow> ('d, 'm) pci_state \<Rightarrow> ('d, 'm) pci_state" where
  "after_read io b d f offset s = s\<lparr>pci_io := snd (PciConfigRead32 io b d f offset (pci_io s))\<rparr>"

lemma after_read_io [simp]: "s\<lparr>pci_io := pci_io (after_read io b d f offset s)\<rparr> = after_read io b d f offset s"
  by (simp add: after_read_def)

locale pci_host =
  fixes io :: "'d port_ops" and regs :: "'d \<Rightarrow> u32 \<Rightarrow> u32"
  assumes read_value: "fst (PciConfigRead32 io b d f offset m) = regs m (PciConfigAddress b d f offset)"
    and read_keeps: "regs (snd (PciConfigRead32 io b d f offset m)) = regs m"
    and write_sets: "regs (PciConfigWrite32 io b d f offset v m) = (regs m)(PciConfigAddress b d f offset := v)"
begin

lemma host_read: "PciConfigRead32 io b d f offset m = (regs m (PciConfigAddress b d f offset), snd (PciConfigRead32 io b d f offset m))"
  by (simp add: prod_eq_iff read_value)

lemma host_write8: "regs (PciConfigWrite8 io b d f offset v m) = (regs m)(PciConfigAddress b d f offset :=
     (regs m (PciConfigAddress b d f offset) AND NOT (push_bit (unat (offset mod 4)) 0xFF)) OR push_bit (unat (offset mod 4)) (ucast v))"
  by (simp add: PciConfigWrite8_def case_prod_beta read_value read_keeps write_sets)

lemma host_read8: "PciConfigRead8 io b d f offset m =
     (ucast (drop_bit (unat (offset mod 4) * 8) (regs m (PciConfigAddress b d f offset))), snd (PciConfigRead32 io b d f offset m))"
  by (simp add: PciConfigRead8_def case_prod_beta read_value)

lemma searching_weaken: "searching regs c malloc n found s \<Longrightarrow> m \<le> n \<Longrightarrow> searching regs c malloc m found s"
  by (auto simp: searching_def intro: fresh_blocks_antimono)

lemma searching_cfg:
  assumes "searching regs c malloc n found s" and "offset AND 0xFC \<noteq> 0x3C"
  shows "regs (pci_io s) (PciConfigAddress b d f offset) = c (PciConfigAddress b d f offset)"
  using assms same_registers_at by (simp add: searching_def)

lemma searching_io: "searching regs c malloc n found s \<Longrightarrow> searching regs c malloc n found (after_read io b d f offset s)"
  by (simp add: searching_def pci_lists_def after_read_def read_keeps)

lemma pci_read_searching:
  assumes "searching regs c malloc n found s" and "offset AND 0xFC \<noteq> 0x3C"
  shows "pci_read8 io b d f offset s =
      (ucast (drop_bit (unat (offset mod 4) * 8) (c (PciConfigAddress b d f offset))), after_read io b d f offset s)"
    and "pci_read16 io b d f offset s =
      (ucast (drop_bit (unat (offset mod 4) * 8) (c (PciConfigAddress b d f offset))), after_read io b d f offset s)"
  using searching_cfg [OF assms]
  by (simp_all add: pci_read8_def pci_read16_def PciConfigRead8_def PciConfigRead16_def case_prod_beta read_value after_read_def)

lemma PciAddDevice_searching:
  assumes s: "searching regs c malloc (Suc n) found s" and df: "d < 32" "f < 8"
  shows "\<exists>s'. PciAddDevice io malloc junk b (of_nat d) (of_nat f) s = Inr s' \<and> searching regs c malloc n ((b, d, f) # found) s'"
proof -
  obtain p h where p: "malloc sizeof_PciDevice (pci_heap s) = (p, h)" by (cases "malloc sizeof_PciDevice (pci_heap s)")
  have fresh: "fresh_blocks malloc (Suc n) (pci_heap s) (dom (pci_devs s))" using s by (simp add: searching_def)
  have "sizeof_PciDevice \<le> MAX_REQUEST" by (simp add: sizeof_PciDevice_def MAX_REQUEST_def)
  note fp = fresh_blocksD [OF fresh p this]
  obtain as where as: "linked (pci_devs s) pci_next (pci_devices_list s) as"
    "list_all2 (\<lambda>a (b, d, f). \<exists>x. pci_devs s a = Some x \<and> pci_bus x = b \<and> pci_device x = of_nat d \<and> pci_function x = of_nat f) as found"
    using s by (auto simp: searching_def pci_lists_def)
  define y where "y = junk\<lparr>pci_bus := b, pci_device := ucast (of_nat d :: u8), pci_function := ucast (of_nat f :: u8), pci_next := pci_devices_list s\<rparr>"
  let ?io = "PciConfigWrite8 io b (of_nat d) (of_nat f) 0x3C 10 (pci_io s)"
  let ?s = "s\<lparr>pci_io := ?io, pci_heap := h, pci_devs := (pci_devs s)(p \<mapsto> y), pci_devices_list := p\<rparr>"
  have r: "PciAddDevice io malloc junk b (of_nat d) (of_nat f) s = Inr ?s"
    using p fp(1) by (simp add: PciAddDevice_def pci_consts y_def)
  have x: "pci_bus y = b" "pci_device y = of_nat d" "pci_function y = of_nat f" "pci_next y = pci_devices_list s"
    using df by (simp_all add: y_def unsigned_of_nat take_bit_nat_eq_self)
  have "p \<notin> set as" using linked_live [OF as(1)] fp(2) by auto
  then have "linked (pci_devs ?s) pci_next (pci_devices_list ?s) (p # as)" using as(1) fp(1) x(4) by (simp add: linked_upd_other)
  moreover have keep: "pci_devs ?s a = Some z" if "pci_devs s a = Some z" for a z using that fp(2) by auto
  have "list_all2 (\<lambda>a (b, d, f). \<exists>x. pci_devs ?s a = Some x \<and> pci_bus x = b \<and> pci_device x = of_nat d \<and> pci_function x = of_nat f) as found"
    using as(2) by (rule list_all2_mono) (use keep in blast)
  then have "list_all2 (\<lambda>a (b, d, f). \<exists>x. pci_devs ?s a = Some x \<and> pci_bus x = b \<and> pci_device x = of_nat d \<and> pci_function x = of_nat f)
      (p # as) ((b, d, f) # found)"
    using x by simp
  ultimately have "pci_lists ?s ((b, d, f) # found)" unfolding pci_lists_def by blast
  moreover have "regs ?io a = c a" if "a AND 0xFF \<noteq> 0x3C" for a
    using s that PciConfigAddress_offset [of b "of_nat d" "of_nat f" "0x3C"] by (auto simp: searching_def same_registers_def host_write8)
  ultimately show ?thesis using r fp(3) by (auto simp: searching_def same_registers_def)
qed

lemma PciProbeFunction_searching:
  assumes s: "searching regs c malloc (Suc n) found s" and df: "d < 32" "f < 8" and nb: "\<not> is_bridge c b (of_nat d) (of_nat f)"
  shows "\<exists>s'. PciProbeFunction io malloc junk probe b (of_nat d) (of_nat f) s = Inr s' \<and> searching regs c malloc n ((b, d, f) # found) s'"
proof -
  let ?s1 = "after_read io b (of_nat d) (of_nat f) 0x0B s"
  let ?s2 = "after_read io b (of_nat d) (of_nat f) 0x0A ?s1"
  have s1: "searching regs c malloc (Suc n) found ?s1" using s by (rule searching_io)
  have s2: "searching regs c malloc (Suc n) found ?s2" using s1 by (rule searching_io)
  have "PciProbeFunction io malloc junk probe b (of_nat d) (of_nat f) s = PciAddDevice io malloc junk b (of_nat d) (of_nat f) ?s2"
    using nb pci_read_searching(1) [OF s, of "0x0B" b "of_nat d" "of_nat f"] pci_read_searching(1) [OF s1, of "0x0A" b "of_nat d" "of_nat f"]
    by (auto simp: PciProbeFunction_def pci_consts is_bridge_def)
  then show ?thesis using PciAddDevice_searching [OF s2 df] by simp
qed

lemma functions_searching:
  assumes "searching regs c malloc (length fs + n) found s" and "d < 32" and "\<forall>f \<in> set fs. f < 8" and "\<forall>f < 8. \<not> is_bridge c b (of_nat d) (of_nat f)"
  shows "\<exists>s'. rfold (\<lambda>function s.
          let (vendor, s) = pci_read16 io b (of_nat d) (of_nat function) PCI_CONFIG_COMMON_OFFSET_VENDOR_ID s in
          if vendor \<noteq> 0xFFFF then PciProbeFunction io malloc junk probe b (of_nat d) (of_nat function) s else Inr s) fs s = Inr s'
     \<and> searching regs c malloc n (rev (map (\<lambda>f. (b, d, f)) (filter (\<lambda>f. vendor c b (of_nat d) (of_nat f) \<noteq> 0xFFFF) fs)) @ found) s'"
  using assms(1,3)
proof (induction fs arbitrary: s found)
  case (Cons f fs)
  let ?s = "after_read io b (of_nat d) (of_nat f) 0 s"
  have s: "searching regs c malloc (Suc (length fs + n)) found ?s" using searching_io [OF Cons.prems(1)] by simp
  have r: "pci_read16 io b (of_nat d) (of_nat f) 0 s = (vendor c b (of_nat d) (of_nat f), ?s)"
    using pci_read_searching(2) [OF Cons.prems(1), of 0 b "of_nat d" "of_nat f"] by (simp add: vendor_def)
  show ?case
  proof (cases "vendor c b (of_nat d) (of_nat f) = 0xFFFF")
    case True
    have "searching regs c malloc (length fs + n) found ?s" using s by (rule searching_weaken) simp
    from Cons.IH [OF this] Cons.prems(2) True r show ?thesis by (simp add: pci_consts)
  next
    case False
    obtain s' where s': "PciProbeFunction io malloc junk probe b (of_nat d) (of_nat f) ?s = Inr s'"
      "searching regs c malloc (length fs + n) ((b, d, f) # found) s'"
      using PciProbeFunction_searching [OF s assms(2), where f = f and b = b and junk = junk and probe = probe] Cons.prems(2) assms(4) by auto
    from Cons.IH [OF s'(2)] Cons.prems(2) False r s'(1) show ?thesis by (simp add: pci_consts)
  qed
qed simp

lemma PciProbeDevice_searching:
  assumes s: "searching regs c malloc (8 + n) found s" and d: "d < 32" and nb: "\<forall>f < 8. \<not> is_bridge c b (of_nat d) (of_nat f)"
  shows "\<exists>s'. PciProbeDevice io malloc junk probe b (of_nat d) s = Inr s'
     \<and> searching regs c malloc n (rev (map (\<lambda>f. (b, d, f)) (functions_of c b d)) @ found) s'"
proof -
  let ?s = "after_read io b (of_nat d) 0 0 s"
  have s1: "searching regs c malloc (Suc (7 + n)) found ?s" using searching_io [OF s] by simp
  have r: "pci_read16 io b (of_nat d) 0 0 s = (vendor c b (of_nat d) 0, ?s)"
    using pci_read_searching(2) [OF s, of 0 b "of_nat d" 0] by (simp add: vendor_def)
  show ?thesis
  proof (cases "vendor c b (of_nat d) 0 = 0xFFFF")
    case True
    then show ?thesis using r searching_weaken [OF s1, of n] by (simp add: PciProbeDevice_def functions_of_def pci_consts)
  next
    case False
    obtain s2 where s2: "PciProbeFunction io malloc junk probe b (of_nat d) 0 ?s = Inr s2" "searching regs c malloc (7 + n) ((b, d, 0) # found) s2"
      using PciProbeFunction_searching [OF s1 d, where f = 0 and b = b and junk = junk and probe = probe] nb [rule_format, of 0] by auto
    let ?s3 = "after_read io b (of_nat d) 0 0x0E s2"
    have s3: "searching regs c malloc (length [1..<8::nat] + n) ((b, d, 0) # found) ?s3" using searching_io [OF s2(2)] by simp
    have "regs (pci_io s2) (PciConfigAddress b (of_nat d) 0 0x0E) = c (PciConfigAddress b (of_nat d) 0 0x0E)"
      by (rule searching_cfg [OF s2(2)]) simp
    then have h: "PciConfigReadHeaderType io b (of_nat d) 0 (pci_io s2) = (\<lparr>header_type = ucast (fst (PciConfigRead8 io b (of_nat d) 0 0x0E (pci_io s2))), mf = multi c b (of_nat d)\<rparr>, pci_io ?s3)"
      by (simp add: PciConfigReadHeaderType_def host_read8 pci_consts multi_def after_read_def)
    show ?thesis
    proof (cases "multi c b (of_nat d)")
      case m: True
      obtain s4 where "rfold (\<lambda>function s.
          let (vendor, s) = pci_read16 io b (of_nat d) (of_nat function) PCI_CONFIG_COMMON_OFFSET_VENDOR_ID s in
          if vendor \<noteq> 0xFFFF then PciProbeFunction io malloc junk probe b (of_nat d) (of_nat function) s else Inr s) [1..<8] ?s3 = Inr s4"
        "searching regs c malloc n (rev (map (\<lambda>f. (b, d, f)) (filter (\<lambda>f. vendor c b (of_nat d) (of_nat f) \<noteq> 0xFFFF) [1..<8])) @ (b, d, 0) # found) s4"
        using functions_searching [OF s3 d _ nb, where junk = junk and probe = probe] by auto
      then show ?thesis using r s2(1) h False m by (simp add: PciProbeDevice_def functions_of_def pci_consts del: upt_rec_numeral)
    next
      case m: False
      then show ?thesis using r s2(1) h False searching_weaken [OF s3, of n]
        by (simp add: PciProbeDevice_def functions_of_def pci_consts)
    qed
  qed
qed

lemma PciProbeBus_searching:
  assumes "searching regs c malloc (8 * 32 + n) found s" and "\<forall>d < 32. \<forall>f < 8. \<not> is_bridge c b (of_nat d) (of_nat f)"
  shows "\<exists>s'. PciProbeBus (Suc depth) io malloc junk b s = Inr s' \<and> searching regs c malloc n (rev (bus_devices c b) @ found) s'"
proof -
  let ?probe = "PciProbeBus depth io malloc junk"
  have "\<exists>s'. rfold (\<lambda>device s. PciProbeDevice io malloc junk ?probe b (of_nat device) s) l s = Inr s'
      \<and> searching regs c malloc n (rev (concat (map (\<lambda>d. map (\<lambda>f. (b, d, f)) (functions_of c b d)) l)) @ found) s'"
    if "searching regs c malloc (8 * length l + n) found s" "\<forall>d \<in> set l. d < 32" for l found s
    using that
  proof (induction l arbitrary: found s)
    case (Cons d l)
    have "searching regs c malloc (8 + (8 * length l + n)) found s" using Cons.prems(1) by (simp add: add.assoc)
    from PciProbeDevice_searching [OF this, of d b junk ?probe] Cons.prems(2) assms(2)
    obtain s' where s': "PciProbeDevice io malloc junk ?probe b (of_nat d) s = Inr s'"
      "searching regs c malloc (8 * length l + n) (rev (map (\<lambda>f. (b, d, f)) (functions_of c b d)) @ found) s'" by auto
    from Cons.IH [OF s'(2)] Cons.prems(2) s'(1) show ?case by simp
  qed simp
  from this [of "[0..<32]" found s] assms(1) show ?thesis by (simp add: bus_devices_def del: upt_rec_numeral)
qed

lemma PciInit_searches:
  fixes s :: "('d, 'm) pci_state" and t :: "'h idt_state"
  defines "c \<equiv> regs (pci_io s)"
  assumes empty: "pci_devices_list s = 0" and memory: "fresh_blocks malloc (m + 512) (pci_heap s) (dom (pci_devs s))"
    and no_bridge: "\<forall>d < 32. \<forall>f < 8. \<not> is_bridge c 0 (of_nat d) (of_nat f)" and irqs: "length (irq_handlers t) = 16"
    and host: "multi c 0 0 \<longrightarrow> vendor c 0 0 0 \<noteq> 0xFFFF \<and> vendor c 0 0 1 = 0xFFFF"
  shows "\<exists>s'. PciInit (Suc depth) io malloc junk handler (s, t) = Inr (s', t\<lparr>irq_handlers := (irq_handlers t)[10 := Some handler]\<rparr>)
     \<and> searching regs c malloc m (if multi c 0 0 then rev (bus_devices c 0) @ rev (bus_devices c 0) else rev (bus_devices c 0)) s'"
proof -
  let ?s1 = "after_read io 0 0 0 0x0E s"
  have "m + 512 = 8 * 32 + (256 + m)" by simp
  then have "searching regs c malloc (8 * 32 + (256 + m)) [] s"
    using empty memory by (simp only: searching_def pci_lists_def c_def same_registers_def) auto
  then have s1: "searching regs c malloc (8 * 32 + (256 + m)) [] ?s1" by (rule searching_io)
  have h: "PciConfigReadHeaderType io 0 0 0 (pci_io s) = (\<lparr>header_type = ucast (fst (PciConfigRead8 io 0 0 0 0x0E (pci_io s))), mf = multi c 0 0\<rparr>, pci_io ?s1)"
    by (simp add: PciConfigReadHeaderType_def host_read8 pci_consts multi_def c_def after_read_def)
  obtain s2 where s2: "PciProbeBus (Suc depth) io malloc junk 0 ?s1 = Inr s2" "searching regs c malloc (256 + m) (rev (bus_devices c 0)) s2"
    using PciProbeBus_searching [OF s1 no_bridge, of depth junk] by auto
  obtain s3 where s3: "(if multi c 0 0 then pci_host_functions (Suc depth) io malloc junk [0..<8] s2 else Inr s2) = Inr s3"
    "searching regs c malloc m (if multi c 0 0 then rev (bus_devices c 0) @ rev (bus_devices c 0) else rev (bus_devices c 0)) s3"
  proof (cases "multi c 0 0")
    case False
    then show ?thesis using that [of s2] searching_weaken [OF s2(2), of m] by simp
  next
    case True
    let ?s3 = "after_read io 0 0 0 0 s2"
    have s3: "searching regs c malloc (8 * 32 + m) (rev (bus_devices c 0)) ?s3" using searching_io [OF s2(2)] by simp
    have r3: "pci_read16 io 0 0 0 0 s2 = (vendor c 0 0 0, ?s3)"
      using pci_read_searching(2) [OF s2(2), of 0 0 0 0] by (simp add: vendor_def)
    obtain s4 where s4: "PciProbeBus (Suc depth) io malloc junk 0 ?s3 = Inr s4" "searching regs c malloc m (rev (bus_devices c 0) @ rev (bus_devices c 0)) s4"
      using PciProbeBus_searching [OF s3 no_bridge, of depth junk] by auto
    let ?s5 = "after_read io 0 0 1 0 s4"
    have r5: "pci_read16 io 0 0 1 0 s4 = (vendor c 0 0 1, ?s5)"
      using pci_read_searching(2) [OF s4(2), of 0 0 0 1] by (simp add: vendor_def)
    have "pci_host_functions (Suc depth) io malloc junk [0..<8] s2 = Inr ?s5"
      using True host r3 s4(1) r5 by (simp add: pci_consts upt_conv_Cons del: PciProbeBus.simps)
    then show ?thesis using that [of ?s5] True searching_io [OF s4(2)] by simp
  qed
  have "X86RegisterIrqHandler (IRQ PCI_IRQ) handler t = Inr (t\<lparr>irq_handlers := (irq_handlers t)[10 := Some handler]\<rparr>)"
    using irqs by (simp add: X86RegisterIrqHandler_def IRQ_def pci_consts)
  then show ?thesis using h s2(1) s3 by (simp add: PciInit_def del: PciProbeBus.simps)
qed

end

interpretation pci_registers: pci_host pci_ports cfg
  by unfold_locales (simp_all add: PciConfigRead32_ports PciConfigWrite32_ports)

text \<open>
  C39: on a bus 0 without bridges to other buses, given memory for its devices, \<open>PciInit\<close> registers the
  handler of IRQ 10 and lists the functions of the bus, each once and the last one first: function 0 of every
  device that is present, and the other functions present on devices with more than one. When the host
  bridge itself has the multi-function bit and only function 0, the bus is searched twice and every
  device is in the list twice.
\<close>

theorem PciInit_lists_devices:
  fixes s :: "(pci_space, 'm) pci_state" and t :: "'h idt_state"
  defines "c \<equiv> cfg (pci_io s)"
  assumes empty: "pci_devices_list s = 0" and memory: "fresh_blocks malloc 512 (pci_heap s) (dom (pci_devs s))"
    and no_bridge: "\<forall>d < 32. \<forall>f < 8. \<not> is_bridge c 0 (of_nat d) (of_nat f)" and irqs: "length (irq_handlers t) = 16"
    and host: "multi c 0 0 \<longrightarrow> vendor c 0 0 0 \<noteq> 0xFFFF \<and> vendor c 0 0 1 = 0xFFFF"
  shows "\<exists>s' t'. PciInit (Suc depth) pci_ports malloc junk handler (s, t) = Inr (s', t')
     \<and> irq_handlers t' = (irq_handlers t)[10 := Some handler]
     \<and> pci_lists s' (if multi c 0 0 then rev (bus_devices c 0) @ rev (bus_devices c 0) else rev (bus_devices c 0))"
  using pci_registers.PciInit_searches [of s malloc 0 t depth junk handler] assms by (auto simp: searching_def)

text \<open>A machine with a host bridge of one function and nothing else on the bus.\<close>

definition demo_cfg :: "u32 \<Rightarrow> u32" where
  "demo_cfg a = (if a = PciConfigAddress 0 0 0 0 then 0x12378086 else if a = PciConfigAddress 0 0 0 0x0E then 0 else 0xFFFFFFFF)"

definition demo_pci :: "(pci_space, u32) pci_state" where
  "demo_pci = \<lparr>pci_devices_list = 0, pci_devs = Map.empty, pci_heap = 0x1000, pci_io = \<lparr>cfg_addr = 0, cfg = demo_cfg\<rparr>\<rparr>"

definition demo_pci_junk :: PciDevice where
  "demo_pci_junk = \<lparr>pci_bus = 0, pci_device = 0, pci_function = 0, pci_data = 0, pci_next = 0\<rparr>"

theorem PciInit_lists_devices_witness:
  "\<exists>s' t'. PciInit 1 pci_ports bump demo_pci_junk 7 (demo_pci, boot_idt) = Inr (s', t')
     \<and> irq_handlers t' = (irq_handlers boot_idt)[10 := Some 7] \<and> pci_lists s' (rev (bus_devices demo_cfg 0))"
proof -
  have low: "PciConfigAddress b d f x \<noteq> PciConfigAddress b' d' f' y" if "x AND 0xFC \<noteq> y AND 0xFC" for b d f x b' d' f' y
    using that PciConfigAddress_offset ucast_u8_u32_eq by metis
  have c: "cfg (pci_io demo_pci) = demo_cfg" by (simp add: demo_pci_def)
  have "demo_cfg (PciConfigAddress 0 d f 0x0B) = 0xFFFFFFFF" for d f
    using low [of "0x0B" 0 0 d f 0 0 0] low [of "0x0B" "0x0E" 0 d f 0 0 0] by (simp add: demo_cfg_def)
  then have nb: "\<not> is_bridge demo_cfg 0 d f" for d f by (simp add: is_bridge_def drop_bit_eq_div)
  have m: "\<not> multi demo_cfg 0 0" using low [of "0x0E" 0 0 0 0 0 0 0] by (simp add: multi_def demo_cfg_def)
  have f: "fresh_blocks bump 512 0x1000 {}" by (rule fresh_blocks_bump) simp_all
  show ?thesis
    using PciInit_lists_devices [of demo_pci bump boot_idt 0 demo_pci_junk 7] nb m f
    by (simp add: c) (simp add: demo_pci_def boot_idt_def)
qed

end
