(* ===== verification/Uart.thy ===== *)
theory Uart
  imports Port_Io
begin

text \<open>
  The serial port, \<open>io/uart.c\<close>. The register unions are their bytes; assigning a field replaces its
  bits. Waiting loops are bounded by \<open>fuel\<close>, see \<open>Port_Io\<close>.
\<close>

section \<open>Model\<close>

definition BASE_FREQ :: int where "BASE_FREQ = 115200"
definition COM_PORT :: "u16 \<Rightarrow> u16" where "COM_PORT n = 0x3F8 + n"
definition COM_DATA :: u16 where "COM_DATA = COM_PORT 0"
definition INT_ENABLE :: u16 where "INT_ENABLE = COM_PORT 1"
definition FREQ_DIV :: u16 where "FREQ_DIV = COM_PORT 0"
definition INT_IDENT_AND_FIFO_CTRL :: u16 where "INT_IDENT_AND_FIFO_CTRL = COM_PORT 2"
definition LINE_CONTROL :: u16 where "LINE_CONTROL = COM_PORT 3"
definition LINE_STATUS :: u16 where "LINE_STATUS = COM_PORT 5"

lemmas uart_consts = COM_PORT_def COM_DATA_def INT_ENABLE_def FREQ_DIV_def INT_IDENT_AND_FIFO_CTRL_def
  LINE_CONTROL_def LINE_STATUS_def BASE_FREQ_def

text \<open>\<open>LineControlReg\<close> and \<open>IntEnableReg\<close> from their fields, the first field in the low bits.\<close>

definition LineControlReg :: "2 word \<Rightarrow> bool \<Rightarrow> 3 word \<Rightarrow> 1 word \<Rightarrow> bool \<Rightarrow> u8" where
  "LineControlReg data_bits more_stop_bits parity unused dlab =
     ucast data_bits OR push_bit 2 (of_bool more_stop_bits) OR push_bit 3 (ucast parity) OR push_bit 6 (ucast unused) OR push_bit 7 (of_bool dlab)"

definition IntEnableReg :: "bool \<Rightarrow> bool \<Rightarrow> bool \<Rightarrow> bool \<Rightarrow> bool \<Rightarrow> bool \<Rightarrow> 2 word \<Rightarrow> u8" where
  "IntEnableReg data_avail tx_empty rx_status_change modem_status_change sleep_mode low_power_mode unused =
     of_bool data_avail OR push_bit 1 (of_bool tx_empty) OR push_bit 2 (of_bool rx_status_change) OR push_bit 3 (of_bool modem_status_change)
     OR push_bit 4 (of_bool sleep_mode) OR push_bit 5 (of_bool low_power_mode) OR push_bit 6 (ucast unused)"

definition SetDivisor :: "'d port_ops \<Rightarrow> int \<Rightarrow> 'd \<Rightarrow> 'd res" where
  "SetDivisor io freq d =
     (if freq = 0 then Inl Div_By_Zero
      else
        let divisor = word_of_int (sgn freq * (BASE_FREQ div \<bar>freq\<bar>)) :: u16;
            (lcr, d) = port_in8 io LINE_CONTROL d;
            lcr = set_bit 7 lcr;
            d = port_out8 io LINE_CONTROL lcr d;
            d = port_out16 io FREQ_DIV divisor d;
            lcr = unset_bit 7 lcr in
        Inr (port_out8 io LINE_CONTROL lcr d))"

text \<open>The fields \<open>sleep_mode\<close> and \<open>low_power_mode\<close> are not set: they keep the bits \<open>sm\<close> and \<open>lp\<close> of the stack.\<close>

definition UartInit :: "bool \<Rightarrow> bool \<Rightarrow> 'd port_ops \<Rightarrow> int \<Rightarrow> 'd \<Rightarrow> 'd res" where
  "UartInit sm lp io freq d =
     rbind (SetDivisor io freq d) (\<lambda>d.
     let d = port_out8 io LINE_CONTROL (LineControlReg (8 - 5) False 0x00 0x00 False) d;
         d = port_out8 io INT_IDENT_AND_FIFO_CTRL 0xC7 d in
     Inr (port_out8 io INT_ENABLE (IntEnableReg True True False True sm lp 0) d))"

definition UartRead :: "nat \<Rightarrow> 'd port_ops \<Rightarrow> 'd \<Rightarrow> (u8 \<times> 'd) res" where
  "UartRead fuel io d = rbind (poll fuel io LINE_STATUS (\<lambda>lsr. bit lsr 0) d) (\<lambda>(_, d). Inr (port_in8 io COM_DATA d))"

definition UartSend :: "nat \<Rightarrow> 'd port_ops \<Rightarrow> u8 \<Rightarrow> 'd \<Rightarrow> 'd res" where
  "UartSend fuel io c d = rbind (poll fuel io LINE_STATUS (\<lambda>lsr. bit lsr 5) d) (\<lambda>(_, d). Inr (port_out8 io COM_DATA c d))"

section \<open>A 16550\<close>

text \<open>
  The registers behind the ports: the divisor is at the first two ports while bit 7 of the line
  control register is set. \<open>rx\<close> are the characters that arrive, \<open>tx\<close> those sent; the transmitter is
  always ready.
\<close>

record uart =
  lcr_reg :: u8
  divisor_reg :: u16
  fcr_reg :: u8
  ier_reg :: u8
  rx :: "u8 list"
  tx :: "u8 list"

definition uart_ports :: "uart port_ops" where
  "uart_ports = \<lparr>
     port_in8 = (\<lambda>p u. if p = 0x3F8 \<and> \<not> bit (lcr_reg u) 7 then (case rx u of [] \<Rightarrow> (0, u) | c # cs \<Rightarrow> (c, u\<lparr>rx := cs\<rparr>))
       else if p = 0x3FB then (lcr_reg u, u) else if p = 0x3FD then (if rx u = [] then 0x20 else 0x21, u) else (0xFF, u)),
     port_in16 = (\<lambda>p u. (0xFFFF, u)), port_in32 = (\<lambda>p u. (0xFFFFFFFF, u)),
     port_out8 = (\<lambda>p v u. if p = 0x3F8 then (if bit (lcr_reg u) 7 then u\<lparr>divisor_reg := (divisor_reg u AND 0xFF00) OR ucast v\<rparr> else u\<lparr>tx := tx u @ [v]\<rparr>)
       else if p = 0x3F9 then (if bit (lcr_reg u) 7 then u\<lparr>divisor_reg := (divisor_reg u AND 0x00FF) OR push_bit 8 (ucast v)\<rparr> else u\<lparr>ier_reg := v\<rparr>)
       else if p = 0x3FA then u\<lparr>fcr_reg := v\<rparr> else if p = 0x3FB then u\<lparr>lcr_reg := v\<rparr> else u),
     port_out16 = (\<lambda>p v u. if p = 0x3F8 \<and> bit (lcr_reg u) 7 then u\<lparr>divisor_reg := v\<rparr> else u),
     port_out32 = (\<lambda>p v u. u)\<rparr>"

lemma UartSend_uart: "0 < fuel \<Longrightarrow> \<not> bit (lcr_reg u) 7 \<Longrightarrow> UartSend fuel uart_ports c u = Inr (u\<lparr>tx := tx u @ [c]\<rparr>)"
  by (cases fuel) (simp_all add: UartSend_def uart_ports_def uart_consts bit_numeral_rec)

lemma UartRead_uart:
  assumes "0 < fuel" and "\<not> bit (lcr_reg u) 7"
  shows "rx u = c # cs \<Longrightarrow> UartRead fuel uart_ports u = Inr (c, u\<lparr>rx := cs\<rparr>)"
    and "rx u = [] \<Longrightarrow> UartRead fuel uart_ports u = Inl Diverges"
proof -
  show "UartRead fuel uart_ports u = Inr (c, u\<lparr>rx := cs\<rparr>)" if "rx u = c # cs"
    using assms that by (cases fuel) (simp_all add: UartRead_def uart_ports_def uart_consts)
  assume "rx u = []"
  then have "poll fuel uart_ports 0x3FD (\<lambda>lsr. bit lsr 0) u = Inl Diverges"
    by (induction fuel) (simp_all add: uart_ports_def)
  then show "UartRead fuel uart_ports u = Inl Diverges" by (simp add: UartRead_def uart_consts)
qed

text \<open>
  \<open>UartInit\<close> sets the divisor to 115200 divided by the rate and the line to 8 data bits, no parity
  and one stop bit with the divisor access closed again, and touches no character; a rate of 0 divides
  by zero.
\<close>

theorem UartInit_programs:
  "(0 < freq \<longrightarrow> (\<exists>u'. UartInit sm lp uart_ports freq u = Inr u' \<and> uint (divisor_reg u') = (115200 div freq) mod 2 ^ 16
      \<and> lcr_reg u' = 0x03 \<and> fcr_reg u' = 0xC7 \<and> ier_reg u' AND 0x0F = 0x0B \<and> rx u' = rx u \<and> tx u' = tx u))
   \<and> UartInit sm lp uart_ports 0 u = Inl Div_By_Zero"
proof (intro conjI impI)
  let ?u = "u\<lparr>divisor_reg := word_of_int (115200 div freq), lcr_reg := 0x03, fcr_reg := 0xC7, ier_reg := IntEnableReg True True False True sm lp 0\<rparr>"
  assume "0 < freq"
  have lcr: "LineControlReg 3 False 0x00 0x00 False = 0x03" by (simp add: LineControlReg_def)
  have b: "bit (set_bit 7 x) 7" "\<not> bit (unset_bit 7 x) 7" for x :: u8 by (simp_all add: bit_simps)
  have "UartInit sm lp uart_ports freq u = Inr ?u"
    using \<open>0 < freq\<close> b by (simp add: UartInit_def SetDivisor_def lcr uart_ports_def uart_consts Let_def sgn_if bit_numeral_rec)
  moreover have "IntEnableReg True True False True sm lp 0 AND 0x0F = 0x0B"
    by (cases sm; cases lp) (simp_all add: IntEnableReg_def)
  moreover have "uint (word_of_int (115200 div freq) :: u16) = (115200 div freq) mod 2 ^ 16" by (simp add: uint_word_of_int)
  ultimately show "\<exists>u'. UartInit sm lp uart_ports freq u = Inr u' \<and> uint (divisor_reg u') = (115200 div freq) mod 2 ^ 16
      \<and> lcr_reg u' = 0x03 \<and> fcr_reg u' = 0xC7 \<and> ier_reg u' AND 0x0F = 0x0B \<and> rx u' = rx u \<and> tx u' = tx u"
    by (intro exI [of _ ?u]) simp
qed (simp add: UartInit_def SetDivisor_def)

definition demo_uart :: uart where
  "demo_uart = \<lparr>lcr_reg = 0, divisor_reg = 1, fcr_reg = 0, ier_reg = 0, rx = [], tx = []\<rparr>"

theorem UartInit_programs_witness:
  "\<exists>u'. UartInit True False uart_ports 9600 demo_uart = Inr u' \<and> uint (divisor_reg u') = 12 \<and> lcr_reg u' = 0x03"
  using UartInit_programs [of 9600 True False demo_uart] by auto

end
