(* ===== verification/Gdb_Stub.thy ===== *)
theory Gdb_Stub
  imports Uart Stdlib_Stdio Idt_X86
begin

text \<open>
  The debugger stub, \<open>debug/gdb_stub.c\<close>, as built with \<open>DEBUG\<close> and \<open>UART_DEBUGGING\<close>: packets over the
  serial port and the handler of the breakpoint exception.

  Loops that wait for input are bounded by \<open>fuel\<close>. \<open>alpha\<close> is the address of the string \<open>alphabet\<close>, which
  matters when \<open>strchr\<close> returns \<open>NULL\<close>; \<open>junk\<close> gives the values of variables that are not initialised.
\<close>

section \<open>Packets\<close>

definition GDB_PACKET_BUF_SIZE :: u32 where "GDB_PACKET_BUF_SIZE = 400"
definition GDB_MAX_SEND_ATTEMPTS :: nat where "GDB_MAX_SEND_ATTEMPTS = 3"

definition alphabet :: buf where "alphabet = lit ''0123456789abcdef''"

definition ReadDebugChar :: "nat \<Rightarrow> 'd port_ops \<Rightarrow> 'd \<Rightarrow> (u8 \<times> 'd) res" where
  "ReadDebugChar fuel io d = UartRead fuel io d"

definition SendDebugChar :: "nat \<Rightarrow> 'd port_ops \<Rightarrow> u8 \<Rightarrow> 'd \<Rightarrow> 'd res" where
  "SendDebugChar fuel io c d = UartSend fuel io c d"

primrec wait_dollar :: "nat \<Rightarrow> nat \<Rightarrow> 'd port_ops \<Rightarrow> 'd \<Rightarrow> 'd res" where
  "wait_dollar 0 fuel io d = Inl Diverges"
| "wait_dollar (Suc n) fuel io d =
     rbind (ReadDebugChar fuel io d) (\<lambda>(c, d). if c = ch CHR ''$'' then Inr d else wait_dollar n fuel io d)"

text \<open>The loop over the characters up to \<open>#\<close>; it ends at \<open>size - 1\<close> characters at the latest. \<open>None\<close> is the early \<open>NULL\<close>.\<close>

primrec packet_chars ::
  "nat \<Rightarrow> nat \<Rightarrow> 'd port_ops \<Rightarrow> u32 \<Rightarrow> nat \<Rightarrow> u8 \<Rightarrow> buf \<Rightarrow> 'd \<Rightarrow> ((nat \<times> u8) option \<times> buf \<times> 'd) res" where
  "packet_chars 0 fuel io sz i checksum b d = Inl Diverges"
| "packet_chars (Suc n) fuel io sz i checksum b d =
     rbind (ReadDebugChar fuel io d) (\<lambda>(c, d).
     if c = ch CHR ''#'' then Inr (Some (i, checksum), b, d)
     else if of_nat i = sz - 1 then rbind (SendDebugChar fuel io (ch CHR ''-'') d) (\<lambda>d. Inr (None, b, d))
     else
       rbind (if c = ch CHR ''}'' then ReadDebugChar fuel io d else Inr (c, d)) (\<lambda>(c, d).
       rbind (store b i c) (\<lambda>b.
         packet_chars n fuel io sz (i + 1) (checksum + c) b d)))"

text \<open>\<open>(size_t)(strchr(alphabet, c) - alphabet)\<close> as a byte.\<close>

definition nibble :: "u32 \<Rightarrow> u8 \<Rightarrow> u8 res" where
  "nibble alpha c = rbind (strchr alphabet (sint c)) (\<lambda>r.
     Inr (case r of None \<Rightarrow> ucast (0 - alpha) | Some k \<Rightarrow> of_nat k))"

definition ReadPacket ::
  "nat \<Rightarrow> u32 \<Rightarrow> 'd port_ops \<Rightarrow> buf \<Rightarrow> u32 \<Rightarrow> 'd \<Rightarrow> (bool \<times> buf \<times> 'd) res" where
  "ReadPacket fuel alpha io b sz d =
     rbind (wait_dollar fuel fuel io d) (\<lambda>d.
     rbind (packet_chars fuel fuel io sz 0 0 b d) (\<lambda>(r, b, d).
     case r of None \<Rightarrow> Inr (False, b, d)
     | Some (i, checksum) \<Rightarrow>
         rbind (store b i 0) (\<lambda>b.
         rbind (ReadDebugChar fuel io d) (\<lambda>(c, d).
         rbind (nibble alpha c) (\<lambda>nibble_1.
         rbind (ReadDebugChar fuel io d) (\<lambda>(c, d).
         rbind (nibble alpha c) (\<lambda>nibble_2.
         if unat nibble_1 * 16 + unat nibble_2 = unat checksum then
           rbind (SendDebugChar fuel io (ch CHR ''+'') d) (\<lambda>d. Inr (True, b, d))
         else
           rbind (SendDebugChar fuel io (ch CHR ''-'') d) (\<lambda>d. Inr (False, b, d)))))))))"

text \<open>The loop over the characters to send; it ends with the fault of reading past the buffer or at the terminator.\<close>

function send_chars :: "nat \<Rightarrow> 'd port_ops \<Rightarrow> buf \<Rightarrow> nat \<Rightarrow> u8 \<Rightarrow> 'd \<Rightarrow> (u8 \<times> 'd) res" where
  "send_chars fuel io s i checksum d =
     rbind (load s i) (\<lambda>c.
     if c = 0 then Inr (checksum, d)
     else
       rbind (if c \<in> {ch CHR ''#'', ch CHR ''$'', ch CHR ''}'', ch CHR ''*''} then SendDebugChar fuel io (ch CHR ''}'') d else Inr d) (\<lambda>d.
       rbind (SendDebugChar fuel io c d) (\<lambda>d.
         send_chars fuel io s (i + 1) (checksum + c) d)))"
  by pat_completeness auto
termination
  by (relation "measure (\<lambda>(fuel, io, s, i, checksum, d). length s - i)") (auto simp: load_Inr_iff)

declare send_chars.simps [simp del]

text \<open>One attempt; \<open>checksum\<close> starts with what its variable held.\<close>

definition send_attempt :: "nat \<Rightarrow> 'd port_ops \<Rightarrow> u8 \<Rightarrow> buf \<Rightarrow> 'd \<Rightarrow> (bool \<times> 'd) res" where
  "send_attempt fuel io checksum s d =
     rbind (SendDebugChar fuel io (ch CHR ''$'') d) (\<lambda>d.
     rbind (send_chars fuel io s 0 checksum d) (\<lambda>(checksum, d).
     rbind (SendDebugChar fuel io (ch CHR ''#'') d) (\<lambda>d.
     rbind (load alphabet (unat (checksum div 16))) (\<lambda>nibble_1.
     rbind (load alphabet (unat (checksum mod 16))) (\<lambda>nibble_2.
     rbind (SendDebugChar fuel io nibble_1 d) (\<lambda>d.
     rbind (SendDebugChar fuel io nibble_2 d) (\<lambda>d.
     rbind (ReadDebugChar fuel io d) (\<lambda>(c, d).
       Inr (c = ch CHR ''+'', d)))))))))"

primrec send_attempts :: "nat \<Rightarrow> nat \<Rightarrow> 'd port_ops \<Rightarrow> (nat \<Rightarrow> u8) \<Rightarrow> buf \<Rightarrow> 'd \<Rightarrow> 'd res" where
  "send_attempts 0 fuel io junk s d = Inr d"
| "send_attempts (Suc n) fuel io junk s d =
     rbind (send_attempt fuel io (junk 0) s d) (\<lambda>(ok, d). if ok then Inr d else send_attempts n fuel io (\<lambda>k. junk (Suc k)) s d)"

definition SendPacket :: "nat \<Rightarrow> 'd port_ops \<Rightarrow> (nat \<Rightarrow> u8) \<Rightarrow> buf \<Rightarrow> 'd \<Rightarrow> 'd res" where
  "SendPacket fuel io junk s d = send_attempts GDB_MAX_SEND_ATTEMPTS fuel io junk s d"

section \<open>The breakpoint handler\<close>

primrec read_packets :: "nat \<Rightarrow> nat \<Rightarrow> u32 \<Rightarrow> 'd port_ops \<Rightarrow> buf \<Rightarrow> 'd \<Rightarrow> (buf \<times> 'd) res" where
  "read_packets 0 fuel alpha io b d = Inl Diverges"
| "read_packets (Suc n) fuel alpha io b d =
     rbind (ReadPacket fuel alpha io b GDB_PACKET_BUF_SIZE d) (\<lambda>(ok, b, d).
       if ok then Inr (b, d) else read_packets n fuel alpha io b d)"

record 'd gdb_state =
  read_buf :: buf
  send_buf :: buf
  gdb_dev :: 'd
  gdb_term :: vga

text \<open>
  One pass of the endless loop of \<open>Breakpoint\<close>; \<open>pjunk\<close> is the uninitialised buffer of the number
  conversions of \<open>printf\<close> and \<open>sprintf\<close>.
\<close>

definition Breakpoint_pass ::
  "nat \<Rightarrow> u32 \<Rightarrow> 'd port_ops \<Rightarrow> (nat \<Rightarrow> u8) \<Rightarrow> buf \<Rightarrow> X86CpuState \<Rightarrow> 'd gdb_state \<Rightarrow> 'd gdb_state res" where
  "Breakpoint_pass fuel alpha io junk pjunk state s =
     rbind (read_packets fuel fuel alpha io (read_buf s) (gdb_dev s)) (\<lambda>(rb, d).
     rbind (printf pjunk (lit ''GDB: \"%s\"\<newline>'') [Arg_Str rb] (gdb_term s)) (\<lambda>(t, _).
     rbind (load rb 0) (\<lambda>cmd.
     rbind (if cmd = ch CHR ''g'' then
              rbind (sprintf pjunk (send_buf s) (lit ''%08x%08x%08x%08x%08x%08x%08x0000%04x0000%04x0000%04x0000%04x'')
                [Arg_Int (eax state), Arg_Int (ecx state), Arg_Int (edx state), Arg_Int (ebx state),
                 Arg_Int (ebp state), Arg_Int (esi state), Arg_Int (edi state),
                 Arg_Int (ds state), Arg_Int (ds state), Arg_Int (ds state), Arg_Int (ds state)]) (\<lambda>(sb, _). Inr sb)
            else Inr (send_buf s)) (\<lambda>sb.
     rbind (SendPacket fuel io junk sb d) (\<lambda>d.
     rbind (printf pjunk (lit ''GDB stub: \"%s\"\<newline>'') [Arg_Str sb] t) (\<lambda>(t, _).
       Inr (s\<lparr>read_buf := rb, send_buf := sb, gdb_dev := d, gdb_term := t\<rparr>)))))))"

definition GdbStubInit :: "'h \<Rightarrow> 'h idt_state \<Rightarrow> 'h idt_state res" where
  "GdbStubInit breakpoint t = X86RegisterIsrHandler 3 breakpoint t"

end
