(* ===== verification/Gdb_Packets.thy ===== *)
theory Gdb_Packets
  imports Gdb_Stub
begin

text \<open>
  The packets of the debugger stub over a serial line: what \<open>SendPacket\<close> puts on the line, and what
  \<open>ReadPacket\<close> makes of it.
\<close>

section \<open>Reference framing\<close>

definition escape :: "u8 list \<Rightarrow> u8 list" where
  "escape bytes = concat (map (\<lambda>c. if c \<in> {ch CHR ''#'', ch CHR ''$'', ch CHR ''}'', ch CHR ''*''} then [ch CHR ''}'', c] else [c]) bytes)"

definition hex2 :: "u8 \<Rightarrow> u8 list" where
  "hex2 x = [alphabet ! (unat x div 16), alphabet ! (unat x mod 16)]"

text \<open>A packet whose checksum is \<open>j\<close> more than the sum of its characters.\<close>

definition packet :: "u8 \<Rightarrow> u8 list \<Rightarrow> u8 list" where
  "packet j bytes = ch CHR ''$'' # escape bytes @ ch CHR ''#'' # hex2 (j + sum_list bytes)"

lemma alphabet_length [simp]: "length alphabet = 17"
  by (simp add: alphabet_def lit_def)

lemma nibble_alphabet:
  assumes "k < 16"
  shows "nibble alpha (alphabet ! k) = Inr (of_nat k)"
proof -
  have t: "terminated alphabet" and c: "chars alphabet = take 16 alphabet"
    by (simp_all add: terminated_def chars_def alphabet_def lit_def)
  have d: "distinct alphabet" by (simp add: alphabet_def lit_def)
  have at: "char_at alphabet (sint (alphabet ! k)) j \<longleftrightarrow> j = k" for j
    using assms d by (auto simp: char_at_def c sint_eq_iff nth_eq_iff_index_eq)
  obtain r where "strchr alphabet (sint (alphabet ! k)) = Inr r"
    and "case r of None \<Rightarrow> \<forall>j. \<not> char_at alphabet (sint (alphabet ! k)) j
       | Some m \<Rightarrow> char_at alphabet (sint (alphabet ! k)) m \<and> (\<forall>j < m. \<not> char_at alphabet (sint (alphabet ! k)) j)"
    using strchr_spec [OF t] by blast
  then show ?thesis by (auto simp: at nibble_def split: option.splits)
qed

lemma hex2_value: "unat (of_nat (unat x div 16) :: u8) * 16 + unat (of_nat (unat x mod 16) :: u8) = unat (x :: u8)"
proof -
  have "unat x < 256" by (rule unat_u8_less)
  then show ?thesis by (simp add: unat_of_nat_less)
qed

lemma terminated_decomp:
  assumes "terminated s"
  shows "\<exists>rest. s = chars s @ 0 # rest \<and> 0 \<notin> set (chars s)"
proof -
  obtain xs ys where "s = xs @ 0 # ys" "0 \<notin> set xs" using assms split_list_first [of 0 s] by (auto simp: terminated_def)
  then show ?thesis using chars_append_0 [of xs ys] by fastforce
qed

section \<open>Sending\<close>

lemma SendDebugChar_uart [simp]:
  "0 < fuel \<Longrightarrow> \<not> bit (lcr_reg u) 7 \<Longrightarrow> SendDebugChar fuel uart_ports c u = Inr (u\<lparr>tx := tx u @ [c]\<rparr>)"
  by (simp add: SendDebugChar_def UartSend_uart)

lemma ReadDebugChar_uart [simp]:
  "0 < fuel \<Longrightarrow> \<not> bit (lcr_reg u) 7 \<Longrightarrow> rx u = c # rest \<Longrightarrow> ReadDebugChar fuel uart_ports u = Inr (c, u\<lparr>rx := rest\<rparr>)"
  by (simp add: ReadDebugChar_def UartRead_uart)

lemma send_chars_uart:
  assumes "0 < fuel" and "\<not> bit (lcr_reg u) 7" and "drop i s = bytes @ 0 # rest" and "0 \<notin> set bytes"
  shows "send_chars fuel uart_ports s i j u = Inr (j + sum_list bytes, u\<lparr>tx := tx u @ escape bytes\<rparr>)"
  using assms(2-)
proof (induction bytes arbitrary: i j u)
  case Nil
  then show ?case using drop_eq_ConsD [of i s 0 rest] by (subst send_chars.simps) (simp add: escape_def)
next
  case (Cons c bytes)
  let ?e = "if c \<in> {ch CHR ''#'', ch CHR ''$'', ch CHR ''}'', ch CHR ''*''} then [ch CHR ''}'', c] else [c]"
  have d: "i < length s" "s ! i = c" "drop (i + 1) s = bytes @ 0 # rest"
    using drop_eq_ConsD [of i s c "bytes @ 0 # rest"] Cons.prems(2) by simp_all
  have "c \<noteq> 0" using Cons.prems(3) by auto
  then have "send_chars fuel uart_ports s i j u = send_chars fuel uart_ports s (i + 1) (j + c) (u\<lparr>tx := tx u @ ?e\<rparr>)"
    using assms(1) Cons.prems(1) d(1,2) by (subst send_chars.simps) simp
  also have "\<dots> = Inr (j + c + sum_list bytes, u\<lparr>tx := (tx u @ ?e) @ escape bytes\<rparr>)"
    using Cons.IH [of "u\<lparr>tx := tx u @ ?e\<rparr>" "i + 1" "j + c"] Cons.prems d(3) by simp
  finally show ?case by (simp add: escape_def add.assoc)
qed

lemma send_attempt_uart:
  assumes "0 < fuel" and "\<not> bit (lcr_reg u) 7" and "terminated s" and "rx u = a # r"
  shows "send_attempt fuel uart_ports j s u = Inr (a = ch CHR ''+'', u\<lparr>rx := r, tx := tx u @ packet j (chars s)\<rparr>)"
proof -
  obtain rest where s: "drop 0 s = chars s @ 0 # rest" "0 \<notin> set (chars s)"
    using terminated_decomp [OF assms(3)] by auto
  let ?x = "j + sum_list (chars s)"
  have x: "unat (?x div 16) = unat ?x div 16" "unat (?x mod 16) = unat ?x mod 16" by (simp_all add: unat_div unat_mod)
  have "unat ?x div 16 < 16" using unat_u8_less [of ?x] by simp
  then have l: "load alphabet (unat (?x div 16)) = Inr (hex2 ?x ! 0)" "load alphabet (unat (?x mod 16)) = Inr (hex2 ?x ! 1)"
    by (simp_all add: x hex2_def)
  have p: "packet j (chars s) = [ch CHR ''$''] @ escape (chars s) @ [ch CHR ''#''] @ [hex2 ?x ! 0] @ [hex2 ?x ! 1]"
    by (simp add: packet_def hex2_def)
  have c: "send_chars fuel uart_ports s 0 j (u\<lparr>tx := tx u @ [ch CHR ''$'']\<rparr>) = Inr (?x, u\<lparr>tx := (tx u @ [ch CHR ''$'']) @ escape (chars s)\<rparr>)"
    using send_chars_uart [OF assms(1) _ s, of "u\<lparr>tx := tx u @ [ch CHR ''$'']\<rparr>" j] assms(2) by simp
  show ?thesis
    unfolding send_attempt_def p SendDebugChar_uart [OF assms(1,2)] rbind_simps c prod.case l
    using assms(1,2,4) by simp
qed

lemma send_attempts_uart:
  assumes "0 < fuel" and "terminated s" and "ch CHR ''+'' \<notin> set ns"
  shows "\<not> bit (lcr_reg u) 7 \<Longrightarrow> rx u = ns @ r \<Longrightarrow>
      send_attempts (length ns + n) fuel uart_ports junk s u =
        send_attempts n fuel uart_ports (\<lambda>k. junk (length ns + k)) s
          (u\<lparr>rx := r, tx := tx u @ concat (map (\<lambda>k. packet (junk k) (chars s)) [0..<length ns])\<rparr>)"
  using assms(3)
proof (induction ns arbitrary: u junk)
  case Nil
  then have "u\<lparr>rx := r\<rparr> = u" by auto
  then show ?case by simp
next
  case (Cons a ns)
  let ?u = "u\<lparr>rx := ns @ r, tx := tx u @ packet (junk 0) (chars s)\<rparr>"
  have "send_attempt fuel uart_ports (junk 0) s u = Inr (False, ?u)"
    using send_attempt_uart [OF assms(1) Cons.prems(1) assms(2), of a "ns @ r" "junk 0"] Cons.prems(2,3) by auto
  moreover have "concat (map (\<lambda>k. packet (junk k) (chars s)) [0..<length (a # ns)]) =
      packet (junk 0) (chars s) @ concat (map (\<lambda>k. packet (junk (Suc k)) (chars s)) [0..<length ns])"
    by (simp only: length_Cons upt_conv_Cons [of 0 "Suc _"] map_Suc_upt [symmetric] zero_less_Suc)
      (simp only: list.map map_map concat.simps comp_def)
  ultimately show ?case using Cons.IH [of ?u "\<lambda>k. junk (Suc k)"] Cons.prems by simp
qed

section \<open>Receiving\<close>

lemma wait_dollar_uart:
  assumes "0 < fuel" and "ch CHR ''$'' \<notin> set noise"
  shows "\<not> bit (lcr_reg u) 7 \<Longrightarrow> rx u = noise @ ch CHR ''$'' # r \<Longrightarrow> length noise < n \<Longrightarrow>
      wait_dollar n fuel uart_ports u = Inr (u\<lparr>rx := r\<rparr>)"
  using assms(2)
proof (induction noise arbitrary: n u)
  case Nil
  then show ?case using assms(1) by (cases n) simp_all
next
  case (Cons c noise)
  then show ?case using assms(1) Cons.IH [of "u\<lparr>rx := noise @ ch CHR ''$'' # r\<rparr>" "n - 1"] by (cases n) auto
qed

lemma packet_chars_uart:
  assumes "0 < fuel" and "unat sz = length b" and "i + length bytes < length b"
  shows "\<not> bit (lcr_reg u) 7 \<Longrightarrow> rx u = escape bytes @ ch CHR ''#'' # r \<Longrightarrow> length bytes < n \<Longrightarrow>
      packet_chars n fuel uart_ports sz i j b u =
        Inr (Some (i + length bytes, j + sum_list bytes), take i b @ bytes @ drop (i + length bytes) b, u\<lparr>rx := r\<rparr>)"
  using assms(2-)
proof (induction bytes arbitrary: n i j b u)
  case Nil
  then show ?case using assms(1) by (cases n) (simp_all add: escape_def)
next
  case (Cons c bytes)
  obtain m where n: "n = Suc m" "length bytes < m" using Cons.prems(3) by (cases n) auto
  let ?esc = "c \<in> {ch CHR ''#'', ch CHR ''$'', ch CHR ''}'', ch CHR ''*''}"
  let ?u = "u\<lparr>rx := escape bytes @ ch CHR ''#'' # r\<rparr>"
  have "0 < unat sz" using Cons.prems(4,5) by linarith
  then have "1 \<le> sz" by (simp only: word_le_nat_alt unsigned_1)
  then have "unat (sz - 1) = length b - 1" using Cons.prems(4) unat_diff_le [of 1 sz] by simp
  moreover have "unat (of_nat i :: u32) = i"
    using Cons.prems(4,5) unat_u32_less [of sz] by (intro unat_of_nat_less) simp
  ultimately have i: "of_nat i \<noteq> sz - 1" using Cons.prems(5) by auto
  have "packet_chars n fuel uart_ports sz i j b u = packet_chars m fuel uart_ports sz (i + 1) (j + c) (b[i := c]) ?u"
  proof (cases ?esc)
    case True
    then have "rx u = ch CHR ''}'' # c # escape bytes @ ch CHR ''#'' # r" using Cons.prems(2) by (auto simp: escape_def)
    then show ?thesis using assms(1) Cons.prems(1,5) i by (simp add: n(1))
  next
    case False
    then have "rx u = c # escape bytes @ ch CHR ''#'' # r" using Cons.prems(2) by (auto simp: escape_def)
    then show ?thesis using assms(1) Cons.prems(1,5) i False by (simp add: n(1))
  qed
  also have "\<dots> = Inr (Some (i + 1 + length bytes, j + c + sum_list bytes),
      take (i + 1) (b[i := c]) @ bytes @ drop (i + 1 + length bytes) (b[i := c]), ?u\<lparr>rx := r\<rparr>)"
    using Cons.prems n(2) by (intro Cons.IH) simp_all
  also have "take (i + 1) (b[i := c]) = take i b @ [c]" using Cons.prems(5) by (simp add: take_Suc_conv_app_nth)
  finally show ?case by (simp add: add.assoc)
qed

lemma ReadPacket_uart:
  assumes "\<not> bit (lcr_reg u) 7" and "rx u = noise @ packet j bytes @ r" and "ch CHR ''$'' \<notin> set noise"
    and "unat sz = length b" and "length bytes < length b" and "length noise < fuel" and "length bytes < fuel"
  shows "ReadPacket fuel alpha uart_ports b sz u = Inr (j = 0, bytes @ 0 # drop (Suc (length bytes)) b,
      u\<lparr>rx := r, tx := tx u @ [if j = 0 then ch CHR ''+'' else ch CHR ''-'']\<rparr>)"
proof -
  define x where "x = j + sum_list bytes"
  let ?u = "u\<lparr>rx := escape bytes @ ch CHR ''#'' # hex2 x @ r\<rparr>"
  have f: "0 < fuel" using assms(6) by simp
  have w: "wait_dollar fuel fuel uart_ports u = Inr ?u"
    using assms by (intro wait_dollar_uart [OF f assms(3)]) (simp_all add: packet_def x_def)
  have p: "packet_chars fuel fuel uart_ports sz 0 0 b ?u =
      Inr (Some (length bytes, sum_list bytes), bytes @ drop (length bytes) b, ?u\<lparr>rx := hex2 x @ r\<rparr>)"
    using packet_chars_uart [OF f assms(4), of 0 bytes ?u "hex2 x @ r" fuel 0] assms by simp
  have n: "nibble alpha (alphabet ! (unat x div 16)) = Inr (of_nat (unat x div 16))"
    "nibble alpha (alphabet ! (unat x mod 16)) = Inr (of_nat (unat x mod 16))"
    using unat_u8_less [of x] by (intro nibble_alphabet; simp)+
  have st: "store (bytes @ drop (length bytes) b) (length bytes) 0 = Inr (bytes @ 0 # drop (Suc (length bytes)) b)"
    using assms(5) Cons_nth_drop_Suc [of "length bytes" b, symmetric] by (simp add: list_update_append)
  have e: "unat x = unat (sum_list bytes) \<longleftrightarrow> j = 0" by (metis add_cancel_left_left word_unat_eq_iff x_def)
  show ?thesis
    unfolding ReadPacket_def w p rbind_simps prod.case option.case st
    using f assms(1) by (simp add: hex2_def n hex2_value e)
qed

text \<open>
  C40: what \<open>SendPacket\<close> puts on the line is read back by \<open>ReadPacket\<close>. \<open>SendPacket\<close> sends the string framed, escaped
  and with its checksum until it is acknowledged, and gives up after three refusals. \<open>ReadPacket\<close> skips what precedes the
  packet, stores the characters with a terminator and acknowledges exactly the packets with the right
  checksum. The sum that \<open>SendPacket\<close> forms starts from \<open>junk\<close>, an uninitialised variable: the packet of
  attempt \<open>k\<close> is accepted only when \<open>junk k\<close> happens to be 0.
\<close>

theorem SendPacket_ReadPacket:
  fixes u v :: uart
  assumes "terminated s" and "0 < fuel" and "\<not> bit (lcr_reg u) 7" and "rx u = naks @ ch CHR ''+'' # r" and "ch CHR ''+'' \<notin> set naks" and "length naks < 3"
    and receiver: "\<not> bit (lcr_reg v) 7" "rx v = noise @ packet (junk k) (chars s) @ q" "ch CHR ''$'' \<notin> set noise"
      "length b = 400" "length (chars s) < 400" "400 + length noise \<le> rfuel"
  shows "SendPacket fuel uart_ports junk s u =
      Inr (u\<lparr>rx := r, tx := tx u @ concat (map (\<lambda>k. packet (junk k) (chars s)) [0..<Suc (length naks)])\<rparr>)
    \<and> (\<exists>b'. ReadPacket rfuel alpha uart_ports b GDB_PACKET_BUF_SIZE v =
           Inr (junk k = 0, b', v\<lparr>rx := q, tx := tx v @ [if junk k = 0 then ch CHR ''+'' else ch CHR ''-'']\<rparr>)
         \<and> terminated b' \<and> chars b' = chars s \<and> length b' = 400)
    \<and> (\<forall>w refusals t. \<not> bit (lcr_reg w) 7 \<and> rx w = refusals @ t \<and> length refusals = 3 \<and> ch CHR ''+'' \<notin> set refusals \<longrightarrow>
         SendPacket fuel uart_ports junk s w = Inr (w\<lparr>rx := t, tx := tx w @ concat (map (\<lambda>k. packet (junk k) (chars s)) [0..<3])\<rparr>))"
proof (intro conjI allI impI)
  let ?u = "u\<lparr>rx := ch CHR ''+'' # r, tx := tx u @ concat (map (\<lambda>k. packet (junk k) (chars s)) [0..<length naks])\<rparr>"
  let ?m = "2 - length naks"
  have m: "GDB_MAX_SEND_ATTEMPTS = length naks + Suc ?m" using assms(6) by (simp add: GDB_MAX_SEND_ATTEMPTS_def)
  have "send_attempt fuel uart_ports (junk (length naks)) s ?u =
      Inr (True, ?u\<lparr>rx := r, tx := tx ?u @ packet (junk (length naks)) (chars s)\<rparr>)"
    using send_attempt_uart [OF assms(2) _ assms(1), of ?u "ch CHR ''+''" r] assms(3) by simp
  then show "SendPacket fuel uart_ports junk s u =
      Inr (u\<lparr>rx := r, tx := tx u @ concat (map (\<lambda>k. packet (junk k) (chars s)) [0..<Suc (length naks)])\<rparr>)"
    unfolding SendPacket_def m send_attempts_uart [OF assms(2,1,5,3,4)] by simp
  let ?b = "chars s @ 0 # drop (Suc (length (chars s))) b"
  have "0 \<notin> set (chars s)" using terminated_decomp [OF assms(1)] by blast
  then have c: "chars ?b = chars s" by (intro chars_append_0) auto
  have "ReadPacket rfuel alpha uart_ports b GDB_PACKET_BUF_SIZE v = Inr (junk k = 0, ?b,
      v\<lparr>rx := q, tx := tx v @ [if junk k = 0 then ch CHR ''+'' else ch CHR ''-'']\<rparr>)"
    using receiver by (intro ReadPacket_uart [OF receiver(1-3)]) (simp_all add: GDB_PACKET_BUF_SIZE_def)
  moreover have "terminated ?b" by (simp add: terminated_def)
  ultimately show "\<exists>b'. ReadPacket rfuel alpha uart_ports b GDB_PACKET_BUF_SIZE v =
         Inr (junk k = 0, b', v\<lparr>rx := q, tx := tx v @ [if junk k = 0 then ch CHR ''+'' else ch CHR ''-'']\<rparr>)
       \<and> terminated b' \<and> chars b' = chars s \<and> length b' = 400"
    using c receiver(4,5) by (intro exI [of _ ?b]) simp
next
  fix w :: uart and refusals t :: "u8 list"
  assume w: "\<not> bit (lcr_reg w) 7 \<and> rx w = refusals @ t \<and> length refusals = 3 \<and> ch CHR ''+'' \<notin> set refusals"
  then have "send_attempts (length refusals + 0) fuel uart_ports junk s w
      = send_attempts 0 fuel uart_ports (\<lambda>k. junk (length refusals + k)) s
          (w\<lparr>rx := t, tx := tx w @ concat (map (\<lambda>k. packet (junk k) (chars s)) [0..<length refusals])\<rparr>)"
    by (intro send_attempts_uart [OF assms(2,1)]) simp_all
  then show "SendPacket fuel uart_ports junk s w = Inr (w\<lparr>rx := t, tx := tx w @ concat (map (\<lambda>k. packet (junk k) (chars s)) [0..<3])\<rparr>)"
    using w by (simp add: SendPacket_def GDB_MAX_SEND_ATTEMPTS_def del: send_attempts.simps(2) upt_rec_numeral)
qed

text \<open>\<open>OK\<close>, sent twice as the first packet is refused, and read after a stray acknowledgement.\<close>

theorem SendPacket_ReadPacket_witness:
  "SendPacket 1 uart_ports (\<lambda>k. if k = 0 then 9 else 0) (lit ''OK'') (demo_uart\<lparr>rx := [ch CHR ''-'', ch CHR ''+'']\<rparr>) =
     Inr (demo_uart\<lparr>tx := packet 9 [79, 75] @ packet 0 [79, 75]\<rparr>)
   \<and> (\<exists>b'. ReadPacket 401 0 uart_ports (replicate 400 1) GDB_PACKET_BUF_SIZE (demo_uart\<lparr>rx := ch CHR ''+'' # packet 0 [79, 75]\<rparr>) =
           Inr (True, b', demo_uart\<lparr>tx := [ch CHR ''+'']\<rparr>) \<and> terminated b' \<and> chars b' = [79, 75] \<and> length b' = 400)"
proof -
  have c: "chars (lit ''OK'') = [79, 75]" "terminated (lit ''OK'')" by (simp_all add: chars_def terminated_def lit_def)
  show ?thesis
    using SendPacket_ReadPacket [of "lit ''OK''" 1 "demo_uart\<lparr>rx := [ch CHR ''-'', ch CHR ''+'']\<rparr>" "[ch CHR ''-'']" "[]"
        "demo_uart\<lparr>rx := ch CHR ''+'' # packet 0 [79, 75]\<rparr>" "[ch CHR ''+'']" "\<lambda>k. if k = 0 then 9 else 0" 1 "[]" "replicate 400 1" 401 0] c
    by (simp add: demo_uart_def del: replicate_numeral)
qed

end
