(* ===== verification/Disk_Subsystem.thy ===== *)
theory Disk_Subsystem
  imports Fat_Traversal Pci_Bus Util_Bitmap
begin

text \<open>
  The disk subsystem: the lists of disks and volumes of \<open>io/disk/disk.c\<close> and \<open>io/disk/volume.c\<close>, and the
  search for controllers among the PCI devices.

  The state joins those of the IDE driver and of the FAT driver; both use one kernel heap, which is handed
  from one to the other. \<open>disk->read_op\<close> is \<open>devs\<close> of the FAT driver: the sectors of every disk by address.
  What a sector read leaves in the registers of the controller is not kept, because the next one writes
  all of them. Loops over lists are bounded by \<open>fuel\<close>.
\<close>

section \<open>Data\<close>

definition MAX_DISKS :: u32 where "MAX_DISKS = 4096"
definition FIRST_IX :: u32 where "FIRST_IX = 1"
definition PCI_CLASS_CODE_MASS_STORAGE_CONTROLLER :: u8 where "PCI_CLASS_CODE_MASS_STORAGE_CONTROLLER = 0x01"
definition PCI_SUBCLASS_IDE_CONTROLLER :: u8 where "PCI_SUBCLASS_IDE_CONTROLLER = 0x01"

text \<open>The array \<open>bitmap_data\<close> of bytes, as words.\<close>

definition disk_bitmap_data :: "u32 list" where
  "disk_bitmap_data = replicate (unat (BITMAP_SIZE (MAX_DISKS + FIRST_IX) FIRST_IX) div 4) 0"

record ('d, 'm) disk_state =
  ide :: "('d, 'm) ide_state"
  fat :: "'m fat_state"
  disks :: u32
  disk_bitmap :: Bitmap
  volumes :: u32
  controllers :: u32
  pci_nodes :: "u32 \<rightharpoonup> PciDevice"
  messages :: "string list"

section \<open>Lists\<close>

text \<open>The loop of \<open>AddVolumes\<close> ends with \<open>head\<close> equal to \<open>NULL\<close>, which is then dereferenced.\<close>

definition AddVolumes :: "u32 \<Rightarrow> ('d, 'm) disk_state \<Rightarrow> ('d, 'm) disk_state res" where
  "AddVolumes chain s =
     (if volumes s = 0 then Inr (s\<lparr>volumes := chain\<rparr>)
      else
        rbind (find_node (vols (fat s)) vol_next (\<lambda>_. False) [] (volumes s)) (\<lambda>head.
        rbind (deref (vols (fat s)) head) (\<lambda>v.
          Inr (s\<lparr>fat := (fat s)\<lparr>vols := (vols (fat s))(head \<mapsto> v\<lparr>vol_next := chain\<rparr>)\<rparr>\<rparr>))))"

definition GetVolume :: "u32 \<Rightarrow> u32 \<Rightarrow> ('d, 'm) disk_state \<Rightarrow> u32 res" where
  "GetVolume disk part s =
     find_node (vols (fat s)) vol_next (\<lambda>v. vol_disk v = disk \<and> vol_partition v = part) [] (volumes s)"

definition GetDiskDescriptor :: "u32 \<Rightarrow> ('d, 'm) disk_state \<Rightarrow> u32 res" where
  "GetDiskDescriptor ix s = find_node (disk_descs (ide s)) disk_next (\<lambda>d. disk_id d = ix) [] (disks s)"

text \<open>One pass of the loop over the partitions of a disk; the result of \<open>FatMountVolume\<close> is not tested.\<close>

definition add_partition :: "'m fat_env \<Rightarrow> u32 \<Rightarrow> nat \<Rightarrow> u32 \<times> 'm fat_state \<Rightarrow> (u32 \<times> 'm fat_state) res" where
  "add_partition E disk part = (\<lambda>(vs, f).
     rbind (deref (devs f) disk) (\<lambda>rd.
     rbind (GetPartitionEntry (scratch E) rd (of_nat part)) (\<lambda>e.
     if lba_length e \<noteq> 0 then
       rbind (FatMountVolume E disk (of_nat part) f) (\<lambda>(v, f).
       rbind (deref (vols f) v) (\<lambda>vol.
         Inr (v, f\<lparr>vols := (vols f)(v \<mapsto> vol\<lparr>vol_next := vs\<rparr>)\<rparr>)))
     else Inr (vs, f))))"

text \<open>The loop over the chain of disks.\<close>

primrec AddDisks_loop :: "nat \<Rightarrow> 'm fat_env \<Rightarrow> u32 \<Rightarrow> u32 \<times> ('d, 'm) disk_state \<Rightarrow> (u32 \<times> ('d, 'm) disk_state) res" where
  "AddDisks_loop 0 E disk r = Inl Diverges"
| "AddDisks_loop (Suc n) E disk r =
     (let (vs, s) = r in
      if disk = 0 then Inr (vs, s)
      else
        rbind (AllocateInBitmap (disk_bitmap s) 1) (\<lambda>(bm, ix).
        rbind (deref (disk_descs (ide s)) disk) (\<lambda>dd.
        let s = s\<lparr>disk_bitmap := bm, ide := (ide s)\<lparr>disk_descs := (disk_descs (ide s))(disk \<mapsto> dd\<lparr>disk_id := ix\<rparr>)\<rparr>\<rparr> in
        rbind (rfold (add_partition E disk) [0..<4] (vs, fat s)) (\<lambda>(vs, f).
          AddDisks_loop n E (disk_next dd) (vs, s\<lparr>fat := f\<rparr>)))))"

text \<open>When there are disks already, \<open>disk->next\<close> is written after the loop has set \<open>disk\<close> to \<open>NULL\<close>.\<close>

definition AddDisks :: "nat \<Rightarrow> 'm fat_env \<Rightarrow> u32 \<Rightarrow> ('d, 'm) disk_state \<Rightarrow> ('d, 'm) disk_state res" where
  "AddDisks fuel E chain s =
     (if chain = 0 then Inr s
      else
        rbind (AddDisks_loop fuel E chain (0, s)) (\<lambda>(vs, s).
        rbind (AddVolumes vs s) (\<lambda>s.
        if disks s = 0 then Inr (s\<lparr>disks := chain\<rparr>) else Inl Null_Pointer)))"

section \<open>Initialisation\<close>

definition disk_devs :: "nat \<Rightarrow> 'd port_ops \<Rightarrow> ('d, 'm) ide_state \<Rightarrow> u32 \<rightharpoonup> device" where
  "disk_devs fuel io i p = (case disk_descs i p of
       None \<Rightarrow> None
     | Some dd \<Rightarrow> if disk_read_op dd = IdeReadOp_addr then Some (ide_device fuel io p i) else None)"

definition add_ide_controller ::
  "nat \<Rightarrow> 'd port_ops \<Rightarrow> 'm fat_env \<Rightarrow> DiskDescriptor \<Rightarrow> IdeControllerInternalData \<Rightarrow> u32 \<Rightarrow> ('d, 'm) disk_state \<Rightarrow> ('d, 'm) disk_state res" where
  "add_ide_controller fuel io E junk cjunk c s =
     rbind (IdeControllerInit fuel io (h_malloc E) junk cjunk (ide s)) (\<lambda>(chain, cd, i).
     rbind (deref (pci_nodes s) c) (\<lambda>dv.
     rbind (AddDisks fuel E chain (s\<lparr>ide := i, pci_nodes := (pci_nodes s)(c \<mapsto> dv\<lparr>pci_data := cd\<rparr>),
         fat := (fat s)\<lparr>devs := disk_devs fuel io i, fat_heap := ide_heap i\<rparr>\<rparr>)) (\<lambda>s.
       Inr (s\<lparr>ide := (ide s)\<lparr>ide_heap := fat_heap (fat s)\<rparr>\<rparr>))))"

definition config_byte :: "'d port_ops \<Rightarrow> PciDevice \<Rightarrow> u8 \<Rightarrow> ('d, 'm) disk_state \<Rightarrow> u8 \<times> ('d, 'm) disk_state" where
  "config_byte io dv offset s =
     (let (v, d) = PciConfigReadFromDevice8 io dv offset (dev (ide s)) in (v, s\<lparr>ide := (ide s)\<lparr>dev := d\<rparr>\<rparr>))"

definition unsupported_controller :: string where
  "unsupported_controller = ''Detected an unsupported mass storage controller.'' @ [CHR 0x0A] @ ''Some drives might be absent.'' @ [CHR 0x0A]"

definition probe_controller ::
  "nat \<Rightarrow> 'd port_ops \<Rightarrow> 'm fat_env \<Rightarrow> DiskDescriptor \<Rightarrow> IdeControllerInternalData \<Rightarrow> u32 \<Rightarrow> PciDevice \<Rightarrow> ('d, 'm) disk_state \<Rightarrow> ('d, 'm) disk_state res" where
  "probe_controller fuel io E junk cjunk c dv s =
     (let (class_code, s) = config_byte io dv PCI_CONFIG_COMMON_OFFSET_CLASS_CODE s in
      if class_code = PCI_CLASS_CODE_MASS_STORAGE_CONTROLLER then
        let (subclass, s) = config_byte io dv PCI_CONFIG_COMMON_OFFSET_SUBCLASS s in
        if subclass = PCI_SUBCLASS_IDE_CONTROLLER then add_ide_controller fuel io E junk cjunk c s
        else Inr (s\<lparr>messages := messages s @ [unsupported_controller]\<rparr>)
      else Inr s)"

primrec probe_controllers ::
  "nat \<Rightarrow> nat \<Rightarrow> 'd port_ops \<Rightarrow> 'm fat_env \<Rightarrow> DiskDescriptor \<Rightarrow> IdeControllerInternalData \<Rightarrow> u32 \<Rightarrow> ('d, 'm) disk_state \<Rightarrow> ('d, 'm) disk_state res" where
  "probe_controllers 0 fuel io E junk cjunk c s = Inl Diverges"
| "probe_controllers (Suc n) fuel io E junk cjunk c s =
     (if c = 0 then Inr s
      else
        rbind (deref (pci_nodes s) c) (\<lambda>dv.
        rbind (probe_controller fuel io E junk cjunk c dv s) (\<lambda>s.
        rbind (deref (pci_nodes s) c) (\<lambda>dv.
          probe_controllers n fuel io E junk cjunk (pci_next dv) s))))"

definition DiskSubsystemInit ::
  "nat \<Rightarrow> 'd port_ops \<Rightarrow> 'm fat_env \<Rightarrow> DiskDescriptor \<Rightarrow> IdeControllerInternalData \<Rightarrow> ('d, 'm) disk_state \<Rightarrow> ('d, 'm) disk_state res" where
  "DiskSubsystemInit fuel io E junk cjunk s =
     rbind (InitBitmap ((disk_bitmap s)\<lparr>bm_words := disk_bitmap_data, bm_len := MAX_DISKS + FIRST_IX, dead_zone := FIRST_IX\<rparr>) False) (\<lambda>bm.
       probe_controllers fuel fuel io E junk cjunk (controllers s) (s\<lparr>disk_bitmap := bm\<rparr>))"

end
