(* ===== verification/Kernel_Main.thy ===== *)
theory Kernel_Main
  imports Disk_Subsystem Stdlib_Stdio Uart Gdb_Stub Io_Ports Virt_Mem_Mgr Stdlib_Mem Gdt_X86
begin

text \<open>
  The entry of the kernel, \<open>core/vv4os.c\<close>: the configuration module is copied, then the parts of the
  kernel are initialised one after the other, with a line on the terminal for each.

  The state joins the states of the parts. They share the devices behind the ports and the kernel heap, which go
  from one part to the next; \<open>k_vmm\<close> are the frames and page tables at the time the heap takes them over. \<open>boot_env\<close> has what the linker, the assembly code, the hardware and the
  contents of uninitialised memory decide.
\<close>

section \<open>Data\<close>

definition MAX_CONF_SIZE :: u32 where "MAX_CONF_SIZE = 4096"
definition CONF_SIGNATURE :: string where "CONF_SIGNATURE = ''notjunk''"
definition UART_DEFAULT_FREQ :: int where "UART_DEFAULT_FREQ = 9600"

text \<open>The information of the boot loader up to the last field that \<open>main\<close> reads.\<close>

record MultibootInformation =
  mb_flags :: u32
  mem_lower :: u32
  mem_upper :: u32
  boot_device :: u32
  cmdline :: u32
  mods_count :: u32
  mods_addr :: u32

record MultibootModuleStructure =
  mod_start :: u32
  mod_end :: u32
  mod_string :: u32
  mod_reserved :: u32

record ('h, 'd, 'm) kernel =
  k_mem :: mem
  available_ram :: u32
  k_vga :: vga
  k_gdt :: gdt_state
  k_idt :: "'h idt_state"
  k_vmm :: vmm
  k_ports :: Bitmap
  k_io :: 'd
  k_heap :: 'm
  k_pci :: "('d, 'm) pci_state"
  k_disk :: "('d, 'm) disk_state"

record ('h, 'd, 'm) boot_env =
  b_junk :: buf
  b_debug :: bool
  b_end :: u32
  b_config :: u32
  b_gdt :: u32
  b_tss :: u32
  b_ss :: u16
  b_in8 :: "(u16 \<times> u8) list \<Rightarrow> u16 \<Rightarrow> u8"
  b_idt :: u32
  b_stub :: "stub \<Rightarrow> u32"
  b_tick :: 'h
  b_page_fault :: 'h
  b_breakpoint :: 'h
  b_pci_handler :: 'h
  b_ier :: "bool \<times> bool"
  b_io :: "'d port_ops"
  b_fuel :: nat
  b_fat :: "'m fat_env"
  b_bitmap_data :: "u32 list"
  b_heap :: "vmm \<Rightarrow> 'm"
  b_port_block :: "u32 \<Rightarrow> u32 list"
  b_pci_junk :: PciDevice
  b_desc :: DiskDescriptor
  b_ctrl :: IdeControllerInternalData

datatype ('h, 'd, 'm) boot = Idle "('h, 'd, 'm) kernel" | Halted "('h, 'd, 'm) kernel"

section \<open>Terminal\<close>

definition say :: "('h, 'd, 'm) boot_env \<Rightarrow> string \<Rightarrow> arg list \<Rightarrow> ('h, 'd, 'm) kernel \<Rightarrow> ('h, 'd, 'm) kernel res" where
  "say E fmt args k = rbind (printf (b_junk E) (lit fmt) args (k_vga k)) (\<lambda>(t, _). Inr (k\<lparr>k_vga := t\<rparr>))"

text \<open>A message on \<open>stderr\<close> and \<open>exit(1)\<close>, which stops the processor with interrupts off.\<close>

definition fail :: "('h, 'd, 'm) boot_env \<Rightarrow> string \<Rightarrow> ('h, 'd, 'm) kernel \<Rightarrow> ('h, 'd, 'm) boot res" where
  "fail E msg k =
     rbind (fprintf (b_junk E) StderrWriteOp (lit msg) [] (k_vga k)) (\<lambda>(t, _).
     rbind (exit_status (b_junk E) 1 t) (\<lambda>t.
       Inr (Halted (k\<lparr>k_vga := t, k_idt := (k_idt k)\<lparr>interrupts_on := False\<rparr>\<rparr>))))"

section \<open>Configuration\<close>

definition config_of :: "u32 \<Rightarrow> mem \<Rightarrow> buf" where
  "config_of a m = map (\<lambda>i. m (a + of_nat i)) [0..<unat MAX_CONF_SIZE]"

definition ParseConfig :: "u32 \<Rightarrow> mem \<Rightarrow> (bool \<times> mem) res" where
  "ParseConfig config m =
     rbind (strlen (lit CONF_SIGNATURE)) (\<lambda>n.
     let m = m(config + of_nat n := 0) in
     rbind (strcmp (config_of config m) (lit CONF_SIGNATURE)) (\<lambda>r. Inr (r = 0, m)))"

definition module_at :: "mem \<Rightarrow> u32 \<Rightarrow> MultibootModuleStructure" where
  "module_at m a = \<lparr>mod_start = read32 m a, mod_end = read32 m (a + 4), mod_string = read32 m (a + 8), mod_reserved = read32 m (a + 12)\<rparr>"

definition copy_config :: "u32 \<Rightarrow> MultibootInformation \<Rightarrow> mem \<Rightarrow> mem" where
  "copy_config config mi m =
     (let conf = module_at m (mods_addr mi);
          conf_size = mod_end conf - mod_start conf in
      fst (memcpy m config (mod_start conf) (if conf_size > MAX_CONF_SIZE then MAX_CONF_SIZE else conf_size)))"

section \<open>Parts\<close>

definition init_tables :: "('h, 'd, 'm) boot_env \<Rightarrow> ('h, 'd, 'm) kernel \<Rightarrow> ('h, 'd, 'm) kernel res" where
  "init_tables E k =
     rbind (X86GdtInit (b_gdt E) (b_tss E) (b_ss E) (k_gdt k)) (\<lambda>g.
     rbind (X86IdtInit (b_in8 E) (b_idt E) (b_stub E) (b_tick E) (k_idt k)) (\<lambda>i. Inr (k\<lparr>k_gdt := g, k_idt := i\<rparr>)))"

definition init_uart :: "('h, 'd, 'm) boot_env \<Rightarrow> ('h, 'd, 'm) kernel \<Rightarrow> ('h, 'd, 'm) kernel res" where
  "init_uart E k =
     rbind (UartInit (fst (b_ier E)) (snd (b_ier E)) (b_io E) UART_DEFAULT_FREQ (k_io k)) (\<lambda>d. Inr (k\<lparr>k_io := d\<rparr>))"

definition init_frames :: "('h, 'd, 'm) boot_env \<Rightarrow> ('h, 'd, 'm) kernel \<Rightarrow> ('h, 'd, 'm) kernel res" where
  "init_frames E k =
     rbind (X86PhysMemMgrInit (b_end E) (frames (k_vmm k)) (b_bitmap_data E) (available_ram k)) (\<lambda>f.
       Inr (k\<lparr>k_vmm := (k_vmm k)\<lparr>frames := f\<rparr>\<rparr>))"

text \<open>The heap takes its pages from here on: its state has the page tables and frames in it.\<close>

definition init_paging :: "('h, 'd, 'm) boot_env \<Rightarrow> ('h, 'd, 'm) kernel \<Rightarrow> ('h, 'd, 'm) kernel res" where
  "init_paging E k =
     rbind (X86VirtMemMgrInit (b_end E) (b_page_fault E) (k_idt k) (k_vmm k)) (\<lambda>(i, v). Inr (k\<lparr>k_idt := i, k_vmm := v, k_heap := b_heap E v\<rparr>))"

definition init_gdb :: "('h, 'd, 'm) boot_env \<Rightarrow> ('h, 'd, 'm) kernel \<Rightarrow> ('h, 'd, 'm) kernel res" where
  "init_gdb E k =
     (if b_debug E then
        rbind (say E (''This build supports debugging over UART.'' @ [CHR 0x0A]) [] k) (\<lambda>k.
        rbind (GdbStubInit (b_breakpoint E) (k_idt k)) (\<lambda>i. Inr (k\<lparr>k_idt := i\<rparr>)))
      else Inr k)"

text \<open>The block for the bitmap comes from the heap; \<open>b_port_block\<close> is what a block has in it.\<close>

definition init_ports :: "('h, 'd, 'm) boot_env \<Rightarrow> ('h, 'd, 'm) kernel \<Rightarrow> ('h, 'd, 'm) kernel res" where
  "init_ports E k =
     (let (p, h) = h_malloc (b_fat E) (BITMAP_SIZE PORT_BITMAP_LEN BITMAP_DZ) (k_heap k) in
      rbind (IoPortMgrInit (\<lambda>n. if p = 0 then None else Some (b_port_block E p)) (k_ports k)) (\<lambda>b. Inr (k\<lparr>k_ports := b, k_heap := h\<rparr>)))"

definition init_pci :: "('h, 'd, 'm) boot_env \<Rightarrow> ('h, 'd, 'm) kernel \<Rightarrow> ('h, 'd, 'm) kernel res" where
  "init_pci E k =
     rbind (PciInit (b_fuel E) (b_io E) (h_malloc (b_fat E)) (b_pci_junk E) (b_pci_handler E) ((k_pci k)\<lparr>pci_io := k_io k, pci_heap := k_heap k\<rparr>, k_idt k)) (\<lambda>(p, i).
       Inr (k\<lparr>k_pci := p, k_idt := i, k_io := pci_io p, k_heap := pci_heap p\<rparr>))"

text \<open>The messages of the disk subsystem go to the terminal in their order.\<close>

definition init_disks :: "('h, 'd, 'm) boot_env \<Rightarrow> ('h, 'd, 'm) kernel \<Rightarrow> ('h, 'd, 'm) kernel res" where
  "init_disks E k =
     (let p = k_pci k; d = k_disk k in
      rbind (DiskSubsystemInit (b_fuel E) (b_io E) (b_fat E) (b_desc E) (b_ctrl E)
        (d\<lparr>controllers := pci_devices_list p, pci_nodes := pci_devs p, ide := (ide d)\<lparr>dev := k_io k, ide_heap := k_heap k\<rparr>, messages := []\<rparr>)) (\<lambda>d.
      rfold (\<lambda>msg. say E msg []) (messages d) (k\<lparr>k_disk := d, k_io := dev (ide d), k_heap := ide_heap (ide d)\<rparr>)))"

definition report :: "('h, 'd, 'm) boot_env \<Rightarrow> string \<Rightarrow> arg list \<Rightarrow> (('h, 'd, 'm) kernel \<Rightarrow> ('h, 'd, 'm) kernel res) \<Rightarrow> ('h, 'd, 'm) kernel
    \<Rightarrow> ('h, 'd, 'm) kernel res" where
  "report E fmt args part k =
     rbind (say E fmt args k) (\<lambda>k. rbind (part k) (\<lambda>k. say E ('' OK'' @ [CHR 0x0A]) [] k))"

section \<open>main\<close>

definition boot_start :: "('h, 'd, 'm) boot_env \<Rightarrow> MultibootInformation \<Rightarrow> ('h, 'd, 'm) kernel \<Rightarrow> ('h, 'd, 'm) kernel res" where
  "boot_start E mi k =
     (let k = k\<lparr>k_mem := copy_config (b_config E) mi (k_mem k)\<rparr> in
      rbind (VgaTerminalInit (k_vga k)) (\<lambda>t. let k = k\<lparr>k_vga := t\<rparr> in
      rbind (if b_debug E then say E (''Kernel loaded at 0x%X - 0x%X'' @ [CHR 0x0A]) [Arg_Int KERNEL_STATIC_MEM_START, Arg_Int (b_end E)] k
             else Inr k) (\<lambda>k.
      let k = k\<lparr>available_ram := push_bit 10 (mem_upper mi + 1024)\<rparr> in
      say E (''Detected %dMiB of RAM'' @ [CHR 0x0A]) [Arg_Int (available_ram k div 1048576)] k)))"

definition boot_parts :: "('h, 'd, 'm) boot_env \<Rightarrow> ('h, 'd, 'm) kernel \<Rightarrow> ('h, 'd, 'm) kernel res" where
  "boot_parts E k =
     rbind (report E ''Initializing descriptor tables...'' [] (init_tables E) k) (\<lambda>k.
     rbind (report E ''Initializing UART (baudrate %d)...'' [Arg_Int (word_of_int UART_DEFAULT_FREQ)] (init_uart E) k) (\<lambda>k.
     rbind (report E ''Initializing physical memory manager...'' [] (init_frames E) k) (\<lambda>k.
     rbind (report E ''Initializing virtual memory manager...'' [] (init_paging E) k) (\<lambda>k.
     rbind (init_gdb E k) (\<lambda>k.
     rbind (report E ''Initializing I/O port manager...'' [] Inr k) (\<lambda>k.
     rbind (init_ports E k) (\<lambda>k.
     report E ''Initializing PCI...'' [] (init_pci E) k)))))))"

definition kernel_main :: "('h, 'd, 'm) boot_env \<Rightarrow> MultibootInformation \<Rightarrow> ('h, 'd, 'm) kernel \<Rightarrow> ('h, 'd, 'm) boot res" where
  "kernel_main E mi k =
     rbind (boot_start E mi k) (\<lambda>k.
     if mods_count mi \<noteq> 1 then fail E ''Something's wrong with the boot modules. Aborting'' k
     else
       rbind (boot_parts E k) (\<lambda>k.
       rbind (say E ''Parsing boot.cfg...'' [] k) (\<lambda>k.
       rbind (ParseConfig (b_config E) (k_mem k)) (\<lambda>(ok, m). let k = k\<lparr>k_mem := m\<rparr> in
       if ok then
         rbind (say E ('' OK'' @ [CHR 0x0A]) [] k) (\<lambda>k.
         rbind (report E ''Initializing disk subsystem...'' [] (init_disks E) k) (\<lambda>k.
         rbind (say E (''Successful boot-up.'' @ [CHR 0x0A]) [] k) (\<lambda>k. Inr (Idle k))))
       else fail E ('' ERROR. Is there a valid /sys/vv4os/boot.cfg?'' @ [CHR 0x0A]) k))))"

section \<open>Messages\<close>

definition plain :: "string \<Rightarrow> item list" where
  "plain s = map (\<lambda>c. Lit (of_char c)) s"

definition text_of :: "string \<Rightarrow> u8 list" where
  "text_of s = map of_char s"

lemma plain_syntax: "concat (map item_syntax (plain s)) = text_of s"
  by (induction s) (simp_all add: plain_def text_of_def)

lemma fmt_of_plain: "fmt_of (plain s) = lit s" "fmt_of (plain a @ Directive [] Dec # plain b) = lit (a @ ''%d'' @ b)"
  by (simp_all add: fmt_of_def plain_syntax) (simp_all add: lit_def text_of_def digit_text_def of_char_def)

lemma render_plain: "render (plain s @ is) args = map_option (\<lambda>t. text_of s @ t) (render is args)"
  by (induction s) (simp_all add: plain_def text_of_def option.map_comp comp_def option.map_ident)

definition literal :: "string \<Rightarrow> bool" where
  "literal s \<longleftrightarrow> s \<noteq> [] \<and> (\<forall>c \<in> set s. (of_char c :: u8) \<noteq> 0 \<and> (of_char c :: u8) \<noteq> 37)"

lemma literal_items: "literal s \<Longrightarrow> plain s \<noteq> [] \<and> (\<forall>it \<in> set (plain s). item_ok it)"
  by (auto simp: literal_def plain_def)

lemma render_literal: "render (plain s) args = Some (text_of s)"
  using render_plain [of s "[]" args] by simp

lemma say_literal:
  assumes "vga_ok (k_vga k)" and "length (b_junk E) = 32" and "literal s"
  shows "\<exists>t. say E s [] k = Inr (k\<lparr>k_vga := t\<rparr>) \<and> vga_ok t \<and> screen_of t = show_text default_color_scheme (text_of s) (screen_of (k_vga k))"
proof -
  note l = literal_items [OF assms(3)]
  obtain t where "vfprintf (b_junk E) StdoutWriteOp (lit s) [] (k_vga k) = Inr (t, 0)" "vga_ok t"
    "screen_of t = show_text default_color_scheme (text_of s) (screen_of (k_vga k))"
    using stdout_file.vfprintf_spec [OF assms(1,2) conjunct1 [OF l] conjunct2 [OF l] render_literal, of "[]"] unfolding fmt_of_plain(1) by blast
  then show ?thesis by (intro exI [of _ t]) (simp add: say_def printf_def)
qed

lemma number_items:
  assumes "literal a" and "literal b"
  shows "plain a @ Directive [] Dec # plain b \<noteq> []" and "\<forall>it \<in> set (plain a @ Directive [] Dec # plain b). item_ok it"
    and "render (plain a @ Directive [] Dec # plain b) [Arg_Int v] = Some (text_of a @ signed_text v @ text_of b)"
  using literal_items [OF assms(1)] literal_items [OF assms(2)]
  by (auto simp: render_plain render_literal padded_def)

lemma say_number:
  assumes "vga_ok (k_vga k)" and "length (b_junk E) = 32" and "literal a" and "literal b"
  shows "\<exists>t. say E (a @ ''%d'' @ b) [Arg_Int v] k = Inr (k\<lparr>k_vga := t\<rparr>) \<and> vga_ok t
     \<and> screen_of t = show_text default_color_scheme (text_of a @ signed_text v @ text_of b) (screen_of (k_vga k))"
proof -
  obtain t where "vfprintf (b_junk E) StdoutWriteOp (lit (a @ ''%d'' @ b)) [Arg_Int v] (k_vga k) = Inr (t, 0)" "vga_ok t"
    "screen_of t = show_text default_color_scheme (text_of a @ signed_text v @ text_of b) (screen_of (k_vga k))"
    using stdout_file.vfprintf_spec [OF assms(1,2) number_items [OF assms(3,4)], of v] unfolding fmt_of_plain(2) by blast
  then show ?thesis by (intro exI [of _ t]) (simp add: say_def printf_def)
qed

lemma fail_halts:
  assumes "vga_ok (k_vga k)" and "length (b_junk E) = 32" and "literal s"
  shows "\<exists>t. fail E s k = Inr (Halted (k\<lparr>k_vga := t, k_idt := (k_idt k)\<lparr>interrupts_on := False\<rparr>\<rparr>)) \<and> vga_ok t
     \<and> screen_of t = show_text err_color_scheme (text_of (''A fatal error has occured, exiting with error code 1'' @ [CHR 0x0A]))
         (show_text err_color_scheme (text_of s) (screen_of (k_vga k)))"
proof -
  note l = literal_items [OF assms(3)]
  let ?red = "\<lparr>foreground = VGA_COLOR_LIGHT VGA_COLOR_RED, background = VGA_COLOR_BLACK\<rparr>"
  obtain t where t: "fprintf (b_junk E) StderrWriteOp (lit s) [] (k_vga k) = Inr (t, 0)" "vga_ok t"
    "screen_of t = show_text err_color_scheme (text_of s) (screen_of (k_vga k))"
    using stderr_file.vfprintf_spec [OF assms(1,2) conjunct1 [OF l] conjunct2 [OF l] render_literal, of "[]"] unfolding fprintf_def fmt_of_plain(1) by blast
  have ok: "vga_ok (VgaTerminalSwitchColorScheme ?red t)" using t(2) by (rule vga_ok_scheme)
  have lits: "literal ''A fatal error has occured, exiting with error code ''" "literal [CHR 0x0A]" by (simp_all add: literal_def of_char_def)
  obtain u where u: "fprintf (b_junk E) StderrWriteOp (lit (''A fatal error has occured, exiting with error code '' @ ''%d'' @ [CHR 0x0A])) [Arg_Int 1]
      (VgaTerminalSwitchColorScheme ?red t) = Inr (u, 0)" "vga_ok u"
    "screen_of u = show_text err_color_scheme (text_of ''A fatal error has occured, exiting with error code '' @ signed_text 1 @ text_of [CHR 0x0A])
       (screen_of (VgaTerminalSwitchColorScheme ?red t))"
    using stderr_file.vfprintf_spec [OF ok assms(2) number_items [OF lits], of 1] unfolding fprintf_def fmt_of_plain(2) by blast
  have "signed_text 1 = text_of ''1''" by (simp add: signed_text_def digit_chars_def rep.simps lit_def text_of_def of_char_def)
  then have "screen_of u = show_text err_color_scheme (text_of (''A fatal error has occured, exiting with error code 1'' @ [CHR 0x0A])) (screen_of t)"
    using u(3) by (simp add: screen_of_scheme show_text_def text_of_def)
  then show ?thesis using t(1,3) u(1,2) by (intro exI [of _ u]) (simp add: fail_def exit_status_def)
qed

section \<open>The configuration file\<close>

definition starts_with :: "string \<Rightarrow> u32 \<Rightarrow> mem \<Rightarrow> bool" where
  "starts_with s a m \<longleftrightarrow> map (\<lambda>i. m (a + of_nat i)) [0..<length s] = text_of s"

lemma strcmp_zero: "terminated s1 \<Longrightarrow> terminated s2 \<Longrightarrow> \<exists>r. strcmp s1 s2 = Inr r \<and> (r = 0 \<longleftrightarrow> chars s1 = chars s2)"
  using strcmp_order [of s1 s2] by (auto simp: keys_def lexord_irreflexive)

lemma config_of_signature:
  "config_of a (m(a + 7 := 0)) = map (\<lambda>i. m (a + of_nat i)) [0..<7] @ 0 # map (\<lambda>i. m (a + of_nat i)) [8..<4096]"
proof -
  have ne: "a + of_nat i \<noteq> a + 7" if "i < 4096" "i \<noteq> 7" for i
  proof
    assume "a + of_nat i = a + 7"
    then have "unat (of_nat i :: u32) = 7" by simp
    then show False using that by (simp add: unat_of_nat_less)
  qed
  have "[0..<4096] = [0..<7] @ 7 # [8..<4096]"
    using upt_add_eq_append [of 0 7 4089] upt_conv_Cons [of 7 4096] by (simp del: upt_rec_numeral)
  then show ?thesis using ne by (simp add: config_of_def MAX_CONF_SIZE_def del: upt_rec_numeral)
qed

lemma chars_until_zero: "length xs = length ys \<Longrightarrow> \<forall>c \<in> set ys. c \<noteq> 0 \<Longrightarrow> chars (xs @ 0 # zs) = ys \<longleftrightarrow> xs = ys"
proof (induction xs ys rule: list_induct2)
  case (Cons x xs y ys)
  then show ?case by auto
qed simp

text \<open>
  \<open>ParseConfig\<close> accepts the configuration exactly when its first seven characters are the signature, and changes
  nothing but the eighth character, which it overwrites with 0; what follows is not looked at.
\<close>

lemma ParseConfig_eq:
  "ParseConfig config m = Inr (starts_with CONF_SIGNATURE config m, m(config + 7 := 0))"
proof -
  have sig: "lit CONF_SIGNATURE = text_of CONF_SIGNATURE @ 0 # []" "\<forall>c \<in> set (text_of CONF_SIGNATURE). c \<noteq> 0" "length CONF_SIGNATURE = 7"
    by (simp_all add: CONF_SIGNATURE_def lit_def text_of_def of_char_def)
  then have ch: "chars (lit CONF_SIGNATURE) = text_of CONF_SIGNATURE" using chars_append_0 [of "text_of CONF_SIGNATURE" "[]"] by simp
  have tm: "terminated (lit CONF_SIGNATURE)" unfolding sig(1) by simp
  have len: "strlen (lit CONF_SIGNATURE) = Inr 7" using strlen_spec [OF tm] ch sig(3) by (simp add: text_of_def)
  let ?m = "m(config + 7 := 0)"
  have tc: "terminated (config_of config ?m)" unfolding config_of_signature by (rule terminated_append_0)
  obtain r where r: "strcmp (config_of config ?m) (lit CONF_SIGNATURE) = Inr r"
    "r = 0 \<longleftrightarrow> chars (config_of config ?m) = chars (lit CONF_SIGNATURE)"
    using strcmp_zero [OF tc tm] by blast
  have "r = 0 \<longleftrightarrow> starts_with CONF_SIGNATURE config m"
    unfolding r(2) ch config_of_signature starts_with_def sig(3)
    by (rule chars_until_zero) (use sig in \<open>simp_all add: text_of_def\<close>)
  then show ?thesis using len r(1) by (simp add: ParseConfig_def)
qed

section \<open>Properties of main\<close>

text \<open>
  C37: the boot loader must pass exactly one module. Otherwise \<open>main\<close> stops the processor with two messages on the
  cleared screen, after the one about the memory; no part of the kernel is initialised. The module is
  copied all the same.
\<close>

theorem kernel_main_one_module:
  assumes "mods_count mi \<noteq> 1" and "length (vga_buffer (k_vga k)) = 2000" and "length (b_junk E) = 32" and "\<not> b_debug E"
  shows "\<exists>t. kernel_main E mi k = Inr (Halted (k\<lparr>k_mem := copy_config (b_config E) mi (k_mem k), available_ram := push_bit 10 (mem_upper mi + 1024),
         k_vga := t, k_idt := (k_idt k)\<lparr>interrupts_on := False\<rparr>\<rparr>))
     \<and> screen_of t = show_text err_color_scheme (text_of (''A fatal error has occured, exiting with error code 1'' @ [CHR 0x0A]))
         (show_text err_color_scheme (text_of ''Something's wrong with the boot modules. Aborting'')
         (show_text default_color_scheme (text_of ''Detected '' @ signed_text (push_bit 10 (mem_upper mi + 1024) div 1048576) @ text_of (''MiB of RAM'' @ [CHR 0x0A]))
           \<lparr>cells = replicate 2000 (blank default_color_scheme), pos = 0, colours = default_color_scheme\<rparr>))"
proof -
  obtain t0 where t0: "VgaTerminalInit (k_vga k) = Inr t0" "vga_ok t0"
    "screen_of t0 = \<lparr>cells = replicate 2000 (blank default_color_scheme), pos = 0, colours = default_color_scheme\<rparr>"
    using VgaTerminalInit_clears [OF assms(2)] by blast
  let ?k = "k\<lparr>k_mem := copy_config (b_config E) mi (k_mem k), k_vga := t0, available_ram := push_bit 10 (mem_upper mi + 1024)\<rparr>"
  have l: "literal ''Detected ''" "literal (''MiB of RAM'' @ [CHR 0x0A])" "literal ''Something's wrong with the boot modules. Aborting''"
    by (simp_all add: literal_def of_char_def)
  obtain t1 where t1: "say E (''Detected '' @ ''%d'' @ ''MiB of RAM'' @ [CHR 0x0A]) [Arg_Int (push_bit 10 (mem_upper mi + 1024) div 1048576)] ?k = Inr (?k\<lparr>k_vga := t1\<rparr>)"
    "vga_ok t1" "screen_of t1 = show_text default_color_scheme (text_of ''Detected '' @ signed_text (push_bit 10 (mem_upper mi + 1024) div 1048576)
        @ text_of (''MiB of RAM'' @ [CHR 0x0A])) (screen_of t0)"
    using say_number [OF _ assms(3) l(1,2), of ?k "push_bit 10 (mem_upper mi + 1024) div 1048576"] t0(2) by auto
  have start: "boot_start E mi k = Inr (?k\<lparr>k_vga := t1\<rparr>)" using t0(1) t1(1) assms(4) by (simp add: boot_start_def)
  obtain t2 where "fail E ''Something's wrong with the boot modules. Aborting'' (?k\<lparr>k_vga := t1\<rparr>) =
      Inr (Halted (?k\<lparr>k_vga := t2, k_idt := (k_idt k)\<lparr>interrupts_on := False\<rparr>\<rparr>))"
    "screen_of t2 = show_text err_color_scheme (text_of (''A fatal error has occured, exiting with error code 1'' @ [CHR 0x0A]))
         (show_text err_color_scheme (text_of ''Something's wrong with the boot modules. Aborting'') (screen_of t1))"
    using fail_halts [OF _ assms(3) l(3), of "?k\<lparr>k_vga := t1\<rparr>"] t1(2) by auto
  then show ?thesis using start assms(1) t1(3) t0(3) by (intro exI [of _ t2]) (simp add: kernel_main_def)
qed

theorem kernel_main_one_module_witness:
  "\<forall>E k. \<exists>t. kernel_main (E\<lparr>b_junk := replicate 32 0, b_debug := False\<rparr>)
       \<lparr>mb_flags = 0, mem_lower = 640, mem_upper = 31744, boot_device = 0, cmdline = 0, mods_count = 0, mods_addr = 0\<rparr> (k\<lparr>k_vga := boot_vga\<rparr>) =
     Inr (Halted (k\<lparr>k_mem := copy_config (b_config E)
         \<lparr>mb_flags = 0, mem_lower = 640, mem_upper = 31744, boot_device = 0, cmdline = 0, mods_count = 0, mods_addr = 0\<rparr> (k_mem k),
       available_ram := 0x2000000, k_vga := t, k_idt := (k_idt k)\<lparr>interrupts_on := False\<rparr>\<rparr>))"
proof (intro allI)
  fix E :: "('a, 'b, 'c) boot_env" and k :: "('a, 'b, 'c) kernel"
  let ?mi = "\<lparr>mb_flags = 0, mem_lower = 640, mem_upper = 31744, boot_device = 0, cmdline = 0, mods_count = 0, mods_addr = 0\<rparr>"
  show "\<exists>t. kernel_main (E\<lparr>b_junk := replicate 32 0, b_debug := False\<rparr>) ?mi (k\<lparr>k_vga := boot_vga\<rparr>) =
     Inr (Halted (k\<lparr>k_mem := copy_config (b_config E) ?mi (k_mem k), available_ram := 0x2000000, k_vga := t, k_idt := (k_idt k)\<lparr>interrupts_on := False\<rparr>\<rparr>))"
    using kernel_main_one_module [of ?mi "k\<lparr>k_vga := boot_vga\<rparr>" "E\<lparr>b_junk := replicate 32 0, b_debug := False\<rparr>"]
    by (auto simp: boot_vga_def push_bit_eq_mult simp del: replicate_numeral)
qed

text \<open>What the parts do to the memory with the configuration and to the disk subsystem.\<close>

definition quiet :: "('h, 'd, 'm) kernel \<Rightarrow> ('h, 'd, 'm) kernel \<Rightarrow> bool" where
  "quiet k k' \<longleftrightarrow> k_mem k' = k_mem k \<and> k_disk k' = k_disk k"

lemma kernel_quiet_trans: "quiet a b \<Longrightarrow> quiet b c \<Longrightarrow> quiet a c"
  by (simp add: quiet_def)

lemma say_quiet: "say E f args k = Inr k' \<Longrightarrow> quiet k k'"
  by (auto simp: say_def quiet_def elim!: rbind_InrE)

lemma init_quiet:
  "init_tables E k = Inr k' \<Longrightarrow> quiet k k'" "init_uart E k = Inr k' \<Longrightarrow> quiet k k'" "init_frames E k = Inr k' \<Longrightarrow> quiet k k'"
  "init_paging E k = Inr k' \<Longrightarrow> quiet k k'" "init_ports E k = Inr k' \<Longrightarrow> quiet k k'" "init_pci E k = Inr k' \<Longrightarrow> quiet k k'"
  by (auto simp: init_tables_def init_uart_def init_frames_def init_paging_def init_ports_def init_pci_def quiet_def Let_def case_prod_beta elim!: rbind_InrE)

lemma init_gdb_quiet: "init_gdb E k = Inr k' \<Longrightarrow> quiet k k'"
  by (auto simp: init_gdb_def quiet_def dest!: say_quiet elim!: rbind_InrE split: if_splits)

lemma report_quiet:
  assumes "report E f args part k = Inr k'" and "\<And>k k'. part k = Inr k' \<Longrightarrow> quiet k k'"
  shows "quiet k k'"
  using assms(1) unfolding report_def by (auto elim!: rbind_InrE dest!: say_quiet assms(2) intro: kernel_quiet_trans)

lemma boot_parts_quiet:
  assumes "boot_parts E k = Inr k'"
  shows "quiet k k'"
proof -
  obtain k1 k2 k3 k4 k5 k6 k7 where k: "report E ''Initializing descriptor tables...'' [] (init_tables E) k = Inr k1"
    "report E ''Initializing UART (baudrate %d)...'' [Arg_Int (word_of_int UART_DEFAULT_FREQ)] (init_uart E) k1 = Inr k2"
    "report E ''Initializing physical memory manager...'' [] (init_frames E) k2 = Inr k3"
    "report E ''Initializing virtual memory manager...'' [] (init_paging E) k3 = Inr k4" "init_gdb E k4 = Inr k5"
    "report E ''Initializing I/O port manager...'' [] Inr k5 = Inr k6" "init_ports E k6 = Inr k7"
    "report E ''Initializing PCI...'' [] (init_pci E) k7 = Inr k'"
    using assms unfolding boot_parts_def by (elim rbind_InrE) (rule that)
  note q = report_quiet [OF k(1) init_quiet(1)] report_quiet [OF k(2) init_quiet(2)] report_quiet [OF k(3) init_quiet(3)]
    report_quiet [OF k(4) init_quiet(4)] init_gdb_quiet [OF k(5)] init_quiet(5) [OF k(7)] report_quiet [OF k(8) init_quiet(6)]
  have "quiet k5 k6" by (rule report_quiet [OF k(6)]) (simp add: quiet_def)
  then show ?thesis using q by (simp add: quiet_def)
qed

text \<open>
  C36: a configuration without the signature stops the boot. \<open>main\<close> never reaches its idle loop, and when it stops the
  processor the disk subsystem is as it was.
\<close>

theorem kernel_main_needs_signature:
  assumes "\<not> starts_with CONF_SIGNATURE (b_config E) (copy_config (b_config E) mi (k_mem k))"
  shows "kernel_main E mi k \<noteq> Inr (Idle k') \<and> (kernel_main E mi k = Inr (Halted k') \<longrightarrow> k_disk k' = k_disk k)"
proof -
  have halts: "\<exists>k'. r = Halted k' \<and> k_disk k' = k_disk k0" if "fail E msg k0 = Inr r" for msg k0 r
    using that unfolding fail_def by (auto elim!: rbind_InrE)
  have "\<exists>k'. r = Halted k' \<and> k_disk k' = k_disk k" if run: "kernel_main E mi k = Inr r" for r
  proof -
    obtain k1 where k1: "boot_start E mi k = Inr k1" "(if mods_count mi \<noteq> 1 then fail E ''Something's wrong with the boot modules. Aborting'' k1
       else rbind (boot_parts E k1) (\<lambda>k. rbind (say E ''Parsing boot.cfg...'' [] k) (\<lambda>k.
         rbind (ParseConfig (b_config E) (k_mem k)) (\<lambda>(ok, m). let k = k\<lparr>k_mem := m\<rparr> in
         if ok then rbind (say E ('' OK'' @ [CHR 0x0A]) [] k) (\<lambda>k. rbind (report E ''Initializing disk subsystem...'' [] (init_disks E) k) (\<lambda>k.
             rbind (say E (''Successful boot-up.'' @ [CHR 0x0A]) [] k) (\<lambda>k. Inr (Idle k))))
         else fail E ('' ERROR. Is there a valid /sys/vv4os/boot.cfg?'' @ [CHR 0x0A]) k)))) = Inr r"
      using run unfolding kernel_main_def by (rule rbind_InrE)
    have m1: "k_mem k1 = copy_config (b_config E) mi (k_mem k)" "k_disk k1 = k_disk k"
      using k1(1) unfolding boot_start_def Let_def
      by (auto elim!: rbind_InrE dest!: say_quiet simp: quiet_def split: if_splits)
    show ?thesis
    proof (cases "mods_count mi = 1")
      case False
      then have "fail E ''Something's wrong with the boot modules. Aborting'' k1 = Inr r" using k1(2) by simp
      from halts [OF this] m1(2) show ?thesis by simp
    next
      case True
      then obtain k2 k3 where k2: "boot_parts E k1 = Inr k2" "say E ''Parsing boot.cfg...'' [] k2 = Inr k3"
        and rest: "rbind (ParseConfig (b_config E) (k_mem k3)) (\<lambda>(ok, m). let k = k3\<lparr>k_mem := m\<rparr> in
         if ok then rbind (say E ('' OK'' @ [CHR 0x0A]) [] k) (\<lambda>k. rbind (report E ''Initializing disk subsystem...'' [] (init_disks E) k) (\<lambda>k.
             rbind (say E (''Successful boot-up.'' @ [CHR 0x0A]) [] k) (\<lambda>k. Inr (Idle k))))
         else fail E ('' ERROR. Is there a valid /sys/vv4os/boot.cfg?'' @ [CHR 0x0A]) k) = Inr r"
        using k1(2) by (simp only: simp_thms if_False if_True not_True_eq_False) (erule rbind_InrE, erule rbind_InrE, rule that)
      have q: "k_mem k3 = k_mem k1" "k_disk k3 = k_disk k1" using boot_parts_quiet [OF k2(1)] say_quiet [OF k2(2)] by (simp_all add: quiet_def)
      have "fail E ('' ERROR. Is there a valid /sys/vv4os/boot.cfg?'' @ [CHR 0x0A]) (k3\<lparr>k_mem := (k_mem k3)(b_config E + 7 := 0)\<rparr>) = Inr r"
        using rest assms q(1) m1(1) by (simp add: ParseConfig_eq Let_def del: fun_upd_apply)
      from halts [OF this] q(2) m1(2) show ?thesis by simp
    qed
  qed
  then show ?thesis by blast
qed

theorem kernel_main_needs_signature_witness:
  "\<forall>E k k'. kernel_main E \<lparr>mb_flags = 0, mem_lower = 640, mem_upper = 31744, boot_device = 0, cmdline = 0, mods_count = 1, mods_addr = 0\<rparr>
     (k\<lparr>k_mem := (\<lambda>_. 0)\<rparr>) \<noteq> Inr (Idle k')"
proof (intro allI)
  fix E :: "('a, 'b, 'c) boot_env" and k k' :: "('a, 'b, 'c) kernel"
  let ?mi = "\<lparr>mb_flags = 0, mem_lower = 640, mem_upper = 31744, boot_device = 0, cmdline = 0, mods_count = 1, mods_addr = 0\<rparr>"
  have "copy_config (b_config E) ?mi (\<lambda>_. 0) = (\<lambda>_. 0)" by (simp add: copy_config_def module_at_def memcpy_def read32_def MAX_CONF_SIZE_def)
  then have "\<not> starts_with CONF_SIGNATURE (b_config E) (copy_config (b_config E) ?mi (k_mem (k\<lparr>k_mem := (\<lambda>_. 0)\<rparr>)))"
    by (simp add: starts_with_def CONF_SIGNATURE_def text_of_def of_char_def upt_rec)
  then show "kernel_main E ?mi (k\<lparr>k_mem := (\<lambda>_. 0)\<rparr>) \<noteq> Inr (Idle k')" by (rule kernel_main_needs_signature [THEN conjunct1])
qed

end
