(* ===== verification/Disk_Volumes.thy ===== *)
theory Disk_Volumes
  imports Disk_Subsystem
begin

text \<open>
  \<open>AddDisks\<close>: which disks and volumes can be found afterwards, and when the kernel dereferences \<open>NULL\<close> instead.
\<close>

section \<open>Mounting beside other volumes\<close>

text \<open>A partition that the driver can read, with a boot record it mounts when the table says that the partition exists.\<close>

definition boot_record :: "device \<Rightarrow> nat \<Rightarrow> bytes" where
  "boot_record rd part = the (psector rd (of_nat part) 0)"

definition in_use :: "device \<Rightarrow> nat \<Rightarrow> bool" where
  "in_use rd part \<longleftrightarrow> lba_length (partition_table (the (rd 0)) part) \<noteq> 0"

definition readable :: "'m fat_env \<Rightarrow> device \<Rightarrow> bool" where
  "readable E rd \<longleftrightarrow> length (junk_br E) = 512
     \<and> (\<forall>part < 4. sector_device (scratch E) rd (of_nat part) \<and> psector rd (of_nat part) 0 \<noteq> None)"

text \<open>The addresses of the objects of the FAT driver.\<close>

definition objects :: "'m fat_state \<Rightarrow> u32 set" where
  "objects f = dom (vols f) \<union> dom (files f) \<union> dom (ffids f)"

lemma FatMountVolume_beside:
  assumes rd: "readable E rd" "part < 4" and dv: "deref (devs f) disk = Inr rd" and mnt: "mountable (boot_record rd part)"
    and obj: "objects f \<subseteq> X" and fresh: "fresh_blocks (h_malloc E) (n + 4) (fat_heap f) X"
  shows "\<exists>v vol f' X'. FatMountVolume E disk (of_nat part) f = Inr (v, f') \<and> v \<noteq> 0 \<and> v \<notin> X \<and> devs f' = devs f
     \<and> vols f' = (vols f)(v \<mapsto> vol) \<and> vol_disk vol = disk \<and> vol_partition vol = of_nat part \<and> mounted f' v (boot_record rd part)
     \<and> (\<forall>a \<in> X. files f' a = files f a \<and> ffids f' a = ffids f a)
     \<and> objects f' \<subseteq> X' \<and> X \<subseteq> X' \<and> fresh_blocks (h_malloc E) n (fat_heap f') X'"
proof -
  let ?b = "boot_record rd part"
  have sd: "sector_device (scratch E) rd (of_nat part)" and boot: "psector rd (of_nat part) 0 = Some ?b" and jb: "length (junk_br E) = 512"
    using rd by (auto simp: readable_def boot_record_def)
  have "length ?b = 512" using sector_device.psector_length [OF sd boot] .
  then have read: "PartitionReadSector (scratch E) rd (of_nat part) 0 (junk_br E) 0 = Inr (True, ?b)"
    using sector_device.PartitionReadSector_eq [OF sd, of 0 "junk_br E" 0] boot jb by simp
  obtain dp h1 where 1: "h_malloc E sizeof_FatVolumeInternalData (fat_heap f) = (dp, h1)" by (cases "h_malloc E sizeof_FatVolumeInternalData (fat_heap f)")
  obtain v h2 where 2: "h_malloc E sizeof_Volume h1 = (v, h2)" by (cases "h_malloc E sizeof_Volume h1")
  obtain fl h3 where 3: "h_malloc E sizeof_file h2 = (fl, h3)" by (cases "h_malloc E sizeof_file h2")
  obtain fd h4 where 4: "h_malloc E sizeof_FatFileInternalData h3 = (fd, h4)" by (cases "h_malloc E sizeof_FatFileInternalData h3")
  have n4: "n + 4 = Suc (Suc (Suc (Suc n)))" by simp
  note f1 = fresh_blocksD [OF fresh [unfolded n4] 1 fat_requests(2)]
  note f2 = fresh_blocksD [OF f1(3) 2 fat_requests(3)]
  note f3 = fresh_blocksD [OF f2(3) 3 fat_requests(4)]
  note f4 = fresh_blocksD [OF f3(3) 4 fat_requests(1)]
  let ?vol = "(junk_vol E)\<lparr>vol_disk := disk, vol_data := dp, vol_partition := of_nat part, vol_root := fl\<rparr>"
  let ?file = "(junk_file E)\<lparr>volume := v, traverse_op := Fat32TraverseOp_addr, read_op := Fat32ReadOp_addr,
      write_op := FileAccessOpStub_addr, fd_type := FD_TYPE_DIRECTORY, data := fd\<rparr>"
  let ?f = "f\<lparr>fat_heap := h4, fvids := (fvids f)(dp \<mapsto> fat_geometry ?b), vols := (vols f)(v \<mapsto> ?vol),
      ffids := (ffids f)(fd \<mapsto> \<lparr>first_cluster = fat32_root_cluster_number ?b\<rparr>), files := (files f)(fl \<mapsto> ?file)\<rparr>"
  let ?X = "insert fd (insert fl (insert v (insert dp X)))"
  have "FatMountVolume E disk (of_nat part) f = Inr (v, ?f)"
    using mnt 1 2 3 4 f1(1) f2(1) f3(1) f4(1) read dv
    by (auto simp: FatMountVolume_def Fat32MountVolume_def mountable_def fat_geometry_def)
  moreover have "mounted ?f v ?b" using f2(1) f3(1) f4(1) by (simp add: mounted_def)
  moreover have "\<forall>a \<in> X. files ?f a = files f a \<and> ffids ?f a = ffids f a" using f3(2) f4(2) by auto
  moreover have "objects ?f \<subseteq> ?X" using obj by (auto simp: objects_def)
  moreover have "v \<notin> X" using f2(2) by simp
  ultimately show ?thesis using f2(1) f4(3)
    by (intro exI [of _ v] exI [of _ ?vol] exI [of _ ?f] exI [of _ ?X] conjI) auto
qed

lemma FatMountVolume_refuses:
  assumes sd: "sector_device (scratch E) rd part" and boot: "psector rd part 0 = Some b" and dv: "deref (devs f) disk = Inr rd"
    and jb: "length (junk_br E) = 512" and fresh: "fresh_blocks (h_malloc E) 2 (fat_heap f) X" and mnt: "\<not> mountable b"
  shows "\<exists>h. FatMountVolume E disk part f = Inr (0, f\<lparr>fat_heap := h\<rparr>)"
proof -
  have "length b = 512" using sector_device.psector_length [OF sd boot] .
  then have rd: "PartitionReadSector (scratch E) rd part 0 (junk_br E) 0 = Inr (True, b)"
    using sector_device.PartitionReadSector_eq [OF sd, of 0 "junk_br E" 0] boot jb by simp
  obtain p h1 where p: "h_malloc E sizeof_FatVolumeInternalData (fat_heap f) = (p, h1)" by (cases "h_malloc E sizeof_FatVolumeInternalData (fat_heap f)")
  obtain v h2 where v: "h_malloc E sizeof_Volume h1 = (v, h2)" by (cases "h_malloc E sizeof_Volume h1")
  have "(2 :: nat) = Suc (Suc 0)" by simp
  note f1 = fresh_blocksD [OF fresh [unfolded this] p fat_requests(2)]
  note f2 = fresh_blocksD [OF f1(3) v fat_requests(3)]
  show ?thesis using mnt p v f1(1) f2(1) rd dv by (auto simp: FatMountVolume_def mountable_def)
qed

section \<open>Lists of volumes\<close>

text \<open>
  \<open>L\<close> are the volumes of the list that starts at \<open>vs\<close>: address, disk, partition and boot record. Everything the driver has
  allocated is in \<open>X\<close>, and \<open>n\<close> allocations are still possible.
\<close>

definition volume_list :: "'m fat_env \<Rightarrow> nat \<Rightarrow> (u32 \<times> u32 \<times> nat \<times> bytes) list \<Rightarrow> u32 \<Rightarrow> 'm fat_state \<Rightarrow> bool" where
  "volume_list E n L vs f \<longleftrightarrow> linked (vols f) vol_next vs (map fst L)
     \<and> (\<forall>(v, d, p, b) \<in> set L. mounted f v b \<and> (\<exists>vol. vols f v = Some vol \<and> vol_disk vol = d \<and> vol_partition vol = of_nat p))
     \<and> (\<exists>X. objects f \<subseteq> X \<and> fresh_blocks (h_malloc E) n (fat_heap f) X)"

lemma mounted_cong:
  assumes "mounted f v b" and "vols f' v = Some vol'" and "vols f v = Some vol" and "vol_root vol' = vol_root vol"
    and "\<And>a. a \<in> objects f \<Longrightarrow> files f' a = files f a \<and> ffids f' a = ffids f a"
  shows "mounted f' v b"
proof -
  obtain fl where fl: "v \<noteq> 0" "vol_root vol \<noteq> 0" "files f (vol_root vol) = Some fl" "fd_type fl = FD_TYPE_DIRECTORY" "volume fl = v"
    "data fl \<noteq> 0" "ffids f (data fl) = Some \<lparr>first_cluster = fat32_root_cluster_number b\<rparr>"
    using assms(1,3) by (auto simp: mounted_def deref_Inr_iff)
  have "vol_root vol \<in> objects f" "data fl \<in> objects f" using fl(3,7) by (auto simp: objects_def)
  then show ?thesis using fl assms(2,4,5) by (auto simp: mounted_def deref_Inr_iff)
qed

lemma add_partition_mounts:
  assumes L: "volume_list E (n + 4) L vs f" and rd: "readable E rd" "part < 4" and dv: "deref (devs f) disk = Inr rd"
    and mnt: "in_use rd part \<longrightarrow> mountable (boot_record rd part)"
  shows "\<exists>vs' f' L'. add_partition E disk part (vs, f) = Inr (vs', f') \<and> volume_list E n L' vs' f' \<and> devs f' = devs f
     \<and> snd ` set L' = snd ` set L \<union> (if in_use rd part then {(disk, part, boot_record rd part)} else {})"
proof -
  have sd: "sector_device (scratch E) rd (of_nat part)" using rd by (simp add: readable_def)
  have "unat (of_nat part :: u32) = part" using rd(2) by (intro unat_of_nat_less) simp
  then have entry: "GetPartitionEntry (scratch E) rd (of_nat part) = Inr (partition_table (the (rd 0)) part)"
    using sector_device.GetPartitionEntry_eq [OF sd] by simp
  obtain X where X: "objects f \<subseteq> X" "fresh_blocks (h_malloc E) (n + 4) (fat_heap f) X" using L by (auto simp: volume_list_def)
  show ?thesis
  proof (cases "in_use rd part")
    case False
    have "fresh_blocks (h_malloc E) n (fat_heap f) X" by (rule fresh_blocks_antimono [OF X(2)]) simp_all
    then have "volume_list E n L vs f" using L X(1) unfolding volume_list_def by blast
    then show ?thesis using False entry dv by (intro exI [of _ vs] exI [of _ f] exI [of _ L]) (simp add: add_partition_def in_use_def)
  next
    case True
    let ?b = "boot_record rd part"
    obtain v vol f1 X' where m: "FatMountVolume E disk (of_nat part) f = Inr (v, f1)" "v \<noteq> 0" "v \<notin> X" "devs f1 = devs f"
      "vols f1 = (vols f)(v \<mapsto> vol)" "vol_disk vol = disk" "vol_partition vol = of_nat part" "mounted f1 v ?b"
      "\<forall>a \<in> X. files f1 a = files f a \<and> ffids f1 a = ffids f a" "objects f1 \<subseteq> X'" "fresh_blocks (h_malloc E) n (fat_heap f1) X'"
      using FatMountVolume_beside [OF rd dv mnt [rule_format, OF True] X] by (elim exE conjE) (rule that)
    let ?f = "f1\<lparr>vols := (vols f1)(v \<mapsto> vol\<lparr>vol_next := vs\<rparr>)\<rparr>"
    have nv: "v \<notin> dom (vols f)" using m(3) X(1) by (auto simp: objects_def)
    have old: "mounted ?f w b \<and> (\<exists>vol. vols ?f w = Some vol \<and> vol_disk vol = d \<and> vol_partition vol = of_nat p)"
      if "(w, d, p, b) \<in> set L" for w d p b
    proof -
      obtain vw where w: "mounted f w b" "vols f w = Some vw" "vol_disk vw = d" "vol_partition vw = of_nat p"
        using L \<open>(w, d, p, b) \<in> set L\<close> by (fastforce simp: volume_list_def)
      then have same: "vols ?f w = Some vw" using nv m(5) by auto
      have "mounted ?f w b" by (rule mounted_cong [OF w(1) same w(2) refl]) (use m(9) X(1) in auto)
      then show ?thesis using same w(3,4) by blast
    qed
    have new: "mounted ?f v ?b" by (rule mounted_cong [OF m(8), where vol' = "vol\<lparr>vol_next := vs\<rparr>" and vol = vol]) (simp_all add: m(5))
    have "linked (vols f) vol_next vs (map fst L)" using L by (simp add: volume_list_def)
    moreover have "v \<notin> set (map fst L)" using linked_live [OF calculation, of v] nv by auto
    ultimately have "linked (vols ?f) vol_next v (map fst ((v, disk, part, ?b) # L))" using m(2,5) by (simp add: linked_upd_other)
    moreover have "objects ?f \<subseteq> X'" using m(5,10) by (auto simp: objects_def)
    ultimately have "volume_list E n ((v, disk, part, ?b) # L) v ?f"
      using old new m(5,6,7,11) by (auto simp: volume_list_def)
    moreover have "add_partition E disk part (vs, f) = Inr (v, ?f)"
      using True entry dv m(1,2,5) by (simp add: add_partition_def in_use_def)
    ultimately show ?thesis using True m(4)
      by (intro exI [of _ v] exI [of _ ?f] exI [of _ "(v, disk, part, ?b) # L"]) auto
  qed
qed

text \<open>The volumes of a disk.\<close>

definition volumes_of :: "u32 \<Rightarrow> device \<Rightarrow> nat \<Rightarrow> (u32 \<times> nat \<times> bytes) set" where
  "volumes_of disk rd k = {(disk, part, boot_record rd part) | part. part < k \<and> in_use rd part}"

lemma add_partitions_mounts:
  assumes L: "volume_list E (n + 4 * m) L vs f" and m: "m \<le> 4" and rd: "readable E rd" and dv: "deref (devs f) disk = Inr rd"
    and mnt: "\<And>part. part < m \<Longrightarrow> in_use rd part \<longrightarrow> mountable (boot_record rd part)"
  shows "\<exists>vs' f' L'. rfold (add_partition E disk) [0..<m] (vs, f) = Inr (vs', f') \<and> volume_list E n L' vs' f' \<and> devs f' = devs f
     \<and> snd ` set L' = snd ` set L \<union> volumes_of disk rd m"
proof -
  define P where "P k r \<longleftrightarrow> (\<exists>L'. volume_list E (n + 4 * (m - k)) L' (fst r) (snd r) \<and> devs (snd r) = devs f
     \<and> snd ` set L' = snd ` set L \<union> volumes_of disk rd k)" for k and r :: "u32 \<times> 'a fat_state"
  have "\<exists>r. rfold (add_partition E disk) [0..<m] (vs, f) = Inr r \<and> P m r"
  proof (rule rfold_upt_invar)
    show "P 0 (vs, f)" using L by (auto simp: P_def volumes_of_def)
    show "\<exists>r'. add_partition E disk k r = Inr r' \<and> P (Suc k) r'" if k: "k < m" "P k r" for k r
    proof -
      obtain L' where L': "volume_list E (n + 4 * (m - k)) L' (fst r) (snd r)" "devs (snd r) = devs f" "snd ` set L' = snd ` set L \<union> volumes_of disk rd k"
        using k(2) by (auto simp: P_def)
      have "n + 4 * (m - k) = n + 4 * (m - Suc k) + 4" using k(1) by simp
      then have v: "volume_list E (n + 4 * (m - Suc k) + 4) L' (fst r) (snd r)" using L'(1) by (simp only:)
      have d: "deref (devs (snd r)) disk = Inr rd" using dv L'(2) by simp
      have k4: "k < 4" using k(1) m by simp
      have vk: "volumes_of disk rd (Suc k) = volumes_of disk rd k \<union> (if in_use rd k then {(disk, k, boot_record rd k)} else {})"
        by (auto simp: volumes_of_def less_Suc_eq)
      obtain vs' f' L2 where s: "add_partition E disk k (fst r, snd r) = Inr (vs', f')" "volume_list E (n + 4 * (m - Suc k)) L2 vs' f'" "devs f' = devs (snd r)"
        "snd ` set L2 = snd ` set L' \<union> (if in_use rd k then {(disk, k, boot_record rd k)} else {})"
        using add_partition_mounts [OF v rd k4 d mnt [OF k(1)]] by (elim exE conjE) (rule that)
      have "P (Suc k) (vs', f')" unfolding P_def using s(2-4) L'(2,3) by (intro exI [of _ L2]) (simp add: vk Un_assoc)
      then show ?thesis using s(1) by simp
    qed
  qed simp
  then show ?thesis by (auto simp: P_def)
qed

section \<open>Disks\<close>

text \<open>The bitmap of disk numbers after \<open>k\<close> of them have been given out, in order from 1.\<close>

definition numbered :: "Bitmap \<Rightarrow> nat \<Rightarrow> bool" where
  "numbered bm k \<longleftrightarrow> bm_wf bm \<and> lo_ix bm = 1 \<and> hi_ix bm = 4097 \<and> used bm = {1..<Suc k}"

lemma next_number:
  assumes "numbered bm k" and "k < 4096"
  shows "\<exists>bm'. AllocateInBitmap bm 1 = Inr (bm', of_nat (Suc k)) \<and> numbered bm' (Suc k)"
proof -
  have wf: "bm_wf bm" "(0 :: u32) < 1" and u: "used bm = {1..<Suc k}" and lo: "lo_ix bm = 1" "hi_ix bm = 4097"
    using assms(1) by (simp_all add: numbered_def)
  have fit: "free_run bm (Suc k) 1" using assms(2) u lo by (auto simp: free_run_def range_of_def)
  show ?thesis
  proof (rule AllocateInBitmap_cases [OF wf], goal_cases full fit)
    case full
    then show ?thesis using fit by simp
  next
    case (fit bm' r)
    have "\<not> unat r < Suc k" using fit(3) u lo by (auto simp: free_run_def range_of_def)
    moreover have "\<not> Suc k < unat r" using fit(4) \<open>free_run bm (Suc k) 1\<close> by auto
    ultimately have r: "unat r = Suc k" by simp
    then have "r = of_nat (Suc k)" by (metis of_nat_unat ucast_id)
    moreover have "used bm' = {1..<Suc (Suc k)}" using fit(6) u r by (auto simp: range_of_def)
    ultimately show ?thesis using fit(1,5,7,8) lo by (simp add: numbered_def)
  qed
qed

text \<open>A disk as \<open>AddDisks\<close> needs it: readable, and every partition of the table can be mounted.\<close>

definition good_disk :: "'m fat_env \<Rightarrow> 'm fat_state \<Rightarrow> u32 \<Rightarrow> bool" where
  "good_disk E f a \<longleftrightarrow> (\<exists>rd. devs f a = Some rd \<and> readable E rd \<and> (\<forall>part < 4. in_use rd part \<longrightarrow> mountable (boot_record rd part)))"

lemma AddDisks_loop_mounts:
  assumes "linked (disk_descs (ide s)) disk_next chain as" and "length as < fuel" and "numbered (disk_bitmap s) k" and "k + length as \<le> 4096"
    and "\<forall>a \<in> set as. good_disk E (fat s) a" and "volume_list E (16 * length as) L vs (fat s)"
  shows "\<exists>vs' s' L'. AddDisks_loop fuel E chain (vs, s) = Inr (vs', s') \<and> volume_list E 0 L' vs' (fat s') \<and> disks s' = disks s \<and> volumes s' = volumes s
     \<and> devs (fat s') = devs (fat s) \<and> linked (disk_descs (ide s')) disk_next chain as
     \<and> (\<forall>i < length as. map_option disk_id (disk_descs (ide s') (as ! i)) = Some (of_nat (Suc (k + i))))
     \<and> (\<forall>a. a \<notin> set as \<longrightarrow> disk_descs (ide s') a = disk_descs (ide s) a)
     \<and> snd ` set L' = snd ` set L \<union> (\<Union>a \<in> set as. volumes_of a (the (devs (fat s) a)) 4)"
  using assms
proof (induction as arbitrary: chain s fuel k L vs)
  case Nil
  then obtain n where "fuel = Suc n" by (cases fuel) auto
  then show ?case using Nil by (intro exI [of _ vs] exI [of _ s] exI [of _ L]) simp
next
  case (Cons a as)
  obtain n where n: "fuel = Suc n" using Cons.prems(2) by (cases fuel) auto
  obtain dd where dd: "chain = a" "a \<noteq> 0" "disk_descs (ide s) a = Some dd" "linked (disk_descs (ide s)) disk_next (disk_next dd) as"
    using Cons.prems(1) by auto
  have na: "a \<notin> set as" using linked_distinct [OF Cons.prems(1)] by simp
  obtain bm where bm: "AllocateInBitmap (disk_bitmap s) 1 = Inr (bm, of_nat (Suc k))" "numbered bm (Suc k)"
    using next_number [OF Cons.prems(3)] Cons.prems(4) by auto
  obtain rd where rd: "devs (fat s) a = Some rd" "readable E rd" "\<And>part. part < 4 \<Longrightarrow> in_use rd part \<longrightarrow> mountable (boot_record rd part)"
    using Cons.prems(5) by (auto simp: good_disk_def)
  have "16 * length (a # as) = 16 * length as + 4 * 4" by simp
  then have v: "volume_list E (16 * length as + 4 * 4) L vs (fat s)" using Cons.prems(6) by (simp only:)
  have "deref (devs (fat s)) a = Inr rd" using rd(1) dd(2) by simp
  then obtain vs1 f1 L1 where 1: "rfold (add_partition E a) [0..<4] (vs, fat s) = Inr (vs1, f1)" "volume_list E (16 * length as) L1 vs1 f1"
    "devs f1 = devs (fat s)" "snd ` set L1 = snd ` set L \<union> volumes_of a rd 4"
    using add_partitions_mounts [OF v le_refl rd(2) _ rd(3)] by blast
  let ?i = "(ide s)\<lparr>disk_descs := (disk_descs (ide s))(a \<mapsto> dd\<lparr>disk_id := of_nat (Suc k)\<rparr>)\<rparr>"
  define s1 where "s1 = s\<lparr>disk_bitmap := bm, ide := ?i, fat := f1\<rparr>"
  have s1: "disk_descs (ide s1) = disk_descs ?i" "fat s1 = f1" "disk_bitmap s1 = bm" "disks s1 = disks s" "volumes s1 = volumes s" by (simp_all add: s1_def)
  have step: "AddDisks_loop fuel E chain (vs, s) = AddDisks_loop n E (disk_next dd) (vs1, s1)"
    using n dd(1-3) bm(1) 1(1) by (simp add: s1_def)
  have li: "linked (disk_descs (ide s1)) disk_next (disk_next dd) as" using dd(4) na by (simp add: s1 linked_upd_other del: fun_upd_apply)
  have gd: "\<forall>b \<in> set as. good_disk E (fat s1) b" using Cons.prems(5) 1(3) by (simp add: good_disk_def s1)
  have c: "length as < n" "Suc k + length as \<le> 4096" "numbered (disk_bitmap s1) (Suc k)" "volume_list E (16 * length as) L1 vs1 (fat s1)"
    using Cons.prems(2,4) n bm(2) 1(2) by (simp_all add: s1)
  obtain vs' s' L' where 2: "AddDisks_loop n E (disk_next dd) (vs1, s1) = Inr (vs', s')" "volume_list E 0 L' vs' (fat s')"
    "disks s' = disks s" "volumes s' = volumes s" "devs (fat s') = devs (fat s)" "linked (disk_descs (ide s')) disk_next (disk_next dd) as"
    "\<forall>i < length as. map_option disk_id (disk_descs (ide s') (as ! i)) = Some (of_nat (Suc (Suc k + i)))"
    "\<forall>b. b \<notin> set as \<longrightarrow> disk_descs (ide s') b = disk_descs ?i b"
    "snd ` set L' = snd ` set L1 \<union> (\<Union>a \<in> set as. volumes_of a (the (devs (fat s) a)) 4)"
    using Cons.IH [OF li c(1,3,2) gd c(4)] unfolding s1(1,2,4,5) 1(3) by (elim exE conjE) (rule that)
  have da: "disk_descs (ide s') a = Some (dd\<lparr>disk_id := of_nat (Suc k)\<rparr>)" using 2(8) na by simp
  have "map_option disk_id (disk_descs (ide s') ((a # as) ! i)) = Some (of_nat (Suc (k + i)))" if "i < length (a # as)" for i
    using that 2(7) da by (cases i) auto
  moreover have "linked (disk_descs (ide s')) disk_next chain (a # as)" using 2(6) da dd(1,2) by simp
  moreover have "snd ` set L' = snd ` set L \<union> (\<Union>a \<in> set (a # as). volumes_of a (the (devs (fat s) a)) 4)"
    using 2(9) 1(4) rd(1) by auto
  ultimately show ?case using step 2(1-5) 2(8) by (intro exI [of _ vs'] exI [of _ s'] exI [of _ L'] conjI) auto
qed

section \<open>Lookup\<close>

lemma GetDiskDescriptor_finds:
  assumes "linked (disk_descs (ide s)) disk_next (disks s) as" and "length as \<le> 4096" and "i < length as"
    and ids: "\<forall>i < length as. map_option disk_id (disk_descs (ide s) (as ! i)) = Some (of_nat (Suc i))"
  shows "GetDiskDescriptor (of_nat (Suc i)) s = Inr (as ! i)"
proof -
  let ?P = "\<lambda>a. disk_id (the (disk_descs (ide s) a)) = of_nat (Suc i)"
  have inj: "(of_nat (Suc j) :: u32) = of_nat (Suc i) \<Longrightarrow> j = i" if "j < length as" for j
    using that assms(2,3) by (auto simp: word_unat_eq_iff unat_of_nat_less simp del: of_nat_Suc dest!: arg_cong [of _ _ unat])
  have id_at: "disk_id (the (disk_descs (ide s) (as ! j))) = of_nat (Suc j)" if "j < length as" for j
    using ids [rule_format, OF that] by (cases "disk_descs (ide s) (as ! j)") simp_all
  have "find ?P as = Some (as ! i)"
  proof (rule find_unique)
    show "as ! i \<in> set as" "?P (as ! i)" using assms(3) id_at by simp_all
    show "\<forall>b \<in> set as. ?P b \<longrightarrow> b = as ! i"
    proof (intro ballI impI)
      fix b assume "b \<in> set as" "?P b"
      then obtain j where j: "j < length as" "b = as ! j" by (auto simp: in_set_conv_nth)
      then have "j = i" using \<open>?P b\<close> id_at [OF j(1)] inj [OF j(1)] by simp
      then show "b = as ! i" using j(2) by simp
    qed
  qed
  then show ?thesis using find_node_linked [OF assms(1), of "[]"] by (simp add: GetDiskDescriptor_def del: of_nat_Suc)
qed

lemma GetVolume_finds:
  assumes L: "volume_list E n L (volumes s) (fat s)" and snd: "snd ` set L = (\<Union>a \<in> A. volumes_of a (rd a) 4)" and a: "a \<in> A" "part < 4"
  shows "if in_use (rd a) part then \<exists>v. GetVolume a (of_nat part) s = Inr v \<and> v \<noteq> 0 \<and> mounted (fat s) v (boot_record (rd a) part)
     else GetVolume a (of_nat part) s = Inr 0"
proof -
  let ?P = "\<lambda>v. vol_disk (the (vols (fat s) v)) = a \<and> vol_partition (the (vols (fat s) v)) = of_nat part"
  have li: "linked (vols (fat s)) vol_next (volumes s) (map fst L)" using L by (simp add: volume_list_def)
  have get: "GetVolume a (of_nat part) s = Inr (case find ?P (map fst L) of None \<Rightarrow> 0 | Some v \<Rightarrow> v)"
    using find_node_linked [OF li, of "[]"] by (simp add: GetVolume_def)
  have entry: "mounted (fat s) v b \<and> vol_disk (the (vols (fat s) v)) = d \<and> vol_partition (the (vols (fat s) v)) = of_nat p
      \<and> p < 4 \<and> in_use (rd d) p \<and> b = boot_record (rd d) p" if e: "(v, d, p, b) \<in> set L" for v d p b
  proof -
    have "(d, p, b) \<in> snd ` set L" using e by (force intro: image_eqI [of _ snd])
    then have "p < 4 \<and> in_use (rd d) p \<and> b = boot_record (rd d) p" unfolding snd by (auto simp: volumes_of_def)
    then show ?thesis using L e by (fastforce simp: volume_list_def)
  qed
  have hit: "p = part \<and> in_use (rd a) part \<and> mounted (fat s) v (boot_record (rd a) part)" if e: "(v, d, p, b) \<in> set L" "?P v" for v d p b
  proof -
    have "(of_nat p :: u32) = of_nat part" "p < 4" "d = a" using entry [OF e(1)] e(2) by auto
    then have "p = part" using a(2) by (auto simp: unat_of_nat_less dest!: arg_cong [of _ _ unat])
    then show ?thesis using entry [OF e(1)] \<open>d = a\<close> by auto
  qed
  show ?thesis
  proof (cases "in_use (rd a) part")
    case True
    then have "(a, part, boot_record (rd a) part) \<in> snd ` set L" unfolding snd using a by (auto simp: volumes_of_def)
    then obtain v where "(v, a, part, boot_record (rd a) part) \<in> set L" by auto
    then have "?P v" "v \<in> set (map fst L)" using entry by force+
    then obtain w where w: "find ?P (map fst L) = Some w" "w \<in> set (map fst L)" "?P w" by (cases "find ?P (map fst L)") (auto simp: find_None_iff find_Some_iff)
    then obtain d p b where "(w, d, p, b) \<in> set L" by auto
    then have "mounted (fat s) w (boot_record (rd a) part)" using hit w(3) by blast
    moreover have "w \<noteq> 0" using linked_nonnull [OF li] w(2) by metis
    ultimately show ?thesis using True get w(1) by simp
  next
    case False
    have "\<not> ?P v" if v: "v \<in> set (map fst L)" for v
    proof
      assume "?P v"
      obtain d p b where "(v, d, p, b) \<in> set L" using v by auto
      then show False using hit \<open>?P v\<close> False by blast
    qed
    then have "find ?P (map fst L) = None" by (simp add: find_None_iff)
    then show ?thesis using False get by simp
  qed
qed

text \<open>The disks of a chain and their volumes are found after \<open>AddDisks\<close>.\<close>

lemma AddDisks_registers:
  assumes "linked (disk_descs (ide s)) disk_next chain as" and "as \<noteq> []" and "length as < fuel" and "length as \<le> 4096"
    and "numbered (disk_bitmap s) 0" and "\<forall>a \<in> set as. good_disk E (fat s) a"
    and "fresh_blocks (h_malloc E) (16 * length as) (fat_heap (fat s)) (objects (fat s))" and "disks s = 0" and "volumes s = 0"
  shows "\<exists>s'. AddDisks fuel E chain s = Inr s' \<and> (\<forall>i < length as. GetDiskDescriptor (of_nat (Suc i)) s' = Inr (as ! i))
     \<and> (\<forall>a \<in> set as. \<forall>part < 4.
          if in_use (the (devs (fat s) a)) part
          then \<exists>v. GetVolume a (of_nat part) s' = Inr v \<and> v \<noteq> 0 \<and> mounted (fat s') v (boot_record (the (devs (fat s) a)) part)
          else GetVolume a (of_nat part) s' = Inr 0)"
proof -
  have v0: "volume_list E (16 * length as) [] 0 (fat s)" using assms(7) by (auto simp: volume_list_def)
  obtain vs s1 L where 1: "AddDisks_loop fuel E chain (0, s) = Inr (vs, s1)" "volume_list E 0 L vs (fat s1)" "disks s1 = disks s" "volumes s1 = volumes s"
    "linked (disk_descs (ide s1)) disk_next chain as"
    "\<forall>i < length as. map_option disk_id (disk_descs (ide s1) (as ! i)) = Some (of_nat (Suc (0 + i)))"
    "snd ` set L = snd ` set [] \<union> (\<Union>a \<in> set as. volumes_of a (the (devs (fat s) a)) 4)"
    using AddDisks_loop_mounts [OF assms(1,3,5) _ assms(6) v0] assms(4) by auto
  let ?s = "s1\<lparr>volumes := vs, disks := chain\<rparr>"
  have "chain \<noteq> 0" using assms(1,2) by (cases as) auto
  then have "AddDisks fuel E chain s = Inr ?s" using 1(1,3,4) assms(8,9) by (simp add: AddDisks_def AddVolumes_def)
  moreover have "GetDiskDescriptor (of_nat (Suc i)) ?s = Inr (as ! i)" if "i < length as" for i
    using GetDiskDescriptor_finds [of ?s as i] 1(5,6) assms(4) that by simp
  moreover have "if in_use (the (devs (fat s) a)) part
      then \<exists>v. GetVolume a (of_nat part) ?s = Inr v \<and> v \<noteq> 0 \<and> mounted (fat ?s) v (boot_record (the (devs (fat s) a)) part)
      else GetVolume a (of_nat part) ?s = Inr 0" if "a \<in> set as" "part < 4" for a part
    by (rule GetVolume_finds [where E = E and n = 0 and L = L and rd = "\<lambda>a. the (devs (fat s) a)" and A = "set as"]) (use 1(2,7) that in simp_all)
  ultimately show ?thesis by blast
qed

section \<open>Properties\<close>

text \<open>The sectors of an ATA drive; a drive as the kernel needs it.\<close>

definition drive_image :: "(bool \<Rightarrow> bool \<Rightarrow> drive) \<Rightarrow> bool \<times> bool \<Rightarrow> device" where
  "drive_image media d = (case media (fst d) (snd d) of Ata img ident \<Rightarrow> \<lambda>n. Some (word_bytes (img (take_bit 48 n))) | _ \<Rightarrow> \<lambda>_. None)"

definition good_drive :: "'m fat_env \<Rightarrow> (bool \<Rightarrow> bool \<Rightarrow> drive) \<Rightarrow> bool \<times> bool \<Rightarrow> bool" where
  "good_drive E media d \<longleftrightarrow> (\<exists>img ident. media (fst d) (snd d) = Ata img ident \<and> (\<forall>n. length (img n) = 256)) \<and> readable E (drive_image media d)
     \<and> (\<forall>part < 4. in_use (drive_image media d) part \<longrightarrow> mountable (boot_record (drive_image media d) part))"

text \<open>The disks of the drives \<open>media\<close> are listed under the numbers from 1 on and their partitions are mounted.\<close>

definition disks_mounted :: "(bool \<Rightarrow> bool \<Rightarrow> drive) \<Rightarrow> ('d, 'm) disk_state \<Rightarrow> bool" where
  "disks_mounted media s \<longleftrightarrow> (\<exists>as. length as = length (ata_drives media)
     \<and> (\<forall>i < length as. GetDiskDescriptor (of_nat (Suc i)) s = Inr (as ! i) \<and> (\<forall>part < 4.
          if in_use (drive_image media (ata_drives media ! i)) part
          then \<exists>v. GetVolume (as ! i) (of_nat part) s = Inr v \<and> v \<noteq> 0
                 \<and> mounted (fat s) v (boot_record (drive_image media (ata_drives media ! i)) part)
          else GetVolume (as ! i) (of_nat part) s = Inr 0)))"

lemma disks_mounted_cong:
  assumes "disks_mounted media s" and "disk_descs (ide s') = disk_descs (ide s)" and "disks s' = disks s" and "volumes s' = volumes s"
    and "vols (fat s') = vols (fat s)" and "files (fat s') = files (fat s)" and "ffids (fat s') = ffids (fat s)"
  shows "disks_mounted media s'"
proof -
  have "GetDiskDescriptor ix s' = GetDiskDescriptor ix s" "GetVolume a p s' = GetVolume a p s" "mounted (fat s') v b = mounted (fat s) v b" for ix a p v b
    using assms(2-) by (simp_all add: GetDiskDescriptor_def GetVolume_def mounted_def)
  then show ?thesis using assms(1) by (simp only: disks_mounted_def)
qed

text \<open>What \<open>AddDisks\<close> leaves alone.\<close>

definition same_machine :: "('d, 'm) disk_state \<Rightarrow> ('d, 'm) disk_state \<Rightarrow> bool" where
  "same_machine s s' \<longleftrightarrow> dev (ide s') = dev (ide s) \<and> ide_one (ide s') = ide_one (ide s) \<and> pci_nodes s' = pci_nodes s
     \<and> controllers s' = controllers s \<and> messages s' = messages s"

lemma AddDisks_loop_machine: "AddDisks_loop fuel E disk (vs, s) = Inr (vs', s') \<Longrightarrow> same_machine s s'"
proof (induction fuel arbitrary: disk vs s)
  case (Suc n)
  show ?case
  proof (cases "disk = 0")
    case False
    then obtain bm ix dd vs1 f where "AddDisks_loop n E (disk_next dd) (vs1, s\<lparr>disk_bitmap := bm,
        ide := (ide s)\<lparr>disk_descs := (disk_descs (ide s))(disk \<mapsto> dd\<lparr>disk_id := ix\<rparr>)\<rparr>, fat := f\<rparr>) = Inr (vs', s')"
      using Suc.prems by (auto simp: Let_def case_prod_beta elim!: rbind_InrE)
    from Suc.IH [OF this] show ?thesis by (simp add: same_machine_def)
  qed (use Suc.prems in \<open>simp add: same_machine_def\<close>)
qed simp

lemma AddDisks_machine: "AddDisks fuel E chain s = Inr s' \<Longrightarrow> same_machine s s'"
  by (auto simp: AddDisks_def AddVolumes_def same_machine_def elim!: rbind_InrE dest!: AddDisks_loop_machine split: if_splits)

text \<open>Before the first controller: no disk, no volume, memory for the objects of four drives, and every number free.\<close>

definition blank_disks :: "'m fat_env \<Rightarrow> ('d, 'm) disk_state \<Rightarrow> bool" where
  "blank_disks E s \<longleftrightarrow> \<not> ide_one (ide s) \<and> disks s = 0 \<and> volumes s = 0
     \<and> fresh_blocks (h_malloc E) 73 (ide_heap (ide s)) (objects (fat s) \<union> (dom (disk_descs (ide s)) \<union> dom (ide_disks (ide s))))"

definition no_disks :: "'m fat_env \<Rightarrow> ('d, 'm) disk_state \<Rightarrow> bool" where
  "no_disks E s \<longleftrightarrow> blank_disks E s \<and> numbered (disk_bitmap s) 0"

context ata_host
begin

lemma disk_devs_host:
  assumes "ide_disk i a (fst d) (snd d)" and "good_drive E media d" and "delay < fuel"
  shows "disk_devs fuel io i a = Some (drive_image media d)"
proof -
  obtain img ident where m: "media (fst d) (snd d) = Ata img ident" "\<forall>n. length (img n) = 256" using assms(2) by (auto simp: good_drive_def)
  obtain dd where "disk_descs i a = Some dd" "disk_read_op dd = IdeReadOp_addr" using assms(1) by (auto simp: ide_disk_def)
  then show ?thesis using ide_device_host [OF assms(1) m assms(3)] m(1) by (simp add: disk_devs_def drive_image_def)
qed

lemma AddDisks_drives:
  fixes s :: "('d, 'm) disk_state"
  assumes "no_disks E s" and "delay < fuel" and "4 < fuel" and good: "\<forall>d \<in> set (ata_drives media). good_drive E media d"
    and i: "linked (disk_descs i) disk_next chain as" "list_all2 (\<lambda>a (c, sl). ide_disk i a c sl) as (ata_drives media)"
      "fresh_blocks (h_malloc E) 64 (ide_heap i) (objects (fat s))"
  shows "\<exists>s'. AddDisks fuel E chain (s\<lparr>ide := i, pci_nodes := N, fat := (fat s)\<lparr>devs := disk_devs fuel io i, fat_heap := ide_heap i\<rparr>\<rparr>) = Inr s'
     \<and> disks_mounted media s'"
proof (cases "as = []")
  case True
  then have "chain = 0" "ata_drives media = []" using i(1,2) by simp_all
  then show ?thesis by (simp add: AddDisks_def disks_mounted_def)
next
  case False
  let ?D = "ata_drives media"
  let ?s = "s\<lparr>ide := i, pci_nodes := N, fat := (fat s)\<lparr>devs := disk_devs fuel io i, fat_heap := ide_heap i\<rparr>\<rparr>"
  have len: "length as = length ?D" using i(2) by (rule list_all2_lengthD)
  have "length ?D \<le> 4" unfolding ata_drives_def by (rule order_trans [OF length_filter_le]) simp
  then have n: "length as < fuel" "length as \<le> 4096" "16 * length as \<le> 64" using len assms(3) by auto
  have dev: "devs (fat ?s) (as ! j) = Some (drive_image media (?D ! j))" if "j < length as" for j
    using disk_devs_host [of i "as ! j" "?D ! j" E fuel] list_all2_nthD [OF i(2) that] assms(2) good that len by (simp add: case_prod_beta)
  have gd: "\<forall>a \<in> set as. good_disk E (fat ?s) a"
  proof
    fix a assume "a \<in> set as"
    then obtain j where j: "j < length as" "a = as ! j" by (auto simp: in_set_conv_nth)
    then have "good_drive E media (?D ! j)" using good len by simp
    then show "good_disk E (fat ?s) a" using dev [OF j(1)] j(2) unfolding good_disk_def good_drive_def by blast
  qed
  have fr: "fresh_blocks (h_malloc E) (16 * length as) (fat_heap (fat ?s)) (objects (fat ?s))"
    using fresh_blocks_antimono [OF i(3), of "objects (fat s)" "16 * length as"] n(3) by (simp add: objects_def)
  have li: "linked (disk_descs (ide ?s)) disk_next chain as" using i(1) by simp
  obtain s' where s': "AddDisks fuel E chain ?s = Inr s'" "\<forall>i < length as. GetDiskDescriptor (of_nat (Suc i)) s' = Inr (as ! i)"
    "\<forall>a \<in> set as. \<forall>part < 4. if in_use (the (devs (fat ?s) a)) part
       then \<exists>v. GetVolume a (of_nat part) s' = Inr v \<and> v \<noteq> 0 \<and> mounted (fat s') v (boot_record (the (devs (fat ?s) a)) part)
       else GetVolume a (of_nat part) s' = Inr 0"
    using AddDisks_registers [OF li False n(1,2) _ gd fr] assms(1) by (auto simp: no_disks_def blank_disks_def)
  have "if in_use (drive_image media (?D ! j)) part
      then \<exists>v. GetVolume (as ! j) (of_nat part) s' = Inr v \<and> v \<noteq> 0 \<and> mounted (fat s') v (boot_record (drive_image media (?D ! j)) part)
      else GetVolume (as ! j) (of_nat part) s' = Inr 0" if "j < length as" "part < 4" for j part
    using s'(3) [rule_format, OF nth_mem [OF that(1)] that(2)] by (simp only: dev [OF that(1)] option.sel)
  then have "disks_mounted media s'" using s'(2) len unfolding disks_mounted_def by (intro exI [of _ as]) simp
  then show ?thesis using s'(1) by blast
qed

lemma add_ide_controller_works:
  fixes s :: "('d, 'm) disk_state"
  assumes s: "no_disks E s" and fuel: "delay < fuel" "4 < fuel" and c: "c \<noteq> 0" "pci_nodes s c = Some dv"
    and good: "\<forall>d \<in> set (ata_drives media). good_drive E media d"
  shows "\<exists>s' cd. add_ide_controller fuel io E junk cjunk c s = Inr s' \<and> disks_mounted media s' \<and> ide_one (ide s') \<and> rest (dev (ide s')) = rest (dev (ide s))
     \<and> pci_nodes s' = (pci_nodes s)(c \<mapsto> dv\<lparr>pci_data := cd\<rparr>) \<and> messages s' = messages s"
proof -
  have one: "\<not> ide_one (ide s)" and f: "fresh_blocks (h_malloc E) (64 + 9) (ide_heap (ide s)) (objects (fat s) \<union> (dom (disk_descs (ide s)) \<union> dom (ide_disks (ide s))))"
    using s by (simp_all add: no_disks_def blank_disks_def)
  obtain chain cd i as where 1: "IdeControllerInit fuel io (h_malloc E) junk cjunk (ide s) = Inr (chain, cd, i)" "linked (disk_descs i) disk_next chain as"
    "list_all2 (\<lambda>a (c, sl). ide_disk i a c sl) as (ata_drives media)" "fresh_blocks (h_malloc E) 64 (ide_heap i) (objects (fat s))"
    "ide_one i" "rest (dev i) = rest (dev (ide s))"
    using IdeControllerInit_chain [OF f fuel(1) one, of junk cjunk] by (elim exE conjE) (rule that)
  let ?N = "(pci_nodes s)(c \<mapsto> dv\<lparr>pci_data := cd\<rparr>)"
  let ?s = "s\<lparr>ide := i, pci_nodes := ?N, fat := (fat s)\<lparr>devs := disk_devs fuel io i, fat_heap := ide_heap i\<rparr>\<rparr>"
  obtain s' where s': "AddDisks fuel E chain ?s = Inr s'" "disks_mounted media s'"
    using AddDisks_drives [OF s fuel good 1(2-4), of ?N] by blast
  let ?t = "s'\<lparr>ide := (ide s')\<lparr>ide_heap := fat_heap (fat s')\<rparr>\<rparr>"
  have "same_machine ?s s'" using s'(1) by (rule AddDisks_machine)
  then have m: "ide_one (ide ?t)" "rest (dev (ide ?t)) = rest (dev (ide s))" "pci_nodes ?t = ?N" "messages ?t = messages s"
    using 1(5,6) by (simp_all add: same_machine_def)
  have "disks_mounted media ?t" by (rule disks_mounted_cong [OF s'(2)]) simp_all
  moreover have "add_ide_controller fuel io E junk cjunk c s = Inr ?t" using 1(1) c s'(1) by (simp add: add_ide_controller_def)
  ultimately show ?thesis using m by blast
qed

end

text \<open>A disk with one partition, that starts at sector 1, as a device and as an ATA drive.\<close>

definition one_volume :: device where
  "one_volume n = Some (if take_bit 48 n = 0 then (replicate 512 0)[454 := 1, 458 := 1] else if take_bit 48 n = 1 then demo_br else replicate 512 0)"

definition words_of :: "bytes \<Rightarrow> u16 list" where
  "words_of b = map (\<lambda>i. le16 b (2 * i)) [0..<256]"

definition one_drive :: "bool \<Rightarrow> bool \<Rightarrow> drive" where
  "one_drive c sl = (if c \<or> sl then No_Drive else Ata (\<lambda>n. words_of (the (one_volume n))) [])"

lemma le16_bytes: "ucast (le16 b i) = b ! i" "ucast (drop_bit 8 (le16 b i)) = b ! (i + 1)"
proof -
  have hi: "\<not> bit (b ! i) (8 + n)" for n using bit_imp_le_length [of "b ! i" "8 + n"] by auto
  show "ucast (le16 b i) = b ! i" "ucast (drop_bit 8 (le16 b i)) = b ! (i + 1)" by (auto simp: le16_def bit_simps hi intro!: bit_word_eqI)
qed

lemma word_bytes_words_of:
  assumes "length b = 512"
  shows "word_bytes (words_of b) = b"
proof -
  have "concat (map (\<lambda>i. [b ! (2 * i), b ! (2 * i + 1)]) [0..<k]) = take (2 * k) b" if "k \<le> 256" for k
    using that
  proof (induction k)
    case (Suc k)
    have "take (2 * Suc k) b = take (2 * k) b @ [b ! (2 * k), b ! (2 * k + 1)]"
      using Suc.prems assms take_Suc_conv_app_nth [of "2 * k" b] take_Suc_conv_app_nth [of "Suc (2 * k)" b] by simp
    then show ?case using Suc by simp
  qed simp
  from this [of 256] show ?thesis using assms by (simp add: word_bytes_def words_of_def le16_bytes comp_def del: upt_rec_numeral)
qed

definition found_disk :: "(unit, u32) disk_state" where
  "found_disk = \<lparr>ide = \<lparr>disk_descs = [0x10 \<mapsto> \<lparr>disk_data = 0, disk_next = 0, disk_read_op = IdeReadOp_addr, disk_id = 0\<rparr>],
       ide_disks = Map.empty, ide_ctrls = Map.empty, ide_one = True, ide_heap = 0x1000, dev = ()\<rparr>,
     fat = \<lparr>devs = Map.empty, vols = Map.empty, fvids = Map.empty, ffids = Map.empty, files = Map.empty, fat_heap = 0x1000\<rparr>,
     disks = 0, disk_bitmap = \<lparr>bm_words = disk_bitmap_data, bm_len = 4097, dead_zone = 1, first_free = 1\<rparr>, volumes = 0,
     controllers = 0, pci_nodes = Map.empty, messages = []\<rparr>"

lemma found_disk_numbered: "numbered (disk_bitmap found_disk) 0"
proof -
  let ?bm = "\<lparr>bm_words = disk_bitmap_data, bm_len = 4097, dead_zone = 1, first_free = 1\<rparr>"
  have w: "disk_bitmap_data = replicate 128 0" by (simp add: disk_bitmap_data_def BITMAP_SIZE_def MAX_DISKS_def FIRST_IX_def del: replicate_numeral)
  have "bm_wf ?bm" unfolding w by (simp add: bm_wf_def bm_shape_def lo_ix_def hi_ix_def del: replicate_numeral)
  moreover have "used ?bm = {}" unfolding w by (auto simp: used_def bit_at_def lo_ix_def hi_ix_def simp del: replicate_numeral)
  ultimately show ?thesis by (simp add: numbered_def found_disk_def lo_ix_def hi_ix_def)
qed

lemma one_volume_readable: "readable demo_fat_env one_volume"
proof -
  have l: "length demo_br = 512" by (simp add: demo_br_def del: replicate_numeral)
  have lt: "(of_nat part :: u32) < 4" if "part < 4" for part
    using that by (simp add: word_less_nat_alt unat_of_nat_less)
  have "sector_device (scratch demo_fat_env) one_volume (of_nat part)" if "part < 4" for part
    using demo_block_sector l lt [OF that] by unfold_locales (auto simp: one_volume_def demo_fat_env_def simp del: replicate_numeral split: if_splits)
  then show ?thesis by (simp add: readable_def demo_fat_env_def psector_def one_volume_def del: replicate_numeral)
qed

lemma one_volume_facts:
  "in_use one_volume 0" "part < 4 \<Longrightarrow> in_use one_volume part \<Longrightarrow> part = 0" "boot_record one_volume 0 = demo_br" "mountable demo_br"
proof -
  show "in_use one_volume 0"
    by (simp add: in_use_def one_volume_def partition_table_def le32_def le16_def del: replicate_numeral)
  show "part = 0" if "part < 4" "in_use one_volume part"
  proof -
    have "part = 0 \<or> part = 1 \<or> part = 2 \<or> part = 3" using that(1) by auto
    then show ?thesis using that(2)
      by (auto simp: in_use_def one_volume_def partition_table_def le32_def le16_def simp del: replicate_numeral)
  qed
  show "boot_record one_volume 0 = demo_br"
    by (simp add: boot_record_def psector_def one_volume_def partition_table_def le32_def le16_def del: replicate_numeral)
  show "mountable demo_br"
    by (simp add: mountable_def boot_signature_def fat12_16_signature_def fat32_signature_def demo_br_def le16_def del: replicate_numeral)
qed

lemma boot_fresh: "fresh_blocks (h_malloc demo_fat_env) 73 0x1000 {}"
  using fresh_blocks_bump [of "0x1000" 73 "{}"] by (simp add: demo_fat_env_def)

lemma one_drive_image: "drive_image one_drive (False, False) = one_volume"
proof -
  have "length (the (one_volume n)) = 512" for n by (simp add: one_volume_def demo_br_def del: replicate_numeral)
  then have "word_bytes (words_of (the (one_volume n))) = the (one_volume n)" for n by (rule word_bytes_words_of)
  moreover have "one_volume (take_bit 48 n) = one_volume n" "Some (the (one_volume n)) = one_volume n" for n
    by (simp_all add: one_volume_def take_bit_take_bit)
  ultimately show ?thesis by (auto simp: drive_image_def one_drive_def)
qed

lemma one_drive_good: "ata_drives one_drive = [(False, False)]" "good_drive demo_fat_env one_drive (False, False)"
proof -
  show "ata_drives one_drive = [(False, False)]" by (simp add: ata_drives_def one_drive_def)
  have "mountable (boot_record one_volume part)" if "part < 4" "in_use one_volume part" for part
    using one_volume_facts(2) [OF that] one_volume_facts(3,4) by simp
  then show "good_drive demo_fat_env one_drive (False, False)"
    using one_volume_readable unfolding good_drive_def one_drive_image by (simp add: one_drive_def words_of_def)
qed

text \<open>
  C35: the result of \<open>FatMountVolume\<close> is not tested. A partition of the table that has no FAT32 volume makes \<open>AddDisks\<close>
  dereference \<open>NULL\<close>, so the kernel does not start on a disk with a partition of any other kind.
\<close>

theorem AddDisks_other_partition:
  assumes "chain \<noteq> 0" and "disk_descs (ide s) chain = Some dd" and "numbered (disk_bitmap s) k" and "k < 4096"
    and "devs (fat s) chain = Some rd" and "readable E rd" and "part < 4" and "in_use rd part" and "\<not> mountable (boot_record rd part)"
    and "\<forall>q < part. in_use rd q \<longrightarrow> mountable (boot_record rd q)"
    and "fresh_blocks (h_malloc E) 16 (fat_heap (fat s)) (objects (fat s))"
  shows "AddDisks (Suc fuel) E chain s = Inl Null_Pointer"
proof -
  have "fresh_blocks (h_malloc E) (2 + 4 * part) (fat_heap (fat s)) (objects (fat s))"
    by (rule fresh_blocks_antimono [OF assms(11)]) (use assms(7) in auto)
  then have v0: "volume_list E (2 + 4 * part) [] 0 (fat s)" by (auto simp: volume_list_def)
  have dv: "deref (devs (fat s)) chain = Inr rd" using assms(1,5) by simp
  obtain vs f L where 1: "rfold (add_partition E chain) [0..<part] (0, fat s) = Inr (vs, f)" "volume_list E 2 L vs f" "devs f = devs (fat s)"
    using add_partitions_mounts [OF v0 _ assms(6) dv] assms(7,10) by auto
  have sd: "sector_device (scratch E) rd (of_nat part)" and ps: "psector rd (of_nat part) 0 = Some (boot_record rd part)"
    using assms(6,7) by (auto simp: readable_def boot_record_def)
  have "unat (of_nat part :: u32) = part" using assms(7) by (intro unat_of_nat_less) simp
  then have entry: "GetPartitionEntry (scratch E) rd (of_nat part) = Inr (partition_table (the (rd 0)) part)"
    using sector_device.GetPartitionEntry_eq [OF sd] by simp
  obtain X where X: "fresh_blocks (h_malloc E) 2 (fat_heap f) X" using 1(2) by (auto simp: volume_list_def)
  have "deref (devs f) chain = Inr rd" "length (junk_br E) = 512" using dv 1(3) assms(6) by (simp_all add: readable_def)
  then obtain h where "FatMountVolume E chain (of_nat part) f = Inr (0, f\<lparr>fat_heap := h\<rparr>)"
    using FatMountVolume_refuses [OF sd ps _ _ X assms(9)] by blast
  then have "add_partition E chain part (vs, f) = Inl Null_Pointer"
    using entry dv 1(3) assms(8) by (simp add: add_partition_def in_use_def)
  moreover have "[0..<4] = [0..<part] @ part # [Suc part..<4]"
    using upt_add_eq_append [of 0 part "4 - part"] upt_conv_Cons [OF assms(7)] assms(7) by (simp del: upt_rec_numeral)
  ultimately have "rfold (add_partition E chain) [0..<4] (0, fat s) = Inl Null_Pointer" using 1(1) by (simp add: rfold_append)
  moreover obtain bm where "AllocateInBitmap (disk_bitmap s) 1 = Inr (bm, of_nat (Suc k))" using next_number [OF assms(3,4)] by blast
  ultimately show ?thesis using assms(1,2) by (simp add: AddDisks_def)
qed

definition blank_volume :: device where
  "blank_volume n = Some (if n = 0 then (replicate 512 0)[458 := 1] else replicate 512 0)"

theorem AddDisks_other_partition_witness:
  "AddDisks 2 demo_fat_env 0x10 (found_disk\<lparr>fat := (fat found_disk)\<lparr>devs := [0x10 \<mapsto> blank_volume]\<rparr>\<rparr>) = Inl Null_Pointer"
proof -
  let ?s = "found_disk\<lparr>fat := (fat found_disk)\<lparr>devs := [0x10 \<mapsto> blank_volume]\<rparr>\<rparr>"
  have lt: "(of_nat part :: u32) < 4" if "part < 4" for part using that by (simp add: word_less_nat_alt unat_of_nat_less)
  have "sector_device (scratch demo_fat_env) blank_volume (of_nat part)" if "part < 4" for part
    using demo_block_sector lt [OF that] by unfold_locales (auto simp: blank_volume_def demo_fat_env_def simp del: replicate_numeral)
  then have r: "readable demo_fat_env blank_volume" by (simp add: readable_def demo_fat_env_def psector_def blank_volume_def del: replicate_numeral)
  have u: "in_use blank_volume 0" by (simp add: in_use_def blank_volume_def partition_table_def le32_def le16_def del: replicate_numeral)
  have m: "\<not> mountable (boot_record blank_volume 0)"
    by (simp add: boot_record_def psector_def blank_volume_def partition_table_def le32_def le16_def mountable_def boot_signature_def del: replicate_numeral)
  have "AddDisks (Suc 1) demo_fat_env 0x10 ?s = Inl Null_Pointer"
  proof (rule AddDisks_other_partition [OF _ _ _ _ _ r _ u m])
    show "numbered (disk_bitmap ?s) 0" using found_disk_numbered by simp
    show "fresh_blocks (h_malloc demo_fat_env) 16 (fat_heap (fat ?s)) (objects (fat ?s))"
      using fresh_blocks_antimono [OF boot_fresh, of "{}" 16] by (simp add: found_disk_def objects_def)
    show "disk_descs (ide ?s) 0x10 = Some \<lparr>disk_data = 0, disk_next = 0, disk_read_op = IdeReadOp_addr, disk_id = 0\<rparr>" by (simp add: found_disk_def)
  qed simp_all
  then show ?thesis by (simp add: numeral_2_eq_2)
qed

end
