(* ===== verification/Port_View.thy ===== *)
theory Port_View
  imports Ide_Controller Pci_Bus Uart
begin

text \<open>
  One device of a machine seen from its driver. In \<open>port_view\<close> the accesses of the whole machine to the
  ports \<open>P\<close> act on one part of its state, which \<open>get\<close> and \<open>put\<close> read and replace. A driver that
  keeps to these ports then does on the machine what it does on the device alone.
\<close>

definition within :: "('a \<Rightarrow> 'd \<Rightarrow> 'd) \<Rightarrow> 'd \<Rightarrow> 'v \<times> 'a \<Rightarrow> 'v \<times> 'd" where
  "within put d r = (fst r, put (snd r) d)"

definition within_res :: "('a \<Rightarrow> 'd \<Rightarrow> 'd) \<Rightarrow> 'd \<Rightarrow> ('v \<times> 'a) res \<Rightarrow> ('v \<times> 'd) res" where
  "within_res put d r = rbind r (\<lambda>x. Inr (within put d x))"

lemma within_simps [simp]:
  "fst (within put d r) = fst r" "snd (within put d r) = put (snd r) d"
  "within_res put d (Inr x) = Inr (within put d x)" "within_res put d (Inl e) = Inl e"
  by (simp_all add: within_def within_res_def)

lemma within_res_bind:
  assumes "\<And>v x. k v (put x d) = within_res put d (k' v x)"
  shows "rbind (within_res put d r) (\<lambda>(v, y). k v y) = within_res put d (rbind r (\<lambda>(v, x). k' v x))"
  by (cases r) (simp_all add: within_def assms case_prod_beta)

lemma within_res_if: "within_res put d (if b then r else s) = (if b then within_res put d r else within_res put d s)"
  by simp

locale port_view =
  fixes whole :: "'d port_ops" and io :: "'a port_ops" and get :: "'d \<Rightarrow> 'a" and put :: "'a \<Rightarrow> 'd \<Rightarrow> 'd" and P :: "u16 set"
  assumes get_put: "get (put x d) = x" and put_get: "put (get d) d = d" and put_put: "put x (put y d) = put x d"
    and in8: "p \<in> P \<Longrightarrow> port_in8 whole p d = within put d (port_in8 io p (get d))"
    and in16: "p \<in> P \<Longrightarrow> port_in16 whole p d = within put d (port_in16 io p (get d))"
    and in32: "p \<in> P \<Longrightarrow> port_in32 whole p d = within put d (port_in32 io p (get d))"
    and out8: "p \<in> P \<Longrightarrow> port_out8 whole p v d = put (port_out8 io p v (get d)) d"
    and out16: "p \<in> P \<Longrightarrow> port_out16 whole p v16 d = put (port_out16 io p v16 (get d)) d"
    and out32: "p \<in> P \<Longrightarrow> port_out32 whole p v32 d = put (port_out32 io p v32 (get d)) d"
begin

lemmas view = get_put put_get put_put in8 in16 in32 out8 out16 out32

lemma within_res_put: "within_res put (put x d) r = within_res put d r"
  by (cases r) (simp_all add: within_def put_put)

lemma view_outs8: "fst ` set pvs \<subseteq> P \<Longrightarrow> outs8 whole pvs d = put (outs8 io pvs (get d)) d"
proof (induction pvs arbitrary: d)
  case Nil
  then show ?case by (simp add: put_get)
next
  case (Cons pv pvs)
  then show ?case by (cases pv) (simp add: view)
qed

lemma view_poll: "p \<in> P \<Longrightarrow> poll n whole p Q d = within_res put d (poll n io p Q (get d))"
  by (induction n arbitrary: d) (simp_all add: view case_prod_beta within_res_def within_def put_put split: if_splits)

lemma view_in16s: "p \<in> P \<Longrightarrow> in16s n whole p d = within put d (in16s n io p (get d))"
  by (induction n arbitrary: d) (simp_all add: view case_prod_beta Let_def within_def)

lemma view_in8s: "p \<in> P \<Longrightarrow> in8s n whole p d = put (in8s n io p (get d)) d"
  by (induction n arbitrary: d) (simp_all add: view)

lemmas driver_simps = view view_outs8 view_poll view_in16s view_in8s

lemma view_PciConfigRead32:
  "{PCI_CONFIG_ADDRESS_PORT, PCI_CONFIG_DATA_PORT} \<subseteq> P \<Longrightarrow>
     PciConfigRead32 whole b dn f offset d = within put d (PciConfigRead32 io b dn f offset (get d))"
  by (simp add: PciConfigRead32_def view within_def)

lemma view_PciConfigWrite32:
  "{PCI_CONFIG_ADDRESS_PORT, PCI_CONFIG_DATA_PORT} \<subseteq> P \<Longrightarrow>
     PciConfigWrite32 whole b dn f offset v d = put (PciConfigWrite32 io b dn f offset v (get d)) d"
  by (simp add: PciConfigWrite32_def view)

lemma view_UartInit:
  assumes "{LINE_CONTROL, FREQ_DIV, INT_IDENT_AND_FIFO_CTRL, INT_ENABLE} \<subseteq> P"
  shows "UartInit sm_bit lp_bit whole freq d = rbind (UartInit sm_bit lp_bit io freq (get d)) (\<lambda>u. Inr (put u d))"
  using assms by (simp add: UartInit_def SetDivisor_def view Let_def case_prod_beta)

text \<open>The same accesses in the middle of a run, when the part is \<open>x\<close>.\<close>

lemma view_at:
  "p \<in> P \<Longrightarrow> port_in8 whole p (put x d) = within put d (port_in8 io p x)"
  "p \<in> P \<Longrightarrow> poll n whole p Q (put x d) = within_res put d (poll n io p Q x)"
  "p \<in> P \<Longrightarrow> in16s n whole p (put x d) = within put d (in16s n io p x)"
  "p \<in> P \<Longrightarrow> in8s n whole p (put x d) = put (in8s n io p x) d"
  "fst ` set pvs \<subseteq> P \<Longrightarrow> outs8 whole pvs (put x d) = put (outs8 io pvs x) d"
  by (simp_all add: in8 view_poll view_in16s view_in8s view_outs8 get_put put_put within_res_put) (simp_all add: within_def put_put)

lemma channel_ports:
  assumes "(\<lambda>k. ch + k) ` {0, 1, 2, 3, 4, 5, 6, 7} \<subseteq> P"
  shows "ch \<in> P" "ch + 2 \<in> P" "ch + 3 \<in> P" "ch + 4 \<in> P" "ch + 5 \<in> P" "ch + 6 \<in> P" "ch + 7 \<in> P"
  using assms by auto

lemma view_ide_transfer:
  assumes "(\<lambda>k. ch + k) ` {0, 1, 2, 3, 4, 5, 6, 7} \<subseteq> P"
  shows "ide_transfer fuel whole ch sl n d = within_res put d (ide_transfer fuel io ch sl n (get d))"
proof -
  note P = channel_ports [OF assms]
  have tail: "rbind (poll fuel whole (ch + 7) Q (put x d)) (\<lambda>(_, d). case in16s 256 whole ch d of (ws, d) \<Rightarrow> Inr (word_bytes ws, d))
      = within_res put d (rbind (poll fuel io (ch + 7) Q x) (\<lambda>(_, d). case in16s 256 io ch d of (ws, d) \<Rightarrow> Inr (word_bytes ws, d)))" for x Q
    unfolding view_at(2) [OF P(7)] by (rule within_res_bind) (simp add: P(1) view_at case_prod_beta within_def)
  have outs: "outs8 whole [(ch + 6, v), (ch + 2, a), (ch + 3, b), (ch + 4, c), (ch + 5, e), (ch + 2, a'), (ch + 3, b'), (ch + 4, c'), (ch + 5, e'), (ch + 7, w)] d
      = put (outs8 io [(ch + 6, v), (ch + 2, a), (ch + 3, b), (ch + 4, c), (ch + 5, e), (ch + 2, a'), (ch + 3, b'), (ch + 4, c'), (ch + 5, e'), (ch + 7, w)] (get d)) d"
    for v a b c e a' b' c' e' w by (rule view_outs8) (use P in auto)
  show ?thesis unfolding ide_transfer_def Let_def outs view_at(4) [OF P(7)] tail by (rule refl)
qed

lemma view_IdentifyDrive:
  assumes "(\<lambda>k. ch + k) ` {0, 1, 2, 3, 4, 5, 6, 7} \<subseteq> P"
  shows "IdentifyDrive fuel whole ch sl d = within_res put d (IdentifyDrive fuel io ch sl (get d))"
proof -
  note P = channel_ports [OF assms]
  let ?wait = "\<lambda>io Q d. rbind (poll fuel io (ch + 7) Q d) (\<lambda>(status, d). Inr (True, if status AND 1 = 0 then snd (in16s 256 io ch d) else d))"
  let ?rest = "\<lambda>io Q R d. rbind (poll fuel io (ch + 7) Q d) (\<lambda>(_, d). case port_in8 io (ch + 4) d of (mid, d) \<Rightarrow>
     case if mid \<noteq> 0 then (mid, d) else port_in8 io (ch + 5) d of (hi, d) \<Rightarrow> if hi \<noteq> 0 then Inr (False, d) else ?wait io R d)"
  let ?outs = "\<lambda>v. [(ch + 6, v), (ch + 2, 0x00), (ch + 3, 0x00), (ch + 4, 0x00), (ch + 5, 0x00), (ch + 7, 0xEC)]"
  have 1: "?wait whole Q (put x d) = within_res put d (?wait io Q x)" for Q x
    unfolding view_at(2) [OF P(7)] by (rule within_res_bind) (simp add: P(1) view_at within_def)
  have 2: "?rest whole Q R (put x d) = within_res put d (?rest io Q R x)" for Q R x
    unfolding view_at(2) [OF P(7)]
  proof (rule within_res_bind)
    fix y
    obtain mid z hi u where r: "port_in8 io (ch + 4) y = (mid, z)" "port_in8 io (ch + 5) z = (hi, u)" by fastforce
    show "(case port_in8 whole (ch + 4) (put y d) of (mid, d) \<Rightarrow>
        case if mid \<noteq> 0 then (mid, d) else port_in8 whole (ch + 5) d of (hi, d) \<Rightarrow> if hi \<noteq> 0 then Inr (False, d) else ?wait whole R d)
      = within_res put d (case port_in8 io (ch + 4) y of (mid, d) \<Rightarrow>
        case if mid \<noteq> 0 then (mid, d) else port_in8 io (ch + 5) d of (hi, d) \<Rightarrow> if hi \<noteq> 0 then Inr (False, d) else ?wait io R d)"
      using 1 by (simp add: view_at(1) P r within_def)
  qed
  have outs: "outs8 whole (?outs v) (put x d) = put (outs8 io (?outs v) x) d" for v x by (rule view_at(5)) (use P in auto)
  obtain v x where r: "port_in8 io (ch + 7) (get d) = (v, x)" by fastforce
  obtain w y where q: "port_in8 io (ch + 7) (outs8 io (?outs (if sl then 0xB0 else 0xA0)) x) = (w, y)" by fastforce
  have "port_in8 whole (ch + 7) d = (v, put x d)" by (simp add: in8 P r within_def)
  moreover have "port_in8 whole (ch + 7) (outs8 whole (?outs (if sl then 0xB0 else 0xA0)) (put x d)) = (w, put y d)"
    unfolding outs view_at(1) [OF P(7)] q by (simp add: within_def)
  ultimately show ?thesis using 2 r q unfolding IdentifyDrive_def Let_def by (simp add: within_def del: outs8_simps)
qed

end

end
