(* ===== verification/Pc_Machine.thy ===== *)
theory Pc_Machine
  imports Disk_Volumes Pci_Enumeration Port_View
begin

text \<open>
  The search for disk controllers on a whole machine. \<open>pc_host\<close> joins what the PCI bus and the IDE driver
  rely on: configuration registers that commands to the drives leave alone. Its lemmas follow
  \<open>DiskSubsystemInit\<close> along the list of devices. A machine whose ports lead to a serial port, to two ATA
  channels and to the configuration registers is shown to be such a host.
\<close>

section \<open>Controllers\<close>

text \<open>The two bytes that say what a function is.\<close>

definition class_of :: "(u32 \<Rightarrow> u32) \<Rightarrow> u8 \<times> nat \<times> nat \<Rightarrow> u8 \<times> u8" where
  "class_of c = (\<lambda>(b, d, f). (ucast (drop_bit 24 (c (PciConfigAddress b (of_nat d) (of_nat f) 0x0B))),
     ucast (drop_bit 16 (c (PciConfigAddress b (of_nat d) (of_nat f) 0x0A)))))"

definition other_storage :: "u8 \<times> u8 \<Rightarrow> bool" where
  "other_storage k \<longleftrightarrow> fst k = 0x01 \<and> snd k \<noteq> 0x01"

lemmas controller_consts = PCI_CLASS_CODE_MASS_STORAGE_CONTROLLER_def PCI_SUBCLASS_IDE_CONTROLLER_def pci_consts

definition listed :: "(u32 \<rightharpoonup> PciDevice) \<Rightarrow> u32 \<Rightarrow> u8 \<times> nat \<times> nat \<Rightarrow> bool" where
  "listed N a = (\<lambda>(b, d, f). d < 32 \<and> f < 8 \<and> (\<exists>x. N a = Some x \<and> pci_bus x = b \<and> pci_device x = of_nat d \<and> pci_function x = of_nat f))"

lemma listed_data:
  assumes "listed N a x" and "N p = Some dv"
  shows "listed (N(p \<mapsto> dv\<lparr>pci_data := cd\<rparr>)) a x"
  using assms by (auto simp: listed_def)

lemma linked_data:
  assumes "N p = Some dv"
  shows "linked (N(p \<mapsto> dv\<lparr>pci_data := cd\<rparr>)) pci_next q as = linked N pci_next q as"
  by (rule linked_cong) (use assms in auto)

text \<open>The state while the list is walked, \<open>ide\<close> saying whether an IDE controller was met.\<close>

definition probing ::
  "('d \<Rightarrow> u32 \<Rightarrow> u32) \<Rightarrow> (u32 \<Rightarrow> u32) \<Rightarrow> (bool \<Rightarrow> bool \<Rightarrow> drive) \<Rightarrow> 'm fat_env \<Rightarrow> bool \<Rightarrow> ('d, 'm) disk_state \<Rightarrow> bool" where
  "probing regs c media E met s \<longleftrightarrow> same_registers c (regs (dev (ide s)))
     \<and> (if met then ide_one (ide s) \<and> disks_mounted media s else no_disks E s)"

lemma probing_io:
  assumes "probing regs c media E met s" and "regs d = regs (dev (ide s))"
  shows "probing regs c media E met (s\<lparr>ide := (ide s)\<lparr>dev := d\<rparr>\<rparr>)"
proof -
  have "disks_mounted media (s\<lparr>ide := (ide s)\<lparr>dev := d\<rparr>\<rparr>)" if "disks_mounted media s"
    by (rule disks_mounted_cong [OF that]) simp_all
  then show ?thesis using assms by (auto simp: probing_def no_disks_def blank_disks_def)
qed

lemma probing_message: "probing regs c media E met s \<Longrightarrow> probing regs c media E met (s\<lparr>messages := ms\<rparr>)"
proof -
  have "disks_mounted media (s\<lparr>messages := ms\<rparr>)" if "disks_mounted media s" by (rule disks_mounted_cong [OF that]) simp_all
  then show "probing regs c media E met s \<Longrightarrow> ?thesis" by (auto simp: probing_def no_disks_def blank_disks_def)
qed

text \<open>The array of \<open>disk.c\<close> is large enough for its bitmap, which starts with all numbers free.\<close>

lemma disk_numbers_init:
  "\<exists>bm'. InitBitmap (bm\<lparr>bm_words := disk_bitmap_data, bm_len := MAX_DISKS + FIRST_IX, dead_zone := FIRST_IX\<rparr>) False = Inr bm' \<and> numbered bm' 0"
proof -
  let ?bm = "bm\<lparr>bm_words := disk_bitmap_data, bm_len := MAX_DISKS + FIRST_IX, dead_zone := FIRST_IX\<rparr>"
  have ix: "lo_ix ?bm = 1" "hi_ix ?bm = 4097" by (simp_all add: lo_ix_def hi_ix_def MAX_DISKS_def FIRST_IX_def)
  have "bm_shape ?bm" by (simp add: bm_shape_def lo_ix_def hi_ix_def disk_bitmap_data_def BITMAP_SIZE_def MAX_DISKS_def FIRST_IX_def)
  from InitBitmap_spec [OF this, of False] ix show ?thesis by (auto simp: numbered_def)
qed

locale pc_host = pci_host io regs + ata_host io delay media regs
  for io :: "'d port_ops" and regs :: "'d \<Rightarrow> u32 \<Rightarrow> u32" and delay :: nat and media :: "bool \<Rightarrow> bool \<Rightarrow> drive"
begin

lemma config_byte_probing:
  assumes "probing regs c media E met s" and "N a = Some dv" and "listed N a (b, d, f)" and "offset AND 0xFC \<noteq> 0x3C"
  shows "\<exists>s'. config_byte io dv offset s = (ucast (drop_bit (unat (offset mod 4) * 8) (c (PciConfigAddress b (of_nat d) (of_nat f) offset))), s')
     \<and> probing regs c media E met s' \<and> pci_nodes s' = pci_nodes s \<and> messages s' = messages s"
proof -
  let ?d = "snd (PciConfigRead32 io b (of_nat d) (of_nat f) offset (dev (ide s)))"
  have dv: "pci_bus dv = b" "(ucast (pci_device dv) :: u8) = of_nat d" "(ucast (pci_function dv) :: u8) = of_nat f"
    using assms(2,3) by (auto simp: listed_def unsigned_of_nat take_bit_nat_eq_self)
  have "same_registers c (regs (dev (ide s)))" using assms(1) by (simp add: probing_def)
  then have "regs (dev (ide s)) (PciConfigAddress b (of_nat d) (of_nat f) offset) = c (PciConfigAddress b (of_nat d) (of_nat f) offset)"
    using assms(4) by (rule same_registers_at)
  then have "config_byte io dv offset s = (ucast (drop_bit (unat (offset mod 4) * 8) (c (PciConfigAddress b (of_nat d) (of_nat f) offset))), s\<lparr>ide := (ide s)\<lparr>dev := ?d\<rparr>\<rparr>)"
    by (simp add: config_byte_def PciConfigReadFromDevice8_def dv host_read8)
  moreover have "probing regs c media E met (s\<lparr>ide := (ide s)\<lparr>dev := ?d\<rparr>\<rparr>)" using assms(1) by (rule probing_io) (rule read_keeps)
  ultimately show ?thesis by (intro exI conjI) (assumption, assumption, simp_all)
qed

lemma later_controller:
  assumes "ide_one (ide s)" and "disks_mounted media s" and "p \<noteq> 0" and "pci_nodes s p = Some dv"
  shows "\<exists>s' cd. add_ide_controller fuel io E junk cjunk p s = Inr s' \<and> disks_mounted media s' \<and> ide_one (ide s') \<and> regs (dev (ide s')) = regs (dev (ide s))
     \<and> pci_nodes s' = (pci_nodes s)(p \<mapsto> dv\<lparr>pci_data := cd\<rparr>) \<and> messages s' = messages s"
proof -
  let ?s = "s\<lparr>pci_nodes := (pci_nodes s)(p \<mapsto> dv\<lparr>pci_data := 0\<rparr>), fat := (fat s)\<lparr>devs := disk_devs fuel io (ide s), fat_heap := ide_heap (ide s)\<rparr>\<rparr>"
  have "add_ide_controller fuel io E junk cjunk p s = Inr ?s"
    using assms by (simp add: add_ide_controller_def IdeControllerInit_def AddDisks_def)
  moreover have "disks_mounted media ?s" by (rule disks_mounted_cong [OF assms(2)]) simp_all
  ultimately show ?thesis using assms(1) by (intro exI [of _ ?s] exI [of _ 0]) simp
qed

lemma add_ide_controller_probing:
  assumes "probing regs c media E met s" and "p \<noteq> 0" and "pci_nodes s p = Some dv" and "delay < fuel" and "4 < fuel"
    and "\<forall>d \<in> set (ata_drives media). good_drive E media d"
  shows "\<exists>s' cd. add_ide_controller fuel io E junk cjunk p s = Inr s' \<and> probing regs c media E True s'
     \<and> pci_nodes s' = (pci_nodes s)(p \<mapsto> dv\<lparr>pci_data := cd\<rparr>) \<and> messages s' = messages s"
proof -
  obtain s' cd where s': "add_ide_controller fuel io E junk cjunk p s = Inr s'" "disks_mounted media s'" "ide_one (ide s')"
    "regs (dev (ide s')) = regs (dev (ide s))" "pci_nodes s' = (pci_nodes s)(p \<mapsto> dv\<lparr>pci_data := cd\<rparr>)" "messages s' = messages s"
  proof (cases met)
    case True
    then have "ide_one (ide s)" "disks_mounted media s" using assms(1) by (simp_all add: probing_def)
    from later_controller [OF this assms(2,3), of fuel E junk cjunk] show ?thesis by (elim exE conjE) (rule that)
  next
    case False
    then have "no_disks E s" using assms(1) by (simp add: probing_def)
    from add_ide_controller_works [OF this assms(4,5,2,3,6), of junk cjunk] show ?thesis by (elim exE conjE) (rule that)
  qed
  then have "probing regs c media E True s'" using assms(1) by (simp add: probing_def)
  then show ?thesis using s' by (intro exI conjI)
qed

lemma probe_controller_probing:
  assumes s: "probing regs c media E met s" and p: "p \<noteq> 0" "pci_nodes s p = Some dv" "listed (pci_nodes s) p x" and fuel: "delay < fuel" "4 < fuel"
    and good: "\<forall>d \<in> set (ata_drives media). good_drive E media d"
  shows "\<exists>s' cd. probe_controller fuel io E junk cjunk p dv s = Inr s' \<and> probing regs c media E (met \<or> class_of c x = (1, 1)) s'
     \<and> pci_nodes s' = (pci_nodes s)(p \<mapsto> dv\<lparr>pci_data := cd\<rparr>)
     \<and> messages s' = messages s @ (if other_storage (class_of c x) then [unsupported_controller] else [])"
proof -
  obtain b d f where x: "x = (b, d, f)" by (cases x)
  have same: "(pci_nodes s)(p \<mapsto> dv\<lparr>pci_data := pci_data dv\<rparr>) = pci_nodes s" using p(2) by auto
  obtain s1 where s1: "config_byte io dv 0x0B s = (fst (class_of c x), s1)" "probing regs c media E met s1" "pci_nodes s1 = pci_nodes s" "messages s1 = messages s"
    using config_byte_probing [OF s p(2) p(3) [unfolded x], of "0x0B"] by (auto simp: class_of_def x)
  obtain s2 where s2: "config_byte io dv 0x0A s1 = (snd (class_of c x), s2)" "probing regs c media E met s2" "pci_nodes s2 = pci_nodes s" "messages s2 = messages s"
    using config_byte_probing [OF s1(2) p(2) p(3) [unfolded x], of "0x0A"] s1(3,4) by (auto simp: class_of_def x)
  note run = probe_controller_def controller_consts s1(1) s2(1)
  consider (no) "fst (class_of c x) \<noteq> 1" | (ide) "class_of c x = (1, 1)" | (other) "other_storage (class_of c x)"
    unfolding other_storage_def by (cases "class_of c x") auto
  then show ?thesis
  proof cases
    case no
    then have "probe_controller fuel io E junk cjunk p dv s = Inr s1" by (simp add: run)
    moreover have "class_of c x \<noteq> (1, 1)" using no by auto
    ultimately show ?thesis using no s1(2-4) same by (intro exI [of _ s1] exI [of _ "pci_data dv"]) (simp add: other_storage_def)
  next
    case ide
    then have "probe_controller fuel io E junk cjunk p dv s = add_ide_controller fuel io E junk cjunk p s2" by (simp add: run)
    moreover have "pci_nodes s2 p = Some dv" using p(2) s2(3) by simp
    from add_ide_controller_probing [OF s2(2) p(1) this fuel good, of junk cjunk] obtain s' cd where
      "add_ide_controller fuel io E junk cjunk p s2 = Inr s'" "probing regs c media E True s'"
      "pci_nodes s' = (pci_nodes s2)(p \<mapsto> dv\<lparr>pci_data := cd\<rparr>)" "messages s' = messages s2" by (elim exE conjE) (rule that)
    ultimately show ?thesis using ide s2(3,4) by (intro exI [of _ s'] exI [of _ cd]) (simp add: other_storage_def)
  next
    case other
    let ?s = "s2\<lparr>messages := messages s2 @ [unsupported_controller]\<rparr>"
    have "probe_controller fuel io E junk cjunk p dv s = Inr ?s" using other by (simp add: run other_storage_def)
    moreover have "class_of c x \<noteq> (1, 1)" using other by (auto simp: other_storage_def)
    ultimately show ?thesis using other s2(3,4) same probing_message [OF s2(2)]
      by (intro exI [of _ ?s] exI [of _ "pci_data dv"]) simp
  qed
qed

lemma probe_controllers_probing:
  assumes "probing regs c media E met s" and "linked (pci_nodes s) pci_next p as" and "list_all2 (listed (pci_nodes s)) as xs" and "length as < n"
    and fuel: "delay < fuel" "4 < fuel" and good: "\<forall>d \<in> set (ata_drives media). good_drive E media d"
  shows "\<exists>s'. probe_controllers n fuel io E junk cjunk p s = Inr s' \<and> probing regs c media E (met \<or> (1, 1) \<in> class_of c ` set xs) s'
     \<and> messages s' = messages s @ replicate (length (filter (\<lambda>x. other_storage (class_of c x)) xs)) unsupported_controller"
  using assms(1-4)
proof (induction as arbitrary: n p s xs met)
  case Nil
  then show ?case by (cases n) auto
next
  case (Cons a as)
  obtain k where n: "n = Suc k" "length as < k" using Cons.prems(4) by (cases n) auto
  obtain x ys where xs: "xs = x # ys" "listed (pci_nodes s) a x" "list_all2 (listed (pci_nodes s)) as ys" using Cons.prems(3) by (cases xs) auto
  obtain dv where dv: "p = a" "a \<noteq> 0" "pci_nodes s a = Some dv" "linked (pci_nodes s) pci_next (pci_next dv) as" using Cons.prems(2) by auto
  obtain s1 cd where s1: "probe_controller fuel io E junk cjunk a dv s = Inr s1" "probing regs c media E (met \<or> class_of c x = (1, 1)) s1"
    "pci_nodes s1 = (pci_nodes s)(a \<mapsto> dv\<lparr>pci_data := cd\<rparr>)"
    "messages s1 = messages s @ (if other_storage (class_of c x) then [unsupported_controller] else [])"
    using probe_controller_probing [OF Cons.prems(1) dv(2,3) xs(2) fuel good, of junk cjunk] by (elim exE conjE) (rule that)
  have link: "linked (pci_nodes s1) pci_next (pci_next dv) as" using dv(3,4) by (simp add: s1(3) linked_data)
  have "list_all2 (listed (pci_nodes s1)) as ys"
    using xs(3) unfolding s1(3) by (rule list_all2_mono) (rule listed_data, assumption, rule dv(3))
  then obtain s2 where s2: "probe_controllers k fuel io E junk cjunk (pci_next dv) s1 = Inr s2"
    "probing regs c media E ((met \<or> class_of c x = (1, 1)) \<or> (1, 1) \<in> class_of c ` set ys) s2"
    "messages s2 = messages s1 @ replicate (length (filter (\<lambda>x. other_storage (class_of c x)) ys)) unsupported_controller"
    using Cons.IH [OF s1(2) link _ n(2)] by blast
  have "probe_controllers n fuel io E junk cjunk p s = Inr s2" using dv(1-3) s1(1,3) s2(1) n(1) by simp
  moreover have "(met \<or> (1, 1) \<in> class_of c ` set xs) = ((met \<or> class_of c x = (1, 1)) \<or> (1, 1) \<in> class_of c ` set ys)"
    unfolding xs(1) by (auto simp: eq_commute)
  moreover have "messages s2 = messages s @ replicate (length (filter (\<lambda>x. other_storage (class_of c x)) xs)) unsupported_controller"
    using s2(3) s1(4) unfolding xs(1) by simp
  ultimately show ?case using s2(2) by (intro exI [of _ s2]) simp
qed

text \<open>The search as a whole.\<close>

lemma DiskSubsystemInit_host:
  fixes s :: "('d, 'm) disk_state"
  assumes regs: "same_registers c (regs (dev (ide s)))" and blank: "blank_disks E s" and "linked (pci_nodes s) pci_next (controllers s) as"
    and "list_all2 (listed (pci_nodes s)) as xs" and "length as < fuel" and "delay < fuel" and "4 < fuel"
    and "\<forall>d \<in> set (ata_drives media). good_drive E media d"
  shows "\<exists>s'. DiskSubsystemInit fuel io E junk cjunk s = Inr s'
     \<and> (if (1, 1) \<in> class_of c ` set xs then disks_mounted media s' else disks s' = 0 \<and> volumes s' = 0)
     \<and> messages s' = messages s @ replicate (length (filter (\<lambda>x. other_storage (class_of c x)) xs)) unsupported_controller"
proof -
  obtain bm where bm: "InitBitmap ((disk_bitmap s)\<lparr>bm_words := disk_bitmap_data, bm_len := MAX_DISKS + FIRST_IX, dead_zone := FIRST_IX\<rparr>) False = Inr bm"
    "numbered bm 0" using disk_numbers_init by blast
  let ?s = "s\<lparr>disk_bitmap := bm\<rparr>"
  have s: "probing regs c media E False ?s" using regs blank bm(2) by (simp add: probing_def no_disks_def blank_disks_def)
  have "linked (pci_nodes ?s) pci_next (controllers s) as" "list_all2 (listed (pci_nodes ?s)) as xs" using assms(3,4) by simp_all
  from probe_controllers_probing [OF s this assms(5-8), of junk cjunk] obtain s' where
    s': "probe_controllers fuel fuel io E junk cjunk (controllers s) ?s = Inr s'" "probing regs c media E ((1, 1) \<in> class_of c ` set xs) s'"
    "messages s' = messages s @ replicate (length (filter (\<lambda>x. other_storage (class_of c x)) xs)) unsupported_controller" by auto
  then show ?thesis using bm(1) by (intro exI [of _ s']) (auto simp: DiskSubsystemInit_def probing_def no_disks_def blank_disks_def)
qed

end

section \<open>A machine\<close>

text \<open>The ports of the serial line and of the two channels lead to these devices, all others to the PCI bus.\<close>

record pc =
  pc_uart :: uart
  pc_ata :: "bool \<Rightarrow> ata"
  pc_pci :: pci_space

definition part_ports :: "('d \<Rightarrow> 'a) \<Rightarrow> ('a \<Rightarrow> 'd \<Rightarrow> 'd) \<Rightarrow> 'a port_ops \<Rightarrow> 'd port_ops" where
  "part_ports get put io = \<lparr>
     port_in8 = (\<lambda>p d. within put d (port_in8 io p (get d))), port_in16 = (\<lambda>p d. within put d (port_in16 io p (get d))),
     port_in32 = (\<lambda>p d. within put d (port_in32 io p (get d))), port_out8 = (\<lambda>p v d. put (port_out8 io p v (get d)) d),
     port_out16 = (\<lambda>p v d. put (port_out16 io p v (get d)) d), port_out32 = (\<lambda>p v d. put (port_out32 io p v (get d)) d)\<rparr>"

definition uart_range :: "u16 set" where "uart_range = {p. p - 0x3F8 < 8}"
definition ata_range :: "u16 set" where "ata_range = {p. p - 0x1F0 < 8 \<or> p - 0x170 < 8}"

definition device_at :: "nat \<Rightarrow> (bool \<Rightarrow> bool \<Rightarrow> drive) \<Rightarrow> u16 \<Rightarrow> pc port_ops" where
  "device_at delay media p =
     (if p \<in> uart_range then part_ports pc_uart (\<lambda>u d. d\<lparr>pc_uart := u\<rparr>) uart_ports
      else if p \<in> ata_range then part_ports pc_ata (\<lambda>a d. d\<lparr>pc_ata := a\<rparr>) (ata_ports delay media)
      else part_ports pc_pci (\<lambda>c d. d\<lparr>pc_pci := c\<rparr>) pci_ports)"

definition pc_ports :: "nat \<Rightarrow> (bool \<Rightarrow> bool \<Rightarrow> drive) \<Rightarrow> pc port_ops" where
  "pc_ports delay media = \<lparr>
     port_in8 = (\<lambda>p. port_in8 (device_at delay media p) p), port_in16 = (\<lambda>p. port_in16 (device_at delay media p) p),
     port_in32 = (\<lambda>p. port_in32 (device_at delay media p) p), port_out8 = (\<lambda>p. port_out8 (device_at delay media p) p),
     port_out16 = (\<lambda>p. port_out16 (device_at delay media p) p), port_out32 = (\<lambda>p. port_out32 (device_at delay media p) p)\<rparr>"

lemma ranges_disjoint: "p \<in> ata_range \<Longrightarrow> p \<notin> uart_range" "p \<in> {0xCF8, 0xCFC} \<Longrightarrow> p \<notin> uart_range \<and> p \<notin> ata_range"
proof -
  have far: "8 \<le> k + 0xFDF8" "8 \<le> k + 0xFD78" if "k < 8" for k :: u16
  proof -
    have "unat k < 8" using that by (simp add: word_less_nat_alt)
    then have "unat (k + 0xFDF8) = unat k + 0xFDF8" "unat (k + 0xFD78) = unat k + 0xFD78" by (subst unat_plus_no_wrap; simp)+
    then show "8 \<le> k + 0xFDF8" "8 \<le> k + 0xFD78" by (simp_all add: word_le_nat_alt)
  qed
  have e: "p - 0x1F0 + 0xFDF8 = p - 0x3F8" "p - 0x170 + 0xFD78 = p - 0x3F8" by simp_all
  show "p \<in> ata_range \<Longrightarrow> p \<notin> uart_range" using far(1) [of "p - 0x1F0", unfolded e] far(2) [of "p - 0x170", unfolded e] by (auto simp: ata_range_def uart_range_def not_less)
qed (auto simp: ata_range_def uart_range_def)

interpretation uart_view: port_view "pc_ports delay media" uart_ports pc_uart "\<lambda>u d. d\<lparr>pc_uart := u\<rparr>" uart_range for delay media
  by unfold_locales (simp_all add: pc_ports_def device_at_def part_ports_def)

interpretation ata_view: port_view "pc_ports delay media" "ata_ports delay media" pc_ata "\<lambda>a d. d\<lparr>pc_ata := a\<rparr>" ata_range for delay media
  by unfold_locales (simp_all add: pc_ports_def device_at_def part_ports_def ranges_disjoint)

interpretation pci_view: port_view "pc_ports delay media" pci_ports pc_pci "\<lambda>c d. d\<lparr>pc_pci := c\<rparr>" "{0xCF8, 0xCFC}" for delay media
  by unfold_locales (auto simp: pc_ports_def device_at_def part_ports_def ranges_disjoint)

abbreviation pc_regs :: "pc \<Rightarrow> u32 \<Rightarrow> u32" where
  "pc_regs d \<equiv> cfg (pc_pci d)"

lemma pci_port_numbers: "{PCI_CONFIG_ADDRESS_PORT, PCI_CONFIG_DATA_PORT} \<subseteq> {0xCF8, 0xCFC}"
  by (simp add: pci_consts)

lemma channel_range: "(\<lambda>k. base c + k) ` {0, 1, 2, 3, 4, 5, 6, 7} \<subseteq> ata_range"
  by (cases c) (auto simp: base_def ata_range_def)

lemma pc_drives:
  assumes "delay < fuel"
  shows "\<exists>d'. IdentifyDrive fuel (pc_ports delay media) (base c) sl d = Inr (is_Ata (media c sl), d') \<and> pc_regs d' = pc_regs d"
    and "media c sl = Ata img ident \<Longrightarrow> length (img (take_bit 48 n)) = 256 \<Longrightarrow>
      \<exists>d'. ide_transfer fuel (pc_ports delay media) (base c) sl n d = Inr (word_bytes (img (take_bit 48 n)), d') \<and> pc_regs d' = pc_regs d"
proof -
  obtain a where a: "IdentifyDrive fuel (ata_ports delay media) (base c) sl (pc_ata d) = Inr (is_Ata (media c sl), a)"
    using ata_controller.identify [OF assms, of media c sl "pc_ata d"] by blast
  show "\<exists>d'. IdentifyDrive fuel (pc_ports delay media) (base c) sl d = Inr (is_Ata (media c sl), d') \<and> pc_regs d' = pc_regs d"
    by (simp add: ata_view.view_IdentifyDrive [OF channel_range] a within_def)
  assume "media c sl = Ata img ident" "length (img (take_bit 48 n)) = 256"
  from ata_controller.transfer [where media = media and img = img, OF this assms, of "pc_ata d"] obtain a where
    a: "ide_transfer fuel (ata_ports delay media) (base c) sl n (pc_ata d) = Inr (word_bytes (img (take_bit 48 n)), a)" by blast
  show "\<exists>d'. ide_transfer fuel (pc_ports delay media) (base c) sl n d = Inr (word_bytes (img (take_bit 48 n)), d') \<and> pc_regs d' = pc_regs d"
    by (simp add: ata_view.view_ide_transfer [OF channel_range] a within_def)
qed

interpretation pc_machine: pc_host "pc_ports delay media" pc_regs delay media for delay media
proof (unfold_locales, goal_cases)
  case (4 fuel c sl d)
  then show ?case by (rule pc_drives(1))
next
  case (5 c sl img ident n fuel d)
  then show ?case by (intro pc_drives(2))
qed (simp_all add: pci_view.view_PciConfigRead32 [OF pci_port_numbers] pci_view.view_PciConfigWrite32 [OF pci_port_numbers]
    PciConfigRead32_ports PciConfigWrite32_ports)

section \<open>Property\<close>

text \<open>
  C34: on a machine with any mass storage controllers, \<open>DiskSubsystemInit\<close> ends without a fault when all partitions of its ATA
  drives have FAT32 volumes and there is memory for the objects. If there is an IDE controller on the PCI
  bus then the drives get the numbers 1, 2 and so on, the slave of the secondary channel first, and every
  partition of their tables is mounted and found by disk and number; more IDE controllers add nothing.
  Without one no disk is listed. For every controller of another kind there is one message.
\<close>

theorem DiskSubsystemInit_mounts:
  fixes s :: "(pc, 'm) disk_state"
  defines "c \<equiv> pc_regs (dev (ide s))"
  assumes "blank_disks E s" and "linked (pci_nodes s) pci_next (controllers s) as" and "list_all2 (listed (pci_nodes s)) as xs"
    and "length as < fuel" and "delay < fuel" and "4 < fuel" and "\<forall>d \<in> set (ata_drives media). good_drive E media d"
  shows "\<exists>s'. DiskSubsystemInit fuel (pc_ports delay media) E junk cjunk s = Inr s'
     \<and> (if (1, 1) \<in> class_of c ` set xs
        then \<exists>ds. length ds = length (ata_drives media)
          \<and> (\<forall>i < length ds. GetDiskDescriptor (of_nat (Suc i)) s' = Inr (ds ! i) \<and> (\<forall>part < 4.
               if in_use (drive_image media (ata_drives media ! i)) part
               then \<exists>v. GetVolume (ds ! i) (of_nat part) s' = Inr v \<and> v \<noteq> 0
                      \<and> mounted (fat s') v (boot_record (drive_image media (ata_drives media ! i)) part)
               else GetVolume (ds ! i) (of_nat part) s' = Inr 0))
        else disks s' = 0 \<and> volumes s' = 0)
     \<and> messages s' = messages s @ replicate (length (filter (\<lambda>x. other_storage (class_of c x)) xs)) unsupported_controller"
proof -
  have "same_registers c (pc_regs (dev (ide s)))" by (simp add: same_registers_def c_def)
  from pc_machine.DiskSubsystemInit_host [OF this assms(2-8), of junk cjunk] show ?thesis unfolding disks_mounted_def .
qed

text \<open>A machine with a host bridge, an IDE controller and a SATA controller as devices 0 to 2, and one ATA drive.\<close>

definition demo_regs :: "u32 \<Rightarrow> u32" where
  "demo_regs a =
     (if a = 0x80000000 then 0x12378086 else if a = 0x80000008 then 0x06000000 else if a = 0x8000000C then 0
      else if a = 0x80000800 then 0x70108086 else if a = 0x80000808 then 0x01018000 else if a = 0x8000080C then 0
      else if a = 0x80001000 then 0x29228086 else if a = 0x80001008 then 0x01060100 else if a = 0x8000100C then 0 else 0xFFFFFFFF)"

definition demo_pc :: pc where
  "demo_pc = \<lparr>pc_uart = demo_uart, pc_ata = dev demo_ide, pc_pci = \<lparr>cfg_addr = 0, cfg = demo_regs\<rparr>\<rparr>"

definition pc_disks :: "(pc, u32) disk_state" where
  "pc_disks = \<lparr>ide = \<lparr>disk_descs = Map.empty, ide_disks = Map.empty, ide_ctrls = Map.empty, ide_one = False, ide_heap = 0x1000, dev = demo_pc\<rparr>,
     fat = fat found_disk, disks = 0, disk_bitmap = disk_bitmap found_disk, volumes = 0, controllers = 0x800,
     pci_nodes = [0x800 \<mapsto> \<lparr>pci_bus = 0, pci_device = 2, pci_function = 0, pci_data = 0, pci_next = 0x900\<rparr>,
       0x900 \<mapsto> \<lparr>pci_bus = 0, pci_device = 1, pci_function = 0, pci_data = 0, pci_next = 0\<rparr>], messages = []\<rparr>"

lemma one_volume_parts: "in_use one_volume 0" "\<not> in_use one_volume 1"
proof -
  show "in_use one_volume 0" by (rule one_volume_facts(1))
  show "\<not> in_use one_volume 1" using one_volume_facts(2) [of 1] by auto
qed

lemma one_drive_mounted:
  assumes "disks_mounted one_drive s"
  shows "\<exists>a v. GetDiskDescriptor 1 s = Inr a \<and> GetVolume a 0 s = Inr v \<and> v \<noteq> 0 \<and> mounted (fat s) v demo_br \<and> GetVolume a 1 s = Inr 0"
proof -
  obtain ds where ds: "length ds = 1" "\<forall>i < length ds. GetDiskDescriptor (of_nat (Suc i)) s = Inr (ds ! i) \<and> (\<forall>part < 4.
       if in_use (drive_image one_drive (ata_drives one_drive ! i)) part
       then \<exists>v. GetVolume (ds ! i) (of_nat part) s = Inr v \<and> v \<noteq> 0 \<and> mounted (fat s) v (boot_record (drive_image one_drive (ata_drives one_drive ! i)) part)
       else GetVolume (ds ! i) (of_nat part) s = Inr 0)"
    using assms one_drive_good(1) by (auto simp: disks_mounted_def)
  have n: "0 < length ds" and e: "drive_image one_drive (ata_drives one_drive ! 0) = one_volume" using ds(1) one_drive_good(1) one_drive_image by simp_all
  note r = ds(2) [rule_format, OF n, unfolded e]
  have "\<exists>v. GetVolume (ds ! 0) 0 s = Inr v \<and> v \<noteq> 0 \<and> mounted (fat s) v demo_br" "GetVolume (ds ! 0) 1 s = Inr 0"
    using conjunct2 [OF r, rule_format, of 0] conjunct2 [OF r, rule_format, of 1] one_volume_parts one_volume_facts(3) by simp_all
  then show ?thesis using r by auto
qed

theorem DiskSubsystemInit_mounts_witness:
  "\<exists>s a v. DiskSubsystemInit 8 (pc_ports 7 one_drive) demo_fat_env demo_desc demo_ctrl pc_disks = Inr s \<and> GetDiskDescriptor 1 s = Inr a
     \<and> GetVolume a 0 s = Inr v \<and> v \<noteq> 0 \<and> mounted (fat s) v demo_br \<and> GetVolume a 1 s = Inr 0 \<and> messages s = [unsupported_controller]"
proof -
  let ?c = "pc_regs (dev (ide pc_disks))"
  have cls: "class_of ?c (0, 2, 0) = (1, 6)" "class_of ?c (0, 1, 0) = (1, 1)"
    by (simp_all add: class_of_def pc_disks_def demo_pc_def demo_regs_def PciConfigAddress_def)
  have b: "blank_disks demo_fat_env pc_disks"
    using boot_fresh by (simp add: blank_disks_def pc_disks_def found_disk_def objects_def)
  have l: "linked (pci_nodes pc_disks) pci_next (controllers pc_disks) [0x800, 0x900]"
    "list_all2 (listed (pci_nodes pc_disks)) [0x800, 0x900] [(0, 2, 0), (0, 1, 0)]" by (simp_all add: pc_disks_def listed_def)
  have g: "\<forall>d \<in> set (ata_drives one_drive). good_drive demo_fat_env one_drive d" using one_drive_good by simp
  obtain s where s: "DiskSubsystemInit 8 (pc_ports 7 one_drive) demo_fat_env demo_desc demo_ctrl pc_disks = Inr s" "disks_mounted one_drive s"
    "messages s = messages pc_disks @ replicate (length (filter (\<lambda>x. other_storage (class_of ?c x)) [(0, 2, 0), (0, 1, 0)])) unsupported_controller"
    using DiskSubsystemInit_mounts [OF b l, of 8 7 one_drive demo_desc demo_ctrl, folded disks_mounted_def] g cls by auto
  have "messages s = [unsupported_controller]" using s(3) cls by (simp add: other_storage_def) (simp add: pc_disks_def)
  then show ?thesis using s(1) one_drive_mounted [OF s(2)] by auto
qed

end
