(* ===== verification/Vmm_Init.thy ===== *)
theory Vmm_Init
  imports Virt_Mem_Mgr
begin

text \<open>
  The address space that \<open>X86VirtMemMgrInit\<close> sets up, as the kernel reads it in its page table and as the processor
  walks it from \<open>CR3\<close>.
\<close>

section \<open>Translation by the processor\<close>

text \<open>The walk of the processor for a linear address: directory, table and page, \<open>None\<close> for a page fault.\<close>

definition mmu_translate :: "vmm \<Rightarrow> u32 \<Rightarrow> u32 option" where
  "mmu_translate s v =
     (let pde = pde_of_word (pmem s (frame_no (cr3 s)) (directory_entry v)) in
      if \<not> pde_present pde then None
      else
        let pte = pte_of_word (pmem s (page_table_addr pde) (table_entry v)) in
        if present pte then Some (frame_base (page_frame_addr pte) + (v AND 0xFFF)) else None)"

section \<open>Loops\<close>

lemma zero_tables:
  "fold (\<lambda>t s. s\<lparr>pmem := (pmem s)(kpt_frame s + of_nat t := (\<lambda>_. 0))\<rparr>) ts s
     = s\<lparr>pmem := (\<lambda>f. if f \<in> (\<lambda>t. kpt_frame s + of_nat t) ` set ts then (\<lambda>_. 0) else pmem s f)\<rparr>"
proof (induction ts arbitrary: s)
  case (Cons t ts)
  show ?case unfolding fold_simps(2) Cons.IH by simp (rule arg_cong [where f = "\<lambda>m. s\<lparr>pmem := m\<rparr>"], auto)
qed simp

lemma fill_directory:
  assumes "n \<le> 1024"
  shows "fold (\<lambda>i s. set_word (kpd_frame s) (of_nat i) (g (kpt_frame s) i) s) [0..<n] s
     = s\<lparr>pmem := (pmem s)(kpd_frame s := (\<lambda>j. if unat j < n then g (kpt_frame s) (unat j) else pmem s (kpd_frame s) j))\<rparr>"
  using assms
proof (induction n)
  case (Suc n)
  have j: "j = of_nat n \<longleftrightarrow> unat j = n" for j :: "10 word" using Suc.prems by (auto simp: unat_of_nat_less)
  show ?case using Suc by (auto simp: set_word_def fun_eq_iff j less_Suc_eq)
qed simp

lemma set_kernel_pte_pmem: "f \<notin> range (\<lambda>t :: 10 word. kpt_frame s + ucast t) \<Longrightarrow> pmem (set_kernel_pte v pte s) f = pmem s f"
  by (auto simp: set_kernel_pte_def set_word_def)

text \<open>What \<open>MapRange\<close> leaves alone in the kernel's address space.\<close>

definition same_but_map :: "vmm \<Rightarrow> vmm \<Rightarrow> bool" where
  "same_but_map s s' \<longleftrightarrow> kpd_frame s' = kpd_frame s \<and> kpt_frame s' = kpt_frame s \<and> current_page_directory s' = current_page_directory s
     \<and> cr3 s' = cr3 s \<and> frames s' = frames s \<and> (\<forall>f. f \<notin> range (\<lambda>t :: 10 word. kpt_frame s + ucast t) \<longrightarrow> pmem s' f = pmem s f)"

lemma same_but_map_set: "same_but_map s s' \<Longrightarrow> same_but_map s (set_kernel_pte v pte s')"
  by (simp add: same_but_map_def set_kernel_pte_pmem)

lemma same_but_map_trans: "same_but_map s t \<Longrightarrow> same_but_map t u \<Longrightarrow> same_but_map s u"
  by (simp add: same_but_map_def)

lemma MapRange_kernel:
  assumes "0 < vp" and "vp + unat n \<le> 1048576"
  shows "\<exists>s'. MapRange (of_nat vp * 0x1000) pb n wr ca us Kernel_Dir s = Inr s' \<and> same_but_map s s'
     \<and> (\<forall>p. kmap s' p = (if vp \<le> unat p \<and> unat p < vp + unat n then new_pte (pb + of_nat (unat p - vp) * 0x1000) wr ca us else kmap s p))"
proof -
  define P where "P k t \<longleftrightarrow> same_but_map s t
     \<and> (\<forall>p. kmap t p = (if vp \<le> unat p \<and> unat p < vp + k then new_pte (pb + of_nat (unat p - vp) * 0x1000) wr ca us else kmap s p))" for k t
  have "\<exists>t. MapRange (of_nat vp * 0x1000) pb n wr ca us Kernel_Dir s = Inr t \<and> P (unat n) t"
    unfolding MapRange_def
  proof (rule rfold_upt_invar)
    show "P 0 s" by (auto simp: P_def same_but_map_def)
    show "\<exists>t'. (let offset = of_nat k * FRAME_SIZE; virtual = of_nat vp * 0x1000 + offset; physical = pb + offset
          in MapFrame virtual physical wr ca us Kernel_Dir t) = Inr t' \<and> P (Suc k) t'" if k: "k < unat n" "P k t" for k t
    proof -
      note po = page_offset [OF assms(2) k(1)]
      let ?v = "of_nat vp * 0x1000 + of_nat k * 0x1000 :: u32"
      let ?t = "set_kernel_pte ?v (new_pte (pb + of_nat k * 0x1000) wr ca us) t"
      have "page_no ?v \<noteq> 0" unfolding po(2) using po(3) assms(1) by (metis add_is_0 less_not_refl unsigned_0)
      then have "MapFrame ?v (pb + of_nat k * 0x1000) wr ca us Kernel_Dir t = Inr ?t" by (rule MapFrame_Kernel)
      moreover have "P (Suc k) ?t"
        unfolding P_def
      proof (intro conjI allI)
        show "same_but_map s ?t" using k(2) by (simp add: P_def same_but_map_set)
        show "kmap ?t p = (if vp \<le> unat p \<and> unat p < vp + Suc k then new_pte (pb + of_nat (unat p - vp) * 0x1000) wr ca us else kmap s p)" for p
          using k(2) po(3) by (auto simp: P_def po(2) word_unat_eq_iff simp del: of_nat_diff)
      qed
      ultimately show ?thesis by (simp add: Let_def FRAME_SIZE_def)
    qed
  qed simp
  then show ?thesis by (auto simp: P_def)
qed

section \<open>Initialisation\<close>

lemma table_of_directory: "page_no (frame_base f + KERNEL_STATIC_MEM_START + of_nat (i * 1024) * 4 - KERNEL_STATIC_MEM_START) = f + of_nat i"
proof -
  have "of_nat (unat (frame_base f)) = frame_base f" by simp
  then have "of_nat (unat f * 4096) = frame_base f" by (simp only: unat_frame_base)
  then have "frame_base f + KERNEL_STATIC_MEM_START + of_nat (i * 1024) * 4 - KERNEL_STATIC_MEM_START = of_nat (unat f * 4096) + of_nat (i * 4096)"
    by simp
  also have "\<dots> = of_nat ((unat f + i) * 4096)" by (simp only: of_nat_add [symmetric] distrib_right)
  finally have e: "frame_base f + KERNEL_STATIC_MEM_START + of_nat (i * 1024) * 4 - KERNEL_STATIC_MEM_START = of_nat ((unat f + i) * 4096)" .
  have "unat (of_nat (X * 4096) :: u32) div 4096 = X mod 1048576" for X
    unfolding unat_of_nat using mod_mult_mult2 [of X 4096 1048576] by simp
  then have "unat (of_nat ((unat f + i) * 4096) :: u32) div 4096 = (unat f + i) mod 1048576" .
  moreover have "unat (f + of_nat i) = (unat f + i) mod 1048576" by (simp add: unat_word_ariths unat_of_nat mod_add_right_eq)
  ultimately show ?thesis unfolding e by (simp only: word_unat_eq_iff unat_page_no)
qed

text \<open>The tables when the loops are done: the directory points to the page tables, which map nothing.\<close>

lemma init_tables_clear:
  fixes s :: vmm
  defines "s1 \<equiv> fold (\<lambda>i s. set_word (kpd_frame s) (of_nat i)
      (word_of_pde (vmm_init_pde (frame_base (kpt_frame s) + KERNEL_STATIC_MEM_START) i)) s) [0..<1024]
      (fold (\<lambda>t s. s\<lparr>pmem := (pmem s)(kpt_frame s + of_nat t := (\<lambda>_. 0))\<rparr>) [0..<1024] (s\<lparr>pmem := (pmem s)(kpd_frame s := (\<lambda>_. 0))\<rparr>))"
  assumes dir: "kpd_frame s \<notin> range (\<lambda>t :: 10 word. kpt_frame s + ucast t)"
  shows "kpd_frame s1 = kpd_frame s" and "kpt_frame s1 = kpt_frame s" and "frames s1 = frames s" and "kmap s1 p = zero_pte"
    and "pde_present (pde_of_word (pmem s1 (kpd_frame s) j))" and "page_table_addr (pde_of_word (pmem s1 (kpd_frame s) j)) = kpt_frame s + ucast j"
proof -
  define g where "g f i = word_of_pde (vmm_init_pde (frame_base f + KERNEL_STATIC_MEM_START) i)" for f :: "20 word" and i
  define s0 where "s0 = fold (\<lambda>t s. s\<lparr>pmem := (pmem s)(kpt_frame s + of_nat t := (\<lambda>_. 0))\<rparr>) [0..<1024] (s\<lparr>pmem := (pmem s)(kpd_frame s := (\<lambda>_. 0))\<rparr>)"
  have s0: "kpd_frame s0 = kpd_frame s" "kpt_frame s0 = kpt_frame s" "frames s0 = frames s"
    "f \<in> (\<lambda>t. kpt_frame s + of_nat t) ` {0..<1024} \<Longrightarrow> pmem s0 f = (\<lambda>_. 0)" for f
    unfolding s0_def zero_tables by simp_all
  have s1: "s1 = s0\<lparr>pmem := (pmem s0)(kpd_frame s0 := (\<lambda>j. if unat j < 1024 then g (kpt_frame s0) (unat j) else pmem s0 (kpd_frame s0) j))\<rparr>"
    unfolding s1_def s0_def [symmetric] using fill_directory [of 1024 g s0] by (simp add: g_def)
  have lt: "unat j < 1024" for j :: "10 word" using unat_less [of j] by simp
  show f: "kpd_frame s1 = kpd_frame s" "kpt_frame s1 = kpt_frame s" "frames s1 = frames s" by (simp_all add: s1 s0)
  have d: "pmem s1 (kpd_frame s) = (\<lambda>j. g (kpt_frame s) (unat j))" by (simp add: s1 s0 lt)
  show "pde_present (pde_of_word (pmem s1 (kpd_frame s) j))" by (simp add: d g_def vmm_init_pde_def)
  have "(of_nat (unat j) :: 20 word) = ucast j" by simp
  then show "page_table_addr (pde_of_word (pmem s1 (kpd_frame s) j)) = kpt_frame s + ucast j"
    using table_of_directory [of "kpt_frame s" "unat j"] by (simp add: d g_def vmm_init_pde_def page_no_def del: of_nat_mult)
  let ?t = "kpt_frame s + ucast (directory_entry (frame_base p))"
  have "?t \<in> (\<lambda>t. kpt_frame s + of_nat t) ` {0..<1024}"
    by (rule image_eqI [where x = "unat (directory_entry (frame_base p))"]) (use lt in simp_all)
  then have "pmem s0 ?t = (\<lambda>_. 0)" by (rule s0(4))
  moreover have "?t \<noteq> kpd_frame s" using dir by (metis rangeI)
  ultimately show "kmap s1 p = zero_pte" by (simp add: kmap_def kernel_pte_def f zero_pte_def) (simp add: s1 s0)
qed

text \<open>
  The kernel's address space after boot: the pages of the first megabyte but the first at their own addresses, not cached, and
  as many pages as the kernel needs, from the second one on, at 0xC0001000.
\<close>

definition kernel_map :: "u32 \<Rightarrow> 20 word \<Rightarrow> PageTableEntry" where
  "kernel_map kend p =
     (if 1 \<le> unat p \<and> unat p < 256 then new_pte (frame_base p) True False False
      else if 0xC0001 \<le> unat p \<and> unat p < 0xC0001 + kernel_frames kend then new_pte (frame_base p - 0xC0000000) True True False
      else zero_pte)"

definition kernel_translation :: "u32 \<Rightarrow> u32 \<Rightarrow> u32 option" where
  "kernel_translation kend v =
     (if 0x1000 \<le> v \<and> v < 0x100000 then Some v
      else if 0xC0001000 \<le> v \<and> unat v < 0xC0001000 + kernel_frames kend * 4096 then Some (v - 0xC0000000)
      else None)"

lemma page_split: "frame_base (page_no v) + (v AND 0xFFF) = v"
proof -
  have "v AND 0xFFF = take_bit 12 v" by (simp add: take_bit_eq_mask mask_eq_exp_minus_1)
  then have o: "unat (v AND 0xFFF) = unat v mod 4096" by (simp add: take_bit_eq_mod unat_mod)
  have s: "unat (frame_base (page_no v)) + unat (v AND 0xFFF) = unat v" unfolding unat_frame_base unat_page_no o by (rule div_mult_mod_eq)
  moreover have "unat v < 2 ^ LENGTH(32)" by (rule unsigned_less)
  ultimately have "unat (frame_base (page_no v) + (v AND 0xFFF)) = unat v" by (simp add: unat_plus_no_wrap [of "frame_base (page_no v)" "v AND 0xFFF"])
  then show ?thesis by (simp only: word_unat_eq_iff)
qed

lemma frame_base_word: "frame_base p = of_nat (unat p) * 0x1000"
  by (simp add: word_unat_eq_iff unat_frame_base unat_page_addr [OF unat_less [of p, simplified]] del: of_nat_unat)

lemma page_no_minus:
  assumes "0xC0000000 \<le> unat v"
  shows "frame_base (page_no (v - 0xC0000000)) = frame_base (page_no v) - 0xC0000000"
proof -
  obtain k where k: "unat v = 0xC0000000 + k" using assms le_Suc_ex by blast
  have "unat (v - 0xC0000000) = k" using k assms unat_sub [of "0xC0000000" v] by (simp add: word_le_nat_alt)
  then have "unat (frame_base (page_no (v - 0xC0000000))) = k div 4096 * 4096" by (simp add: unat_frame_base unat_page_no)
  moreover have "unat v div 4096 * 4096 = 0xC0000000 + k div 4096 * 4096" unfolding k using div_mult_self3 [of 4096 "0xC0000" k] by simp
  then have "unat (frame_base (page_no v) - 0xC0000000) = k div 4096 * 4096"
    using unat_sub [of "0xC0000000" "frame_base (page_no v)"] by (simp add: word_le_nat_alt unat_frame_base unat_page_no)
  ultimately show ?thesis by (simp add: word_unat_eq_iff)
qed

lemma X86VirtMemMgrInit_spec:
  assumes dir: "kpd_frame s \<notin> range (\<lambda>t :: 10 word. kpt_frame s + ucast t)" and size: "kernel_frames kend < 0x40000"
    and isrs: "14 < length (isr_handlers i)"
  shows "\<exists>s'. X86VirtMemMgrInit kend handler i s = Inr (i\<lparr>isr_handlers := (isr_handlers i)[14 := Some handler]\<rparr>, s')
     \<and> frames s' = frames s \<and> current_page_directory s' = Kernel_Dir \<and> (\<forall>p. kmap s' p = kernel_map kend p)
     \<and> (\<forall>v. mmu_translate s' v = (let e = kmap s' (page_no v) in if present e then Some (frame_base (page_frame_addr e) + (v AND 0xFFF)) else None))"
proof -
  define s1 where "s1 = fold (\<lambda>i s. set_word (kpd_frame s) (of_nat i)
      (word_of_pde (vmm_init_pde (frame_base (kpt_frame s) + KERNEL_STATIC_MEM_START) i)) s) [0..<1024]
      (fold (\<lambda>t s. s\<lparr>pmem := (pmem s)(kpt_frame s + of_nat t := (\<lambda>_. 0))\<rparr>) [0..<1024] (s\<lparr>pmem := (pmem s)(kpd_frame s := (\<lambda>_. 0))\<rparr>))"
  note c = init_tables_clear [OF dir, folded s1_def]
  have n1: "unat (1048576 div FRAME_SIZE - 1) = 255" by (simp add: FRAME_SIZE_def)
  obtain s2 where s2: "MapRange 0x1000 0x1000 (1048576 div FRAME_SIZE - 1) True False False Kernel_Dir s1 = Inr s2" "same_but_map s1 s2"
    "\<And>p. kmap s2 p = (if 1 \<le> unat p \<and> unat p < 256 then new_pte (0x1000 + of_nat (unat p - 1) * 0x1000) True False False else kmap s1 p)"
    using MapRange_kernel [of 1 "1048576 div FRAME_SIZE - 1" "0x1000" True False False s1] unfolding n1 by auto
  let ?len = "kend - (KERNEL_STATIC_MEM_START AND 0xFFC00000)"
  let ?n = "if ?len mod FRAME_SIZE \<noteq> 0 then ?len div FRAME_SIZE + 1 else ?len div FRAME_SIZE"
  have base: "KERNEL_STATIC_MEM_START AND 0xFFC00000 = 0xC0000000" by (simp add: KERNEL_STATIC_MEM_START_def)
  have "unat ?len + 4095 < 0x40000 * 4096" using size unfolding kernel_frames_def kernel_bytes_def by (simp add: div_less_iff_less_mult)
  then have n2: "unat ?n = kernel_frames kend" using kernel_frames_rounding [of ?len] by (simp add: kernel_frames_def kernel_bytes_def)
  obtain s3 where s3: "MapRange 0xC0001000 0x1000 ?n True True False Kernel_Dir s2 = Inr s3" "same_but_map s2 s3"
    "\<And>p. kmap s3 p = (if 0xC0001 \<le> unat p \<and> unat p < 0xC0001 + kernel_frames kend
        then new_pte (0x1000 + of_nat (unat p - 0xC0001) * 0x1000) True True False else kmap s2 p)"
    using MapRange_kernel [of "0xC0001" ?n "0x1000" True True False s2] size unfolding n2 by auto
  let ?s = "X86SwitchPageDirectory Kernel_Dir s3"
  have run: "X86VirtMemMgrInit kend handler i s = Inr (i\<lparr>isr_handlers := (isr_handlers i)[14 := Some handler]\<rparr>, ?s)"
    using isrs s2(1) s3(1) unfolding X86VirtMemMgrInit_def Let_def s1_def [symmetric] base
    by (simp add: X86RegisterIsrHandler_def)
  have sb: "same_but_map s1 s3" using s2(2) s3(2) by (rule same_but_map_trans)
  have sw: "frames ?s = frames s3" "pmem ?s = pmem s3" "kpt_frame ?s = kpt_frame s3" "kpd_frame ?s = kpd_frame s3" "cr3 ?s = frame_base (kpd_frame s3)"
    by (simp_all add: X86SwitchPageDirectory_def)
  have km: "kmap ?s p = kmap s3 p" for p by (simp add: kmap_def kernel_pte_def sw)
  have low: "0x1000 + of_nat (unat p - 1) * 0x1000 = frame_base p" if "1 \<le> unat p" for p :: "20 word"
    using that by (simp add: frame_base_word algebra_simps)
  have high: "0x1000 + of_nat (unat p - 0xC0001) * 0x1000 = frame_base p - 0xC0000000" if "0xC0001 \<le> unat p" for p :: "20 word"
    using that by (simp add: frame_base_word algebra_simps)
  have map: "kmap ?s p = kernel_map kend p" for p unfolding km s3(3) s2(3) c(4) kernel_map_def using low high by auto
  have "mmu_translate ?s v = (let e = kmap ?s (page_no v) in if present e then Some (frame_base (page_frame_addr e) + (v AND 0xFFF)) else None)" for v
  proof -
    have kp: "kpd_frame s3 = kpd_frame s" "kpt_frame s3 = kpt_frame s" "pmem s3 (kpd_frame s) = pmem s1 (kpd_frame s)"
      using sb dir c(1,2) by (auto simp: same_but_map_def)
    have cr: "frame_no (cr3 ?s) = kpd_frame s" using page_no_frame_base [of "kpd_frame s"] unfolding page_no_def sw kp frame_no_def .
    have "kmap ?s (page_no v) = kernel_pte ?s v" by (rule kernel_pte_kmap [symmetric])
    also have "\<dots> = pte_of_word (pmem ?s (kpt_frame s + ucast (directory_entry v)) (table_entry v))" by (simp add: kernel_pte_def sw kp)
    finally show ?thesis unfolding mmu_translate_def cr unfolding sw kp using c(5,6) by (simp add: Let_def)
  qed
  moreover have "frames ?s = frames s" using sb c(3) by (simp add: sw same_but_map_def)
  ultimately show ?thesis using run map by (intro exI [of _ ?s]) (simp add: X86SwitchPageDirectory_def)
qed

lemma page_bounds: "k \<le> unat (page_no v) \<longleftrightarrow> k * 4096 \<le> unat v" "unat (page_no v) < k \<longleftrightarrow> unat v < k * 4096"
  by (simp_all add: unat_page_no less_eq_div_iff_mult_less_eq div_less_iff_less_mult)

lemma new_pte_page: "present (new_pte a wr ca us)" "frame_base (page_frame_addr (new_pte a wr ca us)) = frame_base (page_no a)"
  by (simp_all add: new_pte_def page_no_def)

lemma page_no_frame_minus: "0xC0000000 \<le> unat v \<Longrightarrow> page_no (frame_base (page_no v) - 0xC0000000) = page_no (v - 0xC0000000)"
  using page_no_minus [of v] page_no_frame_base [of "page_no (v - 0xC0000000)"] by simp

lemma kernel_map_translation:
  "(let e = kernel_map kend (page_no v) in if present e then Some (frame_base (page_frame_addr e) + (v AND 0xFFF)) else None) = kernel_translation kend v"
proof -
  have low: "0x1000 \<le> v \<and> v < 0x100000 \<longleftrightarrow> 1 \<le> unat (page_no v) \<and> unat (page_no v) < 256"
    unfolding page_bounds by (simp add: word_le_nat_alt word_less_nat_alt)
  have u: "0xC0001000 \<le> v \<longleftrightarrow> 0xC0001000 \<le> unat v" by (simp add: word_le_nat_alt)
  have high: "0xC0001000 \<le> v \<and> unat v < 0xC0001000 + kernel_frames kend * 4096
      \<longleftrightarrow> 0xC0001 \<le> unat (page_no v) \<and> unat (page_no v) < 0xC0001 + kernel_frames kend"
    unfolding page_bounds u by (simp add: algebra_simps)
  have "frame_base (page_no (frame_base (page_no v) - 0xC0000000)) + (v AND 0xFFF) = v - 0xC0000000" if "0xC0001 \<le> unat (page_no v)"
  proof -
    have ge: "0xC0000000 \<le> unat v" using that unfolding page_bounds by simp
    have "frame_base (page_no (frame_base (page_no v) - 0xC0000000)) + (v AND 0xFFF) = frame_base (page_no v) + (v AND 0xFFF) - 0xC0000000"
      unfolding page_no_frame_minus [OF ge] page_no_minus [OF ge] by simp
    then show ?thesis by (simp only: page_split)
  qed
  then show ?thesis
    unfolding kernel_translation_def low high kernel_map_def by (auto simp: Let_def new_pte_page page_split zero_pte_def pte_of_word_def)
qed

lemma demo_vmm_tables: "kpd_frame demo_vmm \<notin> range (\<lambda>t :: 10 word. kpt_frame demo_vmm + ucast t)"
proof -
  have t: "unat (t :: 10 word) < 1024" for t using unat_less [of t] by simp
  have "unat (0x101 + ucast t :: 20 word) = 0x101 + unat t" for t :: "10 word"
    using t [of t] unat_plus_no_wrap [of "0x101 :: 20 word" "ucast t"] by (simp add: unat_ucast_mod)
  then show ?thesis by (auto simp: demo_vmm_def word_unat_eq_iff)
qed

text \<open>
  \<open>X86VirtMemMgrInit\<close> ends without a fault and from then on the processor, which walks the new directory from \<open>CR3\<close>,
  translates the addresses from 4 KiB to 1 MiB to themselves and those of the kernel image, from 0xC0001000 on, to the
  image in physical memory; every other address, \<open>NULL\<close> among them, faults, and the fault handler is
  registered. No frame is taken, and none that can be allocated later is mapped at 0xC0001000 or above.
\<close>

theorem X86VirtMemMgrInit_translates:
  assumes "kpd_frame s \<notin> range (\<lambda>t :: 10 word. kpt_frame s + ucast t)" and "kernel_frames kend < 0x40000" and "14 < length (isr_handlers i)"
  shows "\<exists>i' s'. X86VirtMemMgrInit kend handler i s = Inr (i', s') \<and> isr_handlers i' ! 14 = Some handler
     \<and> frames s' = frames s \<and> current_page_directory s' = Kernel_Dir \<and> (\<forall>v. mmu_translate s' v = kernel_translation kend v)
     \<and> (\<forall>v a. mmu_translate s' v = Some a \<and> 0xC0000000 \<le> v \<and> lo_ix (frames s) = kernel_frames kend + 1 \<and> phys_wf (frames s) \<longrightarrow>
          frame_base (page_no a) \<notin> frames_all (frames s))"
proof -
  obtain s' where s': "X86VirtMemMgrInit kend handler i s = Inr (i\<lparr>isr_handlers := (isr_handlers i)[14 := Some handler]\<rparr>, s')"
    "frames s' = frames s" "current_page_directory s' = Kernel_Dir" "\<forall>p. kmap s' p = kernel_map kend p"
    "\<forall>v. mmu_translate s' v = (let e = kmap s' (page_no v) in if present e then Some (frame_base (page_frame_addr e) + (v AND 0xFFF)) else None)"
    using X86VirtMemMgrInit_spec [OF assms, of handler] by (elim exE conjE) (rule that)
  have tr: "mmu_translate s' v = kernel_translation kend v" for v using s'(4,5) kernel_map_translation by simp
  have "frame_base (page_no a) \<notin> frames_all (frames s)"
    if a: "mmu_translate s' v = Some a" "0xC0000000 \<le> v" "lo_ix (frames s) = kernel_frames kend + 1" "phys_wf (frames s)" for v a
  proof
    assume "frame_base (page_no a) \<in> frames_all (frames s)"
    then obtain k where k: "frame_base (page_no a) = frame_addr k" "kernel_frames kend + 1 \<le> k" "k < hi_ix (frames s)" using a(3) by (auto simp: frames_all_def)
    have "k < PHYS_BITMAP_LEN" using k(3) a(4) by (simp add: phys_wf_def)
    then have "unat a div 4096 = k" using arg_cong [OF k(1), of unat] unat_frame_addr [of k] by (simp add: unat_frame_base unat_page_no)
    moreover have "a = v - 0xC0000000" "0xC0001000 \<le> v" "unat v < 0xC0001000 + kernel_frames kend * 4096"
      using a(1,2) unfolding tr kernel_translation_def by (auto split: if_splits simp: word_le_nat_alt word_less_nat_alt)
    moreover from this have "unat a = unat v - 0xC0000000" using unat_sub [of "0xC0000000" v] a(2) by simp
    ultimately show False using k(2) by (simp add: div_less_iff_less_mult not_le [symmetric] less_eq_div_iff_mult_less_eq)
  qed
  then show ?thesis using s'(1-3) tr assms(3) by (intro exI [of _ "i\<lparr>isr_handlers := (isr_handlers i)[14 := Some handler]\<rparr>"] exI [of _ s']) auto
qed

theorem X86VirtMemMgrInit_translates_witness:
  "\<exists>i' s'. X86VirtMemMgrInit 0xC0200000 5 boot_idt demo_vmm = Inr (i', s') \<and> isr_handlers i' ! 14 = Some 5
     \<and> mmu_translate s' 0xB8000 = Some 0xB8000 \<and> mmu_translate s' 0xC0100004 = Some 0x100004 \<and> mmu_translate s' 0 = None"
proof -
  have "kernel_frames 0xC0200000 = 512" by (simp add: kernel_frames_def kernel_bytes_def KERNEL_STATIC_MEM_START_def)
  moreover have "14 < length (isr_handlers boot_idt)" by (simp add: boot_idt_def)
  ultimately show ?thesis using demo_vmm_tables X86VirtMemMgrInit_translates [of demo_vmm "0xC0200000" boot_idt 5] by (auto simp: kernel_translation_def)
qed

end
