(* ===== verification/Kernel_Boot.thy ===== *)
theory Kernel_Boot
  imports Kernel_Main Pc_Machine Vmm_Init
begin

text \<open>
  A successful boot. The parts of the kernel that \<open>main\<close> initialises do not use the terminal, so the messages
  between them never stop the boot (\<open>report_runs\<close>); the lemmas on the parts then give the state \<open>main\<close>
  ends in, on the machine of \<open>Pc_Machine\<close>.
\<close>

section \<open>Messages between the parts\<close>

definition silent :: "(('h, 'd, 'm) kernel \<Rightarrow> ('h, 'd, 'm) kernel res) \<Rightarrow> bool" where
  "silent part \<longleftrightarrow> (\<forall>k t. part (k\<lparr>k_vga := t\<rparr>) = rbind (part k) (\<lambda>k'. Inr (k'\<lparr>k_vga := t\<rparr>)))"

lemma vga_last:
  "k\<lparr>k_vga := t, available_ram := ar\<rparr> = k\<lparr>available_ram := ar, k_vga := t\<rparr>" "k\<lparr>k_vga := t, k_gdt := g\<rparr> = k\<lparr>k_gdt := g, k_vga := t\<rparr>"
  "k\<lparr>k_vga := t, k_idt := i\<rparr> = k\<lparr>k_idt := i, k_vga := t\<rparr>" "k\<lparr>k_vga := t, k_io := d\<rparr> = k\<lparr>k_io := d, k_vga := t\<rparr>"
  "k\<lparr>k_vga := t, k_vmm := v\<rparr> = k\<lparr>k_vmm := v, k_vga := t\<rparr>" "k\<lparr>k_vga := t, k_heap := h\<rparr> = k\<lparr>k_heap := h, k_vga := t\<rparr>"
  "k\<lparr>k_vga := t, k_ports := b\<rparr> = k\<lparr>k_ports := b, k_vga := t\<rparr>" "k\<lparr>k_vga := t, k_pci := p\<rparr> = k\<lparr>k_pci := p, k_vga := t\<rparr>"
  "k\<lparr>k_vga := t, k_disk := s\<rparr> = k\<lparr>k_disk := s, k_vga := t\<rparr>" "k\<lparr>k_vga := t, k_mem := m\<rparr> = k\<lparr>k_mem := m, k_vga := t\<rparr>"
  by simp_all

lemma silent_parts:
  "silent (init_tables E)" "silent (init_uart E)" "silent (init_frames E)" "silent (init_paging E)" "silent Inr" "silent (init_ports E)" "silent (init_pci E)"
  by (simp_all add: silent_def init_tables_def init_uart_def init_frames_def init_paging_def init_ports_def init_pci_def rbind_assoc Let_def case_prod_beta' vga_last)

definition sayable :: "('h, 'd, 'm) boot_env \<Rightarrow> string \<Rightarrow> arg list \<Rightarrow> bool" where
  "sayable E fmt args \<longleftrightarrow> (\<forall>k :: ('h, 'd, 'm) kernel. vga_ok (k_vga k) \<longrightarrow> (\<exists>t. say E fmt args k = Inr (k\<lparr>k_vga := t\<rparr>) \<and> vga_ok t))"

lemma sayable_literal: "length (b_junk E) = 32 \<Longrightarrow> literal s \<Longrightarrow> sayable E s []"
  unfolding sayable_def using say_literal by blast

lemma sayable_number: "length (b_junk E) = 32 \<Longrightarrow> literal a \<Longrightarrow> literal b \<Longrightarrow> sayable E (a @ ''%d'' @ b) [Arg_Int v]"
  unfolding sayable_def using say_number by blast

lemma say_runs:
  assumes "sayable E fmt args" and "vga_ok t"
  shows "\<exists>t'. say E fmt args (k\<lparr>k_vga := t\<rparr>) = Inr (k\<lparr>k_vga := t'\<rparr>) \<and> vga_ok t'"
  using assms(1) [unfolded sayable_def, rule_format, of "k\<lparr>k_vga := t\<rparr>"] assms(2) by auto

lemma report_runs:
  assumes "length (b_junk E) = 32" and "sayable E fmt args" and "silent part" and "part k = Inr k'" and "vga_ok t"
  shows "\<exists>t'. report E fmt args part (k\<lparr>k_vga := t\<rparr>) = Inr (k'\<lparr>k_vga := t'\<rparr>) \<and> vga_ok t'"
proof -
  obtain t1 where t1: "say E fmt args (k\<lparr>k_vga := t\<rparr>) = Inr (k\<lparr>k_vga := t1\<rparr>)" "vga_ok t1" using say_runs [OF assms(2,5)] by blast
  have p: "part (k\<lparr>k_vga := t1\<rparr>) = Inr (k'\<lparr>k_vga := t1\<rparr>)" using assms(3,4) by (simp add: silent_def)
  have "sayable E ('' OK'' @ [CHR 0x0A]) []" by (rule sayable_literal [OF assms(1)]) (simp add: literal_def of_char_def)
  then obtain t2 where "say E ('' OK'' @ [CHR 0x0A]) [] (k'\<lparr>k_vga := t1\<rparr>) = Inr (k'\<lparr>k_vga := t2\<rparr>)" "vga_ok t2"
    using say_runs [OF _ t1(2)] by blast
  then show ?thesis using t1(1) p by (intro exI [of _ t2]) (simp add: report_def)
qed

lemma messages_run:
  assumes "length (b_junk E) = 32" and "vga_ok t"
  shows "\<exists>t'. rfold (\<lambda>msg. say E msg []) (replicate n unsupported_controller) (k\<lparr>k_vga := t\<rparr>) = Inr (k\<lparr>k_vga := t'\<rparr>) \<and> vga_ok t'"
  using assms(2)
proof (induction n arbitrary: t)
  case (Suc n)
  have "sayable E unsupported_controller []"
    by (rule sayable_literal [OF assms(1)]) (simp add: literal_def unsupported_controller_def of_char_def)
  then obtain t1 where "say E unsupported_controller [] (k\<lparr>k_vga := t\<rparr>) = Inr (k\<lparr>k_vga := t1\<rparr>)" "vga_ok t1"
    using say_runs [OF _ Suc.prems] by blast
  then show ?case using Suc.IH [of t1] by simp
qed auto

section \<open>The parts in a row\<close>

lemma boot_start_runs:
  assumes "length (vga_buffer (k_vga k)) = 2000" and "length (b_junk E) = 32" and "\<not> b_debug E"
  shows "\<exists>t. boot_start E mi k = Inr (k\<lparr>k_mem := copy_config (b_config E) mi (k_mem k), available_ram := push_bit 10 (mem_upper mi + 1024), k_vga := t\<rparr>) \<and> vga_ok t"
proof -
  obtain t0 where t0: "VgaTerminalInit (k_vga k) = Inr t0" "vga_ok t0" using VgaTerminalInit_clears [OF assms(1)] by blast
  let ?k = "k\<lparr>k_mem := copy_config (b_config E) mi (k_mem k), available_ram := push_bit 10 (mem_upper mi + 1024)\<rparr>"
  have "sayable E (''Detected '' @ ''%d'' @ (''MiB of RAM'' @ [CHR 0x0A])) [Arg_Int (push_bit 10 (mem_upper mi + 1024) div 1048576)]"
    by (rule sayable_number [OF assms(2)]) (simp_all add: literal_def of_char_def)
  from say_runs [OF this t0(2), of ?k] show ?thesis using t0(1) assms(3) by (simp add: boot_start_def vga_last)
qed

lemma boot_parts_run:
  assumes junk: "length (b_junk E) = 32" and "\<not> b_debug E" and "vga_ok t" and parts: "init_tables E k = Inr k1" "init_uart E k1 = Inr k2" "init_frames E k2 = Inr k3"
    "init_paging E k3 = Inr k4" "init_ports E k4 = Inr k5" "init_pci E k5 = Inr k6"
  shows "\<exists>t'. boot_parts E (k\<lparr>k_vga := t\<rparr>) = Inr (k6\<lparr>k_vga := t'\<rparr>) \<and> vga_ok t'"
proof -
  have l: "literal ''Initializing descriptor tables...''" "literal ''Initializing UART (baudrate ''" "literal '')...''"
    "literal ''Initializing physical memory manager...''" "literal ''Initializing virtual memory manager...''"
    "literal ''Initializing I/O port manager...''" "literal ''Initializing PCI...''" by (simp_all add: literal_def of_char_def)
  note lit = sayable_literal [OF junk]
  obtain t1 where t1: "report E ''Initializing descriptor tables...'' [] (init_tables E) (k\<lparr>k_vga := t\<rparr>) = Inr (k1\<lparr>k_vga := t1\<rparr>)" "vga_ok t1"
    using report_runs [OF junk lit [OF l(1)] silent_parts(1) parts(1) assms(3)] by blast
  have "sayable E ''Initializing UART (baudrate %d)...'' [Arg_Int (word_of_int UART_DEFAULT_FREQ)]"
    using sayable_number [OF junk l(2,3)] by simp
  then obtain t2 where t2: "report E ''Initializing UART (baudrate %d)...'' [Arg_Int (word_of_int UART_DEFAULT_FREQ)] (init_uart E) (k1\<lparr>k_vga := t1\<rparr>) = Inr (k2\<lparr>k_vga := t2\<rparr>)"
    "vga_ok t2" using report_runs [OF junk _ silent_parts(2) parts(2) t1(2)] by blast
  obtain t3 where t3: "report E ''Initializing physical memory manager...'' [] (init_frames E) (k2\<lparr>k_vga := t2\<rparr>) = Inr (k3\<lparr>k_vga := t3\<rparr>)" "vga_ok t3"
    using report_runs [OF junk lit [OF l(4)] silent_parts(3) parts(3) t2(2)] by blast
  obtain t4 where t4: "report E ''Initializing virtual memory manager...'' [] (init_paging E) (k3\<lparr>k_vga := t3\<rparr>) = Inr (k4\<lparr>k_vga := t4\<rparr>)" "vga_ok t4"
    using report_runs [OF junk lit [OF l(5)] silent_parts(4) parts(4) t3(2)] by blast
  obtain t5 where t5: "report E ''Initializing I/O port manager...'' [] Inr (k4\<lparr>k_vga := t4\<rparr>) = Inr (k4\<lparr>k_vga := t5\<rparr>)" "vga_ok t5"
    using report_runs [OF junk lit [OF l(6)] silent_parts(5) refl t4(2)] by blast
  have p: "init_ports E (k4\<lparr>k_vga := t5\<rparr>) = Inr (k5\<lparr>k_vga := t5\<rparr>)" using silent_parts(6) [of E] parts(5) by (simp add: silent_def)
  obtain t6 where t6: "report E ''Initializing PCI...'' [] (init_pci E) (k5\<lparr>k_vga := t5\<rparr>) = Inr (k6\<lparr>k_vga := t6\<rparr>)" "vga_ok t6"
    using report_runs [OF junk lit [OF l(7)] silent_parts(7) parts(6) t5(2)] by blast
  show ?thesis using t1(1) t2(1) t3(1) t4(1) t5(1) p t6 assms(2) by (intro exI [of _ t6]) (simp add: boot_parts_def init_gdb_def)
qed

section \<open>The parts on a PC\<close>

text \<open>
  What a successful boot needs, apart from the configuration: tables and buffers of the sizes the image gives them, an image that
  fits the memory of the machine, a bus 0 without bridges to other buses, drives whose partitions all
  have FAT32 volumes, and a heap that serves the 586 requests of the boot once paging is on. 512 of these are for
  the PCI devices, at most 256 that may be listed twice.
\<close>

definition image_ready :: "('h, pc, 'm) boot_env \<Rightarrow> u32 \<Rightarrow> ('h, pc, 'm) kernel \<Rightarrow> bool" where
  "image_ready E ram k \<longleftrightarrow> \<not> b_debug E \<and> length (b_junk E) = 32 \<and> length (vga_buffer (k_vga k)) = 2000 \<and> gdt_ok (k_gdt k) \<and> idt_ok (k_idt k)
     \<and> length (b_bitmap_data E) = length phys_bitmap_data \<and> (\<forall>p. length (b_port_block E p) = 2016)
     \<and> kernel_frames (b_end E) < 0x40000 \<and> kernel_frames (b_end E) + 1 \<le> unat ram div 4096
     \<and> kpd_frame (k_vmm k) \<notin> range (\<lambda>t :: 10 word. kpt_frame (k_vmm k) + ucast t)"

definition fresh_paging :: "u32 \<Rightarrow> u32 \<Rightarrow> vmm \<Rightarrow> bool" where
  "fresh_paging kend ram v \<longleftrightarrow> phys_wf (frames v) \<and> lo_ix (frames v) = kernel_frames kend + 1 \<and> hi_ix (frames v) = unat ram div 4096 \<and> used (frames v) = {}
     \<and> current_page_directory v = Kernel_Dir \<and> (\<forall>p. kmap v p = kernel_map kend p) \<and> (\<forall>a. mmu_translate v a = kernel_translation kend a)"

definition heap_ready :: "('h, pc, 'm) boot_env \<Rightarrow> u32 \<Rightarrow> bool" where
  "heap_ready E ram \<longleftrightarrow> (\<forall>v. fresh_paging (b_end E) ram v \<longrightarrow> fresh_blocks (h_malloc (b_fat E)) 586 (b_heap E v) {})"

definition bus_ready :: "(u32 \<Rightarrow> u32) \<Rightarrow> bool" where
  "bus_ready c \<longleftrightarrow> (\<forall>d < 32. \<forall>f < 8. \<not> is_bridge c 0 (of_nat d) (of_nat f)) \<and> (multi c 0 0 \<longrightarrow> vendor c 0 0 0 \<noteq> 0xFFFF \<and> vendor c 0 0 1 = 0xFFFF)"

definition drivers_blank :: "('h, pc, 'm) kernel \<Rightarrow> bool" where
  "drivers_blank k \<longleftrightarrow> pci_devices_list (k_pci k) = 0 \<and> pci_devs (k_pci k) = Map.empty
     \<and> \<not> ide_one (ide (k_disk k)) \<and> disks (k_disk k) = 0 \<and> volumes (k_disk k) = 0
     \<and> objects (fat (k_disk k)) = {} \<and> disk_descs (ide (k_disk k)) = Map.empty \<and> ide_disks (ide (k_disk k)) = Map.empty"

lemma kernel_bytes_bound: "kernel_frames kend < 0x40000 \<Longrightarrow> kernel_bytes kend + 4095 < 2 ^ 32"
  unfolding kernel_frames_def by (simp add: div_less_iff_less_mult)

lemma init_tables_works:
  assumes "image_ready E ram k"
  shows "\<exists>g i. init_tables E k = Inr (k\<lparr>k_gdt := g, k_idt := i\<rparr>) \<and> gdt_ok g \<and> idt_ok i \<and> irq_handlers i ! 0 = Some (b_tick E) \<and> interrupts_on i"
proof -
  have ok: "gdt_ok (k_gdt k)" "idt_ok (k_idt k)" using assms by (simp_all add: image_ready_def)
  obtain g where g: "X86GdtInit (b_gdt E) (b_tss E) (b_ss E) (k_gdt k) = Inr g" "gdt_ok g" using X86GdtInit_segments [OF ok(1)] by blast
  obtain i where i: "X86IdtInit (b_in8 E) (b_idt E) (b_stub E) (b_tick E) (k_idt k) = Inr i" "idt_ok i"
    "irq_handlers i = (irq_handlers (k_idt k))[0 := Some (b_tick E)]" "interrupts_on i"
    using X86IdtInit_tables [OF ok(2), of "b_in8 E" "b_idt E" "b_stub E" "b_tick E"] by (elim exE conjE) (rule that)
  show ?thesis using g i ok(2) by (intro exI [of _ g] exI [of _ i]) (simp add: init_tables_def idt_ok_def)
qed

lemma init_uart_works:
  assumes "b_io E = pc_ports delay media"
  shows "\<exists>d. init_uart E k = Inr (k\<lparr>k_io := d\<rparr>) \<and> pc_regs d = pc_regs (k_io k)"
proof -
  have "{LINE_CONTROL, FREQ_DIV, INT_IDENT_AND_FIFO_CTRL, INT_ENABLE} \<subseteq> uart_range" by (simp add: uart_consts uart_range_def)
  note v = uart_view.view_UartInit [OF this]
  obtain u where "UartInit (fst (b_ier E)) (snd (b_ier E)) uart_ports UART_DEFAULT_FREQ (pc_uart (k_io k)) = Inr u"
    using UartInit_programs [of UART_DEFAULT_FREQ "fst (b_ier E)" "snd (b_ier E)" "pc_uart (k_io k)"] by (auto simp: UART_DEFAULT_FREQ_def)
  then show ?thesis by (intro exI [of _ "(k_io k)\<lparr>pc_uart := u\<rparr>"]) (simp add: init_uart_def assms v)
qed

lemma memory_managers_work:
  assumes size: "kernel_frames kend < 0x40000" "kernel_frames kend + 1 \<le> unat ram div 4096" and data: "length words = length phys_bitmap_data"
    and dir: "kpd_frame v \<notin> range (\<lambda>t :: 10 word. kpt_frame v + ucast t)" and isrs: "14 < length (isr_handlers i)"
  shows "\<exists>f v'. X86PhysMemMgrInit kend (frames v) words ram = Inr f
     \<and> X86VirtMemMgrInit kend handler i (v\<lparr>frames := f\<rparr>) = Inr (i\<lparr>isr_handlers := (isr_handlers i)[14 := Some handler]\<rparr>, v') \<and> fresh_paging kend ram v'"
proof -
  obtain f where f: "X86PhysMemMgrInit kend (frames v) words ram = Inr f" "phys_wf f" "lo_ix f = kernel_frames kend + 1"
    "hi_ix f = unat ram div 4096" "used f = {}"
    using X86PhysMemMgrInit_spec [OF kernel_bytes_bound [OF size(1)] size(2) data, of "frames v"] by (elim exE conjE) (rule that)
  let ?v = "v\<lparr>frames := f\<rparr>"
  have "kpd_frame ?v \<notin> range (\<lambda>t :: 10 word. kpt_frame ?v + ucast t)" using dir by simp
  from X86VirtMemMgrInit_spec [OF this size(1) isrs, of handler] obtain v' where
    v': "X86VirtMemMgrInit kend handler i ?v = Inr (i\<lparr>isr_handlers := (isr_handlers i)[14 := Some handler]\<rparr>, v')"
    "frames v' = frames ?v" "current_page_directory v' = Kernel_Dir" "\<forall>p. kmap v' p = kernel_map kend p"
    "\<forall>a. mmu_translate v' a = (let e = kmap v' (page_no a) in if present e then Some (frame_base (page_frame_addr e) + (a AND 0xFFF)) else None)"
    by (elim exE conjE) (rule that)
  have "mmu_translate v' a = kernel_translation kend a" for a using v'(4,5) kernel_map_translation by simp
  then have "fresh_paging kend ram v'" using f v'(2-4) by (simp add: fresh_paging_def)
  then show ?thesis using f(1) v'(1) by (intro exI [of _ f] exI [of _ v']) simp
qed

lemma init_memory_works:
  assumes "image_ready E ram k" and "available_ram k = ram" and "idt_ok (k_idt k)"
  shows "\<exists>f v. init_frames E k = Inr (k\<lparr>k_vmm := (k_vmm k)\<lparr>frames := f\<rparr>\<rparr>)
     \<and> init_paging E (k\<lparr>k_vmm := (k_vmm k)\<lparr>frames := f\<rparr>\<rparr>) = Inr (k\<lparr>k_idt := (k_idt k)\<lparr>isr_handlers := (isr_handlers (k_idt k))[14 := Some (b_page_fault E)]\<rparr>,
          k_vmm := v, k_heap := b_heap E v\<rparr>) \<and> fresh_paging (b_end E) ram v"
proof -
  have r: "kernel_frames (b_end E) < 0x40000" "kernel_frames (b_end E) + 1 \<le> unat ram div 4096" "length (b_bitmap_data E) = length phys_bitmap_data"
    "kpd_frame (k_vmm k) \<notin> range (\<lambda>t :: 10 word. kpt_frame (k_vmm k) + ucast t)" "14 < length (isr_handlers (k_idt k))"
    using assms(1,3) by (simp_all add: image_ready_def idt_ok_def)
  obtain f v where "X86PhysMemMgrInit (b_end E) (frames (k_vmm k)) (b_bitmap_data E) ram = Inr f"
    "X86VirtMemMgrInit (b_end E) (b_page_fault E) (k_idt k) ((k_vmm k)\<lparr>frames := f\<rparr>) = Inr ((k_idt k)\<lparr>isr_handlers := (isr_handlers (k_idt k))[14 := Some (b_page_fault E)]\<rparr>, v)"
    "fresh_paging (b_end E) ram v" using memory_managers_work [OF r, of "b_page_fault E"] by (elim exE conjE) (rule that)
  then show ?thesis using assms(2) by (intro exI [of _ f] exI [of _ v]) (simp add: init_frames_def init_paging_def)
qed

lemma init_ports_works:
  assumes "\<forall>p. length (b_port_block E p) = 2016" and "fresh_blocks (h_malloc (b_fat E)) (Suc n) (k_heap k) {}"
  shows "\<exists>b h. init_ports E k = Inr (k\<lparr>k_ports := b, k_heap := h\<rparr>) \<and> ports_wf b \<and> used b = {} \<and> fresh_blocks (h_malloc (b_fat E)) n h {}"
proof -
  have size: "BITMAP_SIZE PORT_BITMAP_LEN BITMAP_DZ = 8064" by (simp add: BITMAP_SIZE_def PORT_BITMAP_LEN_def BITMAP_DZ_def)
  obtain p h where m: "h_malloc (b_fat E) 8064 (k_heap k) = (p, h)" by (cases "h_malloc (b_fat E) 8064 (k_heap k)")
  have "(8064 :: u32) \<le> MAX_REQUEST" by (simp add: MAX_REQUEST_def)
  note f = fresh_blocksD [OF assms(2) m this]
  let ?malloc = "\<lambda>n :: u32. if p = 0 then None else Some (b_port_block E p)"
  have "?malloc 8064 = Some (b_port_block E p)" "length (b_port_block E p) = 8064 div 4" using f(1) assms(1) by simp_all
  from IoPortMgrInit_establishes [of ?malloc, OF this, of "k_ports k"] obtain b where
    "IoPortMgrInit ?malloc (k_ports k) = Inr b" "ports_wf b" "used b = {}" by blast
  then show ?thesis using m fresh_blocks_antimono [OF f(3), of "{}" n] f(1)
    by (intro exI [of _ b] exI [of _ h]) (simp add: init_ports_def size)
qed

text \<open>The devices in the order of the list, which is the reverse order of the search.\<close>

definition boot_devices :: "(u32 \<Rightarrow> u32) \<Rightarrow> (u8 \<times> nat \<times> nat) list" where
  "boot_devices c = (if multi c 0 0 then rev (bus_devices c 0) @ rev (bus_devices c 0) else rev (bus_devices c 0))"

lemma set_boot_devices: "set (boot_devices c) = set (bus_devices c 0)"
  by (simp add: boot_devices_def)

lemma bus_devices_range: "(b, d, f) \<in> set (bus_devices c bus) \<Longrightarrow> b = bus \<and> d < 32 \<and> f < 8"
  by (auto simp: bus_devices_def functions_of_def simp del: upt_rec_numeral split: if_splits)

lemma length_boot_devices: "length (boot_devices c) \<le> 512"
proof -
  have "length (functions_of c 0 d) \<le> 8" for d
  proof -
    have "length (filter (\<lambda>f. vendor c 0 (of_nat d) (of_nat f) \<noteq> 0xFFFF) [1..<8]) \<le> 7" by (rule order_trans [OF length_filter_le]) simp
    then show ?thesis by (simp add: functions_of_def del: upt_rec_numeral)
  qed
  then have "length (concat (map (\<lambda>d. map (\<lambda>f. (0 :: u8, d, f)) (functions_of c 0 d)) ds)) \<le> 8 * length ds" for ds
  proof (induction ds)
    case (Cons d ds)
    from Cons.IH [OF Cons.prems] Cons.prems [of d] show ?case by simp
  qed simp
  from this [of "[0..<32]"] have "length (bus_devices c 0) \<le> 256" by (simp add: bus_devices_def del: upt_rec_numeral)
  then show ?thesis by (simp add: boot_devices_def)
qed

lemma pci_lists_listed:
  assumes "pci_lists p found" and "set found \<subseteq> set (bus_devices c bus)"
  shows "\<exists>as. linked (pci_devs p) pci_next (pci_devices_list p) as \<and> list_all2 (listed (pci_devs p)) as found"
proof -
  obtain as where as: "linked (pci_devs p) pci_next (pci_devices_list p) as"
    "list_all2 (\<lambda>a (b, d, f). \<exists>x. pci_devs p a = Some x \<and> pci_bus x = b \<and> pci_device x = of_nat d \<and> pci_function x = of_nat f) as found"
    using assms(1) by (auto simp: pci_lists_def)
  have "listed (pci_devs p) (as ! i) (found ! i)" if "i < length found" for i
  proof -
    obtain b d f where x: "found ! i = (b, d, f)" by (cases "found ! i")
    then have "d < 32 \<and> f < 8" using bus_devices_range [of b d f c bus] assms(2) nth_mem [OF that] by auto
    then show ?thesis using list_all2_nthD2 [OF as(2) that] x by (simp add: listed_def)
  qed
  then have "list_all2 (listed (pci_devs p)) as found" using list_all2_lengthD [OF as(2)] by (simp add: list_all2_conv_all_nth)
  then show ?thesis using as(1) by blast
qed

lemma init_pci_works:
  assumes "b_io E = pc_ports delay media" and "drivers_blank k" and "bus_ready (pc_regs (k_io k))" and "idt_ok (k_idt k)" and "0 < b_fuel E"
    and "fresh_blocks (h_malloc (b_fat E)) (n + 512) (k_heap k) {}"
  shows "\<exists>p. init_pci E k = Inr (k\<lparr>k_pci := p, k_idt := (k_idt k)\<lparr>irq_handlers := (irq_handlers (k_idt k))[10 := Some (b_pci_handler E)]\<rparr>,
       k_io := pci_io p, k_heap := pci_heap p\<rparr>) \<and> searching pc_regs (pc_regs (k_io k)) (h_malloc (b_fat E)) n (boot_devices (pc_regs (k_io k))) p"
proof -
  let ?c = "pc_regs (k_io k)"
  let ?p = "(k_pci k)\<lparr>pci_io := k_io k, pci_heap := k_heap k\<rparr>"
  obtain depth where fuel: "b_fuel E = Suc depth" using assms(5) gr0_conv_Suc by blast
  have empty: "pci_devices_list ?p = 0" and fresh: "fresh_blocks (h_malloc (b_fat E)) (n + 512) (pci_heap ?p) (dom (pci_devs ?p))"
    using assms(2,6) by (simp_all add: drivers_blank_def)
  have bus: "\<forall>d < 32. \<forall>f < 8. \<not> is_bridge (pc_regs (pci_io ?p)) 0 (of_nat d) (of_nat f)"
    "multi (pc_regs (pci_io ?p)) 0 0 \<longrightarrow> vendor (pc_regs (pci_io ?p)) 0 0 0 \<noteq> 0xFFFF \<and> vendor (pc_regs (pci_io ?p)) 0 0 1 = 0xFFFF"
    using assms(3) by (simp_all add: bus_ready_def)
  have irqs: "length (irq_handlers (k_idt k)) = 16" using assms(4) by (simp add: idt_ok_def)
  obtain p where p: "PciInit (Suc depth) (pc_ports delay media) (h_malloc (b_fat E)) (b_pci_junk E) (b_pci_handler E) (?p, k_idt k)
      = Inr (p, (k_idt k)\<lparr>irq_handlers := (irq_handlers (k_idt k))[10 := Some (b_pci_handler E)]\<rparr>)"
    "searching pc_regs ?c (h_malloc (b_fat E)) n (boot_devices ?c) p"
    using pc_machine.PciInit_searches [OF empty fresh bus(1) irqs bus(2), of depth delay media "b_pci_junk E" "b_pci_handler E", folded boot_devices_def] by auto
  show ?thesis using p fuel assms(1) by (intro exI [of _ p]) (simp add: init_pci_def)
qed

lemma init_disks_works:
  assumes "b_io E = pc_ports delay media" and "drivers_blank (k\<lparr>k_pci := p0\<rparr>)" and junk: "length (b_junk E) = 32" and t: "vga_ok t"
    and s: "searching pc_regs c (h_malloc (b_fat E)) 73 (boot_devices c) (k_pci k)" and k: "k_io k = pci_io (k_pci k)" "k_heap k = pci_heap (k_pci k)"
    and fuel: "512 < b_fuel E" "delay < b_fuel E" and good: "\<forall>d \<in> set (ata_drives media). good_drive (b_fat E) media d"
  shows "\<exists>s t'. init_disks E (k\<lparr>k_vga := t\<rparr>) = Inr (k\<lparr>k_disk := s, k_io := dev (ide s), k_heap := ide_heap (ide s), k_vga := t'\<rparr>) \<and> vga_ok t'
     \<and> (if (1, 1) \<in> class_of c ` set (bus_devices c 0) then disks_mounted media s else disks s = 0 \<and> volumes s = 0)"
proof -
  let ?p = "k_pci k" and ?d = "k_disk k"
  let ?s = "?d\<lparr>controllers := pci_devices_list ?p, pci_nodes := pci_devs ?p, ide := (ide ?d)\<lparr>dev := k_io k, ide_heap := k_heap k\<rparr>, messages := []\<rparr>"
  have s3: "same_registers c (pc_regs (dev (ide ?s)))" "pci_lists ?p (boot_devices c)" "fresh_blocks (h_malloc (b_fat E)) 73 (k_heap k) (dom (pci_devs ?p))"
    using s k by (simp_all add: searching_def)
  have blank: "blank_disks (b_fat E) ?s"
    using assms(2) fresh_blocks_antimono [OF s3(3), of "{}" 73] by (simp add: blank_disks_def drivers_blank_def)
  obtain as where as: "linked (pci_nodes ?s) pci_next (controllers ?s) as" "list_all2 (listed (pci_nodes ?s)) as (boot_devices c)"
    using pci_lists_listed [OF s3(2), of c 0] by (auto simp: set_boot_devices)
  have "length as < b_fuel E" "4 < b_fuel E" using list_all2_lengthD [OF as(2)] length_boot_devices [of c] fuel(1) by simp_all
  from pc_machine.DiskSubsystemInit_host [OF s3(1) blank as this(1) fuel(2) this(2) good, of "b_desc E" "b_ctrl E"] obtain s' where
    s': "DiskSubsystemInit (b_fuel E) (pc_ports delay media) (b_fat E) (b_desc E) (b_ctrl E) ?s = Inr s'"
    "if (1, 1) \<in> class_of c ` set (boot_devices c) then disks_mounted media s' else disks s' = 0 \<and> volumes s' = 0"
    "messages s' = replicate (length (filter (\<lambda>x. other_storage (class_of c x)) (boot_devices c))) unsupported_controller" by auto
  let ?k = "k\<lparr>k_disk := s', k_io := dev (ide s'), k_heap := ide_heap (ide s')\<rparr>"
  obtain t' where t': "rfold (\<lambda>msg. say E msg []) (messages s') (?k\<lparr>k_vga := t\<rparr>) = Inr (?k\<lparr>k_vga := t'\<rparr>)" "vga_ok t'"
    using messages_run [OF junk t, of _ ?k] s'(3) by auto
  have "init_disks E (k\<lparr>k_vga := t\<rparr>) = Inr (?k\<lparr>k_vga := t'\<rparr>)" using s'(1) t'(1) assms(1) by (simp add: init_disks_def Let_def vga_last)
  then show ?thesis using t'(2) s'(2) by (intro exI [of _ s'] exI [of _ t']) (simp add: set_boot_devices)
qed

text \<open>The kernel with all its parts initialised.\<close>

definition kernel_up :: "('h, pc, 'm) boot_env \<Rightarrow> u32 \<Rightarrow> ('h, pc, 'm) kernel \<Rightarrow> bool" where
  "kernel_up E ram k \<longleftrightarrow> gdt_ok (k_gdt k) \<and> idt_ok (k_idt k) \<and> interrupts_on (k_idt k) \<and> irq_handlers (k_idt k) ! 0 = Some (b_tick E)
     \<and> irq_handlers (k_idt k) ! 10 = Some (b_pci_handler E) \<and> isr_handlers (k_idt k) ! 14 = Some (b_page_fault E)
     \<and> fresh_paging (b_end E) ram (k_vmm k) \<and> ports_wf (k_ports k) \<and> used (k_ports k) = {}"

lemma parts_work:
  assumes ready: "image_ready E ram k" "available_ram k = ram" and heap: "heap_ready E ram" and blank: "drivers_blank k" and bus: "bus_ready (pc_regs (k_io k))"
    and io: "b_io E = pc_ports delay media" and fuel: "0 < b_fuel E" and t: "vga_ok t"
  shows "\<exists>k' t'. boot_parts E (k\<lparr>k_vga := t\<rparr>) = Inr (k'\<lparr>k_vga := t'\<rparr>) \<and> vga_ok t' \<and> kernel_up E ram k' \<and> k_mem k' = k_mem k \<and> k_disk k' = k_disk k
     \<and> searching pc_regs (pc_regs (k_io k)) (h_malloc (b_fat E)) 73 (boot_devices (pc_regs (k_io k))) (k_pci k') \<and> k_io k' = pci_io (k_pci k') \<and> k_heap k' = pci_heap (k_pci k')"
proof -
  have env: "length (b_junk E) = 32" "\<not> b_debug E" "\<forall>p. length (b_port_block E p) = 2016" using ready(1) by (simp_all add: image_ready_def)
  obtain g i where 1: "init_tables E k = Inr (k\<lparr>k_gdt := g, k_idt := i\<rparr>)" "gdt_ok g" "idt_ok i" "irq_handlers i ! 0 = Some (b_tick E)" "interrupts_on i"
    using init_tables_works [OF ready(1)] by blast
  let ?k1 = "k\<lparr>k_gdt := g, k_idt := i\<rparr>"
  obtain d where 2: "init_uart E ?k1 = Inr (?k1\<lparr>k_io := d\<rparr>)" "pc_regs d = pc_regs (k_io k)" using init_uart_works [OF io, of ?k1] by auto
  let ?k2 = "?k1\<lparr>k_io := d\<rparr>"
  have r2: "image_ready E ram ?k2" "available_ram ?k2 = ram" "idt_ok (k_idt ?k2)" using ready 1(2,3) by (simp_all add: image_ready_def)
  let ?i = "i\<lparr>isr_handlers := (isr_handlers i)[14 := Some (b_page_fault E)]\<rparr>"
  obtain f v where 3: "init_frames E ?k2 = Inr (?k2\<lparr>k_vmm := (k_vmm ?k2)\<lparr>frames := f\<rparr>\<rparr>)"
    "init_paging E (?k2\<lparr>k_vmm := (k_vmm ?k2)\<lparr>frames := f\<rparr>\<rparr>) = Inr (?k2\<lparr>k_idt := ?i, k_vmm := v, k_heap := b_heap E v\<rparr>)" "fresh_paging (b_end E) ram v"
    using init_memory_works [OF r2] by auto
  let ?k3 = "?k2\<lparr>k_idt := ?i, k_vmm := v, k_heap := b_heap E v\<rparr>"
  have "fresh_blocks (h_malloc (b_fat E)) (Suc (73 + 512)) (k_heap ?k3) {}" using heap 3(3) by (simp add: heap_ready_def)
  from init_ports_works [OF env(3) this] obtain b h where 4: "init_ports E ?k3 = Inr (?k3\<lparr>k_ports := b, k_heap := h\<rparr>)" "ports_wf b" "used b = {}"
    "fresh_blocks (h_malloc (b_fat E)) (73 + 512) h {}" by blast
  let ?k4 = "?k3\<lparr>k_ports := b, k_heap := h\<rparr>"
  have r4: "drivers_blank ?k4" "bus_ready (pc_regs (k_io ?k4))" "idt_ok (k_idt ?k4)" "fresh_blocks (h_malloc (b_fat E)) (73 + 512) (k_heap ?k4) {}"
    using blank bus 2(2) 1(3) 4(4) by (simp_all add: drivers_blank_def idt_ok_def)
  let ?j = "?i\<lparr>irq_handlers := (irq_handlers ?i)[10 := Some (b_pci_handler E)]\<rparr>"
  obtain p where 5: "init_pci E ?k4 = Inr (?k4\<lparr>k_pci := p, k_idt := ?j, k_io := pci_io p, k_heap := pci_heap p\<rparr>)"
    "searching pc_regs (pc_regs d) (h_malloc (b_fat E)) 73 (boot_devices (pc_regs d)) p"
    using init_pci_works [OF io r4(1-3) fuel r4(4)] by auto
  let ?k5 = "?k4\<lparr>k_pci := p, k_idt := ?j, k_io := pci_io p, k_heap := pci_heap p\<rparr>"
  obtain t' where "boot_parts E (k\<lparr>k_vga := t\<rparr>) = Inr (?k5\<lparr>k_vga := t'\<rparr>)" "vga_ok t'"
    using boot_parts_run [OF env(1,2) t 1(1) 2(1) 3(1,2) 4(1) 5(1)] by blast
  moreover have "kernel_up E ram ?k5" using 1(2-5) 3(3) 4(2,3) by (simp add: kernel_up_def idt_ok_def)
  ultimately show ?thesis using 2(2) 5(2) by (intro exI [of _ ?k5] exI [of _ t']) simp
qed

section \<open>Property\<close>

text \<open>
  C1: \<open>main\<close> reaches its idle loop on a PC with one boot module that starts with the signature. Then the
  descriptor tables are loaded, the scheduler, page faults and the PCI bus have their handlers and interrupts are on, the
  heap took over paging with all frames above the image free and the image mapped, and all ports above the legacy ones are free.
  When there is an IDE controller on bus 0, its drives are listed and all their partitions are mounted; otherwise
  there is no disk.
\<close>

theorem kernel_main_boots:
  fixes k :: "('h, pc, 'm) kernel" and mi :: MultibootInformation
  defines "ram \<equiv> push_bit 10 (mem_upper mi + 1024)" and "c \<equiv> pc_regs (k_io k)"
  assumes one: "mods_count mi = 1" and sign: "starts_with CONF_SIGNATURE (b_config E) (copy_config (b_config E) mi (k_mem k))"
    and ready: "image_ready E ram k" and heap: "heap_ready E ram" and blank: "drivers_blank k" and bus: "bus_ready c"
    and io: "b_io E = pc_ports delay media" and fuel: "512 < b_fuel E" "delay < b_fuel E" and good: "\<forall>d \<in> set (ata_drives media). good_drive (b_fat E) media d"
  shows "\<exists>k'. kernel_main E mi k = Inr (Idle k') \<and> kernel_up E ram k'
     \<and> (if (1, 1) \<in> class_of c ` set (bus_devices c 0) then disks_mounted media (k_disk k') else disks (k_disk k') = 0 \<and> volumes (k_disk k') = 0)"
proof -
  have env: "length (b_junk E) = 32" "\<not> b_debug E" "length (vga_buffer (k_vga k)) = 2000" using ready by (simp_all add: image_ready_def)
  have "literal ''Parsing boot.cfg...''" "literal ('' OK'' @ [CHR 0x0A])" "literal ''Initializing disk subsystem...''"
    "literal (''Successful boot-up.'' @ [CHR 0x0A])" by (simp_all add: literal_def of_char_def)
  note sayable = this [THEN sayable_literal [OF env(1)]]
  let ?k = "k\<lparr>k_mem := copy_config (b_config E) mi (k_mem k), available_ram := ram\<rparr>"
  obtain t where t: "boot_start E mi k = Inr (?k\<lparr>k_vga := t\<rparr>)" "vga_ok t" using boot_start_runs [OF env(3,1,2)] unfolding ram_def by blast
  have "image_ready E ram ?k" "available_ram ?k = ram" "drivers_blank ?k" "bus_ready (pc_regs (k_io ?k))" "0 < b_fuel E"
    using ready blank bus fuel by (simp_all add: image_ready_def drivers_blank_def c_def)
  from parts_work [OF this(1,2) heap this(3,4) io this(5) t(2)] obtain k1 t1 where 1: "boot_parts E (?k\<lparr>k_vga := t\<rparr>) = Inr (k1\<lparr>k_vga := t1\<rparr>)" "vga_ok t1"
    "kernel_up E ram k1" "k_mem k1 = copy_config (b_config E) mi (k_mem k)" "k_disk k1 = k_disk k"
    "searching pc_regs c (h_malloc (b_fat E)) 73 (boot_devices c) (k_pci k1)" "k_io k1 = pci_io (k_pci k1)" "k_heap k1 = pci_heap (k_pci k1)"
    by (auto simp: c_def)
  obtain t2 where t2: "say E ''Parsing boot.cfg...'' [] (k1\<lparr>k_vga := t1\<rparr>) = Inr (k1\<lparr>k_vga := t2\<rparr>)" "vga_ok t2" using say_runs [OF sayable(1) 1(2)] by blast
  let ?k2 = "k1\<lparr>k_mem := (k_mem k1)(b_config E + 7 := 0)\<rparr>"
  obtain t3 where t3: "say E ('' OK'' @ [CHR 0x0A]) [] (?k2\<lparr>k_vga := t2\<rparr>) = Inr (?k2\<lparr>k_vga := t3\<rparr>)" "vga_ok t3" using say_runs [OF sayable(2) t2(2)] by blast
  obtain t4 where t4: "say E ''Initializing disk subsystem...'' [] (?k2\<lparr>k_vga := t3\<rparr>) = Inr (?k2\<lparr>k_vga := t4\<rparr>)" "vga_ok t4" using say_runs [OF sayable(3) t3(2)] by blast
  have "drivers_blank (?k2\<lparr>k_pci := k_pci k\<rparr>)" using blank 1(5) by (simp add: drivers_blank_def)
  from init_disks_works [OF io this env(1) t4(2) _ _ _ fuel good, of c] 1(6-8) obtain s t5 where
    5: "init_disks E (?k2\<lparr>k_vga := t4\<rparr>) = Inr (?k2\<lparr>k_disk := s, k_io := dev (ide s), k_heap := ide_heap (ide s), k_vga := t5\<rparr>)" "vga_ok t5"
    "if (1, 1) \<in> class_of c ` set (bus_devices c 0) then disks_mounted media s else disks s = 0 \<and> volumes s = 0" by auto
  let ?k3 = "?k2\<lparr>k_disk := s, k_io := dev (ide s), k_heap := ide_heap (ide s)\<rparr>"
  obtain t6 where t6: "say E ('' OK'' @ [CHR 0x0A]) [] (?k3\<lparr>k_vga := t5\<rparr>) = Inr (?k3\<lparr>k_vga := t6\<rparr>)" "vga_ok t6" using say_runs [OF sayable(2) 5(2)] by blast
  obtain t7 where t7: "say E (''Successful boot-up.'' @ [CHR 0x0A]) [] (?k3\<lparr>k_vga := t6\<rparr>) = Inr (?k3\<lparr>k_vga := t7\<rparr>)" using say_runs [OF sayable(4) t6(2)] by blast
  have "kernel_main E mi k = Inr (Idle (?k3\<lparr>k_vga := t7\<rparr>))"
    using t(1) one 1(1,4) t2(1) sign t3(1) t4(1) 5(1) t6(1) t7 by (simp add: kernel_main_def report_def ParseConfig_eq vga_last del: fun_upd_apply)
  then show ?thesis using 1(3) 5(3) by (intro exI [of _ "?k3\<lparr>k_vga := t7\<rparr>"]) (simp add: kernel_up_def)
qed

text \<open>The machine of \<open>Pc_Machine\<close> with 32 MiB, a kernel image of 2 MiB and a module of eight bytes.\<close>

definition boot_memory :: mem where
  "boot_memory = (\<lambda>_. 0)(0x9001 := 0xA0, 0x9004 := 0x08, 0x9005 := 0xA0,
     0xA000 := 0x6E, 0xA001 := 0x6F, 0xA002 := 0x74, 0xA003 := 0x6A, 0xA004 := 0x75, 0xA005 := 0x6E, 0xA006 := 0x6B)"

definition boot_info :: MultibootInformation where
  "boot_info = \<lparr>mb_flags = 0, mem_lower = 640, mem_upper = 31744, boot_device = 0, cmdline = 0, mods_count = 1, mods_addr = 0x9000\<rparr>"

definition demo_kernel :: "(nat, pc, u32) kernel" where
  "demo_kernel = \<lparr>k_mem = boot_memory, available_ram = 0, k_vga = boot_vga, k_gdt = boot_gdt, k_idt = boot_idt, k_vmm = demo_vmm,
     k_ports = demo_bitmap, k_io = demo_pc, k_heap = 0, k_pci = \<lparr>pci_devices_list = 0, pci_devs = Map.empty, pci_heap = 0, pci_io = demo_pc\<rparr>, k_disk = pc_disks\<rparr>"

definition demo_boot :: "(nat, pc, u32) boot_env" where
  "demo_boot = \<lparr>b_junk = replicate 32 0, b_debug = False, b_end = 0xC0200000, b_config = 0x1F000, b_gdt = 0xC0110000, b_tss = 0xC0120000, b_ss = 0x10,
     b_in8 = (\<lambda>_ _. 0), b_idt = 0xC0130000, b_stub = (\<lambda>_. 0xC0100000), b_tick = 1, b_page_fault = 2, b_breakpoint = 3, b_pci_handler = 4,
     b_ier = (False, False), b_io = pc_ports 7 one_drive, b_fuel = 600, b_fat = demo_fat_env, b_bitmap_data = phys_bitmap_data,
     b_heap = (\<lambda>_. 0x1000), b_port_block = (\<lambda>_. replicate 2016 0), b_pci_junk = demo_pci_junk, b_desc = demo_desc, b_ctrl = demo_ctrl\<rparr>"

lemma demo_signature: "starts_with CONF_SIGNATURE 0x1F000 (copy_config 0x1F000 boot_info boot_memory)"
  by (simp add: starts_with_def CONF_SIGNATURE_def text_of_def of_char_def copy_config_def module_at_def boot_info_def boot_memory_def
      memcpy_def read32_def write32_def MAX_CONF_SIZE_def upt_rec)

lemma demo_image: "image_ready demo_boot 0x2000000 demo_kernel"
proof -
  have "kernel_frames 0xC0200000 = 512" by (simp add: kernel_frames_def kernel_bytes_def KERNEL_STATIC_MEM_START_def)
  then show ?thesis using demo_vmm_tables gdt_ok_boot idt_ok_boot
    by (simp add: image_ready_def demo_boot_def demo_kernel_def boot_vga_def del: replicate_numeral)
qed

lemma demo_bus: "bus_ready demo_regs" "(1, 1) \<in> class_of demo_regs ` set (bus_devices demo_regs 0)"
proof -
  have "\<not> ((ucast (drop_bit 24 (demo_regs a)) :: u8) = 0x06 \<and> (ucast (drop_bit 16 (demo_regs a)) :: u8) = 0x04)" for a by (simp add: demo_regs_def)
  moreover have "PciConfigAddress b d f 0x0B = PciConfigAddress b d f 0x0A" for b d f by (simp add: PciConfigAddress_def)
  ultimately have "\<not> is_bridge demo_regs 0 d f" for d f by (simp add: is_bridge_def)
  moreover have "\<not> multi demo_regs 0 0" by (simp add: multi_def demo_regs_def PciConfigAddress_def)
  ultimately show "bus_ready demo_regs" by (simp add: bus_ready_def)
  have "vendor demo_regs 0 1 0 \<noteq> 0xFFFF" by (simp add: vendor_def demo_regs_def PciConfigAddress_def)
  then have "(0, 1, 0) \<in> set (bus_devices demo_regs 0)" by (simp add: bus_devices_def functions_of_def) (auto intro!: bexI [of _ 1])
  moreover have "class_of demo_regs (0, 1, 0) = (1, 1)" by (simp add: class_of_def demo_regs_def PciConfigAddress_def)
  ultimately show "(1, 1) \<in> class_of demo_regs ` set (bus_devices demo_regs 0)" by (metis imageI)
qed

theorem kernel_main_boots_witness:
  "\<exists>k a v. kernel_main demo_boot boot_info demo_kernel = Inr (Idle k) \<and> irq_handlers (k_idt k) ! 0 = Some 1 \<and> mmu_translate (k_vmm k) 0xC0100004 = Some 0x100004
     \<and> GetDiskDescriptor 1 (k_disk k) = Inr a \<and> GetVolume a 0 (k_disk k) = Inr v \<and> mounted (fat (k_disk k)) v demo_br"
proof -
  have ram: "push_bit 10 (mem_upper boot_info + 1024) = 0x2000000" by (simp add: boot_info_def push_bit_eq_mult)
  have e: "b_config demo_boot = 0x1F000" "k_mem demo_kernel = boot_memory" "pc_regs (k_io demo_kernel) = demo_regs" "b_end demo_boot = 0xC0200000"
    "b_io demo_boot = pc_ports 7 one_drive" "b_fuel demo_boot = 600" "b_fat demo_boot = demo_fat_env" "b_tick demo_boot = 1" "mods_count boot_info = 1"
    by (simp_all add: demo_boot_def demo_kernel_def demo_pc_def boot_info_def)
  have "fresh_blocks bump 586 0x1000 {}" by (rule fresh_blocks_bump) simp_all
  then have heap: "heap_ready demo_boot 0x2000000" by (simp add: heap_ready_def demo_boot_def demo_fat_env_def)
  have blank: "drivers_blank demo_kernel" by (simp add: drivers_blank_def demo_kernel_def pc_disks_def found_disk_def objects_def)
  have good: "\<forall>d \<in> set (ata_drives one_drive). good_drive demo_fat_env one_drive d" using one_drive_good by simp
  obtain k where k: "kernel_main demo_boot boot_info demo_kernel = Inr (Idle k)" "kernel_up demo_boot 0x2000000 k" "disks_mounted one_drive (k_disk k)"
    using kernel_main_boots [where k = demo_kernel and mi = boot_info and E = demo_boot and delay = 7 and media = one_drive, unfolded ram e]
      demo_signature demo_image heap blank demo_bus good by auto
  have "irq_handlers (k_idt k) ! 0 = Some 1" "mmu_translate (k_vmm k) 0xC0100004 = kernel_translation 0xC0200000 0xC0100004"
    using k(2) e by (simp_all add: kernel_up_def fresh_paging_def)
  moreover have "kernel_translation 0xC0200000 0xC0100004 = Some 0x100004"
    by (simp add: kernel_translation_def kernel_frames_def kernel_bytes_def KERNEL_STATIC_MEM_START_def)
  ultimately show ?thesis using k(1) one_drive_mounted [OF k(3)] by auto
qed

end
