(* ===== verification/Boot_Heap.thy ===== *)
theory Boot_Heap
  imports Kernel_Boot Heap_Clients Heap_History
begin

text \<open>
  The heap of the boot: \<open>liballoc\<close> over the page tables that \<open>X86VirtMemMgrInit\<close> leaves keeps the promise
  \<open>heap_ready\<close> that \<open>kernel_main_boots\<close> asks for, on a machine with enough memory.
\<close>

text \<open>The heap before its first use: its variables are 0 and it has no pages.\<close>

definition first_heap :: "mem \<Rightarrow> vmm \<Rightarrow> vmm heap" where
  "first_heap m v = \<lparr>hmem = m, l_memRoot = 0, l_bestBet = 0, l_allocated = 0, l_inuse = 0, l_warningCount = 0, l_errorCount = 0,
     l_possibleOverruns = 0, interrupts = True, page_state = v\<rparr>"

lemma first_heap_ok:
  assumes "fresh_paging kend ram v"
  shows "kernel_heap_ok (first_heap m v) []"
proof (rule empty_heap_ok)
  show "heap_pages (page_state (first_heap m v)) {}" using assms by (simp add: heap_pages_def first_heap_def fresh_paging_def)
qed (simp_all add: first_heap_def)

text \<open>All frames above the image are free, and so are all pages above it.\<close>

lemma first_heap_pages:
  assumes v: "fresh_paging kend ram v" and frames: "kernel_frames kend + n + 1 \<le> unat ram div 4096" and pages: "kernel_frames kend + n < 0x40000"
  shows "pages_left n v"
proof -
  have f: "phys_wf (frames v)" "lo_ix (frames v) = kernel_frames kend + 1" "hi_ix (frames v) = unat ram div 4096" "used (frames v) = {}"
    "\<forall>p. kmap v p = kernel_map kend p" using v by (simp_all add: fresh_paging_def)
  have "fresh_frames v = frame_addr ` {lo_ix (frames v)..<hi_ix (frames v)}" using f(4) by (simp add: fresh_frames_def frames_all_def frames_used_def)
  moreover have "card (frame_addr ` {lo_ix (frames v)..<hi_ix (frames v)}) = card {lo_ix (frames v)..<hi_ix (frames v)}"
    by (rule card_image, rule inj_on_subset [OF frame_addr_inj]) (use f(1) in \<open>auto simp: phys_wf_def\<close>)
  ultimately have c: "n \<le> card (fresh_frames v)" using f(2,3) frames by simp
  let ?t = "0xC0001 + kernel_frames kend"
  have "\<not> present (kmap v (of_nat j))" if "j \<in> {?t..<?t + n}" for j
  proof -
    have "j < 1048576" using that pages by simp
    then have "unat (of_nat j :: 20 word) = j" by (simp add: unat_of_nat_less)
    then show ?thesis using that f(5) by (simp add: kernel_map_def zero_pte_def pte_of_word_def)
  qed
  then have "free_pages v ?t n" using pages by (simp add: free_pages_def)
  moreover have "first_page True \<le> ?t" by (simp add: first_page_def KERNEL_STATIC_MEM_START_def)
  ultimately show ?thesis using c unfolding pages_left_def by blast
qed

lemma first_heap_fresh:
  assumes "fresh_paging kend ram v" and "kernel_frames kend + 16 * n + 1 \<le> unat ram div 4096" and "kernel_frames kend + 16 * n < 0x40000" and "2 * n < fuel"
  shows "fresh_blocks (kernel_malloc fuel fresh) n (first_heap m v) {}"
proof (rule kernel_heap_fresh [OF first_heap_ok [OF assms(1)]])
  show "pages_left (16 * n) (page_state (first_heap m v))" using first_heap_pages [OF assms(1-3)] by (simp add: first_heap_def)
qed (use assms(4) in \<open>simp_all add: fuel_for_def\<close>)

lemma kernel_heap_ready:
  assumes "h_malloc (b_fat E) = kernel_malloc fuel fresh" and "b_heap E = first_heap m" and "1172 < fuel"
    and "kernel_frames (b_end E) + 9377 \<le> unat ram div 4096" and "kernel_frames (b_end E) + 9376 < 0x40000"
  shows "heap_ready E ram"
  using first_heap_fresh [where n = 586 and fuel = fuel and kend = "b_end E" and ram = ram] assms by (simp add: heap_ready_def)

text \<open>
  C19: the heap keeps the promise the device drivers rely on. After the memory managers are initialised, its
  first \<open>n\<close> requests of up to 32 KiB each return blocks that are not \<open>NULL\<close> and differ from each other, when there are 16 frames
  for each above the kernel image and address space for them. Loops of the allocator end after at most
  twice as many steps as there were requests.
\<close>

theorem kernel_heap_serves_clients:
  assumes "kernel_frames kend + 16 * n + 1 \<le> unat ram div 4096" and "kernel_frames kend + 16 * n < 0x40000" and "length words = length phys_bitmap_data"
    and "kpd_frame v \<notin> range (\<lambda>t :: 10 word. kpt_frame v + ucast t)" and "14 < length (isr_handlers i)" and "2 * n < fuel"
  shows "\<exists>f i' v'. X86PhysMemMgrInit kend (frames v) words ram = Inr f \<and> X86VirtMemMgrInit kend handler i (v\<lparr>frames := f\<rparr>) = Inr (i', v')
     \<and> fresh_blocks (kernel_malloc fuel fresh) n (first_heap m v') {}"
proof -
  have "kernel_frames kend < 0x40000" "kernel_frames kend + 1 \<le> unat ram div 4096" using assms(1,2) by simp_all
  from memory_managers_work [OF this assms(3-5), of handler] obtain f i' v' where "X86PhysMemMgrInit kend (frames v) words ram = Inr f"
    "X86VirtMemMgrInit kend handler i (v\<lparr>frames := f\<rparr>) = Inr (i', v')" "fresh_paging kend ram v'" by blast
  then show ?thesis using first_heap_fresh [OF _ assms(1,2,6)] by blast
qed

theorem kernel_heap_serves_clients_witness:
  "\<exists>f i' v'. X86PhysMemMgrInit 0xC0200000 (frames demo_vmm) phys_bitmap_data 0x4000000 = Inr f
     \<and> X86VirtMemMgrInit 0xC0200000 (5 :: nat) boot_idt (demo_vmm\<lparr>frames := f\<rparr>) = Inr (i', v')
     \<and> fresh_blocks (kernel_malloc 1200 (\<lambda>_ _. 0)) 586 (first_heap (\<lambda>_. 0) v') {}"
proof -
  have "kernel_frames 0xC0200000 = 512" by (simp add: kernel_frames_def kernel_bytes_def KERNEL_STATIC_MEM_START_def)
  moreover have "14 < length (isr_handlers boot_idt)" by (simp add: boot_idt_def)
  ultimately show ?thesis using kernel_heap_serves_clients [of "0xC0200000" 586 "0x4000000" phys_bitmap_data demo_vmm boot_idt 1200] demo_vmm_tables by simp
qed

end
