(* ===== verification/Spec2Isabelle.thy ===== *)
theory Spec2Isabelle
  imports Io_Ports Stdlib_Mem Process_Heap Process_Loading User_Syscall Fat_Mounting Pci_Enumeration Gdb_Packets
    Heap_Properties Boot_Heap
begin

text \<open>
  A model of VV4OS, a 32-bit x86 kernel written in C (\<open>src/kernel/src\<close>), and the theorems that make its parts
  correct. The kernel sets up descriptor tables and paging, finds disks on the PCI and IDE buses, mounts
  FAT32 volumes, loads programs from them and runs these in user mode under a round-robin scheduler,
  with six system calls.

  \<^bold>\<open>Conventions.\<close> A C function is a HOL function on the state it uses. Integers keep their width
  (\<open>u8\<close> to \<open>u64\<close> are words, so arithmetic wraps around as in the code); an \<open>int\<close> of the source that cannot
  overflow is a HOL \<open>int\<close>. A failed \<open>assert\<close>, an access outside an array, a dereference of \<open>NULL\<close>, a division by
  zero and a loop without end are values \<open>Inl f\<close> of the type \<open>'a res\<close>; normal results are \<open>Inr x\<close>. So a theorem
  that states \<open>f x = Inr y\<close> says that the function ends without a fault. Objects the code links by pointers are
  values of finite maps from addresses, one map for each type; strings and disk buffers are lists of
  bytes whose end is a fault.

  \<^bold>\<open>Theories and sources.\<close>
  \<^item> \<open>Kernel_Prelude\<close>: machine types, faults, checked array access, counting loops, lemmas on words.
  \<^item> \<open>Util_Bitwise\<close>, \<open>Util_Bitmap\<close> (\<open>util/\<close>): the allocation bitmap. \<open>Index_Allocator\<close> is the interface of an
    allocator of index ranges, a locale with laws for allocation and release, and its lemma on histories of
    calls; \<open>Util_Bitmap\<close> interprets it on the bitmap.
  \<^item> \<open>Phys_Mem_Mgr\<close> (\<open>arch/x86/mem/phys_mem_mgr_x86.c\<close>) and \<open>Io_Ports\<close> (\<open>io/ports.c\<close>): frames and ports over the bitmap.
  \<^item> \<open>Virt_Mem_Mgr\<close>, \<open>Vmm_Process\<close> (\<open>arch/x86/mem/virt_mem_mgr_x86.c\<close>): page tables in physical memory. The first holds the
    model and the kernel's own address space, the second address spaces of processes.
  \<^item> \<open>Gdt_X86\<close>, \<open>Idt_X86\<close> (\<open>arch/x86/dt\<close>): descriptor tables, interrupt dispatch, interrupt controllers.
  \<^item> \<open>Stdlib_String\<close>, \<open>Stdlib_Conv\<close>, \<open>Stdlib_Mem\<close>, \<open>Stdlib_Stdio\<close> (\<open>stdlib/\<close>) and \<open>Vga_Terminal\<close> (\<open>io/vga_terminal.c\<close>):
    strings, number conversion, memory primitives, formatted output and the text screen it ends on.
  \<^item> \<open>Linked_List\<close>, \<open>Block_Heap\<close>: chains of objects in a heap, and what clients expect of \<open>malloc\<close>.
  \<^item> \<open>Vmm_Init\<close>: the address space that \<open>X86VirtMemMgrInit\<close> leaves, as the processor walks it.
  \<^item> \<open>Kernel_Heap\<close> (\<open>mem/liballoc/\<close>): \<open>malloc\<close>, \<open>free\<close>, \<open>calloc\<close> and \<open>realloc\<close> on bytes of memory. Its proof is in layers:
    \<open>Heap_Memory\<close>, \<open>Heap_Blocks\<close>, \<open>Heap_Layout\<close> (headers in memory and the blocks they stand for), \<open>Heap_Linking\<close>, \<open>Heap_Majors\<close>,
    \<open>Heap_Search\<close>, \<open>Heap_Malloc\<close>, \<open>Heap_Free\<close> (steps of the operations), \<open>Heap_Pages\<close> (\<open>hooks.c\<close>: pages from the virtual memory manager),
    \<open>Heap_Allocation\<close>, \<open>Heap_Correct\<close>, \<open>Heap_History\<close>, \<open>Heap_Properties\<close> (whole operations and sequences of calls), \<open>Heap_Clients\<close> and
    \<open>Boot_Heap\<close> (the promise to the drivers).
  \<^item> \<open>User_Process\<close> with \<open>Process_Lists\<close>, \<open>Process_Removal\<close>, \<open>Process_Heap\<close>, \<open>Process_Loading\<close> (\<open>user/process.c\<close>, \<open>arch/x86/user\<close>): the
    model, then scheduling, removal, also over \<open>liballoc\<close>, and loading. \<open>User_Syscall\<close> (\<open>user/syscall.c\<close>): system calls.
  \<^item> \<open>Port_Io\<close> (\<open>io/ports.h\<close>): the six I/O instructions as a parameter of the drivers. \<open>Port_View\<close>: a driver on a machine with
    more devices than its own.
  \<^item> \<open>Pci_Bus\<close>, \<open>Pci_Enumeration\<close> (\<open>io/pci.c\<close>); \<open>Uart\<close> (\<open>io/uart.c\<close>); \<open>Gdb_Stub\<close>, \<open>Gdb_Packets\<close> (\<open>debug/gdb_stub.c\<close>).
  \<^item> \<open>File_Descriptor\<close>, \<open>Disk_Partition\<close> (\<open>io/disk/disk.c\<close>), \<open>Ide_Controller\<close> (\<open>io/disk/ide.c\<close>), \<open>Fat32\<close>, \<open>Fat_Reading\<close>,
    \<open>Fat_Traversal\<close>, \<open>Fat_Mounting\<close> (\<open>io/disk/fs/fat.c\<close>): from sectors over partitions to files and directories.
  \<^item> \<open>Disk_Subsystem\<close>, \<open>Disk_Volumes\<close>, \<open>Pc_Machine\<close> (\<open>io/disk/disk.c\<close>, \<open>io/disk/volume.c\<close>): the lists of disks and volumes, and the search
    for controllers on a machine with a serial line, ATA channels and a PCI bus.
  \<^item> \<open>Kernel_Main\<close>, \<open>Kernel_Boot\<close> (\<open>core/vv4os.c\<close>): \<open>main\<close>, what stops it, and the state of a successful boot.

  \<^bold>\<open>How the parts fit.\<close> \<open>main\<close> runs the initialisations in order. The frame allocator gives frames to the virtual memory
  manager, which gives pages to the heap; the heap gives blocks to the port manager, the PCI and IDE drivers, the
  file system and the processes. The disk subsystem goes through the list of the PCI driver, has the IDE
  driver identify the drives and mounts their partitions with the FAT driver, which reads sectors through
  \<open>disk.c\<close>. The scheduler and the system calls are entered from the interrupt handlers registered in the
  descriptor table.

  \<^bold>\<open>Interfaces.\<close> A part relies on another through a locale, whose laws are discharged for the model of the code:
  \<^item> \<open>index_allocator\<close>, an allocator of ranges of numbers: the bitmap; \<open>frame_allocator\<close>: the frames;
  \<^item> \<open>file_sink\<close>, where formatted output goes: \<open>stdout\<close> and \<open>stderr\<close> on the terminal;
  \<^item> \<open>page_giver\<close> and \<open>page_source\<close>, which extends it by the return of pages: the virtual memory manager under the heap. The law is
    stated with what belongs to the rest of the kernel, which no operation of the heap changes, so a returned page really goes back;
  \<^item> \<open>block_heap\<close>, a heap whose blocks in use are known: \<open>malloc\<close> and \<open>free\<close> of \<open>liballoc\<close> under the file system;
    \<open>object_heap\<close>, the same for \<open>free\<close> over page tables that change meanwhile: \<open>liballoc\<close> under the removal of processes;
  \<^item> \<open>sector_device\<close> and \<open>fat_volume\<close>, which extends it by cluster chains: partitions and volumes on drives of the IDE driver;
  \<^item> \<open>pci_host\<close>, \<open>ata_host\<close>, and \<open>pc_host\<close> which joins them: the configuration registers and drives that the
    drivers talk to, as single devices and as parts of one machine;
  \<^item> \<open>port_view\<close>: the three devices of that machine.

  Parameters stand for what is not in the sources: \<open>port_ops\<close> for the devices behind the ports (a 16550, an ATA controller and PCI
  configuration registers are reference models of them), \<open>boot_env\<close> and \<open>fat_env\<close> for addresses the linker chooses, entry points of
  assembly code and the contents of uninitialised memory. Clients of the heap take \<open>malloc\<close> as an argument and rely on
  \<open>fresh_blocks\<close>: the next \<open>n\<close> requests of up to 32 KiB, more than any of theirs, return distinct new blocks. The contract
  \<open>block_heap\<close> is the same with \<open>free\<close>. \<open>Boot_Heap\<close> derives
  the first for \<open>liballoc\<close> on freshly initialised paging, so the hypothesis can be met.

  \<^bold>\<open>What is shown.\<close>
  \<^item> Memory: the bitmap allocates first fit and its clients never share an index; allocated pages are mapped to frames of
    their own; the processor translates as the tables intend; heap blocks are aligned, disjoint and keep their contents along every
    sequence of calls, every call ends, and what is freed gives its pages and frames back.
  \<^item> Library: conversions round trip, \<open>memcpy\<close> copies, \<open>printf\<close> shows the text of its format on an abstract terminal that the
    VGA driver refines.
  \<^item> Processor: every vector has its gate, interrupts reach their handlers, a tick resumes the next process with its registers
    and every process gets its turn; processes are loaded and removed without touching the others.
  \<^item> Disks: the IDE driver returns the sectors of the drive, reads of partitions, files and directories return what is on the
    disk, and every partition in use is mounted.
  \<^item> Boot: \<open>main\<close> reaches its idle loop when its needs are met, and stops without one module or without the signature.
  \<^item> Where the code does not do what it means to, the theorem states what it does: requests that wrap around, checks of user
    buffers that can be passed by, \<open>NULL\<close> that is dereferenced, memory that is not given back.

  \<^bold>\<open>Bounds and fuel.\<close> Loops over lists of objects are total because meeting a node twice is a fault. Loops that wait for a
  device, follow cluster chains, walk heap blocks or search behind bridges have a bound as their argument; running out of it is
  \<open>Diverges\<close>. Theorems ask for a bound above what the data need (the delay of the drive, the number of blocks, the length of the
  chain or list) and state the result, so that the loops are shown to end. The boot needs 586 requests of the heap, one for the ports, 512
  for PCI devices and 73 for disks and volumes; 512 is also the longest list of devices.

  \<^bold>\<open>Separate views of memory.\<close> Bytes that the configuration, the heap, the page tables and the drivers use are
  separate components of the state: \<open>k_mem\<close>, \<open>hmem\<close>, \<open>pmem\<close> and typed objects. That heap blocks lie in mapped pages of their own
  frames is part of the heap invariant. Once the heap is in use, page tables and frames are part of its state.

  \<^bold>\<open>Not modelled.\<close> Assembly (entry stubs, loads of descriptor tables, the switch to user mode): its effect is recorded in the state
  or a parameter. The debug messages of \<open>liballoc\<close>, which are not compiled in; fields of the boot information, PCI constants and
  declarations that no code uses; interrupts between two statements of kernel code other than at the entries modelled.
\<close>

end
